(* ===== verification/Prelude.thy ===== *)
theory Prelude
  imports Main "HOL-Library.Word"
begin

unbundle bit_operations_syntax

text \<open>
  Shared machinery of the development: the outcome type of kernel code, the state-passing
  combinators every component is written with, bounded loops with their enough-fuel lemma,
  the invariant-preservation calculus (\<open>keeps\<close>), and little-endian byte access.

  A piece of kernel code is a function from the kernel state to an outcome:
  \<^item> \<open>Ok x s\<close>: it returned \<open>x\<close> in state \<open>s\<close>;
  \<^item> \<open>Panic m\<close>: it called \<open>panic(m)\<close>, which never returns;
  \<^item> \<open>Sleep s k\<close>: it gave up the processor inside \<open>schedule()\<close>, leaving state \<open>s\<close>
    to the task that runs next; when the task is chosen again, in a state \<open>u\<close> the other tasks have left, it goes on
    with \<open>k u\<close>;
  \<^item> \<open>Die c s\<close>: it called \<open>do_exit(c)\<close> for the current process in state \<open>s\<close>;
  \<^item> \<open>Fault\<close>: it dereferenced NULL or indexed an array out of range;
  \<^item> \<open>NoFuel\<close>: the bound of a loop or of a recursion of the model was exhausted.
\<close>

type_synonym u8 = "8 word"
type_synonym u16 = "16 word"
type_synonym u32 = "32 word"
type_synonym ulong = "64 word"

datatype ('s, 'a) res = Ok 'a 's | Panic string | Sleep 's "'s \<Rightarrow> ('s, 'a) res" | Die int 's | Fault | NoFuel

type_synonym ('s, 'a) kprog = "'s \<Rightarrow> ('s, 'a) res"

named_theorems kdefs "unfolding rules of the state-passing combinators"
named_theorems keeps_intros "introduction rules of the invariant calculus"

text \<open>
  A loop that waits (\<open>while(locked) sleep_on(...)\<close>) may go round as often as the task is woken; \<open>WAIT_FUEL\<close> is the
  number of times it is followed.
\<close>

abbreviation "WAIT_FUEL \<equiv> (4294967296 :: nat)"

section \<open>Combinators\<close>

definition retk :: "'a \<Rightarrow> ('s, 'a) kprog" where
  [kdefs]: "retk x = (\<lambda>s. Ok x s)"

primrec bindr :: "('s, 'a) res \<Rightarrow> ('a \<Rightarrow> ('s, 'b) kprog) \<Rightarrow> ('s, 'b) res" where
  "bindr (Ok x s) k = k x s"
| "bindr (Panic e) k = Panic e"
| "bindr (Sleep s f) k = Sleep s (\<lambda>u. bindr (f u) k)"
| "bindr (Die c s) k = Die c s"
| "bindr Fault k = Fault"
| "bindr NoFuel k = NoFuel"

definition bindk :: "('s, 'a) kprog \<Rightarrow> ('a \<Rightarrow> ('s, 'b) kprog) \<Rightarrow> ('s, 'b) kprog" where
  bindk_bindr: "bindk m k = (\<lambda>s. bindr (m s) k)"

lemma bindk_def [kdefs]: "bindk m k = (\<lambda>s. case m s of
       Ok x s' \<Rightarrow> k x s'
     | Panic e \<Rightarrow> Panic e
     | Sleep s' f \<Rightarrow> Sleep s' (\<lambda>u. bindr (f u) k)
     | Die c s' \<Rightarrow> Die c s'
     | Fault \<Rightarrow> Fault
     | NoFuel \<Rightarrow> NoFuel)"
  by (rule ext) (auto simp: bindk_bindr split: res.split)

definition getk :: "('s \<Rightarrow> 'a) \<Rightarrow> ('s, 'a) kprog" where
  [kdefs]: "getk f = (\<lambda>s. Ok (f s) s)"

definition modk :: "('s \<Rightarrow> 's) \<Rightarrow> ('s, unit) kprog" where
  [kdefs]: "modk f = (\<lambda>s. Ok () (f s))"

definition panick :: "string \<Rightarrow> ('s, 'a) kprog" where
  [kdefs]: "panick e = (\<lambda>s. Panic e)"

definition faultk :: "('s, 'a) kprog" where
  [kdefs]: "faultk = (\<lambda>s. Fault)"

definition diek :: "int \<Rightarrow> ('s, 'a) kprog" where
  [kdefs]: "diek c = (\<lambda>s. Die c s)"

definition whenk :: "bool \<Rightarrow> ('s, unit) kprog \<Rightarrow> ('s, unit) kprog" where
  [kdefs]: "whenk b m = (if b then m else retk ())"

definition derefk :: "'a option \<Rightarrow> ('s, 'a) kprog" where
  [kdefs]: "derefk p = (case p of None \<Rightarrow> faultk | Some x \<Rightarrow> retk x)"

text \<open>A C array read: out of range is a fault.\<close>

definition nthk :: "'a list \<Rightarrow> nat \<Rightarrow> ('s, 'a) kprog" where
  [kdefs]: "nthk xs i = (if i < length xs then retk (xs ! i) else faultk)"

text \<open>\<open>for\<close> over a fixed list of indices, in order.\<close>

fun eachk :: "('a \<Rightarrow> ('s, unit) kprog) \<Rightarrow> 'a list \<Rightarrow> ('s, unit) kprog" where
  "eachk f [] = retk ()"
| "eachk f (x # xs) = bindk (f x) (\<lambda>_. eachk f xs)"

text \<open>A loop with fuel: the body returns \<open>Inl\<close> to go round again, \<open>Inr\<close> to leave.\<close>

fun loopk :: "nat \<Rightarrow> ('a \<Rightarrow> ('s, 'a + 'b) kprog) \<Rightarrow> 'a \<Rightarrow> ('s, 'b) kprog" where
  "loopk 0 f x = (\<lambda>s. NoFuel)"
| "loopk (Suc n) f x = bindk (f x) (\<lambda>r. case r of Inl y \<Rightarrow> loopk n f y | Inr z \<Rightarrow> retk z)"

lemma loopk_numeral: "loopk (numeral k) f x =
    bindk (f x) (\<lambda>r. case r of Inl y \<Rightarrow> loopk (pred_numeral k) f y | Inr z \<Rightarrow> retk z)"
  by (simp add: numeral_eq_Suc)

lemma bindk_Ok [simp]: "m s = Ok x s' \<Longrightarrow> bindk m k s = k x s'"
  by (simp add: bindk_bindr)

lemma bindk_Ok_bool [simp]:
  "m s = Ok False s' \<Longrightarrow> bindk m k s = k False s'" "m s = Ok True s' \<Longrightarrow> bindk m k s = k True s'"
  by simp_all

lemma bindk_eq_Ok:
  "bindk m k s = Ok y t \<longleftrightarrow> (\<exists>x u. m s = Ok x u \<and> k x u = Ok y t)"
  by (subst bindk_def) (auto split: res.splits)

lemma bindk_retk [simp]: "bindk (retk x) k = k x"
  by (simp add: bindk_bindr retk_def)

lemma bindk_assoc: "bindk (bindk m f) g = bindk m (\<lambda>x. bindk (f x) g)"
proof (rule ext)
  fix s
  have "bindr (bindr r f) g = bindr r (\<lambda>x s. bindr (f x s) g)" for r by (induction r) simp_all
  then show "bindk (bindk m f) g s = bindk m (\<lambda>x. bindk (f x) g) s" by (simp add: bindk_bindr)
qed

lemma bindk_Sleep [simp]: "m s = Sleep t f \<Longrightarrow> bindk m k s = Sleep t (bindk f k)"
  by (simp add: bindk_bindr)

lemma eachk_append: "eachk f (xs @ ys) = bindk (eachk f xs) (\<lambda>_. eachk f ys)"
  by (induction xs) (auto simp: bindk_assoc)

section \<open>The invariant calculus\<close>

text \<open>
  \<open>post Q r\<close>: whenever the outcome leaves a state behind for somebody to run in
  (a return, a switch to another task, an exit), \<open>Q\<close> holds of it, and a task that has switched away goes on in the
  same way from every state in which \<open>Q\<close> holds.
\<close>

primrec post :: "('s \<Rightarrow> bool) \<Rightarrow> ('s, 'a) res \<Rightarrow> bool" where
  "post Q (Ok x s) = Q s"
| "post Q (Sleep s k) = (Q s \<and> (\<forall>u. Q u \<longrightarrow> post Q (k u)))"
| "post Q (Die c s) = Q s"
| "post Q (Panic e) = True"
| "post Q Fault = True"
| "post Q NoFuel = True"

text \<open>\<open>settled P r\<close>: the code ran to its end without giving up the processor, or stopped with an error.\<close>

primrec settled :: "('s \<Rightarrow> bool) \<Rightarrow> ('s, 'a) res \<Rightarrow> bool" where
  "settled P (Ok x s) = P s"
| "settled P (Sleep s k) = False"
| "settled P (Die c s) = False"
| "settled P (Panic e) = True"
| "settled P Fault = True"
| "settled P NoFuel = True"

lemma settled_post: "settled P r \<Longrightarrow> (\<And>s. P s \<Longrightarrow> Q s) \<Longrightarrow> post Q r"
  by (cases r) auto

definition keeps :: "('s \<Rightarrow> bool) \<Rightarrow> ('s, 'a) kprog \<Rightarrow> bool" where
  "keeps Q m \<longleftrightarrow> (\<forall>s. Q s \<longrightarrow> post Q (m s))"

lemma keepsD: "keeps Q m \<Longrightarrow> Q s \<Longrightarrow> m s = Ok x t \<Longrightarrow> Q t"
  by (metis keeps_def post.simps(1))

lemma keeps_retk [keeps_intros]: "keeps Q (retk x)"
  by (simp add: keeps_def retk_def)

lemma keeps_getk [keeps_intros]: "keeps Q (getk f)"
  by (simp add: keeps_def getk_def)

lemma keeps_panick [keeps_intros]: "keeps Q (panick e)"
  by (simp add: keeps_def panick_def)

lemma keeps_faultk [keeps_intros]: "keeps Q faultk"
  by (simp add: keeps_def faultk_def)

lemma keeps_diek [keeps_intros]: "keeps Q (diek c)"
  by (simp add: keeps_def diek_def)

lemma keeps_nthk [keeps_intros]: "keeps Q (nthk xs i)"
  by (simp add: keeps_def nthk_def retk_def faultk_def)

lemma keeps_derefk [keeps_intros]: "keeps Q (derefk p)"
  by (simp add: keeps_def derefk_def retk_def faultk_def split: option.splits)

lemma keeps_bindk [keeps_intros]:
  "keeps Q m \<Longrightarrow> (\<And>x. keeps Q (k x)) \<Longrightarrow> keeps Q (bindk m k)"
proof -
  assume m: "keeps Q m" and k: "\<And>x. keeps Q (k x)"
  have "post Q r \<Longrightarrow> post Q (bindr r k)" for r
    by (induction r) (use k in \<open>auto simp: keeps_def\<close>)
  then show ?thesis using m by (simp add: keeps_def bindk_bindr)
qed

lemma keeps_if [keeps_intros]:
  "(b \<Longrightarrow> keeps Q m) \<Longrightarrow> (\<not> b \<Longrightarrow> keeps Q n) \<Longrightarrow> keeps Q (if b then m else n)"
  by simp

lemma keeps_whenk [keeps_intros]: "(b \<Longrightarrow> keeps Q m) \<Longrightarrow> keeps Q (whenk b m)"
  by (simp add: whenk_def keeps_retk)

lemma keeps_option [keeps_intros]:
  "(p = None \<Longrightarrow> keeps Q m) \<Longrightarrow> (\<And>x. p = Some x \<Longrightarrow> keeps Q (n x)) \<Longrightarrow>
    keeps Q (case p of None \<Rightarrow> m | Some x \<Rightarrow> n x)"
  by (simp split: option.splits)

lemma keeps_modk: "(\<And>s. Q s \<Longrightarrow> Q (f s)) \<Longrightarrow> keeps Q (modk f)"
  by (simp add: keeps_def modk_def)

lemma keeps_eachk [keeps_intros]: "(\<And>x. keeps Q (f x)) \<Longrightarrow> keeps Q (eachk f xs)"
  by (induction xs) (auto intro!: keeps_intros)

lemma keeps_loopk [keeps_intros]:
  assumes "\<And>x. keeps Q (f x)"
  shows "keeps Q (loopk n f x)"
proof (induction n arbitrary: x)
  case 0
  show ?case by (simp add: keeps_def)
next
  case (Suc n)
  have "keeps Q (case r of Inl y \<Rightarrow> loopk n f y | Inr z \<Rightarrow> retk z)" for r
    by (cases r) (simp_all add: Suc.IH keeps_retk)
  then show ?case by (simp add: assms keeps_bindk)
qed

section \<open>Enough fuel\<close>

text \<open>
  If every round that goes on decreases a measure, and no round runs out of fuel itself,
  then a loop started with more fuel than the measure does not run out of fuel.
\<close>

lemma loopk_enough_fuel:
  assumes dec: "\<And>x s y t. I s \<Longrightarrow> f x s = Ok (Inl y) t \<Longrightarrow> \<mu> y < \<mu> x \<and> I t"
    and nf: "\<And>x s. I s \<Longrightarrow> f x s \<noteq> NoFuel"
  shows "\<mu> x < n \<Longrightarrow> I s \<Longrightarrow> loopk n f x s \<noteq> NoFuel"
proof (induction n arbitrary: x s)
  case 0
  then show ?case by simp
next
  case (Suc n)
  show ?case
  proof (cases "f x s")
    case (Ok r t)
    show ?thesis
    proof (cases r)
      case (Inl y)
      with Ok dec Suc.prems have "\<mu> y < n" "I t" by fastforce+
      with Suc.IH Ok Inl show ?thesis by (simp add: bindk_def)
    qed (use Ok in \<open>simp add: bindk_def retk_def\<close>)
  qed (use nf [of s x] Suc.prems in \<open>simp_all add: bindk_def\<close>)
qed

section \<open>Words\<close>

lemma nat_bit_bound: "(i :: nat) < 2 ^ k \<Longrightarrow> bit i n \<Longrightarrow> n < k"
proof (rule ccontr)
  assume "i < 2 ^ k" "bit i n" "\<not> n < k"
  then have "(2 :: nat) ^ k \<le> 2 ^ n" by (intro power_increasing) simp_all
  with \<open>i < 2 ^ k\<close> have "i < 2 ^ n" by linarith
  with \<open>bit i n\<close> show False by (simp add: bit_iff_odd)
qed

lemma word_bit_bound: "unat (a :: 'a::len word) < 2 ^ k \<Longrightarrow> bit a n \<Longrightarrow> n < k"
  by (erule nat_bit_bound) (simp add: bit_unsigned_iff bit_imp_le_length)

lemma unat_drop_bit: "unat (drop_bit n (w :: 'a::len word)) = unat w div 2 ^ n"
  by (simp only: unsigned_drop_bit_eq)
    (simp add: drop_bit_eq_div take_bit_nat_eq_self [OF unsigned_less])

section \<open>Little-endian access to byte memories\<close>

text \<open>A byte memory is a function of the address; a 64-bit load assembles eight bytes.\<close>

definition read64 :: "(ulong \<Rightarrow> u8) \<Rightarrow> ulong \<Rightarrow> ulong" where
  "read64 m a = horner_sum of_bool 2
     (map (\<lambda>n. bit (m (a + word_of_nat (n div 8))) (n mod 8)) [0..<64])"

definition write64 :: "(ulong \<Rightarrow> u8) \<Rightarrow> ulong \<Rightarrow> ulong \<Rightarrow> (ulong \<Rightarrow> u8)" where
  "write64 m a v = (\<lambda>x. if x - a < 8 then ucast (drop_bit (8 * unat (x - a)) v) else m x)"

lemma bit_read64: "bit (read64 m a) n \<longleftrightarrow> n < 64 \<and> bit (m (a + word_of_nat (n div 8))) (n mod 8)"
  by (auto simp: read64_def bit_horner_sum_bit_word_iff)

lemma read64_write64 [simp]: "read64 (write64 m a v) a = v"
proof (rule bit_word_eqI)
  fix n assume "n < LENGTH(64)"
  then have n: "n < 64" by simp
  then have "n div 8 < 8" by linarith
  then have u: "unat (word_of_nat (n div 8) :: ulong) = n div 8"
    by (simp add: unat_word_ariths unsigned_of_nat take_bit_nat_eq_self)
  then have lt: "(word_of_nat (n div 8) :: ulong) < 8"
    using \<open>n div 8 < 8\<close> by (simp add: word_less_nat_alt)
  have "8 * (n div 8) + n mod 8 = n" by simp
  with n u lt show "bit (read64 (write64 m a v) a) n = bit v n"
    by (simp add: bit_read64 write64_def bit_simps)
qed

lemma read64_write64_other:
  assumes "8 \<le> b - a" "b - a \<le> - 8"
  shows "read64 (write64 m a v) b = read64 m b"
proof (rule bit_word_eqI)
  fix n assume "n < LENGTH(64)"
  then have n: "n < 64" by simp
  then have k: "n div 8 < 8" by linarith
  define w :: ulong where "w = word_of_nat (n div 8)"
  have w: "w < 8" using k
    by (simp add: w_def word_less_nat_alt unsigned_of_nat take_bit_nat_eq_self)
  have d: "8 \<le> unat (b - a)" "unat (b - a) \<le> 2 ^ 64 - 8" "unat w < 8"
    using assms w by (simp_all add: word_le_nat_alt word_less_nat_alt)
  then have "unat ((b - a) + w) = unat (b - a) + unat w"
    by (simp add: unat_word_ariths)
  with d have "\<not> (b - a) + w < 8"
    by (simp add: word_less_nat_alt)
  moreover have "b + w - a = (b - a) + w" by simp
  ultimately have "\<not> b + w - a < 8" by metis
  then show "bit (read64 (write64 m a v) b) n = bit (read64 m b) n"
    by (simp add: bit_read64 write64_def w_def)
qed

end
