(* ===== verification/KState.thy ===== *)
theory KState
  imports Prelude
begin

text \<open>
  The kernel's data: the structures of \<open>include/linux/fs.h\<close>, \<open>sched.h\<close>, \<open>tty.h\<close>,
  \<open>signal.h\<close>, \<open>blk.h\<close> as records, and the global variables of the C files as the fields
  of one record \<open>kstate\<close>.

  Conventions. Unsigned C fields keep their width as words. A C \<open>int\<close>/\<open>int64_t\<close> is an
  \<open>int\<close> (signed overflow is undefined in C). A pointer into a fixed kernel array
  (\<open>struct buffer_head *\<close>, \<open>m_inode *\<close>, \<open>super_block *\<close>, \<open>file *\<close>, \<open>request *\<close>) is the
  index of the element, NULL is \<open>None\<close>. A \<open>task_struct *\<close> is its address (tasks live in
  pages the allocator hands out), NULL is 0, and \<open>tasks\<close> is the store of task structures
  by address. Physical memory outside those arrays is the byte store \<open>pmem\<close>.
\<close>

section \<open>Structures\<close>

record buffer_head =
  b_data :: "u8 list"
  b_blocknr :: ulong
  b_dev :: u16
  b_uptodate :: u8
  b_dirt :: u8
  b_count :: u8
  b_lock :: u8
  b_wait :: ulong
  b_prev :: "nat option"
  b_next :: "nat option"
  b_prev_free :: "nat option"
  b_next_free :: "nat option"

record m_inode =
  i_mode :: u16
  i_uid :: u16
  i_size :: u32
  i_mtime :: u32
  i_gid :: u8
  i_nlinks :: u8
  i_zone :: "u16 list"
  i_wait :: ulong
  i_atime :: u32
  i_ctime :: u32
  i_dev :: u16
  i_num :: u16
  i_count :: u16
  i_lock :: u8
  i_dirt :: u8
  i_pipe :: u8
  i_mount :: u8
  i_seek :: u8
  i_update :: u8

record d_inode =
  di_mode :: u16
  di_uid :: u16
  di_size :: u32
  di_time :: u32
  di_gid :: u8
  di_nlinks :: u8
  di_zone :: "u16 list"

record file_struct =
  f_mode :: u16
  f_flags :: u16
  f_count :: u16
  f_inode :: "nat option"
  f_pos :: int

record super_block =
  s_ninodes :: u16
  s_nzones :: u16
  s_imap_blocks :: u16
  s_zmap_blocks :: u16
  s_firstdatazone :: u16
  s_log_zone_size :: u16
  s_max_size :: u32
  s_magic :: u16
  s_imap :: "nat option list"
  s_zmap :: "nat option list"
  s_dev :: u16
  s_isup :: "nat option"
  s_imount :: "nat option"
  s_time :: u32
  s_wait :: ulong
  s_lock :: u8
  s_rd_only :: u8
  s_dirt :: u8

record request =
  r_dev :: int
  r_cmd :: int
  r_errors :: int
  r_sector :: ulong
  r_nr_sectors :: ulong
  r_waiting :: ulong
  r_bh :: "nat option"
  r_next :: "nat option"

text \<open>A block device has a request function or not, and a queue of requests.\<close>

record blk_dev_struct =
  request_fn :: bool
  current_request :: "nat option"

record sigaction =
  sa_handler :: ulong
  sa_mask :: u32
  sa_flags :: u32
  sa_restorer :: ulong

text \<open>
  Of the register image \<open>tss\<close>, which assembly saves and restores, the record has what C code writes:
  the stack pointer and the program counter of a new process.
\<close>

record task_struct =
  t_state :: int
  t_counter :: int
  t_priority :: int
  t_signal :: ulong
  t_sigaction :: "sigaction list"
  t_blocked :: ulong
  t_exit_code :: int
  t_start_code :: ulong
  t_end_code :: ulong
  t_end_data :: ulong
  t_brk :: ulong
  t_start_stack :: ulong
  t_pid :: int
  t_father :: int
  t_pgrp :: int
  t_session :: int
  t_leader :: int
  t_uid :: u16
  t_euid :: u16
  t_suid :: u16
  t_gid :: u16
  t_egid :: u16
  t_sgid :: u16
  t_alarm :: int
  t_utime :: int
  t_stime :: int
  t_cutime :: int
  t_cstime :: int
  t_start_time :: int
  t_tty :: int
  t_umask :: u16
  t_pwd :: "nat option"
  t_root :: "nat option"
  t_executable :: "nat option"
  t_close_on_exec :: ulong
  t_filp :: "nat option list"
  t_page_dir :: ulong
  t_code_base :: ulong
  t_data_base :: ulong
  t_code_limit :: ulong
  t_data_limit :: ulong
  t_tss_sp :: ulong
  t_tss_epc :: ulong

record timer_item =
  tl_jiffies :: int
  tl_fn :: "nat option"
  tl_next :: "nat option"

record tty_queue =
  q_data :: u32
  q_head :: u32
  q_tail :: u32
  q_proc_list :: ulong
  q_buf :: "u8 list"

record termios =
  c_iflag :: u32
  c_oflag :: u32
  c_cflag :: u32
  c_lflag :: u32
  c_line :: u8
  c_cc :: "u8 list"

record tty_struct =
  tty_termios :: termios
  tty_pgrp :: int
  tty_stopped :: int
  tty_read_q :: tty_queue
  tty_write_q :: tty_queue
  tty_secondary :: tty_queue

section \<open>The global variables\<close>

record kstate =
  \<comment> \<open>mm/memory.c\<close>
  mem_map :: "u8 list"
  HIGH_MEMORY :: ulong
  lastuseraddr :: ulong
  lastkerneladdr :: ulong
  traned :: bool
  pmem :: "ulong \<Rightarrow> u8"
  page_dir_table :: ulong
  page_root_table :: "ulong list"
  \<comment> \<open>kernel/sched.c\<close>
  jiffies :: int
  startup_time :: int
  current :: ulong
  task :: "ulong list"
  tasks :: "ulong \<Rightarrow> task_struct"
  timer_list :: "timer_item list"
  next_timer :: "nat option"
  timer_fired :: "nat list"
  \<comment> \<open>fs/buffer.c\<close>
  bufs :: "buffer_head list"
  hash_table :: "nat option list"
  free_list :: "nat option"
  buffer_wait :: ulong
  \<comment> \<open>kernel/blk_drv\<close>
  request :: "request list"
  wait_for_request :: ulong
  blk_dev :: "blk_dev_struct list"
  rd_length :: nat
  rd_mem :: "nat \<Rightarrow> u8"
  \<comment> \<open>fs/inode.c, fs/super.c, fs/file_table.c\<close>
  inode_table :: "m_inode list"
  last_inode :: nat
  super_block :: "super_block list"
  ROOT_DEV :: int
  file_table :: "file_struct list"
  \<comment> \<open>kernel/chr_drv\<close>
  tty_table :: "tty_struct list"
  cr_flag :: bool
  uart_tx :: "u8 list"
  \<comment> \<open>kernel/segment.c, kernel/fork.c\<close>
  fs_is_kernel :: ulong
  last_pid :: int
  kernel_stack :: "ulong list"
  kernel_stackbottom :: "ulong list"
  \<comment> \<open>the registers of the interrupted program, \<open>trap_info\<close>\<close>
  trap_regs :: "ulong list"
  trap_fregs :: "ulong list"
  trap_epc :: ulong
  trap_newepc :: ulong

type_synonym 'a K = "(kstate, 'a) kprog"

section \<open>Constants\<close>

abbreviation "NR_INODE \<equiv> (32 :: nat)"
abbreviation "NR_FILE \<equiv> (64 :: nat)"
abbreviation "NR_OPEN \<equiv> (20 :: nat)"
abbreviation "NR_SUPER \<equiv> (8 :: nat)"
abbreviation "NR_HASH \<equiv> (307 :: nat)"
abbreviation "NR_TASKS \<equiv> (64 :: nat)"
abbreviation "NR_REQUEST \<equiv> (32 :: nat)"
abbreviation "USER_START_ADDR \<equiv> (0xC0000000 :: ulong)"
abbreviation "BLOCK_SIZE \<equiv> (1024 :: nat)"
abbreviation "I_MAP_SLOTS \<equiv> (8 :: nat)"
abbreviation "Z_MAP_SLOTS \<equiv> (8 :: nat)"
abbreviation "HZ \<equiv> (100 :: int)"

abbreviation "READ \<equiv> (0 :: int)"
abbreviation "WRITE \<equiv> (1 :: int)"
abbreviation "READA \<equiv> (2 :: int)"
abbreviation "WRITEA \<equiv> (3 :: int)"

abbreviation "TASK_RUNNING \<equiv> (0 :: int)"
abbreviation "TASK_INTERRUPTIBLE \<equiv> (1 :: int)"
abbreviation "TASK_UNINTERRUPTIBLE \<equiv> (2 :: int)"
abbreviation "TASK_ZOMBIE \<equiv> (3 :: int)"
abbreviation "TASK_STOPPED \<equiv> (4 :: int)"

section \<open>Access to the arrays\<close>

definition get_bh :: "nat \<Rightarrow> buffer_head K" where
  [kdefs]: "get_bh b = (\<lambda>s. if b < length (bufs s) then Ok (bufs s ! b) s else Fault)"

definition upd_bh :: "nat \<Rightarrow> (buffer_head \<Rightarrow> buffer_head) \<Rightarrow> unit K" where
  [kdefs]: "upd_bh b f = (\<lambda>s. if b < length (bufs s)
     then Ok () (s\<lparr>bufs := (bufs s)[b := f (bufs s ! b)]\<rparr>) else Fault)"

definition get_inode :: "nat \<Rightarrow> m_inode K" where
  [kdefs]: "get_inode i = (\<lambda>s. if i < length (inode_table s) then Ok (inode_table s ! i) s else Fault)"

definition upd_inode :: "nat \<Rightarrow> (m_inode \<Rightarrow> m_inode) \<Rightarrow> unit K" where
  [kdefs]: "upd_inode i f = (\<lambda>s. if i < length (inode_table s)
     then Ok () (s\<lparr>inode_table := (inode_table s)[i := f (inode_table s ! i)]\<rparr>) else Fault)"

definition get_sb :: "nat \<Rightarrow> super_block K" where
  [kdefs]: "get_sb i = (\<lambda>s. if i < length (super_block s) then Ok (super_block s ! i) s else Fault)"

definition upd_sb :: "nat \<Rightarrow> (super_block \<Rightarrow> super_block) \<Rightarrow> unit K" where
  [kdefs]: "upd_sb i f = (\<lambda>s. if i < length (super_block s)
     then Ok () (s\<lparr>super_block := (super_block s)[i := f (super_block s ! i)]\<rparr>) else Fault)"

definition get_req :: "nat \<Rightarrow> request K" where
  [kdefs]: "get_req i = (\<lambda>s. if i < length (request s) then Ok (request s ! i) s else Fault)"

definition upd_req :: "nat \<Rightarrow> (request \<Rightarrow> request) \<Rightarrow> unit K" where
  [kdefs]: "upd_req i f = (\<lambda>s. if i < length (request s)
     then Ok () (s\<lparr>request := (request s)[i := f (request s ! i)]\<rparr>) else Fault)"

definition get_task :: "ulong \<Rightarrow> task_struct K" where
  [kdefs]: "get_task p = (\<lambda>s. if p = 0 then Fault else Ok (tasks s p) s)"

definition upd_task :: "ulong \<Rightarrow> (task_struct \<Rightarrow> task_struct) \<Rightarrow> unit K" where
  [kdefs]: "upd_task p f = (\<lambda>s. if p = 0 then Fault
     else Ok () (s\<lparr>tasks := (tasks s)(p := f (tasks s p))\<rparr>))"

text \<open>\<open>CURRENT_TIME\<close> of \<open>sched.h\<close>; C division truncates, and \<open>jiffies\<close> is never negative.\<close>

definition CURRENT_TIME :: "kstate \<Rightarrow> int" where
  "CURRENT_TIME s = startup_time s + jiffies s div HZ"

section \<open>Wait queues\<close>

text \<open>
  \<open>sleep_on\<close> and \<open>wake_up\<close> take the address of a \<open>task_struct *\<close> field; the places the
  kernel passes are the constructors.
\<close>

datatype wq = WBuffer nat | WInode nat | WSuper nat | WReq nat | WBufferWait | WRequest
  | WTtyRead nat | WTtyWrite nat | WTtySec nat

fun wq_get :: "wq \<Rightarrow> kstate \<Rightarrow> ulong" where
  "wq_get (WBuffer b) s = b_wait (bufs s ! b)"
| "wq_get (WInode i) s = i_wait (inode_table s ! i)"
| "wq_get (WSuper i) s = s_wait (super_block s ! i)"
| "wq_get (WReq i) s = r_waiting (request s ! i)"
| "wq_get WBufferWait s = buffer_wait s"
| "wq_get WRequest s = wait_for_request s"
| "wq_get (WTtyRead i) s = q_proc_list (tty_read_q (tty_table s ! i))"
| "wq_get (WTtyWrite i) s = q_proc_list (tty_write_q (tty_table s ! i))"
| "wq_get (WTtySec i) s = q_proc_list (tty_secondary (tty_table s ! i))"

fun wq_set :: "wq \<Rightarrow> ulong \<Rightarrow> kstate \<Rightarrow> kstate" where
  "wq_set (WBuffer b) p s = s\<lparr>bufs := (bufs s)[b := (bufs s ! b)\<lparr>b_wait := p\<rparr>]\<rparr>"
| "wq_set (WInode i) p s = s\<lparr>inode_table := (inode_table s)[i := (inode_table s ! i)\<lparr>i_wait := p\<rparr>]\<rparr>"
| "wq_set (WSuper i) p s = s\<lparr>super_block := (super_block s)[i := (super_block s ! i)\<lparr>s_wait := p\<rparr>]\<rparr>"
| "wq_set (WReq i) p s = s\<lparr>request := (request s)[i := (request s ! i)\<lparr>r_waiting := p\<rparr>]\<rparr>"
| "wq_set WBufferWait p s = s\<lparr>buffer_wait := p\<rparr>"
| "wq_set WRequest p s = s\<lparr>wait_for_request := p\<rparr>"
| "wq_set (WTtyRead i) p s = s\<lparr>tty_table := (tty_table s)[i := (tty_table s ! i)
     \<lparr>tty_read_q := (tty_read_q (tty_table s ! i))\<lparr>q_proc_list := p\<rparr>\<rparr>]\<rparr>"
| "wq_set (WTtyWrite i) p s = s\<lparr>tty_table := (tty_table s)[i := (tty_table s ! i)
     \<lparr>tty_write_q := (tty_write_q (tty_table s ! i))\<lparr>q_proc_list := p\<rparr>\<rparr>]\<rparr>"
| "wq_set (WTtySec i) p s = s\<lparr>tty_table := (tty_table s)[i := (tty_table s ! i)
     \<lparr>tty_secondary := (tty_secondary (tty_table s ! i))\<lparr>q_proc_list := p\<rparr>\<rparr>]\<rparr>"

section \<open>The state before initialisation\<close>

text \<open>The C globals as the loader leaves them: zero, apart from explicit initialisers.\<close>

definition zero_inode :: m_inode where
  "zero_inode = \<lparr>i_mode = 0, i_uid = 0, i_size = 0, i_mtime = 0, i_gid = 0, i_nlinks = 0,
     i_zone = replicate 9 0, i_wait = 0, i_atime = 0, i_ctime = 0, i_dev = 0, i_num = 0, i_count = 0,
     i_lock = 0, i_dirt = 0, i_pipe = 0, i_mount = 0, i_seek = 0, i_update = 0\<rparr>"

definition zero_buffer :: buffer_head where
  "zero_buffer = \<lparr>b_data = replicate BLOCK_SIZE 0, b_blocknr = 0, b_dev = 0, b_uptodate = 0, b_dirt = 0,
     b_count = 0, b_lock = 0, b_wait = 0, b_prev = None, b_next = None, b_prev_free = None,
     b_next_free = None\<rparr>"

definition zero_super :: super_block where
  "zero_super = \<lparr>s_ninodes = 0, s_nzones = 0, s_imap_blocks = 0, s_zmap_blocks = 0, s_firstdatazone = 0,
     s_log_zone_size = 0, s_max_size = 0, s_magic = 0, s_imap = replicate I_MAP_SLOTS None,
     s_zmap = replicate Z_MAP_SLOTS None, s_dev = 0, s_isup = None, s_imount = None, s_time = 0,
     s_wait = 0, s_lock = 0, s_rd_only = 0, s_dirt = 0\<rparr>"

definition zero_file :: file_struct where
  "zero_file = \<lparr>f_mode = 0, f_flags = 0, f_count = 0, f_inode = None, f_pos = 0\<rparr>"

definition zero_request :: request where
  "zero_request = \<lparr>r_dev = 0, r_cmd = 0, r_errors = 0, r_sector = 0, r_nr_sectors = 0, r_waiting = 0,
     r_bh = None, r_next = None\<rparr>"

definition zero_sigaction :: sigaction where
  "zero_sigaction = \<lparr>sa_handler = 0, sa_mask = 0, sa_flags = 0, sa_restorer = 0\<rparr>"

definition zero_task :: task_struct where
  "zero_task = \<lparr>t_state = 0, t_counter = 0, t_priority = 0, t_signal = 0,
     t_sigaction = replicate 32 zero_sigaction, t_blocked = 0, t_exit_code = 0, t_start_code = 0,
     t_end_code = 0, t_end_data = 0, t_brk = 0, t_start_stack = 0, t_pid = 0, t_father = 0, t_pgrp = 0,
     t_session = 0, t_leader = 0, t_uid = 0, t_euid = 0, t_suid = 0, t_gid = 0, t_egid = 0, t_sgid = 0,
     t_alarm = 0, t_utime = 0, t_stime = 0, t_cutime = 0, t_cstime = 0, t_start_time = 0, t_tty = 0,
     t_umask = 0, t_pwd = None, t_root = None, t_executable = None, t_close_on_exec = 0,
     t_filp = replicate NR_OPEN None, t_page_dir = 0, t_code_base = 0, t_data_base = 0,
     t_code_limit = 0, t_data_limit = 0, t_tss_sp = 0, t_tss_epc = 0\<rparr>"

definition zero_timer :: timer_item where
  "zero_timer = \<lparr>tl_jiffies = 0, tl_fn = None, tl_next = None\<rparr>"

definition zero_queue :: tty_queue where
  "zero_queue = \<lparr>q_data = 0, q_head = 0, q_tail = 0, q_proc_list = 0, q_buf = replicate 1024 0\<rparr>"

text \<open>\<open>INIT_C_CC\<close> of \<open>tty.h\<close> and the first entry of \<open>tty_table\<close> in \<open>tty_io.c\<close>:
  ICRNL; ISIG, ICANON, ECHO, ECHOPRT, ECHOKE.\<close>

definition INIT_C_CC :: "u8 list" where
  "INIT_C_CC = [3, 28, 127, 21, 4, 0, 1, 0, 17, 19, 26, 0, 18, 15, 23, 22, 0]"

definition init_tty :: tty_struct where
  "init_tty = \<lparr>tty_termios = \<lparr>c_iflag = 0x100, c_oflag = 0, c_cflag = 0,
       c_lflag = 0xC0B, c_line = 0, c_cc = INIT_C_CC\<rparr>,
     tty_pgrp = 0, tty_stopped = 0, tty_read_q = zero_queue, tty_write_q = zero_queue,
     tty_secondary = zero_queue\<rparr>"

text \<open>The address of the statically allocated \<open>init_task\<close>; the linker chooses it, and only its
  being non-NULL matters.\<close>

abbreviation "INIT_TASK \<equiv> (0x80080000 :: ulong)"

definition kernel_image :: kstate where
  "kernel_image = \<lparr>mem_map = replicate 3840 0, HIGH_MEMORY = 0, lastuseraddr = 0, lastkerneladdr = 0,
     traned = False, pmem = (\<lambda>_. 0), page_dir_table = 0, page_root_table = replicate 8 0,
     jiffies = 0, startup_time = 0, current = INIT_TASK, task = INIT_TASK # replicate 63 0,
     tasks = (\<lambda>_. zero_task), timer_list = replicate 64 zero_timer, next_timer = None, timer_fired = [],
     bufs = [], hash_table = replicate NR_HASH None, free_list = None, buffer_wait = 0,
     request = replicate NR_REQUEST zero_request, wait_for_request = 0,
     blk_dev = replicate 7 \<lparr>request_fn = False, current_request = None\<rparr>,
     rd_length = 0, rd_mem = (\<lambda>_. 0),
     inode_table = replicate NR_INODE zero_inode, last_inode = 0,
     super_block = replicate NR_SUPER zero_super, ROOT_DEV = 0,
     file_table = replicate NR_FILE zero_file, tty_table = [init_tty], cr_flag = False, uart_tx = [],
     fs_is_kernel = 0, last_pid = 0, kernel_stack = replicate NR_TASKS 0, kernel_stackbottom = replicate NR_TASKS 0,
     trap_regs = replicate 32 0, trap_fregs = replicate 32 0, trap_epc = 0, trap_newepc = 0\<rparr>"

end
