(* ===== verification/Pte.thy ===== *)
theory Pte
  imports KState
begin

text \<open>
  Page table entries (\<open>riscvfunc/page_table_entry.c\<close>, \<open>page_table_entry.h\<close>): a 64-bit word with
  the flag bits V R W X U G A D in bits 0 to 7 and the 38-bit physical page number from bit 10.
  The kernel handles entries through the 64-bit model in C bit-fields; here a bit-field read is
  \<open>bit\<close> or \<open>take_bit\<close> of the word and a bit-field write replaces just those bits. Physical
  addresses of the machine are below \<open>2 ^ 50\<close>, so the shift in \<open>pte_common_ppn_to_addr\<close> loses
  nothing.
\<close>

definition pte_v :: "ulong \<Rightarrow> bool" where "pte_v w = bit w 0"
definition pte_r :: "ulong \<Rightarrow> bool" where "pte_r w = bit w 1"
definition pte_w :: "ulong \<Rightarrow> bool" where "pte_w w = bit w 2"
definition pte_x :: "ulong \<Rightarrow> bool" where "pte_x w = bit w 3"
definition pte_u :: "ulong \<Rightarrow> bool" where "pte_u w = bit w 4"
definition pte_d :: "ulong \<Rightarrow> bool" where "pte_d w = bit w 7"

lemmas pte_flags = pte_v_def pte_r_def pte_w_def pte_x_def pte_u_def pte_d_def

definition put_bit :: "nat \<Rightarrow> bool \<Rightarrow> ulong \<Rightarrow> ulong" where
  "put_bit n b w = (if b then Bit_Operations.set_bit n w else unset_bit n w)"

lemma bit_put_bit: "bit (put_bit n b w) k = (if k = n then n < 64 \<and> b else bit w k)"
  by (auto simp: put_bit_def bit_set_bit_iff bit_unset_bit_iff dest: bit_imp_le_length)

definition pte_common_init :: "ulong \<Rightarrow> nat \<Rightarrow> unit K" where
  "pte_common_init pte itemnum = modk (\<lambda>s. s\<lparr>pmem :=
     (\<lambda>x. if x - pte < 8 * word_of_nat itemnum then 0 else pmem s x)\<rparr>)"

abbreviation "pte_accessibility_pointer \<equiv> (0 :: nat)"
abbreviation "pte_accessibility_readexecute \<equiv> (5 :: nat)"
abbreviation "pte_accessibility_all \<equiv> (7 :: nat)"

definition pte_common_set_accessibility :: "nat \<Rightarrow> ulong \<Rightarrow> ulong" where
  "pte_common_set_accessibility acc w =
     put_bit 3 (bit acc 2) (put_bit 2 (bit acc 1) (put_bit 1 (bit acc 0) w))"

definition pte_common_addr_to_ppn :: "ulong \<Rightarrow> ulong \<Rightarrow> ulong" where
  "pte_common_addr_to_ppn addr w =
     (w AND NOT (push_bit 10 (mask 38))) OR push_bit 10 (take_bit 38 (drop_bit 12 addr))"

definition pte_common_ppn_to_addr :: "ulong \<Rightarrow> ulong" where
  "pte_common_ppn_to_addr w = push_bit 12 (take_bit 38 (drop_bit 10 w))"

definition pte_common_enable_entry :: "ulong \<Rightarrow> ulong" where
  "pte_common_enable_entry w = put_bit 0 True w"

definition pte_common_disable_entry :: "ulong \<Rightarrow> ulong" where
  "pte_common_disable_entry w = put_bit 0 False w"

definition pte_common_enable_user :: "ulong \<Rightarrow> ulong" where
  "pte_common_enable_user w = put_bit 4 True w"

definition pte_common_disable_user :: "ulong \<Rightarrow> ulong" where
  "pte_common_disable_user w = put_bit 4 False w"

definition pte_common_set_writeable :: "ulong \<Rightarrow> ulong" where
  "pte_common_set_writeable w = put_bit 2 True w"

lemmas pte_ops = pte_common_set_accessibility_def pte_common_addr_to_ppn_def
  pte_common_enable_entry_def pte_common_disable_entry_def pte_common_enable_user_def
  pte_common_disable_user_def pte_common_set_writeable_def

text \<open>\<open>set_page_dir\<close> of \<open>kernel/sched.c\<close>: entry 3 of the root table points at the directory of
  the current task; \<open>pte_refresh_tlb\<close> is a fence instruction.\<close>

definition set_page_dir :: "ulong \<Rightarrow> kstate \<Rightarrow> kstate" where
  "set_page_dir dir s = s\<lparr>page_dir_table := dir, page_root_table := (page_root_table s)
     [3 := pte_common_enable_user (pte_common_enable_entry
            (pte_common_addr_to_ppn dir (page_root_table s ! 3)))]\<rparr>"

section \<open>Fields of updated entries\<close>

lemma bit_addr_to_ppn:
  "bit (pte_common_addr_to_ppn a w) n \<longleftrightarrow> (if 10 \<le> n \<and> n < 48 then bit a (n + 2) else n < 64 \<and> bit w n)"
  by (auto simp: pte_common_addr_to_ppn_def bit_simps dest: bit_imp_le_length)

lemma bit_ppn_to_addr:
  "bit (pte_common_ppn_to_addr w) n \<longleftrightarrow> 12 \<le> n \<and> n < 50 \<and> bit w (n - 2)"
  by (auto simp: pte_common_ppn_to_addr_def bit_simps)

lemma ppn_addr_aligned:
  assumes "take_bit 12 a = 0" "a < 2 ^ 50"
  shows "pte_common_ppn_to_addr (pte_common_addr_to_ppn a w) = a"
proof (rule bit_word_eqI)
  fix n assume "n < LENGTH(64)"
  have lo: "\<not> bit a n" if "n < 12"
    using arg_cong [OF assms(1), of "\<lambda>x. bit x n"] that by (simp add: bit_simps)
  have hi: "\<not> bit a n" if "50 \<le> n"
    using word_bit_bound [of a 50 n] assms(2) that by (auto simp: word_less_nat_alt)
  show "bit (pte_common_ppn_to_addr (pte_common_addr_to_ppn a w)) n = bit a n"
  proof (cases "12 \<le> n \<and> n < 50")
    case True
    then have e: "n - 2 + 2 = n" "10 \<le> n - 2" "n - 2 < 48" by linarith+
    show ?thesis
      unfolding bit_ppn_to_addr bit_addr_to_ppn e(1) using True e(2,3) by simp
  next
    case False
    with lo hi show ?thesis by (auto simp: bit_ppn_to_addr)
  qed
qed

lemma put_bit_ppn [simp]: "n < 10 \<Longrightarrow> pte_common_ppn_to_addr (put_bit n b w) = pte_common_ppn_to_addr w"
  by (rule bit_word_eqI) (auto simp: bit_ppn_to_addr bit_put_bit)

lemma pte_ppn_ops [simp]:
  "pte_common_ppn_to_addr (pte_common_set_accessibility acc w) = pte_common_ppn_to_addr w"
  "pte_common_ppn_to_addr (pte_common_enable_entry w) = pte_common_ppn_to_addr w"
  "pte_common_ppn_to_addr (pte_common_enable_user w) = pte_common_ppn_to_addr w"
  "pte_common_ppn_to_addr (pte_common_set_writeable w) = pte_common_ppn_to_addr w"
  by (simp_all add: pte_ops)

section \<open>Properties\<close>

text \<open>Storing the address of a page in an entry and reading it back gives the address, for
  every page-aligned physical address below \<open>2 ^ 50\<close>, and the flag bits are untouched.\<close>

theorem pte_addr_roundtrip:
  assumes "take_bit 12 a = 0" "a < 2 ^ 50"
  shows "pte_common_ppn_to_addr (pte_common_addr_to_ppn a w) = a \<and>
    (\<forall>n < 10. bit (pte_common_addr_to_ppn a w) n = bit w n)"
  using ppn_addr_aligned [OF assms] by (auto simp: bit_addr_to_ppn)

lemma pte_addr_roundtrip_witness:
  "pte_common_ppn_to_addr (pte_common_addr_to_ppn 0x80101000 0x7) = (0x80101000 :: ulong)"
  using pte_addr_roundtrip [of "0x80101000" "7"] by simp

text \<open>The accessibility writers set the flags their names say: \<open>pointer\<close> clears R, W and X,
  \<open>readexecute\<close> is R and X without W, \<open>all\<close> is R, W and X; V, U and the page number stay.\<close>

lemma pte_accessibility_flags:
  "pte_r (pte_common_set_accessibility acc w) = bit acc 0 \<and>
   pte_w (pte_common_set_accessibility acc w) = bit acc 1 \<and>
   pte_x (pte_common_set_accessibility acc w) = bit acc 2 \<and>
   pte_v (pte_common_set_accessibility acc w) = pte_v w \<and>
   pte_u (pte_common_set_accessibility acc w) = pte_u w \<and>
   pte_common_ppn_to_addr (pte_common_set_accessibility acc w) = pte_common_ppn_to_addr w \<and>
   \<not> pte_w (pte_common_set_accessibility pte_accessibility_readexecute w) \<and>
   pte_w (pte_common_set_accessibility pte_accessibility_all w)"
  by (simp add: pte_flags pte_common_set_accessibility_def bit_put_bit bit_numeral_rec(2))

end
