(* ===== verification/Sched.thy ===== *)
theory Sched
  imports Pte
begin

text \<open>
  The scheduler of \<open>kernel/sched.c\<close>: \<open>schedule\<close> with its alarm pass, the counter-based choice of
  the next task and the recharging of counters; \<open>sleep_on\<close>, \<open>interruptible_sleep_on\<close>,
  \<open>wake_up\<close>; the timer list; \<open>do_timer\<close>; and the small system calls of the file.

  \<open>schedule()\<close> returns \<open>true\<close> when the chosen task is the current one. Otherwise
  \<open>switch_to\<close> saves the registers in assembly and the next task runs: the outcome is
  \<open>Sleep s k\<close>, in \<open>s\<close> \<open>current\<close> and the page directory are already those of the next task. When the
  task is chosen again, in whatever state \<open>u\<close> the other tasks have left, \<open>switch_to\<close> puts its trap frame back,
  \<open>schedule\<close> returns \<open>false\<close>, and the task goes on: that is \<open>k u\<close>.
  Interrupt masking and the CSRs saved around the switch are hardware and leave no trace in
  the state; \<open>cur_kernel_stack\<close> and its two companions are read by the assembly trap entry and its
  stack overflow check only.
\<close>

section \<open>Choosing the next task\<close>

abbreviation "SIGALRM \<equiv> (14 :: nat)"

text \<open>\<open>_BLOCKABLE\<close> is \<open>~(_S(SIGKILL) | _S(SIGSTOP))\<close>, sign-extended to 64 bits.\<close>

definition BLOCKABLE :: ulong where
  "BLOCKABLE = NOT (0x100 OR 0x40000)"

text \<open>One round of the alarm loop. The source multiplies \<open>_BLOCKABLE\<close> with the mask.\<close>

definition alarm_task :: "int \<Rightarrow> task_struct \<Rightarrow> task_struct" where
  "alarm_task now t =
     (let t1 = (if t_alarm t \<noteq> 0 \<and> t_alarm t < now
                then t\<lparr>t_signal := t_signal t OR push_bit (SIGALRM - 1) 1, t_alarm := 0\<rparr> else t)
      in if t_signal t1 AND NOT (BLOCKABLE * t_blocked t1) \<noteq> 0 \<and> t_state t1 = TASK_INTERRUPTIBLE
         then t1\<lparr>t_state := TASK_RUNNING\<rparr> else t1)"

text \<open>\<open>for(p = &LAST_TASK; p > &FIRST_TASK; --p) if(*p)\<close>: update every task but the first slot.\<close>

definition map_slot :: "(task_struct \<Rightarrow> task_struct) \<Rightarrow> nat \<Rightarrow> kstate \<Rightarrow> kstate" where
  "map_slot F i s = (let p = task s ! i in
     if p = 0 then s else s\<lparr>tasks := (tasks s)(p := F (tasks s p))\<rparr>)"

definition map_tasks :: "(task_struct \<Rightarrow> task_struct) \<Rightarrow> kstate \<Rightarrow> kstate" where
  "map_tasks F s = fold (map_slot F) (rev [1..<NR_TASKS]) s"

definition sched_alarms :: "kstate \<Rightarrow> kstate" where
  "sched_alarms s = map_tasks (alarm_task (jiffies s)) s"

text \<open>Assigning a 64-bit value to the \<open>int\<close> variable \<open>c\<close>.\<close>

definition c_int :: "int \<Rightarrow> int" where
  "c_int v = sint (word_of_int v :: 32 word)"

definition pick_step :: "kstate \<Rightarrow> nat \<Rightarrow> int \<times> nat \<Rightarrow> int \<times> nat" where
  "pick_step s i = (\<lambda>(c, nxt). let p = task s ! i in
     if p = 0 then (c, nxt)
     else if t_state (tasks s p) = TASK_RUNNING \<and> t_counter (tasks s p) > c
       then (c_int (t_counter (tasks s p)), i) else (c, nxt))"

definition pick :: "kstate \<Rightarrow> int \<times> nat" where
  "pick s = fold (pick_step s) (rev [1..<NR_TASKS]) (-1, 0)"

definition recharge :: "kstate \<Rightarrow> kstate" where
  "recharge s = map_tasks (\<lambda>t. t\<lparr>t_counter := t_counter t div 2 + t_priority t\<rparr>) s"

fun sched_loop :: "nat \<Rightarrow> kstate \<Rightarrow> (nat \<times> kstate) option" where
  "sched_loop 0 s = None"
| "sched_loop (Suc n) s = (let (c, nxt) = pick s in
     if c \<noteq> 0 then Some (nxt, s) else sched_loop n (recharge s))"

text \<open>The end of \<open>switch_to\<close>, when the task that called it in state \<open>s\<close> is chosen again: its \<open>trap_info\<close> is put
  back, and user code may use the kernel's gigabyte exactly when it returns to an address there.\<close>

definition switch_back :: "kstate \<Rightarrow> kstate \<Rightarrow> kstate" where
  "switch_back s u = u\<lparr>trap_regs := trap_regs s, trap_fregs := trap_fregs s, trap_epc := trap_epc s, trap_newepc := trap_newepc s,
     page_root_table := (page_root_table u)[2 := (if trap_newepc s < USER_START_ADDR then pte_common_enable_user else pte_common_disable_user)
       (page_root_table u ! 2)]\<rparr>"

definition switch_to :: "nat \<Rightarrow> bool K" where
  "switch_to taskid = (\<lambda>s. let p = task s ! taskid in
     if current s = p then Ok True s
     else if p = 0 then Fault
     else Sleep (set_page_dir (t_page_dir (tasks s p)) (s\<lparr>tasks := (tasks s)(current s := (tasks s (current s))\<lparr>t_tss_epc := trap_newepc s\<rparr>),
            current := p\<rparr>))
       (\<lambda>u. Ok False (switch_back s u)))"

text \<open>Bound on the rounds of the \<open>while(1)\<close>; two are enough when priorities are positive.\<close>

abbreviation "SCHED_FUEL \<equiv> (70 :: nat)"

definition schedule :: "bool K" where
  "schedule = (\<lambda>s. case sched_loop SCHED_FUEL (sched_alarms s) of
      None \<Rightarrow> NoFuel | Some (nxt, s') \<Rightarrow> switch_to nxt s')"

section \<open>Sleeping and waking\<close>

definition set_state :: "ulong \<Rightarrow> int \<Rightarrow> unit K" where
  [kdefs]: "set_state p st = upd_task p (\<lambda>t. t\<lparr>t_state := st\<rparr>)"

definition sys_pause :: "int K" where
  "sys_pause = bindk (getk current) (\<lambda>cur.
     bindk (set_state cur TASK_INTERRUPTIBLE) (\<lambda>_.
     bindk schedule (\<lambda>_. retk 0)))"

definition sleep_on :: "wq \<Rightarrow> unit K" where
  "sleep_on q = bindk (getk current) (\<lambda>cur.
     if cur = INIT_TASK then panick ''task[0] trying to sleep'' else
     bindk (getk (wq_get q)) (\<lambda>tmp.
     bindk (modk (wq_set q cur)) (\<lambda>_.
     bindk (set_state cur TASK_UNINTERRUPTIBLE) (\<lambda>_.
     bindk schedule (\<lambda>r.
     whenk (r \<and> tmp \<noteq> 0) (set_state tmp TASK_RUNNING))))))"

definition interruptible_sleep_on :: "wq \<Rightarrow> unit K" where
  "interruptible_sleep_on q = bindk (getk current) (\<lambda>cur.
     if cur = INIT_TASK then panick ''task[0] trying to sleep'' else
     bindk (getk (wq_get q)) (\<lambda>tmp.
     bindk (modk (wq_set q cur)) (\<lambda>_.
     bindk (loopk WAIT_FUEL (\<lambda>_.
       bindk (set_state cur TASK_INTERRUPTIBLE) (\<lambda>_.
       bindk schedule (\<lambda>r.
       bindk (getk (wq_get q)) (\<lambda>h.
         if r \<and> h \<noteq> 0 \<and> h \<noteq> cur
         then bindk (set_state h TASK_RUNNING) (\<lambda>_. retk (Inl ()))
         else retk (Inr ()))))) ()) (\<lambda>_.
     bindk (modk (wq_set q tmp)) (\<lambda>_.
     whenk (tmp \<noteq> 0) (set_state tmp TASK_RUNNING))))))"

definition wake_up :: "wq \<Rightarrow> unit K" where
  "wake_up q = bindk (getk (wq_get q)) (\<lambda>p. whenk (p \<noteq> 0) (set_state p TASK_RUNNING))"

section \<open>Timers\<close>

abbreviation "TIME_REQUESTS \<equiv> (64 :: nat)"

definition get_tl :: "nat \<Rightarrow> timer_item K" where
  [kdefs]: "get_tl i = (\<lambda>s. if i < length (timer_list s) then Ok (timer_list s ! i) s else Fault)"

definition upd_tl :: "nat \<Rightarrow> (timer_item \<Rightarrow> timer_item) \<Rightarrow> unit K" where
  [kdefs]: "upd_tl i f = (\<lambda>s. if i < length (timer_list s)
     then Ok () (s\<lparr>timer_list := (timer_list s)[i := f (timer_list s ! i)]\<rparr>) else Fault)"

text \<open>A timer callback is an arbitrary function of some driver; that it is called is recorded.\<close>

definition fire :: "nat \<Rightarrow> unit K" where
  [kdefs]: "fire fn = modk (\<lambda>s. s\<lparr>timer_fired := timer_fired s @ [fn]\<rparr>)"

definition free_timer :: "kstate \<Rightarrow> nat option" where
  "free_timer s = List.find (\<lambda>i. tl_fn (timer_list s ! i) = None) [0..<length (timer_list s)]"

text \<open>The first \<open>while\<close> of \<open>add_timer\<close>: move the new entry behind the entries that expire earlier.\<close>

definition add_timer_shift :: "nat \<Rightarrow> nat K" where
  "add_timer_shift p0 = loopk (TIME_REQUESTS + 1) (\<lambda>p.
     bindk (get_tl p) (\<lambda>t. case tl_next t of None \<Rightarrow> retk (Inr p) | Some q \<Rightarrow>
     bindk (get_tl q) (\<lambda>u. if tl_jiffies u < tl_jiffies t then
       bindk (upd_tl p (\<lambda>x. x\<lparr>tl_jiffies := tl_jiffies u\<rparr>)) (\<lambda>_.
       bindk (upd_tl q (\<lambda>x. x\<lparr>tl_jiffies := tl_jiffies t - tl_jiffies u, tl_fn := tl_fn t\<rparr>)) (\<lambda>_.
       retk (Inl q)))
     else retk (Inr p)))) p0"

text \<open>The second \<open>while\<close>: subtract the delay from every later entry.\<close>

definition add_timer_subtract :: "int \<Rightarrow> nat \<Rightarrow> unit K" where
  "add_timer_subtract j p0 = loopk (TIME_REQUESTS + 1) (\<lambda>p.
     bindk (get_tl p) (\<lambda>t. case tl_next t of None \<Rightarrow> retk (Inr ()) | Some q \<Rightarrow>
     bindk (upd_tl q (\<lambda>x. x\<lparr>tl_jiffies := tl_jiffies x - j\<rparr>)) (\<lambda>_. retk (Inl q)))) p0"

definition add_timer :: "int \<Rightarrow> nat option \<Rightarrow> unit K" where
  "add_timer j fn = (case fn of None \<Rightarrow> retk () | Some f \<Rightarrow>
     if j \<le> 0 then fire f else
     bindk (getk free_timer) (\<lambda>slot. case slot of
       None \<Rightarrow> panick ''No more time requests free''
     | Some p \<Rightarrow>
       bindk (getk next_timer) (\<lambda>nt.
       bindk (upd_tl p (\<lambda>_. \<lparr>tl_jiffies = j, tl_fn = Some f, tl_next = nt\<rparr>)) (\<lambda>_.
       bindk (modk (\<lambda>s. s\<lparr>next_timer := Some p\<rparr>)) (\<lambda>_.
       bindk (add_timer_shift p) (\<lambda>q.
       bindk (get_tl q) (\<lambda>t. add_timer_subtract (tl_jiffies t) q)))))))"

definition expire_timers :: "unit K" where
  "expire_timers = loopk (TIME_REQUESTS + 1) (\<lambda>_.
     bindk (getk next_timer) (\<lambda>nt. case nt of None \<Rightarrow> retk (Inr ()) | Some p \<Rightarrow>
     bindk (get_tl p) (\<lambda>t. if tl_jiffies t \<le> 0 then
       bindk (upd_tl p (\<lambda>x. x\<lparr>tl_fn := None\<rparr>)) (\<lambda>_.
       bindk (modk (\<lambda>s. s\<lparr>next_timer := tl_next t\<rparr>)) (\<lambda>_.
       bindk (case tl_fn t of None \<Rightarrow> faultk | Some f \<Rightarrow> fire f) (\<lambda>_. retk (Inl ()))))
     else retk (Inr ())))) ()"

text \<open>\<open>user\<close>: the interrupted code ran in user mode (\<open>privilege_get_previous_level()\<close>).\<close>

definition do_timer :: "bool \<Rightarrow> unit K" where
  "do_timer user = bindk (getk current) (\<lambda>cur.
     bindk (upd_task cur (\<lambda>t. if user then t\<lparr>t_utime := t_utime t + 1\<rparr>
                              else t\<lparr>t_stime := t_stime t + 1\<rparr>)) (\<lambda>_.
     bindk (getk next_timer) (\<lambda>nt.
     bindk (case nt of None \<Rightarrow> retk () | Some p \<Rightarrow>
       bindk (upd_tl p (\<lambda>x. x\<lparr>tl_jiffies := tl_jiffies x - 1\<rparr>)) (\<lambda>_. expire_timers)) (\<lambda>_.
     bindk (upd_task cur (\<lambda>t. t\<lparr>t_counter := t_counter t - 1\<rparr>)) (\<lambda>_.
     bindk (get_task cur) (\<lambda>t. if t_counter t > 0 then retk () else
     bindk (upd_task cur (\<lambda>t. t\<lparr>t_counter := 0\<rparr>)) (\<lambda>_.
     if \<not> user then retk () else bindk schedule (\<lambda>_. retk ()))))))))"

section \<open>System calls\<close>

definition cur_task :: "kstate \<Rightarrow> task_struct" where
  "cur_task s = tasks s (current s)"

definition upd_cur :: "(task_struct \<Rightarrow> task_struct) \<Rightarrow> unit K" where
  [kdefs]: "upd_cur f = (\<lambda>s. Ok () (s\<lparr>tasks := (tasks s)(current s := f (cur_task s))\<rparr>))"

text \<open>C division truncates towards zero.\<close>

definition c_div :: "int \<Rightarrow> int \<Rightarrow> int" where
  "c_div a b = sgn a * sgn b * (\<bar>a\<bar> div \<bar>b\<bar>)"

definition sys_alarm :: "int \<Rightarrow> int K" where
  "sys_alarm seconds = bindk (getk (\<lambda>s. c_int (t_alarm (cur_task s)))) (\<lambda>old0.
     bindk (getk jiffies) (\<lambda>now.
     bindk (upd_cur (\<lambda>t. t\<lparr>t_alarm := if seconds > 0 then now + HZ * seconds else 0\<rparr>)) (\<lambda>_.
     retk (if old0 \<noteq> 0 then c_int (c_div (old0 - now) HZ) else old0))))"

definition sys_getpid :: "int K" where "sys_getpid = getk (\<lambda>s. t_pid (cur_task s))"
definition sys_getppid :: "int K" where "sys_getppid = getk (\<lambda>s. t_father (cur_task s))"
definition sys_getuid :: "int K" where "sys_getuid = getk (\<lambda>s. uint (t_uid (cur_task s)))"
definition sys_geteuid :: "int K" where "sys_geteuid = getk (\<lambda>s. uint (t_euid (cur_task s)))"
definition sys_getgid :: "int K" where "sys_getgid = getk (\<lambda>s. uint (t_gid (cur_task s)))"

definition sys_nice :: "int \<Rightarrow> int K" where
  "sys_nice inc = bindk (getk cur_task) (\<lambda>t.
     bindk (whenk (t_priority t - inc > 0) (upd_cur (\<lambda>t. t\<lparr>t_priority := t_priority t - inc\<rparr>))) (\<lambda>_.
     retk 0))"

text \<open>The part of \<open>sched_init\<close> that sets up tasks; the timer device and the register backup are
  hardware. \<open>dir\<close> is the address of \<open>init_task_page_dir_table\<close>.\<close>

definition sched_init :: "ulong \<Rightarrow> unit K" where
  "sched_init dir = bindk (modk (\<lambda>s. s\<lparr>
       task := take 1 (task s) @ replicate (NR_TASKS - 1) 0,
       tasks := (tasks s)(INIT_TASK := zero_task\<lparr>t_state := TASK_RUNNING, t_counter := 15,
         t_priority := 15, t_father := -1, t_page_dir := dir, t_code_base := 0xC0000000,
         t_data_base := 0xC0000000, t_code_limit := 640 * 1024, t_data_limit := 640 * 1024,
         t_tty := -1\<rparr>)\<rparr>))
     (\<lambda>_. pte_common_init dir (512 * 4))"

section \<open>A small system\<close>

text \<open>The idle task, a current task and a second task, all with counter 10 and priority 15, and
  one pending timer: the instance on which the properties below are exercised.\<close>

definition demo_task :: task_struct where
  "demo_task = zero_task\<lparr>t_counter := 10, t_priority := 15\<rparr>"

definition demo_sched :: kstate where
  "demo_sched = kernel_image\<lparr>current := 0x80100000,
     task := INIT_TASK # 0x80100000 # 0x80200000 # replicate 61 0, tasks := (\<lambda>_. demo_task),
     timer_list := \<lparr>tl_jiffies = 5, tl_fn = Some 7, tl_next = None\<rparr> # replicate 63 zero_timer,
     next_timer := Some 0\<rparr>"

section \<open>Well-formed task tables\<close>

text \<open>The table has its 64 slots, slot 0 is the idle task, no task sits in two slots, and counters
  and priorities are in the range the kernel uses (\<open>sched_init\<close> starts with 15).\<close>

definition sched_wf :: "kstate \<Rightarrow> bool" where
  "sched_wf s \<longleftrightarrow> length (task s) = NR_TASKS \<and> task s ! 0 = INIT_TASK \<and>
     (\<forall>i < NR_TASKS. \<forall>j < NR_TASKS. task s ! i \<noteq> 0 \<longrightarrow> task s ! i = task s ! j \<longrightarrow> i = j) \<and>
     (\<forall>i. 0 < i \<and> i < NR_TASKS \<and> task s ! i \<noteq> 0 \<longrightarrow>
        0 \<le> t_counter (tasks s (task s ! i)) \<and> t_counter (tasks s (task s ! i)) < 2 ^ 30 \<and>
        0 < t_priority (tasks s (task s ! i)) \<and> t_priority (tasks s (task s ! i)) < 2 ^ 29)"

definition runnable :: "kstate \<Rightarrow> nat \<Rightarrow> bool" where
  "runnable s i \<longleftrightarrow> 0 < i \<and> i < NR_TASKS \<and> task s ! i \<noteq> 0 \<and> t_state (tasks s (task s ! i)) = TASK_RUNNING"

abbreviation "slot_counter s i \<equiv> t_counter (tasks s (task s ! i))"

lemma map_slot_fields [simp]:
  "task (map_slot F i s) = task s" "current (map_slot F i s) = current s"
  "page_root_table (map_slot F i s) = page_root_table s"
  by (simp_all add: map_slot_def Let_def)

lemma fold_map_slot_fields [simp]:
  "task (fold (map_slot F) is s) = task s" "current (fold (map_slot F) is s) = current s"
  by (induction "is" arbitrary: s) simp_all

lemma map_tasks_fields [simp]: "task (map_tasks F s) = task s" "current (map_tasks F s) = current s"
  by (simp_all add: map_tasks_def)

lemma fold_map_slot_tasks:
  assumes "distinct is"
    and "\<And>i j. i \<in> set is \<Longrightarrow> j \<in> set is \<Longrightarrow> task s ! i \<noteq> 0 \<Longrightarrow> task s ! i = task s ! j \<Longrightarrow> i = j"
  shows "tasks (fold (map_slot F) is s) p =
    (if p \<noteq> 0 \<and> (\<exists>i \<in> set is. task s ! i = p) then F (tasks s p) else tasks s p)"
  using assms
proof (induction "is" arbitrary: s)
  case (Cons i "is")
  have t: "tasks (map_slot F i s) p = (if p \<noteq> 0 \<and> task s ! i = p then F (tasks s p) else tasks s p)"
    by (simp add: map_slot_def Let_def)
  have IH: "tasks (fold (map_slot F) is (map_slot F i s)) p =
    (if p \<noteq> 0 \<and> (\<exists>j \<in> set is. task s ! j = p) then F (tasks (map_slot F i s) p) else tasks (map_slot F i s) p)"
    using Cons.IH [of "map_slot F i s"] Cons.prems by (simp add: Ball_def)
  have "\<not> (\<exists>j \<in> set is. task s ! j = p)" if "task s ! i = p" "p \<noteq> 0"
    using Cons.prems that by fastforce
  with IH t show ?case by (auto split: if_splits)
qed simp

lemma map_tasks_tasks:
  assumes "sched_wf s"
  shows "tasks (map_tasks F s) p =
    (if p \<noteq> 0 \<and> (\<exists>i. 0 < i \<and> i < NR_TASKS \<and> task s ! i = p) then F (tasks s p) else tasks s p)"
proof -
  have "tasks (map_tasks F s) p =
      (if p \<noteq> 0 \<and> (\<exists>i \<in> set (rev [1..<NR_TASKS]). task s ! i = p) then F (tasks s p) else tasks s p)"
    unfolding map_tasks_def
    by (rule fold_map_slot_tasks) (use assms in \<open>auto simp: sched_wf_def\<close>)
  then show ?thesis by (auto simp: Suc_le_eq)
qed

lemma map_tasks_slot:
  "sched_wf s \<Longrightarrow> 0 < i \<Longrightarrow> i < NR_TASKS \<Longrightarrow> task s ! i \<noteq> 0 \<Longrightarrow>
    tasks (map_tasks F s) (task s ! i) = F (tasks s (task s ! i))"
  by (auto simp: map_tasks_tasks)

lemma alarm_task_fields [simp]:
  "t_counter (alarm_task n t) = t_counter t" "t_priority (alarm_task n t) = t_priority t"
  "t_page_dir (alarm_task n t) = t_page_dir t"
  by (simp_all add: alarm_task_def Let_def)

lemma sched_wf_map_tasks:
  assumes "sched_wf s"
    and "\<And>t. 0 \<le> t_counter t \<Longrightarrow> t_counter t < 2 ^ 30 \<Longrightarrow> 0 < t_priority t \<Longrightarrow> t_priority t < 2 ^ 29 \<Longrightarrow>
      0 \<le> t_counter (F t) \<and> t_counter (F t) < 2 ^ 30 \<and> t_priority (F t) = t_priority t"
  shows "sched_wf (map_tasks F s)"
  using assms by (auto simp: sched_wf_def map_tasks_slot [OF assms(1)])

lemma sched_wf_alarms: "sched_wf s \<Longrightarrow> sched_wf (sched_alarms s)"
  unfolding sched_alarms_def by (rule sched_wf_map_tasks) simp_all

lemma sched_wf_recharge: "sched_wf s \<Longrightarrow> sched_wf (recharge s)"
  unfolding recharge_def by (rule sched_wf_map_tasks) auto

lemma sched_alarms_fields [simp]: "task (sched_alarms s) = task s" "current (sched_alarms s) = current s"
  by (simp_all add: sched_alarms_def)

lemma recharge_fields [simp]: "task (recharge s) = task s" "current (recharge s) = current s"
  by (simp_all add: recharge_def)

section \<open>What pick chooses\<close>

lemma c_int_id: "0 \<le> v \<Longrightarrow> v < 2 ^ 31 \<Longrightarrow> c_int v = v"
  by (simp add: c_int_def signed_of_int signed_take_bit_int_eq_self)

text \<open>The accumulator after the slots \<open>is\<close>: the best runnable slot so far, or \<open>(-1, 0)\<close>.\<close>

definition best_of :: "kstate \<Rightarrow> nat set \<Rightarrow> int \<times> nat \<Rightarrow> bool" where
  "best_of s I = (\<lambda>(c, n).
     if \<exists>i \<in> I. runnable s i
     then n \<in> I \<and> runnable s n \<and> c = slot_counter s n \<and> (\<forall>i \<in> I. runnable s i \<longrightarrow> slot_counter s i \<le> c)
     else c = -1 \<and> n = 0)"

lemma pick_step_best:
  assumes wf: "sched_wf s" and i: "0 < i" "i < NR_TASKS" and b: "best_of s I cn"
  shows "best_of s (insert i I) (pick_step s i cn)"
proof -
  obtain c n where cn: "cn = (c, n)" by (cases cn)
  show ?thesis
  proof (cases "runnable s i")
    case False
    then have "pick_step s i cn = cn"
      using i by (auto simp: pick_step_def cn runnable_def Let_def)
    moreover have "best_of s (insert i I) cn"
      using b False by (auto simp: best_of_def cn split: if_splits)
    ultimately show ?thesis by simp
  next
    case True
    with wf have r: "task s ! i \<noteq> 0" "t_state (tasks s (task s ! i)) = TASK_RUNNING"
      "0 \<le> slot_counter s i" "slot_counter s i < 2 ^ 30" by (auto simp: runnable_def sched_wf_def)
    then have ci: "c_int (slot_counter s i) = slot_counter s i" by (intro c_int_id) auto
    show ?thesis
    proof (cases "slot_counter s i > c")
      case gt: True
      then have p: "pick_step s i cn = (slot_counter s i, i)"
        using r ci by (simp add: pick_step_def cn Let_def)
      have "slot_counter s j \<le> slot_counter s i" if "j \<in> I" "runnable s j" for j
        using b that gt by (force simp: best_of_def cn split: if_splits)
      with True p show ?thesis by (auto simp: best_of_def)
    next
      case le: False
      then have p: "pick_step s i cn = cn"
        using r by (simp add: pick_step_def cn Let_def)
      from le r have "c \<noteq> -1" by linarith
      then have "\<exists>j \<in> I. runnable s j" using b by (auto simp: best_of_def cn split: if_splits)
      with b le p show ?thesis by (auto simp: best_of_def cn split: if_splits)
    qed
  qed
qed

lemma fold_pick_best:
  assumes wf: "sched_wf s"
  shows "(\<forall>i \<in> set is. 0 < i \<and> i < NR_TASKS) \<Longrightarrow> best_of s I cn \<Longrightarrow>
    best_of s (set is \<union> I) (fold (pick_step s) is cn)"
proof (induction "is" arbitrary: I cn)
  case (Cons i "is")
  then have "best_of s (insert i I) (pick_step s i cn)"
    using pick_step_best [OF wf] by simp
  from Cons.IH [OF _ this] Cons.prems show ?case by simp
qed simp

lemma pick_best: "sched_wf s \<Longrightarrow> best_of s {1..<NR_TASKS} (pick s)"
  using fold_pick_best [of s "rev [1..<NR_TASKS]" "{}" "(-1, 0)"]
  by (simp add: pick_def best_of_def)

lemma pick_cases:
  assumes "sched_wf s"
  obtains (idle) "pick s = (-1, 0)" "\<And>i. \<not> runnable s i"
  | (run) n where "pick s = (slot_counter s n, n)" "runnable s n" "0 \<le> slot_counter s n"
      "\<And>i. runnable s i \<Longrightarrow> slot_counter s i \<le> slot_counter s n"
proof (cases "\<exists>i. runnable s i")
  case True
  then have "\<exists>i \<in> {1..<NR_TASKS}. runnable s i" by (auto simp: runnable_def Suc_le_eq)
  with pick_best [OF assms] obtain n where n: "pick s = (slot_counter s n, n)" "runnable s n"
    "\<forall>i \<in> {1..<NR_TASKS}. runnable s i \<longrightarrow> slot_counter s i \<le> slot_counter s n"
    by (cases "pick s") (auto simp: best_of_def)
  show ?thesis
    by (rule run [OF n(1,2)]) (use n(2,3) assms in \<open>auto simp: runnable_def sched_wf_def Suc_le_eq\<close>)
next
  case False
  with pick_best [OF assms] have "pick s = (-1, 0)" by (cases "pick s") (auto simp: best_of_def)
  with idle False show ?thesis by blast
qed

lemma runnable_recharge: "sched_wf s \<Longrightarrow> runnable (recharge s) i = runnable s i"
  by (auto simp: runnable_def recharge_def map_tasks_slot)

lemma sched_loop_result:
  assumes wf: "sched_wf s"
  shows "\<exists>n t. sched_loop (Suc (Suc k)) s = Some (n, t) \<and> (t = s \<or> t = recharge s) \<and> sched_wf t \<and>
    (n = 0 \<and> (\<forall>i. \<not> runnable s i) \<or>
     runnable s n \<and> 0 < slot_counter t n \<and> (\<forall>i. runnable s i \<longrightarrow> slot_counter t i \<le> slot_counter t n))"
proof (cases rule: pick_cases [OF wf])
  case 1
  then show ?thesis using wf by auto
next
  case (2 n)
  show ?thesis
  proof (cases "slot_counter s n = 0")
    case False
    with 2 wf show ?thesis by auto
  next
    case True
    let ?t = "recharge s"
    have wt: "sched_wf ?t" by (rule sched_wf_recharge [OF wf])
    have rn: "runnable ?t n" using 2 runnable_recharge [OF wf] by simp
    have pos: "0 < slot_counter ?t n"
      using 2(2) wf True by (auto simp: recharge_def map_tasks_slot runnable_def sched_wf_def)
    show ?thesis
    proof (cases rule: pick_cases [OF wt])
      case idle: 1
      with rn show ?thesis by blast
    next
      case b: (2 m)
      from b(4) [OF rn] pos have "0 < slot_counter ?t m" by linarith
      with b 2 True wt runnable_recharge [OF wf] show ?thesis by auto
    qed
  qed
qed

lemma switch_back_map_tasks: "switch_back (map_tasks F s) = switch_back s"
proof -
  have "switch_back (fold (map_slot F) is s) = switch_back s" for "is"
    by (induction "is" arbitrary: s) (simp_all add: map_slot_def Let_def switch_back_def fun_eq_iff)
  then show ?thesis by (simp add: map_tasks_def)
qed

lemma schedule_result:
  assumes wf: "sched_wf s"
  shows "\<exists>n t u. (t = sched_alarms s \<or> t = recharge (sched_alarms s)) \<and> n < NR_TASKS \<and>
    (n = 0 \<and> (\<forall>i. \<not> runnable (sched_alarms s) i) \<or>
     runnable (sched_alarms s) n \<and> 0 < slot_counter t n \<and>
       (\<forall>i. runnable (sched_alarms s) i \<longrightarrow> slot_counter t i \<le> slot_counter t n)) \<and>
    (if current s = task s ! n then schedule s = Ok True t
     else schedule s = Sleep u (\<lambda>v. Ok False (switch_back s v)) \<and> current u = task s ! n \<and>
       page_dir_table u = t_page_dir (tasks t (task s ! n)))"
proof -
  from sched_loop_result [OF sched_wf_alarms [OF wf], of 68]
  obtain n t where nt: "sched_loop SCHED_FUEL (sched_alarms s) = Some (n, t)"
    "t = sched_alarms s \<or> t = recharge (sched_alarms s)" "sched_wf t"
    "n = 0 \<and> (\<forall>i. \<not> runnable (sched_alarms s) i) \<or> runnable (sched_alarms s) n \<and> 0 < slot_counter t n \<and>
      (\<forall>i. runnable (sched_alarms s) i \<longrightarrow> slot_counter t i \<le> slot_counter t n)"
    by (auto simp: numeral_eq_Suc)
  from nt(2) have ft: "task t = task s" "current t = current s" by auto
  have sb: "switch_back t = switch_back s" using nt(2) by (auto simp: switch_back_map_tasks sched_alarms_def recharge_def)
  from nt(4) have n: "n < NR_TASKS" by (auto simp: runnable_def)
  have nz: "task s ! n \<noteq> 0" using nt(4) wf by (auto simp: runnable_def sched_wf_def)
  define u where "u = set_page_dir (t_page_dir (tasks t (task s ! n)))
    (t\<lparr>tasks := (tasks t)(current s := (tasks t (current s))\<lparr>t_tss_epc := trap_newepc t\<rparr>), current := task s ! n\<rparr>)"
  have "schedule s = (if current s = task s ! n then Ok True t else Sleep u (\<lambda>v. Ok False (switch_back s v)))"
    using nt(1) ft nz by (simp add: schedule_def switch_to_def Let_def u_def sb)
  moreover have "current u = task s ! n" "page_dir_table u = t_page_dir (tasks t (task s ! n))"
    by (simp_all add: u_def set_page_dir_def)
  ultimately show ?thesis using nt(2,4) n by metis
qed

section \<open>Sleeping\<close>

fun wq_valid :: "wq \<Rightarrow> kstate \<Rightarrow> bool" where
  "wq_valid (WBuffer b) s \<longleftrightarrow> b < length (bufs s)"
| "wq_valid (WInode i) s \<longleftrightarrow> i < length (inode_table s)"
| "wq_valid (WSuper i) s \<longleftrightarrow> i < length (super_block s)"
| "wq_valid (WReq i) s \<longleftrightarrow> i < length (request s)"
| "wq_valid WBufferWait s \<longleftrightarrow> True"
| "wq_valid WRequest s \<longleftrightarrow> True"
| "wq_valid (WTtyRead i) s \<longleftrightarrow> i < length (tty_table s)"
| "wq_valid (WTtyWrite i) s \<longleftrightarrow> i < length (tty_table s)"
| "wq_valid (WTtySec i) s \<longleftrightarrow> i < length (tty_table s)"

lemma wq_set_fields [simp]:
  "task (wq_set q p s) = task s" "tasks (wq_set q p s) = tasks s" "current (wq_set q p s) = current s"
  by (cases q; simp)+

lemma wq_get_set [simp]: "wq_valid q s \<Longrightarrow> wq_get q (wq_set q p s) = p"
  by (cases q) simp_all

lemma wq_get_frame [simp]:
  "wq_get q (s\<lparr>tasks := ts\<rparr>) = wq_get q s" "wq_get q (s\<lparr>current := c\<rparr>) = wq_get q s"
  "wq_get q (set_page_dir d s) = wq_get q s"
  by (cases q; simp add: set_page_dir_def)+

lemma wq_get_map_tasks [simp]: "wq_get q (map_tasks F s) = wq_get q s"
proof -
  have "wq_get q (fold (map_slot F) is s) = wq_get q s" for "is"
    by (induction "is" arbitrary: s) (simp_all add: map_slot_def Let_def)
  then show ?thesis by (simp add: map_tasks_def)
qed

lemma alarm_task_uninterruptible:
  "t_state t = TASK_UNINTERRUPTIBLE \<Longrightarrow> t_state (alarm_task n t) = TASK_UNINTERRUPTIBLE"
  by (simp add: alarm_task_def Let_def)

lemma sched_alarms_uninterruptible:
  "sched_wf s \<Longrightarrow> t_state (tasks s p) = TASK_UNINTERRUPTIBLE \<Longrightarrow>
    t_state (tasks (sched_alarms s) p) = TASK_UNINTERRUPTIBLE"
  by (simp add: sched_alarms_def map_tasks_tasks alarm_task_uninterruptible)

lemma recharge_state [simp]: "sched_wf s \<Longrightarrow> t_state (tasks (recharge s) p) = t_state (tasks s p)"
  by (simp add: recharge_def map_tasks_tasks)

text \<open>All that scheduling changes: the task structures, the current task and its page directory.\<close>

definition sched_step :: "kstate \<Rightarrow> kstate \<Rightarrow> bool" where
  "sched_step s t \<longleftrightarrow> (\<exists>ts c d r. t = s\<lparr>tasks := ts, current := c, page_dir_table := d, page_root_table := r\<rparr>)"

lemma sched_stepI: "t = s\<lparr>tasks := ts, current := c, page_dir_table := d, page_root_table := r\<rparr> \<Longrightarrow> sched_step s t"
  unfolding sched_step_def by blast

lemma sched_step_refl [simp]: "sched_step s s"
  by (rule sched_stepI [where ts = "tasks s" and c = "current s" and d = "page_dir_table s" and r = "page_root_table s"]) simp

lemma sched_step_trans: "sched_step s t \<Longrightarrow> sched_step t u \<Longrightarrow> sched_step s u"
proof -
  assume "sched_step s t" "sched_step t u"
  then obtain ts c d r ts' c' d' r' where "t = s\<lparr>tasks := ts, current := c, page_dir_table := d, page_root_table := r\<rparr>"
    "u = t\<lparr>tasks := ts', current := c', page_dir_table := d', page_root_table := r'\<rparr>"
    by (auto simp: sched_step_def)
  then have "u = s\<lparr>tasks := ts', current := c', page_dir_table := d', page_root_table := r'\<rparr>" by simp
  then show ?thesis by (rule sched_stepI)
qed

lemma sched_step_tasks: "sched_step s (s\<lparr>tasks := ts\<rparr>)"
  by (rule sched_stepI [where ts = ts and c = "current s" and d = "page_dir_table s" and r = "page_root_table s"]) simp

lemma sched_step_map_tasks: "sched_step s (map_tasks F s)"
proof -
  have "sched_step s (fold (map_slot F) is s)" for "is"
  proof (induction "is" arbitrary: s)
    case (Cons i "is")
    have "sched_step s (map_slot F i s)" by (simp add: map_slot_def Let_def sched_step_tasks)
    then show ?case using Cons.IH [of "map_slot F i s"] sched_step_trans by auto
  qed simp
  then show ?thesis by (simp add: map_tasks_def)
qed

lemma sched_step_loop: "sched_loop n s = Some (k, t) \<Longrightarrow> sched_step s t"
proof (induction n arbitrary: s)
  case (Suc n)
  then show ?case
    using sched_step_map_tasks sched_step_trans
    by (auto simp: Let_def recharge_def split: if_splits prod.splits) blast
qed simp

lemma sched_step_back: "sched_step s t \<Longrightarrow> switch_back t = switch_back s"
  by (auto simp: sched_step_def switch_back_def fun_eq_iff)

text \<open>How \<open>schedule\<close> can end.\<close>

lemma schedule_cases:
  obtains (NoFuel) "schedule s = NoFuel" | (Fault) "schedule s = Fault"
  | (same) t where "schedule s = Ok True t" "sched_step s t"
  | (switch) t where "schedule s = Sleep t (\<lambda>u. Ok False (switch_back s u))" "sched_step s t"
proof (cases "sched_loop SCHED_FUEL (sched_alarms s)")
  case (Some kt)
  obtain k t where kt: "kt = (k, t)" by (cases kt)
  have t: "sched_step s t"
    using sched_step_trans [OF sched_step_map_tasks sched_step_loop] Some kt by (auto simp: sched_alarms_def)
  have "sched_step t (set_page_dir d (t\<lparr>tasks := ts, current := c\<rparr>))" for d c ts
    unfolding set_page_dir_def by (rule sched_stepI [where ts = ts]) simp
  then have u: "sched_step s (set_page_dir d (t\<lparr>tasks := ts, current := c\<rparr>))" for d c ts using sched_step_trans [OF t] by blast
  have "schedule s = switch_to k t" by (simp add: schedule_def Some kt)
  then consider "schedule s = Ok True t" | "schedule s = Fault"
    | d c ts where "schedule s = Sleep (set_page_dir d (t\<lparr>tasks := ts, current := c\<rparr>)) (\<lambda>v. Ok False (switch_back s v))"
    unfolding switch_to_def Let_def sched_step_back [OF t] by metis
  then show ?thesis by cases (use that t u in blast)+
qed (simp add: schedule_def that)

text \<open>An invariant that scheduling and the wait queues leave alone is kept by sleeping and waking.\<close>

locale sched_inv =
  fixes Q :: "kstate \<Rightarrow> bool"
  assumes Q_sched: "sched_step s t \<Longrightarrow> Q s \<Longrightarrow> Q t"
    and Q_wq: "Q s \<Longrightarrow> Q (wq_set q p s)"
    and Q_back: "Q s \<Longrightarrow> Q u \<Longrightarrow> Q (switch_back s u)"
begin

lemma keeps_schedule: "keeps Q schedule"
  unfolding keeps_def
proof (intro allI impI)
  fix s assume "Q s"
  then show "post Q (schedule s)" by (cases s rule: schedule_cases) (auto intro: Q_sched Q_back)
qed

lemma keeps_set_state: "keeps Q (set_state p st)"
  by (auto simp: keeps_def set_state_def upd_task_def intro: Q_sched [OF sched_step_tasks])

lemma keeps_wq_set: "keeps Q (modk (wq_set q p))"
  by (rule keeps_modk) (rule Q_wq)

lemma keeps_sleep_on: "keeps Q (sleep_on q)"
  unfolding sleep_on_def by (intro keeps_intros keeps_schedule keeps_set_state keeps_wq_set)

lemma keeps_interruptible_sleep_on: "keeps Q (interruptible_sleep_on q)"
  unfolding interruptible_sleep_on_def by (intro keeps_intros keeps_schedule keeps_set_state keeps_wq_set)

lemma keeps_wake_up: "keeps Q (wake_up q)"
  unfolding wake_up_def by (intro keeps_intros keeps_set_state)

lemma keeps_sys_pause: "keeps Q sys_pause"
  unfolding sys_pause_def by (intro keeps_intros keeps_schedule keeps_set_state)

end

lemma sched_wf_cong:
  assumes "task s1 = task s"
    and "\<And>p. t_counter (tasks s1 p) = t_counter (tasks s p) \<and> t_priority (tasks s1 p) = t_priority (tasks s p)"
  shows "sched_wf s1 = sched_wf s"
  using assms by (simp add: sched_wf_def)

text \<open>A task that is uninterruptible and not the idle task cannot get past \<open>schedule\<close>.\<close>

lemma schedule_leaves:
  assumes wf: "sched_wf s" and st: "t_state (tasks s (current s)) = TASK_UNINTERRUPTIBLE"
    and cur: "current s \<noteq> INIT_TASK"
  shows "\<exists>u. schedule s = Sleep u (\<lambda>v. Ok False (switch_back s v)) \<and> current u \<noteq> current s \<and>
    t_state (tasks u (current s)) = TASK_UNINTERRUPTIBLE \<and> (\<forall>q. wq_get q u = wq_get q s)"
proof -
  note wa = sched_wf_alarms [OF wf]
  from sched_loop_result [OF wa, of 68] obtain n t
    where nt: "sched_loop SCHED_FUEL (sched_alarms s) = Some (n, t)"
      "t = sched_alarms s \<or> t = recharge (sched_alarms s)"
      "n = 0 \<or> runnable (sched_alarms s) n"
    by (auto simp: numeral_eq_Suc)
  have st2: "t_state (tasks (sched_alarms s) (current s)) = TASK_UNINTERRUPTIBLE"
    by (rule sched_alarms_uninterruptible [OF wf st])
  have ne: "task s ! n \<noteq> current s" "task s ! n \<noteq> 0"
    using nt(3) wf cur st2 by (auto simp: runnable_def sched_wf_def)
  from nt(2) wa st2 have st3: "t_state (tasks t (current s)) = TASK_UNINTERRUPTIBLE" by auto
  from nt(2) have ft: "task t = task s" "current t = current s" "\<And>q. wq_get q t = wq_get q s"
    by (auto simp: sched_alarms_def recharge_def)
  have sb: "switch_back t = switch_back s" using nt(2) by (auto simp: switch_back_map_tasks sched_alarms_def recharge_def)
  define u where "u = set_page_dir (t_page_dir (tasks t (task s ! n)))
    (t\<lparr>tasks := (tasks t)(current s := (tasks t (current s))\<lparr>t_tss_epc := trap_newepc t\<rparr>), current := task s ! n\<rparr>)"
  have "schedule s = Sleep u (\<lambda>v. Ok False (switch_back s v))"
    using nt(1) ft(1,2) ne by (simp add: schedule_def switch_to_def Let_def u_def sb)
  moreover have "wq_get q u = wq_get q s" for q by (simp add: u_def ft(3))
  moreover have "current u = task s ! n" "t_state (tasks u (current s)) = t_state (tasks t (current s))"
    by (simp_all add: u_def set_page_dir_def)
  ultimately show ?thesis using ne(1) st3 by simp
qed

lemma demo_sched_wf: "sched_wf demo_sched"
  by (simp add: sched_wf_def demo_sched_def demo_task_def zero_task_def nth_Cons')

section \<open>Properties\<close>

text \<open>C23: \<open>schedule\<close> always comes to a decision, in at most two rounds, and the decision is right:
  if no task but the idle task is runnable (after the alarm pass) it takes the idle task;
  otherwise a runnable task whose counter is positive and maximal among the runnable tasks,
  after one recharge when all runnable counters were 0. It returns to the caller exactly when
  the chosen task is the current one and otherwise switches to it and to its page directory; it then returns \<open>false\<close>,
  with the trap frame of the caller put back, in whatever state the caller is chosen again.\<close>

theorem schedule_correct:
  assumes wf: "sched_wf s"
  shows "\<exists>n t u. (t = sched_alarms s \<or> t = recharge (sched_alarms s)) \<and> n < NR_TASKS \<and>
    (n = 0 \<and> (\<forall>i. \<not> runnable (sched_alarms s) i) \<or>
     runnable (sched_alarms s) n \<and> 0 < slot_counter t n \<and>
       (\<forall>i. runnable (sched_alarms s) i \<longrightarrow> slot_counter t i \<le> slot_counter t n)) \<and>
    (if current s = task s ! n then schedule s = Ok True t
     else schedule s = Sleep u (\<lambda>v. Ok False (switch_back s v)) \<and> current u = task s ! n \<and>
       page_dir_table u = t_page_dir (tasks t (task s ! n)))"
  using schedule_result [OF wf] .

theorem schedule_correct_witness:
  "\<exists>n t u. (t = sched_alarms demo_sched \<or> t = recharge (sched_alarms demo_sched)) \<and> n < NR_TASKS \<and>
    (n = 0 \<and> (\<forall>i. \<not> runnable (sched_alarms demo_sched) i) \<or>
     runnable (sched_alarms demo_sched) n \<and> 0 < slot_counter t n \<and>
       (\<forall>i. runnable (sched_alarms demo_sched) i \<longrightarrow> slot_counter t i \<le> slot_counter t n)) \<and>
    (if current demo_sched = task demo_sched ! n then schedule demo_sched = Ok True t
     else schedule demo_sched = Sleep u (\<lambda>v. Ok False (switch_back demo_sched v)) \<and> current u = task demo_sched ! n \<and>
       page_dir_table u = t_page_dir (tasks t (task demo_sched ! n)))"
  by (rule schedule_correct [OF demo_sched_wf])

text \<open>\<open>sleep_on\<close> always gives up the processor: called by any task but the idle task it leaves
  the caller uninterruptible at the head of the wait queue, with another task current. When the caller is chosen again
  it only puts its trap frame back.\<close>

lemma sleep_on_result:
  assumes wf: "sched_wf s" and nz: "current s \<noteq> 0" "current s \<noteq> INIT_TASK" and q: "wq_valid q s"
  shows "\<exists>s1 u. sleep_on q s = Sleep u (\<lambda>v. Ok () (switch_back s v)) \<and> current u \<noteq> current s \<and> wq_get q u = current s \<and>
    t_state (tasks u (current s)) = TASK_UNINTERRUPTIBLE \<and> sched_wf s1 \<and> schedule s1 = Sleep u (\<lambda>v. Ok False (switch_back s v)) \<and>
    (\<forall>p. p \<noteq> current s \<longrightarrow> tasks s1 p = tasks s p)"
proof -
  let ?c = "current s"
  define s1 where "s1 = (wq_set q ?c s)\<lparr>tasks := (tasks s)(?c := (tasks s ?c)\<lparr>t_state := TASK_UNINTERRUPTIBLE\<rparr>)\<rparr>"
  have ft: "task s1 = task s" "tasks s1 = (tasks s)(?c := (tasks s ?c)\<lparr>t_state := TASK_UNINTERRUPTIBLE\<rparr>)"
    "current s1 = ?c" "wq_get q s1 = ?c"
    using q by (simp_all add: s1_def)
  have sb: "switch_back s1 = switch_back s"
    unfolding s1_def by (cases q) (simp_all add: switch_back_def fun_eq_iff)
  have "t_counter (tasks s1 p) = t_counter (tasks s p) \<and> t_priority (tasks s1 p) = t_priority (tasks s p)" for p
    by (simp add: ft(2))
  then have wf1: "sched_wf s1" using wf sched_wf_cong [OF ft(1)] by simp
  have "t_state (tasks s1 ?c) = TASK_UNINTERRUPTIBLE" by (simp add: ft(2))
  from schedule_leaves [OF wf1, unfolded ft(3), OF this nz(2)]
  obtain u where u: "schedule s1 = Sleep u (\<lambda>v. Ok False (switch_back s v))" "current u \<noteq> ?c"
    "t_state (tasks u ?c) = TASK_UNINTERRUPTIBLE" "wq_get q u = ?c" by (metis ft(4) sb)
  have st: "set_state ?c TASK_UNINTERRUPTIBLE (wq_set q ?c s) = Ok () s1"
    using nz by (simp add: set_state_def upd_task_def s1_def)
  have "sleep_on q s = Sleep u (\<lambda>v. Ok () (switch_back s v))"
    using nz(2) by (simp add: sleep_on_def getk_def modk_def bindk_def st u(1) whenk_def retk_def)
  with u wf1 ft(2) show ?thesis by auto
qed

text \<open>A task that waits uninterruptibly is left alone when another one is scheduled.\<close>

lemma schedule_keeps_waiting:
  assumes wf: "sched_wf s" and sl: "schedule s = Sleep u k" and st: "t_state (tasks s a) = TASK_UNINTERRUPTIBLE"
  shows "t_state (tasks u a) = TASK_UNINTERRUPTIBLE"
proof -
  note wa = sched_wf_alarms [OF wf]
  from sched_loop_result [OF wa, of 68] obtain n t where nt: "sched_loop SCHED_FUEL (sched_alarms s) = Some (n, t)"
      "t = sched_alarms s \<or> t = recharge (sched_alarms s)"
    by (auto simp: numeral_eq_Suc)
  have "t_state (tasks t a) = TASK_UNINTERRUPTIBLE"
    using nt(2) sched_alarms_uninterruptible [OF wf st] recharge_state [OF wa] by auto
  then show ?thesis using sl nt(1) by (auto simp: schedule_def switch_to_def Let_def set_page_dir_def split: if_splits)
qed

text \<open>C24: a task that sleeps on a queue on which another task is already waiting takes that task off it for good.
  \<open>sleep_on\<close> remembers the earlier sleeper \<open>a\<close> and means to wake it when it is woken itself, but does so only when
  \<open>schedule()\<close> returns true, that is, when no switch took place. The later sleeper always switches; when the queue is woken,
  in any later state, only the later sleeper becomes runnable, and when it goes on it leaves \<open>a\<close> asleep, with the queue
  not leading to it.\<close>

theorem sleep_on_loses_waiter:
  assumes "sched_wf s" "current s \<noteq> 0" "current s \<noteq> INIT_TASK" "wq_valid q s"
    and "wq_get q s = a" "a \<noteq> current s" "t_state (tasks s a) = TASK_UNINTERRUPTIBLE"
  shows "\<exists>u k. sleep_on q s = Sleep u k \<and> t_state (tasks u (current s)) = TASK_UNINTERRUPTIBLE \<and>
    t_state (tasks u a) = TASK_UNINTERRUPTIBLE \<and> wq_get q u = current s \<and> current u \<noteq> current s \<and>
    (\<forall>v. wq_get q v = current s \<longrightarrow> t_state (tasks v a) = TASK_UNINTERRUPTIBLE \<longrightarrow>
      (\<exists>w x. wake_up q v = Ok () w \<and> t_state (tasks w (current s)) = TASK_RUNNING \<and>
        k w = Ok () x \<and> t_state (tasks x a) = TASK_UNINTERRUPTIBLE \<and> wq_get q x = current s))"
proof -
  from sleep_on_result [OF assms(1-4)] obtain s1 u where u: "sleep_on q s = Sleep u (\<lambda>v. Ok () (switch_back s v))"
    "current u \<noteq> current s" "wq_get q u = current s" "t_state (tasks u (current s)) = TASK_UNINTERRUPTIBLE" "sched_wf s1"
    "schedule s1 = Sleep u (\<lambda>v. Ok False (switch_back s v))" "\<forall>p. p \<noteq> current s \<longrightarrow> tasks s1 p = tasks s p" by blast
  have ua: "t_state (tasks u a) = TASK_UNINTERRUPTIBLE"
    using schedule_keeps_waiting [OF u(5,6)] u(7) assms(6,7) by simp
  have sb: "tasks (switch_back s w) = tasks w" "wq_get q (switch_back s w) = wq_get q w" for w
    unfolding switch_back_def by (simp, cases q) simp_all
  have wk: "wake_up q v = Ok () (v\<lparr>tasks := (tasks v)(current s := (tasks v (current s))\<lparr>t_state := TASK_RUNNING\<rparr>)\<rparr>)"
    if "wq_get q v = current s" for v
    using that assms(2) by (simp add: wake_up_def kdefs)
  have "\<exists>w x. wake_up q v = Ok () w \<and> t_state (tasks w (current s)) = TASK_RUNNING \<and>
      Ok () (switch_back s w) = Ok () x \<and> t_state (tasks x a) = TASK_UNINTERRUPTIBLE \<and> wq_get q x = current s"
    if "wq_get q v = current s" "t_state (tasks v a) = TASK_UNINTERRUPTIBLE" for v
    using that assms(6) by (auto simp: wk sb)
  then show ?thesis using u(1-4) ua by blast
qed

text \<open>In the example the running task sleeps on the queue for buffers, on which the task at \<open>0x80200000\<close> waits.\<close>

definition demo_waiting :: kstate where
  "demo_waiting = demo_sched\<lparr>buffer_wait := 0x80200000, tasks := (tasks demo_sched)(0x80200000 := demo_task\<lparr>t_state := TASK_UNINTERRUPTIBLE\<rparr>)\<rparr>"

lemma demo_waiting_wf: "sched_wf demo_waiting"
  by (simp add: sched_wf_def demo_waiting_def demo_sched_def demo_task_def zero_task_def nth_Cons')

theorem sleep_on_loses_waiter_witness:
  "\<exists>u k. sleep_on WBufferWait demo_waiting = Sleep u k \<and> t_state (tasks u 0x80200000) = TASK_UNINTERRUPTIBLE \<and> buffer_wait u = 0x80100000"
  using sleep_on_loses_waiter [OF demo_waiting_wf, of WBufferWait "0x80200000"] by (auto simp: demo_waiting_def demo_sched_def)

text \<open>The alarm pass with no blocked signals: an expired alarm raises SIGALRM and is cleared,
  and an interruptible task becomes runnable exactly when some signal is pending.\<close>

lemma alarm_task_unblocked:
  assumes "t_blocked t = 0"
  shows "let u = alarm_task now t; due = (t_alarm t \<noteq> 0 \<and> t_alarm t < now) in
    t_signal u = (if due then t_signal t OR push_bit 13 1 else t_signal t) \<and>
    t_alarm u = (if due then 0 else t_alarm t) \<and>
    t_state u = (if t_state t = TASK_INTERRUPTIBLE \<and> t_signal u \<noteq> 0 then TASK_RUNNING else t_state t)"
  using assms by (simp add: alarm_task_def Let_def)

lemma alarm_task_unblocked_example:
  "let t = demo_task\<lparr>t_state := TASK_INTERRUPTIBLE, t_alarm := 3\<rparr>; u = alarm_task 4 t in
     t_signal u = 0x2000 \<and> t_alarm u = 0 \<and> t_state u = TASK_RUNNING"
  using alarm_task_unblocked [of "demo_task\<lparr>t_state := TASK_INTERRUPTIBLE, t_alarm := 3\<rparr>" 4]
  by (simp add: demo_task_def zero_task_def push_bit_eq_mult Let_def)

text \<open>the alarm pass multiplies the blockable set with the blocked mask where it means to
  intersect them: a task that blocks only SIGINT and sleeps interruptibly is not woken by a
  pending SIGTERM, although SIGTERM is not blocked.\<close>

theorem alarm_task_mask_product:
  assumes "t_blocked t = 0x2" "t_signal t = 0x4000" "t_alarm t = 0" "t_state t = TASK_INTERRUPTIBLE"
  shows "t_state (alarm_task now t) = TASK_INTERRUPTIBLE \<and>
    t_signal t AND NOT (BLOCKABLE AND t_blocked t) \<noteq> 0"
  using assms by (simp add: alarm_task_def BLOCKABLE_def Let_def)

theorem alarm_task_mask_product_witness:
  "let t = demo_task\<lparr>t_blocked := 0x2, t_signal := 0x4000, t_state := TASK_INTERRUPTIBLE\<rparr> in
     t_state (alarm_task 0 t) = TASK_INTERRUPTIBLE"
  using alarm_task_mask_product
    [of "demo_task\<lparr>t_blocked := 0x2, t_signal := 0x4000, t_state := TASK_INTERRUPTIBLE\<rparr>" 0]
  by (simp add: demo_task_def zero_task_def)

text \<open>adding a later timer behind the only pending one loses the pending callback: the earlier
  expiry now carries the new function, and the old function is nowhere in the list.\<close>

theorem add_timer_loses_callback:
  assumes "next_timer s = Some p" "p < length (timer_list s)"
    and "timer_list s ! p = \<lparr>tl_jiffies = j0, tl_fn = Some f0, tl_next = None\<rparr>"
    and "free_timer s = Some q" "q < length (timer_list s)" "q \<noteq> p" "0 < j0" "j0 < j"
  shows "\<exists>t. add_timer j (Some f) s = Ok () t \<and> next_timer t = Some q \<and>
    timer_list t ! q = \<lparr>tl_jiffies = j0, tl_fn = Some f, tl_next = Some p\<rparr> \<and>
    timer_list t ! p = \<lparr>tl_jiffies = j - j0, tl_fn = Some f, tl_next = None\<rparr>"
  using assms
  by (simp add: add_timer_def add_timer_shift_def add_timer_subtract_def loopk_numeral kdefs nth_list_update)

theorem add_timer_loses_callback_witness:
  "\<exists>t. add_timer 9 (Some 8) demo_sched = Ok () t \<and> next_timer t = Some 1 \<and>
    timer_list t ! 1 = \<lparr>tl_jiffies = 5, tl_fn = Some 8, tl_next = Some 0\<rparr> \<and>
    timer_list t ! 0 = \<lparr>tl_jiffies = 4, tl_fn = Some 8, tl_next = None\<rparr>"
proof -
  have "free_timer demo_sched = Some 1"
    by (simp add: free_timer_def demo_sched_def upt_conv_Cons zero_timer_def)
  then show ?thesis
    using add_timer_loses_callback [of demo_sched 0 5 7 1 9 8] by (simp add: demo_sched_def)
qed

text \<open>a timer tick with no timer pending charges the running task: while its counter stays
  positive nothing else happens; when the counter runs out it becomes 0 and the kernel
  reschedules exactly if user code was interrupted.\<close>

theorem do_timer_quantum:
  assumes "current s \<noteq> 0" "next_timer s = None"
  shows "do_timer user s =
    (let t = cur_task s;
         t1 = (if user then t\<lparr>t_utime := t_utime t + 1\<rparr> else t\<lparr>t_stime := t_stime t + 1\<rparr>);
         run = (\<lambda>c. s\<lparr>tasks := (tasks s)(current s := t1\<lparr>t_counter := c\<rparr>)\<rparr>)
     in if 1 < t_counter t then Ok () (run (t_counter t - 1))
        else if \<not> user then Ok () (run 0)
        else bindk schedule (\<lambda>_. retk ()) (run 0))"
  using assms by (simp add: do_timer_def kdefs Let_def cur_task_def)

theorem do_timer_quantum_witness:
  "\<exists>u. do_timer False (demo_sched\<lparr>next_timer := None\<rparr>) = Ok () u \<and> t_counter (cur_task u) = 9"
  using do_timer_quantum [of "demo_sched\<lparr>next_timer := None\<rparr>" False]
  by (simp add: demo_sched_def demo_task_def cur_task_def zero_task_def Let_def)

end
