(* ===== verification/Links.thy ===== *)
theory Links
  imports Prelude
begin

text \<open>
  Linked structures threaded through an array, as lists of indices. The successor and predecessor
  fields are functions from an index to a pointer (\<open>nat option\<close>).
  \<^item> \<open>path nx p l\<close>: following \<open>nx\<close> from \<open>p\<close> visits exactly \<open>l\<close> and ends at NULL (the request
    queue of a block device, a hash chain);
  \<^item> \<open>backs pv q l\<close>: the predecessor fields along \<open>l\<close>, the first one being \<open>q\<close>;
  \<^item> \<open>ring nx pv l\<close>: \<open>l\<close> is a doubly linked circle (the free list of the buffer cache).

  The lemmas say what the pointer assignments of unlinking and of inserting a node do to the lists.
\<close>

fun path :: "(nat \<Rightarrow> nat option) \<Rightarrow> nat option \<Rightarrow> nat list \<Rightarrow> bool" where
  "path nx p [] \<longleftrightarrow> p = None"
| "path nx p (x # xs) \<longleftrightarrow> p = Some x \<and> path nx (nx x) xs"

fun backs :: "(nat \<Rightarrow> nat option) \<Rightarrow> nat option \<Rightarrow> nat list \<Rightarrow> bool" where
  "backs pv q [] \<longleftrightarrow> True"
| "backs pv q (x # xs) \<longleftrightarrow> pv x = q \<and> backs pv (Some x) xs"

fun links :: "(nat \<Rightarrow> nat option) \<Rightarrow> (nat \<Rightarrow> nat option) \<Rightarrow> nat list \<Rightarrow> bool" where
  "links nx pv (x # y # zs) \<longleftrightarrow> nx x = Some y \<and> pv y = Some x \<and> links nx pv (y # zs)"
| "links nx pv _ \<longleftrightarrow> True"

definition ring :: "(nat \<Rightarrow> nat option) \<Rightarrow> (nat \<Rightarrow> nat option) \<Rightarrow> nat list \<Rightarrow> bool" where
  "ring nx pv l \<longleftrightarrow> l \<noteq> [] \<and> links nx pv (l @ [hd l])"

section \<open>Paths\<close>

lemma path_upd_other [simp]: "x \<notin> set l \<Longrightarrow> path (nx(x := v)) p l = path nx p l"
  by (induction l arbitrary: p) auto

lemma backs_upd_other [simp]: "x \<notin> set l \<Longrightarrow> backs (pv(x := v)) q l = backs pv q l"
  by (induction l arbitrary: q) auto

lemma path_unique: "path nx p l \<Longrightarrow> path nx p m \<Longrightarrow> l = m"
proof (induction l arbitrary: p m)
  case Nil
  then show ?case by (cases m) auto
next
  case (Cons x xs)
  then show ?case by (cases m) auto
qed

lemma path_cong: "(\<And>x. x \<in> set l \<Longrightarrow> nx x = nx' x) \<Longrightarrow> path nx p l = path nx' p l"
  by (induction l arbitrary: p) auto

lemma backs_cong: "(\<And>x. x \<in> set l \<Longrightarrow> pv x = pv' x) \<Longrightarrow> backs pv q l = backs pv' q l"
  by (induction l arbitrary: q) auto

lemma path_head: "path nx p l \<Longrightarrow> p = (case l of [] \<Rightarrow> None | x # _ \<Rightarrow> Some x)"
  by (cases l) auto

text \<open>Unlinking \<open>b\<close>: its predecessor, if any, takes over its successor, and conversely.\<close>

lemma path_next_mem: "path nx p (xs @ b # ys) \<Longrightarrow> nx b = (case ys of [] \<Rightarrow> None | y # _ \<Rightarrow> Some y)"
  by (induction xs arbitrary: p) (auto dest: path_head)

lemma backs_prev_mem: "backs pv q (xs @ b # ys) \<Longrightarrow> pv b = (if xs = [] then q else Some (last xs))"
  by (induction xs arbitrary: q) auto

lemma path_unlink_mid:
  assumes "path nx p (xs @ b # ys)" "distinct (xs @ b # ys)" "xs \<noteq> []"
  shows "path (nx(last xs := nx b)) p (xs @ ys)"
  using assms by (induction xs arbitrary: p) auto

lemma backs_unlink:
  assumes "backs pv q (xs @ b # y # ys)" "distinct (xs @ b # y # ys)"
  shows "backs (pv(y := pv b)) q (xs @ y # ys)"
  using assms by (induction xs arbitrary: q) auto

lemma backs_unlink_last: "backs pv q (xs @ [b]) \<Longrightarrow> backs pv q xs"
  by (induction xs arbitrary: q) auto

text \<open>Linking a new node behind \<open>a\<close>.\<close>

lemma path_insert_after:
  assumes "path nx p (xs @ a # ys)" "distinct (xs @ a # ys)" "b \<notin> set (xs @ a # ys)"
  shows "path (nx(b := nx a, a := Some b)) p (xs @ a # b # ys)"
  using assms by (induction xs arbitrary: p) auto

section \<open>Rings\<close>

lemma links_append_Cons: "links nx pv (xs @ y # ys) \<longleftrightarrow> links nx pv (xs @ [y]) \<and> links nx pv (y # ys)"
proof (induction xs)
  case (Cons a xs)
  then show ?case by (cases xs) auto
qed simp

lemma links_nx_other [simp]: "x \<notin> set l \<Longrightarrow> links (nx(x := v)) pv (l @ [y]) = links nx pv (l @ [y])"
proof (induction l)
  case (Cons a l)
  then show ?case by (cases l) auto
qed simp

lemma links_pv_other [simp]: "x \<notin> set l \<Longrightarrow> links nx (pv(x := v)) (y # l) = links nx pv (y # l)"
proof (induction l arbitrary: y)
  case (Cons a l)
  then show ?case by (cases l) auto
qed simp

lemma links_snoc2: "links nx pv (xs @ [a, b]) \<longleftrightarrow> links nx pv (xs @ [a]) \<and> nx a = Some b \<and> pv b = Some a"
  using links_append_Cons [of nx pv xs a "[b]"] by simp

lemma ring_rotate: "ring nx pv (xs @ ys) = ring nx pv (ys @ xs)"
proof (cases xs)
  case (Cons x xs')
  show ?thesis
  proof (cases ys)
    case ys: (Cons y ys')
    have "ring nx pv (xs @ ys) \<longleftrightarrow> links nx pv (x # xs' @ [y]) \<and> links nx pv (y # ys' @ [x])"
      using links_append_Cons [of nx pv "x # xs'" y "ys' @ [x]"] by (simp add: ring_def Cons ys)
    moreover have "ring nx pv (ys @ xs) \<longleftrightarrow> links nx pv (y # ys' @ [x]) \<and> links nx pv (x # xs' @ [y])"
      using links_append_Cons [of nx pv "y # ys'" x "xs' @ [y]"] by (simp add: ring_def Cons ys)
    ultimately show ?thesis by blast
  qed simp
qed simp

lemma ring_hd_prev: "ring nx pv (x # l) \<Longrightarrow> pv x = Some (last (x # l))"
proof -
  assume "ring nx pv (x # l)"
  then have "links nx pv (butlast (x # l) @ [last (x # l), x])"
    by (metis append_butlast_last_id append.assoc append_Cons append_Nil list.sel(1) list.distinct(1) ring_def)
  then show ?thesis by (simp add: links_snoc2)
qed

lemma ring_hd_next: "ring nx pv (x # l) \<Longrightarrow> nx x = Some (hd (l @ [x]))"
  by (cases l) (auto simp: ring_def)

lemma ring_next_mem: "ring nx pv (xs @ b # ys) \<Longrightarrow> nx b = Some (hd (ys @ xs @ [b]))"
  using ring_rotate [of nx pv xs "b # ys"] ring_hd_next [of nx pv b "ys @ xs"] by simp

lemma ring_prev_mem: "ring nx pv (xs @ b # ys) \<Longrightarrow> pv b = Some (last (b # ys @ xs))"
  using ring_rotate [of nx pv xs "b # ys"] ring_hd_prev [of nx pv b "ys @ xs"] by simp

lemma ring_unlink_head:
  assumes r: "ring nx pv (b # x # l)" and d: "distinct (b # x # l)"
  shows "ring (nx(last (x # l) := Some x)) (pv(x := Some (last (x # l)))) (x # l)"
proof -
  define z where "z = last (x # l)"
  define m where "m = butlast (x # l)"
  have xl: "x # l = m @ [z]" unfolding z_def m_def by simp
  have zm: "z \<notin> set m" using d xl by (metis distinct.simps(2) distinct_append disjoint_insert(1) list.simps(15))
  have "links nx pv (b # (m @ [z]) @ [b])" using r by (simp add: ring_def flip: xl)
  then have "links nx pv ((b # m) @ z # [b])" by simp
  then have "links nx pv (b # m @ [z])" using links_append_Cons [of nx pv "b # m" z "[b]"] by simp
  then have l: "links nx pv (x # l)" using xl by (metis links.simps(1))
  have "links nx (pv(x := Some z)) (x # l)" using l d by simp
  then have "links (nx(z := Some x)) (pv(x := Some z)) (m @ [z])" using zm xl by simp
  then have "links (nx(z := Some x)) (pv(x := Some z)) (m @ [z, x])" by (simp add: links_snoc2)
  then show ?thesis unfolding ring_def z_def [symmetric] by (metis append.assoc append_Cons append_Nil list.sel(1) xl list.distinct(1))
qed

text \<open>Unlinking any node of a ring of at least two.\<close>

lemma ring_unlink:
  assumes r: "ring nx pv (xs @ b # ys)" and d: "distinct (xs @ b # ys)" and ne: "xs @ ys \<noteq> []"
  shows "ring (nx(last (ys @ xs) := Some (hd (ys @ xs)))) (pv(hd (ys @ xs) := Some (last (ys @ xs)))) (xs @ ys)"
proof -
  obtain z zs where zs: "ys @ xs = z # zs" using ne by (cases "ys @ xs") auto
  have "ring nx pv (b # ys @ xs)" using r ring_rotate [of nx pv xs "b # ys"] by simp
  moreover have "distinct (b # ys @ xs)" using d by auto
  ultimately have "ring (nx(last (z # zs) := Some z)) (pv(z := Some (last (z # zs)))) (ys @ xs)"
    using ring_unlink_head [of nx pv b z zs] by (simp add: zs)
  then show ?thesis by (subst ring_rotate) (simp only: zs list.sel)
qed

text \<open>Inserting a new node before the head, that is, at the end.\<close>

lemma ring_insert:
  assumes r: "ring nx pv (x # l)" and d: "distinct (x # l)" and b: "b \<notin> set (x # l)"
  shows "ring (nx(b := Some x, last (x # l) := Some b)) (pv(b := Some (last (x # l)), x := Some b)) ((x # l) @ [b])"
proof -
  define z where "z = last (x # l)"
  define m where "m = butlast (x # l)"
  have xl: "x # l = m @ [z]" unfolding z_def m_def by simp
  have bx: "b \<noteq> x" using b by simp
  have "distinct (m @ [z])" "b \<notin> set (m @ [z])" using d b by (simp_all only: xl not_False_eq_True)
  with bx have zm: "z \<notin> set m" "b \<notin> set m" "b \<noteq> z" "b \<noteq> x" by auto
  have "links nx pv ((x # l) @ [x])" using r by (simp add: ring_def)
  then have "links nx pv (m @ [z, x])" by (simp only: xl append_assoc append.simps)
  then have "links nx pv (m @ [z])" by (simp add: links_snoc2)
  then have l: "links nx pv (x # l)" by (simp only: xl)
  have "links nx (pv(b := Some z, x := Some b)) (x # l)" using l d b by simp
  then have "links (nx(b := Some x, z := Some b)) (pv(b := Some z, x := Some b)) (m @ [z])"
    using zm by (simp add: xl)
  moreover have "(nx(b := Some x, z := Some b)) z = Some b" "(nx(b := Some x, z := Some b)) b = Some x"
    "(pv(b := Some z, x := Some b)) b = Some z" "(pv(b := Some z, x := Some b)) x = Some b"
    using zm by auto
  ultimately have "links (nx(b := Some x, z := Some b)) (pv(b := Some z, x := Some b)) (m @ [z, b, x])"
    using links_snoc2 [of _ _ "m @ [z]" b x] by (simp add: links_snoc2)
  then have "links (nx(b := Some x, z := Some b)) (pv(b := Some z, x := Some b)) ((x # l) @ [b, x])"
    by (simp only: xl append_assoc append.simps)
  then show ?thesis unfolding ring_def z_def [symmetric] by simp
qed

lemma ring_cong:
  assumes "\<And>x. x \<in> set l \<Longrightarrow> nx x = nx' x" "\<And>x. x \<in> set l \<Longrightarrow> pv x = pv' x"
  shows "ring nx pv l = ring nx' pv' l"
proof -
  have "links nx pv (x # m) = links nx' pv' (x # m)" if "set (x # m) \<subseteq> set l" for x m
    using that assms by (induction m arbitrary: x) auto
  moreover have "\<exists>x m. l @ [hd l] = x # m \<and> set (x # m) \<subseteq> set l" if "l \<noteq> []"
    using that by (cases l) auto
  ultimately show ?thesis unfolding ring_def by metis
qed

section \<open>The pointer updates of unlinking\<close>

definition unlink_to :: "nat option \<Rightarrow> nat option \<Rightarrow> (nat \<Rightarrow> nat option) \<Rightarrow> (nat \<Rightarrow> nat option)" where
  "unlink_to at v f = (case at of None \<Rightarrow> f | Some k \<Rightarrow> f(k := v))"

lemma chain_unlink:
  assumes p: "path nx p l" and q: "backs pv None l" and d: "distinct l" and b: "b \<in> set l"
  shows "path (unlink_to (pv b) (nx b) nx) (if p = Some b then nx b else p) (remove1 b l)"
    and "backs (unlink_to (nx b) (pv b) pv) None (remove1 b l)"
    and "pv b = Some k \<Longrightarrow> k \<in> set l" and "nx b = Some k \<Longrightarrow> k \<in> set l"
proof -
  obtain xs ys where l: "l = xs @ b # ys" using b by (auto simp: in_set_conv_decomp)
  have bn: "b \<notin> set xs" using d l by simp
  then have r: "remove1 b l = xs @ ys" by (simp add: l remove1_append)
  have nb: "nx b = (case ys of [] \<Rightarrow> None | y # _ \<Rightarrow> Some y)" using p path_next_mem by (simp add: l)
  have pb: "pv b = (if xs = [] then None else Some (last xs))" using q backs_prev_mem by (simp add: l)
  show "path (unlink_to (pv b) (nx b) nx) (if p = Some b then nx b else p) (remove1 b l)"
  proof (cases xs)
    case Nil
    then show ?thesis using p pb by (simp add: r l unlink_to_def)
  next
    case (Cons x xs')
    then have "p \<noteq> Some b" using p bn by (simp add: l)
    moreover have "xs \<noteq> []" using Cons by simp
    moreover have "path (nx(last xs := nx b)) p (xs @ ys)"
      by (rule path_unlink_mid [OF p [unfolded l] d [unfolded l] \<open>xs \<noteq> []\<close>])
    ultimately show ?thesis using pb by (simp add: r unlink_to_def)
  qed
  show "backs (unlink_to (nx b) (pv b) pv) None (remove1 b l)"
  proof (cases ys)
    case Nil
    then have "backs pv None xs" using q backs_unlink_last [of pv None xs b] by (simp add: l)
    then show ?thesis unfolding r using Nil nb by (simp add: unlink_to_def)
  next
    case (Cons y ys')
    then have "backs (pv(y := pv b)) None (xs @ y # ys')" using q d backs_unlink [of pv None xs b y ys'] by (simp add: l)
    then show ?thesis unfolding r using Cons nb by (simp add: unlink_to_def)
  qed
  show "k \<in> set l" if "pv b = Some k" using that pb by (auto simp: l split: if_splits)
  show "k \<in> set l" if "nx b = Some k" using that nb by (auto simp: l split: list.splits)
qed

lemma ring_remove:
  assumes r: "ring nx pv l" and d: "distinct l" and b: "b \<in> set l" and two: "2 \<le> length l"
  obtains p n where "pv b = Some p" "nx b = Some n" "p \<in> set l" "n \<in> set l" "p \<noteq> b" "n \<noteq> b"
    "ring (nx(p := Some n)) (pv(n := Some p)) (remove1 b l)"
    "hd (remove1 b l) = (if hd l = b then n else hd l)" "remove1 b l \<noteq> []"
proof -
  obtain xs ys where l: "l = xs @ b # ys" using b by (auto simp: in_set_conv_decomp)
  have bn: "b \<notin> set xs" "b \<notin> set ys" using d l by simp_all
  then have r1: "remove1 b l = xs @ ys" by (simp add: l remove1_append)
  have ne: "ys @ xs \<noteq> []" using two l by (cases xs) auto
  define p where "p = last (ys @ xs)"
  define n where "n = hd (ys @ xs)"
  have mem: "p \<in> set (ys @ xs)" "n \<in> set (ys @ xs)" using last_in_set [OF ne] hd_in_set [OF ne] by (simp_all only: p_def n_def)
  have "nx b = Some n" using ring_next_mem [of nx pv xs b ys] r ne by (simp add: l n_def hd_append)
  moreover have "pv b = Some p" using ring_prev_mem [of nx pv xs b ys] r ne by (auto simp: l p_def)
  moreover have "ring (nx(p := Some n)) (pv(n := Some p)) (remove1 b l)"
    unfolding r1 p_def n_def by (rule ring_unlink [OF r [unfolded l] d [unfolded l]]) (use ne in auto)
  moreover have "hd (remove1 b l) = (if hd l = b then n else hd l)"
    using bn ne by (cases xs) (auto simp: r1 l n_def)
  moreover have "p \<in> set l" "n \<in> set l" "p \<noteq> b" "n \<noteq> b" using mem bn by (auto simp: l)
  moreover have "remove1 b l \<noteq> []" using r1 ne by auto
  ultimately show thesis using that by blast
qed

lemma ring_append:
  assumes r: "ring nx pv l" and d: "distinct l" and b: "b \<notin> set l"
  obtains p where "pv (hd l) = Some p" "p \<in> set l" "hd l \<in> set l"
    "ring (nx(b := Some (hd l), p := Some b)) (pv(b := Some p, hd l := Some b)) (l @ [b])"
proof (cases l)
  case Nil
  then show ?thesis using r by (simp add: ring_def)
next
  case (Cons x m)
  show ?thesis
  proof
    show "pv (hd l) = Some (last l)" using ring_hd_prev [of nx pv x m] r by (simp add: Cons)
    show "last l \<in> set l" "hd l \<in> set l" by (simp_all add: Cons)
    show "ring (nx(b := Some (hd l), last l := Some b)) (pv(b := Some (last l), hd l := Some b)) (l @ [b])"
      using ring_insert [of nx pv x m b] r d b by (simp add: Cons)
  qed
qed

end
