(* ===== verification/Block.thy ===== *)
theory Block
  imports Sched Links
begin

text \<open>
  Block device requests (\<open>kernel/blk_drv/ll_rw_blk.c\<close>, \<open>blk.h\<close>) and the ram disk
  (\<open>kernel/blk_drv/ramdisk.c\<close>), the only driver the kernel installs.

  The request table is the array \<open>request\<close>, a device's queue a list threaded through it. The
  field \<open>buffer\<close> of a request is always the \<open>b_data\<close> of its buffer head and is read there.
  \<open>rd_mem\<close> is the memory from \<open>rd_start\<close>. Pointer sums \<open>rd_start + x\<close> do not wrap (that would be
  undefined in C); the shifts of the unsigned sector numbers do.
\<close>

abbreviation "MAJOR_NR \<equiv> (1 :: nat)"

text \<open>\<open>MAJOR\<close> and \<open>MINOR\<close> of \<open>fs.h\<close>; the cast to \<open>unsigned\<close> is 32 bits wide.\<close>

definition MAJOR :: "int \<Rightarrow> nat" where "MAJOR a = unat (drop_bit 8 (word_of_int a :: u32))"
definition MINOR :: "int \<Rightarrow> nat" where "MINOR a = unat ((word_of_int a :: u32) AND 0xff)"

section \<open>Buffer locks\<close>

text \<open>\<open>while(bh->b_lock) sleep_on(&bh->b_wait)\<close>\<close>

definition wait_on_buffer :: "nat \<Rightarrow> unit K" where
  "wait_on_buffer b = loopk WAIT_FUEL (\<lambda>_. bindk (get_bh b) (\<lambda>h.
     if b_lock h \<noteq> 0 then bindk (sleep_on (WBuffer b)) (\<lambda>_. retk (Inl ())) else retk (Inr ()))) ()"

definition lock_buffer :: "nat \<Rightarrow> unit K" where
  "lock_buffer b = bindk (wait_on_buffer b) (\<lambda>_. upd_bh b (\<lambda>h. h\<lparr>b_lock := 1\<rparr>))"

definition unlock_buffer :: "nat \<Rightarrow> unit K" where
  "unlock_buffer b = bindk (upd_bh b (\<lambda>h. h\<lparr>b_lock := 0\<rparr>)) (\<lambda>_. wake_up (WBuffer b))"

section \<open>The ram disk driver\<close>

definition get_bdev :: "nat \<Rightarrow> blk_dev_struct K" where
  [kdefs]: "get_bdev m = (\<lambda>s. if m < length (blk_dev s) then Ok (blk_dev s ! m) s else Fault)"

definition set_current_request :: "nat \<Rightarrow> nat option \<Rightarrow> unit K" where
  [kdefs]: "set_current_request m r = (\<lambda>s. if m < length (blk_dev s)
     then Ok () (s\<lparr>blk_dev := (blk_dev s)[m := (blk_dev s ! m)\<lparr>current_request := r\<rparr>]\<rparr>) else Fault)"

text \<open>\<open>end_request\<close> of \<open>blk.h\<close>, for the request at the head of the ram disk's queue.\<close>

definition end_request :: "nat \<Rightarrow> u8 \<Rightarrow> unit K" where
  "end_request cur uptodate = bindk (get_req cur) (\<lambda>r.
     bindk (case r_bh r of None \<Rightarrow> retk () | Some b \<Rightarrow>
       bindk (upd_bh b (\<lambda>h. h\<lparr>b_uptodate := uptodate\<rparr>)) (\<lambda>_. unlock_buffer b)) (\<lambda>_.
     bindk (whenk (uptodate = 0) (bindk (derefk (r_bh r)) (\<lambda>_. retk ()))) (\<lambda>_.
     bindk (wake_up (WReq cur)) (\<lambda>_.
     bindk (wake_up WRequest) (\<lambda>_.
     bindk (upd_req cur (\<lambda>r. r\<lparr>r_dev := -1\<rparr>)) (\<lambda>_.
     set_current_request MAJOR_NR (r_next r)))))))"

text \<open>The two \<open>memcpy\<close> of the driver: \<open>off\<close> and \<open>len\<close> are the offset from \<open>rd_start\<close> and the length.\<close>

definition rd_store :: "nat \<Rightarrow> u8 list \<Rightarrow> (nat \<Rightarrow> u8) \<Rightarrow> (nat \<Rightarrow> u8)" where
  "rd_store off bs m = (\<lambda>a. if off \<le> a \<and> a < off + length bs then bs ! (a - off) else m a)"

definition rd_fetch :: "nat \<Rightarrow> nat \<Rightarrow> (nat \<Rightarrow> u8) \<Rightarrow> u8 list" where
  "rd_fetch off len m = map m [off..<off + len]"

definition rd_copy_out :: "nat \<Rightarrow> nat \<Rightarrow> nat \<Rightarrow> unit K" where
  "rd_copy_out b off len = bindk (get_bh b) (\<lambda>h. if length (b_data h) < len then faultk else
     modk (\<lambda>s. s\<lparr>rd_mem := rd_store off (take len (b_data h)) (rd_mem s)\<rparr>))"

definition rd_copy_in :: "nat \<Rightarrow> nat \<Rightarrow> nat \<Rightarrow> unit K" where
  "rd_copy_in b off len = bindk (get_bh b) (\<lambda>h. if length (b_data h) < len then faultk else
     bindk (getk rd_mem) (\<lambda>m. upd_bh b (\<lambda>h. h\<lparr>b_data := rd_fetch off len m @ drop len (b_data h)\<rparr>)))"

text \<open>One round of \<open>do_rd_request\<close>, from the label \<open>repeat\<close> of \<open>INIT_REQUEST\<close>. The queue has at most
  \<open>NR_REQUEST\<close> entries, each round takes one off.\<close>

definition rd_round :: "(unit + unit) K" where
  "rd_round = bindk (get_bdev MAJOR_NR) (\<lambda>d. case current_request d of None \<Rightarrow> retk (Inr ()) | Some cur \<Rightarrow>
     bindk (get_req cur) (\<lambda>r.
     if MAJOR (r_dev r) \<noteq> MAJOR_NR then panick ''ramdisk: request list destroyed'' else
     bindk (case r_bh r of None \<Rightarrow> retk () | Some b \<Rightarrow>
       bindk (get_bh b) (\<lambda>h. whenk (b_lock h = 0) (panick ''ramdisk: block not locked''))) (\<lambda>_.
     bindk (getk rd_length) (\<lambda>rlen.
     let off = unat (push_bit 9 (r_sector r)); len = unat (push_bit 9 (r_nr_sectors r)) in
     if MINOR (r_dev r) \<noteq> MAJOR_NR \<or> off + len > rlen
     then bindk (end_request cur 0) (\<lambda>_. retk (Inl ()))
     else
     bindk (derefk (r_bh r)) (\<lambda>b.
     bindk (if r_cmd r = WRITE then rd_copy_out b off len
            else if r_cmd r = READ then rd_copy_in b off len
            else panick ''unknown ramdisk-command'') (\<lambda>_.
     bindk (end_request cur 1) (\<lambda>_. retk (Inl ()))))))))"

definition do_rd_request :: "unit K" where
  "do_rd_request = loopk (NR_REQUEST + 1) (\<lambda>_. rd_round) ()"

definition rd_init :: "nat \<Rightarrow> nat K" where
  "rd_init len = bindk (modk (\<lambda>s. s\<lparr>blk_dev := (blk_dev s)[MAJOR_NR := (blk_dev s ! MAJOR_NR)\<lparr>request_fn := True\<rparr>],
     rd_length := len\<rparr>)) (\<lambda>_. retk len)"

text \<open>The 16-bit little-endian magic number of the super block image at byte 1024.\<close>

definition rd_magic :: "(nat \<Rightarrow> u8) \<Rightarrow> u16" where
  "rd_magic m = ucast (m 1040) OR push_bit 8 (ucast (m 1041))"

definition rd_load :: "unit K" where
  "rd_load = bindk (getk rd_length) (\<lambda>n. if n = 0 then retk () else
     bindk (getk rd_mem) (\<lambda>m. whenk (rd_magic m \<noteq> 0x137F) (panick ''No root filesystem!'')))"

section \<open>Requests\<close>

definition IN_ORDER :: "request \<Rightarrow> request \<Rightarrow> bool" where
  "IN_ORDER s1 s2 \<longleftrightarrow> r_cmd s1 < r_cmd s2 \<or> r_cmd s1 = r_cmd s2 \<and>
     (r_dev s1 < r_dev s2 \<or> r_dev s1 = r_dev s2 \<and> r_sector s1 < r_sector s2)"

text \<open>The elevator's \<open>for\<close> loop: the request after which the new one goes.\<close>

definition elevator_step :: "nat \<Rightarrow> nat \<Rightarrow> (nat + nat) K" where
  "elevator_step req tmp = bindk (get_req tmp) (\<lambda>t.
     case r_next t of None \<Rightarrow> retk (Inr tmp) | Some nx \<Rightarrow>
     bindk (get_req req) (\<lambda>r. bindk (get_req nx) (\<lambda>n.
     if (IN_ORDER t r \<or> \<not> IN_ORDER t n) \<and> IN_ORDER r n then retk (Inr tmp) else retk (Inl nx))))"

definition elevator :: "nat \<Rightarrow> nat \<Rightarrow> nat K" where
  "elevator req tmp0 = loopk (NR_REQUEST + 1) (elevator_step req) tmp0"

text \<open>\<open>(dev->request_fn)()\<close>: NULL faults; the only function ever stored there is \<open>do_rd_request\<close>.\<close>

definition add_request :: "nat \<Rightarrow> nat \<Rightarrow> unit K" where
  "add_request major req = bindk (upd_req req (\<lambda>r. r\<lparr>r_next := None\<rparr>)) (\<lambda>_.
     bindk (get_req req) (\<lambda>r.
     bindk (case r_bh r of None \<Rightarrow> retk () | Some b \<Rightarrow> upd_bh b (\<lambda>h. h\<lparr>b_dirt := 0\<rparr>)) (\<lambda>_.
     bindk (get_bdev major) (\<lambda>d. case current_request d of
       None \<Rightarrow> bindk (set_current_request major (Some req)) (\<lambda>_.
         if request_fn d then do_rd_request else faultk)
     | Some tmp0 \<Rightarrow> bindk (elevator req tmp0) (\<lambda>tmp.
         bindk (get_req tmp) (\<lambda>t.
         bindk (upd_req req (\<lambda>r. r\<lparr>r_next := r_next t\<rparr>)) (\<lambda>_.
         upd_req tmp (\<lambda>t. t\<lparr>r_next := Some req\<rparr>))))))))"

text \<open>\<open>while(--req >= request) if(req->dev < 0) break;\<close> from below index \<open>n\<close>. The test \<open>req < request\<close>
  stands inside that loop, where it is never true, so the branches that would sleep or give up a
  read-ahead are dead; when the table is full the loop ends with \<open>req\<close> one before the table and
  the stores that follow are out of range.\<close>

fun find_request :: "kstate \<Rightarrow> nat \<Rightarrow> nat option" where
  "find_request s 0 = None"
| "find_request s (Suc n) = (if r_dev (request s ! n) < 0 then Some n else find_request s n)"

definition make_request :: "nat \<Rightarrow> int \<Rightarrow> nat \<Rightarrow> unit K" where
  "make_request major rw0 b = bindk (get_bh b) (\<lambda>h0.
     if (rw0 = READA \<or> rw0 = WRITEA) \<and> b_lock h0 \<noteq> 0 then retk () else
     let rw = (if rw0 = READA then READ else if rw0 = WRITEA then WRITE else rw0) in
     if rw \<noteq> READ \<and> rw \<noteq> WRITE then panick ''Bad block dev command,must be R/W/RA/WA'' else
     bindk (lock_buffer b) (\<lambda>_.
     bindk (get_bh b) (\<lambda>h.
     if rw = WRITE \<and> b_dirt h = 0 \<or> rw = READ \<and> b_uptodate h \<noteq> 0 then unlock_buffer b else
     bindk (getk (\<lambda>s. find_request s (if rw = READ then NR_REQUEST else NR_REQUEST * 2 div 3))) (\<lambda>slot.
     case slot of None \<Rightarrow> faultk | Some req \<Rightarrow>
     bindk (upd_req req (\<lambda>_. \<lparr>r_dev = uint (b_dev h), r_cmd = rw, r_errors = 0,
        r_sector = push_bit 1 (b_blocknr h), r_nr_sectors = 2, r_waiting = 0, r_bh = Some b,
        r_next = None\<rparr>)) (\<lambda>_.
     add_request major req)))))"

definition ll_rw_block :: "int \<Rightarrow> nat \<Rightarrow> unit K" where
  "ll_rw_block rw b = bindk (get_bh b) (\<lambda>h. let major = MAJOR (uint (b_dev h)) in
     if major \<ge> 7 then retk () else
     bindk (get_bdev major) (\<lambda>d. if \<not> request_fn d then retk () else make_request major rw b))"

definition blk_dev_init :: "unit K" where
  "blk_dev_init = modk (\<lambda>s. s\<lparr>request := map (\<lambda>r. r\<lparr>r_dev := -1, r_next := None\<rparr>) (request s)\<rparr>)"

section \<open>The idle disk\<close>

text \<open>Between two calls of \<open>ll_rw_block\<close> the ram disk is idle: no request is pending on any device,
  the table is free, and the ram disk is the only device with a driver.\<close>

definition blk_ok :: "kstate \<Rightarrow> bool" where
  "blk_ok s \<longleftrightarrow> length (request s) = NR_REQUEST \<and> length (blk_dev s) = 7 \<and>
     (\<forall>i < NR_REQUEST. r_dev (request s ! i) < 0) \<and>
     (\<forall>m < 7. current_request (blk_dev s ! m) = None \<and> (request_fn (blk_dev s ! m) \<longleftrightarrow> m = MAJOR_NR))"

definition wake :: "ulong \<Rightarrow> (ulong \<Rightarrow> task_struct) \<Rightarrow> (ulong \<Rightarrow> task_struct)" where
  "wake p ts = (if p = 0 then ts else ts(p := (ts p)\<lparr>t_state := TASK_RUNNING\<rparr>))"

lemma wake_up_eq: "wake_up q s = Ok () (s\<lparr>tasks := wake (wq_get q s) (tasks s)\<rparr>)"
  by (simp add: wake_up_def kdefs wake_def)

text \<open>What a block transfer may do besides its purpose: make sleeping tasks runnable.\<close>

definition woken :: "(ulong \<Rightarrow> task_struct) \<Rightarrow> (ulong \<Rightarrow> task_struct) \<Rightarrow> bool" where
  "woken ts ts' \<longleftrightarrow> (\<forall>p. ts' p = ts p \<or> ts' p = (ts p)\<lparr>t_state := TASK_RUNNING\<rparr>)"

lemma woken_refl [simp]: "woken ts ts" by (simp add: woken_def)

lemma woken_wake [simp]: "woken ts (wake p ts)" by (simp add: woken_def wake_def)

lemma woken_trans: "woken a b \<Longrightarrow> woken b c \<Longrightarrow> woken a c"
  unfolding woken_def by (metis task_struct.surjective task_struct.update_convs(1))

lemma woken_step: "woken ts us \<Longrightarrow> woken ts (wake p us)"
  by (rule woken_trans [OF _ woken_wake])

lemma wait_on_buffer_free:
  "b < length (bufs s) \<Longrightarrow> b_lock (bufs s ! b) = 0 \<Longrightarrow> wait_on_buffer b s = Ok () s"
  by (simp add: wait_on_buffer_def loopk_numeral kdefs)

lemma unlock_buffer_eq: "b < length (bufs s) \<Longrightarrow> unlock_buffer b s =
  Ok () (s\<lparr>bufs := (bufs s)[b := (bufs s ! b)\<lparr>b_lock := 0\<rparr>], tasks := wake (b_wait (bufs s ! b)) (tasks s)\<rparr>)"
  by (simp add: unlock_buffer_def wake_up_eq kdefs)

lemma lock_buffer_eq: "b < length (bufs s) \<Longrightarrow> b_lock (bufs s ! b) = 0 \<Longrightarrow>
  lock_buffer b s = Ok () (s\<lparr>bufs := (bufs s)[b := (bufs s ! b)\<lparr>b_lock := 1\<rparr>]\<rparr>)"
  by (simp add: lock_buffer_def wait_on_buffer_free kdefs)

lemma end_request_eq:
  assumes "cur < length (request s)" "r_bh (request s ! cur) = Some b" "b < length (bufs s)" "1 < length (blk_dev s)"
  shows "\<exists>ts. woken (tasks s) ts \<and> end_request cur u s = Ok () (s\<lparr>
    bufs := (bufs s)[b := (bufs s ! b)\<lparr>b_uptodate := u, b_lock := 0\<rparr>], tasks := ts,
    request := (request s)[cur := (request s ! cur)\<lparr>r_dev := -1\<rparr>],
    blk_dev := (blk_dev s)[1 := (blk_dev s ! 1)\<lparr>current_request := r_next (request s ! cur)\<rparr>]\<rparr>)"
  using assms
  by (auto simp: end_request_def unlock_buffer_eq wake_up_eq kdefs intro!: exI woken_step)

lemma find_request_top:
  "0 < n \<Longrightarrow> r_dev (request s ! (n - 1)) < 0 \<Longrightarrow> find_request s n = Some (n - 1)"
  by (cases n) auto

text \<open>The effect of a transfer on the buffer and on the disk.\<close>

definition io_buffer :: "int \<Rightarrow> kstate \<Rightarrow> buffer_head \<Rightarrow> buffer_head" where
  "io_buffer rw s h = (let n = unat (b_blocknr h) in
     if 1024 * n + 1024 > rd_length s then h\<lparr>b_uptodate := 0, b_lock := 0\<rparr>
     else if rw = WRITE then h\<lparr>b_uptodate := 1, b_lock := 0\<rparr>
     else h\<lparr>b_data := rd_fetch (1024 * n) 1024 (rd_mem s), b_uptodate := 1, b_lock := 0\<rparr>)"

definition io_disk :: "int \<Rightarrow> kstate \<Rightarrow> buffer_head \<Rightarrow> (nat \<Rightarrow> u8)" where
  "io_disk rw s h = (let n = unat (b_blocknr h) in
     if rw = WRITE \<and> 1024 * n + 1024 \<le> rd_length s then rd_store (1024 * n) (b_data h) (rd_mem s) else rd_mem s)"

lemma block_offset: "(w :: ulong) < 2 ^ 54 \<Longrightarrow> unat (push_bit 9 (push_bit 1 w)) = 1024 * unat w"
proof -
  assume "w < 2 ^ 54"
  then have "unat w < 2 ^ 54" by (simp add: word_less_nat_alt)
  then show ?thesis by (simp add: push_bit_eq_mult unat_word_ariths)
qed

lemma rd_root_dev: "MAJOR 0x101 = 1" "MINOR 0x101 = 1"
  by (simp_all add: MAJOR_def MINOR_def drop_bit_eq_div unat_div)

lemma loopk_two: "loopk (numeral k) f x s = bindk (f x) (\<lambda>r. case r of
    Inl y \<Rightarrow> loopk (pred_numeral k) f y | Inr z \<Rightarrow> retk z) s"
  by (simp add: loopk_numeral)

lemma do_rd_request_single:
  assumes b: "b < length (bufs s)" "b_lock (bufs s ! b) \<noteq> 0" "length (b_data (bufs s ! b)) = 1024"
      "b_blocknr (bufs s ! b) < 2 ^ 54"
    and q: "1 < length (blk_dev s)" "current_request (blk_dev s ! 1) = Some cur" "cur < length (request s)"
    and r: "request s ! cur = \<lparr>r_dev = 0x101, r_cmd = rw, r_errors = 0, r_sector = push_bit 1 (b_blocknr (bufs s ! b)),
        r_nr_sectors = 2, r_waiting = 0, r_bh = Some b, r_next = None\<rparr>"
    and rw: "rw = READ \<or> rw = WRITE"
  shows "\<exists>ts. woken (tasks s) ts \<and> do_rd_request s = Ok () (s\<lparr>
    bufs := (bufs s)[b := io_buffer rw s (bufs s ! b)], tasks := ts,
    request := (request s)[cur := (request s ! cur)\<lparr>r_dev := -1\<rparr>],
    blk_dev := (blk_dev s)[1 := (blk_dev s ! 1)\<lparr>current_request := None\<rparr>], rd_mem := io_disk rw s (bufs s ! b)\<rparr>)"
proof -
  define n where "n = unat (b_blocknr (bufs s ! b))"
  have off: "unat (push_bit 9 (b_blocknr (bufs s ! b) * 2)) = 1024 * n"
    "unat (push_bit 9 (2 :: ulong)) = 1024"
    using block_offset [OF b(4)] by (simp_all add: n_def push_bit_eq_mult mult.commute)
  define s1 where "s1 = (if 1024 * n + 1024 > rd_length s then s
    else if rw = WRITE then s\<lparr>rd_mem := rd_store (1024 * n) (b_data (bufs s ! b)) (rd_mem s)\<rparr>
    else s\<lparr>bufs := (bufs s)[b := (bufs s ! b)\<lparr>b_data := rd_fetch (1024 * n) 1024 (rd_mem s)\<rparr>]\<rparr>)"
  define u :: u8 where "u = (if 1024 * n + 1024 > rd_length s then 0 else 1)"
  have s1: "cur < length (request s1)" "r_bh (request s1 ! cur) = Some b" "b < length (bufs s1)" "1 < length (blk_dev s1)"
    using b q r by (simp_all add: s1_def)
  from end_request_eq [OF s1, of u] obtain ts where
    ts: "woken (tasks s1) ts" and e: "end_request cur u s1 = Ok () (s1\<lparr>
    bufs := (bufs s1)[b := (bufs s1 ! b)\<lparr>b_uptodate := u, b_lock := 0\<rparr>], tasks := ts,
    request := (request s1)[cur := (request s1 ! cur)\<lparr>r_dev := -1\<rparr>],
    blk_dev := (blk_dev s1)[1 := (blk_dev s1 ! 1)\<lparr>current_request := r_next (request s1 ! cur)\<rparr>]\<rparr>)"
    (is "_ = Ok () ?t") by blast
  have "rd_round s = bindk (end_request cur u) (\<lambda>_. retk (Inl ())) s1"
  proof (cases "rd_length s < 1024 * n + 1024")
    case True
    then show ?thesis using b q
      by (simp add: rd_round_def kdefs r rd_root_dev off Let_def s1_def u_def)
  next
    case False
    show ?thesis
    proof (cases "rw = WRITE")
      case True
      then show ?thesis using b q False
        by (simp add: rd_round_def kdefs r rd_root_dev off Let_def s1_def u_def rd_copy_out_def)
    next
      case w: False
      then show ?thesis using b q False rw
        by (simp add: rd_round_def kdefs r rd_root_dev off Let_def s1_def u_def rd_copy_in_def)
    qed
  qed
  then have "rd_round s = Ok (Inl ()) ?t" by (simp add: e retk_def)
  moreover have "rd_round ?t = Ok (Inr ()) ?t"
    using s1 r q by (simp add: rd_round_def kdefs s1_def)
  ultimately have "do_rd_request s = Ok () ?t"
    by (simp add: do_rd_request_def loopk_numeral kdefs)
  moreover have "woken (tasks s) ts" using ts by (simp add: s1_def split: if_splits)
  moreover have "?t = s\<lparr>bufs := (bufs s)[b := io_buffer rw s (bufs s ! b)], tasks := ts,
    request := (request s)[cur := (request s ! cur)\<lparr>r_dev := -1\<rparr>],
    blk_dev := (blk_dev s)[1 := (blk_dev s ! 1)\<lparr>current_request := None\<rparr>], rd_mem := io_disk rw s (bufs s ! b)\<rparr>"
    using b(1) by (simp add: s1_def u_def io_buffer_def io_disk_def n_def Let_def r)
  ultimately show ?thesis by metis
qed

lemma find_request_idle:
  "blk_ok s \<Longrightarrow> 0 < n \<Longrightarrow> n \<le> NR_REQUEST \<Longrightarrow> \<exists>k < NR_REQUEST. find_request s n = Some k"
  using find_request_top [of n s] by (auto simp: blk_ok_def intro!: exI [of _ "n - 1"])

definition transfer :: "int \<Rightarrow> nat \<Rightarrow> kstate \<Rightarrow> kstate \<Rightarrow> bool" where
  "transfer rw b s t \<longleftrightarrow> (\<exists>ts rq bd. woken (tasks s) ts \<and>
     t = s\<lparr>bufs := (bufs s)[b := io_buffer rw s ((bufs s ! b)\<lparr>b_dirt := 0\<rparr>)], tasks := ts,
           request := rq, blk_dev := bd, rd_mem := io_disk rw s (bufs s ! b)\<rparr> \<and> blk_ok t)"

lemma make_request_transfer:
  assumes ok: "blk_ok s" and b: "b < length (bufs s)" and h: "bufs s ! b = h" "b_lock h = 0" "b_dev h = 0x101"
      "length (b_data h) = 1024" "b_blocknr h < 2 ^ 54"
    and rw: "rw = READ \<and> b_uptodate h = 0 \<or> rw = WRITE \<and> b_dirt h \<noteq> 0"
  shows "\<exists>t. make_request 1 rw b s = Ok () t \<and> transfer rw b s t"
proof -
  let ?top = "if rw = READ then NR_REQUEST else NR_REQUEST * 2 div 3"
  have "0 < ?top" "?top \<le> NR_REQUEST" by simp_all
  from find_request_idle [OF ok this] obtain k where k: "k < NR_REQUEST" and fr: "find_request s ?top = Some k"
    by blast
  define req where "req = \<lparr>r_dev = 0x101, r_cmd = rw, r_errors = 0, r_sector = push_bit 1 (b_blocknr h),
        r_nr_sectors = 2, r_waiting = 0, r_bh = Some b, r_next = None\<rparr>"
  define s1 where "s1 = s\<lparr>request := (request s)[k := req], bufs := (bufs s)[b := h\<lparr>b_lock := 1, b_dirt := 0\<rparr>],
      blk_dev := (blk_dev s)[1 := (blk_dev s ! 1)\<lparr>current_request := Some k\<rparr>]\<rparr>"
  have len: "length (request s) = NR_REQUEST" "length (blk_dev s) = 7"
    and d1: "request_fn (blk_dev s ! 1)" "current_request (blk_dev s ! 1) = None"
    using ok by (simp_all add: blk_ok_def)
  have "(blk_dev s ! 1)\<lparr>current_request := None\<rparr> = blk_dev s ! 1"
    using d1(2) by (cases "blk_dev s ! 1") simp
  then have same: "(blk_dev s)[Suc 0 := (blk_dev s ! Suc 0)\<lparr>current_request := None\<rparr>] = blk_dev s" by simp
  have fr': "find_request (s\<lparr>bufs := x\<rparr>) n = find_request s n" for x n by (induction n) auto
  have ar: "add_request 1 k (s\<lparr>bufs := (bufs s)[b := h\<lparr>b_lock := 1\<rparr>], request := (request s)[k := req]\<rparr>) = do_rd_request s1"
    using b k len d1 by (simp add: add_request_def kdefs req_def s1_def)
  define s0 where "s0 = s\<lparr>bufs := (bufs s)[b := h\<lparr>b_lock := 1\<rparr>]\<rparr>"
  have lk: "lock_buffer b s = Ok () s0" using b h by (simp add: lock_buffer_eq s0_def)
  have g: "get_bh b s = Ok h s" "get_bh b s0 = Ok (h\<lparr>b_lock := 1\<rparr>) s0"
    using b h by (simp_all add: get_bh_def s0_def)
  have rq: "\<lparr>r_dev = uint (b_dev h), r_cmd = rw, r_errors = 0, r_sector = push_bit 1 (b_blocknr h),
      r_nr_sectors = 2, r_waiting = 0, r_bh = Some b, r_next = None\<rparr> = req"
    using h by (simp add: req_def)
  have u: "upd_req k (\<lambda>_. req) s0 = Ok () (s\<lparr>bufs := (bufs s)[b := h\<lparr>b_lock := 1\<rparr>], request := (request s)[k := req]\<rparr>)"
    using k len by (simp add: upd_req_def s0_def)
  have "find_request s0 ?top = Some k" using fr by (simp add: s0_def fr')
  then have mk: "make_request 1 rw b s = do_rd_request s1"
    using rw h(2) rq u ar by (elim disjE conjE) (simp_all add: make_request_def g lk getk_def)
  have s1b: "b < length (bufs s1)" "bufs s1 ! b = h\<lparr>b_lock := 1, b_dirt := 0\<rparr>"
    "1 < length (blk_dev s1)" "current_request (blk_dev s1 ! 1) = Some k"
    "k < length (request s1)" "request s1 ! k = req" "tasks s1 = tasks s" "rd_length s1 = rd_length s" "rd_mem s1 = rd_mem s"
    using b k len by (simp_all add: s1_def)
  then obtain ts where ts: "woken (tasks s) ts" and r: "do_rd_request s1 = Ok () (s1\<lparr>
    bufs := (bufs s1)[b := io_buffer rw s1 (bufs s1 ! b)], tasks := ts,
    request := (request s1)[k := (request s1 ! k)\<lparr>r_dev := -1\<rparr>],
    blk_dev := (blk_dev s1)[1 := (blk_dev s1 ! 1)\<lparr>current_request := None\<rparr>], rd_mem := io_disk rw s1 (bufs s1 ! b)\<rparr>)"
    (is "_ = Ok () ?t")
    using do_rd_request_single [of b s1 k rw] h rw by (auto simp: req_def)
  have "io_buffer rw s1 (bufs s1 ! b) = io_buffer rw s (h\<lparr>b_dirt := 0\<rparr>)"
    "io_disk rw s1 (bufs s1 ! b) = io_disk rw s h"
    using h(2) by (simp_all add: io_buffer_def io_disk_def s1b Let_def)
  then have t: "?t = s\<lparr>bufs := (bufs s)[b := io_buffer rw s (h\<lparr>b_dirt := 0\<rparr>)], tasks := ts,
    request := (request s)[k := req\<lparr>r_dev := -1\<rparr>], blk_dev := blk_dev s, rd_mem := io_disk rw s h\<rparr>"
    using d1(2) len b k same by (simp add: s1_def)
  have "blk_ok ?t"
    unfolding t using ok k by (auto simp: blk_ok_def nth_list_update req_def)
  with ts t have "transfer rw b s ?t" unfolding transfer_def h(1) by blast
  with r mk show ?thesis by metis
qed

text \<open>A buffer of the ram disk, ready for a transfer.\<close>

definition io_buf :: "kstate \<Rightarrow> nat \<Rightarrow> bool" where
  "io_buf s b \<longleftrightarrow> b < length (bufs s) \<and> b_lock (bufs s ! b) = 0 \<and> b_dev (bufs s ! b) = 0x101 \<and>
     length (b_data (bufs s ! b)) = 1024 \<and> b_blocknr (bufs s ! b) < 2 ^ 54"

lemma ll_rw_block_make:
  assumes "blk_ok s" "io_buf s b"
  shows "ll_rw_block rw b s = make_request 1 rw b s"
  using assms rd_root_dev by (simp add: ll_rw_block_def io_buf_def blk_ok_def get_bh_def get_bdev_def)

lemma ll_rw_block_transfer:
  assumes "blk_ok s" "io_buf s b"
    and "rw = READ \<and> b_uptodate (bufs s ! b) = 0 \<or> rw = WRITE \<and> b_dirt (bufs s ! b) \<noteq> 0"
  shows "\<exists>t. ll_rw_block rw b s = Ok () t \<and> transfer rw b s t"
  using make_request_transfer [OF assms(1) _ refl] assms(2,3) ll_rw_block_make [OF assms(1,2)]
  by (simp add: io_buf_def)

text \<open>Nothing to do: a clean buffer is not written, an up-to-date one not read.\<close>

lemma ll_rw_block_skip:
  assumes "blk_ok s" "io_buf s b"
    and "rw = READ \<and> b_uptodate (bufs s ! b) \<noteq> 0 \<or> rw = WRITE \<and> b_dirt (bufs s ! b) = 0"
  shows "\<exists>ts. woken (tasks s) ts \<and> ll_rw_block rw b s = Ok () (s\<lparr>tasks := ts\<rparr>)"
proof -
  define h where "h = bufs s ! b"
  have b: "b < length (bufs s)" "b_lock h = 0" using assms(2) by (simp_all add: io_buf_def h_def)
  define s0 where "s0 = s\<lparr>bufs := (bufs s)[b := h\<lparr>b_lock := 1\<rparr>]\<rparr>"
  have lk: "lock_buffer b s = Ok () s0" using b by (simp add: lock_buffer_eq s0_def h_def)
  have g: "get_bh b s = Ok h s" "get_bh b s0 = Ok (h\<lparr>b_lock := 1\<rparr>) s0"
    using b by (simp_all add: get_bh_def s0_def h_def)
  have "h\<lparr>b_lock := 0\<rparr> = h" using b(2) by (cases h) simp
  then have "(bufs s0)[b := (bufs s0 ! b)\<lparr>b_lock := 0\<rparr>] = bufs s" "b_wait (bufs s0 ! b) = b_wait h"
    using b(1) by (simp_all add: s0_def) (simp add: h_def)
  moreover have "b < length (bufs s0)" "tasks s0 = tasks s" "s0\<lparr>bufs := bufs s\<rparr> = s" using b(1) by (simp_all add: s0_def)
  ultimately have un: "unlock_buffer b s0 = Ok () (s\<lparr>tasks := wake (b_wait h) (tasks s)\<rparr>)"
    by (simp only: unlock_buffer_eq)
  have "make_request 1 rw b s = Ok () (s\<lparr>tasks := wake (b_wait h) (tasks s)\<rparr>)"
    using assms(3) b(2) unfolding h_def [symmetric]
    by (elim disjE conjE) (simp_all add: make_request_def g lk un)
  with ll_rw_block_make [OF assms(1,2)] show ?thesis by (auto intro: woken_wake)
qed

section \<open>The disk as a provider of blocks\<close>

text \<open>What the buffer cache relies on: reading a block fills the buffer with the disk's content,
  writing a dirty buffer replaces the content of exactly its block, both complete before they return.\<close>

locale disk =
  fixes io :: "int \<Rightarrow> nat \<Rightarrow> unit K"
    and ready :: "kstate \<Rightarrow> bool"
    and blocks :: "kstate \<Rightarrow> nat"
    and content :: "kstate \<Rightarrow> nat \<Rightarrow> u8 list"
  assumes io_read: "\<lbrakk>ready s; io_buf s b; b_uptodate (bufs s ! b) = 0; unat (b_blocknr (bufs s ! b)) < blocks s\<rbrakk> \<Longrightarrow>
      \<exists>t. io READ b s = Ok () t \<and> ready t \<and> blocks t = blocks s \<and> content t = content s \<and>
        bufs t = (bufs s)[b := (bufs s ! b)\<lparr>b_data := content s (unat (b_blocknr (bufs s ! b))),
                                             b_uptodate := 1, b_dirt := 0\<rparr>]"
    and io_write: "\<lbrakk>ready s; io_buf s b; b_dirt (bufs s ! b) \<noteq> 0; unat (b_blocknr (bufs s ! b)) < blocks s\<rbrakk> \<Longrightarrow>
      \<exists>t. io WRITE b s = Ok () t \<and> ready t \<and> blocks t = blocks s \<and>
        (\<forall>n < blocks s. content t n = (if n = unat (b_blocknr (bufs s ! b)) then b_data (bufs s ! b) else content s n)) \<and>
        bufs t = (bufs s)[b := (bufs s ! b)\<lparr>b_uptodate := 1, b_dirt := 0\<rparr>]"
begin

lemma io_buf_upd:
  "io_buf s c \<Longrightarrow> b \<noteq> c \<Longrightarrow> bufs t = (bufs s)[b := h] \<Longrightarrow> io_buf t c"
  by (simp add: io_buf_def)

text \<open>Writing one buffer and reading the block back into another gives the data written.\<close>

lemma write_read:
  assumes "ready s" "io_buf s b" "io_buf s c" "b \<noteq> c" "b_dirt (bufs s ! b) \<noteq> 0" "b_uptodate (bufs s ! c) = 0"
    and blk: "b_blocknr (bufs s ! c) = b_blocknr (bufs s ! b)" "unat (b_blocknr (bufs s ! b)) < blocks s"
  shows "\<exists>t u. io WRITE b s = Ok () t \<and> io READ c t = Ok () u \<and> b_data (bufs u ! c) = b_data (bufs s ! b)"
proof -
  from io_write [of s b] assms obtain t where t: "io WRITE b s = Ok () t" "ready t" "blocks t = blocks s"
    "content t (unat (b_blocknr (bufs s ! b))) = b_data (bufs s ! b)"
    "bufs t = (bufs s)[b := (bufs s ! b)\<lparr>b_uptodate := 1, b_dirt := 0\<rparr>]" by auto
  have c: "io_buf t c" "bufs t ! c = bufs s ! c" using io_buf_upd [OF assms(3,4) t(5)] assms(4) t(5) by simp_all
  from io_read [of t c] t assms c obtain u where "io READ c t = Ok () u"
    "bufs u = (bufs t)[c := (bufs t ! c)\<lparr>b_data := b_data (bufs s ! b), b_uptodate := 1, b_dirt := 0\<rparr>]"
    by auto
  then show ?thesis using t(1) c by (auto simp: io_buf_def)
qed

end

definition rd_blocks :: "kstate \<Rightarrow> nat" where "rd_blocks s = rd_length s div 1024"

definition rd_content :: "kstate \<Rightarrow> nat \<Rightarrow> u8 list" where
  "rd_content s n = rd_fetch (1024 * n) 1024 (rd_mem s)"

lemma rd_content_cong: "rd_mem t = rd_mem s \<Longrightarrow> rd_content t = rd_content s"
  by (rule ext) (simp add: rd_content_def)

lemma rd_blocks_bound: "n < rd_blocks s \<Longrightarrow> 1024 * n + 1024 \<le> rd_length s"
  unfolding rd_blocks_def by linarith

lemma rd_fetch_store:
  "length bs = 1024 \<Longrightarrow> rd_fetch (1024 * m) 1024 (rd_store (1024 * n) bs mem) =
     (if m = n then bs else rd_fetch (1024 * m) 1024 mem)"
  by (auto simp: rd_fetch_def rd_store_def intro!: nth_equalityI)

lemma transfer_bufs:
  assumes "transfer rw b s t" "io_buf s b" "unat (b_blocknr (bufs s ! b)) < rd_blocks s" "rw = READ \<or> rw = WRITE"
  shows "bufs t = (bufs s)[b := (if rw = WRITE then (bufs s ! b)\<lparr>b_uptodate := 1, b_dirt := 0\<rparr>
      else (bufs s ! b)\<lparr>b_data := rd_content s (unat (b_blocknr (bufs s ! b))), b_uptodate := 1, b_dirt := 0\<rparr>)]"
    and "rd_length t = rd_length s" "blk_ok t" "rd_mem t = io_disk rw s (bufs s ! b)"
proof -
  have "1024 * unat (b_blocknr (bufs s ! b)) + 1024 \<le> rd_length s"
    by (rule rd_blocks_bound [OF assms(3)])
  with assms show "bufs t = (bufs s)[b := (if rw = WRITE then (bufs s ! b)\<lparr>b_uptodate := 1, b_dirt := 0\<rparr>
      else (bufs s ! b)\<lparr>b_data := rd_content s (unat (b_blocknr (bufs s ! b))), b_uptodate := 1, b_dirt := 0\<rparr>)]"
    by (cases "bufs s ! b") (auto simp: transfer_def io_buffer_def rd_content_def Let_def io_buf_def)
  show "rd_length t = rd_length s" "blk_ok t" "rd_mem t = io_disk rw s (bufs s ! b)"
    using assms(1) by (auto simp: transfer_def)
qed

interpretation rd: disk ll_rw_block blk_ok rd_blocks rd_content
proof unfold_locales
  fix s b assume a: "blk_ok s" "io_buf s b" "b_uptodate (bufs s ! b) = 0" "unat (b_blocknr (bufs s ! b)) < rd_blocks s"
  then obtain t where t: "ll_rw_block READ b s = Ok () t" "transfer READ b s t"
    using ll_rw_block_transfer [of s b READ] by auto
  note tb = transfer_bufs [OF t(2) a(2,4)]
  have c: "rd_content t = rd_content s" using tb(4) by (intro rd_content_cong) (simp add: io_disk_def)
  show "\<exists>t. ll_rw_block READ b s = Ok () t \<and> blk_ok t \<and> rd_blocks t = rd_blocks s \<and> rd_content t = rd_content s \<and>
        bufs t = (bufs s)[b := (bufs s ! b)\<lparr>b_data := rd_content s (unat (b_blocknr (bufs s ! b))),
                                             b_uptodate := 1, b_dirt := 0\<rparr>]"
    using tb t(1) c by (intro exI [of _ t] conjI) (simp_all add: rd_blocks_def)
next
  fix s b assume a: "blk_ok s" "io_buf s b" "b_dirt (bufs s ! b) \<noteq> 0" "unat (b_blocknr (bufs s ! b)) < rd_blocks s"
  then obtain t where t: "ll_rw_block WRITE b s = Ok () t" "transfer WRITE b s t"
    using ll_rw_block_transfer [of s b WRITE] by auto
  have "1024 * unat (b_blocknr (bufs s ! b)) + 1024 \<le> rd_length s"
    by (rule rd_blocks_bound [OF a(4)])
  then have "rd_content t n = (if n = unat (b_blocknr (bufs s ! b)) then b_data (bufs s ! b) else rd_content s n)" for n
    using transfer_bufs(4) [OF t(2) a(2,4)] a(2)
    by (simp add: rd_content_def io_disk_def Let_def rd_fetch_store io_buf_def)
  then show "\<exists>t. ll_rw_block WRITE b s = Ok () t \<and> blk_ok t \<and> rd_blocks t = rd_blocks s \<and>
        (\<forall>n < rd_blocks s. rd_content t n = (if n = unat (b_blocknr (bufs s ! b)) then b_data (bufs s ! b) else rd_content s n)) \<and>
        bufs t = (bufs s)[b := (bufs s ! b)\<lparr>b_uptodate := 1, b_dirt := 0\<rparr>]"
    using transfer_bufs [OF t(2) a(2,4)] t(1)
    by (intro exI [of _ t]) (simp add: rd_blocks_def)
qed

section \<open>The elevator\<close>

abbreviation "rnext s \<equiv> \<lambda>i. r_next (request s ! i)"

text \<open>Reference for the place of a new request in a busy queue: behind the first request \<open>t\<close> whose
  successor \<open>n\<close> may wait, where either the new one belongs behind \<open>t\<close> or the sweep starts again
  after \<open>t\<close>; at the end if there is none. Never in front of the request in progress.\<close>

fun elev_insert :: "(nat \<Rightarrow> request) \<Rightarrow> nat \<Rightarrow> nat list \<Rightarrow> nat list" where
  "elev_insert R new [] = [new]"
| "elev_insert R new [t] = [t, new]"
| "elev_insert R new (t # n # ts) =
     (if (IN_ORDER (R t) (R new) \<or> \<not> IN_ORDER (R t) (R n)) \<and> IN_ORDER (R new) (R n)
      then t # new # n # ts else t # elev_insert R new (n # ts))"

lemma elevator_split:
  assumes "path (rnext s) (Some t) (t # ts)" "\<forall>i \<in> set (t # ts). i < length (request s)" "new < length (request s)"
    "length (t # ts) \<le> n"
  shows "\<exists>xs p ys. loopk n (elevator_step new) t s = Ok p s \<and>
     t # ts = xs @ p # ys \<and> elev_insert (\<lambda>i. request s ! i) new (t # ts) = xs @ p # new # ys"
  using assms
proof (induction ts arbitrary: t n)
  case Nil
  then obtain m where "n = Suc m" by (cases n) auto
  with Nil show ?case by (intro exI [of _ "[]"] exI [of _ t]) (simp add: elevator_step_def kdefs)
next
  case (Cons u us)
  then obtain m where n: "n = Suc m" by (cases n) auto
  let ?stop = "(IN_ORDER (request s ! t) (request s ! new) \<or> \<not> IN_ORDER (request s ! t) (request s ! u)) \<and>
      IN_ORDER (request s ! new) (request s ! u)"
  have step: "elevator_step new t s = Ok (if ?stop then Inr t else Inl u) s"
    using Cons.prems by (simp add: elevator_step_def kdefs)
  show ?case
  proof (cases ?stop)
    case True
    with step n show ?thesis by (intro exI [of _ "[]"] exI [of _ t] exI [of _ "u # us"]) (simp add: kdefs)
  next
    case False
    have "path (rnext s) (Some u) (u # us)" "length (u # us) \<le> m" using Cons.prems n by simp_all
    with Cons.IH [of u m] Cons.prems(2,3) obtain xs p ys where
      ih: "loopk m (elevator_step new) u s = Ok p s"
      "u # us = xs @ p # ys" "elev_insert (\<lambda>i. request s ! i) new (u # us) = xs @ p # new # ys"
      by auto
    then have "loopk n (elevator_step new) t s = Ok p s" using step n False by (simp add: bindk_def)
    moreover have "elev_insert (\<lambda>i. request s ! i) new (t # u # us) = (t # xs) @ p # new # ys"
      using False ih(3) by auto
    ultimately show ?thesis using ih(2) by (metis append_Cons)
  qed
qed

lemma distinct_bounded_length: "distinct l \<Longrightarrow> \<forall>i \<in> set l. i < n \<Longrightarrow> length l \<le> (n :: nat)"
  using card_mono [of "{..<n}" "set l"] by (auto simp: distinct_card)

lemma request_upd_fun: "k < length l \<Longrightarrow> (\<lambda>i. r_next (l[k := v] ! i)) = (\<lambda>i. r_next (l ! i))(k := r_next v)"
  by (auto simp: nth_list_update)

lemma add_request_busy:
  assumes q: "path (rnext s) (current_request (blk_dev s ! m)) (t # ts)" "distinct (t # ts)"
      "\<forall>i \<in> set (t # ts). i < NR_REQUEST"
    and new: "new < NR_REQUEST" "new \<notin> set (t # ts)" "r_bh (request s ! new) = Some b" "b < length (bufs s)"
    and len: "length (request s) = NR_REQUEST" "m < length (blk_dev s)"
  shows "\<exists>u. add_request m new s = Ok () u \<and> blk_dev u = blk_dev s \<and>
    bufs u = (bufs s)[b := (bufs s ! b)\<lparr>b_dirt := 0\<rparr>] \<and>
    path (rnext u) (current_request (blk_dev u ! m)) (elev_insert (\<lambda>i. request s ! i) new (t # ts))"
proof -
  define s1 where "s1 = s\<lparr>request := (request s)[new := (request s ! new)\<lparr>r_next := None\<rparr>],
    bufs := (bufs s)[b := (bufs s ! b)\<lparr>b_dirt := 0\<rparr>]\<rparr>"
  have R: "elev_insert (\<lambda>i. request s1 ! i) new l = elev_insert (\<lambda>i. request s ! i) new l" for l
    using new len by (induction l rule: induct_list012) (auto simp: s1_def nth_list_update IN_ORDER_def)
  have p1: "path (rnext s1) (Some t) (t # ts)"
    using q(1) new len path_upd_other [of new "t # ts"] by (simp add: s1_def request_upd_fun)
  have "length (t # ts) \<le> NR_REQUEST" by (rule distinct_bounded_length [OF q(2,3)])
  with elevator_split [OF p1, of new "NR_REQUEST + 1"] q new len
  obtain xs p ys where e: "elevator new t s1 = Ok p s1" "t # ts = xs @ p # ys"
    "elev_insert (\<lambda>i. request s1 ! i) new (t # ts) = xs @ p # new # ys"
    by (auto simp: elevator_def s1_def)
  have pl: "p < NR_REQUEST" "p \<noteq> new" using q(3) new e(2) by (metis in_set_conv_decomp)+
  define u where "u = s1\<lparr>request := (request s1)[new := (request s1 ! new)\<lparr>r_next := rnext s1 p\<rparr>,
      p := (request s1 ! p)\<lparr>r_next := Some new\<rparr>]\<rparr>"
  have "add_request m new s = Ok () u"
    using q(1) new len pl e(1) by (simp add: add_request_def kdefs s1_def u_def)
  moreover have "path ((rnext s1)(new := rnext s1 p, p := Some new)) (Some t) (xs @ p # new # ys)"
    using path_insert_after p1 q(2) new(2) e(2) by metis
  then have "path (rnext u) (Some t) (xs @ p # new # ys)"
    using len new pl by (simp add: u_def s1_def request_upd_fun)
  ultimately show ?thesis using q(1) e(3) R by (intro exI [of _ u]) (simp add: u_def s1_def)
qed

section \<open>A small disk\<close>

text \<open>A ram disk of four blocks filled with 7, and two buffers for its block 2: the first dirty, the
  second not yet read.\<close>

definition demo_disk :: kstate where
  "demo_disk = kernel_image\<lparr>
     bufs := [zero_buffer\<lparr>b_data := replicate 1024 9, b_blocknr := 2, b_dev := 0x101, b_dirt := 1, b_uptodate := 1\<rparr>,
              zero_buffer\<lparr>b_blocknr := 2, b_dev := 0x101\<rparr>],
     request := replicate NR_REQUEST (zero_request\<lparr>r_dev := -1\<rparr>),
     blk_dev := (blk_dev kernel_image)[1 := \<lparr>request_fn = True, current_request = None\<rparr>],
     rd_length := 4096, rd_mem := (\<lambda>_. 7)\<rparr>"

lemma demo_disk_ok: "blk_ok demo_disk" "io_buf demo_disk 0" "io_buf demo_disk 1"
  "bufs demo_disk ! 0 = zero_buffer\<lparr>b_data := replicate 1024 9, b_blocknr := 2, b_dev := 0x101, b_dirt := 1, b_uptodate := 1\<rparr>"
  "bufs demo_disk ! 1 = zero_buffer\<lparr>b_blocknr := 2, b_dev := 0x101\<rparr>" "rd_length demo_disk = 4096"
  by (simp_all add: blk_ok_def io_buf_def demo_disk_def kernel_image_def zero_buffer_def nth_list_update)

section \<open>Properties\<close>

text \<open>C27: \<open>ll_rw_block\<close> on an unlocked buffer of the ram disk is synchronous and does exactly one
  transfer: an up-to-date buffer is not read and a clean one not written; a block beyond the end of
  the disk leaves the buffer not up to date and the disk unchanged; otherwise a read fills the
  buffer with the block and a write replaces exactly that block. The buffer comes back unlocked,
  the request table free.\<close>

theorem ll_rw_block_correct:
  assumes ok: "blk_ok s" and b: "io_buf s b" and rw: "rw = READ \<or> rw = WRITE"
  shows "\<exists>t. ll_rw_block rw b s = Ok () t \<and> blk_ok t \<and>
    (let h = bufs s ! b; n = unat (b_blocknr h) in
     if rw = READ \<and> b_uptodate h \<noteq> 0 \<or> rw = WRITE \<and> b_dirt h = 0
       then bufs t = bufs s \<and> rd_mem t = rd_mem s
     else if rd_length s < 1024 * n + 1024
       then bufs t = (bufs s)[b := h\<lparr>b_uptodate := 0, b_dirt := 0\<rparr>] \<and> rd_mem t = rd_mem s
     else if rw = READ
       then bufs t = (bufs s)[b := h\<lparr>b_data := rd_fetch (1024 * n) 1024 (rd_mem s), b_uptodate := 1, b_dirt := 0\<rparr>] \<and>
         rd_mem t = rd_mem s
     else bufs t = (bufs s)[b := h\<lparr>b_uptodate := 1, b_dirt := 0\<rparr>] \<and>
         rd_mem t = rd_store (1024 * n) (b_data h) (rd_mem s))"
proof (cases "rw = READ \<and> b_uptodate (bufs s ! b) \<noteq> 0 \<or> rw = WRITE \<and> b_dirt (bufs s ! b) = 0")
  case True
  from ll_rw_block_skip [OF ok b this] obtain ts where
    ts: "ll_rw_block rw b s = Ok () (s\<lparr>tasks := ts\<rparr>)" by blast
  moreover have "blk_ok (s\<lparr>tasks := ts\<rparr>)" using ok by (simp add: blk_ok_def)
  ultimately show ?thesis using True by (intro exI [of _ "s\<lparr>tasks := ts\<rparr>"]) (simp only: Let_def if_True, simp)
next
  case False
  with rw have "rw = READ \<and> b_uptodate (bufs s ! b) = 0 \<or> rw = WRITE \<and> b_dirt (bufs s ! b) \<noteq> 0" by auto
  from ll_rw_block_transfer [OF ok b this] obtain t where t: "ll_rw_block rw b s = Ok () t" "transfer rw b s t" by blast
  moreover have "(bufs s ! b)\<lparr>b_lock := 0\<rparr> = bufs s ! b" using b by (cases "bufs s ! b") (simp add: io_buf_def)
  ultimately show ?thesis using False rw
    by (intro exI [of _ t]) (cases "bufs s ! b", auto simp: transfer_def io_buffer_def io_disk_def Let_def)
qed

theorem ll_rw_block_correct_witness:
  "\<exists>t. ll_rw_block READ 1 demo_disk = Ok () t \<and> b_data (bufs t ! 1) = rd_fetch 2048 1024 (rd_mem demo_disk)"
  using ll_rw_block_correct [OF demo_disk_ok(1,3), of READ] demo_disk_ok
  by (auto simp: zero_buffer_def io_buf_def Let_def)

text \<open>what is written to a block of the ram disk is what a later read of that block into another
  buffer delivers.\<close>

theorem ll_rw_block_roundtrip:
  assumes "blk_ok s" "io_buf s b" "io_buf s c" "b \<noteq> c" "b_dirt (bufs s ! b) \<noteq> 0" "b_uptodate (bufs s ! c) = 0"
    and "b_blocknr (bufs s ! c) = b_blocknr (bufs s ! b)" "unat (b_blocknr (bufs s ! b)) < rd_blocks s"
  shows "\<exists>t u. ll_rw_block WRITE b s = Ok () t \<and> ll_rw_block READ c t = Ok () u \<and>
    b_data (bufs u ! c) = b_data (bufs s ! b)"
  using assms by (rule rd.write_read)

theorem ll_rw_block_roundtrip_witness:
  "\<exists>t u. ll_rw_block WRITE 0 demo_disk = Ok () t \<and> ll_rw_block READ 1 t = Ok () u \<and>
    b_data (bufs u ! 1) = replicate 1024 9"
  using ll_rw_block_roundtrip [OF demo_disk_ok(1-3)] demo_disk_ok
  by (simp add: zero_buffer_def rd_blocks_def)



text \<open>when every slot a request may use is taken, \<open>make_request\<close> does not wait for one as its
  comment says: the test for that is inside the search loop, the search falls off the start of the
  table and the request is stored before the array.\<close>

theorem make_request_full_table:
  assumes "b < length (bufs s)" "b_lock (bufs s ! b) = 0" "b_uptodate (bufs s ! b) = 0"
    and "\<forall>i < NR_REQUEST. 0 \<le> r_dev (request s ! i)"
  shows "make_request m READ b s = Fault"
proof -
  define s0 where "s0 = s\<lparr>bufs := (bufs s)[b := (bufs s ! b)\<lparr>b_lock := 1\<rparr>]\<rparr>"
  have "find_request s0 n = None" if "n \<le> NR_REQUEST" for n
    using that assms(4) by (induction n) (auto simp: s0_def not_less)
  then have "find_request s0 NR_REQUEST = None" by simp
  moreover have "lock_buffer b s = Ok () s0" "get_bh b s = Ok (bufs s ! b) s"
    "get_bh b s0 = Ok ((bufs s ! b)\<lparr>b_lock := 1\<rparr>) s0"
    using assms by (simp_all add: lock_buffer_eq s0_def get_bh_def)
  ultimately show ?thesis using assms by (simp add: make_request_def getk_def faultk_def)
qed

theorem make_request_full_table_witness:
  "make_request 1 READ 1 (demo_disk\<lparr>request := replicate NR_REQUEST zero_request\<rparr>) = Fault"
  using make_request_full_table [of 1 "demo_disk\<lparr>request := replicate NR_REQUEST zero_request\<rparr>" 1]
  by (simp add: demo_disk_def zero_buffer_def zero_request_def)

end
