(* ===== verification/Buffer.thy ===== *)
theory Buffer
  imports Block
begin

text \<open>
  The buffer cache (\<open>fs/buffer.c\<close>). Buffer heads live in one array; every buffer is on the circular
  free list, and every buffer with a device is on the hash chain of its device and block number.

  \<open>getblk\<close> may call \<open>sync_dev\<close>, which calls \<open>sync_inodes\<close>, which reads blocks through \<open>bread\<close> and so
  calls \<open>getblk\<close> again. The functions of this theory that take part in that recursion take the
  function \<open>sync\<close> to use as an argument (suffix \<open>_gen\<close>); the recursion is closed in the theory
  \<open>Icache\<close>, where \<open>write_inode\<close> is modelled.

  A search that goes back (\<open>goto repeat\<close>) does so because it has slept, so its rounds are bounded like those of the
  other loops that wait.
\<close>

section \<open>Synchronisation\<close>

text \<open>One of the \<open>for\<close> loops of \<open>sync_dev\<close>.\<close>

definition sync_buffer :: "int \<Rightarrow> nat \<Rightarrow> unit K" where
  "sync_buffer dev b = bindk (get_bh b) (\<lambda>h. if uint (b_dev h) \<noteq> dev then retk () else
     bindk (wait_on_buffer b) (\<lambda>_. bindk (get_bh b) (\<lambda>h.
     whenk (uint (b_dev h) = dev \<and> b_dirt h \<noteq> 0) (ll_rw_block WRITE b))))"

definition NR_BUFFERS :: "kstate \<Rightarrow> nat" where "NR_BUFFERS s = length (bufs s)"

definition sync_pass :: "int \<Rightarrow> unit K" where
  "sync_pass dev = bindk (getk NR_BUFFERS) (\<lambda>n. eachk (sync_buffer dev) [0..<n])"

definition sync_dev_gen :: "unit K \<Rightarrow> int \<Rightarrow> int K" where
  "sync_dev_gen sync_inodes dev = bindk (sync_pass dev) (\<lambda>_. bindk sync_inodes (\<lambda>_.
     bindk (sync_pass dev) (\<lambda>_. retk 0)))"

definition sys_sync_gen :: "unit K \<Rightarrow> int K" where
  "sys_sync_gen sync_inodes = bindk sync_inodes (\<lambda>_.
     bindk (getk NR_BUFFERS) (\<lambda>n.
     bindk (eachk (\<lambda>b. bindk (wait_on_buffer b) (\<lambda>_. bindk (get_bh b) (\<lambda>h.
       whenk (b_dirt h \<noteq> 0) (ll_rw_block WRITE b)))) [0..<n]) (\<lambda>_. retk 0)))"

definition invalidate_buffers :: "int \<Rightarrow> unit K" where
  "invalidate_buffers dev = bindk (getk NR_BUFFERS) (\<lambda>n. eachk (\<lambda>b.
     bindk (get_bh b) (\<lambda>h. if uint (b_dev h) \<noteq> dev then retk () else
     bindk (wait_on_buffer b) (\<lambda>_. bindk (get_bh b) (\<lambda>h.
     whenk (uint (b_dev h) = dev) (upd_bh b (\<lambda>h. h\<lparr>b_dirt := 0, b_uptodate := 0\<rparr>)))))) [0..<n])"

section \<open>Hash chains and the free list\<close>

definition hashfn :: "int \<Rightarrow> int \<Rightarrow> nat" where
  "hashfn dev block = unat ((word_of_int dev XOR word_of_int block) :: u16) mod NR_HASH"

definition bh_hash :: "buffer_head \<Rightarrow> nat" where
  "bh_hash h = hashfn (uint (b_dev h)) (uint (b_blocknr h))"

definition get_hash :: "nat \<Rightarrow> nat option K" where
  [kdefs]: "get_hash i = (\<lambda>s. if i < length (hash_table s) then Ok (hash_table s ! i) s else Fault)"

definition set_hash :: "nat \<Rightarrow> nat option \<Rightarrow> unit K" where
  [kdefs]: "set_hash i p = (\<lambda>s. if i < length (hash_table s)
     then Ok () (s\<lparr>hash_table := (hash_table s)[i := p]\<rparr>) else Fault)"

definition remove_from_queues :: "nat \<Rightarrow> unit K" where
  "remove_from_queues b = bindk (get_bh b) (\<lambda>h.
     bindk (case b_next h of None \<Rightarrow> retk () | Some n \<Rightarrow> upd_bh n (\<lambda>x. x\<lparr>b_prev := b_prev h\<rparr>)) (\<lambda>_.
     bindk (case b_prev h of None \<Rightarrow> retk () | Some p \<Rightarrow> upd_bh p (\<lambda>x. x\<lparr>b_next := b_next h\<rparr>)) (\<lambda>_.
     bindk (get_hash (bh_hash h)) (\<lambda>q.
     bindk (whenk (q = Some b) (set_hash (bh_hash h) (b_next h))) (\<lambda>_.
     bindk (get_bh b) (\<lambda>h. case (b_prev_free h, b_next_free h) of
       (Some p, Some n) \<Rightarrow>
         bindk (upd_bh p (\<lambda>x. x\<lparr>b_next_free := Some n\<rparr>)) (\<lambda>_.
         bindk (upd_bh n (\<lambda>x. x\<lparr>b_prev_free := Some p\<rparr>)) (\<lambda>_.
         bindk (getk free_list) (\<lambda>fl. whenk (fl = Some b) (modk (\<lambda>s. s\<lparr>free_list := Some n\<rparr>)))))
     | _ \<Rightarrow> panick ''Free block list corrupted''))))))"

definition insert_into_queues :: "nat \<Rightarrow> unit K" where
  "insert_into_queues b = bindk (getk free_list) (\<lambda>fl. bindk (derefk fl) (\<lambda>f.
     bindk (upd_bh b (\<lambda>h. h\<lparr>b_next_free := Some f\<rparr>)) (\<lambda>_.
     bindk (get_bh f) (\<lambda>fh.
     bindk (upd_bh b (\<lambda>h. h\<lparr>b_prev_free := b_prev_free fh\<rparr>)) (\<lambda>_.
     bindk (get_bh f) (\<lambda>fh. bindk (derefk (b_prev_free fh)) (\<lambda>p.
     bindk (upd_bh p (\<lambda>h. h\<lparr>b_next_free := Some b\<rparr>)) (\<lambda>_.
     bindk (upd_bh f (\<lambda>h. h\<lparr>b_prev_free := Some b\<rparr>)) (\<lambda>_.
     bindk (upd_bh b (\<lambda>h. h\<lparr>b_prev := None, b_next := None\<rparr>)) (\<lambda>_.
     bindk (get_bh b) (\<lambda>h. if b_dev h = 0 then retk () else
     bindk (get_hash (bh_hash h)) (\<lambda>q.
     bindk (upd_bh b (\<lambda>h. h\<lparr>b_next := q\<rparr>)) (\<lambda>_.
     bindk (set_hash (bh_hash h) (Some b)) (\<lambda>_.
     case q of None \<Rightarrow> retk () | Some n \<Rightarrow> upd_bh n (\<lambda>x. x\<lparr>b_prev := Some b\<rparr>)))))))))))))))"

definition bh_is :: "int \<Rightarrow> int \<Rightarrow> buffer_head \<Rightarrow> bool" where
  "bh_is dev block h \<longleftrightarrow> uint (b_dev h) = dev \<and> b_blocknr h = word_of_int block"

definition find_step :: "int \<Rightarrow> int \<Rightarrow> nat option \<Rightarrow> (nat option + nat option) K" where
  "find_step dev block tmp = (case tmp of None \<Rightarrow> retk (Inr None) | Some b \<Rightarrow>
     bindk (get_bh b) (\<lambda>h. if bh_is dev block h then retk (Inr (Some b)) else retk (Inl (b_next h))))"

definition find_buffer :: "int \<Rightarrow> int \<Rightarrow> nat option K" where
  "find_buffer dev block = bindk (getk NR_BUFFERS) (\<lambda>n.
     bindk (get_hash (hashfn dev block)) (\<lambda>p. loopk (n + 1) (find_step dev block) p))"

definition get_hash_table :: "int \<Rightarrow> int \<Rightarrow> nat option K" where
  "get_hash_table dev block = loopk WAIT_FUEL (\<lambda>_. bindk (find_buffer dev block) (\<lambda>r. case r of
       None \<Rightarrow> retk (Inr None)
     | Some b \<Rightarrow> bindk (upd_bh b (\<lambda>h. h\<lparr>b_count := b_count h + 1\<rparr>)) (\<lambda>_.
         bindk (wait_on_buffer b) (\<lambda>_.
         bindk (get_bh b) (\<lambda>h. if bh_is dev block h then retk (Inr (Some b)) else
         bindk (upd_bh b (\<lambda>h. h\<lparr>b_count := b_count h - 1\<rparr>)) (\<lambda>_. retk (Inl ()))))))) ()"

section \<open>Getting a buffer\<close>

definition BADNESS :: "buffer_head \<Rightarrow> nat" where
  "BADNESS h = 2 * unat (b_dirt h) + unat (b_lock h)"

text \<open>One round of the \<open>do ... while\<close> over the free list; the pair is \<open>(tmp, bh)\<close>.\<close>

definition pick_buffer_step :: "nat option \<Rightarrow> nat \<times> nat option \<Rightarrow> (nat \<times> nat option + nat option) K" where
  "pick_buffer_step fl = (\<lambda>(tmp, bh). bindk (get_bh tmp) (\<lambda>h.
     bindk (case bh of None \<Rightarrow> retk True | Some c \<Rightarrow> bindk (get_bh c) (\<lambda>g. retk (BADNESS h < BADNESS g))) (\<lambda>better.
     let take = (b_count h = 0 \<and> better); bh' = (if take then Some tmp else bh) in
     if take \<and> BADNESS h = 0 then retk (Inr bh')
     else if b_next_free h = fl then retk (Inr bh')
     else bindk (derefk (b_next_free h)) (\<lambda>n. retk (Inl (n, bh'))))))"

definition pick_buffer :: "nat option K" where
  "pick_buffer = bindk (getk NR_BUFFERS) (\<lambda>n. bindk (getk free_list) (\<lambda>fl. bindk (derefk fl) (\<lambda>f.
     loopk (n + 1) (pick_buffer_step fl) (f, None))))"

text \<open>\<open>while(bh->b_dirt)\<close>; \<open>True\<close> means \<open>goto repeat\<close>.\<close>

definition flush_buffer :: "(int \<Rightarrow> int K) \<Rightarrow> nat \<Rightarrow> bool K" where
  "flush_buffer sync b = loopk WAIT_FUEL (\<lambda>_. bindk (get_bh b) (\<lambda>h. if b_dirt h = 0 then retk (Inr False) else
     bindk (sync (uint (b_dev h))) (\<lambda>_.
     bindk (wait_on_buffer b) (\<lambda>_.
     bindk (get_bh b) (\<lambda>h. if b_count h \<noteq> 0 then retk (Inr True) else retk (Inl ())))))) ()"

definition claim_buffer :: "int \<Rightarrow> int \<Rightarrow> nat \<Rightarrow> unit K" where
  "claim_buffer dev block b =
     bindk (upd_bh b (\<lambda>h. h\<lparr>b_count := 1, b_dirt := 0, b_uptodate := 0\<rparr>)) (\<lambda>_.
     bindk (remove_from_queues b) (\<lambda>_.
     bindk (upd_bh b (\<lambda>h. h\<lparr>b_dev := word_of_int dev, b_blocknr := word_of_int block\<rparr>)) (\<lambda>_.
     insert_into_queues b)))"

definition getblk_round :: "(int \<Rightarrow> int K) \<Rightarrow> int \<Rightarrow> int \<Rightarrow> (unit + nat) K" where
  "getblk_round sync dev block =
     bindk (get_hash_table dev block) (\<lambda>r. case r of Some b \<Rightarrow> retk (Inr b) | None \<Rightarrow>
     bindk pick_buffer (\<lambda>r. case r of
       None \<Rightarrow> bindk (sleep_on WBufferWait) (\<lambda>_. retk (Inl ()))
     | Some b \<Rightarrow> bindk (wait_on_buffer b) (\<lambda>_.
       bindk (get_bh b) (\<lambda>h. if b_count h \<noteq> 0 then retk (Inl ()) else
       bindk (flush_buffer sync b) (\<lambda>again. if again then retk (Inl ()) else
       bindk (find_buffer dev block) (\<lambda>f. if f \<noteq> None then retk (Inl ()) else
       bindk (claim_buffer dev block b) (\<lambda>_. retk (Inr b))))))))"

definition getblk_gen :: "(int \<Rightarrow> int K) \<Rightarrow> int \<Rightarrow> int \<Rightarrow> nat K" where
  "getblk_gen sync dev block = loopk WAIT_FUEL (\<lambda>_. getblk_round sync dev block) ()"

section \<open>Reading and releasing\<close>

text \<open>\<open>if(!(buf->b_count--)) panic\<close>: the unsigned count wraps before the panic.\<close>

definition brelse :: "nat option \<Rightarrow> unit K" where
  "brelse buf = (case buf of None \<Rightarrow> retk () | Some b \<Rightarrow>
     bindk (wait_on_buffer b) (\<lambda>_.
     bindk (get_bh b) (\<lambda>h.
     bindk (upd_bh b (\<lambda>h. h\<lparr>b_count := b_count h - 1\<rparr>)) (\<lambda>_.
     if b_count h = 0 then panick ''Trying to free free buffer'' else wake_up WBufferWait))))"

definition bread_gen :: "(int \<Rightarrow> int K) \<Rightarrow> int \<Rightarrow> int \<Rightarrow> nat option K" where
  "bread_gen sync dev block = bindk (getblk_gen sync dev block) (\<lambda>b.
     bindk (get_bh b) (\<lambda>h. if b_uptodate h \<noteq> 0 then retk (Some b) else
     bindk (ll_rw_block READ b) (\<lambda>_.
     bindk (wait_on_buffer b) (\<lambda>_.
     bindk (get_bh b) (\<lambda>h. if b_uptodate h \<noteq> 0 then retk (Some b) else
     bindk (brelse (Some b)) (\<lambda>_. retk None))))))"

text \<open>\<open>COPYBLK\<close> from a buffer to an address: 1024 bytes, eight at a time.\<close>

definition COPYBLK :: "u8 list \<Rightarrow> ulong \<Rightarrow> unit K" where
  "COPYBLK bs to = (if length bs < BLOCK_SIZE then faultk else modk (\<lambda>s. s\<lparr>pmem :=
     (\<lambda>x. if x - to < 1024 then bs ! unat (x - to) else pmem s x)\<rparr>))"

fun bread_page_get :: "(int \<Rightarrow> int K) \<Rightarrow> int \<Rightarrow> int list \<Rightarrow> nat option list K" where
  "bread_page_get sync dev [] = retk []"
| "bread_page_get sync dev (blk # bs) =
     bindk (if blk \<noteq> 0 then bindk (getblk_gen sync dev blk) (\<lambda>b. bindk (get_bh b) (\<lambda>h.
        bindk (whenk (b_uptodate h = 0) (ll_rw_block READ b)) (\<lambda>_. retk (Some b)))) else retk None) (\<lambda>r.
     bindk (bread_page_get sync dev bs) (\<lambda>rs. retk (r # rs)))"

fun bread_page_copy :: "ulong \<Rightarrow> nat option list \<Rightarrow> unit K" where
  "bread_page_copy address [] = retk ()"
| "bread_page_copy address (r # rs) =
     bindk (case r of None \<Rightarrow> retk () | Some b \<Rightarrow> bindk (wait_on_buffer b) (\<lambda>_.
        bindk (get_bh b) (\<lambda>h.
        bindk (whenk (b_uptodate h \<noteq> 0) (COPYBLK (b_data h) address)) (\<lambda>_. brelse (Some b))))) (\<lambda>_.
     bread_page_copy (address + 1024) rs)"

text \<open>\<open>b\<close> is the array of the four block numbers.\<close>

definition bread_page_gen :: "(int \<Rightarrow> int K) \<Rightarrow> ulong \<Rightarrow> int \<Rightarrow> int list \<Rightarrow> unit K" where
  "bread_page_gen sync address dev b = bindk (bread_page_get sync dev (take 4 b)) (bread_page_copy address)"

text \<open>\<open>breada\<close>: \<open>ahead\<close> is the argument list up to the first negative number.\<close>

definition breada_gen :: "(int \<Rightarrow> int K) \<Rightarrow> int \<Rightarrow> int \<Rightarrow> int list \<Rightarrow> nat option K" where
  "breada_gen sync dev first ahead = bindk (getblk_gen sync dev first) (\<lambda>b.
     bindk (get_bh b) (\<lambda>h.
     bindk (whenk (b_uptodate h = 0) (ll_rw_block READ b)) (\<lambda>_.
     bindk (eachk (\<lambda>blk. bindk (getblk_gen sync dev blk) (\<lambda>t.
        bindk (get_bh t) (\<lambda>h.
        bindk (whenk (b_uptodate h = 0) (ll_rw_block READA t)) (\<lambda>_.
        upd_bh t (\<lambda>h. h\<lparr>b_count := b_count h - 1\<rparr>))))) (takeWhile (\<lambda>i. 0 \<le> i) ahead)) (\<lambda>_.
     bindk (wait_on_buffer b) (\<lambda>_.
     bindk (get_bh b) (\<lambda>h. if b_uptodate h \<noteq> 0 then retk (Some b) else
     bindk (brelse (Some b)) (\<lambda>_. retk None)))))))"

section \<open>Initialisation\<close>

text \<open>The headers grow upwards from \<open>start_buffer\<close> and the data blocks downwards from \<open>buffer_end\<close>;
  a header takes 64 bytes. \<open>buffer_count h b\<close>: the rounds of the \<open>while\<close>, from the two pointers.\<close>

fun buffer_count :: "nat \<Rightarrow> nat \<Rightarrow> nat" where
  "buffer_count h b = (if h + 64 + 1024 \<le> b then Suc (buffer_count (h + 64) (b - 1024)) else 0)"

declare buffer_count.simps [simp del]

text \<open>\<open>junk i\<close> is what header \<open>i\<close> and its data block held before: block number and data are not
  initialised. For the first header \<open>h - 1\<close> is replaced after the loop, and so is \<open>h + 1\<close> for the last.\<close>

definition buffer_init :: "nat \<Rightarrow> nat \<Rightarrow> (nat \<Rightarrow> buffer_head) \<Rightarrow> unit K" where
  "buffer_init start buffer_end junk = (let n = buffer_count start buffer_end in
     if n = 0 then faultk else modk (\<lambda>s. s\<lparr>
       bufs := map (\<lambda>i. (junk i)\<lparr>b_dev := 0, b_dirt := 0, b_count := 0, b_lock := 0, b_uptodate := 0, b_wait := 0,
          b_next := None, b_prev := None,
          b_prev_free := Some (if i = 0 then n - 1 else i - 1),
          b_next_free := Some (if i = n - 1 then 0 else i + 1)\<rparr>) [0..<n],
       free_list := Some 0, hash_table := replicate NR_HASH None\<rparr>))"

end
