(* ===== verification/Buffer_Cache.thy ===== *)
theory Buffer_Cache
  imports Buffer
begin

text \<open>
  Correctness of the buffer cache's pointer structures. \<open>cache_rel s hs fl\<close> relates a state to the
  lists it represents: \<open>hs i\<close> the buffers on hash chain \<open>i\<close>, \<open>fl\<close> the free list in order.
  The pointer operations refine list operations: \<open>remove_from_queues\<close> is \<open>remove1\<close> on both,
  \<open>insert_into_queues\<close> is append on the free list and \<open>Cons\<close> on the chain. \<open>find_buffer\<close> is a
  complete search, a block is never cached twice, and every operation of \<open>buffer.c\<close> keeps the
  structure well-formed (\<open>cache_ok\<close>).
\<close>

section \<open>The cache as lists\<close>

abbreviation "bnx s \<equiv> \<lambda>i. b_next (bufs s ! i)"
abbreviation "bpv s \<equiv> \<lambda>i. b_prev (bufs s ! i)"
abbreviation "fnx s \<equiv> \<lambda>i. b_next_free (bufs s ! i)"
abbreviation "fpv s \<equiv> \<lambda>i. b_prev_free (bufs s ! i)"

text \<open>\<open>hs i\<close> is the hash chain \<open>i\<close>.\<close>

definition hash_chains :: "kstate \<Rightarrow> (nat \<Rightarrow> nat list) \<Rightarrow> bool" where
  "hash_chains s hs \<longleftrightarrow> length (hash_table s) = NR_HASH \<and> (\<forall>i < NR_HASH.
     path (bnx s) (hash_table s ! i) (hs i) \<and> backs (bpv s) None (hs i) \<and> distinct (hs i) \<and>
     (\<forall>b \<in> set (hs i). b < length (bufs s) \<and> b_dev (bufs s ! b) \<noteq> 0 \<and> bh_hash (bufs s ! b) = i))"

text \<open>Exactly the buffers with a device other than those in \<open>X\<close> are on their chains.\<close>

definition hashed :: "kstate \<Rightarrow> (nat \<Rightarrow> nat list) \<Rightarrow> nat set \<Rightarrow> bool" where
  "hashed s hs X \<longleftrightarrow> (\<forall>b < length (bufs s). b \<notin> X \<longrightarrow>
     (if b_dev (bufs s ! b) = 0 then bnx s b = None \<and> bpv s b = None
      else b \<in> set (hs (bh_hash (bufs s ! b))))) \<and> (\<forall>i < NR_HASH. X \<inter> set (hs i) = {})"

definition freeq :: "kstate \<Rightarrow> nat list \<Rightarrow> bool" where
  "freeq s fl \<longleftrightarrow> ring (fnx s) (fpv s) fl \<and> distinct fl \<and> free_list s = Some (hd fl)"

text \<open>No block is cached twice.\<close>

definition unique_blocks :: "kstate \<Rightarrow> bool" where
  "unique_blocks s \<longleftrightarrow> (\<forall>b < length (bufs s). \<forall>c < length (bufs s). b_dev (bufs s ! b) \<noteq> 0 \<longrightarrow>
     b_dev (bufs s ! b) = b_dev (bufs s ! c) \<longrightarrow> b_blocknr (bufs s ! b) = b_blocknr (bufs s ! c) \<longrightarrow> b = c)"

definition cache_rel :: "kstate \<Rightarrow> (nat \<Rightarrow> nat list) \<Rightarrow> nat list \<Rightarrow> bool" where
  "cache_rel s hs fl \<longleftrightarrow> hash_chains s hs \<and> hashed s hs {} \<and> freeq s fl \<and> set fl = {..<length (bufs s)} \<and>
     2 \<le> length (bufs s) \<and> unique_blocks s \<and> (\<forall>h \<in> set (bufs s). length (b_data h) = BLOCK_SIZE)"

definition cache_ok :: "kstate \<Rightarrow> bool" where
  "cache_ok s \<longleftrightarrow> (\<exists>hs fl. cache_rel s hs fl)"

lemma hashfn_less [simp]: "hashfn d b < NR_HASH" by (simp add: hashfn_def)
lemma bh_hash_less [simp]: "bh_hash h < NR_HASH" by (simp add: bh_hash_def)

lemma word16_of_int_uint: "(word_of_int (uint (w :: 'a::len word)) :: u16) = ucast w"
  by simp

lemma bh_is_hash: "bh_is dev block h \<Longrightarrow> bh_hash h = hashfn dev block"
proof -
  assume a: "bh_is dev block h"
  have "(word_of_int (uint (word_of_int block :: ulong)) :: u16) = word_of_int block"
    by (rule bit_word_eqI) (simp add: bit_simps)
  then show ?thesis using a by (simp add: bh_is_def bh_hash_def hashfn_def del: word_of_int_uint)
qed

lemma chainsD:
  assumes "hash_chains s hs" "i < NR_HASH"
  shows "path (bnx s) (hash_table s ! i) (hs i)" "backs (bpv s) None (hs i)" "distinct (hs i)"
    "length (hash_table s) = NR_HASH" "\<forall>b \<in> set (hs i). b < length (bufs s)"
    "\<forall>b \<in> set (hs i). b_dev (bufs s ! b) \<noteq> 0" "\<forall>b \<in> set (hs i). bh_hash (bufs s ! b) = i"
  using assms unfolding hash_chains_def by blast+

lemma hashedD:
  assumes "hashed s hs X" "c < length (bufs s)" "c \<notin> X"
  shows "if b_dev (bufs s ! c) = 0 then bnx s c = None \<and> bpv s c = None else c \<in> set (hs (bh_hash (bufs s ! c)))"
  using assms unfolding hashed_def by simp

section \<open>Looking up a block\<close>

lemma find_step_walk:
  assumes "path (bnx s) p l" "\<forall>b \<in> set l. b < length (bufs s)" "length l < n"
  shows "loopk n (find_step dev block) p s = Ok (List.find (\<lambda>b. bh_is dev block (bufs s ! b)) l) s"
  using assms
proof (induction l arbitrary: p n)
  case Nil
  then obtain m where "n = Suc m" by (cases n) auto
  with Nil show ?case by (simp add: find_step_def kdefs)
next
  case (Cons b l)
  then obtain m where n: "n = Suc m" by (cases n) auto
  have "find_step dev block p s = Ok (if bh_is dev block (bufs s ! b) then Inr (Some b) else Inl (bnx s b)) s"
    using Cons.prems by (simp add: find_step_def kdefs)
  with Cons n show ?case by (auto simp: retk_def)
qed

lemma find_buffer_eq:
  assumes "hash_chains s hs"
  shows "find_buffer dev block s = Ok (List.find (\<lambda>b. bh_is dev block (bufs s ! b)) (hs (hashfn dev block))) s"
proof -
  let ?i = "hashfn dev block"
  have p: "path (bnx s) (hash_table s ! ?i) (hs ?i)" "\<forall>b \<in> set (hs ?i). b < length (bufs s)" "distinct (hs ?i)"
    "length (hash_table s) = NR_HASH"
    using chainsD [OF assms, of ?i] by simp_all
  then have "length (hs ?i) < NR_BUFFERS s + 1"
    using distinct_bounded_length [of "hs ?i" "length (bufs s)"] by (simp add: NR_BUFFERS_def less_Suc_eq_le)
  with find_step_walk [OF p(1,2) this] p(4) show ?thesis
    by (simp add: find_buffer_def getk_def get_hash_def)
qed

text \<open>The lookup is complete: it finds the one buffer of the block, or there is none.\<close>

lemma find_buffer_complete:
  assumes c: "cache_ok s" and d: "0 < dev" "dev < 2 ^ 16"
  shows "\<exists>r. find_buffer dev block s = Ok r s \<and>
    (case r of Some b \<Rightarrow> b < length (bufs s) \<and> bh_is dev block (bufs s ! b)
     | None \<Rightarrow> \<forall>b < length (bufs s). \<not> bh_is dev block (bufs s ! b))"
proof -
  from c obtain hs fl where ch: "hash_chains s hs" and hd: "hashed s hs {}"
    by (auto simp: cache_ok_def cache_rel_def)
  let ?i = "hashfn dev block"
  show ?thesis
  proof (cases "List.find (\<lambda>b. bh_is dev block (bufs s ! b)) (hs ?i)")
    case None
    have "\<not> bh_is dev block (bufs s ! b)" if b: "b < length (bufs s)" for b
    proof
      assume same: "bh_is dev block (bufs s ! b)"
      then have "b_dev (bufs s ! b) \<noteq> 0" using d by (auto simp: bh_is_def)
      with hd b same bh_is_hash have "b \<in> set (hs ?i)" by (fastforce simp: hashed_def)
      with None same show False by (auto simp: find_None_iff)
    qed
    with None find_buffer_eq [OF ch] show ?thesis by simp
  next
    case (Some b)
    then have "b \<in> set (hs ?i)" "bh_is dev block (bufs s ! b)" by (auto simp: find_Some_iff)
    with chainsD(5) [OF ch, of ?i] find_buffer_eq [OF ch] Some show ?thesis by auto
  qed
qed

section \<open>Unlinking and linking a buffer\<close>

text \<open>\<open>relinked s t\<close>: only link fields, the hash table and the head of the free list differ.\<close>

definition strip :: "buffer_head \<Rightarrow> buffer_head" where
  "strip h = h\<lparr>b_prev := None, b_next := None, b_prev_free := None, b_next_free := None\<rparr>"

definition relinked :: "kstate \<Rightarrow> kstate \<Rightarrow> bool" where
  "relinked s t \<longleftrightarrow> (\<exists>bs ht fl. t = s\<lparr>bufs := bs, hash_table := ht, free_list := fl\<rparr> \<and> map strip bs = map strip (bufs s))"

lemma strip_fields [simp]:
  "b_data (strip h) = b_data h" "b_blocknr (strip h) = b_blocknr h" "b_dev (strip h) = b_dev h"
  "b_count (strip h) = b_count h" "b_dirt (strip h) = b_dirt h" "b_lock (strip h) = b_lock h"
  "b_uptodate (strip h) = b_uptodate h" "b_wait (strip h) = b_wait h" "bh_hash (strip h) = bh_hash h"
  by (simp_all add: strip_def bh_hash_def)

lemma strip_links [simp]:
  "strip (h\<lparr>b_prev := p\<rparr>) = strip h" "strip (h\<lparr>b_next := p\<rparr>) = strip h"
  "strip (h\<lparr>b_prev_free := p\<rparr>) = strip h" "strip (h\<lparr>b_next_free := p\<rparr>) = strip h"
  by (simp_all add: strip_def)

lemma map_strip_upd: "strip v = strip (l ! i) \<Longrightarrow> map strip (l[i := v]) = map strip l"
  by (metis list_update_id map_update)

lemma relinkedD:
  assumes "relinked s t"
  shows "length (bufs t) = length (bufs s)" "c < length (bufs s) \<Longrightarrow> strip (bufs t ! c) = strip (bufs s ! c)"
proof -
  have m: "map strip (bufs t) = map strip (bufs s)" using assms by (auto simp: relinked_def)
  then show len: "length (bufs t) = length (bufs s)" by (metis length_map)
  show "strip (bufs t ! c) = strip (bufs s ! c)" if "c < length (bufs s)"
    using m that len by (metis nth_map)
qed

lemma relinked_fields:
  assumes "relinked s t" "c < length (bufs s)"
  shows "b_data (bufs t ! c) = b_data (bufs s ! c)" "b_blocknr (bufs t ! c) = b_blocknr (bufs s ! c)"
    "b_dev (bufs t ! c) = b_dev (bufs s ! c)" "b_count (bufs t ! c) = b_count (bufs s ! c)"
    "b_dirt (bufs t ! c) = b_dirt (bufs s ! c)" "b_lock (bufs t ! c) = b_lock (bufs s ! c)"
    "b_uptodate (bufs t ! c) = b_uptodate (bufs s ! c)" "bh_hash (bufs t ! c) = bh_hash (bufs s ! c)"
  using relinkedD(2) [OF assms] by (metis strip_fields)+

lemma relinked_trans: "relinked s t \<Longrightarrow> relinked t u \<Longrightarrow> relinked s u"
proof -
  assume "relinked s t" "relinked t u"
  then obtain bs ht fl bs' ht' fl' where
    "t = s\<lparr>bufs := bs, hash_table := ht, free_list := fl\<rparr>" "map strip bs = map strip (bufs s)"
    "u = t\<lparr>bufs := bs', hash_table := ht', free_list := fl'\<rparr>" "map strip bs' = map strip (bufs t)"
    by (auto simp: relinked_def)
  then have "u = s\<lparr>bufs := bs', hash_table := ht', free_list := fl'\<rparr>" "map strip bs' = map strip (bufs s)" by simp_all
  then show ?thesis unfolding relinked_def by blast
qed

definition setf :: "nat option \<Rightarrow> (buffer_head \<Rightarrow> buffer_head) \<Rightarrow> buffer_head list \<Rightarrow> buffer_head list" where
  "setf p f l = (case p of None \<Rightarrow> l | Some k \<Rightarrow> l[k := f (l ! k)])"

lemma length_setf [simp]: "length (setf p f l) = length l" by (simp add: setf_def split: option.splits)

lemma nth_setf: "(\<And>k. p = Some k \<Longrightarrow> k < length l) \<Longrightarrow> setf p f l ! i = (if p = Some i then f (l ! i) else l ! i)"
  by (auto simp: setf_def nth_list_update split: option.splits)

lemma map_strip_setf: "(\<And>h. strip (f h) = strip h) \<Longrightarrow> map strip (setf p f l) = map strip l"
  by (auto simp: setf_def map_strip_upd split: option.splits)

lemma upd_opt_eq:
  "(\<And>k. p = Some k \<Longrightarrow> k < length (bufs s)) \<Longrightarrow>
   (case p of None \<Rightarrow> retk () | Some k \<Rightarrow> upd_bh k f) s = Ok () (s\<lparr>bufs := setf p f (bufs s)\<rparr>)"
  by (auto simp: setf_def kdefs split: option.splits)

text \<open>The links of a buffer point to other buffers of its chain.\<close>

lemma chain_neighbours:
  assumes "hash_chains s hs" "hashed s hs {}" "b < length (bufs s)" "b_next (bufs s ! b) = Some k \<or> b_prev (bufs s ! b) = Some k"
  shows "k < length (bufs s) \<and> b_dev (bufs s ! k) \<noteq> 0 \<and> bh_hash (bufs s ! k) = bh_hash (bufs s ! b)"
proof -
  let ?i = "bh_hash (bufs s ! b)"
  note c = chainsD [OF assms(1), of ?i, OF bh_hash_less]
  have "if b_dev (bufs s ! b) = 0 then bnx s b = None \<and> bpv s b = None else b \<in> set (hs ?i)"
    using assms(2,3) by (simp add: hashed_def)
  then have "b \<in> set (hs ?i)" using assms(4) by (auto split: if_splits)
  from chain_unlink(3,4) [OF c(1-3) this] assms(4) have "k \<in> set (hs ?i)" by auto
  with c show ?thesis by auto
qed

lemma chains_unlink:
  assumes ch: "hash_chains s hs" and hh: "hashed s hs {}" and b: "b < length (bufs s)"
    and t: "relinked s t" "bnx t = unlink_to (bpv s b) (bnx s b) (bnx s)" "bpv t = unlink_to (bnx s b) (bpv s b) (bpv s)"
      "hash_table t = (if hash_table s ! i = Some b then (hash_table s)[i := bnx s b] else hash_table s)"
    and i: "i = bh_hash (bufs s ! b)"
  shows "hash_chains t (hs(i := remove1 b (hs i)))"
proof -
  have len: "length (hash_table s) = NR_HASH" "i < NR_HASH" using ch i by (simp_all add: hash_chains_def)
  have nb: "k \<notin> set (hs j)" if "bnx s b = Some k \<or> bpv s b = Some k" "j < NR_HASH" "j \<noteq> i" for k j
    using chain_neighbours [OF ch hh b that(1)] chainsD(7) [OF ch that(2)] that(3) i by auto
  have "path (bnx t) (hash_table t ! j) ((hs(i := remove1 b (hs i))) j) \<and>
      backs (bpv t) None ((hs(i := remove1 b (hs i))) j)" if j: "j < NR_HASH" for j
  proof (cases "j = i")
    case False
    have "path (bnx t) (hash_table t ! j) (hs j) = path (bnx s) (hash_table t ! j) (hs j)"
      "backs (bpv t) None (hs j) = backs (bpv s) None (hs j)"
      using nb [OF _ j False] by (auto simp: t(2,3) unlink_to_def split: option.splits)
    then show ?thesis using chainsD(1,2) [OF ch j] False by (simp add: t(4))
  next
    case True
    show ?thesis
    proof (cases "b \<in> set (hs i)")
      case True
      from chain_unlink [OF chainsD(1,2,3) [OF ch j] this [folded \<open>j = i\<close>]] \<open>j = i\<close> len show ?thesis
        by (auto simp: t)
    next
      case False
      then have "b_dev (bufs s ! b) = 0" using hh b i by (auto simp: hashed_def split: if_splits)
      then have "bnx s b = None" "bpv s b = None" using hh b by (auto simp: hashed_def)
      moreover have "hash_table s ! i \<noteq> Some b"
        using path_head [OF chainsD(1) [OF ch len(2)]] False by (auto split: list.splits)
      ultimately show ?thesis using chainsD(1,2) [OF ch j] True False
        by (simp add: t unlink_to_def remove1_idem)
    qed
  qed
  moreover have "b' < length (bufs t) \<and> b_dev (bufs t ! b') \<noteq> 0 \<and> bh_hash (bufs t ! b') = j \<and> distinct (hs j)"
    if "j < NR_HASH" "b' \<in> set (hs j)" for j b'
    using chainsD(3,5,6,7) [OF ch that(1)] that(2) relinkedD(1) [OF t(1)] relinked_fields [OF t(1), of b'] by auto
  ultimately show ?thesis using len chainsD(3) [OF ch]
    by (auto simp: hash_chains_def t(4) distinct_remove1 dest: notin_set_remove1 set_mp [OF set_remove1_subset])
qed

lemma remove_from_queues_exec:
  assumes b: "b < length (bufs s)" and len: "length (hash_table s) = NR_HASH"
    and vn: "\<And>k. bnx s b = Some k \<Longrightarrow> k < length (bufs s)" and vp: "\<And>k. bpv s b = Some k \<Longrightarrow> k < length (bufs s)"
    and f: "fpv s b = Some p" "fnx s b = Some n" "p < length (bufs s)" "n < length (bufs s)"
  shows "\<exists>t. remove_from_queues b s = Ok () t \<and> relinked s t \<and>
    bnx t = unlink_to (bpv s b) (bnx s b) (bnx s) \<and> bpv t = unlink_to (bnx s b) (bpv s b) (bpv s) \<and>
    fnx t = (fnx s)(p := Some n) \<and> fpv t = (fpv s)(n := Some p) \<and>
    free_list t = (if free_list s = Some b then Some n else free_list s) \<and>
    hash_table t = (let i = bh_hash (bufs s ! b) in
      if hash_table s ! i = Some b then (hash_table s)[i := bnx s b] else hash_table s)"
proof -
  define h where "h = bufs s ! b"
  define i where "i = bh_hash h"
  have il: "i < length (hash_table s)" by (simp add: i_def len)
  define l1 where "l1 = setf (b_next h) (\<lambda>x. x\<lparr>b_prev := b_prev h\<rparr>) (bufs s)"
  define l2 where "l2 = setf (b_prev h) (\<lambda>x. x\<lparr>b_next := b_next h\<rparr>) l1"
  define l3 where "l3 = l2[p := (l2 ! p)\<lparr>b_next_free := Some n\<rparr>]"
  define l4 where "l4 = l3[n := (l3 ! n)\<lparr>b_prev_free := Some p\<rparr>]"
  have len4: "length l1 = length (bufs s)" "length l2 = length (bufs s)" "length l3 = length (bufs s)" "length l4 = length (bufs s)"
    by (simp_all add: l1_def l2_def l3_def l4_def)
  have n1: "l1 ! x = (if b_next h = Some x then (bufs s ! x)\<lparr>b_prev := b_prev h\<rparr> else bufs s ! x)" for x
    unfolding l1_def by (rule nth_setf) (simp add: vn h_def)
  have n2: "l2 ! x = (if b_prev h = Some x then (l1 ! x)\<lparr>b_next := b_next h\<rparr> else l1 ! x)" for x
    unfolding l2_def by (rule nth_setf) (simp add: vp h_def len4)
  have n4: "l4 ! x = (let y = (if x = p then (l2 ! x)\<lparr>b_next_free := Some n\<rparr> else l2 ! x) in
      if x = n then y\<lparr>b_prev_free := Some p\<rparr> else y)" for x
    using f by (simp add: l4_def l3_def len4 nth_list_update)
  define ht where "ht = (if hash_table s ! i = Some b then (hash_table s)[i := b_next h] else hash_table s)"
  define s2 where "s2 = s\<lparr>bufs := l2, hash_table := ht\<rparr>"
  define t where "t = (if free_list s = Some b then s2\<lparr>bufs := l4, free_list := Some n\<rparr> else s2\<lparr>bufs := l4\<rparr>)"
  have tf: "bufs t = l4" "hash_table t = ht" "free_list t = (if free_list s = Some b then Some n else free_list s)"
    "t = s\<lparr>bufs := l4, hash_table := ht, free_list := free_list t\<rparr>"
    by (simp_all add: t_def s2_def)
  have e1: "(case b_next h of None \<Rightarrow> retk () | Some k \<Rightarrow> upd_bh k (\<lambda>x. x\<lparr>b_prev := b_prev h\<rparr>)) s = Ok () (s\<lparr>bufs := l1\<rparr>)"
    unfolding l1_def by (rule upd_opt_eq) (simp add: vn h_def)
  have "(case b_prev h of None \<Rightarrow> retk () | Some k \<Rightarrow> upd_bh k (\<lambda>x. x\<lparr>b_next := b_next h\<rparr>)) (s\<lparr>bufs := l1\<rparr>)
      = Ok () (s\<lparr>bufs := l1\<rparr>\<lparr>bufs := setf (b_prev h) (\<lambda>x. x\<lparr>b_next := b_next h\<rparr>) (bufs (s\<lparr>bufs := l1\<rparr>))\<rparr>)"
    by (rule upd_opt_eq) (simp add: vp h_def len4)
  then have e2: "(case b_prev h of None \<Rightarrow> retk () | Some k \<Rightarrow> upd_bh k (\<lambda>x. x\<lparr>b_next := b_next h\<rparr>)) (s\<lparr>bufs := l1\<rparr>) = Ok () (s\<lparr>bufs := l2\<rparr>)"
    by (simp add: l2_def)
  have e3: "get_hash i (s\<lparr>bufs := l2\<rparr>) = Ok (hash_table s ! i) (s\<lparr>bufs := l2\<rparr>)"
    using il by (simp add: get_hash_def)
  have e4: "whenk (hash_table s ! i = Some b) (set_hash i (b_next h)) (s\<lparr>bufs := l2\<rparr>) = Ok () s2"
    using il by (simp add: whenk_def set_hash_def retk_def ht_def s2_def)
  have "b_prev_free (l2 ! b) = Some p" "b_next_free (l2 ! b) = Some n" using f by (simp_all add: n1 n2 h_def)
  then have pn: "b_prev_free (l2 ! b) = Some p" "b_next_free (l2 ! b) = Some n" by simp_all
  have e5: "get_bh b s2 = Ok (l2 ! b) s2" "upd_bh p (\<lambda>x. x\<lparr>b_next_free := Some n\<rparr>) s2 = Ok () (s2\<lparr>bufs := l3\<rparr>)"
    "upd_bh n (\<lambda>x. x\<lparr>b_prev_free := Some p\<rparr>) (s2\<lparr>bufs := l3\<rparr>) = Ok () (s2\<lparr>bufs := l4\<rparr>)"
    "getk free_list (s2\<lparr>bufs := l4\<rparr>) = Ok (free_list s) (s2\<lparr>bufs := l4\<rparr>)"
    "whenk (free_list s = Some b) (modk (\<lambda>s. s\<lparr>free_list := Some n\<rparr>)) (s2\<lparr>bufs := l4\<rparr>) = Ok () t"
    using b f(3,4) len4 by (simp_all add: get_bh_def upd_bh_def getk_def whenk_def modk_def retk_def s2_def l3_def l4_def t_def)
  have g: "get_bh b s = Ok h s" using b by (simp add: get_bh_def h_def)
  have "remove_from_queues b s = Ok () t"
    unfolding remove_from_queues_def
    by (simp only: bindk_Ok g e1 e2 i_def [symmetric] e3 e4 e5 pn prod.case option.case)
  moreover have "map strip l4 = map strip (bufs s)"
    by (simp add: l4_def l3_def l2_def l1_def map_strip_upd map_strip_setf)
  then have "relinked s t" unfolding relinked_def using tf(4) by blast
  moreover have "bnx t = unlink_to (bpv s b) (bnx s b) (bnx s)" "bpv t = unlink_to (bnx s b) (bpv s b) (bpv s)"
    "fnx t = (fnx s)(p := Some n)" "fpv t = (fpv s)(n := Some p)"
    by (auto simp: tf(1) n4 n2 n1 unlink_to_def h_def Let_def fun_eq_iff split: option.splits)
  ultimately show ?thesis using tf(2,3) unfolding ht_def i_def h_def Let_def by blast
qed

lemma remove_from_queues_refines:
  assumes ch: "hash_chains s hs" and hh: "hashed s hs {}" and fr: "freeq s fl" "set fl = {..<length (bufs s)}"
    and two: "2 \<le> length (bufs s)" and b: "b < length (bufs s)" and i: "i = bh_hash (bufs s ! b)"
  shows "\<exists>t. remove_from_queues b s = Ok () t \<and> relinked s t \<and> hash_chains t (hs(i := remove1 b (hs i))) \<and>
    hashed t (hs(i := remove1 b (hs i))) {b} \<and> freeq t (remove1 b fl) \<and> remove1 b fl \<noteq> []"
proof -
  have fl: "ring (fnx s) (fpv s) fl" "distinct fl" "free_list s = Some (hd fl)" "b \<in> set fl"
    using fr b by (simp_all add: freeq_def)
  have fl2: "2 \<le> length fl" using distinct_card [OF fl(2)] fr(2) two by simp
  obtain p n where r: "fpv s b = Some p" "fnx s b = Some n" "p \<in> set fl" "n \<in> set fl" "p \<noteq> b" "n \<noteq> b"
    "ring ((fnx s)(p := Some n)) ((fpv s)(n := Some p)) (remove1 b fl)"
    "hd (remove1 b fl) = (if hd fl = b then n else hd fl)" "remove1 b fl \<noteq> []"
    by (rule ring_remove [OF fl(1,2,4) fl2])
  have nbr: "k < length (bufs s)" if "bnx s b = Some k \<or> bpv s b = Some k" for k
    using chain_neighbours [OF ch hh b that] by simp
  have "length (hash_table s) = NR_HASH" using ch by (simp add: hash_chains_def)
  from remove_from_queues_exec [OF b this _ _ r(1,2)] nbr r(3,4) fr(2) obtain t where
    t: "remove_from_queues b s = Ok () t" "relinked s t"
    "bnx t = unlink_to (bpv s b) (bnx s b) (bnx s)" "bpv t = unlink_to (bnx s b) (bpv s b) (bpv s)"
    "fnx t = (fnx s)(p := Some n)" "fpv t = (fpv s)(n := Some p)"
    "free_list t = (if free_list s = Some b then Some n else free_list s)"
    "hash_table t = (if hash_table s ! i = Some b then (hash_table s)[i := bnx s b] else hash_table s)"
    unfolding i by (auto simp: Let_def)
  have c: "hash_chains t (hs(i := remove1 b (hs i)))" by (rule chains_unlink [OF ch hh b t(2-4,8) i])
  have il: "i < NR_HASH" by (simp add: i)
  have dev: "b_dev (bufs s ! k) \<noteq> 0" if "bnx s b = Some k \<or> bpv s b = Some k" for k
    using chain_neighbours [OF ch hh b that] by simp
  have "hashed t (hs(i := remove1 b (hs i))) {b}"
    unfolding hashed_def
  proof (intro conjI allI impI)
    fix c assume c: "c < length (bufs t)" "c \<notin> {b}"
    then have cs: "c < length (bufs s)" using relinkedD(1) [OF t(2)] by simp
    note f = relinked_fields [OF t(2) cs]
    show "if b_dev (bufs t ! c) = 0 then bnx t c = None \<and> bpv t c = None
      else c \<in> set ((hs(i := remove1 b (hs i))) (bh_hash (bufs t ! c)))"
    proof (cases "b_dev (bufs s ! c) = 0")
      case True
      then have "bnx t c = bnx s c" "bpv t c = bpv s c"
        using dev unfolding fun_cong [OF t(3)] fun_cong [OF t(4)] unlink_to_def by (auto split: option.splits)
      with True cs hh f show ?thesis by (simp add: hashed_def)
    next
      case False
      then have "c \<in> set (hs (bh_hash (bufs s ! c)))" using hh cs by (simp add: hashed_def)
      with False f c(2) show ?thesis by (auto simp: in_set_remove1)
    qed
  next
    fix j assume j: "j < NR_HASH"
    have "b \<notin> set (remove1 b (hs i))" using chainsD(3) [OF ch il] by (simp add: set_remove1_eq)
    moreover have "b \<notin> set (hs j)" if "j \<noteq> i" using chainsD(7) [OF ch j] that i by auto
    ultimately show "{b} \<inter> set ((hs(i := remove1 b (hs i))) j) = {}" by auto
  qed
  moreover have "freeq t (remove1 b fl)"
    using r(7,8) fl(2,3) by (simp add: freeq_def t(5-7) distinct_remove1)
  ultimately show ?thesis using t(1,2) c r(9) by blast
qed

lemma insert_into_queues_exec:
  assumes b: "b < length (bufs s)" and len: "length (hash_table s) = NR_HASH"
    and f: "free_list s = Some f" "fpv s f = Some p" "f < length (bufs s)" "p < length (bufs s)" "f \<noteq> b" "p \<noteq> b"
    and dev: "d = (b_dev (bufs s ! b) \<noteq> 0)" and i: "i = bh_hash (bufs s ! b)"
    and q: "\<And>k. hash_table s ! i = Some k \<Longrightarrow> k < length (bufs s) \<and> k \<noteq> b"
  shows "\<exists>t. insert_into_queues b s = Ok () t \<and> relinked s t \<and>
    fnx t = (fnx s)(b := Some f, p := Some b) \<and> fpv t = (fpv s)(b := Some p, f := Some b) \<and> free_list t = free_list s \<and>
    bnx t = (bnx s)(b := if d then hash_table s ! i else None) \<and>
    bpv t = unlink_to (if d then hash_table s ! i else None) (Some b) ((bpv s)(b := None)) \<and>
    hash_table t = (if d then (hash_table s)[i := Some b] else hash_table s)"
proof -
  define l1 where "l1 = (bufs s)[b := (bufs s ! b)\<lparr>b_next_free := Some f\<rparr>]"
  define l2 where "l2 = l1[b := (l1 ! b)\<lparr>b_prev_free := Some p\<rparr>]"
  define l3 where "l3 = l2[p := (l2 ! p)\<lparr>b_next_free := Some b\<rparr>]"
  define l4 where "l4 = l3[f := (l3 ! f)\<lparr>b_prev_free := Some b\<rparr>]"
  define l5 where "l5 = l4[b := (l4 ! b)\<lparr>b_prev := None, b_next := None\<rparr>]"
  define l6 where "l6 = l5[b := (l5 ! b)\<lparr>b_next := hash_table s ! i\<rparr>]"
  define l7 where "l7 = setf (hash_table s ! i) (\<lambda>x. x\<lparr>b_prev := Some b\<rparr>) l6"
  have len7: "length l1 = length (bufs s)" "length l2 = length (bufs s)" "length l3 = length (bufs s)"
    "length l4 = length (bufs s)" "length l5 = length (bufs s)" "length l6 = length (bufs s)" "length l7 = length (bufs s)"
    by (simp_all add: l1_def l2_def l3_def l4_def l5_def l6_def l7_def)
  have n5: "l5 ! x = (if x = b then (bufs s ! b)\<lparr>b_next_free := Some f, b_prev_free := Some p, b_prev := None, b_next := None\<rparr>
      else let y = (if x = p then (bufs s ! x)\<lparr>b_next_free := Some b\<rparr> else bufs s ! x) in
        if x = f then y\<lparr>b_prev_free := Some b\<rparr> else y)" for x
    using b f by (simp add: l5_def l4_def l3_def l2_def l1_def nth_list_update Let_def)
  have n7: "l7 ! x = (if hash_table s ! i = Some x then (l5 ! x)\<lparr>b_prev := Some b\<rparr>
      else if x = b then (l5 ! x)\<lparr>b_next := hash_table s ! i\<rparr> else l5 ! x)" for x
  proof -
    have "l7 ! x = (if hash_table s ! i = Some x then (l6 ! x)\<lparr>b_prev := Some b\<rparr> else l6 ! x)"
      unfolding l7_def by (rule nth_setf) (simp add: q len7)
    then show ?thesis using b q len7 by (auto simp: l6_def nth_list_update)
  qed
  define s5 where "s5 = s\<lparr>bufs := l5\<rparr>"
  define t where "t = (if d then s\<lparr>bufs := l7, hash_table := (hash_table s)[i := Some b]\<rparr> else s5)"
  have tf: "bufs t = (if d then l7 else l5)" "hash_table t = (if d then (hash_table s)[i := Some b] else hash_table s)"
    "free_list t = free_list s" "t = s\<lparr>bufs := bufs t, hash_table := hash_table t, free_list := free_list t\<rparr>"
    by (simp_all add: t_def s5_def)
  have pf: "b_prev_free (l1 ! f) = Some p" "b_prev_free (l2 ! f) = Some p"
    using b f by (simp_all add: l1_def l2_def nth_list_update)
  have st: "getk free_list s = Ok (free_list s) s" "derefk (free_list s) s = Ok f s"
    "upd_bh b (\<lambda>h. h\<lparr>b_next_free := Some f\<rparr>) s = Ok () (s\<lparr>bufs := l1\<rparr>)"
    "get_bh f (s\<lparr>bufs := l1\<rparr>) = Ok (l1 ! f) (s\<lparr>bufs := l1\<rparr>)"
    "upd_bh b (\<lambda>h. h\<lparr>b_prev_free := Some p\<rparr>) (s\<lparr>bufs := l1\<rparr>) = Ok () (s\<lparr>bufs := l2\<rparr>)"
    "get_bh f (s\<lparr>bufs := l2\<rparr>) = Ok (l2 ! f) (s\<lparr>bufs := l2\<rparr>)" "derefk (Some p) (s\<lparr>bufs := l2\<rparr>) = Ok p (s\<lparr>bufs := l2\<rparr>)"
    "upd_bh p (\<lambda>h. h\<lparr>b_next_free := Some b\<rparr>) (s\<lparr>bufs := l2\<rparr>) = Ok () (s\<lparr>bufs := l3\<rparr>)"
    "upd_bh f (\<lambda>h. h\<lparr>b_prev_free := Some b\<rparr>) (s\<lparr>bufs := l3\<rparr>) = Ok () (s\<lparr>bufs := l4\<rparr>)"
    "upd_bh b (\<lambda>h. h\<lparr>b_prev := None, b_next := None\<rparr>) (s\<lparr>bufs := l4\<rparr>) = Ok () s5"
    "get_bh b s5 = Ok (l5 ! b) s5"
    using b f len7 by (simp_all add: kdefs l1_def l2_def l3_def l4_def l5_def s5_def)
  have h5: "(b_dev (l5 ! b) = 0) = (\<not> d)" "bh_hash (l5 ! b) = i" by (simp_all add: n5 dev i bh_hash_def)
  have il: "i < length (hash_table s)" by (simp add: i len)
  have "bindk (get_hash i) (\<lambda>q. bindk (upd_bh b (\<lambda>h. h\<lparr>b_next := q\<rparr>)) (\<lambda>_.
     bindk (set_hash i (Some b)) (\<lambda>_.
     case q of None \<Rightarrow> retk () | Some n \<Rightarrow> upd_bh n (\<lambda>x. x\<lparr>b_prev := Some b\<rparr>)))) s5 = Ok () t" if d
  proof -
    let ?s6 = "s\<lparr>bufs := l6, hash_table := (hash_table s)[i := Some b]\<rparr>"
    have "(case hash_table s ! i of None \<Rightarrow> retk () | Some n \<Rightarrow> upd_bh n (\<lambda>x. x\<lparr>b_prev := Some b\<rparr>)) ?s6 =
       Ok () (?s6\<lparr>bufs := setf (hash_table s ! i) (\<lambda>x. x\<lparr>b_prev := Some b\<rparr>) (bufs ?s6)\<rparr>)"
      by (rule upd_opt_eq) (simp add: q len7)
    moreover have "get_hash i s5 = Ok (hash_table s ! i) s5" using il by (simp add: get_hash_def s5_def)
    moreover have "upd_bh b (\<lambda>h. h\<lparr>b_next := hash_table s ! i\<rparr>) s5 = Ok () (s\<lparr>bufs := l6\<rparr>)"
      using b len7 by (simp add: upd_bh_def s5_def l6_def)
    moreover have "set_hash i (Some b) (s\<lparr>bufs := l6\<rparr>) = Ok () ?s6" using il by (simp add: set_hash_def)
    ultimately show ?thesis using that by (simp add: bindk_def l7_def t_def)
  qed
  then have "insert_into_queues b s = Ok () t"
    unfolding insert_into_queues_def
    by (cases d) (simp_all only: bindk_Ok st pf h5 if_False if_True not_True_eq_False not_False_eq_True simp_thms,
      simp_all add: retk_def t_def)
  moreover have "map strip l7 = map strip l6" unfolding l7_def by (rule map_strip_setf) simp
  moreover have "map strip l6 = map strip l5" unfolding l6_def by (rule map_strip_upd) simp
  moreover have "map strip l5 = map strip l4" unfolding l5_def by (rule map_strip_upd) simp
  moreover have "map strip l4 = map strip l3" unfolding l4_def by (rule map_strip_upd) simp
  moreover have "map strip l3 = map strip l2" unfolding l3_def by (rule map_strip_upd) simp
  moreover have "map strip l2 = map strip l1" unfolding l2_def by (rule map_strip_upd) simp
  moreover have "map strip l1 = map strip (bufs s)" unfolding l1_def by (rule map_strip_upd) simp
  ultimately have ex: "insert_into_queues b s = Ok () t" "map strip l7 = map strip (bufs s)" "map strip l5 = map strip (bufs s)"
    by simp_all
  then have "map strip (bufs t) = map strip (bufs s)" by (simp add: tf(1))
  then have "relinked s t" unfolding relinked_def using tf(4) by blast
  moreover have "fnx t = (fnx s)(b := Some f, p := Some b)" "fpv t = (fpv s)(b := Some p, f := Some b)"
    "bnx t = (bnx s)(b := if d then hash_table s ! i else None)"
    "bpv t = unlink_to (if d then hash_table s ! i else None) (Some b) ((bpv s)(b := None))"
    using f q by (auto simp: tf(1) n7 n5 unlink_to_def Let_def fun_eq_iff split: option.splits)
  ultimately show ?thesis using tf(2,3) ex(1) by blast
qed

lemma chains_link:
  assumes ch: "hash_chains s hs" and hh: "hashed s hs {b}" and b: "b < length (bufs s)"
    and d: "b_dev (bufs s ! b) \<noteq> 0" and i: "i = bh_hash (bufs s ! b)"
    and t: "relinked s t" "bnx t = (bnx s)(b := hash_table s ! i)"
      "bpv t = unlink_to (hash_table s ! i) (Some b) ((bpv s)(b := None))" "hash_table t = (hash_table s)[i := Some b]"
  shows "hash_chains t (hs(i := b # hs i))"
proof -
  have il: "i < NR_HASH" "length (hash_table s) = NR_HASH" using ch i by (simp_all add: hash_chains_def)
  have nb: "b \<notin> set (hs j)" if "j < NR_HASH" for j using hh that by (auto simp: hashed_def)
  have hd: "hash_table s ! i = (case hs i of [] \<Rightarrow> None | x # _ \<Rightarrow> Some x)"
    by (rule path_head [OF chainsD(1) [OF ch il(1)]])
  have "path (bnx t) (hash_table t ! j) ((hs(i := b # hs i)) j) \<and> backs (bpv t) None ((hs(i := b # hs i)) j)"
    if j: "j < NR_HASH" for j
  proof (cases "j = i")
    case True
    have "path (bnx t) (Some b) (b # hs i)" using chainsD(1) [OF ch il(1)] nb [OF il(1)] by (simp add: t(2))
    moreover have "backs (bpv t) None (b # hs i)"
    proof (cases "hs i")
      case Nil
      then show ?thesis using hd by (simp add: t(3) unlink_to_def)
    next
      case (Cons y ys)
      then have "y \<noteq> b" "y \<notin> set ys" "b \<notin> set ys" "backs (bpv s) (Some y) ys"
        using nb [OF il(1)] chainsD(2,3) [OF ch il(1)] by auto
      then show ?thesis using hd Cons by (simp add: t(3) unlink_to_def)
    qed
    ultimately show ?thesis using True il by (simp add: t(4))
  next
    case False
    have "k \<notin> set (hs j)" if "hash_table s ! i = Some k" for k
      using hd that chainsD(7) [OF ch j] chainsD(7) [OF ch il(1)] False by (auto split: list.splits)
    then have "backs (bpv t) None (hs j) = backs (bpv s) None (hs j)"
      using nb [OF j] by (auto simp: t(3) unlink_to_def split: option.splits)
    then show ?thesis using chainsD(1,2) [OF ch j] nb [OF j] False by (simp add: t(2,4))
  qed
  moreover have "b' < length (bufs t) \<and> b_dev (bufs t ! b') \<noteq> 0 \<and> bh_hash (bufs t ! b') = j"
    if "j < NR_HASH" "b' \<in> set (hs j)" for j b'
    using chainsD(5,6,7) [OF ch that(1)] that(2) relinkedD(1) [OF t(1)] relinked_fields [OF t(1), of b'] by auto
  moreover have "b < length (bufs t) \<and> b_dev (bufs t ! b) \<noteq> 0 \<and> bh_hash (bufs t ! b) = i"
    using relinkedD(1) [OF t(1)] relinked_fields [OF t(1) b] b d i by simp
  ultimately show ?thesis using il chainsD(3) [OF ch] nb by (auto simp: hash_chains_def t(4))
qed

lemma hash_chains_same:
  assumes "hash_chains s hs" "relinked s t" "hash_table t = hash_table s"
    and "\<And>c. c \<noteq> b \<Longrightarrow> bnx t c = bnx s c" "\<And>c. c \<noteq> b \<Longrightarrow> bpv t c = bpv s c" "\<And>j. j < NR_HASH \<Longrightarrow> b \<notin> set (hs j)"
  shows "hash_chains t hs"
proof -
  have "path (bnx t) p (hs j) = path (bnx s) p (hs j)" "backs (bpv t) q (hs j) = backs (bpv s) q (hs j)"
    if "j < NR_HASH" for j p q
    by (rule path_cong, use assms(4,6) that in metis) (rule backs_cong, use assms(5,6) that in metis)
  then show ?thesis using assms(1,3) relinkedD(1) [OF assms(2)] relinked_fields [OF assms(2)]
    unfolding hash_chains_def by auto
qed

lemma insert_into_queues_refines:
  assumes ch: "hash_chains s hs" and hh: "hashed s hs {b}" and fr: "freeq s fl" "set fl = {..<length (bufs s)} - {b}"
    and b: "b < length (bufs s)" and i: "i = bh_hash (bufs s ! b)" and d: "d = (b_dev (bufs s ! b) \<noteq> 0)"
  shows "\<exists>t. insert_into_queues b s = Ok () t \<and> relinked s t \<and> hash_chains t (if d then hs(i := b # hs i) else hs) \<and>
    hashed t (if d then hs(i := b # hs i) else hs) {} \<and> freeq t (fl @ [b])"
proof -
  have fl: "ring (fnx s) (fpv s) fl" "distinct fl" "free_list s = Some (hd fl)" "b \<notin> set fl"
    using fr by (simp_all add: freeq_def)
  obtain p where r: "fpv s (hd fl) = Some p" "p \<in> set fl" "hd fl \<in> set fl"
    "ring ((fnx s)(b := Some (hd fl), p := Some b)) ((fpv s)(b := Some p, hd fl := Some b)) (fl @ [b])"
    by (rule ring_append [OF fl(1,2,4)])
  have il: "i < NR_HASH" "length (hash_table s) = NR_HASH" using ch i by (simp_all add: hash_chains_def)
  have nb: "b \<notin> set (hs j)" if "j < NR_HASH" for j using hh that by (auto simp: hashed_def)
  have "k < length (bufs s) \<and> k \<noteq> b" if "hash_table s ! i = Some k" for k
    using that path_head [OF chainsD(1) [OF ch il(1)]] chainsD(5) [OF ch il(1)] nb [OF il(1)] by (auto split: list.splits)
  from insert_into_queues_exec [OF b il(2) fl(3) r(1) _ _ _ _ d i this] r fr(2) obtain t where
    t: "insert_into_queues b s = Ok () t" "relinked s t"
    "fnx t = (fnx s)(b := Some (hd fl), p := Some b)" "fpv t = (fpv s)(b := Some p, hd fl := Some b)" "free_list t = free_list s"
    "bnx t = (bnx s)(b := if d then hash_table s ! i else None)"
    "bpv t = unlink_to (if d then hash_table s ! i else None) (Some b) ((bpv s)(b := None))"
    "hash_table t = (if d then (hash_table s)[i := Some b] else hash_table s)"
    by auto
  have ft: "freeq t (fl @ [b])" using r(3,4) fl t(3-5) by (cases fl) (auto simp: freeq_def)
  have len: "length (bufs t) = length (bufs s)" by (rule relinkedD(1) [OF t(2)])
  note f = relinked_fields [OF t(2)]
  show ?thesis
  proof (cases d)
    case True
    have c: "hash_chains t (hs(i := b # hs i))"
      by (rule chains_link [OF ch hh b _ i t(2)]) (use True d t in simp_all)
    have "bnx t c = None \<and> bpv t c = None"
      if "c < length (bufs s)" "c \<noteq> b" "b_dev (bufs s ! c) = 0" for c
    proof -
      have "bnx s c = None" "bpv s c = None" using hh that by (auto simp: hashed_def)
      moreover have "hash_table s ! i \<noteq> Some c"
        using that(3) path_head [OF chainsD(1) [OF ch il(1)]] chainsD(6) [OF ch il(1)] by (auto split: list.splits)
      ultimately show ?thesis
        using that(2) True unfolding fun_cong [OF t(6)] fun_cong [OF t(7)] by (auto simp: unlink_to_def split: option.splits)
    qed
    then have "hashed t (hs(i := b # hs i)) {}"
      using hh True d i f len b unfolding hashed_def by auto
    with t(1,2) c ft True show ?thesis by auto
  next
    case False
    then have l: "bnx t = (bnx s)(b := None)" "bpv t = (bpv s)(b := None)"
      using t(6,7) by (simp_all add: unlink_to_def)
    have "bnx t c = bnx s c" "bpv t c = bpv s c" if "c \<noteq> b" for c
      using fun_cong [OF l(1), of c] fun_cong [OF l(2), of c] that by simp_all
    with hash_chains_same [OF ch t(2)] nb t(8) False have c: "hash_chains t hs" by auto
    have "bnx t c = None \<and> bpv t c = None" if "c < length (bufs s)" "b_dev (bufs s ! c) = 0" for c
      using that hh fun_cong [OF l(1), of c] fun_cong [OF l(2), of c] by (cases "c = b") (auto simp: hashed_def)
    then have "hashed t hs {}"
      using hh False d f len b unfolding hashed_def by auto
    with t(1,2) c ft False show ?thesis by auto
  qed
qed

section \<open>Keeping the cache well-formed\<close>

text \<open>\<open>data_step s t\<close>: links, devices and block numbers are the same, data blocks keep their size.\<close>

definition data_step :: "kstate \<Rightarrow> kstate \<Rightarrow> bool" where
  "data_step s t \<longleftrightarrow> length (bufs t) = length (bufs s) \<and> hash_table t = hash_table s \<and> free_list t = free_list s \<and>
     (\<forall>c < length (bufs s). bnx t c = bnx s c \<and> bpv t c = bpv s c \<and> fnx t c = fnx s c \<and> fpv t c = fpv s c \<and>
        b_dev (bufs t ! c) = b_dev (bufs s ! c) \<and> b_blocknr (bufs t ! c) = b_blocknr (bufs s ! c) \<and>
        length (b_data (bufs t ! c)) = length (b_data (bufs s ! c)))"

lemma data_step_hash: "data_step s t \<Longrightarrow> c < length (bufs s) \<Longrightarrow> bh_hash (bufs t ! c) = bh_hash (bufs s ! c)"
  by (simp add: data_step_def bh_hash_def)

lemma hash_chains_data_step:
  assumes d: "data_step s t" and c: "hash_chains s hs"
  shows "hash_chains t hs"
proof -
  have "path (bnx t) p (hs j) = path (bnx s) p (hs j)" if "j < NR_HASH" for j p
    by (rule path_cong) (use chainsD(5) [OF c that] d in \<open>auto simp: data_step_def\<close>)
  moreover have "backs (bpv t) q (hs j) = backs (bpv s) q (hs j)" if "j < NR_HASH" for j q
    by (rule backs_cong) (use chainsD(5) [OF c that] d in \<open>auto simp: data_step_def\<close>)
  ultimately show ?thesis using c d data_step_hash [OF d] unfolding hash_chains_def data_step_def by auto
qed

lemma freeq_data_step:
  assumes d: "data_step s t" and c: "freeq s fl" "set fl \<subseteq> {..<length (bufs s)}"
  shows "freeq t fl"
proof -
  have "ring (fnx t) (fpv t) fl = ring (fnx s) (fpv s) fl"
    by (rule ring_cong) (use c(2) d in \<open>auto simp: data_step_def\<close>)
  then show ?thesis using c(1) d by (simp add: freeq_def data_step_def)
qed

lemma hashed_data_step: "data_step s t \<Longrightarrow> hashed s hs X \<Longrightarrow> hashed t hs X"
  using data_step_hash [of s t] unfolding hashed_def data_step_def by auto

lemma cache_rel_size: "cache_rel s hs fl \<Longrightarrow> b < length (bufs s) \<Longrightarrow> length (b_data (bufs s ! b)) = BLOCK_SIZE"
  by (simp add: cache_rel_def)

lemma cache_rel_data_step:
  assumes d: "data_step s t" and c: "cache_rel s hs fl"
  shows "cache_rel t hs fl"
proof -
  have "unique_blocks t" using c d by (simp add: cache_rel_def unique_blocks_def data_step_def)
  moreover have "\<forall>h \<in> set (bufs t). length (b_data h) = BLOCK_SIZE"
    using cache_rel_size [OF c] d by (auto simp: data_step_def in_set_conv_nth)
  ultimately show ?thesis
    using c hash_chains_data_step [OF d, of hs] hashed_data_step [OF d, of hs "{}"] freeq_data_step [OF d, of fl] d
    by (auto simp: cache_rel_def data_step_def)
qed

lemma cache_ok_data_step: "data_step s t \<Longrightarrow> cache_ok s \<Longrightarrow> cache_ok t"
  unfolding cache_ok_def using cache_rel_data_step by blast

lemma data_step_refl [simp]: "data_step s s" by (simp add: data_step_def)

lemma data_step_trans: "data_step s t \<Longrightarrow> data_step t u \<Longrightarrow> data_step s u"
  unfolding data_step_def by simp

lemma data_step_upd:
  assumes "\<And>h. b_next (f h) = b_next h \<and> b_prev (f h) = b_prev h \<and> b_next_free (f h) = b_next_free h \<and>
    b_prev_free (f h) = b_prev_free h \<and> b_dev (f h) = b_dev h \<and> b_blocknr (f h) = b_blocknr h \<and>
    length (b_data (f h)) = length (b_data h)"
  shows "data_step s (s\<lparr>bufs := (bufs s)[b := f (bufs s ! b)]\<rparr>)"
  using assms by (cases "b < length (bufs s)") (auto simp: data_step_def nth_list_update)

text \<open>The heart of \<open>getblk\<close>: giving an unused buffer to a block that is not cached.\<close>

lemma claim_buffer_refines:
  assumes c: "cache_rel s hs fl" and b: "b < length (bufs s)"
    and new: "\<And>x. dev \<noteq> 0 \<Longrightarrow> x < length (bufs s) \<Longrightarrow> \<not> bh_is dev block (bufs s ! x)" and dev: "0 \<le> dev" "dev < 2 ^ 16"
  shows "\<exists>t hs'. claim_buffer dev block b s = Ok () t \<and> cache_rel t hs' (remove1 b fl @ [b]) \<and>
    (\<exists>bs ht q. t = s\<lparr>bufs := bs, hash_table := ht, free_list := q\<rparr>) \<and>
    map strip (bufs t) = (map strip (bufs s))[b := strip ((bufs s ! b)\<lparr>b_count := 1, b_dirt := 0, b_uptodate := 0,
      b_dev := word_of_int dev, b_blocknr := word_of_int block\<rparr>)]"
proof -
  define s1 where "s1 = s\<lparr>bufs := (bufs s)[b := (bufs s ! b)\<lparr>b_count := 1, b_dirt := 0, b_uptodate := 0\<rparr>]\<rparr>"
  have d1: "data_step s s1" unfolding s1_def by (rule data_step_upd) simp
  have len1: "length (bufs s1) = length (bufs s)" by (simp add: s1_def)
  have c1: "cache_rel s1 hs fl" by (rule cache_rel_data_step [OF d1 c])
  let ?i = "bh_hash (bufs s1 ! b)" and ?hs = "hs(bh_hash (bufs s1 ! b) := remove1 b (hs (bh_hash (bufs s1 ! b))))"
  obtain s2 where s2: "remove_from_queues b s1 = Ok () s2" "relinked s1 s2" "hash_chains s2 ?hs" "hashed s2 ?hs {b}"
    "freeq s2 (remove1 b fl)" "remove1 b fl \<noteq> []"
    using remove_from_queues_refines [of s1 hs fl b ?i] c1 b len1 by (auto simp: cache_rel_def)
  have len2: "length (bufs s2) = length (bufs s)" using relinkedD(1) [OF s2(2)] len1 by simp
  define s3 where "s3 = s2\<lparr>bufs := (bufs s2)[b := (bufs s2 ! b)\<lparr>b_dev := word_of_int dev, b_blocknr := word_of_int block\<rparr>]\<rparr>"
  have lk: "bnx s3 = bnx s2" "bpv s3 = bpv s2" "fnx s3 = fnx s2" "fpv s3 = fpv s2"
    using b len2 by (auto simp: s3_def nth_list_update fun_eq_iff)
  have o3: "bufs s3 ! x = bufs s2 ! x" if "x \<noteq> b" for x using that by (simp add: s3_def)
  have nb: "b \<notin> set (?hs j)" if "j < NR_HASH" for j using s2(4) that by (auto simp: hashed_def)
  have len3: "length (bufs s3) = length (bufs s)" by (simp add: s3_def len2)
  have ch3: "hash_chains s3 ?hs"
    unfolding hash_chains_def
  proof (intro conjI allI impI ballI)
    show "length (hash_table s3) = NR_HASH" using s2(3) by (simp add: s3_def hash_chains_def)
    fix j assume j: "j < NR_HASH"
    note cd = chainsD [OF s2(3) j]
    show "path (bnx s3) (hash_table s3 ! j) (?hs j)" unfolding lk(1) using cd(1) by (simp add: s3_def)
    show "backs (bpv s3) None (?hs j)" unfolding lk(2) by (rule cd(2))
    show "distinct (?hs j)" by (rule cd(3))
    fix x assume x: "x \<in> set (?hs j)"
    then have "x \<noteq> b" using nb [OF j] by blast
    then show "x < length (bufs s3)" "b_dev (bufs s3 ! x) \<noteq> 0" "bh_hash (bufs s3 ! x) = j"
      using cd(5,6,7) x o3 len2 len3 by simp_all
  qed
  have hh3: "hashed s3 ?hs {b}"
    unfolding hashed_def
  proof (intro conjI allI impI)
    fix x assume x: "x < length (bufs s3)" "x \<notin> {b}"
    from hashedD [OF s2(4), of x] x len2 len3
    have "if b_dev (bufs s2 ! x) = 0 then bnx s2 x = None \<and> bpv s2 x = None else x \<in> set (?hs (bh_hash (bufs s2 ! x)))"
      by simp
    then show "if b_dev (bufs s3 ! x) = 0 then bnx s3 x = None \<and> bpv s3 x = None else x \<in> set (?hs (bh_hash (bufs s3 ! x)))"
      using o3 [of x] x(2) by (simp only: singleton_iff not_False_eq_True)
  next
    fix j assume "j < NR_HASH"
    then show "{b} \<inter> set (?hs j) = {}" using nb by blast
  qed
  have fr3: "freeq s3 (remove1 b fl)"
    unfolding freeq_def lk(3,4) using s2(5) by (simp add: freeq_def s3_def)
  have fl: "distinct fl" "set fl = {..<length (bufs s)}" using c by (simp_all add: cache_rel_def freeq_def)
  then have sf: "set (remove1 b fl) = {..<length (bufs s3)} - {b}" by (simp add: len3 set_remove1_eq)
  obtain t hs' where t: "insert_into_queues b s3 = Ok () t" "relinked s3 t" "hash_chains t hs'" "hashed t hs' {}"
    "freeq t (remove1 b fl @ [b])"
    using insert_into_queues_refines [OF ch3 hh3 fr3 sf _ refl refl] b len3 by auto
  have "upd_bh b (\<lambda>h. h\<lparr>b_count := 1, b_dirt := 0, b_uptodate := 0\<rparr>) s = Ok () s1"
    "upd_bh b (\<lambda>h. h\<lparr>b_dev := word_of_int dev, b_blocknr := word_of_int block\<rparr>) s2 = Ok () s3"
    using b len2 by (simp_all add: upd_bh_def s1_def s3_def)
  then have "claim_buffer dev block b s = Ok () t"
    unfolding claim_buffer_def by (simp only: bindk_Ok s2(1) t(1))
  moreover have ms: "map strip (bufs t) = (map strip (bufs s))[b := strip ((bufs s ! b)\<lparr>b_count := 1, b_dirt := 0, b_uptodate := 0,
      b_dev := word_of_int dev, b_blocknr := word_of_int block\<rparr>)]"
    (is "_ = (map strip (bufs s))[b := strip ?h]")
  proof -
    have "map strip (bufs t) = map strip (bufs s3)" using t(2) by (auto simp: relinked_def)
    also have "\<dots> = (map strip (bufs s2))[b := strip ((bufs s2 ! b)\<lparr>b_dev := word_of_int dev, b_blocknr := word_of_int block\<rparr>)]"
      by (simp add: s3_def map_update)
    also have "strip ((bufs s2 ! b)\<lparr>b_dev := word_of_int dev, b_blocknr := word_of_int block\<rparr>) =
        (strip (bufs s2 ! b))\<lparr>b_dev := word_of_int dev, b_blocknr := word_of_int block\<rparr>" by (simp add: strip_def)
    also have "strip (bufs s2 ! b) = strip (bufs s1 ! b)" using relinkedD(2) [OF s2(2)] b len1 by simp
    also have "map strip (bufs s2) = map strip (bufs s1)" using s2(2) by (auto simp: relinked_def)
    also have "(strip (bufs s1 ! b))\<lparr>b_dev := word_of_int dev, b_blocknr := word_of_int block\<rparr> = strip ?h"
      using b by (simp add: s1_def strip_def)
    finally show ?thesis by (simp add: s1_def map_update)
  qed
  moreover have "cache_rel t hs' (remove1 b fl @ [b])"
  proof -
    have lt: "length (bufs t) = length (bufs s)" using ms by (metis length_list_update length_map)
    have st: "strip (bufs t ! x) = (if x = b then strip ?h else strip (bufs s ! x))" if "x < length (bufs s)" for x
      using ms that b lt by (metis (no_types, lifting) length_map nth_list_update nth_map)
    then have f: "b_dev (bufs t ! x) = (if x = b then word_of_int dev else b_dev (bufs s ! x))"
      "b_blocknr (bufs t ! x) = (if x = b then word_of_int block else b_blocknr (bufs s ! x))"
      "b_data (bufs t ! x) = b_data (bufs s ! x)" if "x < length (bufs s)" for x
      using that strip_fields(1-3) [of "bufs t ! x"] by (simp_all split: if_splits)
    have "uint (word_of_int dev :: u16) = dev" using dev by (simp add: uint_word_of_int_eq take_bit_int_eq_self)
    then have "\<not> (b_dev (bufs s ! x) = word_of_int dev \<and> b_blocknr (bufs s ! x) = word_of_int block)"
      if "x < length (bufs s)" "(word_of_int dev :: u16) \<noteq> 0" for x
    proof -
      have "dev \<noteq> 0" using that(2) by auto
      from new [OF this that(1)] \<open>uint (word_of_int dev :: u16) = dev\<close> show ?thesis by (auto simp: bh_is_def)
    qed
    moreover have "unique_blocks s" using c by (simp add: cache_rel_def)
    ultimately have "unique_blocks t" unfolding unique_blocks_def lt using f by (metis (full_types))
    moreover have "\<forall>h \<in> set (bufs t). length (b_data h) = BLOCK_SIZE"
      using cache_rel_size [OF c] f(3) lt by (auto simp: in_set_conv_nth)
    moreover have "set (remove1 b fl @ [b]) = {..<length (bufs t)}" using sf b by (auto simp: lt len3)
    ultimately show ?thesis using t(3-5) c lt by (simp add: cache_rel_def)
  qed
  moreover have "\<exists>bs ht q. t = s\<lparr>bufs := bs, hash_table := ht, free_list := q\<rparr>"
  proof -
    obtain bs ht q where "s2 = s1\<lparr>bufs := bs, hash_table := ht, free_list := q\<rparr>" using s2(2) by (auto simp: relinked_def)
    moreover obtain bs' ht' q' where "t = s3\<lparr>bufs := bs', hash_table := ht', free_list := q'\<rparr>" using t(2) by (auto simp: relinked_def)
    ultimately have "t = s\<lparr>bufs := bs', hash_table := ht', free_list := q'\<rparr>" by (simp add: s1_def s3_def)
    then show ?thesis by blast
  qed
  ultimately show ?thesis by blast
qed

end
