(* ===== verification/Buffer_Ops.thy ===== *)
theory Buffer_Ops
  imports Buffer_Cache
begin

text \<open>
  The operations of the buffer cache on well-formed caches: all of them keep \<open>cache_ok\<close> (through
  the invariant calculus of the prelude), \<open>getblk\<close> finds or claims the right buffer, and \<open>bread\<close>
  delivers the logical content of a block.
\<close>

section \<open>Every operation keeps the cache well-formed\<close>

lemma data_step_other:
  "bufs t = bufs s \<Longrightarrow> hash_table t = hash_table s \<Longrightarrow> free_list t = free_list s \<Longrightarrow> data_step s t"
  by (simp add: data_step_def)

lemma data_step_sched: "sched_step s t \<Longrightarrow> data_step s t"
  by (auto simp: sched_step_def data_step_def)

lemma data_step_wq: "data_step s (wq_set q p s)"
proof (cases q)
  case (WBuffer b)
  then show ?thesis using data_step_upd [of "\<lambda>h. h\<lparr>b_wait := p\<rparr>" s b] by simp
qed (simp_all add: data_step_def)

lemma keeps_getters [keeps_intros]:
  "keeps Q (get_bh b)" "keeps Q (get_inode i)" "keeps Q (get_sb k)" "keeps Q (get_req r)"
  "keeps Q (get_task p)" "keeps Q (get_bdev m)" "keeps Q (get_hash j)"
  by (auto simp: keeps_def kdefs)

lemma keeps_find_buffer [keeps_intros]: "keeps Q (find_buffer dev block)"
  unfolding find_buffer_def find_step_def by (intro keeps_intros)

lemma keeps_pick [keeps_intros]: "keeps Q pick_buffer"
  unfolding pick_buffer_def pick_buffer_step_def Let_def
  by (intro keeps_intros allI) (auto intro!: keeps_intros split: prod.splits)

text \<open>\<open>io_step s t\<close>: only the data and flags of buffers and the driver's state differ.\<close>

definition io_step :: "kstate \<Rightarrow> kstate \<Rightarrow> bool" where
  "io_step s t \<longleftrightarrow> data_step s t \<and> (\<exists>bs rq bd rm. t = s\<lparr>bufs := bs, request := rq, blk_dev := bd, rd_mem := rm\<rparr>)"

lemma io_stepI: "data_step s t \<Longrightarrow> t = s\<lparr>bufs := bs, request := rq, blk_dev := bd, rd_mem := rm\<rparr> \<Longrightarrow> io_step s t"
  unfolding io_step_def by blast

lemma io_step_bufs: "data_step s (s\<lparr>bufs := bs\<rparr>) \<Longrightarrow> io_step s (s\<lparr>bufs := bs\<rparr>)"
  by (erule io_stepI [where bs = bs and rq = "request s" and bd = "blk_dev s" and rm = "rd_mem s"]) simp

lemma io_step_drv:
  "io_step s (s\<lparr>request := rq\<rparr>)" "io_step s (s\<lparr>blk_dev := bd\<rparr>)" "io_step s (s\<lparr>rd_mem := rm\<rparr>)"
proof -
  show "io_step s (s\<lparr>request := rq\<rparr>)"
    by (rule io_stepI [where bs = "bufs s" and rq = rq and bd = "blk_dev s" and rm = "rd_mem s"]) (simp_all add: data_step_other)
  show "io_step s (s\<lparr>blk_dev := bd\<rparr>)"
    by (rule io_stepI [where bs = "bufs s" and rq = "request s" and bd = bd and rm = "rd_mem s"]) (simp_all add: data_step_other)
  show "io_step s (s\<lparr>rd_mem := rm\<rparr>)"
    by (rule io_stepI [where bs = "bufs s" and rq = "request s" and bd = "blk_dev s" and rm = rm]) (simp_all add: data_step_other)
qed

text \<open>The links of a buffer, its identity and the size of its data.\<close>

abbreviation "keeps_id f \<equiv> \<forall>h. b_next (f h) = b_next h \<and> b_prev (f h) = b_prev h \<and> b_next_free (f h) = b_next_free h \<and>
    b_prev_free (f h) = b_prev_free h \<and> b_dev (f h) = b_dev h \<and> b_blocknr (f h) = b_blocknr h \<and>
    length (b_data (f h)) = length (b_data h)"

text \<open>
  The contract between the cache and those who state invariants about the kernel: an invariant
  that scheduling, wait queues, block I/O and handing a buffer to an uncached block leave alone
  is kept by every operation of the cache.
\<close>

locale buffer_inv = sched_inv +
  assumes Q_io: "io_step s t \<Longrightarrow> Q s \<Longrightarrow> Q t"
    and Q_pmem: "Q s \<Longrightarrow> Q (s\<lparr>pmem := pm\<rparr>)"
    and Q_claim: "0 \<le> dev \<Longrightarrow> dev < 2 ^ 16 \<Longrightarrow>
      keeps Q (bindk (find_buffer dev block) (\<lambda>f. if f \<noteq> None then retk (Inl ()) else
       bindk (claim_buffer dev block b) (\<lambda>_. retk (Inr b))))"
begin

lemmas sched_keeps = keeps_sleep_on keeps_wake_up keeps_schedule keeps_set_state

lemma keeps_upd_bh: "keeps_id f \<Longrightarrow> keeps Q (upd_bh b f)"
  using Q_io [OF io_step_bufs [OF data_step_upd]] by (auto simp: keeps_def upd_bh_def)

lemma keeps_drv: "keeps Q (upd_req r u)" "keeps Q (set_current_request m c)" "keeps Q (upd_task p w)"
  by (auto simp: keeps_def kdefs intro: Q_io [OF io_step_drv(1)] Q_io [OF io_step_drv(2)] Q_sched [OF sched_step_tasks])

lemma keeps_wait_on_buffer: "keeps Q (wait_on_buffer b)"
  unfolding wait_on_buffer_def by (intro keeps_intros sched_keeps)

lemma keeps_lock: "keeps Q (lock_buffer b)" "keeps Q (unlock_buffer b)"
  unfolding lock_buffer_def unlock_buffer_def
  by (intro keeps_intros sched_keeps keeps_wait_on_buffer keeps_upd_bh; simp)+

lemma keeps_end_request: "keeps Q (end_request r u)"
  unfolding end_request_def by (intro keeps_intros sched_keeps keeps_drv keeps_lock keeps_upd_bh; simp)

lemma keeps_rd_copy_out: "keeps Q (rd_copy_out b off len)"
  unfolding rd_copy_out_def by (intro keeps_intros keeps_modk Q_io [OF io_step_drv(3)])

lemma keeps_rd_copy_in: "keeps Q (rd_copy_in b off len)"
  unfolding keeps_def
proof (intro allI impI)
  fix s assume c: "Q s"
  let ?h = "(bufs s ! b)\<lparr>b_data := rd_fetch off len (rd_mem s) @ drop len (b_data (bufs s ! b))\<rparr>"
  have "data_step s (s\<lparr>bufs := (bufs s)[b := ?h]\<rparr>)" if "len \<le> length (b_data (bufs s ! b))"
    using that by (cases "b < length (bufs s)") (auto simp: data_step_def nth_list_update rd_fetch_def)
  then show "post Q (rd_copy_in b off len s)"
    using c Q_io [OF io_step_bufs] by (auto simp: rd_copy_in_def kdefs not_less)
qed

lemma keeps_do_rd_request: "keeps Q do_rd_request"
  unfolding do_rd_request_def rd_round_def Let_def
  by (intro keeps_intros keeps_end_request keeps_rd_copy_out keeps_rd_copy_in)

lemma keeps_add_request: "keeps Q (add_request m r)"
  unfolding add_request_def elevator_def elevator_step_def
  by (intro keeps_intros keeps_do_rd_request keeps_drv keeps_upd_bh; simp)

lemma keeps_ll_rw_block: "keeps Q (ll_rw_block rw b)"
  unfolding ll_rw_block_def make_request_def Let_def
  by (intro keeps_intros keeps_lock keeps_drv keeps_add_request)

lemma keeps_get_hash_table: "keeps Q (get_hash_table dev block)"
  unfolding get_hash_table_def by (intro keeps_intros keeps_wait_on_buffer keeps_upd_bh; simp)

lemma keeps_flush: "(\<And>d. keeps Q (sync d)) \<Longrightarrow> keeps Q (flush_buffer sync b)"
  unfolding flush_buffer_def by (intro keeps_intros keeps_wait_on_buffer)

lemma keeps_getblk:
  assumes "\<And>d. keeps Q (sync d)" "0 \<le> dev" "dev < 2 ^ 16"
  shows "keeps Q (getblk_gen sync dev block)"
  unfolding getblk_gen_def getblk_round_def
  by (intro keeps_intros sched_keeps keeps_wait_on_buffer keeps_get_hash_table keeps_flush Q_claim assms)

lemma keeps_brelse: "keeps Q (brelse p)"
  unfolding brelse_def by (intro keeps_intros sched_keeps keeps_wait_on_buffer keeps_upd_bh; simp)

lemma keeps_bread:
  assumes "\<And>d. keeps Q (sync d)" "0 \<le> dev" "dev < 2 ^ 16"
  shows "keeps Q (bread_gen sync dev block)"
  unfolding bread_gen_def
  by (intro keeps_intros keeps_getblk keeps_ll_rw_block keeps_wait_on_buffer keeps_brelse assms)

lemma keeps_bread_page_get:
  assumes "\<And>d. keeps Q (sync d)" "0 \<le> dev" "dev < 2 ^ 16"
  shows "keeps Q (bread_page_get sync dev bs)"
  by (induction bs) (auto intro!: keeps_intros keeps_getblk keeps_ll_rw_block assms)

lemma keeps_bread_page_copy: "keeps Q (bread_page_copy a rs)"
  by (induction rs arbitrary: a)
    (auto simp: COPYBLK_def intro!: keeps_intros keeps_modk Q_pmem keeps_wait_on_buffer keeps_brelse split: option.splits)

lemma keeps_bread_page:
  assumes "\<And>d. keeps Q (sync d)" "0 \<le> dev" "dev < 2 ^ 16"
  shows "keeps Q (bread_page_gen sync a dev bs)"
  unfolding bread_page_gen_def by (intro keeps_intros keeps_bread_page_get keeps_bread_page_copy assms)

lemma keeps_breada:
  assumes "\<And>d. keeps Q (sync d)" "0 \<le> dev" "dev < 2 ^ 16"
  shows "keeps Q (breada_gen sync dev first ahead)"
  unfolding breada_gen_def
  by (intro keeps_intros keeps_getblk keeps_ll_rw_block keeps_wait_on_buffer keeps_brelse keeps_upd_bh assms; simp)

lemma keeps_sync_pass: "keeps Q (sync_pass dev)"
  unfolding sync_pass_def sync_buffer_def by (intro keeps_intros keeps_wait_on_buffer keeps_ll_rw_block)

lemma keeps_sync_dev: "keeps Q si \<Longrightarrow> keeps Q (sync_dev_gen si dev)"
  unfolding sync_dev_gen_def by (intro keeps_intros keeps_sync_pass)

lemma keeps_sys_sync: "keeps Q si \<Longrightarrow> keeps Q (sys_sync_gen si)"
  unfolding sys_sync_gen_def by (intro keeps_intros keeps_wait_on_buffer keeps_ll_rw_block)

lemma keeps_invalidate: "keeps Q (invalidate_buffers dev)"
  unfolding invalidate_buffers_def by (intro keeps_intros keeps_wait_on_buffer keeps_upd_bh; simp)

end

text \<open>Giving the buffer away is safe because the lookup just before failed.\<close>

lemma claim_after_lookup:
  assumes c: "cache_ok s" and dev: "0 \<le> dev" "dev < 2 ^ 16"
  shows "settled (\<lambda>t. cache_ok t \<and> (\<exists>bs ht q. t = s\<lparr>bufs := bs, hash_table := ht, free_list := q\<rparr>))
    (bindk (find_buffer dev block) (\<lambda>f. if f \<noteq> None then retk (Inl ()) else
       bindk (claim_buffer dev block b) (\<lambda>_. retk (Inr b))) s)"
proof -
  obtain hs fl where r: "cache_rel s hs fl" using c by (auto simp: cache_ok_def)
  then have "hash_chains s hs" by (simp add: cache_rel_def)
  from find_buffer_eq [OF this] obtain f where f: "find_buffer dev block s = Ok f s" by blast
  have id: "\<exists>bs ht q. s = s\<lparr>bufs := bs, hash_table := ht, free_list := q\<rparr>"
    by (intro exI [of _ "bufs s"] exI [of _ "hash_table s"] exI [of _ "free_list s"]) simp
  show ?thesis
  proof (cases "f = None \<and> b < length (bufs s)")
    case True
    have "\<not> bh_is dev block (bufs s ! x)" if "dev \<noteq> 0" "x < length (bufs s)" for x
      using find_buffer_complete [OF c, of dev block] f True that dev by auto
    from claim_buffer_refines [OF r _ this dev] True
    obtain t hs' where "claim_buffer dev block b s = Ok () t" "cache_rel t hs' (remove1 b fl @ [b])"
      "\<exists>bs ht q. t = s\<lparr>bufs := bs, hash_table := ht, free_list := q\<rparr>" by blast
    then show ?thesis using f True unfolding cache_ok_def by (auto simp: retk_def)
  next
    case False
    then show ?thesis using f c id by (auto simp: claim_buffer_def kdefs)
  qed
qed

interpretation cache: buffer_inv cache_ok
proof unfold_locales
  show "\<And>s t. sched_step s t \<Longrightarrow> cache_ok s \<Longrightarrow> cache_ok t" by (blast intro: cache_ok_data_step data_step_sched)
  show "\<And>s q p. cache_ok s \<Longrightarrow> cache_ok (wq_set q p s)" by (blast intro: cache_ok_data_step data_step_wq)
  show "cache_ok (switch_back s u)" if "cache_ok u" for s u
    by (rule cache_ok_data_step [OF data_step_other that]) (simp_all add: switch_back_def)
  show "\<And>s t. io_step s t \<Longrightarrow> cache_ok s \<Longrightarrow> cache_ok t" by (auto simp: io_step_def intro: cache_ok_data_step)
  show "\<And>s pm. cache_ok s \<Longrightarrow> cache_ok (s\<lparr>pmem := pm\<rparr>)" by (rule cache_ok_data_step [OF data_step_other]) simp_all
  show "keeps cache_ok (bindk (find_buffer dev block) (\<lambda>f. if f \<noteq> None then retk (Inl ()) else
       bindk (claim_buffer dev block b) (\<lambda>_. retk (Inr b))))" if "0 \<le> dev" "dev < 2 ^ 16" for dev block b
    unfolding keeps_def using settled_post [OF claim_after_lookup [OF _ that]] by blast
qed

section \<open>Choosing a buffer\<close>

text \<open>Reference for the search: the first unused buffer that is neither dirty nor locked; failing
  that, the first unused buffer of least badness.\<close>

fun pick_spec :: "kstate \<Rightarrow> nat option \<Rightarrow> nat list \<Rightarrow> nat option" where
  "pick_spec s bh [] = bh"
| "pick_spec s bh (x # xs) =
     (let h = bufs s ! x;
          take = (b_count h = 0 \<and> (case bh of None \<Rightarrow> True | Some c \<Rightarrow> BADNESS h < BADNESS (bufs s ! c)))
      in if take \<and> BADNESS h = 0 then Some x else pick_spec s (if take then Some x else bh) xs)"

lemma pick_walk:
  assumes "links (fnx s) pv (x # xs @ [f])" "f \<notin> set xs" "\<forall>y \<in> set (x # xs). y < length (bufs s)"
    "\<And>c. bh = Some c \<Longrightarrow> c < length (bufs s)" "length xs < n"
  shows "loopk n (pick_buffer_step (Some f)) (x, bh) s = Ok (pick_spec s bh (x # xs)) s"
  using assms
proof (induction xs arbitrary: x bh n)
  case Nil
  then obtain m where n: "n = Suc m" by (cases n) auto
  have "b_next_free (bufs s ! x) = Some f" using Nil.prems(1) by simp
  then show ?case using n Nil.prems
    by (auto simp: pick_buffer_step_def kdefs Let_def split: option.splits)
next
  case (Cons y ys)
  then obtain m where n: "n = Suc m" by (cases n) auto
  define h where "h = bufs s ! x"
  define tk where "tk = (b_count h = 0 \<and> (case bh of None \<Rightarrow> True | Some c \<Rightarrow> BADNESS h < BADNESS (bufs s ! c)))"
  have nx: "b_next_free h = Some y" "y \<noteq> f" "x < length (bufs s)" using Cons.prems by (auto simp: h_def)
  have step: "pick_buffer_step (Some f) (x, bh) s =
      Ok (if tk \<and> BADNESS h = 0 then Inr (Some x) else Inl (y, if tk then Some x else bh)) s"
    using nx Cons.prems(4) by (auto simp: pick_buffer_step_def kdefs Let_def h_def tk_def split: option.splits)
  have ih: "loopk m (pick_buffer_step (Some f)) (y, if tk then Some x else bh) s =
      Ok (pick_spec s (if tk then Some x else bh) (y # ys)) s"
    by (rule Cons.IH) (use Cons.prems n in \<open>auto split: if_splits\<close>)
  have "pick_spec s bh (x # y # ys) = (if tk \<and> BADNESS h = 0 then Some x else pick_spec s (if tk then Some x else bh) (y # ys))"
    by (simp only: pick_spec.simps(2) [of s bh x "y # ys"] Let_def h_def tk_def)
  then show ?case using n step ih by (simp add: bindk_def retk_def del: pick_spec.simps)
qed

lemma pick_buffer_eq:
  assumes "cache_rel s hs fl"
  shows "pick_buffer s = Ok (pick_spec s None fl) s"
proof -
  have fl: "ring (fnx s) (fpv s) fl" "distinct fl" "free_list s = Some (hd fl)" "set fl = {..<length (bufs s)}"
    using assms by (simp_all add: cache_rel_def freeq_def)
  then obtain f l where l: "fl = f # l" by (cases fl) (auto simp: ring_def)
  have "length fl = length (bufs s)" using distinct_card [OF fl(2)] fl(4) by simp
  then have "length l < NR_BUFFERS s + 1" by (simp add: l NR_BUFFERS_def)
  moreover have "\<forall>y \<in> set (f # l). y < length (bufs s)" using fl(4) l by auto
  ultimately have "loopk (NR_BUFFERS s + 1) (pick_buffer_step (Some f)) (f, None) s = Ok (pick_spec s None (f # l)) s"
    using fl(1,2) l by (intro pick_walk [of s "fpv s"]) (auto simp: ring_def)
  then show ?thesis using fl(3) l by (simp add: pick_buffer_def getk_def derefk_def retk_def del: pick_spec.simps loopk.simps)
qed

lemma pick_spec_None: "pick_spec s bh l = None \<longleftrightarrow> bh = None \<and> (\<forall>x \<in> set l. b_count (bufs s ! x) \<noteq> 0)"
  by (induction l arbitrary: bh) (auto simp: Let_def split: option.splits)

lemma pick_spec_Some:
  assumes "pick_spec s bh l = Some c" "\<And>d. bh = Some d \<Longrightarrow> b_count (bufs s ! d) = 0"
  shows "(c \<in> set l \<or> bh = Some c) \<and> b_count (bufs s ! c) = 0 \<and>
    (\<forall>x \<in> set l. b_count (bufs s ! x) = 0 \<longrightarrow> BADNESS (bufs s ! c) \<le> BADNESS (bufs s ! x)) \<and>
    (\<forall>d. bh = Some d \<longrightarrow> BADNESS (bufs s ! c) \<le> BADNESS (bufs s ! d))"
  using assms
proof (induction l arbitrary: bh)
  case (Cons x xs)
  define h where "h = bufs s ! x"
  define tk where "tk = (b_count h = 0 \<and> (case bh of None \<Rightarrow> True | Some c \<Rightarrow> BADNESS h < BADNESS (bufs s ! c)))"
  have ps: "pick_spec s bh (x # xs) = (if tk \<and> BADNESS h = 0 then Some x else pick_spec s (if tk then Some x else bh) xs)"
    by (simp only: pick_spec.simps(2) [of s bh x xs] Let_def h_def tk_def)
  show ?case
  proof (cases "tk \<and> BADNESS h = 0")
    case True
    then show ?thesis using ps Cons.prems by (auto simp: tk_def h_def)
  next
    case False
    have ih: "(c \<in> set xs \<or> (if tk then Some x else bh) = Some c) \<and> b_count (bufs s ! c) = 0 \<and>
      (\<forall>y \<in> set xs. b_count (bufs s ! y) = 0 \<longrightarrow> BADNESS (bufs s ! c) \<le> BADNESS (bufs s ! y)) \<and>
      (\<forall>d. (if tk then Some x else bh) = Some d \<longrightarrow> BADNESS (bufs s ! c) \<le> BADNESS (bufs s ! d))"
      by (rule Cons.IH) (use Cons.prems ps False in \<open>auto simp: tk_def h_def split: if_splits\<close>)
    then show ?thesis by (cases bh) (fastforce simp: tk_def h_def split: if_splits)+
  qed
qed auto

section \<open>getblk\<close>

lemma getblk_hit:
  assumes c: "cache_ok s" and d: "0 < dev" "dev < 2 ^ 16" and b: "b < length (bufs s)" "bh_is dev block (bufs s ! b)"
    and u: "b_lock (bufs s ! b) = 0"
  shows "getblk_gen sync dev block s = Ok b (s\<lparr>bufs := (bufs s)[b := (bufs s ! b)\<lparr>b_count := b_count (bufs s ! b) + 1\<rparr>]\<rparr>)"
proof -
  define t where "t = s\<lparr>bufs := (bufs s)[b := (bufs s ! b)\<lparr>b_count := b_count (bufs s ! b) + 1\<rparr>]\<rparr>"
  obtain r where r: "find_buffer dev block s = Ok r s" "case r of Some b \<Rightarrow> b < length (bufs s) \<and> bh_is dev block (bufs s ! b)
     | None \<Rightarrow> \<forall>b < length (bufs s). \<not> bh_is dev block (bufs s ! b)"
    using find_buffer_complete [OF c d] by blast
  then obtain x where x: "r = Some x" "x < length (bufs s)" "bh_is dev block (bufs s ! x)"
    using b by (cases r) auto
  have "unique_blocks s" using c by (auto simp: cache_ok_def cache_rel_def)
  moreover have "b_dev (bufs s ! b) = b_dev (bufs s ! x)" "b_blocknr (bufs s ! b) = b_blocknr (bufs s ! x)"
    "b_dev (bufs s ! b) \<noteq> 0"
    using b(2) x(3) d by (auto simp: bh_is_def word_uint_eq_iff)
  ultimately have "x = b" using b(1) x(2) by (metis unique_blocks_def)
  then have f: "find_buffer dev block s = Ok (Some b) s" using r(1) x(1) by simp
  have "upd_bh b (\<lambda>h. h\<lparr>b_count := b_count h + 1\<rparr>) s = Ok () t" "wait_on_buffer b t = Ok () t"
    "get_bh b t = Ok (bufs t ! b) t" "bh_is dev block (bufs t ! b)"
    using b u by (simp_all add: upd_bh_def t_def wait_on_buffer_free get_bh_def bh_is_def)
  then have "get_hash_table dev block s = Ok (Some b) t"
    using f by (simp add: get_hash_table_def loopk_numeral retk_def)
  then show ?thesis by (simp add: getblk_gen_def getblk_round_def loopk_numeral retk_def t_def)
qed

lemma flush_buffer_clean: "b < length (bufs s) \<Longrightarrow> b_dirt (bufs s ! b) = 0 \<Longrightarrow> flush_buffer sync b s = Ok False s"
  by (simp add: flush_buffer_def loopk_numeral kdefs)

text \<open>A miss: the least recently appended unused clean buffer is taken over.\<close>

lemma getblk_miss:
  assumes r: "cache_rel s hs fl" and d: "0 < dev" "dev < 2 ^ 16"
    and new: "\<And>x. x < length (bufs s) \<Longrightarrow> \<not> bh_is dev block (bufs s ! x)"
    and clean: "\<exists>x < length (bufs s). b_count (bufs s ! x) = 0 \<and> b_dirt (bufs s ! x) = 0 \<and> b_lock (bufs s ! x) = 0"
  shows "\<exists>b t hs'. getblk_gen sync dev block s = Ok b t \<and> pick_spec s None fl = Some b \<and> b < length (bufs s) \<and>
    b_count (bufs s ! b) = 0 \<and> b_dirt (bufs s ! b) = 0 \<and> b_lock (bufs s ! b) = 0 \<and>
    cache_rel t hs' (remove1 b fl @ [b]) \<and> (\<exists>bs ht q. t = s\<lparr>bufs := bs, hash_table := ht, free_list := q\<rparr>) \<and>
    map strip (bufs t) = (map strip (bufs s))[b := strip ((bufs s ! b)\<lparr>b_count := 1, b_dirt := 0, b_uptodate := 0,
      b_dev := word_of_int dev, b_blocknr := word_of_int block\<rparr>)]"
proof -
  have c: "cache_ok s" and fl: "set fl = {..<length (bufs s)}" using r by (auto simp: cache_ok_def cache_rel_def)
  from find_buffer_complete [OF c d, of block] new have f: "find_buffer dev block s = Ok None s"
    by (auto split: option.splits)
  then have gh: "get_hash_table dev block s = Ok None s" by (simp add: get_hash_table_def loopk_numeral retk_def)
  obtain x where x: "x < length (bufs s)" "b_count (bufs s ! x) = 0" "b_dirt (bufs s ! x) = 0" "b_lock (bufs s ! x) = 0"
    using clean by blast
  then have "pick_spec s None fl \<noteq> None" using fl by (auto simp: pick_spec_None)
  then obtain b where pb: "pick_spec s None fl = Some b" by blast
  from pick_spec_Some [OF pb] fl x have b: "b < length (bufs s)" "b_count (bufs s ! b) = 0"
    "BADNESS (bufs s ! b) \<le> BADNESS (bufs s ! x)" by auto
  then have bc: "b_dirt (bufs s ! b) = 0" "b_lock (bufs s ! b) = 0"
    using x by (simp_all add: BADNESS_def unat_eq_zero)
  from d have "0 \<le> dev" by simp
  from claim_buffer_refines [OF r b(1) new this d(2)] obtain t hs' where
    t: "claim_buffer dev block b s = Ok () t" "cache_rel t hs' (remove1 b fl @ [b])"
    "\<exists>bs ht q. t = s\<lparr>bufs := bs, hash_table := ht, free_list := q\<rparr>"
    "map strip (bufs t) = (map strip (bufs s))[b := strip ((bufs s ! b)\<lparr>b_count := 1, b_dirt := 0, b_uptodate := 0,
      b_dev := word_of_int dev, b_blocknr := word_of_int block\<rparr>)]" by blast
  note fb = flush_buffer_clean [OF b(1) bc(1), of sync] wait_on_buffer_free [OF b(1) bc(2)]
  have "getblk_round sync dev block s = Ok (Inr b) t"
    using b bc by (simp add: getblk_round_def gh f fb t(1) pick_buffer_eq [OF r] pb get_bh_def retk_def)
  then have "getblk_gen sync dev block s = Ok b t" by (simp add: getblk_gen_def loopk_numeral retk_def)
  then show ?thesis using pb b bc t by blast
qed

text \<open>No unused buffer: the caller waits.\<close>

lemma getblk_full:
  assumes r: "cache_rel s hs fl" and d: "0 < dev" "dev < 2 ^ 16"
    and new: "\<And>x. x < length (bufs s) \<Longrightarrow> \<not> bh_is dev block (bufs s ! x)"
    and full: "\<And>x. x < length (bufs s) \<Longrightarrow> b_count (bufs s ! x) \<noteq> 0"
    and sl: "sleep_on WBufferWait s = Sleep u k"
  shows "\<exists>k'. getblk_gen sync dev block s = Sleep u k'"
proof -
  have c: "cache_ok s" and fl: "set fl = {..<length (bufs s)}" using r by (auto simp: cache_ok_def cache_rel_def)
  from find_buffer_complete [OF c d, of block] new have f: "find_buffer dev block s = Ok None s"
    by (auto split: option.splits)
  then have gh: "get_hash_table dev block s = Ok None s" by (simp add: get_hash_table_def loopk_numeral retk_def)
  have "pick_spec s None fl = None" using fl full by (auto simp: pick_spec_None)
  then show ?thesis using gh pick_buffer_eq [OF r] sl
    by (simp add: getblk_gen_def getblk_round_def loopk_numeral bindk_def)
qed

section \<open>The logical content of a block\<close>

text \<open>The content of block \<open>n\<close> of the ram disk (device 0x101) as the kernel sees it: that of an
  up-to-date buffer if there is one, else that on the disk.\<close>

abbreviation "RD \<equiv> (0x101 :: int)"

definition cached :: "kstate \<Rightarrow> nat \<Rightarrow> nat option" where
  "cached s n = List.find (\<lambda>b. bh_is RD (int n) (bufs s ! b) \<and> b_uptodate (bufs s ! b) \<noteq> 0) [0..<length (bufs s)]"

definition view :: "kstate \<Rightarrow> nat \<Rightarrow> u8 list" where
  "view s n = (case cached s n of Some b \<Rightarrow> b_data (bufs s ! b) | None \<Rightarrow> rd_content s n)"

text \<open>A clean up-to-date buffer holds what is on the disk.\<close>

definition coherent :: "kstate \<Rightarrow> bool" where
  "coherent s \<longleftrightarrow> (\<forall>b < length (bufs s). \<forall>n < rd_blocks s. bh_is RD (int n) (bufs s ! b) \<longrightarrow>
     b_uptodate (bufs s ! b) \<noteq> 0 \<longrightarrow> b_dirt (bufs s ! b) = 0 \<longrightarrow> b_data (bufs s ! b) = rd_content s n)"

definition fs_ok :: "kstate \<Rightarrow> bool" where
  "fs_ok s \<longleftrightarrow> cache_ok s \<and> blk_ok s \<and> coherent s \<and> (\<forall>b < length (bufs s). b_lock (bufs s ! b) = 0) \<and> rd_length s < 2 ^ 60"

text \<open>The unused clean buffers.\<close>

definition room :: "kstate \<Rightarrow> nat set" where
  "room s = {b. b < length (bufs s) \<and> b_count (bufs s ! b) = 0 \<and> b_dirt (bufs s ! b) = 0}"

lemma unique_RD:
  assumes "cache_ok s" "b < length (bufs s)" "c < length (bufs s)" "bh_is RD n (bufs s ! b)" "bh_is RD n (bufs s ! c)"
  shows "b = c"
proof -
  have "unique_blocks s" using assms(1) by (auto simp: cache_ok_def cache_rel_def)
  moreover have "b_dev (bufs s ! b) = b_dev (bufs s ! c)" "b_blocknr (bufs s ! b) = b_blocknr (bufs s ! c)" "b_dev (bufs s ! b) \<noteq> 0"
    using assms(4,5) by (auto simp: bh_is_def word_uint_eq_iff)
  ultimately show ?thesis using assms(2,3) unfolding unique_blocks_def by blast
qed

lemma view_cached:
  assumes "cache_ok s" "b < length (bufs s)" "bh_is RD (int n) (bufs s ! b)" "b_uptodate (bufs s ! b) \<noteq> 0"
  shows "view s n = b_data (bufs s ! b)"
proof (cases "cached s n")
  case None
  then have "\<not> (bh_is RD (int n) (bufs s ! b) \<and> b_uptodate (bufs s ! b) \<noteq> 0)"
    using assms(2) unfolding cached_def find_None_iff by simp
  with assms show ?thesis by simp
next
  case (Some c)
  then have "c < length (bufs s)" "bh_is RD (int n) (bufs s ! c)" by (auto simp: cached_def find_Some_iff)
  with unique_RD [OF assms(1,2) _ assms(3)] have "b = c" by blast
  with Some show ?thesis by (simp add: view_def)
qed

lemma view_uncached:
  assumes "\<And>b. b < length (bufs s) \<Longrightarrow> bh_is RD (int n) (bufs s ! b) \<Longrightarrow> b_uptodate (bufs s ! b) = 0"
  shows "view s n = rd_content s n"
proof -
  have "cached s n = None" using assms unfolding cached_def find_None_iff by auto
  then show ?thesis by (simp add: view_def)
qed

lemma bh_is_RD_inj: "bh_is RD (int n) h \<Longrightarrow> bh_is RD (int m) h \<Longrightarrow> n < 2 ^ 60 \<Longrightarrow> m < 2 ^ 60 \<Longrightarrow> n = m"
proof -
  assume a: "bh_is RD (int n) h" "bh_is RD (int m) h" "n < 2 ^ 60" "m < 2 ^ 60"
  then have "(word_of_nat n :: ulong) = word_of_nat m" by (simp add: bh_is_def)
  then have "take_bit 64 n = take_bit 64 m" by (simp add: word_of_nat_eq_iff)
  with a(3,4) show ?thesis by (simp add: take_bit_nat_eq_self)
qed

lemma rd_blocks_60: "rd_length s < 2 ^ 60 \<Longrightarrow> n < rd_blocks s \<Longrightarrow> n < 2 ^ 50"
  using rd_blocks_bound [of n s] by simp

text \<open>What a cache operation may change: everything else of the state is the same, and a task is at most woken.\<close>

definition cache_frame :: "kstate \<Rightarrow> kstate \<Rightarrow> bool" where
  "cache_frame s t \<longleftrightarrow> (\<exists>bs ht q ts rq bd rm. woken (tasks s) ts \<and> t = s\<lparr>bufs := bs, hash_table := ht, free_list := q,
     tasks := ts, request := rq, blk_dev := bd, rd_mem := rm\<rparr>)"

lemma cache_frameI: "t = s\<lparr>bufs := bs, hash_table := ht, free_list := q,
     tasks := ts, request := rq, blk_dev := bd, rd_mem := rm\<rparr> \<Longrightarrow> woken (tasks s) ts \<Longrightarrow> cache_frame s t"
  unfolding cache_frame_def by blast

lemma cache_frame_trans: "cache_frame s t \<Longrightarrow> cache_frame t u \<Longrightarrow> cache_frame s u"
proof -
  assume "cache_frame s t" "cache_frame t u"
  then obtain bs ht q ts rq bd rm bs' ht' q' ts' rq' bd' rm' where
    "t = s\<lparr>bufs := bs, hash_table := ht, free_list := q, tasks := ts, request := rq, blk_dev := bd, rd_mem := rm\<rparr>" "woken (tasks s) ts" "woken (tasks t) ts'"
    "u = t\<lparr>bufs := bs', hash_table := ht', free_list := q', tasks := ts', request := rq', blk_dev := bd', rd_mem := rm'\<rparr>"
    unfolding cache_frame_def by blast
  then have "u = s\<lparr>bufs := bs', hash_table := ht', free_list := q', tasks := ts', request := rq', blk_dev := bd', rd_mem := rm'\<rparr>" "woken (tasks s) ts'"
    by (simp_all add: woken_trans [of _ ts])
  then show ?thesis by (rule cache_frameI)
qed

lemma cache_frame_bufs: "cache_frame s (s\<lparr>bufs := bs, hash_table := ht, free_list := q\<rparr>)"
  by (rule cache_frameI [where bs = bs and ht = ht and q = q and ts = "tasks s" and rq = "request s"
        and bd = "blk_dev s" and rm = "rd_mem s"]) simp_all

lemma cache_frame_transfer: "transfer rw b s t \<Longrightarrow> cache_frame s t"
proof -
  assume "transfer rw b s t"
  then obtain bs ts rq bd rm where "t = s\<lparr>bufs := bs, tasks := ts, request := rq, blk_dev := bd, rd_mem := rm\<rparr>" and w: "woken (tasks s) ts"
    unfolding transfer_def by blast
  then have "t = s\<lparr>bufs := bs, hash_table := hash_table s, free_list := free_list s, tasks := ts, request := rq,
    blk_dev := bd, rd_mem := rm\<rparr>" by simp
  from this w show ?thesis by (rule cache_frameI)
qed

text \<open>A block the disk has, in an unlocked buffer that is not up to date: the read delivers it.\<close>

lemma fill_buffer:
  assumes ok: "fs_ok s" and n: "n < rd_blocks s" and b: "b < length (bufs s)" "bh_is RD (int n) (bufs s ! b)"
    and u: "b_uptodate (bufs s ! b) = 0"
  shows "\<exists>t. ll_rw_block READ b s = Ok () t \<and> fs_ok t \<and> cache_frame s t \<and> rd_blocks t = rd_blocks s \<and> rd_content t = rd_content s \<and>
    bufs t = (bufs s)[b := (bufs s ! b)\<lparr>b_data := rd_content s n, b_uptodate := 1, b_dirt := 0\<rparr>]"
proof -
  have n50: "n < 2 ^ 50" using rd_blocks_60 [OF _ n] ok by (simp add: fs_ok_def)
  then have un: "unat (b_blocknr (bufs s ! b)) = n"
    using b(2) by (simp add: bh_is_def unsigned_of_nat take_bit_nat_eq_self)
  have "length (b_data (bufs s ! b)) = BLOCK_SIZE" using ok b(1) by (auto simp: fs_ok_def cache_ok_def cache_rel_def)
  moreover have "b_dev (bufs s ! b) = 0x101" using b(2) by (simp add: bh_is_def word_uint_eq_iff)
  moreover have "b_blocknr (bufs s ! b) < 2 ^ 54" using un n50 by (simp add: word_less_nat_alt)
  ultimately have io: "io_buf s b" using ok b(1) by (simp add: fs_ok_def io_buf_def)
  have bo: "blk_ok s" using ok by (simp add: fs_ok_def)
  obtain t where t: "ll_rw_block READ b s = Ok () t" "transfer READ b s t"
    using ll_rw_block_transfer [OF bo io] u by blast
  have tb: "bufs t = (bufs s)[b := (bufs s ! b)\<lparr>b_data := rd_content s n, b_uptodate := 1, b_dirt := 0\<rparr>]"
    "rd_length t = rd_length s" "blk_ok t" "rd_mem t = rd_mem s"
    using transfer_bufs [OF t(2) io] n un by (simp_all add: io_disk_def Let_def)
  have rc: "rd_content t = rd_content s" by (rule rd_content_cong [OF tb(4)])
  have "keeps cache_ok (ll_rw_block READ b)" by (rule cache.keeps_ll_rw_block)
  then have "cache_ok t" using t(1) ok keepsD by (fastforce simp: fs_ok_def)
  moreover have "coherent t"
    unfolding coherent_def
  proof (intro allI impI)
    fix c m assume a: "c < length (bufs t)" "m < rd_blocks t" "bh_is RD (int m) (bufs t ! c)" "b_uptodate (bufs t ! c) \<noteq> 0"
      "b_dirt (bufs t ! c) = 0"
    have mb: "m < rd_blocks s" using a(2) tb(2) by (simp add: rd_blocks_def)
    show "b_data (bufs t ! c) = rd_content t m"
    proof (cases "c = b")
      case True
      then have "bh_is RD (int m) (bufs s ! b)" using a(3) b(1) by (simp add: tb(1) bh_is_def)
      then have "m = n" using bh_is_RD_inj [OF _ b(2)] rd_blocks_60 [of s m] mb ok n50 by (simp add: fs_ok_def)
      then show ?thesis using True b(1) by (simp add: tb(1) rc)
    next
      case False
      then show ?thesis using a ok mb by (simp add: tb(1) rc fs_ok_def coherent_def)
    qed
  qed
  moreover have "\<forall>c < length (bufs t). b_lock (bufs t ! c) = 0" using ok b(1) by (auto simp: tb(1) nth_list_update fs_ok_def)
  ultimately have "fs_ok t" using tb(2,3) ok by (simp add: fs_ok_def)
  then show ?thesis using t(1) tb rc cache_frame_transfer [OF t(2)] by (auto simp: rd_blocks_def)
qed

lemma fill_view:
  assumes ok: "fs_ok s" "fs_ok t" and n: "n < rd_blocks s" and b: "b < length (bufs s)" "bh_is RD (int n) (bufs s ! b)"
    and u: "b_uptodate (bufs s ! b) = 0" and c: "rd_content t = rd_content s" and m: "m < rd_blocks s"
    and t: "bufs t = (bufs s)[b := (bufs s ! b)\<lparr>b_data := rd_content s n, b_uptodate := 1, b_dirt := 0\<rparr>]"
  shows "view t m = view s m"
proof -
  have co: "cache_ok s" "cache_ok t" using ok by (simp_all add: fs_ok_def)
  have n60: "n < 2 ^ 60" "m < 2 ^ 60" using rd_blocks_60 [OF _ n] rd_blocks_60 [OF _ m] ok by (simp_all add: fs_ok_def)
  show ?thesis
  proof (cases "m = n")
    case True
    have "view s n = rd_content s n"
      by (rule view_uncached) (metis unique_RD [OF co(1) b(1) _ b(2)] u)
    moreover have "view t n = b_data (bufs t ! b)"
      by (rule view_cached [OF co(2)]) (use b in \<open>simp_all add: t bh_is_def\<close>)
    ultimately show ?thesis using True b(1) by (simp add: t)
  next
    case mn: False
    have nb: "\<not> bh_is RD (int m) (bufs s ! b)" using bh_is_RD_inj [OF b(2) _ n60] mn by blast
    have same: "bufs t ! x = bufs s ! x" if "x \<noteq> b" for x using that by (simp add: t)
    have tb: "\<not> bh_is RD (int m) (bufs t ! b)" using nb b(1) by (simp add: t bh_is_def)
    show ?thesis
    proof (cases "\<exists>x < length (bufs s). bh_is RD (int m) (bufs s ! x) \<and> b_uptodate (bufs s ! x) \<noteq> 0")
      case True
      then obtain x where x: "x < length (bufs s)" "bh_is RD (int m) (bufs s ! x)" "b_uptodate (bufs s ! x) \<noteq> 0" by blast
      then have "x \<noteq> b" using nb by blast
      then show ?thesis using view_cached [OF co(1) x] view_cached [OF co(2), of x m] x same [of x] by (simp add: t)
    next
      case False
      have "view s m = rd_content s m" by (rule view_uncached) (use False in blast)
      moreover have "view t m = rd_content t m"
        by (rule view_uncached) (use False same tb in \<open>metis length_list_update t\<close>)
      ultimately show ?thesis by (simp add: c)
    qed
  qed
qed

text \<open>Changing the use count of a buffer changes neither content nor coherence.\<close>

lemma count_step:
  assumes ok: "fs_ok s" and t: "t = s\<lparr>bufs := (bufs s)[b := (bufs s ! b)\<lparr>b_count := c\<rparr>]\<rparr>" and b: "b < length (bufs s)"
  shows "fs_ok t" "view t m = view s m" "rd_blocks t = rd_blocks s" "cache_frame s t"
proof -
  have same: "bh_is d k (bufs t ! x) = bh_is d k (bufs s ! x)" "b_uptodate (bufs t ! x) = b_uptodate (bufs s ! x)"
    "b_data (bufs t ! x) = b_data (bufs s ! x)" "b_dirt (bufs t ! x) = b_dirt (bufs s ! x)" "b_lock (bufs t ! x) = b_lock (bufs s ! x)" for x d k
    using b by (auto simp: t nth_list_update bh_is_def)
  have len: "length (bufs t) = length (bufs s)" by (simp add: t)
  have rc: "rd_content t = rd_content s" by (rule rd_content_cong) (simp add: t)
  have "data_step s t" unfolding t by (rule data_step_upd [where f = "\<lambda>h. h\<lparr>b_count := c\<rparr>"]) simp
  then have "cache_ok t" using ok cache_ok_data_step by (auto simp: fs_ok_def)
  moreover show rb: "rd_blocks t = rd_blocks s" by (simp add: t rd_blocks_def)
  moreover have "blk_ok t" using ok by (simp add: fs_ok_def t blk_ok_def)
  ultimately show "fs_ok t" using ok by (simp add: fs_ok_def coherent_def same len rc) (simp add: t)
  show "view t m = view s m" by (simp add: view_def cached_def same len rc split: option.splits)
  show "cache_frame s t" unfolding t using cache_frame_bufs [where s = s and ht = "hash_table s" and q = "free_list s"] by simp
qed

lemma claim_step:
  assumes ok: "fs_ok s" and n: "n < rd_blocks s" and t: "cache_ok t" "t = s\<lparr>bufs := bs, hash_table := ht, free_list := q\<rparr>"
    and ms: "map strip (bufs t) = (map strip (bufs s))[b := strip ((bufs s ! b)\<lparr>b_count := 1, b_dirt := 0, b_uptodate := 0,
      b_dev := word_of_int RD, b_blocknr := word_of_int (int n)\<rparr>)]"
    and b: "b < length (bufs s)" "b_dirt (bufs s ! b) = 0"
  shows "fs_ok t" "length (bufs t) = length (bufs s)" "bh_is RD (int n) (bufs t ! b)" "b_uptodate (bufs t ! b) = 0"
    "b_count (bufs t ! b) = 1" "x \<noteq> b \<Longrightarrow> x < length (bufs s) \<Longrightarrow> strip (bufs t ! x) = strip (bufs s ! x)"
    "m < rd_blocks s \<Longrightarrow> view t m = view s m"
proof -
  let ?h = "(bufs s ! b)\<lparr>b_count := 1, b_dirt := 0, b_uptodate := 0, b_dev := word_of_int RD, b_blocknr := word_of_int (int n)\<rparr>"
  show len: "length (bufs t) = length (bufs s)" using ms by (metis length_list_update length_map)
  have st: "strip (bufs t ! x) = (if x = b then strip ?h else strip (bufs s ! x))" if "x < length (bufs s)" for x
    using ms that b len by (metis (no_types, lifting) length_map nth_list_update nth_map)
  show oth: "x \<noteq> b \<Longrightarrow> x < length (bufs s) \<Longrightarrow> strip (bufs t ! x) = strip (bufs s ! x)" for x using st by simp
  have fb: "b_dev (bufs t ! b) = word_of_int RD" "b_blocknr (bufs t ! b) = word_of_int (int n)" "b_lock (bufs t ! b) = b_lock (bufs s ! b)"
    "b_uptodate (bufs t ! b) = 0" "b_count (bufs t ! b) = 1"
    using arg_cong [OF st [OF b(1)], of b_dev] arg_cong [OF st [OF b(1)], of b_blocknr] arg_cong [OF st [OF b(1)], of b_lock]
      arg_cong [OF st [OF b(1)], of b_uptodate] arg_cong [OF st [OF b(1)], of b_count] by simp_all
  show "bh_is RD (int n) (bufs t ! b)" "b_uptodate (bufs t ! b) = 0" "b_count (bufs t ! b) = 1"
    using fb by (simp_all add: bh_is_def)
  have fo: "bh_is d k (bufs t ! x) = bh_is d k (bufs s ! x)" "b_uptodate (bufs t ! x) = b_uptodate (bufs s ! x)"
    "b_data (bufs t ! x) = b_data (bufs s ! x)" "b_dirt (bufs t ! x) = b_dirt (bufs s ! x)" "b_lock (bufs t ! x) = b_lock (bufs s ! x)"
    if "x \<noteq> b" "x < length (bufs s)" for x d k
    using arg_cong [OF oth [OF that], of b_dev] arg_cong [OF oth [OF that], of b_blocknr] arg_cong [OF oth [OF that], of b_lock]
      arg_cong [OF oth [OF that], of b_uptodate] arg_cong [OF oth [OF that], of b_data] arg_cong [OF oth [OF that], of b_dirt]
    by (simp_all add: bh_is_def)
  have rc: "rd_content t = rd_content s" by (rule rd_content_cong) (simp add: t(2))
  have rb: "rd_blocks t = rd_blocks s" by (simp add: t(2) rd_blocks_def)
  have "blk_ok t" using ok by (simp add: fs_ok_def t(2) blk_ok_def)
  moreover have "coherent t"
    unfolding coherent_def
  proof (intro allI impI)
    fix x k assume a: "x < length (bufs t)" "k < rd_blocks t" "bh_is RD (int k) (bufs t ! x)" "b_uptodate (bufs t ! x) \<noteq> 0" "b_dirt (bufs t ! x) = 0"
    then have "x \<noteq> b" using fb(4) by auto
    with a ok fo [of x] show "b_data (bufs t ! x) = rd_content t k" by (simp add: fs_ok_def coherent_def len rb rc)
  qed
  moreover have "\<forall>x < length (bufs t). b_lock (bufs t ! x) = 0" using ok fo(5) fb(3) b(1) unfolding len fs_ok_def by metis
  moreover have "rd_length t = rd_length s" by (simp add: t(2))
  ultimately show "fs_ok t" using ok t(1) by (simp add: fs_ok_def)
  have co: "cache_ok s" "coherent s" using ok by (simp_all add: fs_ok_def)
  show "view t m = view s m" if m: "m < rd_blocks s"
  proof (cases "\<exists>x < length (bufs s). x \<noteq> b \<and> bh_is RD (int m) (bufs s ! x) \<and> b_uptodate (bufs s ! x) \<noteq> 0")
    case True
    then obtain x where x: "x < length (bufs s)" "x \<noteq> b" "bh_is RD (int m) (bufs s ! x)" "b_uptodate (bufs s ! x) \<noteq> 0" by blast
    then show ?thesis using view_cached [OF co(1) x(1,3,4)] view_cached [OF t(1), of x m] fo [OF x(2,1)] len by simp
  next
    case False
    have "view t m = rd_content t m"
    proof (rule view_uncached)
      fix x assume "x < length (bufs t)" "bh_is RD (int m) (bufs t ! x)"
      then show "b_uptodate (bufs t ! x) = 0" using False fo [of x] fb(4) len by (cases "x = b") auto
    qed
    moreover have "view s m = rd_content s m"
    proof (cases "bh_is RD (int m) (bufs s ! b) \<and> b_uptodate (bufs s ! b) \<noteq> 0")
      case True
      then show ?thesis using view_cached [OF co(1) b(1)] co(2) b m by (simp add: coherent_def)
    next
      case nb: False
      show ?thesis by (rule view_uncached) (use False nb in blast)
    qed
    ultimately show ?thesis by (simp add: rc)
  qed
qed

section \<open>bread and brelse\<close>

definition reads :: "kstate \<Rightarrow> nat \<Rightarrow> nat \<Rightarrow> kstate \<Rightarrow> bool" where
  "reads s n b t \<longleftrightarrow> fs_ok t \<and> cache_frame s t \<and> rd_blocks t = rd_blocks s \<and> length (bufs t) = length (bufs s) \<and> b < length (bufs t) \<and>
     bh_is RD (int n) (bufs t ! b) \<and> b_uptodate (bufs t ! b) \<noteq> 0 \<and> b_data (bufs t ! b) = view s n \<and>
     (\<forall>m < rd_blocks s. view t m = view s m) \<and>
     (\<forall>x < length (bufs s). x \<noteq> b \<longrightarrow> b_count (bufs t ! x) = b_count (bufs s ! x) \<and> b_dirt (bufs t ! x) = b_dirt (bufs s ! x)) \<and>
     (b_dirt (bufs t ! b) = b_dirt (bufs s ! b) \<or> b_dirt (bufs t ! b) = 0) \<and>
     (b_count (bufs t ! b) = 1 \<or> bh_is RD (int n) (bufs s ! b) \<and> b_count (bufs t ! b) = b_count (bufs s ! b) + 1)"

lemma bread_fill:
  assumes gb: "getblk_gen sync RD (int n) s = Ok b t" and ok: "fs_ok t" and n: "n < rd_blocks t"
    and b: "b < length (bufs t)" "bh_is RD (int n) (bufs t ! b)" and u: "b_uptodate (bufs t ! b) = 0"
  shows "\<exists>v. bread_gen sync RD (int n) s = Ok (Some b) v \<and> fs_ok v \<and> cache_frame t v \<and> rd_blocks v = rd_blocks t \<and>
    (\<forall>m < rd_blocks t. view v m = view t m) \<and> b_data (bufs v ! b) = view t n \<and>
    bufs v = (bufs t)[b := (bufs t ! b)\<lparr>b_data := view t n, b_uptodate := 1, b_dirt := 0\<rparr>]"
proof -
  obtain v where v: "ll_rw_block READ b t = Ok () v" "fs_ok v" "cache_frame t v" "rd_blocks v = rd_blocks t" "rd_content v = rd_content t"
    "bufs v = (bufs t)[b := (bufs t ! b)\<lparr>b_data := rd_content t n, b_uptodate := 1, b_dirt := 0\<rparr>]"
    using fill_buffer [OF ok n b u] by blast
  have vw: "view v m = view t m" if "m < rd_blocks t" for m
    by (rule fill_view [OF ok v(2) n b u v(5) that v(6)])
  have "cache_ok v" using v(2) by (simp add: fs_ok_def)
  then have "view v n = rd_content t n"
    using view_cached [of v b n] b by (simp add: v(6) bh_is_def)
  then have c: "rd_content t n = view t n" using vw [OF n] by simp
  have "wait_on_buffer b v = Ok () v"
    by (rule wait_on_buffer_free) (use b v(6) ok in \<open>simp_all add: fs_ok_def\<close>)
  then have "bread_gen sync RD (int n) s = Ok (Some b) v"
    using gb v(1) u b(1) by (simp add: bread_gen_def get_bh_def retk_def v(6))
  then show ?thesis using v vw b(1) by (auto simp: c)
qed

text \<open>\<open>bread\<close> of a block of the disk, when the block is cached or some buffer can be had.\<close>

lemma bread_reads:
  assumes ok: "fs_ok s" and n: "n < rd_blocks s"
    and av: "(\<exists>b < length (bufs s). bh_is RD (int n) (bufs s ! b)) \<or> room s \<noteq> {}"
  shows "\<exists>b t. bread_gen sync RD (int n) s = Ok (Some b) t \<and> reads s n b t"
proof (cases "\<exists>b < length (bufs s). bh_is RD (int n) (bufs s ! b)")
  case True
  then obtain b where b: "b < length (bufs s)" "bh_is RD (int n) (bufs s ! b)" by blast
  define t where "t = s\<lparr>bufs := (bufs s)[b := (bufs s ! b)\<lparr>b_count := b_count (bufs s ! b) + 1\<rparr>]\<rparr>"
  have gb: "getblk_gen sync RD (int n) s = Ok b t"
    unfolding t_def by (rule getblk_hit) (use ok b in \<open>simp_all add: fs_ok_def\<close>)
  note st = count_step [OF ok t_def b(1)]
  have tb: "b < length (bufs t)" "bh_is RD (int n) (bufs t ! b)" using b by (simp_all add: t_def bh_is_def)
  show ?thesis
  proof (cases "b_uptodate (bufs s ! b) = 0")
    case False
    then have "bread_gen sync RD (int n) s = Ok (Some b) t"
      using gb b(1) by (simp add: bread_gen_def get_bh_def t_def retk_def)
    moreover have "b_data (bufs s ! b) = view s n"
      by (rule view_cached [symmetric]) (use ok b False in \<open>simp_all add: fs_ok_def\<close>)
    then have "reads s n b t" using st tb b False by (auto simp: reads_def t_def)
    ultimately show ?thesis by blast
  next
    case True
    then have "b_uptodate (bufs t ! b) = 0" using b(1) by (simp add: t_def)
    from bread_fill [OF gb st(1) _ tb this] n st obtain v where
      v: "bread_gen sync RD (int n) s = Ok (Some b) v" "fs_ok v" "cache_frame t v" "rd_blocks v = rd_blocks s"
      "\<forall>m < rd_blocks s. view v m = view s m" "b_data (bufs v ! b) = view s n"
      "bufs v = (bufs t)[b := (bufs t ! b)\<lparr>b_data := view s n, b_uptodate := 1, b_dirt := 0\<rparr>]" by auto
    have "cache_frame s v" by (rule cache_frame_trans [OF st(4) v(3)])
    moreover have "bufs v = (bufs s)[b := (bufs s ! b)\<lparr>b_count := b_count (bufs s ! b) + 1, b_data := view s n, b_uptodate := 1, b_dirt := 0\<rparr>]"
      using b(1) by (simp add: v(7) t_def)
    ultimately have "reads s n b v" unfolding reads_def using v(2,4,5) b by (auto simp: bh_is_def)
    then show ?thesis using v(1) by blast
  qed
next
  case False
  then obtain x where x: "x \<in> room s" using av by blast
  obtain hs fl where r: "cache_rel s hs fl" using ok by (auto simp: fs_ok_def cache_ok_def)
  have free: "\<exists>x < length (bufs s). b_count (bufs s ! x) = 0 \<and> b_dirt (bufs s ! x) = 0 \<and> b_lock (bufs s ! x) = 0"
    using x ok by (auto simp: room_def fs_ok_def)
  have nw: "\<not> bh_is RD (int n) (bufs s ! x)" if "x < length (bufs s)" for x using False that by blast
  have dd: "0 < RD" "RD < 2 ^ 16" by simp_all
  obtain b t hs' bs ht q where gb: "getblk_gen sync RD (int n) s = Ok b t"
    and b: "b < length (bufs s)" "b_dirt (bufs s ! b) = 0" and ct: "cache_rel t hs' (remove1 b fl @ [b])"
    and t: "t = s\<lparr>bufs := bs, hash_table := ht, free_list := q\<rparr>"
    and ms: "map strip (bufs t) = (map strip (bufs s))[b := strip ((bufs s ! b)\<lparr>b_count := 1, b_dirt := 0, b_uptodate := 0,
      b_dev := word_of_int RD, b_blocknr := word_of_int (int n)\<rparr>)]"
    using getblk_miss [OF r dd nw free, of sync] by blast
  have ctk: "cache_ok t" using ct by (auto simp: cache_ok_def)
  note st = claim_step [OF ok n ctk t ms b]
  have rb: "rd_blocks t = rd_blocks s" by (simp add: t rd_blocks_def)
  have tb: "b < length (bufs t)" "n < rd_blocks t" using b st(2) n rb by simp_all
  from bread_fill [OF gb st(1) tb(2,1) st(3,4)] obtain v where
    v: "bread_gen sync RD (int n) s = Ok (Some b) v" "fs_ok v" "cache_frame t v" "rd_blocks v = rd_blocks t"
    "\<forall>m < rd_blocks t. view v m = view t m" "b_data (bufs v ! b) = view t n"
    "bufs v = (bufs t)[b := (bufs t ! b)\<lparr>b_data := view t n, b_uptodate := 1, b_dirt := 0\<rparr>]" by blast
  have cf: "cache_frame s v" using cache_frame_trans [OF _ v(3)] cache_frame_bufs t by metis
  have vw: "view t m = view s m" if "m < rd_blocks s" for m by (rule st(7) [OF that])
  have oth: "b_count (bufs v ! x) = b_count (bufs s ! x) \<and> b_dirt (bufs v ! x) = b_dirt (bufs s ! x)"
    if "x < length (bufs s)" "x \<noteq> b" for x
    using arg_cong [OF st(6) [OF that(2,1)], of b_count] arg_cong [OF st(6) [OF that(2,1)], of b_dirt] that by (simp add: v(7))
  have "reads s n b v" unfolding reads_def
    using v(2,4-7) cf rb vw [OF n] vw oth st(2,3,5) b(1) by (auto simp: bh_is_def)
  then show ?thesis using v(1) by blast
qed

lemma brelse_eq:
  assumes ok: "fs_ok s" and b: "b < length (bufs s)" "b_count (bufs s ! b) \<noteq> 0"
  shows "\<exists>t. brelse (Some b) s = Ok () t \<and> fs_ok t \<and> cache_frame s t \<and> rd_blocks t = rd_blocks s \<and>
    bufs t = (bufs s)[b := (bufs s ! b)\<lparr>b_count := b_count (bufs s ! b) - 1\<rparr>] \<and> (\<forall>m. view t m = view s m)"
proof -
  define u where "u = s\<lparr>bufs := (bufs s)[b := (bufs s ! b)\<lparr>b_count := b_count (bufs s ! b) - 1\<rparr>]\<rparr>"
  note st = count_step [OF ok u_def b(1)]
  define t where "t = u\<lparr>tasks := wake (buffer_wait s) (tasks s)\<rparr>"
  have "wait_on_buffer b s = Ok () s" by (rule wait_on_buffer_free) (use ok b in \<open>simp_all add: fs_ok_def\<close>)
  then have "brelse (Some b) s = Ok () t"
    using b by (simp add: brelse_def get_bh_def upd_bh_def wake_up_eq t_def u_def)
  moreover have "data_step u t" by (rule data_step_other) (simp_all add: t_def)
  then have "cache_ok t" using st(1) cache_ok_data_step by (auto simp: fs_ok_def)
  then have "fs_ok t" using st(1) by (simp add: fs_ok_def blk_ok_def coherent_def rd_blocks_def rd_content_def t_def)
  moreover have "cache_frame u t"
    by (rule cache_frameI [where bs = "bufs u" and ht = "hash_table u" and q = "free_list u" and ts = "tasks t"
          and rq = "request u" and bd = "blk_dev u" and rm = "rd_mem u"]) (simp_all add: t_def u_def)
  then have "cache_frame s t" by (rule cache_frame_trans [OF st(4)])
  moreover have "view t m = view u m" for m by (simp add: view_def cached_def t_def rd_content_def split: option.splits)
  ultimately show ?thesis using st(2,3) by (intro exI [of _ t]) (simp add: t_def u_def rd_blocks_def)
qed

text \<open>Storing new data into an up-to-date buffer and marking it dirty changes exactly that block.\<close>

lemma view_write:
  assumes ok: "fs_ok s" and n: "n < rd_blocks s" and b: "b < length (bufs s)" "bh_is RD (int n) (bufs s ! b)"
    and len: "length bs = BLOCK_SIZE" and d: "d \<noteq> 0" "u \<noteq> 0"
    and t: "t = s\<lparr>bufs := (bufs s)[b := (bufs s ! b)\<lparr>b_data := bs, b_dirt := d, b_uptodate := u\<rparr>]\<rparr>"
  shows "fs_ok t" "view t n = bs" "m < rd_blocks s \<Longrightarrow> m \<noteq> n \<Longrightarrow> view t m = view s m" "rd_blocks t = rd_blocks s" "cache_frame s t"
proof -
  have co: "cache_ok s" using ok by (simp add: fs_ok_def)
  have sz: "length (b_data (bufs s ! b)) = BLOCK_SIZE" using co b(1) by (auto simp: cache_ok_def cache_rel_def)
  have n60: "n < 2 ^ 60" using rd_blocks_60 [OF _ n] ok by (simp add: fs_ok_def)
  have lt: "length (bufs t) = length (bufs s)" by (simp add: t)
  have same: "bufs t ! x = bufs s ! x" if "x \<noteq> b" for x using that by (simp add: t)
  have tb: "bufs t ! b = (bufs s ! b)\<lparr>b_data := bs, b_dirt := d, b_uptodate := u\<rparr>" using b(1) by (simp add: t)
  have rc: "rd_content t = rd_content s" by (rule rd_content_cong) (simp add: t)
  have "data_step s t" using b(1) len sz by (auto simp: data_step_def t nth_list_update)
  then have cot: "cache_ok t" using co cache_ok_data_step by blast
  show rb: "rd_blocks t = rd_blocks s" by (simp add: t rd_blocks_def)
  have "coherent t"
    unfolding coherent_def
  proof (intro allI impI)
    fix x k assume a: "x < length (bufs t)" "k < rd_blocks t" "bh_is RD (int k) (bufs t ! x)" "b_uptodate (bufs t ! x) \<noteq> 0" "b_dirt (bufs t ! x) = 0"
    then have "x \<noteq> b" using d by (auto simp: tb)
    with a same [of x] ok show "b_data (bufs t ! x) = rd_content t k" by (simp add: fs_ok_def coherent_def lt rb rc)
  qed
  moreover have "b_lock (bufs t ! x) = 0" if "x < length (bufs t)" for x
    using ok that same [of x] tb b(1) by (cases "x = b") (simp_all add: fs_ok_def lt)
  moreover have "blk_ok t" using ok by (simp add: fs_ok_def t blk_ok_def)
  ultimately show "fs_ok t" using ok cot by (simp add: fs_ok_def t)
  show "view t n = bs" using view_cached [OF cot, of b n] b d by (simp add: lt tb bh_is_def)
  show "view t m = view s m" if m: "m < rd_blocks s" "m \<noteq> n"
  proof (cases "\<exists>x < length (bufs s). bh_is RD (int m) (bufs s ! x) \<and> b_uptodate (bufs s ! x) \<noteq> 0")
    case True
    then obtain x where x: "x < length (bufs s)" "bh_is RD (int m) (bufs s ! x)" "b_uptodate (bufs s ! x) \<noteq> 0" by blast
    have "m < 2 ^ 60" using rd_blocks_60 [OF _ m(1)] ok by (simp add: fs_ok_def)
    then have "x \<noteq> b" using bh_is_RD_inj [OF b(2) _ n60] x(2) m(2) by blast
    then show ?thesis using view_cached [OF co x] view_cached [OF cot, of x m] x same [of x] lt by simp
  next
    case False
    have "view s m = rd_content s m" by (rule view_uncached) (use False in blast)
    moreover have "view t m = rd_content t m"
    proof (rule view_uncached)
      fix x assume "x < length (bufs t)" "bh_is RD (int m) (bufs t ! x)"
      moreover have "m < 2 ^ 60" using rd_blocks_60 [OF _ m(1)] ok by (simp add: fs_ok_def)
      then have "\<not> bh_is RD (int m) (bufs s ! b)" using bh_is_RD_inj [OF b(2) _ n60] m(2) by blast
      ultimately show "b_uptodate (bufs t ! x) = 0" using False same [of x] tb lt b(1) by (cases "x = b") (auto simp: bh_is_def)
    qed
    ultimately show ?thesis by (simp add: rc)
  qed
  show "cache_frame s t" unfolding t using cache_frame_bufs [where s = s and ht = "hash_table s" and q = "free_list s"] by simp
qed

lemma view_store:
  assumes "fs_ok s" "n < rd_blocks s" "b < length (bufs s)" "bh_is RD (int n) (bufs s ! b)" "b_uptodate (bufs s ! b) \<noteq> 0"
    and "length bs = BLOCK_SIZE" "d \<noteq> 0"
    and t: "t = s\<lparr>bufs := (bufs s)[b := (bufs s ! b)\<lparr>b_data := bs, b_dirt := d\<rparr>]\<rparr>"
  shows "fs_ok t" "view t n = bs" "m < rd_blocks s \<Longrightarrow> m \<noteq> n \<Longrightarrow> view t m = view s m" "rd_blocks t = rd_blocks s" "cache_frame s t"
proof -
  have "t = s\<lparr>bufs := (bufs s)[b := (bufs s ! b)\<lparr>b_data := bs, b_dirt := d, b_uptodate := b_uptodate (bufs s ! b)\<rparr>]\<rparr>"
    by (simp add: t)
  from view_write [OF assms(1-4,6,7,5) this] show "fs_ok t" "view t n = bs" "m < rd_blocks s \<Longrightarrow> m \<noteq> n \<Longrightarrow> view t m = view s m"
    "rd_blocks t = rd_blocks s" "cache_frame s t" by blast+
qed

text \<open>Usable: well-formed, some buffer to spare, no use count about to wrap.\<close>

definition usable :: "kstate \<Rightarrow> bool" where
  "usable s \<longleftrightarrow> fs_ok s \<and> room s \<noteq> {} \<and> (\<forall>b < length (bufs s). b_count (bufs s ! b) \<noteq> 255)"

text \<open>The rest of the kernel does not matter to the cache.\<close>

lemma cache_other:
  assumes "bufs t = bufs s" "hash_table t = hash_table s" "free_list t = free_list s" "request t = request s"
    "blk_dev t = blk_dev s" "rd_mem t = rd_mem s" "rd_length t = rd_length s"
  shows "fs_ok t = fs_ok s" "view t = view s" "rd_blocks t = rd_blocks s" "room t = room s" "usable t = usable s"
proof -
  have "data_step s t" "data_step t s" using assms by (simp_all add: data_step_other)
  then have c: "cache_ok t = cache_ok s" using cache_ok_data_step by blast
  have rc: "rd_content t = rd_content s" by (rule rd_content_cong [OF assms(6)])
  show fo: "fs_ok t = fs_ok s" using assms c rc by (simp add: fs_ok_def blk_ok_def coherent_def rd_blocks_def)
  show "view t = view s" by (rule ext) (simp add: view_def cached_def assms(1) rc split: option.splits)
  show "rd_blocks t = rd_blocks s" "room t = room s" by (simp_all add: rd_blocks_def room_def assms)
  then show "usable t = usable s" using fo by (simp add: usable_def assms(1))
qed

section \<open>The cache as a provider of block contents\<close>

text \<open>The way the file system reads a block: \<open>bread\<close>, look at the data, \<open>brelse\<close>.\<close>

definition fetch_block :: "(int \<Rightarrow> int K) \<Rightarrow> nat \<Rightarrow> u8 list option K" where
  "fetch_block sync n = bindk (bread_gen sync RD (int n)) (\<lambda>r. case r of None \<Rightarrow> retk None | Some b \<Rightarrow>
     bindk (get_bh b) (\<lambda>h. bindk (brelse (Some b)) (\<lambda>_. retk (Some (b_data h)))))"

lemma reads_count:
  assumes "reads s n b t" "\<forall>x < length (bufs s). b_count (bufs s ! x) \<noteq> 255"
  shows "b_count (bufs t ! b) \<noteq> 0"
proof
  assume "b_count (bufs t ! b) = 0"
  with assms(1) have "b_count (bufs s ! b) + 1 = 0" "b < length (bufs s)" by (auto simp: reads_def)
  then have "b_count (bufs s ! b) = - 1" by (simp add: add_eq_0_iff2)
  also have "(- 1 :: u8) = 255" by simp
  finally show False using assms(2) \<open>b < length (bufs s)\<close> by blast
qed

text \<open>Releasing a block that was read, after a use that changed at most its buffer.\<close>

lemma reads_release:
  assumes us: "usable s" and r: "reads s n b t" and u: "fs_ok u" "rd_blocks u = rd_blocks s" "length (bufs u) = length (bufs s)"
    and c: "b_count (bufs u ! b) = b_count (bufs t ! b)" and oth: "\<forall>x < length (bufs s). x \<noteq> b \<longrightarrow> bufs u ! x = bufs t ! x"
  shows "\<exists>v. brelse (Some b) u = Ok () v \<and> fs_ok v \<and> cache_frame u v \<and> rd_blocks v = rd_blocks s \<and> (\<forall>m. view v m = view u m) \<and>
    (\<forall>x < length (bufs v). b_count (bufs v ! x) \<noteq> 255) \<and> room s - {b} \<subseteq> room v \<and>
    (b_dirt (bufs u ! b) = b_dirt (bufs t ! b) \<longrightarrow> room s \<subseteq> room v)"
proof -
  have c255: "\<forall>b < length (bufs s). b_count (bufs s ! b) \<noteq> 255" using us by (simp add: usable_def)
  note r' = r [unfolded reads_def]
  have cb: "b_count (bufs t ! b) = 1 \<or> b_count (bufs t ! b) = b_count (bufs s ! b) + 1" "b < length (bufs s)" using r' by auto
  from brelse_eq [of u b] u cb(2) reads_count [OF r c255] c obtain v where v: "brelse (Some b) u = Ok () v" "fs_ok v" "cache_frame u v" "rd_blocks v = rd_blocks u"
    "bufs v = (bufs u)[b := (bufs u ! b)\<lparr>b_count := b_count (bufs u ! b) - 1\<rparr>]" "\<forall>m. view v m = view u m" by auto
  have cnt: "b_count (bufs v ! x) = b_count (bufs s ! x) \<or> b_count (bufs v ! x) = 0" if "x < length (bufs s)" for x
    using r' that cb oth u(3) c by (auto simp: v(5) nth_list_update)
  have "b_count (bufs v ! x) \<noteq> 255" if "x < length (bufs s)" for x using cnt [OF that] c255 that by auto
  moreover have "x \<in> room v" if "x \<in> room s" "x \<noteq> b" for x
    using that r' cnt [of x] oth u(3) by (auto simp: room_def v(5))
  moreover have "b \<in> room v" if "b \<in> room s" "b_dirt (bufs u ! b) = b_dirt (bufs t ! b)"
    using that r' cnt [of b] u(3) by (auto simp: room_def v(5))
  ultimately show ?thesis using v u(2,3) by (intro exI [of _ v]) auto
qed

text \<open>Reading a block and releasing it again, with anything that leaves the cache alone in between.\<close>

lemma read_release:
  assumes u: "usable s" and n: "n < rd_blocks s"
  shows "\<exists>b t v. bread_gen sync RD (int n) s = Ok (Some b) t \<and> reads s n b t \<and> brelse (Some b) t = Ok () v \<and>
    usable v \<and> cache_frame s v \<and> rd_blocks v = rd_blocks s \<and> (\<forall>m < rd_blocks s. view v m = view s m) \<and> room s \<subseteq> room v"
proof -
  from bread_reads [of s n sync] u n obtain b t where bt: "bread_gen sync RD (int n) s = Ok (Some b) t" "reads s n b t"
    by (auto simp: usable_def)
  note r = bt(2) [unfolded reads_def]
  from reads_release [OF u bt(2), of t] r obtain v where v: "brelse (Some b) t = Ok () v" "fs_ok v" "cache_frame t v"
    "rd_blocks v = rd_blocks s" "\<forall>m. view v m = view t m" "\<forall>x < length (bufs v). b_count (bufs v ! x) \<noteq> 255" "room s \<subseteq> room v" by auto
  have "cache_frame s v" using cache_frame_trans [OF _ v(3)] r by blast
  moreover have "usable v" using v u by (auto simp: usable_def)
  ultimately show ?thesis using bt v r by auto
qed

lemma fetch_block_law:
  assumes u: "usable s" and n: "n < rd_blocks s"
  shows "\<exists>t. fetch_block sync n s = Ok (Some (view s n)) t \<and> usable t \<and> rd_blocks t = rd_blocks s \<and>
    (\<forall>m < rd_blocks s. view t m = view s m)"
proof -
  from read_release [OF assms, of sync] obtain b t v where
    v: "bread_gen sync RD (int n) s = Ok (Some b) t" "reads s n b t" "brelse (Some b) t = Ok () v"
    "usable v" "rd_blocks v = rd_blocks s" "\<forall>m < rd_blocks s. view v m = view s m" by blast
  have "fetch_block sync n s = Ok (Some (view s n)) v"
    using v(1-3) by (simp add: reads_def fetch_block_def get_bh_def retk_def)
  then show ?thesis using v by blast
qed

locale block_store =
  fixes fetch :: "nat \<Rightarrow> u8 list option K"
    and ok :: "kstate \<Rightarrow> bool"
    and blocks :: "kstate \<Rightarrow> nat"
    and content :: "kstate \<Rightarrow> nat \<Rightarrow> u8 list"
  assumes fetch_law: "ok s \<Longrightarrow> n < blocks s \<Longrightarrow> \<exists>t. fetch n s = Ok (Some (content s n)) t \<and> ok t \<and>
    blocks t = blocks s \<and> (\<forall>m < blocks s. content t m = content s m)"
begin

text \<open>Any sequence of reads delivers the contents at the start, in order: reads do not disturb.\<close>

fun fetch_list :: "nat list \<Rightarrow> u8 list list K" where
  "fetch_list [] = retk []"
| "fetch_list (n # ns) = bindk (fetch n) (\<lambda>r. bindk (derefk r) (\<lambda>d. bindk (fetch_list ns) (\<lambda>ds. retk (d # ds))))"

lemma fetch_list_law:
  "ok s \<Longrightarrow> \<forall>n \<in> set ns. n < blocks s \<Longrightarrow> \<exists>t. fetch_list ns s = Ok (map (content s) ns) t \<and> ok t \<and>
     blocks t = blocks s \<and> (\<forall>m < blocks s. content t m = content s m)"
proof (induction ns arbitrary: s)
  case (Cons n ns)
  then obtain t where t: "fetch n s = Ok (Some (content s n)) t" "ok t" "blocks t = blocks s"
    "\<forall>m < blocks s. content t m = content s m" using fetch_law [of s n] by auto
  from Cons.IH [OF t(2)] Cons.prems t(3) obtain u where u: "fetch_list ns t = Ok (map (content t) ns) u" "ok u"
    "blocks u = blocks t" "\<forall>m < blocks t. content u m = content t m" by auto
  have "map (content t) ns = map (content s) ns" using t(4) Cons.prems by auto
  then show ?case using t u by (auto simp: derefk_def retk_def)
qed (simp add: retk_def)

end

interpretation bs: block_store "fetch_block sync" usable rd_blocks view for sync
  by unfold_locales (rule fetch_block_law)

section \<open>Initialisation\<close>

lemma links_upt:
  assumes "\<And>i. a \<le> i \<Longrightarrow> Suc i < n \<Longrightarrow> nx i = Some (Suc i) \<and> pv (Suc i) = Some i"
  shows "links nx pv [a..<n]"
  using assms
proof (induction "n - a" arbitrary: a)
  case (Suc k)
  then have "a < n" by simp
  show ?case
  proof (cases "Suc a < n")
    case True
    have "links nx pv [Suc a..<n]" using Suc by simp
    then show ?thesis using Suc.prems [of a] True \<open>a < n\<close> by (simp add: upt_conv_Cons)
  next
    case False
    then show ?thesis using \<open>a < n\<close> by (simp add: upt_conv_Cons)
  qed
qed simp

lemma buffer_init_rel:
  assumes two: "2 \<le> buffer_count start buffer_end" and junk: "\<And>i. length (b_data (junk i)) = BLOCK_SIZE"
  shows "\<exists>t. buffer_init start buffer_end junk s = Ok () t \<and> length (bufs t) = buffer_count start buffer_end \<and>
    cache_rel t (\<lambda>_. []) [0..<buffer_count start buffer_end] \<and>
    (\<forall>b < length (bufs t). b_count (bufs t ! b) = 0 \<and> b_dirt (bufs t ! b) = 0 \<and> b_lock (bufs t ! b) = 0 \<and>
       b_uptodate (bufs t ! b) = 0 \<and> b_dev (bufs t ! b) = 0) \<and>
    (\<exists>bs. t = s\<lparr>bufs := bs, hash_table := hash_table t, free_list := free_list t\<rparr>)"
proof -
  define n where "n = buffer_count start buffer_end"
  define bs where "bs = map (\<lambda>i. (junk i)\<lparr>b_dev := 0, b_dirt := 0, b_count := 0, b_lock := 0, b_uptodate := 0, b_wait := 0,
          b_next := None, b_prev := None, b_prev_free := Some (if i = 0 then n - 1 else i - 1),
          b_next_free := Some (if i = n - 1 then 0 else i + 1)\<rparr>) [0..<n]"
  define t where "t = s\<lparr>bufs := bs, free_list := Some 0, hash_table := replicate NR_HASH None\<rparr>"
  have n2: "2 \<le> n" using two by (simp add: n_def)
  have len: "length bs = n" by (simp add: bs_def)
  have f: "b_dev (bs ! i) = 0" "b_dirt (bs ! i) = 0" "b_count (bs ! i) = 0" "b_lock (bs ! i) = 0" "b_uptodate (bs ! i) = 0"
    "b_next (bs ! i) = None" "b_prev (bs ! i) = None" "b_prev_free (bs ! i) = Some (if i = 0 then n - 1 else i - 1)"
    "b_next_free (bs ! i) = Some (if i = n - 1 then 0 else i + 1)" "length (b_data (bs ! i)) = BLOCK_SIZE" if "i < n" for i
    using that junk by (simp_all add: bs_def)
  obtain k where k: "n = Suc k" using n2 by (cases n) auto
  have "links (fnx t) (fpv t) [0..<Suc k]" by (rule links_upt) (use f k in \<open>auto simp: t_def\<close>)
  then have "links (fnx t) (fpv t) ([0..<k] @ [k, 0])"
    using links_snoc2 [of "fnx t" "fpv t" "[0..<k]" k 0] f(8) [of 0] f(9) [of k] k by (simp add: t_def)
  then have "ring (fnx t) (fpv t) [0..<n]" using n2 by (simp add: ring_def k)
  then have "freeq t [0..<n]" using n2 by (simp add: freeq_def t_def)
  moreover have "hash_chains t (\<lambda>_. [])" by (simp add: hash_chains_def t_def)
  moreover have "hashed t (\<lambda>_. []) {}" using f by (simp add: hashed_def t_def len)
  moreover have "unique_blocks t" using f by (simp add: unique_blocks_def t_def len)
  moreover have "\<forall>h \<in> set (bufs t). length (b_data h) = BLOCK_SIZE" using f by (auto simp: t_def in_set_conv_nth len)
  ultimately have "cache_rel t (\<lambda>_. []) [0..<n]" using n2 by (auto simp: cache_rel_def t_def len)
  moreover have "buffer_init start buffer_end junk s = Ok () t"
    using n2 by (simp add: buffer_init_def modk_def t_def bs_def flip: n_def)
  moreover have "t = s\<lparr>bufs := bs, hash_table := hash_table t, free_list := free_list t\<rparr>" by (simp add: t_def)
  ultimately show ?thesis using f unfolding n_def [symmetric] by (intro exI [of _ t] conjI exI [of _ bs]) (simp_all add: t_def len)
qed

section \<open>A small cache\<close>

text \<open>Two buffers over the four-block ram disk, as \<open>buffer_init\<close> leaves them.\<close>

definition demo_cache :: kstate where
  "demo_cache = (case buffer_init 0 2176 (\<lambda>_. zero_buffer) demo_disk of Ok _ t \<Rightarrow> t | _ \<Rightarrow> demo_disk)"

lemma demo_count: "buffer_count 0 2176 = 2"
  by (simp add: buffer_count.simps)

lemma demo_cache_ok: "usable demo_cache" "rd_blocks demo_cache = 4" "bufs demo_cache \<noteq> []"
  "b < length (bufs demo_cache) \<Longrightarrow> b_dev (bufs demo_cache ! b) = 0" "rd_mem demo_cache = (\<lambda>_. 7)"
  "length (bufs demo_cache) = 2" "b < length (bufs demo_cache) \<Longrightarrow> b_count (bufs demo_cache ! b) = 0 \<and> b_dirt (bufs demo_cache ! b) = 0"
proof -
  have zb: "length (b_data zero_buffer) = BLOCK_SIZE" by (simp add: zero_buffer_def)
  obtain t where t: "buffer_init 0 2176 (\<lambda>_. zero_buffer) demo_disk = Ok () t" "length (bufs t) = 2"
    "cache_rel t (\<lambda>_. []) [0..<2]" "\<forall>b < length (bufs t). b_count (bufs t ! b) = 0 \<and> b_dirt (bufs t ! b) = 0 \<and> b_lock (bufs t ! b) = 0 \<and>
       b_uptodate (bufs t ! b) = 0 \<and> b_dev (bufs t ! b) = 0"
    "\<exists>bs. t = demo_disk\<lparr>bufs := bs, hash_table := hash_table t, free_list := free_list t\<rparr>"
    using buffer_init_rel [of 0 2176 "\<lambda>_. zero_buffer" demo_disk] zb unfolding demo_count by blast
  have dt: "demo_cache = t" by (simp add: demo_cache_def t(1))
  obtain bs where bs: "t = demo_disk\<lparr>bufs := bs, hash_table := hash_table t, free_list := free_list t\<rparr>" using t(5) by blast
  have same: "rd_length t = rd_length demo_disk" "request t = request demo_disk" "blk_dev t = blk_dev demo_disk" "rd_mem t = rd_mem demo_disk"
    by (subst bs, simp)+
  then have "blk_ok t" using demo_disk_ok(1) by (simp add: blk_ok_def)
  moreover have "coherent t" using t(4) by (simp add: coherent_def)
  ultimately have "fs_ok t" using t(3,4) same(1) demo_disk_ok(6) by (auto simp: fs_ok_def cache_ok_def)
  moreover have "0 \<in> room t" using t(2,4) by (auto simp: room_def)
  ultimately show "usable demo_cache" using t(4) by (auto simp: usable_def dt)
  show "rd_blocks demo_cache = 4" "bufs demo_cache \<noteq> []" "rd_mem demo_cache = (\<lambda>_. 7)" "length (bufs demo_cache) = 2"
    using same demo_disk_ok(6) t(2) by (auto simp: dt rd_blocks_def demo_disk_def)
  show "b < length (bufs demo_cache) \<Longrightarrow> b_dev (bufs demo_cache ! b) = 0"
    "b < length (bufs demo_cache) \<Longrightarrow> b_count (bufs demo_cache ! b) = 0 \<and> b_dirt (bufs demo_cache ! b) = 0" using t(4) by (simp_all add: dt)
qed

section \<open>Properties\<close>

text \<open>\<open>buffer_init\<close> fills the space between the headers and the end with as many buffers as fit
  and leaves a well-formed cache: all buffers on the free list in order, empty hash chains, no
  buffer in use, dirty, locked or assigned to a device.\<close>

theorem buffer_init_correct:
  assumes "2 \<le> buffer_count start buffer_end" and "\<And>i. length (b_data (junk i)) = BLOCK_SIZE"
  shows "\<exists>t. buffer_init start buffer_end junk s = Ok () t \<and> length (bufs t) = buffer_count start buffer_end \<and>
    cache_rel t (\<lambda>_. []) [0..<buffer_count start buffer_end] \<and>
    (\<forall>b < length (bufs t). b_count (bufs t ! b) = 0 \<and> b_dirt (bufs t ! b) = 0 \<and> b_lock (bufs t ! b) = 0 \<and>
       b_uptodate (bufs t ! b) = 0 \<and> b_dev (bufs t ! b) = 0)"
  using buffer_init_rel [of start buffer_end junk s] assms by blast

theorem buffer_init_correct_witness:
  "\<exists>t. buffer_init 0 2176 (\<lambda>_. zero_buffer) demo_disk = Ok () t \<and> length (bufs t) = 2 \<and> cache_rel t (\<lambda>_. []) [0..<2]"
  using buffer_init_correct [of 0 2176 "\<lambda>_. zero_buffer" demo_disk] unfolding demo_count
  by (auto simp: zero_buffer_def)

text \<open>in a well-formed cache \<open>find_buffer\<close> is a complete search: it terminates, changes nothing, and
  returns a buffer of the block asked for if there is one and NULL only if there is none.\<close>

theorem find_buffer_correct:
  assumes "cache_ok s" "0 < dev" "dev < 2 ^ 16"
  shows "\<exists>r. find_buffer dev block s = Ok r s \<and>
    (case r of Some b \<Rightarrow> b < length (bufs s) \<and> bh_is dev block (bufs s ! b)
     | None \<Rightarrow> \<forall>b < length (bufs s). \<not> bh_is dev block (bufs s ! b))"
  by (rule find_buffer_complete [OF assms])

theorem find_buffer_correct_witness: "\<exists>r. find_buffer RD 3 demo_cache = Ok r demo_cache"
  using find_buffer_correct [of demo_cache RD 3] demo_cache_ok(1) by (auto simp: usable_def fs_ok_def)

text \<open>C10: giving buffer \<open>b\<close> to a new block is, on the lists the pointers represent, removal from its
  old places, appending at the end of the free list and insertion into the chain of the new
  block; the cache stays well-formed, and no other buffer's identity, data or flags change.\<close>

theorem claim_buffer_refinement:
  assumes "cache_rel s hs fl" "b < length (bufs s)"
    and "\<And>x. dev \<noteq> 0 \<Longrightarrow> x < length (bufs s) \<Longrightarrow> \<not> bh_is dev block (bufs s ! x)" "0 \<le> dev" "dev < 2 ^ 16"
  shows "\<exists>t hs'. claim_buffer dev block b s = Ok () t \<and> cache_rel t hs' (remove1 b fl @ [b]) \<and>
    map strip (bufs t) = (map strip (bufs s))[b := strip ((bufs s ! b)\<lparr>b_count := 1, b_dirt := 0, b_uptodate := 0,
      b_dev := word_of_int dev, b_blocknr := word_of_int block\<rparr>)]"
  using claim_buffer_refines [OF assms] by blast

theorem claim_buffer_refinement_witness:
  "\<exists>t hs' fl. claim_buffer RD 3 1 demo_cache = Ok () t \<and> cache_rel t hs' (fl @ [1])"
proof -
  obtain hs fl where "cache_rel demo_cache hs fl" using demo_cache_ok(1) by (auto simp: usable_def fs_ok_def cache_ok_def)
  from claim_buffer_refinement [OF this, of 1 RD 3] demo_cache_ok(4,6) show ?thesis by (auto simp: bh_is_def)
qed

text \<open>\<open>getblk\<close> on a block that is not cached takes over an unused, clean, unlocked buffer (the first
  such buffer of the free list), leaves it with use count 1 and not up to date under the new
  block, and keeps the cache well-formed. When every buffer is in use the caller sleeps.\<close>

theorem getblk_correct:
  assumes r: "cache_rel s hs fl" and d: "0 < dev" "dev < 2 ^ 16"
    and new: "\<And>x. x < length (bufs s) \<Longrightarrow> \<not> bh_is dev block (bufs s ! x)"
  shows "((\<exists>x < length (bufs s). b_count (bufs s ! x) = 0 \<and> b_dirt (bufs s ! x) = 0 \<and> b_lock (bufs s ! x) = 0) \<longrightarrow>
     (\<exists>b t hs'. getblk_gen sync dev block s = Ok b t \<and> pick_spec s None fl = Some b \<and> b_count (bufs s ! b) = 0 \<and>
        b_dirt (bufs s ! b) = 0 \<and> b_lock (bufs s ! b) = 0 \<and> cache_rel t hs' (remove1 b fl @ [b]) \<and>
        map strip (bufs t) = (map strip (bufs s))[b := strip ((bufs s ! b)\<lparr>b_count := 1, b_dirt := 0, b_uptodate := 0,
          b_dev := word_of_int dev, b_blocknr := word_of_int block\<rparr>)])) \<and>
    ((\<forall>x < length (bufs s). b_count (bufs s ! x) \<noteq> 0) \<longrightarrow> sleep_on WBufferWait s = Sleep u k \<longrightarrow>
      (\<exists>k'. getblk_gen sync dev block s = Sleep u k'))"
  using getblk_miss [OF r d new] getblk_full [OF r d new] by blast

theorem getblk_correct_witness: "\<exists>b t. getblk_gen (\<lambda>_. retk 0) RD 3 demo_cache = Ok b t"
proof -
  obtain hs fl where r: "cache_rel demo_cache hs fl" using demo_cache_ok(1) by (auto simp: usable_def fs_ok_def cache_ok_def)
  have new: "\<not> bh_is RD 3 (bufs demo_cache ! x)" if "x < length (bufs demo_cache)" for x
    using demo_cache_ok(4) [OF that] by (simp add: bh_is_def)
  have "room demo_cache \<noteq> {}" "fs_ok demo_cache" using demo_cache_ok(1) by (simp_all add: usable_def)
  then show ?thesis using getblk_correct [OF r _ _ new, where sync = "\<lambda>_. retk 0" and u = demo_cache and k = "\<lambda>_. Fault"]
    by (auto simp: room_def fs_ok_def)
qed

text \<open>C9: \<open>bread\<close> of a block of the disk that is cached, or for which some buffer can be had, returns a
  buffer of that block that is up to date, holds the logical content of the block and is counted
  as used once more; the logical content of every block and the use of every other buffer stay
  the same, and nothing outside cache and driver changes.\<close>

theorem bread_correct:
  assumes "fs_ok s" "n < rd_blocks s"
    and "(\<exists>b < length (bufs s). bh_is RD (int n) (bufs s ! b)) \<or> room s \<noteq> {}"
  shows "\<exists>b t. bread_gen sync RD (int n) s = Ok (Some b) t \<and> fs_ok t \<and> cache_frame s t \<and>
    bh_is RD (int n) (bufs t ! b) \<and> b_uptodate (bufs t ! b) \<noteq> 0 \<and> b_data (bufs t ! b) = view s n \<and>
    (\<forall>m < rd_blocks s. view t m = view s m) \<and>
    (\<forall>x < length (bufs s). x \<noteq> b \<longrightarrow> b_count (bufs t ! x) = b_count (bufs s ! x)) \<and>
    (b_count (bufs t ! b) = 1 \<or> bh_is RD (int n) (bufs s ! b) \<and> b_count (bufs t ! b) = b_count (bufs s ! b) + 1)"
  using bread_reads [OF assms] unfolding reads_def by blast

theorem bread_correct_witness:
  "\<exists>b t. bread_gen (\<lambda>_. retk 0) RD 2 demo_cache = Ok (Some b) t \<and> b_data (bufs t ! b) = view demo_cache 2"
  using bread_correct [of demo_cache 2 "\<lambda>_. retk 0"] demo_cache_ok(1,2) by (auto simp: usable_def)



end
