(* ===== verification/Layout.thy ===== *)
theory Layout
  imports KState
begin

text \<open>
  The on-disk structures as bytes: little-endian 16- and 32-bit fields, the 32-byte \<open>struct d_inode\<close>,
  the head of \<open>struct d_super_block\<close>, arrays of block numbers, and single bits of bitmap blocks.
  The C code reads and writes them through casts of \<open>b_data\<close>; here a cast is a read or a write of
  bytes of the data list at the field's offset.
\<close>

section \<open>Fields\<close>

definition le16 :: "u16 \<Rightarrow> u8 list" where
  "le16 w = [ucast w, ucast (drop_bit 8 w)]"

definition le32 :: "u32 \<Rightarrow> u8 list" where
  "le32 w = [ucast w, ucast (drop_bit 8 w), ucast (drop_bit 16 w), ucast (drop_bit 24 w)]"

definition get16 :: "u8 list \<Rightarrow> nat \<Rightarrow> u16" where
  "get16 bs off = ucast (bs ! off) OR push_bit 8 (ucast (bs ! (off + 1)))"

definition get32 :: "u8 list \<Rightarrow> nat \<Rightarrow> u32" where
  "get32 bs off = ucast (bs ! off) OR push_bit 8 (ucast (bs ! (off + 1))) OR
     push_bit 16 (ucast (bs ! (off + 2))) OR push_bit 24 (ucast (bs ! (off + 3)))"

text \<open>Overwriting the bytes of \<open>xs\<close> from \<open>off\<close> on with \<open>ys\<close>.\<close>

definition put_bytes :: "nat \<Rightarrow> u8 list \<Rightarrow> u8 list \<Rightarrow> u8 list" where
  "put_bytes off ys xs = take off xs @ ys @ drop (off + length ys) xs"

lemma length_le [simp]: "length (le16 w) = 2" "length (le32 v) = 4" by (simp_all add: le16_def le32_def)

lemma length_put_bytes [simp]: "off + length ys \<le> length xs \<Longrightarrow> length (put_bytes off ys xs) = length xs"
  by (simp add: put_bytes_def)

lemma nth_put_bytes:
  "off + length ys \<le> length xs \<Longrightarrow> i < length xs \<Longrightarrow>
    put_bytes off ys xs ! i = (if off \<le> i \<and> i < off + length ys then ys ! (i - off) else xs ! i)"
  by (auto simp: put_bytes_def nth_append min_def)

lemma get16_le16: "get16 (le16 w) 0 = w"
proof (rule bit_word_eqI)
  fix n assume "n < LENGTH(16)"
  then have "n < 16" by simp
  then show "bit (get16 (le16 w) 0) n = bit w n"
    by (auto simp: get16_def le16_def bit_simps)
qed

lemma get16_append: "get16 (xs @ ys) (length xs + k) = get16 ys k"
  by (simp add: get16_def nth_append)

lemma get16_cong: "bs ! off = cs ! off' \<Longrightarrow> bs ! Suc off = cs ! Suc off' \<Longrightarrow> get16 bs off = get16 cs off'"
  by (simp add: get16_def)

lemma get16_put16:
  assumes "2 * j + 1 < length xs" "2 * k + 1 < length xs"
  shows "get16 (put_bytes (2 * j) (le16 w) xs) (2 * k) = (if k = j then w else get16 xs (2 * k))"
proof (cases "k = j")
  case True
  have "get16 (put_bytes (2 * j) (le16 w) xs) (2 * j) = get16 (le16 w) 0"
    by (rule get16_cong) (use assms in \<open>simp_all add: nth_put_bytes\<close>)
  then show ?thesis using True by (simp add: get16_le16)
next
  case False
  then have "get16 (put_bytes (2 * j) (le16 w) xs) (2 * k) = get16 xs (2 * k)"
    by (intro get16_cong) (use assms in \<open>auto simp: nth_put_bytes\<close>)
  then show ?thesis using False by simp
qed

lemma get32_le32: "get32 (le32 w) 0 = w"
proof (rule bit_word_eqI)
  fix n assume "n < LENGTH(32)"
  then have "n < 32" by simp
  then consider "n < 8" | "8 \<le> n" "n < 16" | "16 \<le> n" "n < 24" | "24 \<le> n" "n < 32" by linarith
  then show "bit (get32 (le32 w) 0) n = bit w n"
    by cases (auto simp: get32_def le32_def bit_simps)
qed

section \<open>Inodes\<close>

abbreviation "INODES_PER_BLOCK \<equiv> (32 :: int)"

text \<open>\<open>*(struct d_inode *)inode\<close>: the prefix of the in-core inode that is stored on disk.\<close>

definition d_inode_of :: "m_inode \<Rightarrow> d_inode" where
  "d_inode_of i = \<lparr>di_mode = i_mode i, di_uid = i_uid i, di_size = i_size i, di_time = i_mtime i,
     di_gid = i_gid i, di_nlinks = i_nlinks i, di_zone = i_zone i\<rparr>"

definition set_d_inode :: "d_inode \<Rightarrow> m_inode \<Rightarrow> m_inode" where
  "set_d_inode d i = i\<lparr>i_mode := di_mode d, i_uid := di_uid d, i_size := di_size d, i_mtime := di_time d,
     i_gid := di_gid d, i_nlinks := di_nlinks d, i_zone := di_zone d\<rparr>"

definition encode_inode :: "d_inode \<Rightarrow> u8 list" where
  "encode_inode d = le16 (di_mode d) @ le16 (di_uid d) @ le32 (di_size d) @ le32 (di_time d) @
     [di_gid d, di_nlinks d] @ concat (map le16 (di_zone d))"

definition decode_inode :: "u8 list \<Rightarrow> nat \<Rightarrow> d_inode" where
  "decode_inode bs off = \<lparr>di_mode = get16 bs off, di_uid = get16 bs (off + 2), di_size = get32 bs (off + 4),
     di_time = get32 bs (off + 8), di_gid = bs ! (off + 12), di_nlinks = bs ! (off + 13),
     di_zone = map (\<lambda>k. get16 bs (off + 14 + 2 * k)) [0..<9]\<rparr>"

section \<open>Bitmaps\<close>

text \<open>
  \<open>set_bit\<close> and \<open>clear_bit\<close> of \<open>bitmap.c\<close> load and store the eight bytes from \<open>addr + (nr >> 3)\<close> but
  change only the first of them (\<open>1 << bit\<close> with \<open>bit < 8\<close>), so a byte update is the same; the
  result of \<open>clear_bit\<close> is the inverted old bit. Beyond the block they would touch other memory:
  \<open>None\<close>.
\<close>

definition set_bit_byte :: "nat \<Rightarrow> u8 list \<Rightarrow> (bool \<times> u8 list) option" where
  "set_bit_byte nr bs = (let i = nr div 8; k = nr mod 8 in
     if i < length bs then Some (bit (bs ! i) k, bs[i := bs ! i OR push_bit k 1]) else None)"

definition clear_bit_byte :: "nat \<Rightarrow> u8 list \<Rightarrow> (bool \<times> u8 list) option" where
  "clear_bit_byte nr bs = (let i = nr div 8; k = nr mod 8 in
     if i < length bs then Some (\<not> bit (bs ! i) k, bs[i := bs ! i AND NOT (push_bit k 1)]) else None)"

definition bitmap_bit :: "u8 list \<Rightarrow> nat \<Rightarrow> bool" where
  "bitmap_bit bs n = bit (bs ! (n div 8)) (n mod 8)"

text \<open>\<open>*((ulong *)addr)\<close> for the first eight bytes.\<close>

definition first64 :: "u8 list \<Rightarrow> ulong" where
  "first64 bs = horner_sum of_bool 2 (map (bitmap_bit bs) [0..<64])"

text \<open>The inner loop of \<open>find_first_zero\<close>: the lowest set bit of \<open>v\<close>.\<close>

definition lowest_bit :: "ulong \<Rightarrow> nat option" where
  "lowest_bit v = List.find (bit v) [0..<64]"

text \<open>The outer loop counts \<open>i\<close> up but never moves \<open>addr\<close>: every round looks at the same eight bytes.\<close>

function find_first_zero_from :: "u8 list \<Rightarrow> nat \<Rightarrow> nat" where
  "find_first_zero_from bs i = (if i < BLOCK_SIZE then
       let v = NOT (first64 bs) in
       (case (if v \<noteq> 0 then lowest_bit v else None) of Some j \<Rightarrow> i * 8 + j | None \<Rightarrow> find_first_zero_from bs (i + 8))
     else i * 8)"
  by auto
termination by (relation "measure (\<lambda>(_, i). BLOCK_SIZE - i)") auto

declare find_first_zero_from.simps [simp del]

definition find_first_zero :: "u8 list \<Rightarrow> nat" where
  "find_first_zero bs = find_first_zero_from bs 0"

section \<open>Round trips\<close>

lemma nth_concat_le16: "k < length ws \<Longrightarrow> concat (map le16 ws) ! (2 * k) = le16 (ws ! k) ! 0 \<and>
  concat (map le16 ws) ! (2 * k + 1) = le16 (ws ! k) ! 1"
proof (induction ws arbitrary: k)
  case (Cons w ws)
  then show ?case by (cases k) (simp_all add: nth_append le16_def)
qed simp

lemma get16_concat: "k < length ws \<Longrightarrow> get16 (concat (map le16 ws)) (2 * k) = ws ! k"
  using nth_concat_le16 [of k ws] get16_le16 [of "ws ! k"] by (simp add: get16_def)

lemma length_concat_le16: "length (concat (map le16 ws)) = 2 * length ws"
  by (induction ws) simp_all

lemma length_encode_inode: "length (di_zone d) = 9 \<Longrightarrow> length (encode_inode d) = 32"
  by (simp add: encode_inode_def length_concat_le16)

text \<open>Decoding looks at 32 bytes, wherever they lie.\<close>

lemma get_at:
  assumes "\<And>i. i < 32 \<Longrightarrow> bs ! (off + i) = cs ! (off' + i)"
  shows "k < 31 \<Longrightarrow> get16 bs (off + k) = get16 cs (off' + k)" "k < 29 \<Longrightarrow> get32 bs (off + k) = get32 cs (off' + k)"
proof -
  show "get16 bs (off + k) = get16 cs (off' + k)" if "k < 31"
    using assms [of k] assms [of "k + 1"] that by (simp add: get16_def)
  show "get32 bs (off + k) = get32 cs (off' + k)" if "k < 29"
    using assms [of k] assms [of "k + 1"] assms [of "k + 2"] assms [of "k + 3"] that unfolding get32_def
    by (simp only: add.assoc)
qed

lemma decode_cong:
  assumes "\<And>i. i < 32 \<Longrightarrow> bs ! (off + i) = cs ! (off' + i)"
  shows "decode_inode bs off = decode_inode cs off'"
proof -
  note g = get_at [OF assms]
  have "map (\<lambda>k. get16 bs (off + 14 + 2 * k)) [0..<9] = map (\<lambda>k. get16 cs (off' + 14 + 2 * k)) [0..<9]"
    using g(1) by (auto simp: add.assoc)
  then show ?thesis
    using g(1) [of 0] g(1) [of 2] g(2) [of 4] g(2) [of 8] assms [of 12] assms [of 13] by (simp add: decode_inode_def)
qed

lemma decode_encode:
  assumes len: "length (di_zone d) = 9"
  shows "decode_inode (encode_inode d) 0 = d"
proof -
  have e: "encode_inode d ! (14 + i) = concat (map le16 (di_zone d)) ! i" for i
    by (simp add: encode_inode_def nth_append)
  have "get16 (encode_inode d) (14 + 2 * k) = di_zone d ! k" if "k < 9" for k
    using get16_concat [of k "di_zone d"] that len e [of "2 * k"] e [of "2 * k + 1"] by (simp add: get16_def)
  then have "map (\<lambda>k. get16 (encode_inode d) (14 + 2 * k)) [0..<9] = di_zone d"
    by (intro nth_equalityI) (simp_all add: len)
  moreover have "get16 (encode_inode d) 0 = di_mode d" "get16 (encode_inode d) (Suc (Suc 0)) = di_uid d"
    using get16_le16 [of "di_mode d"] get16_le16 [of "di_uid d"] by (simp_all add: encode_inode_def get16_def le16_def)
  moreover have "get32 (encode_inode d) 4 = di_size d" "get32 (encode_inode d) 8 = di_time d"
    using get32_le32 [of "di_size d"] get32_le32 [of "di_time d"]
    by (simp_all add: encode_inode_def get32_def le16_def le32_def numeral_2_eq_2 numeral_3_eq_3)
  moreover have "encode_inode d ! 12 = di_gid d" "encode_inode d ! 13 = di_nlinks d"
    by (simp_all add: encode_inode_def nth_append)
  ultimately show ?thesis by (simp add: decode_inode_def)
qed

lemma decode_put_same:
  assumes "length (di_zone d) = 9" "off + 32 \<le> length bs"
  shows "decode_inode (put_bytes off (encode_inode d) bs) off = d"
proof -
  have "decode_inode (put_bytes off (encode_inode d) bs) off = decode_inode (encode_inode d) 0"
    by (rule decode_cong) (use assms length_encode_inode [OF assms(1)] in \<open>simp add: nth_put_bytes\<close>)
  then show ?thesis by (simp add: decode_encode [OF assms(1)])
qed

lemma decode_put_other:
  assumes "length (di_zone d) = 9" "32 * j + 32 \<le> length bs" "32 * k + 32 \<le> length bs" "j \<noteq> k"
  shows "decode_inode (put_bytes (32 * j) (encode_inode d) bs) (32 * k) = decode_inode bs (32 * k)"
proof (rule decode_cong)
  fix i assume "i < (32 :: nat)"
  moreover have "\<not> (32 * j \<le> 32 * k + i \<and> 32 * k + i < 32 * j + 32)"
    using assms(4) \<open>i < 32\<close> by presburger
  ultimately show "put_bytes (32 * j) (encode_inode d) bs ! (32 * k + i) = bs ! (32 * k + i)"
    using assms length_encode_inode [OF assms(1)] nth_put_bytes [of "32 * j" "encode_inode d" bs "32 * k + i"] by auto
qed

lemma set_d_inode_of [simp]: "d_inode_of (set_d_inode d i) = d" "set_d_inode (d_inode_of i) i = i"
  by (simp_all add: d_inode_of_def set_d_inode_def)

lemma bitmap_set:
  assumes "set_bit_byte nr bs = Some (old, bs')"
  shows "old = bitmap_bit bs nr" "length bs' = length bs" "n < 8 * length bs \<Longrightarrow> bitmap_bit bs' n = (n = nr \<or> bitmap_bit bs n)"
proof -
  have i: "nr div 8 < length bs" and o: "old = bit (bs ! (nr div 8)) (nr mod 8)"
    and b: "bs' = bs[nr div 8 := bs ! (nr div 8) OR push_bit (nr mod 8) 1]"
    using assms by (auto simp: set_bit_byte_def Let_def split: if_splits)
  show "old = bitmap_bit bs nr" "length bs' = length bs" by (simp_all add: o bitmap_bit_def b)
  have "nr mod 8 < 8" by simp
  then show "bitmap_bit bs' n = (n = nr \<or> bitmap_bit bs n)" if "n < 8 * length bs"
    using i by (auto simp: bitmap_bit_def b nth_list_update bit_simps) (metis div_mult_mod_eq)+
qed

lemma bitmap_clear:
  assumes "clear_bit_byte nr bs = Some (was_clear, bs')"
  shows "was_clear = (\<not> bitmap_bit bs nr)" "length bs' = length bs" "n < 8 * length bs \<Longrightarrow> bitmap_bit bs' n = (n \<noteq> nr \<and> bitmap_bit bs n)"
proof -
  have i: "nr div 8 < length bs" and o: "was_clear = (\<not> bit (bs ! (nr div 8)) (nr mod 8))"
    and b: "bs' = bs[nr div 8 := bs ! (nr div 8) AND NOT (push_bit (nr mod 8) 1)]"
    using assms by (auto simp: clear_bit_byte_def Let_def split: if_splits)
  show "was_clear = (\<not> bitmap_bit bs nr)" "length bs' = length bs" by (simp_all add: o bitmap_bit_def b)
  have "nr mod 8 < 8" by simp
  then show "bitmap_bit bs' n = (n \<noteq> nr \<and> bitmap_bit bs n)" if "n < 8 * length bs"
    using i by (auto simp: bitmap_bit_def b nth_list_update bit_simps dest: bit_imp_le_length) (metis div_mult_mod_eq)+
qed

end
