(* ===== verification/Icache.thy ===== *)
theory Icache
  imports Buffer_Ops Layout
begin

text \<open>
  Super block lookup (\<open>fs/super.c\<close>), inode locks and the inode block I/O of \<open>fs/inode.c\<close>
  (\<open>read_inode\<close>, \<open>write_inode\<close>, \<open>sync_inodes\<close>), and the closing of the recursion between the buffer
  cache and the inodes: \<open>sync_dev\<close> writes back inodes, which reads their blocks, which may call
  \<open>sync_dev\<close> again. In the C code this recursion is bounded because \<open>write_inode\<close> holds the inode's
  lock and a nested \<open>sync_inodes\<close> waits for it; the model bounds it by \<open>SYNC_FUEL\<close> levels.
\<close>

section \<open>Super blocks\<close>

definition wait_on_super :: "nat \<Rightarrow> unit K" where
  "wait_on_super i = loopk WAIT_FUEL (\<lambda>_. bindk (get_sb i) (\<lambda>sb.
     if s_lock sb \<noteq> 0 then bindk (sleep_on (WSuper i)) (\<lambda>_. retk (Inl ())) else retk (Inr ()))) ()"

definition lock_super :: "nat \<Rightarrow> unit K" where
  "lock_super i = bindk (wait_on_super i) (\<lambda>_. upd_sb i (\<lambda>sb. sb\<lparr>s_lock := 1\<rparr>))"

definition free_super :: "nat \<Rightarrow> unit K" where
  "free_super i = bindk (upd_sb i (\<lambda>sb. sb\<lparr>s_lock := 0\<rparr>)) (\<lambda>_. wake_up (WSuper i))"

text \<open>The \<open>while\<close> starts again at the first entry when the entry has changed while the task slept.\<close>

definition get_super :: "int \<Rightarrow> nat option K" where
  "get_super dev = (if dev = 0 then retk None else
     loopk WAIT_FUEL (\<lambda>i. if i \<ge> NR_SUPER then retk (Inr None) else
       bindk (get_sb i) (\<lambda>sb. if uint (s_dev sb) = dev then
         bindk (wait_on_super i) (\<lambda>_. bindk (get_sb i) (\<lambda>sb.
           if uint (s_dev sb) = dev then retk (Inr (Some i)) else retk (Inl 0)))
       else retk (Inl (i + 1)))) 0)"

section \<open>Inode locks\<close>

definition wait_on_inode :: "nat \<Rightarrow> unit K" where
  "wait_on_inode i = loopk WAIT_FUEL (\<lambda>_. bindk (get_inode i) (\<lambda>n.
     if i_lock n \<noteq> 0 then bindk (sleep_on (WInode i)) (\<lambda>_. retk (Inl ())) else retk (Inr ()))) ()"

definition lock_inode :: "nat \<Rightarrow> unit K" where
  "lock_inode i = bindk (wait_on_inode i) (\<lambda>_. upd_inode i (\<lambda>n. n\<lparr>i_lock := 1\<rparr>))"

definition unlock_inode :: "nat \<Rightarrow> unit K" where
  "unlock_inode i = bindk (upd_inode i (\<lambda>n. n\<lparr>i_lock := 0\<rparr>)) (\<lambda>_. wake_up (WInode i))"

definition invalidate_inodes :: "int \<Rightarrow> unit K" where
  "invalidate_inodes dev = eachk (\<lambda>i. bindk (wait_on_inode i) (\<lambda>_. bindk (get_inode i) (\<lambda>n.
     whenk (uint (i_dev n) = dev) (upd_inode i (\<lambda>n. n\<lparr>i_dev := 0, i_dirt := 0\<rparr>))))) [0..<NR_INODE]"

section \<open>Reading and writing inode blocks\<close>

text \<open>The block of an inode and its place in the block. \<open>INODES_PER_BLOCK\<close> is a \<open>size_t\<close>, so \<open>i_num - 1\<close> is
  converted to 64 unsigned bits before the division and the block number is cut back to an \<open>int\<close>: for
  inode number 0 that is entry 31 of the block before, which is what flooring division gives.\<close>

definition inode_block :: "super_block \<Rightarrow> u16 \<Rightarrow> int" where
  "inode_block sb num = 2 + uint (s_imap_blocks sb) + uint (s_zmap_blocks sb) + (uint num - 1) div INODES_PER_BLOCK"

definition inode_index :: "u16 \<Rightarrow> nat" where
  "inode_index num = nat ((uint num - 1) mod INODES_PER_BLOCK)"

definition read_inode_gen :: "(int \<Rightarrow> int K) \<Rightarrow> nat \<Rightarrow> unit K" where
  "read_inode_gen sync i = bindk (lock_inode i) (\<lambda>_.
     bindk (get_inode i) (\<lambda>n.
     bindk (get_super (uint (i_dev n))) (\<lambda>r. case r of None \<Rightarrow> panick ''trying to read inode without device'' | Some k \<Rightarrow>
     bindk (get_sb k) (\<lambda>sb.
     bindk (bread_gen sync (uint (i_dev n)) (inode_block sb (i_num n))) (\<lambda>r. case r of
       None \<Rightarrow> panick ''unable to read i-node block'' | Some b \<Rightarrow>
     bindk (get_inode i) (\<lambda>n. bindk (retk (inode_index (i_num n))) (\<lambda>j.
     bindk (get_bh b) (\<lambda>h.
     bindk (upd_inode i (set_d_inode (decode_inode (b_data h) (32 * j)))) (\<lambda>_.
     bindk (brelse (Some b)) (\<lambda>_. unlock_inode i))))))))))"

definition write_inode_gen :: "(int \<Rightarrow> int K) \<Rightarrow> nat \<Rightarrow> unit K" where
  "write_inode_gen sync i = bindk (lock_inode i) (\<lambda>_.
     bindk (get_inode i) (\<lambda>n. if i_dirt n = 0 \<or> i_dev n = 0 then unlock_inode i else
     bindk (get_super (uint (i_dev n))) (\<lambda>r. case r of None \<Rightarrow> panick ''trying to write inode without device'' | Some k \<Rightarrow>
     bindk (get_sb k) (\<lambda>sb.
     bindk (bread_gen sync (uint (i_dev n)) (inode_block sb (i_num n))) (\<lambda>r. case r of
       None \<Rightarrow> panick ''unable to read i-node block'' | Some b \<Rightarrow>
     bindk (get_inode i) (\<lambda>n. bindk (retk (inode_index (i_num n))) (\<lambda>j.
     bindk (upd_bh b (\<lambda>h. h\<lparr>b_data := put_bytes (32 * j) (encode_inode (d_inode_of n)) (b_data h), b_dirt := 1\<rparr>)) (\<lambda>_.
     bindk (upd_inode i (\<lambda>n. n\<lparr>i_dirt := 0\<rparr>)) (\<lambda>_.
     bindk (brelse (Some b)) (\<lambda>_. unlock_inode i))))))))))"

definition sync_inodes_gen :: "(int \<Rightarrow> int K) \<Rightarrow> unit K" where
  "sync_inodes_gen sync = eachk (\<lambda>i. bindk (wait_on_inode i) (\<lambda>_. bindk (get_inode i) (\<lambda>n.
     whenk (i_dirt n \<noteq> 0 \<and> i_pipe n = 0) (write_inode_gen sync i)))) [0..<NR_INODE]"

section \<open>Closing the recursion\<close>

abbreviation "SYNC_FUEL \<equiv> (40 :: nat)"

primrec sync_dev_f :: "nat \<Rightarrow> int \<Rightarrow> int K" where
  "sync_dev_f 0 dev = (\<lambda>s. NoFuel)"
| "sync_dev_f (Suc n) dev = sync_dev_gen (sync_inodes_gen (sync_dev_f n)) dev"

definition sync_dev :: "int \<Rightarrow> int K" where "sync_dev = sync_dev_f SYNC_FUEL"
definition getblk :: "int \<Rightarrow> int \<Rightarrow> nat K" where "getblk = getblk_gen sync_dev"
definition bread :: "int \<Rightarrow> int \<Rightarrow> nat option K" where "bread = bread_gen sync_dev"
definition bread_page :: "ulong \<Rightarrow> int \<Rightarrow> int list \<Rightarrow> unit K" where "bread_page = bread_page_gen sync_dev"
definition breada :: "int \<Rightarrow> int \<Rightarrow> int list \<Rightarrow> nat option K" where "breada = breada_gen sync_dev"
definition read_inode :: "nat \<Rightarrow> unit K" where "read_inode = read_inode_gen sync_dev"
definition write_inode :: "nat \<Rightarrow> unit K" where "write_inode = write_inode_gen sync_dev"
definition sync_inodes :: "unit K" where "sync_inodes = sync_inodes_gen sync_dev"
definition sys_sync :: "int K" where "sys_sync = sys_sync_gen sync_inodes"

section \<open>Well-formed tables\<close>

text \<open>The arrays of the structures have their declared sizes, besides a well-formed cache.\<close>

definition fs_tables :: "kstate \<Rightarrow> bool" where
  "fs_tables s \<longleftrightarrow> length (inode_table s) = NR_INODE \<and> (\<forall>n \<in> set (inode_table s). length (i_zone n) = 9) \<and>
     length (super_block s) = NR_SUPER \<and>
     (\<forall>sb \<in> set (super_block s). length (s_imap sb) = I_MAP_SLOTS \<and> length (s_zmap sb) = Z_MAP_SLOTS)"

text \<open>
  The other tables of the kernel have their declared sizes too. \<open>ROOT_DEV\<close> and \<open>jiffies\<close> are assigned
  by \<open>machine_main\<close> and by the initialiser of the variable only.
\<close>

definition sys_shape :: "kstate \<Rightarrow> nat list \<times> int \<times> int" where
  [simp]: "sys_shape s = ([length (task s), length (kernel_stack s), length (kernel_stackbottom s), length (file_table s),
     length (tty_table s), length (timer_list s), length (mem_map s), length (trap_regs s)], ROOT_DEV s, jiffies s)"

definition boot_shape :: "nat list \<times> int \<times> int" where
  "boot_shape = ([NR_TASKS, NR_TASKS, NR_TASKS, NR_FILE, 1, TIME_REQUESTS, 3840, 32], 0x0101, 0)"

definition kinv :: "kstate \<Rightarrow> bool" where
  "kinv s \<longleftrightarrow> cache_ok s \<and> fs_tables s \<and> sys_shape s = boot_shape"

lemma fs_tables_other: "inode_table t = inode_table s \<Longrightarrow> super_block t = super_block s \<Longrightarrow> fs_tables t = fs_tables s"
  by (simp add: fs_tables_def)

lemma kinv_other:
  "bufs t = bufs s \<Longrightarrow> hash_table t = hash_table s \<Longrightarrow> free_list t = free_list s \<Longrightarrow>
   inode_table t = inode_table s \<Longrightarrow> super_block t = super_block s \<Longrightarrow> sys_shape t = sys_shape s \<Longrightarrow> kinv s \<Longrightarrow> kinv t"
  unfolding kinv_def using cache_ok_data_step [OF data_step_other] fs_tables_other by metis

lemma sys_shape_wq [simp]: "sys_shape (wq_set q p s) = sys_shape s"
  by (cases q) simp_all

lemma fs_tables_upd:
  "fs_tables s \<Longrightarrow> (\<And>n. length (i_zone n) = 9 \<Longrightarrow> length (i_zone (f n)) = 9) \<Longrightarrow> i < length (inode_table s) \<Longrightarrow>
    fs_tables (s\<lparr>inode_table := (inode_table s)[i := f (inode_table s ! i)]\<rparr>)"
  by (auto simp: fs_tables_def dest!: set_update_subset_insert [THEN set_mp])

lemma fs_tables_upd_sb:
  "fs_tables s \<Longrightarrow> (\<And>sb. length (s_imap sb) = I_MAP_SLOTS \<Longrightarrow> length (s_zmap sb) = Z_MAP_SLOTS \<Longrightarrow>
      length (s_imap (f sb)) = I_MAP_SLOTS \<and> length (s_zmap (f sb)) = Z_MAP_SLOTS) \<Longrightarrow> i < length (super_block s) \<Longrightarrow>
    fs_tables (s\<lparr>super_block := (super_block s)[i := f (super_block s ! i)]\<rparr>)"
  by (auto simp: fs_tables_def dest!: set_update_subset_insert [THEN set_mp])

lemma fs_tables_wq: "fs_tables s \<Longrightarrow> fs_tables (wq_set q p s)"
proof (cases q)
  case (WInode i)
  assume s: "fs_tables s"
  show ?thesis
  proof (cases "i < length (inode_table s)")
    case True
    from fs_tables_upd [OF s _ this, of "\<lambda>n. n\<lparr>i_wait := p\<rparr>"] WInode show ?thesis by simp
  qed (use s WInode in \<open>simp add: fs_tables_def list_update_beyond\<close>)
next
  case (WSuper i)
  assume s: "fs_tables s"
  show ?thesis
  proof (cases "i < length (super_block s)")
    case True
    from fs_tables_upd_sb [OF s _ this, of "\<lambda>n. n\<lparr>s_wait := p\<rparr>"] WSuper show ?thesis by simp
  qed (use s WSuper in \<open>simp add: fs_tables_def list_update_beyond\<close>)
qed (simp_all add: fs_tables_def)

interpretation kv: buffer_inv kinv
proof unfold_locales
  show "\<And>s t. sched_step s t \<Longrightarrow> kinv s \<Longrightarrow> kinv t"
    unfolding kinv_def using cache.Q_sched by (auto simp: sched_step_def fs_tables_def)
  show "\<And>s q p. kinv s \<Longrightarrow> kinv (wq_set q p s)"
    unfolding kinv_def using cache.Q_wq fs_tables_wq sys_shape_wq by metis
  show "\<And>s u. kinv s \<Longrightarrow> kinv u \<Longrightarrow> kinv (switch_back s u)"
    unfolding kinv_def using cache.Q_back by (auto simp: switch_back_def fs_tables_def boot_shape_def)
  show "\<And>s t. io_step s t \<Longrightarrow> kinv s \<Longrightarrow> kinv t"
    unfolding kinv_def using cache.Q_io by (auto simp: io_step_def fs_tables_def)
  show "\<And>s pm. kinv s \<Longrightarrow> kinv (s\<lparr>pmem := pm\<rparr>)" by (rule kinv_other) simp_all
  show "keeps kinv (bindk (find_buffer dev block) (\<lambda>f. if f \<noteq> None then retk (Inl ()) else
       bindk (claim_buffer dev block b) (\<lambda>_. retk (Inr b))))" if "0 \<le> dev" "dev < 2 ^ 16" for dev block b
    unfolding keeps_def
  proof (intro allI impI)
    fix s assume k: "kinv s"
    then have "cache_ok s" by (simp add: kinv_def)
    show "post kinv (bindk (find_buffer dev block) (\<lambda>f. if f \<noteq> None then retk (Inl ()) else
       bindk (claim_buffer dev block b) (\<lambda>_. retk (Inr b))) s)"
      by (rule settled_post [OF claim_after_lookup [OF \<open>cache_ok s\<close> that]]) (use k in \<open>auto simp: kinv_def fs_tables_def\<close>)
  qed
qed

lemmas kv_keeps [keeps_intros] = kv.sched_keeps kv.keeps_wait_on_buffer kv.keeps_ll_rw_block kv.keeps_get_hash_table
  kv.keeps_brelse kv.keeps_drv kv.keeps_sync_pass kv.keeps_invalidate

lemma kv_upd_bh [keeps_intros]: "keeps_id f \<Longrightarrow> keeps kinv (upd_bh b f)"
  by (rule kv.keeps_upd_bh)

text \<open>Overwriting part of a data block.\<close>

lemma kv_put_bytes:
  assumes "off + length ys \<le> BLOCK_SIZE"
  shows "keeps kinv (upd_bh b (\<lambda>h. h\<lparr>b_data := put_bytes off ys (b_data h), b_dirt := d\<rparr>))"
  unfolding keeps_def
proof (intro allI impI)
  fix s assume k: "kinv s"
  let ?t = "s\<lparr>bufs := (bufs s)[b := (bufs s ! b)\<lparr>b_data := put_bytes off ys (b_data (bufs s ! b)), b_dirt := d\<rparr>]\<rparr>"
  have "data_step s ?t" if "b < length (bufs s)"
  proof -
    have "length (b_data (bufs s ! b)) = BLOCK_SIZE" using k that by (auto simp: kinv_def cache_ok_def cache_rel_def)
    then show ?thesis using assms that by (auto simp: data_step_def nth_list_update)
  qed
  then show "post kinv (upd_bh b (\<lambda>h. h\<lparr>b_data := put_bytes off ys (b_data h), b_dirt := d\<rparr>) s)"
    using k kv.Q_io [OF io_step_bufs] by (auto simp: upd_bh_def)
qed

lemma kv_upd_inode [keeps_intros]:
  "(\<And>n. length (i_zone n) = 9 \<Longrightarrow> length (i_zone (f n)) = 9) \<Longrightarrow> keeps kinv (upd_inode i f)"
  using fs_tables_upd [of _ f i] cache_ok_data_step [OF data_step_other]
  by (auto simp: keeps_def upd_inode_def kinv_def)

lemma kv_upd_sb [keeps_intros]:
  "(\<And>sb. length (s_imap sb) = I_MAP_SLOTS \<Longrightarrow> length (s_zmap sb) = Z_MAP_SLOTS \<Longrightarrow>
      length (s_imap (f sb)) = I_MAP_SLOTS \<and> length (s_zmap (f sb)) = Z_MAP_SLOTS) \<Longrightarrow> keeps kinv (upd_sb i f)"
  using fs_tables_upd_sb [of _ f i] cache_ok_data_step [OF data_step_other]
  by (auto simp: keeps_def upd_sb_def kinv_def)

lemma kv_upd_cur [keeps_intros]: "keeps kinv (upd_cur f)"
  by (auto simp: keeps_def upd_cur_def intro: kinv_other [rotated 6])

text \<open>What the invariant says of an element just read.\<close>

lemma kv_get_inode: "(\<And>n. length (i_zone n) = 9 \<Longrightarrow> keeps kinv (k n)) \<Longrightarrow> keeps kinv (bindk (get_inode i) k)"
  by (auto simp: keeps_def bindk_def get_inode_def kinv_def fs_tables_def)

lemma kv_get_bh: "(\<And>h. length (b_data h) = BLOCK_SIZE \<Longrightarrow> keeps kinv (k h)) \<Longrightarrow> keeps kinv (bindk (get_bh b) k)"
proof -
  assume a: "\<And>h. length (b_data h) = BLOCK_SIZE \<Longrightarrow> keeps kinv (k h)"
  have "length (b_data (bufs s ! b)) = BLOCK_SIZE" if "kinv s" "b < length (bufs s)" for s
    using that by (auto simp: kinv_def cache_ok_def cache_rel_def)
  then show ?thesis using a by (auto simp: keeps_def bindk_def get_bh_def)
qed

lemma keeps_derefk_bind: "(\<And>x. p = Some x \<Longrightarrow> keeps Q (k x)) \<Longrightarrow> keeps Q (bindk (derefk p) k)"
  by (auto simp: keeps_def bindk_def derefk_def retk_def faultk_def split: option.splits)

lemmas kv_binds = kv_get_inode kv_get_bh keeps_derefk_bind

section \<open>Synchronisation keeps the tables well-formed\<close>

lemma uint16_bounds [simp]: "0 \<le> uint (w :: u16)" "uint (w :: u16) < 2 ^ 16" "uint (w :: u16) < 65536"
  using uint_lt2p [of w] by simp_all

lemma kv_wait [keeps_intros]: "keeps kinv (wait_on_super i)" "keeps kinv (wait_on_inode j)"
  unfolding wait_on_super_def wait_on_inode_def by (intro keeps_intros)+

lemma kv_locks [keeps_intros]:
  "keeps kinv (lock_super i)" "keeps kinv (free_super i)" "keeps kinv (lock_inode j)" "keeps kinv (unlock_inode j)"
  unfolding lock_super_def free_super_def lock_inode_def unlock_inode_def by (intro keeps_intros; simp)+

lemma kv_get_super [keeps_intros]: "keeps kinv (get_super dev)"
  unfolding get_super_def by (intro keeps_intros)

lemma kv_invalidate_inodes [keeps_intros]: "keeps kinv (invalidate_inodes dev)"
  unfolding invalidate_inodes_def by (intro keeps_intros; simp)

lemma inode_index_less: "32 * inode_index num + 32 \<le> BLOCK_SIZE"
proof -
  have "0 \<le> (uint num - 1) mod 32" "(uint num - 1) mod 32 < 32" by simp_all
  then show ?thesis unfolding inode_index_def by linarith
qed

lemma kv_write_inode_gen:
  assumes "\<And>d. keeps kinv (sync d)"
  shows "keeps kinv (write_inode_gen sync i)"
  unfolding write_inode_gen_def bindk_retk
  by (intro kv_binds kv_put_bytes keeps_intros kv.keeps_bread assms; simp add: length_encode_inode d_inode_of_def inode_index_less)

lemma kv_read_inode_gen:
  assumes "\<And>d. keeps kinv (sync d)"
  shows "keeps kinv (read_inode_gen sync i)"
  unfolding read_inode_gen_def bindk_retk
  by (intro kv_binds keeps_intros kv.keeps_bread assms; simp add: set_d_inode_def decode_inode_def)

lemma kv_sync_inodes_gen: "(\<And>d. keeps kinv (sync d)) \<Longrightarrow> keeps kinv (sync_inodes_gen sync)"
  unfolding sync_inodes_gen_def by (intro keeps_intros kv_write_inode_gen)

lemma kv_sync_dev_f: "keeps kinv (sync_dev_f n dev)"
proof (induction n arbitrary: dev)
  case 0
  show ?case by (simp add: keeps_def)
next
  case (Suc n)
  then show ?case by (simp add: kv.keeps_sync_dev kv_sync_inodes_gen)
qed

lemma kv_sync_dev [keeps_intros]: "keeps kinv (sync_dev dev)"
  unfolding sync_dev_def by (rule kv_sync_dev_f)

lemma kv_cache_ops [keeps_intros]:
  "0 \<le> dev \<Longrightarrow> dev < 2 ^ 16 \<Longrightarrow> keeps kinv (getblk dev block)" "0 \<le> dev \<Longrightarrow> dev < 2 ^ 16 \<Longrightarrow> keeps kinv (bread dev block)"
  "0 \<le> dev \<Longrightarrow> dev < 2 ^ 16 \<Longrightarrow> keeps kinv (bread_page a dev bs)" "0 \<le> dev \<Longrightarrow> dev < 2 ^ 16 \<Longrightarrow> keeps kinv (breada dev block ahead)"
  unfolding getblk_def bread_def bread_page_def breada_def
  by (simp_all add: kv.keeps_getblk kv.keeps_bread kv.keeps_bread_page kv.keeps_breada kv_sync_dev)

lemma kv_inode_io [keeps_intros]: "keeps kinv (read_inode i)" "keeps kinv (write_inode i)" "keeps kinv sync_inodes" "keeps kinv sys_sync"
  unfolding read_inode_def write_inode_def sync_inodes_def sys_sync_def
  by (simp_all add: kv_read_inode_gen kv_write_inode_gen kv_sync_inodes_gen kv.keeps_sys_sync kv_sync_dev)

end
