(* ===== verification/Page_Alloc.thy ===== *)
theory Page_Alloc
  imports KState
begin

text \<open>
  The physical page allocator of \<open>mm/memory.c\<close>: \<open>mem_map\<close> holds one reference count per
  4 KB page above \<open>LOW_MEM\<close>. Definitions: \<open>get_free_page\<close>, \<open>get_free_pages\<close>,
  \<open>free_page\<close>, \<open>free_pages\<close>, \<open>mem_init\<close> and the loops inside them. The interface
  \<open>page_pool\<close> states what the rest of the kernel relies on (a page handed out was unused,
  dropping undoes taking) and is interpreted on the allocator.
\<close>

abbreviation "LOW_MEM \<equiv> (0x80100000 :: ulong)"
abbreviation "PAGING_PAGES \<equiv> (3840 :: nat)"
abbreviation "USED \<equiv> (100 :: u8)"

definition MAP_NR :: "ulong \<Rightarrow> ulong" where
  "MAP_NR addr = drop_bit 12 (addr - LOW_MEM)"

definition page_addr :: "nat \<Rightarrow> ulong" where
  "page_addr i = push_bit 12 (word_of_nat i) + LOW_MEM"

text \<open>\<open>memset(addr, 0, n)\<close> on the byte store.\<close>

definition memset0 :: "ulong \<Rightarrow> ulong \<Rightarrow> (ulong \<Rightarrow> u8) \<Rightarrow> (ulong \<Rightarrow> u8)" where
  "memset0 a n m = (\<lambda>x. if x - a < n then 0 else m x)"

text \<open>\<open>while(--i)\<close>: from the highest page down to page 1; page 0 is never looked at.\<close>

fun get_free_page_loop :: "nat \<Rightarrow> u8 list \<Rightarrow> nat option" where
  "get_free_page_loop i mm = (if i \<le> 1 then None
     else if mm ! (i - 1) = 0 then Some (i - 1) else get_free_page_loop (i - 1) mm)"

declare get_free_page_loop.simps [simp del]

definition get_free_page :: "ulong K" where
  "get_free_page = (\<lambda>s. case get_free_page_loop PAGING_PAGES (mem_map s) of
       None \<Rightarrow> Ok 0 s
     | Some i \<Rightarrow> Ok (page_addr i) (s\<lparr>mem_map := (mem_map s)[i := 1],
                                      pmem := memset0 (page_addr i) 4096 (pmem s)\<rparr>))"

text \<open>The inner \<open>for(j = i; j >= i - pagenum + 1; j--)\<close>: the first used page at or below \<open>j\<close>.\<close>

fun scan_block :: "u8 list \<Rightarrow> nat \<Rightarrow> nat \<Rightarrow> nat option" where
  "scan_block mm j 0 = None"
| "scan_block mm j (Suc n) = (if mm ! j \<noteq> 0 then Some j else scan_block mm (j - 1) n)"

lemma scan_block_le: "scan_block mm j n = Some k \<Longrightarrow> k \<le> j"
  by (induction mm j n rule: scan_block.induct) (auto split: if_splits)

text \<open>The outer \<open>while(i > pagenum - 1)\<close>; for \<open>pagenum = 0\<close> the C expression wraps and the
  loop body never runs.\<close>

function find_block :: "u8 list \<Rightarrow> nat \<Rightarrow> nat \<Rightarrow> nat option" where
  "find_block mm n i = (if n = 0 \<or> i < n then None
     else case scan_block mm i n of
       Some j \<Rightarrow> find_block mm n (j - 1)
     | None \<Rightarrow> Some (i + 1 - n))"
  by pat_completeness auto
termination
proof (relation "measure (\<lambda>(mm, n, i). i)")
  fix mm n i j
  assume "\<not> (n = 0 \<or> i < n)" and "scan_block mm i n = Some j"
  then show "((mm, n, j - 1), mm, n, i) \<in> measure (\<lambda>(mm, n, i). i)"
    using scan_block_le [of mm i n j] by (cases i) auto
qed simp

declare find_block.simps [simp del]

definition mark_used :: "nat \<Rightarrow> nat \<Rightarrow> u8 list \<Rightarrow> u8 list" where
  "mark_used lo n mm = fold (\<lambda>j m. m[j := 1]) (rev [lo..<lo + n]) mm"

definition get_free_pages :: "nat \<Rightarrow> ulong K" where
  "get_free_pages pagenum = (\<lambda>s. case find_block (mem_map s) pagenum (PAGING_PAGES - 1) of
       None \<Rightarrow> Ok 0 s
     | Some lo \<Rightarrow> Ok (page_addr lo) (s\<lparr>mem_map := mark_used lo pagenum (mem_map s),
         pmem := memset0 (page_addr lo) (4096 * word_of_nat pagenum) (pmem s)\<rparr>))"

definition free_page :: "ulong \<Rightarrow> unit K" where
  "free_page addr = (\<lambda>s.
     if addr < LOW_MEM then Ok () s
     else if addr \<ge> HIGH_MEMORY s then Panic ''trying to free nonexistent page''
     else let i = unat (MAP_NR addr) in
       if i \<ge> length (mem_map s) then Fault
       else if mem_map s ! i \<noteq> 0 then Ok () (s\<lparr>mem_map := (mem_map s)[i := mem_map s ! i - 1]\<rparr>)
       else Panic ''trying to free free page'')"

fun free_pages :: "ulong \<Rightarrow> nat \<Rightarrow> unit K" where
  "free_pages addr 0 = retk ()"
| "free_pages addr (Suc n) = bindk (free_page addr) (\<lambda>_. free_pages (addr + 4096) n)"

definition mem_init :: "ulong \<Rightarrow> ulong \<Rightarrow> unit K" where
  "mem_init start_mem end_mem = (\<lambda>s.
     let i = unat (MAP_NR start_mem); n = unat (drop_bit 12 (end_mem - start_mem)) in
     if i + n \<le> PAGING_PAGES
     then Ok () (s\<lparr>HIGH_MEMORY := end_mem,
       mem_map := fold (\<lambda>j m. m[j := 0]) [i..<i + n] (replicate PAGING_PAGES USED)\<rparr>)
     else Fault)"

section \<open>Address arithmetic\<close>

definition mm_ok :: "kstate \<Rightarrow> bool" where
  "mm_ok s \<longleftrightarrow> length (mem_map s) = PAGING_PAGES"

lemma drop_push_12: "i < 2 ^ 52 \<Longrightarrow> drop_bit 12 (push_bit 12 (word_of_nat i) :: ulong) = word_of_nat i"
proof (rule bit_word_eqI)
  fix n assume i: "i < 2 ^ 52" and "n < LENGTH(64)"
  have "n < 52" if "bit i n"
    using nat_bit_bound [OF i that] .
  then show "bit (drop_bit 12 (push_bit 12 (word_of_nat i) :: ulong)) n = bit (word_of_nat i :: ulong) n"
    by (auto simp: bit_simps)
qed

lemma MAP_NR_page_addr [simp]: "i < 2 ^ 52 \<Longrightarrow> unat (MAP_NR (page_addr i)) = i"
  by (simp add: MAP_NR_def page_addr_def drop_push_12 unsigned_of_nat take_bit_nat_eq_self)

lemma unat_page_addr: "i < PAGING_PAGES \<Longrightarrow> unat (page_addr i) = i * 4096 + 0x80100000"
proof -
  assume i: "i < PAGING_PAGES"
  have "page_addr i = word_of_nat (i * 4096 + 0x80100000)"
    by (simp add: page_addr_def push_bit_eq_mult)
  moreover have "i * 4096 + 0x80100000 < 2 ^ 64" using i by simp
  ultimately show ?thesis by (simp only: unsigned_of_nat) (simp add: take_bit_nat_eq_self)
qed

lemma page_addr_ge [simp]: "i < PAGING_PAGES \<Longrightarrow> LOW_MEM \<le> page_addr i"
  by (simp add: word_le_nat_alt unat_page_addr)

lemma page_addr_nz [simp]: "i < PAGING_PAGES \<Longrightarrow> page_addr i \<noteq> 0"
  using unat_page_addr [of i] by auto

section \<open>Single pages\<close>

lemma get_free_page_loop_Some:
  "get_free_page_loop n mm = Some i \<Longrightarrow>
     1 \<le> i \<and> i < n \<and> mm ! i = 0 \<and> (\<forall>j. i < j \<and> j < n \<longrightarrow> mm ! j \<noteq> 0)"
proof (induction n mm rule: get_free_page_loop.induct)
  case (1 n mm)
  show ?case
  proof (cases "n \<le> 1 \<or> mm ! (n - 1) = 0")
    case True
    with "1.prems" show ?thesis
      by (auto simp: get_free_page_loop.simps [of n mm] split: if_splits)
  next
    case False
    with "1.prems" have "get_free_page_loop (n - 1) mm = Some i"
      by (simp add: get_free_page_loop.simps [of n mm])
    with "1.IH" False have IH: "1 \<le> i \<and> i < n - 1 \<and> mm ! i = 0 \<and> (\<forall>j. i < j \<and> j < n - 1 \<longrightarrow> mm ! j \<noteq> 0)"
      by simp
    have "mm ! j \<noteq> 0" if "i < j" "j < n" for j
      using IH False that by (cases "j = n - 1") auto
    with IH show ?thesis by auto
  qed
qed

lemma get_free_page_loop_None:
  "get_free_page_loop n mm = None \<Longrightarrow> 1 \<le> j \<Longrightarrow> j < n \<Longrightarrow> mm ! j \<noteq> 0"
proof (induction n mm rule: get_free_page_loop.induct)
  case (1 n mm)
  then show ?case
    by (cases "j = n - 1") (auto simp: get_free_page_loop.simps [of n mm] split: if_splits)
qed

lemma get_free_page_cases:
  obtains (none) "get_free_page s = Ok 0 s" "\<And>j. 1 \<le> j \<Longrightarrow> j < PAGING_PAGES \<Longrightarrow> mem_map s ! j \<noteq> 0"
  | (page) i where "1 \<le> i" "i < PAGING_PAGES" "mem_map s ! i = 0"
      "\<And>j. i < j \<Longrightarrow> j < PAGING_PAGES \<Longrightarrow> mem_map s ! j \<noteq> 0"
      "get_free_page s = Ok (page_addr i) (s\<lparr>mem_map := (mem_map s)[i := 1],
         pmem := memset0 (page_addr i) 4096 (pmem s)\<rparr>)"
proof (cases "get_free_page_loop PAGING_PAGES (mem_map s)")
  case None
  then show ?thesis using none get_free_page_loop_None by (simp add: get_free_page_def)
next
  case (Some i)
  show ?thesis
    by (rule page [of i]) (use get_free_page_loop_Some [OF Some] Some in \<open>simp_all add: get_free_page_def\<close>)
qed

lemma mm_ok_get_free_page [keeps_intros]: "keeps mm_ok get_free_page"
  by (auto simp: keeps_def get_free_page_def mm_ok_def split: option.splits)

lemma mm_ok_free_page [keeps_intros]: "keeps mm_ok (free_page a)"
  by (auto simp: keeps_def free_page_def mm_ok_def Let_def)

lemma mm_ok_free_pages [keeps_intros]: "keeps mm_ok (free_pages a n)"
  by (induction a n rule: free_pages.induct) (auto intro!: keeps_intros)

section \<open>The interface\<close>

locale page_pool =
  fixes take_page :: "'s \<Rightarrow> (nat \<times> 's) option"
    and drop_page :: "nat \<Rightarrow> 's \<Rightarrow> 's option"
    and refs :: "'s \<Rightarrow> nat \<Rightarrow> nat"
    and usable :: "'s \<Rightarrow> nat \<Rightarrow> bool"
    and pool_ok :: "'s \<Rightarrow> bool"
  assumes take_fresh: "pool_ok s \<Longrightarrow> take_page s = Some (p, t) \<Longrightarrow>
      refs s p = 0 \<and> refs t = (refs s)(p := 1) \<and> usable t = usable s \<and> pool_ok t"
    and drop_ref: "pool_ok s \<Longrightarrow> usable s p \<Longrightarrow> 0 < refs s p \<Longrightarrow>
      \<exists>t. drop_page p s = Some t \<and> refs t = (refs s)(p := refs s p - 1) \<and>
        usable t = usable s \<and> pool_ok t"
begin

lemma takes_differ:
  assumes "pool_ok s" "take_page s = Some (p, t)" "take_page t = Some (q, u)"
  shows "p \<noteq> q"
proof -
  from take_fresh [OF assms(1,2)] have "refs t p = 1" "pool_ok t" by auto
  with take_fresh [OF _ assms(3)] show ?thesis by fastforce
qed

lemma take_then_drop:
  assumes "pool_ok s" "take_page s = Some (p, t)" "usable s p"
  shows "\<exists>u. drop_page p t = Some u \<and> refs u = refs s"
proof -
  from take_fresh [OF assms(1,2)]
  have t: "refs s p = 0" "refs t = (refs s)(p := 1)" "usable t = usable s" "pool_ok t" by auto
  with assms(3) drop_ref [of t p] obtain u
    where "drop_page p t = Some u" "refs u = (refs t)(p := refs t p - 1)" by auto
  moreover have "(refs t)(p := refs t p - 1) = refs s"
    using t by (simp add: fun_eq_iff)
  ultimately show ?thesis by auto
qed

end

definition take_pg :: "kstate \<Rightarrow> (nat \<times> kstate) option" where
  "take_pg s = (case get_free_page s of
     Ok a t \<Rightarrow> if a = 0 then None else Some (unat (MAP_NR a), t) | _ \<Rightarrow> None)"

definition drop_pg :: "nat \<Rightarrow> kstate \<Rightarrow> kstate option" where
  "drop_pg p s = (case free_page (page_addr p) s of Ok _ t \<Rightarrow> Some t | _ \<Rightarrow> None)"

definition page_refs :: "kstate \<Rightarrow> nat \<Rightarrow> nat" where
  "page_refs s p = (if p < PAGING_PAGES then unat (mem_map s ! p) else 0)"

definition page_usable :: "kstate \<Rightarrow> nat \<Rightarrow> bool" where
  "page_usable s p \<longleftrightarrow> p < PAGING_PAGES \<and> page_addr p < HIGH_MEMORY s"

lemma unat_minus_1: "(x :: u8) \<noteq> 0 \<Longrightarrow> unat (x - 1) = unat x - 1"
  by (simp add: unat_minus_one)

interpretation pp: page_pool take_pg drop_pg page_refs page_usable mm_ok
proof
  fix s p t
  assume ok: "mm_ok s" and take: "take_pg s = Some (p, t)"
  show "page_refs s p = 0 \<and> page_refs t = (page_refs s)(p := 1) \<and> page_usable t = page_usable s \<and> mm_ok t"
  proof (cases s rule: get_free_page_cases)
    case none
    with take show ?thesis by (simp add: take_pg_def)
  next
    case (page i)
    with take have "p = i" "t = s\<lparr>mem_map := (mem_map s)[i := 1], pmem := memset0 (page_addr i) 4096 (pmem s)\<rparr>"
      by (auto simp: take_pg_def)
    with page ok show ?thesis
      by (auto simp: page_refs_def mm_ok_def page_usable_def fun_eq_iff nth_list_update)
  qed
next
  fix s p
  assume ok: "mm_ok s" and us: "page_usable s p" and rf: "0 < page_refs s p"
  then have p: "p < PAGING_PAGES" "page_addr p < HIGH_MEMORY s" "mem_map s ! p \<noteq> 0"
    by (auto simp: page_usable_def page_refs_def split: if_splits)
  have "free_page (page_addr p) s = Ok () (s\<lparr>mem_map := (mem_map s)[p := mem_map s ! p - 1]\<rparr>)"
    using p ok page_addr_ge [of p] by (simp add: free_page_def mm_ok_def Let_def not_less [symmetric] leD)
  with p ok show "\<exists>t. drop_pg p s = Some t \<and> page_refs t = (page_refs s)(p := page_refs s p - 1) \<and>
      page_usable t = page_usable s \<and> mm_ok t"
    by (auto simp: drop_pg_def page_refs_def page_usable_def mm_ok_def fun_eq_iff nth_list_update unat_minus_1)
qed

section \<open>Runs of pages\<close>

lemma scan_block_None:
  "scan_block mm j n = None \<Longrightarrow> j + 1 - n \<le> k \<Longrightarrow> k \<le> j \<Longrightarrow> n \<le> j \<Longrightarrow> mm ! k = 0"
proof (induction mm j n rule: scan_block.induct)
  case (2 mm j n)
  then show ?case by (cases "k = j") (auto split: if_splits)
qed simp

lemma scan_block_Some:
  "scan_block mm j n = Some k \<Longrightarrow> n \<le> j \<Longrightarrow> j + 1 - n \<le> k \<and> k \<le> j \<and> mm ! k \<noteq> 0"
proof (induction mm j n rule: scan_block.induct)
  case (2 mm j n)
  then show ?case by (cases "mm ! j \<noteq> 0") fastforce+
qed simp

definition free_run :: "u8 list \<Rightarrow> nat \<Rightarrow> nat \<Rightarrow> bool" where
  "free_run mm lo n \<longleftrightarrow> 0 < n \<and> 1 \<le> lo \<and> lo + n \<le> PAGING_PAGES \<and> (\<forall>k. lo \<le> k \<and> k < lo + n \<longrightarrow> mm ! k = 0)"

lemma find_block_Some:
  "find_block mm n i = Some lo \<Longrightarrow> i < PAGING_PAGES \<Longrightarrow> free_run mm lo n"
proof (induction mm n i rule: find_block.induct)
  case (1 mm n i)
  then have g: "\<not> (n = 0 \<or> i < n)"
    by (auto simp: find_block.simps [of mm n i] split: if_splits)
  show ?case
  proof (cases "scan_block mm i n")
    case None
    with "1.prems" g have "lo = i + 1 - n" by (simp add: find_block.simps [of mm n i])
    with scan_block_None [OF None] g "1.prems"(2) show ?thesis by (auto simp: free_run_def)
  next
    case (Some j)
    with g "1.prems" have "find_block mm n (j - 1) = Some lo"
      by (simp add: find_block.simps [of mm n i])
    moreover have "j - 1 < PAGING_PAGES"
      using scan_block_le [OF Some] "1.prems"(2) by simp
    ultimately show ?thesis by (rule "1.IH" [OF g Some])
  qed
qed

lemma find_block_None:
  "find_block mm n i = None \<Longrightarrow> free_run mm lo n \<Longrightarrow> lo + n \<le> i + 1 \<Longrightarrow> False"
proof (induction mm n i rule: find_block.induct)
  case (1 mm n i)
  have g: "\<not> (n = 0 \<or> i < n)" using "1.prems"(2,3) by (auto simp: free_run_def)
  with "1.prems"(1) obtain j where j: "scan_block mm i n = Some j"
    by (auto simp: find_block.simps [of mm n i] split: option.splits)
  with g "1.prems"(1) have none: "find_block mm n (j - 1) = None"
    by (simp add: find_block.simps [of mm n i])
  from scan_block_Some [OF j] g have b: "i + 1 - n \<le> j" "j \<le> i" "mm ! j \<noteq> 0" by auto
  with "1.prems"(2) have "\<not> (lo \<le> j \<and> j < lo + n)" by (auto simp: free_run_def)
  with b "1.prems"(3) g have "lo + n \<le> j - 1 + 1" by auto
  with "1.IH" [OF g j none "1.prems"(2)] show ?case by simp
qed

lemma fold_update_nth:
  "k < length mm \<Longrightarrow> fold (\<lambda>j m. m[j := v]) js mm ! k = (if k \<in> set js then v else mm ! k)"
  by (induction js arbitrary: mm) (auto simp: nth_list_update)

lemma length_fold_update [simp]: "length (fold (\<lambda>j m. m[j := v]) js mm) = length mm"
  by (induction js arbitrary: mm) auto

lemma mark_used_nth:
  "k < length mm \<Longrightarrow> mark_used lo n mm ! k = (if lo \<le> k \<and> k < lo + n then 1 else mm ! k)"
  by (simp add: mark_used_def fold_update_nth)

lemma length_mark_used [simp]: "length (mark_used lo n mm) = length mm"
  by (simp add: mark_used_def)

lemma get_free_pages_cases:
  obtains (none) "get_free_pages n s = Ok 0 s" "\<And>lo. \<not> free_run (mem_map s) lo n"
  | (run) lo where "free_run (mem_map s) lo n"
      "get_free_pages n s = Ok (page_addr lo) (s\<lparr>mem_map := mark_used lo n (mem_map s),
         pmem := memset0 (page_addr lo) (4096 * word_of_nat n) (pmem s)\<rparr>)"
proof (cases "find_block (mem_map s) n (PAGING_PAGES - 1)")
  case None
  have "\<not> free_run (mem_map s) lo n" for lo
    using find_block_None [OF None, of lo] by (force simp: free_run_def)
  with None none show ?thesis by (simp add: get_free_pages_def)
next
  case (Some lo)
  show ?thesis
    by (rule run [of lo]) (use find_block_Some [OF Some] Some in \<open>simp_all add: get_free_pages_def\<close>)
qed

lemma mm_ok_get_free_pages [keeps_intros]: "keeps mm_ok (get_free_pages n)"
  by (auto simp: keeps_def get_free_pages_def mm_ok_def split: option.splits)

section \<open>Properties\<close>

text \<open>C25: \<open>get_free_page\<close> returns either 0, with the state unchanged, and then every page from 1
  up is in use, or the address of the highest unused page: its count becomes 1, no other count
  changes, its 4096 bytes are zero and no byte outside it changes. Page 0 is never handed out.\<close>

theorem get_free_page_correct:
  assumes "mm_ok s"
  shows "(get_free_page s = Ok 0 s \<and> (\<forall>j. 1 \<le> j \<and> j < PAGING_PAGES \<longrightarrow> mem_map s ! j \<noteq> 0)) \<or>
    (\<exists>i t. get_free_page s = Ok (page_addr i) t \<and> page_addr i \<noteq> 0 \<and> 1 \<le> i \<and> i < PAGING_PAGES \<and>
      mem_map s ! i = 0 \<and> (\<forall>j. i < j \<and> j < PAGING_PAGES \<longrightarrow> mem_map s ! j \<noteq> 0) \<and>
      mem_map t = (mem_map s)[i := 1] \<and>
      (\<forall>x. pmem t x = (if x - page_addr i < 4096 then 0 else pmem s x)) \<and>
      t\<lparr>mem_map := mem_map s, pmem := pmem s\<rparr> = s)"
proof (cases s rule: get_free_page_cases)
  case none
  then show ?thesis by blast
next
  case (page i)
  then show ?thesis
    by (intro disjI2 exI [of _ i] exI conjI) (auto simp: memset0_def)
qed

text \<open>taking a page and freeing it again restores the reference counts of every page.\<close>

theorem get_free_page_free_page_roundtrip:
  assumes "mm_ok s" "get_free_page s = Ok a t" "a \<noteq> 0" "a < HIGH_MEMORY s"
  shows "\<exists>u. free_page a t = Ok () u \<and> mem_map u = mem_map s"
proof (cases s rule: get_free_page_cases)
  case (page i)
  with assms have a: "a = page_addr i" "page_usable s i"
    and tk: "take_pg s = Some (i, t)" by (auto simp: page_usable_def take_pg_def)
  from pp.take_then_drop [OF assms(1) tk a(2)] obtain u
    where u: "drop_pg i t = Some u" "page_refs u = page_refs s" by blast
  then have f: "free_page a t = Ok () u"
    by (auto simp: drop_pg_def a(1) split: res.splits)
  from keepsD [OF mm_ok_get_free_page assms(1,2)] have "mm_ok t" .
  with keepsD [OF mm_ok_free_page _ f] have "mm_ok u" by simp
  have "mem_map u ! k = mem_map s ! k" if "k < PAGING_PAGES" for k
    using fun_cong [OF u(2), of k] that by (simp add: page_refs_def word_unat_eq_iff)
  with \<open>mm_ok u\<close> assms(1) have "mem_map u = mem_map s"
    by (intro nth_equalityI) (simp_all add: mm_ok_def)
  with f show ?thesis by blast
qed (use assms in simp)

text \<open>two pages taken one after the other are different pages.\<close>

theorem get_free_page_twice_distinct:
  assumes "mm_ok s" "get_free_page s = Ok a t" "a \<noteq> 0" "get_free_page t = Ok b u" "b \<noteq> 0"
  shows "a \<noteq> b"
proof -
  have "take_pg s = Some (unat (MAP_NR a), t)" "take_pg t = Some (unat (MAP_NR b), u)"
    using assms by (simp_all add: take_pg_def)
  with pp.takes_differ [OF assms(1)] show ?thesis by metis
qed

text \<open>C26: \<open>get_free_pages(n)\<close> finds a run of \<open>n\<close> consecutive unused pages above page 0 whenever
  there is one: it returns 0 and changes nothing exactly when no such run exists, and otherwise
  the address of a run that was free, whose counts become 1 and whose bytes become zero.\<close>

theorem get_free_pages_correct:
  assumes "mm_ok s"
  shows "(get_free_pages n s = Ok 0 s \<and> (\<forall>lo. \<not> free_run (mem_map s) lo n)) \<or>
    (\<exists>lo t. get_free_pages n s = Ok (page_addr lo) t \<and> page_addr lo \<noteq> 0 \<and> free_run (mem_map s) lo n \<and>
      (\<forall>k < PAGING_PAGES. mem_map t ! k = (if lo \<le> k \<and> k < lo + n then 1 else mem_map s ! k)) \<and>
      (\<forall>x. pmem t x = (if x - page_addr lo < 4096 * word_of_nat n then 0 else pmem s x)))"
proof (cases rule: get_free_pages_cases [of n s])
  case none
  then show ?thesis by blast
next
  case (run lo)
  moreover from run(1) have "lo < PAGING_PAGES" by (simp add: free_run_def)
  ultimately show ?thesis using assms
    by (intro disjI2 exI [of _ lo] exI conjI) (auto simp: memset0_def mark_used_nth mm_ok_def)
qed

text \<open>\<open>free_page\<close> ignores addresses below \<open>LOW_MEM\<close>, panics on an address at or above
  \<open>HIGH_MEMORY\<close>, panics on a page whose count is already 0, and otherwise only decrements the
  count of the page that contains the address.\<close>

theorem free_page_behaviour:
  "free_page a s =
    (if a < LOW_MEM then Ok () s
     else if HIGH_MEMORY s \<le> a then Panic ''trying to free nonexistent page''
     else if length (mem_map s) \<le> unat (a - LOW_MEM) div 4096 then Fault
     else if mem_map s ! (unat (a - LOW_MEM) div 4096) = 0 then Panic ''trying to free free page''
     else Ok () (s\<lparr>mem_map := (mem_map s)[unat (a - LOW_MEM) div 4096 :=
            mem_map s ! (unat (a - LOW_MEM) div 4096) - 1]\<rparr>))"
proof -
  have "unat (MAP_NR a) = unat (a - LOW_MEM) div 4096"
    by (simp add: MAP_NR_def unat_drop_bit)
  then show ?thesis by (simp add: free_page_def Let_def)
qed

text \<open>after \<open>mem_init(start, end)\<close> the pages of \<open>[start, end)\<close> are free and every other page
  is marked in use with count 100.\<close>

theorem mem_init_correct:
  assumes "unat (MAP_NR a) + unat (drop_bit 12 (b - a)) \<le> PAGING_PAGES"
  shows "\<exists>t. mem_init a b s = Ok () t \<and> mm_ok t \<and> HIGH_MEMORY t = b \<and>
    (\<forall>k < PAGING_PAGES. mem_map t ! k =
      (if unat (MAP_NR a) \<le> k \<and> k < unat (MAP_NR a) + unat (drop_bit 12 (b - a)) then 0 else 100))"
  using assms by (auto simp: mem_init_def Let_def mm_ok_def fold_update_nth)

definition demo_mm :: kstate where
  "demo_mm = kernel_image\<lparr>mem_map := (replicate PAGING_PAGES 100)[3839 := 0, 3838 := 0],
     HIGH_MEMORY := 0x81000000\<rparr>"

lemma demo_mm_ok: "mm_ok demo_mm"
  by (simp add: mm_ok_def demo_mm_def kernel_image_def)

lemma demo_mm_alloc:
  "get_free_page demo_mm = Ok (page_addr 3839) (demo_mm\<lparr>mem_map := (mem_map demo_mm)[3839 := 1],
     pmem := memset0 (page_addr 3839) 4096 (pmem demo_mm)\<rparr>)"
  by (simp add: get_free_page_def demo_mm_def kernel_image_def get_free_page_loop.simps)

lemma demo_mm_alloc2:
  "get_free_page (demo_mm\<lparr>mem_map := (mem_map demo_mm)[3839 := 1],
     pmem := memset0 (page_addr 3839) 4096 (pmem demo_mm)\<rparr>) = Ok (page_addr 3838) (demo_mm
     \<lparr>mem_map := (mem_map demo_mm)[3839 := 1, 3838 := 1],
      pmem := memset0 (page_addr 3838) 4096 (memset0 (page_addr 3839) 4096 (pmem demo_mm))\<rparr>)"
  by (simp add: get_free_page_def demo_mm_def kernel_image_def get_free_page_loop.simps)

lemma get_free_page_correct_witness:
  "mm_ok demo_mm \<and> get_free_page demo_mm \<noteq> Ok 0 demo_mm \<and>
    (\<exists>i t. get_free_page demo_mm = Ok (page_addr i) t \<and> mem_map t = (mem_map demo_mm)[i := 1])"
  using get_free_page_correct [OF demo_mm_ok] demo_mm_ok demo_mm_alloc by auto

lemma get_free_page_free_page_roundtrip_witness:
  "\<exists>t u. get_free_page demo_mm = Ok (page_addr 3839) t \<and> free_page (page_addr 3839) t = Ok () u \<and>
     mem_map u = mem_map demo_mm"
proof -
  have "page_addr 3839 < HIGH_MEMORY demo_mm"
    by (simp add: demo_mm_def page_addr_def push_bit_eq_mult)
  from get_free_page_free_page_roundtrip [OF demo_mm_ok demo_mm_alloc _ this]
  show ?thesis using demo_mm_alloc by auto
qed

lemma get_free_page_twice_distinct_witness: "page_addr 3839 \<noteq> page_addr 3838"
  using get_free_page_twice_distinct [OF demo_mm_ok demo_mm_alloc _ demo_mm_alloc2] by simp

lemma get_free_pages_correct_witness:
  "mm_ok demo_mm \<and> (\<exists>lo t. get_free_pages 2 demo_mm = Ok (page_addr lo) t \<and> free_run (mem_map demo_mm) lo 2)"
proof -
  have "mem_map demo_mm ! k = 0" if "3838 \<le> k" "k < 3840" for k
  proof -
    from that have "k = 3838 \<or> k = 3839" by linarith
    then show ?thesis by (auto simp: demo_mm_def)
  qed
  then have "free_run (mem_map demo_mm) 3838 2" by (simp add: free_run_def)
  with get_free_pages_correct [OF demo_mm_ok, of 2] demo_mm_ok show ?thesis by blast
qed

lemma mem_init_correct_witness:
  "\<exists>t. mem_init 0x80200000 0x80300000 kernel_image = Ok () t \<and> mm_ok t \<and> mem_map t ! 256 = 0 \<and> mem_map t ! 255 = 100"
proof -
  have m: "unat (MAP_NR 0x80200000) = 256" "unat (drop_bit 12 (0x80300000 - 0x80200000 :: ulong)) = 256"
    by (simp_all add: MAP_NR_def)
  show ?thesis
    using mem_init_correct [of "0x80200000" "0x80300000" kernel_image] unfolding m by fastforce
qed

end
