(* ===== verification/Inode.thy ===== *)
theory Inode
  imports Icache Page_Alloc
begin

text \<open>
  Block and inode allocation (\<open>fs/bitmap.c\<close>), truncation (\<open>fs/truncate.c\<close>), the mapping of file
  blocks and the in-core inode table (\<open>fs/inode.c\<close>).

  \<open>iput\<close>, \<open>get_empty_inode\<close> and \<open>iget\<close> go back to their start after writing an inode or waiting for one.
\<close>

definition S_ISREG :: "u16 \<Rightarrow> bool" where "S_ISREG m \<longleftrightarrow> m AND 0xF000 = 0x8000"
definition S_ISDIR :: "u16 \<Rightarrow> bool" where "S_ISDIR m \<longleftrightarrow> m AND 0xF000 = 0x4000"
definition S_ISCHR :: "u16 \<Rightarrow> bool" where "S_ISCHR m \<longleftrightarrow> m AND 0xF000 = 0x2000"
definition S_ISBLK :: "u16 \<Rightarrow> bool" where "S_ISBLK m \<longleftrightarrow> m AND 0xF000 = 0x6000"

section \<open>Bitmaps\<close>

definition clear_block :: "nat \<Rightarrow> unit K" where
  "clear_block b = upd_bh b (\<lambda>h. h\<lparr>b_data := replicate (length (b_data h)) 0\<rparr>)"

definition set_bit :: "nat \<Rightarrow> nat \<Rightarrow> bool K" where
  "set_bit nr b = bindk (get_bh b) (\<lambda>h. case set_bit_byte nr (b_data h) of None \<Rightarrow> faultk
     | Some (old, bs) \<Rightarrow> bindk (upd_bh b (\<lambda>h. h\<lparr>b_data := bs\<rparr>)) (\<lambda>_. retk old))"

definition clear_bit :: "nat \<Rightarrow> nat \<Rightarrow> bool K" where
  "clear_bit nr b = bindk (get_bh b) (\<lambda>h. case clear_bit_byte nr (b_data h) of None \<Rightarrow> faultk
     | Some (old, bs) \<Rightarrow> bindk (upd_bh b (\<lambda>h. h\<lparr>b_data := bs\<rparr>)) (\<lambda>_. retk old))"

text \<open>If the block is cached its buffer is made invalid; a buffer others use stops the operation.\<close>

definition forget_block :: "int \<Rightarrow> int \<Rightarrow> bool K" where
  "forget_block dev block = bindk (get_hash_table dev block) (\<lambda>r. case r of None \<Rightarrow> retk False | Some b \<Rightarrow>
     bindk (get_bh b) (\<lambda>h. if b_count h > 1 then bindk (brelse (Some b)) (\<lambda>_. retk True) else
     bindk (upd_bh b (\<lambda>h. h\<lparr>b_dirt := 0, b_uptodate := 0\<rparr>)) (\<lambda>_.
     bindk (brelse (Some b)) (\<lambda>_. retk False))))"

definition free_block :: "int \<Rightarrow> int \<Rightarrow> unit K" where
  "free_block dev block = bindk (get_super dev) (\<lambda>r. case r of
       None \<Rightarrow> panick ''trying to free block on nonexistent device'' | Some k \<Rightarrow>
     bindk (get_sb k) (\<lambda>sb.
     if block < uint (s_firstdatazone sb) \<or> block \<ge> uint (s_nzones sb)
     then panick ''trying to free block not in datazone'' else
     bindk (forget_block dev block) (\<lambda>stop. if stop then retk () else
     bindk (get_sb k) (\<lambda>sb. let blk = block - (uint (s_firstdatazone sb) - 1) in
     bindk (nthk (s_zmap sb) (nat (blk div 8192))) (\<lambda>p. bindk (derefk p) (\<lambda>b.
     bindk (clear_bit (nat (blk mod 8192)) b) (\<lambda>was_clear.
     if was_clear then panick ''free_block: bit already cleared''
     else upd_bh b (\<lambda>h. h\<lparr>b_dirt := 1\<rparr>))))))))"

text \<open>The search over the bitmap slots: the index where it stopped, \<open>bh\<close> and \<open>j\<close> as the loop leaves them.\<close>

fun scan_map :: "nat \<Rightarrow> nat option list \<Rightarrow> nat option \<Rightarrow> nat \<Rightarrow> (nat \<times> nat option \<times> nat) K" where
  "scan_map i [] bh j = retk (i, bh, j)"
| "scan_map i (None # ps) bh j = scan_map (i + 1) ps None j"
| "scan_map i (Some b # ps) bh j = bindk (get_bh b) (\<lambda>h. let j' = find_first_zero (b_data h) in
     if j' < 8192 then retk (i, Some b, j') else scan_map (i + 1) ps (Some b) j')"

definition new_block :: "int \<Rightarrow> int K" where
  "new_block dev = bindk (get_super dev) (\<lambda>r. case r of
       None \<Rightarrow> panick ''trying to get new block from nonexistent device'' | Some k \<Rightarrow>
     bindk (get_sb k) (\<lambda>sb.
     bindk (scan_map 0 (s_zmap sb) None 8192) (\<lambda>(i, bh, j). case bh of None \<Rightarrow> retk 0 | Some b \<Rightarrow>
     if i \<ge> Z_MAP_SLOTS \<or> j \<ge> 8192 then retk 0 else
     bindk (set_bit j b) (\<lambda>old. if old then panick ''new_block: bit already set'' else
     bindk (upd_bh b (\<lambda>h. h\<lparr>b_dirt := 1\<rparr>)) (\<lambda>_.
     let blk = int j + int i * 8192 + uint (s_firstdatazone sb) - 1 in
     if blk \<ge> uint (s_nzones sb) then retk 0 else
     bindk (getblk dev blk) (\<lambda>b.
     bindk (get_bh b) (\<lambda>h. if b_count h \<noteq> 1 then panick ''new block: count is != 1'' else
     bindk (clear_block b) (\<lambda>_.
     bindk (upd_bh b (\<lambda>h. h\<lparr>b_uptodate := 1, b_dirt := 1\<rparr>)) (\<lambda>_.
     bindk (brelse (Some b)) (\<lambda>_. retk blk))))))))))"

text \<open>\<open>free_inode\<close> masks the inode number with \<open>1 << 13\<close>, not with \<open>(1 << 13) - 1\<close>.\<close>

definition free_inode :: "nat \<Rightarrow> unit K" where
  "free_inode i = bindk (get_inode i) (\<lambda>n. if i_dev n = 0 then upd_inode i (\<lambda>_. zero_inode) else
     if i_count n > 1 then panick ''free_inode'' else
     if i_nlinks n \<noteq> 0 then panick ''trying to free inode with links'' else
     bindk (get_super (uint (i_dev n))) (\<lambda>r. case r of None \<Rightarrow> panick ''trying to free inode on nonexistent device'' | Some k \<Rightarrow>
     bindk (get_sb k) (\<lambda>sb. bindk (get_inode i) (\<lambda>n.
     if i_num n < 1 \<or> i_num n > s_ninodes sb then panick ''trying to free inode 0 or nonexistent inode'' else
     bindk (nthk (s_imap sb) (unat (drop_bit 13 (i_num n)))) (\<lambda>p. case p of
       None \<Rightarrow> panick ''nonexistent imap in superblock'' | Some b \<Rightarrow>
     bindk (clear_bit (unat (i_num n AND 0x2000)) b) (\<lambda>_.
     bindk (upd_bh b (\<lambda>h. h\<lparr>b_dirt := 1\<rparr>)) (\<lambda>_. upd_inode i (\<lambda>_. zero_inode))))))))"

section \<open>Truncation\<close>

text \<open>The block numbers are read from the buffer one after the other.\<close>

definition free_ind :: "int \<Rightarrow> int \<Rightarrow> unit K" where
  "free_ind dev block = (if block = 0 then retk () else
     bindk (bread dev block) (\<lambda>r.
     bindk (case r of None \<Rightarrow> retk () | Some b \<Rightarrow>
       bindk (eachk (\<lambda>k. bindk (get_bh b) (\<lambda>h. let z = get16 (b_data h) (2 * k) in
          whenk (z \<noteq> 0) (free_block dev (uint z)))) [0..<512]) (\<lambda>_. brelse (Some b))) (\<lambda>_.
     free_block dev block)))"

definition free_dind :: "int \<Rightarrow> int \<Rightarrow> unit K" where
  "free_dind dev block = (if block = 0 then retk () else
     bindk (bread dev block) (\<lambda>r.
     bindk (case r of None \<Rightarrow> retk () | Some b \<Rightarrow>
       bindk (eachk (\<lambda>k. bindk (get_bh b) (\<lambda>h. let z = get16 (b_data h) (2 * k) in
          whenk (z \<noteq> 0) (free_ind dev (uint z)))) [0..<512]) (\<lambda>_. brelse (Some b))) (\<lambda>_.
     free_block dev block)))"

definition truncate :: "nat \<Rightarrow> unit K" where
  "truncate i = bindk (get_inode i) (\<lambda>n. if \<not> S_ISREG (i_mode n) \<or> S_ISDIR (i_mode n) then retk () else
     bindk (eachk (\<lambda>k. bindk (get_inode i) (\<lambda>n. bindk (nthk (i_zone n) k) (\<lambda>z. whenk (z \<noteq> 0)
        (bindk (free_block (uint (i_dev n)) (uint z)) (\<lambda>_. upd_inode i (\<lambda>n. n\<lparr>i_zone := (i_zone n)[k := 0]\<rparr>))))))
        [0..<7]) (\<lambda>_.
     bindk (get_inode i) (\<lambda>n. bindk (nthk (i_zone n) 7) (\<lambda>z. bindk (free_ind (uint (i_dev n)) (uint z)) (\<lambda>_.
     bindk (get_inode i) (\<lambda>n. bindk (nthk (i_zone n) 8) (\<lambda>z. bindk (free_ind (uint (i_dev n)) (uint z)) (\<lambda>_.
     bindk (getk CURRENT_TIME) (\<lambda>now.
     upd_inode i (\<lambda>n. n\<lparr>i_zone := (i_zone n)[8 := 0, 7 := 0], i_size := 0, i_dirt := 1,
        i_ctime := word_of_int now, i_mtime := word_of_int now\<rparr>))))))))))"

section \<open>File blocks\<close>

text \<open>\<open>if(create && !zone) if(zone = new_block(dev)) ...\<close> for a zone of the inode.\<close>

definition zone_create :: "nat \<Rightarrow> nat \<Rightarrow> bool \<Rightarrow> unit K" where
  "zone_create i k create = bindk (get_inode i) (\<lambda>n. bindk (nthk (i_zone n) k) (\<lambda>z.
     whenk (create \<and> z = 0) (bindk (new_block (uint (i_dev n))) (\<lambda>blk.
       bindk (upd_inode i (\<lambda>n. n\<lparr>i_zone := (i_zone n)[k := word_of_int blk]\<rparr>)) (\<lambda>_.
       whenk ((word_of_int blk :: u16) \<noteq> 0) (bindk (getk CURRENT_TIME) (\<lambda>now.
         upd_inode i (\<lambda>n. n\<lparr>i_ctime := word_of_int now, i_dirt := 1\<rparr>))))))))"

definition inode_zone :: "nat \<Rightarrow> nat \<Rightarrow> int K" where
  "inode_zone i k = bindk (get_inode i) (\<lambda>n. bindk (nthk (i_zone n) k) (\<lambda>z. retk (uint z)))"

text \<open>An entry of an indirect block: read it, allocate it if asked to, release the block.\<close>

definition ind_entry :: "nat \<Rightarrow> nat \<Rightarrow> nat \<Rightarrow> bool \<Rightarrow> int K" where
  "ind_entry i b k create = bindk (get_inode i) (\<lambda>n. bindk (get_bh b) (\<lambda>h.
     let z = uint (get16 (b_data h) (2 * k)) in
     bindk (if create \<and> z = 0 then bindk (new_block (uint (i_dev n))) (\<lambda>blk.
        bindk (whenk (blk \<noteq> 0) (upd_bh b (\<lambda>h. h\<lparr>b_data := put_bytes (2 * k) (le16 (word_of_int blk)) (b_data h), b_dirt := 1\<rparr>)))
          (\<lambda>_. retk blk)) else retk z) (\<lambda>r.
     bindk (brelse (Some b)) (\<lambda>_. retk r))))"

definition u_bmap :: "nat \<Rightarrow> int \<Rightarrow> bool \<Rightarrow> int K" where
  "u_bmap i block create =
     (if block < 0 then panick ''_bmap: block < 0''
      else if block \<ge> 7 + 512 + 512 * 512 then panick ''_bmap: block > big''
      else if block < 7 then bindk (zone_create i (nat block) create) (\<lambda>_. inode_zone i (nat block))
      else if block < 7 + 512 then
        bindk (zone_create i 7 create) (\<lambda>_.
        bindk (inode_zone i 7) (\<lambda>z. if z = 0 then retk 0 else
        bindk (get_inode i) (\<lambda>n.
        bindk (bread (uint (i_dev n)) z) (\<lambda>r. case r of None \<Rightarrow> retk 0 | Some b \<Rightarrow>
          ind_entry i b (nat (block - 7)) create))))
      else
        bindk (zone_create i 8 create) (\<lambda>_.
        bindk (inode_zone i 8) (\<lambda>z. if z = 0 then retk 0 else
        bindk (get_inode i) (\<lambda>n.
        bindk (bread (uint (i_dev n)) z) (\<lambda>r. case r of None \<Rightarrow> retk 0 | Some b \<Rightarrow>
        bindk (ind_entry i b (nat ((block - 519) div 512)) create) (\<lambda>z2. if z2 = 0 then retk 0 else
        bindk (get_inode i) (\<lambda>n. bindk (bread (uint (i_dev n)) z2) (\<lambda>r. case r of None \<Rightarrow> retk 0 | Some b \<Rightarrow>
          ind_entry i b (nat ((block - 519) mod 512)) create))))))))"

definition bmap :: "nat \<Rightarrow> int \<Rightarrow> int K" where "bmap i block = u_bmap i block False"
definition create_block :: "nat \<Rightarrow> int \<Rightarrow> int K" where "create_block i block = u_bmap i block True"

section \<open>The inode table\<close>

definition iput :: "nat option \<Rightarrow> unit K" where
  "iput p = (case p of None \<Rightarrow> retk () | Some i \<Rightarrow>
     bindk (wait_on_inode i) (\<lambda>_.
     bindk (get_inode i) (\<lambda>n. if i_count n = 0 then panick ''iput: trying to free free inode''
     else if i_pipe n \<noteq> 0 then
       bindk (wake_up (WInode i)) (\<lambda>_.
       bindk (upd_inode i (\<lambda>n. n\<lparr>i_count := i_count n - 1\<rparr>)) (\<lambda>_.
       bindk (get_inode i) (\<lambda>n. if i_count n \<noteq> 0 then retk () else
       bindk (free_page (ucast (i_size n))) (\<lambda>_.
       upd_inode i (\<lambda>n. n\<lparr>i_count := 0, i_dirt := 0, i_pipe := 0\<rparr>)))))
     else
       bindk (whenk (S_ISBLK (i_mode n)) (bindk (nthk (i_zone n) 0) (\<lambda>z.
          bindk (sync_dev (uint z)) (\<lambda>_. wait_on_inode i)))) (\<lambda>_.
       loopk WAIT_FUEL (\<lambda>_. bindk (get_inode i) (\<lambda>n.
          if i_count n > 1 then bindk (upd_inode i (\<lambda>n. n\<lparr>i_count := i_count n - 1\<rparr>)) (\<lambda>_. retk (Inr ()))
          else if i_nlinks n = 0 then bindk (truncate i) (\<lambda>_. bindk (free_inode i) (\<lambda>_. retk (Inr ())))
          else if i_dirt n \<noteq> 0 then bindk (write_inode i) (\<lambda>_. bindk (wait_on_inode i) (\<lambda>_. retk (Inl ())))
          else bindk (upd_inode i (\<lambda>n. n\<lparr>i_count := i_count n - 1\<rparr>)) (\<lambda>_. retk (Inr ())))) ()))))"

text \<open>The \<open>for\<close> of \<open>get_empty_inode\<close>: \<open>n\<close> rounds are left, \<open>r\<close> is the variable \<open>inode\<close>.\<close>

fun scan_inodes :: "nat \<Rightarrow> nat option \<Rightarrow> nat option K" where
  "scan_inodes 0 r = retk r"
| "scan_inodes (Suc n) r = bindk (modk (\<lambda>s. s\<lparr>last_inode := if last_inode s + 1 \<ge> NR_INODE then 0 else last_inode s + 1\<rparr>)) (\<lambda>_.
     bindk (getk last_inode) (\<lambda>i. bindk (get_inode i) (\<lambda>x.
     if i_count x = 0 then if i_dirt x = 0 \<and> i_lock x = 0 then retk (Some i) else scan_inodes n (Some i)
     else scan_inodes n r)))"

definition get_empty_inode :: "nat K" where
  "get_empty_inode = loopk WAIT_FUEL (\<lambda>_.
     bindk (scan_inodes NR_INODE None) (\<lambda>r. case r of None \<Rightarrow> panick ''No free inodes in mem'' | Some i \<Rightarrow>
     bindk (wait_on_inode i) (\<lambda>_.
     bindk (loopk WAIT_FUEL (\<lambda>_. bindk (get_inode i) (\<lambda>n. if i_dirt n = 0 then retk (Inr ()) else
        bindk (write_inode i) (\<lambda>_. bindk (wait_on_inode i) (\<lambda>_. retk (Inl ()))))) ()) (\<lambda>_.
     bindk (get_inode i) (\<lambda>n. if i_count n \<noteq> 0 then retk (Inl ()) else
     bindk (upd_inode i (\<lambda>_. zero_inode\<lparr>i_count := 1\<rparr>)) (\<lambda>_. retk (Inr i))))))) ()"

definition get_pipe_inode :: "nat option K" where
  "get_pipe_inode = bindk get_empty_inode (\<lambda>i.
     bindk get_free_page (\<lambda>pg.
     bindk (upd_inode i (\<lambda>n. n\<lparr>i_size := ucast pg\<rparr>)) (\<lambda>_.
     if (ucast pg :: u32) = 0 then bindk (upd_inode i (\<lambda>n. n\<lparr>i_count := 0\<rparr>)) (\<lambda>_. retk None) else
     bindk (upd_inode i (\<lambda>n. n\<lparr>i_count := 2, i_zone := (i_zone n)[1 := 0, 0 := 0], i_pipe := 1\<rparr>)) (\<lambda>_. retk (Some i)))))"

definition new_inode :: "int \<Rightarrow> nat option K" where
  "new_inode dev = bindk get_empty_inode (\<lambda>ino.
     bindk (get_super dev) (\<lambda>r. case r of None \<Rightarrow> panick ''new_inode with unknown device'' | Some k \<Rightarrow>
     bindk (get_sb k) (\<lambda>sb.
     bindk (scan_map 0 (s_imap sb) None 8192) (\<lambda>(i, bh, j).
     if bh = None \<or> j \<ge> 8192 \<or> int j + int i * 8192 > uint (s_ninodes sb)
     then bindk (iput (Some ino)) (\<lambda>_. retk None) else
     bindk (derefk bh) (\<lambda>b.
     bindk (set_bit j b) (\<lambda>old. if old then panick ''new_inode: bit already set'' else
     bindk (upd_bh b (\<lambda>h. h\<lparr>b_dirt := 1\<rparr>)) (\<lambda>_.
     bindk (getk cur_task) (\<lambda>t.
     bindk (getk CURRENT_TIME) (\<lambda>now.
     bindk (upd_inode ino (\<lambda>n. n\<lparr>i_count := 1, i_nlinks := 1, i_dev := word_of_int dev, i_uid := t_euid t,
        i_gid := ucast (t_egid t), i_dirt := 1, i_num := word_of_nat (j + i * 8192),
        i_ctime := word_of_int now, i_atime := word_of_int now, i_mtime := word_of_int now\<rparr>)) (\<lambda>_.
     retk (Some ino)))))))))))"

text \<open>The super block an inode is mounted on: the \<open>for\<close> over \<open>super_block\<close>.\<close>

definition find_mount :: "nat \<Rightarrow> kstate \<Rightarrow> nat option" where
  "find_mount i s = List.find (\<lambda>k. s_imount (super_block s ! k) = Some i) [0..<NR_SUPER]"

definition iget_step :: "nat \<Rightarrow> nat \<times> int \<times> int \<Rightarrow> (nat \<times> int \<times> int + nat) K" where
  "iget_step emp = (\<lambda>(i, dev, nr). if i \<ge> NR_INODE then
       bindk (upd_inode emp (\<lambda>n. n\<lparr>i_dev := word_of_int dev, i_num := word_of_int nr\<rparr>)) (\<lambda>_.
       bindk (read_inode emp) (\<lambda>_. retk (Inr emp)))
     else bindk (get_inode i) (\<lambda>n. if uint (i_dev n) \<noteq> dev \<or> uint (i_num n) \<noteq> nr then retk (Inl (i + 1, dev, nr)) else
       bindk (wait_on_inode i) (\<lambda>_.
       bindk (get_inode i) (\<lambda>n. if uint (i_dev n) \<noteq> dev \<or> uint (i_num n) \<noteq> nr then retk (Inl (0, dev, nr)) else
       bindk (upd_inode i (\<lambda>n. n\<lparr>i_count := i_count n + 1\<rparr>)) (\<lambda>_.
       if i_mount n \<noteq> 0 then
         bindk (getk (find_mount i)) (\<lambda>m. case m of
           None \<Rightarrow> bindk (iput (Some emp)) (\<lambda>_. retk (Inr i))
         | Some k \<Rightarrow> bindk (iput (Some i)) (\<lambda>_. bindk (get_sb k) (\<lambda>sb. retk (Inl (0, uint (s_dev sb), 1)))))
       else bindk (iput (Some emp)) (\<lambda>_. retk (Inr i)))))))"

definition iget :: "int \<Rightarrow> int \<Rightarrow> nat K" where
  "iget dev nr = (if dev = 0 then panick ''iget with dev == 0'' else
     bindk get_empty_inode (\<lambda>emp. loopk WAIT_FUEL (iget_step emp) (0, dev, nr)))"

section \<open>All operations keep the tables well-formed\<close>

lemma kv_modk: "(\<And>s. bufs (f s) = bufs s \<and> hash_table (f s) = hash_table s \<and> free_list (f s) = free_list s \<and>
    inode_table (f s) = inode_table s \<and> super_block (f s) = super_block s \<and> sys_shape (f s) = sys_shape s) \<Longrightarrow> keeps kinv (modk f)"
  by (rule keeps_modk) (rule kinv_other; simp)

lemma kv_page_ops [keeps_intros]: "keeps kinv get_free_page" "keeps kinv (free_page a)"
  by (auto simp: keeps_def get_free_page_def free_page_def kdefs Let_def split: option.splits intro: kinv_other [rotated 6])

lemma kv_data_len:
  assumes "length bs = BLOCK_SIZE"
  shows "keeps kinv (upd_bh b (\<lambda>h. h\<lparr>b_data := bs\<rparr>))"
proof -
  have e: "put_bytes 0 bs xs = bs" if "length xs = BLOCK_SIZE" for xs using that assms by (simp add: put_bytes_def)
  have "post kinv (upd_bh b (\<lambda>h. h\<lparr>b_data := bs\<rparr>) s)" if k: "kinv s" for s
  proof (cases "b < length (bufs s)")
    case True
    have "length (b_data (bufs s ! b)) = BLOCK_SIZE" using k True by (auto simp: kinv_def cache_ok_def cache_rel_def)
    then have "data_step s (s\<lparr>bufs := (bufs s)[b := (bufs s ! b)\<lparr>b_data := bs\<rparr>]\<rparr>)"
      using True assms by (auto simp: data_step_def nth_list_update)
    then show ?thesis using k kv.Q_io [OF io_step_bufs] by (simp add: upd_bh_def True)
  qed (simp add: upd_bh_def)
  then show ?thesis by (simp add: keeps_def)
qed

lemma kv_bits [keeps_intros]: "keeps kinv (set_bit n b)" "keeps kinv (clear_bit n b)"
proof -
  show "keeps kinv (set_bit n b)"
    unfolding set_bit_def
  proof (intro kv_get_bh)
    fix h :: buffer_head assume l: "length (b_data h) = BLOCK_SIZE"
    show "keeps kinv (case set_bit_byte n (b_data h) of None \<Rightarrow> faultk
     | Some (old, bs) \<Rightarrow> bindk (upd_bh b (\<lambda>h. h\<lparr>b_data := bs\<rparr>)) (\<lambda>_. retk old))"
      using bitmap_set(2) [of n "b_data h"] l by (auto intro!: keeps_intros kv_data_len split: option.splits)
  qed
  show "keeps kinv (clear_bit n b)"
    unfolding clear_bit_def
  proof (intro kv_get_bh)
    fix h :: buffer_head assume l: "length (b_data h) = BLOCK_SIZE"
    show "keeps kinv (case clear_bit_byte n (b_data h) of None \<Rightarrow> faultk
     | Some (old, bs) \<Rightarrow> bindk (upd_bh b (\<lambda>h. h\<lparr>b_data := bs\<rparr>)) (\<lambda>_. retk old))"
      using bitmap_clear(2) [of n "b_data h"] l by (auto intro!: keeps_intros kv_data_len split: option.splits)
  qed
qed

lemma kv_scan_map [keeps_intros]: "keeps Q (scan_map i ps bh j)"
  by (induction i ps bh j rule: scan_map.induct) (auto simp: Let_def intro!: keeps_intros)

lemma kv_free_block [keeps_intros]: "keeps kinv (free_block dev block)"
  unfolding free_block_def forget_block_def Let_def by (intro keeps_intros; simp)

lemma kv_new_block [keeps_intros]: "0 \<le> dev \<Longrightarrow> dev < 2 ^ 16 \<Longrightarrow> keeps kinv (new_block dev)"
  unfolding new_block_def clear_block_def Let_def
  by (intro keeps_intros) (auto intro!: keeps_intros)

lemma kv_free_inode [keeps_intros]: "keeps kinv (free_inode i)"
  unfolding free_inode_def by (intro keeps_intros; simp add: zero_inode_def)

lemma kv_free_ind [keeps_intros]: "0 \<le> dev \<Longrightarrow> dev < 2 ^ 16 \<Longrightarrow> keeps kinv (free_ind dev block)"
  unfolding free_ind_def Let_def by (intro keeps_intros)

lemma kv_free_dind [keeps_intros]: "0 \<le> dev \<Longrightarrow> dev < 2 ^ 16 \<Longrightarrow> keeps kinv (free_dind dev block)"
  unfolding free_dind_def Let_def by (intro keeps_intros)

lemma kv_truncate [keeps_intros]: "keeps kinv (truncate i)"
  unfolding truncate_def by (intro keeps_intros; simp)

lemma kv_zone_create [keeps_intros]: "keeps kinv (zone_create i k c)" "keeps kinv (inode_zone i k)"
  unfolding zone_create_def inode_zone_def by (intro keeps_intros; simp)+

lemma kv_ind_entry: "k < 512 \<Longrightarrow> keeps kinv (ind_entry i b k c)"
  unfolding ind_entry_def Let_def by (intro kv_put_bytes keeps_intros; simp)

lemma kv_u_bmap [keeps_intros]: "keeps kinv (u_bmap i block c)"
  unfolding u_bmap_def by (intro keeps_intros kv_ind_entry; simp)

lemma kv_iput [keeps_intros]: "keeps kinv (iput p)"
  unfolding iput_def by (intro keeps_intros; simp)

lemma kv_scan_inodes [keeps_intros]: "keeps kinv (scan_inodes n r)"
  by (induction n arbitrary: r) (auto intro!: keeps_intros kv_modk)

lemma kv_get_empty_inode [keeps_intros]: "keeps kinv get_empty_inode"
  unfolding get_empty_inode_def by (intro keeps_intros; simp add: zero_inode_def)

lemma kv_get_pipe_inode [keeps_intros]: "keeps kinv get_pipe_inode"
  unfolding get_pipe_inode_def by (intro keeps_intros; simp)

lemma kv_new_inode [keeps_intros]: "keeps kinv (new_inode dev)"
  unfolding new_inode_def by (intro keeps_intros) (auto intro!: keeps_intros)

lemma kv_iget [keeps_intros]: "keeps kinv (iget dev nr)"
  unfolding iget_def iget_step_def by (intro keeps_intros) (auto intro!: keeps_intros split: prod.splits)

end
