(* ===== verification/Super.thy ===== *)
theory Super
  imports Inode
begin

text \<open>
  Super blocks (\<open>fs/super.c\<close>): reading and releasing them, mounting and unmounting, the root file
  system. \<open>sys_mount\<close> and \<open>sys_umount\<close> take the name lookups \<open>namei(...)\<close> as arguments: a computation
  that returns the inode of the name or NULL.
\<close>

abbreviation "ROOT_INO \<equiv> (1 :: int)"
abbreviation "ENOENT \<equiv> (2 :: int)"
abbreviation "EPERM \<equiv> (1 :: int)"
abbreviation "EBUSY \<equiv> (16 :: int)"
abbreviation "ENOTBLK \<equiv> (15 :: int)"

text \<open>\<open>*((struct d_super_block *)s) = *((struct d_super_block *)bh->b_data)\<close>.\<close>

definition set_d_super :: "u8 list \<Rightarrow> super_block \<Rightarrow> super_block" where
  "set_d_super bs sb = sb\<lparr>s_ninodes := get16 bs 0, s_nzones := get16 bs 2, s_imap_blocks := get16 bs 4,
     s_zmap_blocks := get16 bs 6, s_firstdatazone := get16 bs 8, s_log_zone_size := get16 bs 10,
     s_max_size := get32 bs 12, s_magic := get16 bs 16\<rparr>"

definition release_maps :: "nat \<Rightarrow> unit K" where
  "release_maps k = bindk (get_sb k) (\<lambda>sb. bindk (eachk brelse (s_imap sb)) (\<lambda>_. eachk brelse (s_zmap sb)))"

definition put_super :: "int \<Rightarrow> unit K" where
  "put_super dev = bindk (getk ROOT_DEV) (\<lambda>rdev. if dev = rdev then retk () else
     bindk (get_super dev) (\<lambda>r. case r of None \<Rightarrow> retk () | Some k \<Rightarrow>
     bindk (get_sb k) (\<lambda>sb. if s_imount sb \<noteq> None then retk () else
     bindk (lock_super k) (\<lambda>_.
     bindk (upd_sb k (\<lambda>sb. sb\<lparr>s_dev := 0\<rparr>)) (\<lambda>_.
     bindk (release_maps k) (\<lambda>_. free_super k))))))"

text \<open>\<open>for(i = 0;i < n;i++) if(map[i] = bread(dev,block)) block++; else break;\<close>: the count may exceed
  the eight slots of the array, which is out of range.\<close>

definition set_imap :: "nat \<Rightarrow> nat option \<Rightarrow> super_block \<Rightarrow> super_block" where
  "set_imap i p sb = sb\<lparr>s_imap := (s_imap sb)[i := p]\<rparr>"

definition set_zmap :: "nat \<Rightarrow> nat option \<Rightarrow> super_block \<Rightarrow> super_block" where
  "set_zmap i p sb = sb\<lparr>s_zmap := (s_zmap sb)[i := p]\<rparr>"

fun load_map :: "nat \<Rightarrow> int \<Rightarrow> (nat \<Rightarrow> nat option \<Rightarrow> super_block \<Rightarrow> super_block) \<Rightarrow> nat list \<Rightarrow> int \<Rightarrow> int K" where
  "load_map k dev put [] block = retk block"
| "load_map k dev put (i # is) block = bindk (bread dev block) (\<lambda>r.
     if i \<ge> 8 then faultk else
     bindk (upd_sb k (put i r)) (\<lambda>_. if r = None then retk block else load_map k dev put is (block + 1)))"

definition fail_super :: "nat \<Rightarrow> nat option K" where
  "fail_super k = bindk (upd_sb k (\<lambda>sb. sb\<lparr>s_dev := 0\<rparr>)) (\<lambda>_. bindk (free_super k) (\<lambda>_. retk None))"

definition or_first_bit :: "nat option \<Rightarrow> unit K" where
  "or_first_bit p = bindk (derefk p) (\<lambda>b. upd_bh b (\<lambda>h. h\<lparr>b_data := (b_data h)[0 := b_data h ! 0 OR 1]\<rparr>))"

definition free_slot :: "kstate \<Rightarrow> nat option" where
  "free_slot s = List.find (\<lambda>k. s_dev (super_block s ! k) = 0) [0..<NR_SUPER]"

definition read_super :: "int \<Rightarrow> nat option K" where
  "read_super dev = (if dev = 0 then retk None else
     bindk (get_super dev) (\<lambda>r. case r of Some k \<Rightarrow> retk (Some k) | None \<Rightarrow>
     bindk (getk free_slot) (\<lambda>r. case r of None \<Rightarrow> retk None | Some k \<Rightarrow>
     bindk (upd_sb k (\<lambda>sb. sb\<lparr>s_dev := word_of_int dev, s_isup := None, s_imount := None, s_time := 0,
        s_rd_only := 0, s_dirt := 0\<rparr>)) (\<lambda>_.
     bindk (lock_super k) (\<lambda>_.
     bindk (bread dev 1) (\<lambda>r. case r of None \<Rightarrow> fail_super k | Some b \<Rightarrow>
     bindk (get_bh b) (\<lambda>h.
     bindk (upd_sb k (set_d_super (b_data h))) (\<lambda>_.
     bindk (brelse (Some b)) (\<lambda>_.
     bindk (get_sb k) (\<lambda>sb. if s_magic sb \<noteq> 0x137F then fail_super k else
     bindk (upd_sb k (\<lambda>sb. sb\<lparr>s_imap := replicate I_MAP_SLOTS None, s_zmap := replicate Z_MAP_SLOTS None\<rparr>)) (\<lambda>_.
     bindk (load_map k dev set_imap [0..<unat (s_imap_blocks sb)] 2) (\<lambda>blk1.
     bindk (load_map k dev set_zmap [0..<unat (s_zmap_blocks sb)] blk1) (\<lambda>blk2.
     if blk2 \<noteq> 2 + uint (s_imap_blocks sb) + uint (s_zmap_blocks sb)
     then bindk (release_maps k) (\<lambda>_. fail_super k) else
     bindk (get_sb k) (\<lambda>sb.
     bindk (nthk (s_imap sb) 0) (\<lambda>p. bindk (or_first_bit p) (\<lambda>_.
     bindk (nthk (s_zmap sb) 0) (\<lambda>p. bindk (or_first_bit p) (\<lambda>_.
     bindk (free_super k) (\<lambda>_. retk (Some k))))))))))))))))))))"

section \<open>Mounting\<close>

definition busy_inode :: "int \<Rightarrow> kstate \<Rightarrow> bool" where
  "busy_inode dev s = list_ex (\<lambda>n. uint (i_dev n) = dev \<and> i_count n \<noteq> 0) (inode_table s)"

definition sys_umount :: "nat option K \<Rightarrow> int K" where
  "sys_umount namei_dev = bindk namei_dev (\<lambda>r. case r of None \<Rightarrow> retk (- ENOENT) | Some i \<Rightarrow>
     bindk (get_inode i) (\<lambda>n. bindk (nthk (i_zone n) 0) (\<lambda>z. let dev = uint z in
     if \<not> S_ISBLK (i_mode n) then bindk (iput (Some i)) (\<lambda>_. retk (- ENOTBLK)) else
     bindk (iput (Some i)) (\<lambda>_.
     bindk (getk ROOT_DEV) (\<lambda>rdev. if dev = rdev then retk (- EBUSY) else
     bindk (get_super dev) (\<lambda>r. case r of None \<Rightarrow> retk (- ENOENT) | Some k \<Rightarrow>
     bindk (get_sb k) (\<lambda>sb. case s_imount sb of None \<Rightarrow> retk (- ENOENT) | Some m \<Rightarrow>
     bindk (getk (busy_inode dev)) (\<lambda>busy. if busy then retk (- EBUSY) else
     bindk (upd_inode m (\<lambda>n. n\<lparr>i_mount := 0\<rparr>)) (\<lambda>_.
     bindk (iput (Some m)) (\<lambda>_.
     bindk (upd_sb k (\<lambda>sb. sb\<lparr>s_imount := None\<rparr>)) (\<lambda>_.
     bindk (get_sb k) (\<lambda>sb. bindk (iput (s_isup sb)) (\<lambda>_.
     bindk (put_super dev) (\<lambda>_.
     bindk (sync_dev dev) (\<lambda>_. retk 0)))))))))))))))"

text \<open>\<open>S_ISBLK(dev_i->i_mount)\<close> tests the mount flag (a byte), and \<open>dir_i->i_num = ROOT_INO\<close> is an
  assignment, evaluated only when the count is 1.\<close>

definition sys_mount :: "nat option K \<Rightarrow> nat option K \<Rightarrow> int K" where
  "sys_mount namei_dev namei_dir = bindk namei_dev (\<lambda>r. case r of None \<Rightarrow> retk (- ENOENT) | Some d \<Rightarrow>
     bindk (get_inode d) (\<lambda>dn. bindk (nthk (i_zone dn) 0) (\<lambda>z. let dev = uint z in
     if \<not> S_ISBLK (ucast (i_mount dn)) then bindk (iput (Some d)) (\<lambda>_. retk (- EPERM)) else
     bindk (iput (Some d)) (\<lambda>_.
     bindk namei_dir (\<lambda>r. case r of None \<Rightarrow> retk (- ENOENT) | Some i \<Rightarrow>
     bindk (get_inode i) (\<lambda>n.
     bindk (if i_count n \<noteq> 1 then retk True
            else bindk (upd_inode i (\<lambda>n. n\<lparr>i_num := word_of_int ROOT_INO\<rparr>)) (\<lambda>_. retk (ROOT_INO \<noteq> 0))) (\<lambda>busy.
     if busy then bindk (iput (Some i)) (\<lambda>_. retk (- EBUSY)) else
     if \<not> S_ISDIR (i_mode n) then bindk (iput (Some i)) (\<lambda>_. retk (- EPERM)) else
     bindk (read_super dev) (\<lambda>r. case r of None \<Rightarrow> bindk (iput (Some i)) (\<lambda>_. retk (- EBUSY)) | Some k \<Rightarrow>
     bindk (get_sb k) (\<lambda>sb. if s_imount sb \<noteq> None then bindk (iput (Some i)) (\<lambda>_. retk (- EBUSY)) else
     bindk (get_inode i) (\<lambda>n. if i_mount n \<noteq> 0 then bindk (iput (Some i)) (\<lambda>_. retk (- EPERM)) else
     bindk (upd_sb k (\<lambda>sb. sb\<lparr>s_imount := Some i\<rparr>)) (\<lambda>_.
     bindk (upd_inode i (\<lambda>n. n\<lparr>i_mount := 1, i_dirt := 1\<rparr>)) (\<lambda>_. retk 0))))))))))))"

text \<open>\<open>set_bit\<close> of \<open>super.c\<close> only reads the bit.\<close>

definition test_bit :: "nat option list \<Rightarrow> nat \<Rightarrow> bool K" where
  "test_bit maps n = bindk (nthk maps (n div 8192)) (\<lambda>p. bindk (derefk p) (\<lambda>b. bindk (get_bh b) (\<lambda>h.
     bindk (nthk (b_data h) (n mod 8192 div 8)) (\<lambda>byte. retk (bit byte (n mod 8))))))"

fun count_free :: "nat option list \<Rightarrow> nat list \<Rightarrow> nat \<Rightarrow> nat K" where
  "count_free maps [] c = retk c"
| "count_free maps (n # ns) c = bindk (test_bit maps n) (\<lambda>b. count_free maps ns (if b then c else c + 1))"

definition mount_root :: "unit K" where
  "mount_root =
     bindk (modk (\<lambda>s. s\<lparr>file_table := map (\<lambda>f. f\<lparr>f_count := 0\<rparr>) (file_table s),
        super_block := map (\<lambda>p. p\<lparr>s_dev := 0, s_lock := 0, s_wait := 0\<rparr>) (super_block s)\<rparr>)) (\<lambda>_.
     bindk (getk ROOT_DEV) (\<lambda>rdev.
     bindk (read_super rdev) (\<lambda>r. case r of None \<Rightarrow> panick ''Unable to mount root'' | Some k \<Rightarrow>
     bindk (iget rdev ROOT_INO) (\<lambda>mi.
     bindk (upd_inode mi (\<lambda>n. n\<lparr>i_count := i_count n + 3\<rparr>)) (\<lambda>_.
     bindk (upd_sb k (\<lambda>sb. sb\<lparr>s_imount := Some mi, s_isup := Some mi\<rparr>)) (\<lambda>_.
     bindk (upd_cur (\<lambda>t. t\<lparr>t_pwd := Some mi, t_root := Some mi\<rparr>)) (\<lambda>_.
     bindk (get_sb k) (\<lambda>sb.
     bindk (count_free (s_zmap sb) (rev [1..<unat (s_nzones sb)]) 0) (\<lambda>_.
     bindk (count_free (s_imap sb) (rev [0..<unat (s_ninodes sb) + 1]) 0) (\<lambda>_. retk ()))))))))))"

section \<open>Mounting keeps the tables well-formed\<close>

lemma kv_release_maps [keeps_intros]: "keeps kinv (release_maps k)"
  unfolding release_maps_def by (intro keeps_intros)

lemma kv_put_super [keeps_intros]: "keeps kinv (put_super dev)"
  unfolding put_super_def by (intro keeps_intros; simp)

lemma kv_load_map:
  assumes "0 \<le> dev" "dev < 2 ^ 16"
    and "\<And>i p sb. length (s_imap (put i p sb)) = length (s_imap sb) \<and> length (s_zmap (put i p sb)) = length (s_zmap sb)"
  shows "keeps kinv (load_map k dev put is block)"
  using assms(3) by (induction "is" arbitrary: block) (auto intro!: keeps_intros assms(1,2))

lemma kv_fail_super [keeps_intros]: "keeps kinv (fail_super k)"
  unfolding fail_super_def by (intro keeps_intros; simp)

lemma kv_or_first_bit [keeps_intros]: "keeps kinv (or_first_bit p)"
  unfolding or_first_bit_def by (intro keeps_intros; simp)

lemma kv_read_super [keeps_intros]: "0 \<le> dev \<Longrightarrow> dev < 2 ^ 16 \<Longrightarrow> keeps kinv (read_super dev)"
  unfolding read_super_def
  by (intro keeps_intros kv_load_map; simp add: set_imap_def set_zmap_def set_d_super_def)

lemma kv_sys_umount: "keeps kinv nm \<Longrightarrow> keeps kinv (sys_umount nm)"
  unfolding sys_umount_def Let_def by (intro keeps_intros; simp)

lemma kv_sys_mount: "keeps kinv nm \<Longrightarrow> keeps kinv nd \<Longrightarrow> keeps kinv (sys_mount nm nd)"
  unfolding sys_mount_def Let_def by (intro keeps_intros; simp)

lemma kv_count_free [keeps_intros]: "keeps Q (count_free maps ns c)"
  by (induction ns arbitrary: c) (auto simp: test_bit_def intro!: keeps_intros)

end
