(* ===== verification/Inode_IO.thy ===== *)
theory Inode_IO
  imports Super
begin

text \<open>
  What the inode code does to the contents of the disk, over the logical block contents \<open>view\<close> of the
  buffer cache: \<open>write_inode\<close> and \<open>read_inode\<close> store and load the 32 bytes of an inode, \<open>bmap\<close> follows
  the zone numbers of the inode and its indirect blocks.
\<close>

section \<open>Lookups that do not sleep\<close>

definition supers_free :: "kstate \<Rightarrow> bool" where
  "supers_free s \<longleftrightarrow> length (super_block s) = NR_SUPER \<and> (\<forall>k < NR_SUPER. s_lock (super_block s ! k) = 0)"

definition super_of :: "kstate \<Rightarrow> int \<Rightarrow> nat option" where
  "super_of s dev = List.find (\<lambda>k. uint (s_dev (super_block s ! k)) = dev) [0..<NR_SUPER]"

lemma wait_on_super_free: "k < length (super_block s) \<Longrightarrow> s_lock (super_block s ! k) = 0 \<Longrightarrow> wait_on_super k s = Ok () s"
  by (simp add: wait_on_super_def loopk_numeral get_sb_def retk_def)

lemma wait_on_inode_free: "i < length (inode_table s) \<Longrightarrow> i_lock (inode_table s ! i) = 0 \<Longrightarrow> wait_on_inode i s = Ok () s"
  by (simp add: wait_on_inode_def loopk_numeral get_inode_def retk_def)

lemma get_super_loop:
  assumes "supers_free s" "i \<le> NR_SUPER" "NR_SUPER - i < n"
  shows "loopk n (\<lambda>i. if i \<ge> NR_SUPER then retk (Inr None) else
       bindk (get_sb i) (\<lambda>sb. if uint (s_dev sb) = dev then
         bindk (wait_on_super i) (\<lambda>_. bindk (get_sb i) (\<lambda>sb.
           if uint (s_dev sb) = dev then retk (Inr (Some i)) else retk (Inl 0)))
       else retk (Inl (i + 1)))) i s = Ok (List.find (\<lambda>k. uint (s_dev (super_block s ! k)) = dev) [i..<NR_SUPER]) s"
  using assms
proof (induction n arbitrary: i)
  case (Suc n)
  show ?case
  proof (cases "i < NR_SUPER")
    case True
    then have "[i..<NR_SUPER] = i # [Suc i..<NR_SUPER]" by (simp add: upt_conv_Cons)
    moreover have "wait_on_super i s = Ok () s" using Suc.prems True by (intro wait_on_super_free) (simp_all add: supers_free_def)
    ultimately show ?thesis using Suc.IH [of "Suc i"] Suc.prems True
      by (auto simp: supers_free_def get_sb_def retk_def)
  qed (use Suc.prems in \<open>simp add: retk_def\<close>)
qed simp

lemma get_super_eq: "supers_free s \<Longrightarrow> dev \<noteq> 0 \<Longrightarrow> get_super dev s = Ok (super_of s dev) s"
  unfolding get_super_def super_of_def using get_super_loop [of s 0 WAIT_FUEL dev] by simp

lemma super_of_Some: "super_of s dev = Some k \<Longrightarrow> k < NR_SUPER \<and> uint (s_dev (super_block s ! k)) = dev"
  by (auto simp: super_of_def find_Some_iff)

section \<open>Blocks that can be had\<close>

text \<open>Block \<open>n\<close> can be read without waiting: it is cached or some buffer is to spare.\<close>

definition at_hand :: "kstate \<Rightarrow> nat \<Rightarrow> bool" where
  "at_hand s n \<longleftrightarrow> fs_ok s \<and> n < rd_blocks s \<and> ((\<exists>b < length (bufs s). bh_is RD (int n) (bufs s ! b)) \<or> room s \<noteq> {}) \<and>
     (\<forall>b < length (bufs s). b_count (bufs s ! b) \<noteq> 255)"

lemma at_hand_usable: "usable s \<Longrightarrow> n < rd_blocks s \<Longrightarrow> at_hand s n"
  by (simp add: at_hand_def usable_def)

lemma at_hand_other:
  assumes "bufs t = bufs s" "hash_table t = hash_table s" "free_list t = free_list s" "request t = request s"
    "blk_dev t = blk_dev s" "rd_mem t = rd_mem s" "rd_length t = rd_length s"
  shows "at_hand t n = at_hand s n"
  using cache_other [OF assms] by (simp add: at_hand_def assms(1))

lemma at_hand_bread:
  assumes "at_hand s n"
  shows "\<exists>b t. bread RD (int n) s = Ok (Some b) t \<and> reads s n b t \<and> b_count (bufs t ! b) \<noteq> 0"
proof -
  have h: "fs_ok s" "n < rd_blocks s" "(\<exists>b < length (bufs s). bh_is RD (int n) (bufs s ! b)) \<or> room s \<noteq> {}"
    "\<forall>b < length (bufs s). b_count (bufs s ! b) \<noteq> 255" using assms by (auto simp: at_hand_def)
  from bread_reads [OF h(1-3), of sync_dev] reads_count [OF _ h(4)] show ?thesis unfolding bread_def by blast
qed

text \<open>Releasing what was read: the counts are as before or zero, and the block stays at hand.\<close>

lemma release_at_hand:
  assumes r: "reads s n b t" and h: "at_hand s n" and c: "b_count (bufs u ! b) = b_count (bufs t ! b)"
    and u: "fs_ok u" "rd_blocks u = rd_blocks s" "length (bufs u) = length (bufs s)" "bh_is RD (int n) (bufs u ! b)"
    and oth: "\<forall>x < length (bufs s). x \<noteq> b \<longrightarrow> bufs u ! x = bufs t ! x"
  shows "\<exists>v. brelse (Some b) u = Ok () v \<and> at_hand v n \<and> cache_frame u v \<and> (\<forall>m. view v m = view u m) \<and>
    (usable s \<longrightarrow> b_dirt (bufs u ! b) = b_dirt (bufs t ! b) \<longrightarrow> usable v)"
proof -
  note r' = r [unfolded reads_def] and h' = h [unfolded at_hand_def]
  have b: "b < length (bufs s)" using r' by simp
  have "b_count (bufs u ! b) \<noteq> 0" using reads_count [OF r] h' c by simp
  from brelse_eq [OF u(1) _ this] b u(3) obtain v where v: "brelse (Some b) u = Ok () v" "fs_ok v" "cache_frame u v"
    "rd_blocks v = rd_blocks u" "bufs v = (bufs u)[b := (bufs u ! b)\<lparr>b_count := b_count (bufs u ! b) - 1\<rparr>]"
    "\<forall>m. view v m = view u m" by auto
  have "b_count (bufs v ! x) \<noteq> 255" if "x < length (bufs s)" for x
  proof (cases "x = b")
    case True
    then show ?thesis using r' c h' b by (auto simp: v(5) u(3))
  next
    case False
    then show ?thesis using r' h' that oth by (simp add: v(5) u(3))
  qed
  moreover have "bh_is RD (int n) (bufs v ! b)" using u(3,4) b by (simp add: v(5) bh_is_def)
  ultimately have "at_hand v n" using v(2,4,5) u(2,3) h' b by (auto simp: at_hand_def)
  moreover have "usable v" if us: "usable s" "b_dirt (bufs u ! b) = b_dirt (bufs t ! b)"
    using reads_release [OF us(1) r u(1-3) c oth] us v(1) by (auto simp: usable_def)
  ultimately show ?thesis using v by blast
qed

lemma cache_frame_fs: "cache_frame s t \<Longrightarrow> inode_table t = inode_table s \<and> super_block t = super_block s \<and> rd_length t = rd_length s \<and> last_inode t = last_inode s"
  by (auto simp: cache_frame_def)

lemma cache_frame_inodes:
  assumes "cache_frame s t"
  shows "cache_frame (s\<lparr>inode_table := F, last_inode := l\<rparr>) (t\<lparr>inode_table := F, last_inode := l\<rparr>)"
proof -
  obtain bs ht q ts rq bd rm where t: "woken (tasks s) ts" "t = s\<lparr>bufs := bs, hash_table := ht, free_list := q, tasks := ts,
    request := rq, blk_dev := bd, rd_mem := rm\<rparr>" using assms unfolding cache_frame_def by blast
  show ?thesis by (rule cache_frameI [where bs = bs and ht = ht and q = q and ts = ts and rq = rq and bd = bd and rm = rm])
    (use t(1) in \<open>auto simp: t(2) intro!: kstate.equality\<close>)
qed

lemma cache_frame_woken: "woken (tasks s) ts \<Longrightarrow> cache_frame s (s\<lparr>tasks := ts\<rparr>)"
  by (rule cache_frameI [where bs = "bufs s" and ht = "hash_table s" and q = "free_list s" and ts = ts
    and rq = "request s" and bd = "blk_dev s" and rm = "rd_mem s"]) simp_all

lemma view_length: "fs_ok s \<Longrightarrow> n < rd_blocks s \<Longrightarrow> reads s n b t \<Longrightarrow> length (view s n) = BLOCK_SIZE"
proof -
  assume r: "reads s n b t"
  then have "bufs t ! b \<in> set (bufs t)" "cache_ok t" by (simp_all add: reads_def fs_ok_def)
  then have "length (b_data (bufs t ! b)) = BLOCK_SIZE" by (auto simp: cache_ok_def cache_rel_def)
  then show ?thesis using r by (simp add: reads_def)
qed

section \<open>Where an inode lives\<close>

text \<open>Inode \<open>i\<close> of the table is an inode of the ram disk, not locked; its super block is known, and its
  32 bytes are entry \<open>j\<close> of block \<open>blk\<close>, which can be read.\<close>

definition inode_at :: "kstate \<Rightarrow> nat \<Rightarrow> nat \<Rightarrow> nat \<Rightarrow> bool" where
  "inode_at s i blk j \<longleftrightarrow> i < length (inode_table s) \<and> i_lock (inode_table s ! i) = 0 \<and> uint (i_dev (inode_table s ! i)) = RD \<and>
     supers_free s \<and> (\<exists>k. super_of s RD = Some k \<and> inode_block (super_block s ! k) (i_num (inode_table s ! i)) = int blk) \<and>
     inode_index (i_num (inode_table s ! i)) = j \<and> at_hand s blk"

text \<open>The state after \<open>lock_inode\<close>, and what of it the rest of the operation relies on.\<close>

definition locked :: "nat \<Rightarrow> kstate \<Rightarrow> kstate" where
  "locked i s = s\<lparr>inode_table := (inode_table s)[i := (inode_table s ! i)\<lparr>i_lock := 1\<rparr>]\<rparr>"

lemma locked_cache:
  "fs_ok (locked i s) = fs_ok s" "view (locked i s) = view s" "rd_blocks (locked i s) = rd_blocks s"
  "at_hand (locked i s) n = at_hand s n" "super_block (locked i s) = super_block s" "super_of (locked i s) dev = super_of s dev"
  "supers_free (locked i s) = supers_free s"
  unfolding locked_def
  by (rule cache_other at_hand_other, simp_all)+ (simp_all add: super_of_def supers_free_def)

lemma inode_at_start:
  assumes "inode_at s i blk j"
  obtains k b t where "lock_inode i s = Ok () (locked i s)" "get_inode i (locked i s) = Ok ((inode_table s ! i)\<lparr>i_lock := 1\<rparr>) (locked i s)"
    "get_super RD (locked i s) = Ok (Some k) (locked i s)" "get_sb k (locked i s) = Ok (super_block s ! k) (locked i s)"
    "inode_block (super_block s ! k) (i_num (inode_table s ! i)) = int blk"
    "bread RD (int blk) (locked i s) = Ok (Some b) t" "reads (locked i s) blk b t"
proof -
  obtain k where k: "super_of s RD = Some k" "inode_block (super_block s ! k) (i_num (inode_table s ! i)) = int blk"
    using assms by (auto simp: inode_at_def)
  have i: "i < length (inode_table s)" "i_lock (inode_table s ! i) = 0" using assms by (auto simp: inode_at_def)
  have "lock_inode i s = Ok () (locked i s)"
    using wait_on_inode_free [OF i] i(1) by (simp add: lock_inode_def upd_inode_def locked_def)
  moreover have "get_inode i (locked i s) = Ok ((inode_table s ! i)\<lparr>i_lock := 1\<rparr>) (locked i s)"
    using i by (simp add: get_inode_def locked_def)
  moreover have "get_super RD (locked i s) = Ok (Some k) (locked i s)"
    using get_super_eq [of "locked i s" RD] assms k by (simp add: locked_cache inode_at_def)
  moreover have "get_sb k (locked i s) = Ok (super_block s ! k) (locked i s)"
    using super_of_Some [OF k(1)] assms by (simp add: get_sb_def locked_cache inode_at_def supers_free_def)
  moreover from at_hand_bread [of "locked i s" blk] assms obtain b t where
    "bread RD (int blk) (locked i s) = Ok (Some b) t" "reads (locked i s) blk b t" by (auto simp: locked_cache inode_at_def)
  ultimately show ?thesis using that k(2) by blast
qed

lemma unlock_inode_eq:
  assumes "i < length (inode_table s)"
  shows "\<exists>ts. woken (tasks s) ts \<and> unlock_inode i s = Ok () (s\<lparr>inode_table := (inode_table s)[i := (inode_table s ! i)\<lparr>i_lock := 0\<rparr>], tasks := ts\<rparr>)"
  using assms by (intro exI [of _ "wake (i_wait (inode_table s ! i)) (tasks s)"]) (simp add: unlock_inode_def upd_inode_def wake_up_eq)

lemma write_inode_law:
  assumes at: "inode_at s i blk j" and d: "i_dirt (inode_table s ! i) \<noteq> 0" and z: "length (i_zone (inode_table s ! i)) = 9"
  shows "\<exists>t. write_inode i s = Ok () t \<and> at_hand t blk \<and> rd_blocks t = rd_blocks s \<and> super_block t = super_block s \<and>
    inode_table t = (inode_table s)[i := (inode_table s ! i)\<lparr>i_dirt := 0, i_lock := 0\<rparr>] \<and>
    view t blk = put_bytes (32 * j) (encode_inode (d_inode_of (inode_table s ! i))) (view s blk) \<and>
    (\<forall>m < rd_blocks s. m \<noteq> blk \<longrightarrow> view t m = view s m) \<and> length (view s blk) = BLOCK_SIZE"
proof -
  let ?n = "inode_table s ! i" and ?l = "locked i s"
  from at obtain k b t where st: "lock_inode i s = Ok () ?l" "get_inode i ?l = Ok (?n\<lparr>i_lock := 1\<rparr>) ?l"
    "get_super RD ?l = Ok (Some k) ?l" "get_sb k ?l = Ok (super_block s ! k) ?l"
    "inode_block (super_block s ! k) (i_num ?n) = int blk" "bread RD (int blk) ?l = Ok (Some b) t" "reads ?l blk b t"
    by (rule inode_at_start)
  have i: "i < length (inode_table s)" and ha: "at_hand ?l blk" and ij: "inode_index (i_num ?n) = j" and dv: "uint (i_dev ?n) = RD"
    using at by (auto simp: inode_at_def locked_cache)
  have ok: "fs_ok ?l" "blk < rd_blocks ?l" using ha by (simp_all add: at_hand_def)
  have dv0: "i_dev ?n \<noteq> 0" using dv by auto
  note r = st(7) [unfolded reads_def]
  define new where "new = put_bytes (32 * j) (encode_inode (d_inode_of ?n)) (view s blk)"
  have lv: "length (view s blk) = BLOCK_SIZE" using view_length [OF ok st(7)] by (simp add: locked_cache)
  have le: "length (encode_inode (d_inode_of ?n)) = 32" using length_encode_inode [of "d_inode_of ?n"] z by (simp add: d_inode_of_def)
  then have ln: "length new = BLOCK_SIZE" using inode_index_less [of "i_num ?n"] ij lv by (simp add: new_def)
  define u where "u = t\<lparr>bufs := (bufs t)[b := (bufs t ! b)\<lparr>b_data := new, b_dirt := 1\<rparr>]\<rparr>"
  have b: "b < length (bufs t)" "bh_is RD (int blk) (bufs t ! b)" "b_uptodate (bufs t ! b) \<noteq> 0" "blk < rd_blocks t" "fs_ok t"
    using r ok by auto
  note vs = view_store [OF b(5,4,1-3) ln _ u_def]
  define v where "v = u\<lparr>inode_table := (inode_table u)[i := (inode_table u ! i)\<lparr>i_dirt := 0\<rparr>]\<rparr>"
  have ito: "inode_table t = inode_table ?l" "super_block t = super_block s"
    using cache_frame_fs r locked_cache by metis+
  have vc: "fs_ok v" "view v = view u" "rd_blocks v = rd_blocks u"
    using vs(1) cache_other(1-3) [of v u] by (simp_all add: v_def)
  have "\<exists>w. brelse (Some b) v = Ok () w \<and> at_hand w blk \<and> cache_frame v w \<and> (\<forall>m. view w m = view v m) \<and>
      (usable ?l \<longrightarrow> b_dirt (bufs v ! b) = b_dirt (bufs t ! b) \<longrightarrow> usable w)"
    by (rule release_at_hand [OF st(7) ha]) (use vc vs(4) r in \<open>auto simp: v_def u_def bh_is_def\<close>)
  then obtain w where w: "brelse (Some b) v = Ok () w" "at_hand w blk" "cache_frame v w" "\<forall>m. view w m = view v m" by blast
  have itw: "inode_table w = (inode_table s)[i := ?n\<lparr>i_lock := 1, i_dirt := 0\<rparr>]" "super_block w = super_block s" "rd_length w = rd_length t"
    using cache_frame_fs [OF w(3)] i ito by (simp_all add: v_def u_def locked_def)
  from unlock_inode_eq [of i w] i itw obtain ts where
    ul: "unlock_inode i w = Ok () (w\<lparr>inode_table := (inode_table w)[i := (inode_table w ! i)\<lparr>i_lock := 0\<rparr>], tasks := ts\<rparr>)" by auto
  define x where "x = w\<lparr>inode_table := (inode_table w)[i := (inode_table w ! i)\<lparr>i_lock := 0\<rparr>], tasks := ts\<rparr>"
  have "get_inode i t = Ok (?n\<lparr>i_lock := 1\<rparr>) t" using i ito by (simp add: get_inode_def locked_def)
  moreover have "upd_bh b (\<lambda>h. h\<lparr>b_data := put_bytes (32 * j) (encode_inode (d_inode_of (?n\<lparr>i_lock := 1\<rparr>))) (b_data h), b_dirt := 1\<rparr>) t = Ok () u"
    using b(1) r by (simp add: upd_bh_def u_def new_def d_inode_of_def locked_cache)
  moreover have "upd_inode i (\<lambda>n. n\<lparr>i_dirt := 0\<rparr>) u = Ok () v"
    using i ito by (simp add: upd_inode_def v_def u_def locked_def)
  ultimately have "write_inode i s = Ok () x"
    using st(1-6) d dv0 dv ij w(1) ul by (simp add: write_inode_def write_inode_gen_def bread_def x_def)
  moreover have "view x = view w" "at_hand x blk = at_hand w blk" "rd_blocks x = rd_blocks w"
    using cache_other(2,3) [of x w] at_hand_other [of x w] by (simp_all add: x_def)
  moreover have "rd_blocks w = rd_blocks s" using r itw(3) by (simp add: rd_blocks_def locked_def)
  ultimately show ?thesis using w vc vs itw i r lv
    by (intro exI [of _ x]) (simp add: x_def new_def locked_cache)
qed

lemma read_inode_full:
  assumes at: "inode_at s i blk j"
  shows "\<exists>t. read_inode i s = Ok () t \<and> at_hand t blk \<and> rd_blocks t = rd_blocks s \<and> super_block t = super_block s \<and>
    inode_table t = (inode_table s)[i := set_d_inode (decode_inode (view s blk) (32 * j)) (inode_table s ! i)] \<and>
    (\<forall>m < rd_blocks s. view t m = view s m) \<and> (usable s \<longrightarrow> usable t) \<and> cache_frame s (t\<lparr>inode_table := inode_table s\<rparr>)"
proof -
  let ?n = "inode_table s ! i" and ?l = "locked i s"
  from at obtain k b t where st: "lock_inode i s = Ok () ?l" "get_inode i ?l = Ok (?n\<lparr>i_lock := 1\<rparr>) ?l"
    "get_super RD ?l = Ok (Some k) ?l" "get_sb k ?l = Ok (super_block s ! k) ?l"
    "inode_block (super_block s ! k) (i_num ?n) = int blk" "bread RD (int blk) ?l = Ok (Some b) t" "reads ?l blk b t"
    by (rule inode_at_start)
  have i: "i < length (inode_table s)" and ha: "at_hand ?l blk" and ij: "inode_index (i_num ?n) = j"
    and dv: "uint (i_dev ?n) = RD" and lk: "i_lock ?n = 0"
    using at by (auto simp: inode_at_def locked_cache)
  note r = st(7) [unfolded reads_def]
  define d where "d = decode_inode (view s blk) (32 * j)"
  define v where "v = t\<lparr>inode_table := (inode_table t)[i := set_d_inode d (inode_table t ! i)]\<rparr>"
  have ito: "inode_table t = inode_table ?l" "super_block t = super_block s"
    using cache_frame_fs r locked_cache by metis+
  have vc: "fs_ok v" "view v = view t" "rd_blocks v = rd_blocks t"
    using r cache_other(1-3) [of v t] by (simp_all add: v_def)
  have "\<exists>w. brelse (Some b) v = Ok () w \<and> at_hand w blk \<and> cache_frame v w \<and> (\<forall>m. view w m = view v m) \<and>
      (usable ?l \<longrightarrow> b_dirt (bufs v ! b) = b_dirt (bufs t ! b) \<longrightarrow> usable w)"
    by (rule release_at_hand [OF st(7) ha]) (use vc r in \<open>auto simp: v_def\<close>)
  then obtain w where w: "brelse (Some b) v = Ok () w" "at_hand w blk" "cache_frame v w" "\<forall>m. view w m = view v m" "usable ?l \<longrightarrow> usable w"
    by (auto simp: v_def)
  have itw: "inode_table w = (inode_table s)[i := set_d_inode d (?n\<lparr>i_lock := 1\<rparr>)]" "super_block w = super_block s" "rd_length w = rd_length t"
    using cache_frame_fs [OF w(3)] i ito by (simp_all add: v_def locked_def)
  from unlock_inode_eq [of i w] i itw obtain ts where wk: "woken (tasks w) ts" and
    ul: "unlock_inode i w = Ok () (w\<lparr>inode_table := (inode_table w)[i := (inode_table w ! i)\<lparr>i_lock := 0\<rparr>], tasks := ts\<rparr>)" by auto
  define x where "x = w\<lparr>inode_table := (inode_table w)[i := (inode_table w ! i)\<lparr>i_lock := 0\<rparr>], tasks := ts\<rparr>"
  have "get_inode i t = Ok (?n\<lparr>i_lock := 1\<rparr>) t" using i ito by (simp add: get_inode_def locked_def)
  moreover have "get_bh b t = Ok (bufs t ! b) t" "b_data (bufs t ! b) = view s blk" using r by (simp_all add: get_bh_def locked_cache)
  moreover have "upd_inode i (set_d_inode d) t = Ok () v"
    using i ito by (simp add: upd_inode_def v_def locked_def)
  ultimately have "read_inode i s = Ok () x"
    using st(1-6) dv ij w(1) ul by (simp add: read_inode_def read_inode_gen_def bread_def x_def d_def)
  moreover have "view x = view w" "at_hand x blk = at_hand w blk" "rd_blocks x = rd_blocks w"
    using cache_other(2,3) [of x w] at_hand_other [of x w] by (simp_all add: x_def)
  moreover have "rd_blocks w = rd_blocks s" using r itw(3) by (simp add: rd_blocks_def locked_def)
  moreover have "(set_d_inode d (?n\<lparr>i_lock := 1\<rparr>))\<lparr>i_lock := 0\<rparr> = set_d_inode d ?n" using lk by (simp add: set_d_inode_def)
  moreover have "usable ?l = usable s" "usable x = usable w" by (rule cache_other(5), simp_all add: locked_def x_def)+
  moreover have "cache_frame s (x\<lparr>inode_table := inode_table s\<rparr>)"
  proof -
    have "cache_frame s (t\<lparr>inode_table := inode_table s, last_inode := last_inode s\<rparr>)"
      using r cache_frame_inodes [where F = "inode_table s" and l = "last_inode s", of ?l t] by (simp add: locked_def)
    moreover have "cache_frame (t\<lparr>inode_table := inode_table s, last_inode := last_inode s\<rparr>) (w\<lparr>inode_table := inode_table s, last_inode := last_inode s\<rparr>)"
      using cache_frame_inodes [OF w(3)] by (simp add: v_def)
    moreover have "cache_frame (w\<lparr>inode_table := inode_table s, last_inode := last_inode s\<rparr>) (x\<lparr>inode_table := inode_table s, last_inode := last_inode s\<rparr>)"
      using cache_frame_inodes [OF cache_frame_woken [OF wk]] by (simp add: x_def)
    ultimately have "cache_frame s (x\<lparr>inode_table := inode_table s, last_inode := last_inode s\<rparr>)" by (meson cache_frame_trans)
    moreover have "last_inode x = last_inode s"
      using r cache_frame_fs [OF w(3)] cache_frame_fs [of ?l t] by (simp add: x_def v_def locked_def)
    ultimately have "cache_frame s (x\<lparr>inode_table := inode_table s, last_inode := last_inode x\<rparr>)" by simp
    moreover have "x\<lparr>inode_table := inode_table s, last_inode := last_inode x\<rparr> = x\<lparr>inode_table := inode_table s\<rparr>" by (rule kstate.equality) simp_all
    ultimately show ?thesis by simp
  qed
  ultimately show ?thesis using w vc itw i r
    by (intro exI [of _ x]) (simp add: x_def locked_cache d_def)
qed

lemma read_inode_law:
  assumes "inode_at s i blk j"
  shows "\<exists>t. read_inode i s = Ok () t \<and> at_hand t blk \<and> rd_blocks t = rd_blocks s \<and> super_block t = super_block s \<and>
    inode_table t = (inode_table s)[i := set_d_inode (decode_inode (view s blk) (32 * j)) (inode_table s ! i)] \<and>
    (\<forall>m < rd_blocks s. view t m = view s m)"
  using read_inode_full [OF assms] by blast

section \<open>Allocating a block\<close>

lemma getblk_fresh:
  assumes ok: "fs_ok s" and n: "n < rd_blocks s" and rm: "room s \<noteq> {}"
    and idle: "\<And>b. b < length (bufs s) \<Longrightarrow> bh_is RD (int n) (bufs s ! b) \<Longrightarrow> b_count (bufs s ! b) = 0"
  shows "\<exists>b t. getblk RD (int n) s = Ok b t \<and> fs_ok t \<and> cache_frame s t \<and> rd_blocks t = rd_blocks s \<and> b < length (bufs t) \<and>
    bh_is RD (int n) (bufs t ! b) \<and> b_count (bufs t ! b) = 1 \<and> (\<forall>m < rd_blocks s. view t m = view s m)"
proof (cases "\<exists>b < length (bufs s). bh_is RD (int n) (bufs s ! b)")
  case True
  then obtain b where b: "b < length (bufs s)" "bh_is RD (int n) (bufs s ! b)" by blast
  define t where "t = s\<lparr>bufs := (bufs s)[b := (bufs s ! b)\<lparr>b_count := b_count (bufs s ! b) + 1\<rparr>]\<rparr>"
  have "getblk RD (int n) s = Ok b t"
    unfolding t_def getblk_def by (rule getblk_hit) (use ok b in \<open>simp_all add: fs_ok_def\<close>)
  moreover note count_step [OF ok t_def b(1)]
  moreover have "bh_is RD (int n) (bufs t ! b)" "b_count (bufs t ! b) = 1" "b < length (bufs t)"
    using b idle [OF b] by (simp_all add: t_def bh_is_def)
  ultimately show ?thesis by blast
next
  case False
  obtain hs fl where r: "cache_rel s hs fl" using ok by (auto simp: fs_ok_def cache_ok_def)
  have free: "\<exists>x < length (bufs s). b_count (bufs s ! x) = 0 \<and> b_dirt (bufs s ! x) = 0 \<and> b_lock (bufs s ! x) = 0"
    using rm ok by (auto simp: room_def fs_ok_def)
  have nw: "\<not> bh_is RD (int n) (bufs s ! x)" if "x < length (bufs s)" for x using False that by blast
  have dd: "0 < RD" "RD < 2 ^ 16" by simp_all
  obtain b t hs' bs ht q where gb: "getblk_gen sync_dev RD (int n) s = Ok b t"
    and b: "b < length (bufs s)" "b_dirt (bufs s ! b) = 0" and ct: "cache_rel t hs' (remove1 b fl @ [b])"
    and t: "t = s\<lparr>bufs := bs, hash_table := ht, free_list := q\<rparr>"
    and ms: "map strip (bufs t) = (map strip (bufs s))[b := strip ((bufs s ! b)\<lparr>b_count := 1, b_dirt := 0, b_uptodate := 0,
      b_dev := word_of_int RD, b_blocknr := word_of_int (int n)\<rparr>)]"
    using getblk_miss [OF r dd nw free, of sync_dev] by blast
  have "cache_ok t" using ct by (auto simp: cache_ok_def)
  note st = claim_step [OF ok n this t ms b]
  have "cache_frame s t" unfolding t by (rule cache_frame_bufs)
  moreover have "rd_blocks t = rd_blocks s" by (simp add: t rd_blocks_def)
  ultimately show ?thesis using gb st b unfolding getblk_def by (intro exI [of _ b] exI [of _ t]) simp
qed

text \<open>The search of \<open>new_block\<close> and \<open>new_inode\<close>: slots before \<open>i\<close> are empty or full.\<close>

lemma scan_map_found:
  assumes "i < length ps" "ps ! i = Some b" "b < length (bufs s)" "find_first_zero (b_data (bufs s ! b)) < 8192"
    and "\<And>k x. k < i \<Longrightarrow> ps ! k = Some x \<Longrightarrow> x < length (bufs s) \<and> find_first_zero (b_data (bufs s ! x)) \<ge> 8192"
  shows "scan_map m ps bh j s = Ok (m + i, Some b, find_first_zero (b_data (bufs s ! b))) s"
  using assms
proof (induction m ps bh j arbitrary: i rule: scan_map.induct)
  case (2 m ps bh j)
  then obtain k where k: "i = Suc k" by (cases i) auto
  have "scan_map (m + 1) ps None j s = Ok (m + 1 + k, Some b, find_first_zero (b_data (bufs s ! b))) s"
    by (rule "2.IH") (use "2.prems" k in \<open>fastforce simp: nth_Cons split: nat.splits\<close>)+
  then show ?case by (simp add: k)
next
  case (3 m x ps bh j)
  show ?case
  proof (cases i)
    case 0
    then show ?thesis using "3.prems" by (simp add: get_bh_def Let_def retk_def)
  next
    case (Suc k)
    have x: "x < length (bufs s)" "find_first_zero (b_data (bufs s ! x)) \<ge> 8192" using "3.prems"(5) [of 0 x] Suc by simp_all
    have "scan_map (m + 1) ps (Some x) (find_first_zero (b_data (bufs s ! x))) s
        = Ok (m + 1 + k, Some b, find_first_zero (b_data (bufs s ! b))) s"
    proof (rule "3.IH" [OF refl])
      show "\<not> find_first_zero (b_data (bufs s ! x)) < 8192" using x(2) by simp
      show "k < length ps" "ps ! k = Some b" "b < length (bufs s)" "find_first_zero (b_data (bufs s ! b)) < 8192"
        using "3.prems" Suc by simp_all
      show "\<And>l y. l < k \<Longrightarrow> ps ! l = Some y \<Longrightarrow> y < length (bufs s) \<and> find_first_zero (b_data (bufs s ! y)) \<ge> 8192"
        using "3.prems"(5) [of "Suc _"] Suc by simp
    qed
    then show ?thesis using x Suc by (simp add: get_bh_def Let_def)
  qed
qed simp

lemma find_first_zero_eq:
  "find_first_zero bs = (case List.find (\<lambda>n. \<not> bitmap_bit bs n) [0..<64] of Some n \<Rightarrow> n | None \<Rightarrow> 8192)"
proof -
  have bit64: "bit (NOT (first64 bs)) n = (\<not> bitmap_bit bs n)" if "n < 64" for n
    using that by (simp add: bit_not_iff first64_def bit_horner_sum_bit_word_iff)
  then have fe: "lowest_bit (NOT (first64 bs)) = List.find (\<lambda>n. \<not> bitmap_bit bs n) [0..<64]"
    unfolding lowest_bit_def by (intro find_cong) auto
  show ?thesis
  proof (cases "lowest_bit (NOT (first64 bs))")
    case None
    have stuck: "find_first_zero_from bs (8 * k) = 8192" if "k \<le> 128" for k
      using that
    proof (induction "128 - k" arbitrary: k)
      case 0
      then show ?case by (subst find_first_zero_from.simps) simp
    next
      case (Suc d)
      have "d = 128 - Suc k" "Suc k \<le> 128" using Suc.hyps(2) by linarith+
      then have "find_first_zero_from bs (8 * k + 8) = 8192" using Suc.hyps(1) [of "Suc k"] by (simp add: add.commute)
      then show ?case using None Suc by (subst find_first_zero_from.simps) (simp add: Let_def)
    qed
    show ?thesis using stuck [of 0] None by (simp add: find_first_zero_def fe)
  next
    case (Some j)
    then have "bit (NOT (first64 bs)) j" by (auto simp: lowest_bit_def find_Some_iff)
    then have "NOT (first64 bs) \<noteq> 0" by auto
    then show ?thesis using Some by (simp add: find_first_zero_def fe find_first_zero_from.simps [of bs 0] Let_def)
  qed
qed

lemma find_first_zero_bit:
  assumes "find_first_zero bs < 8192"
  shows "find_first_zero bs < 64" "\<not> bitmap_bit bs (find_first_zero bs)"
proof -
  from assms obtain n where "List.find (\<lambda>n. \<not> bitmap_bit bs n) [0..<64] = Some n" "find_first_zero bs = n"
    by (cases "List.find (\<lambda>n. \<not> bitmap_bit bs n) [0..<64]") (simp_all add: find_first_zero_eq)
  then show "find_first_zero bs < 64" "\<not> bitmap_bit bs (find_first_zero bs)" by (auto simp: find_Some_iff)
qed

text \<open>Slot \<open>i\<close> of the zone bitmap of super block \<open>k\<close> is buffer \<open>b\<close>, holding block \<open>m\<close> of the disk; the
  slots before it have no zero among their first 64 bits.\<close>

definition zmap_slot :: "kstate \<Rightarrow> nat \<Rightarrow> nat \<Rightarrow> nat \<Rightarrow> nat \<Rightarrow> bool" where
  "zmap_slot s k i b m \<longleftrightarrow> i < length (s_zmap (super_block s ! k)) \<and> i < Z_MAP_SLOTS \<and> s_zmap (super_block s ! k) ! i = Some b \<and>
     b < length (bufs s) \<and> bh_is RD (int m) (bufs s ! b) \<and> b_uptodate (bufs s ! b) \<noteq> 0 \<and> b_count (bufs s ! b) \<noteq> 0 \<and> m < rd_blocks s \<and>
     find_first_zero (b_data (bufs s ! b)) < 8192 \<and>
     (\<forall>l < i. \<forall>x. s_zmap (super_block s ! k) ! l = Some x \<longrightarrow> x < length (bufs s) \<and> find_first_zero (b_data (bufs s ! x)) \<ge> 8192)"

lemma upd_bh_twice: "b < length (bufs s) \<Longrightarrow>
    upd_bh b f (s\<lparr>bufs := (bufs s)[b := h]\<rparr>) = Ok () (s\<lparr>bufs := (bufs s)[b := f h]\<rparr>)"
  by (simp add: upd_bh_def)

lemma new_block_law:
  assumes ok: "fs_ok s" and sf: "supers_free s" and k: "super_of s RD = Some k" and sl: "zmap_slot s k i b m"
    and blk: "blk + 1 = find_first_zero (view s m) + i * 8192 + unat (s_firstdatazone (super_block s ! k))"
      "blk < unat (s_nzones (super_block s ! k))" "blk < rd_blocks s" "blk \<noteq> m"
    and rm: "room s \<noteq> {}"
    and idle: "\<And>x. x < length (bufs s) \<Longrightarrow> bh_is RD (int blk) (bufs s ! x) \<Longrightarrow> b_count (bufs s ! x) = 0"
  shows "\<exists>t. new_block RD s = Ok (int blk) t \<and> fs_ok t \<and> view t blk = replicate BLOCK_SIZE 0 \<and>
    (\<forall>n < 8192. bitmap_bit (view t m) n = (n = find_first_zero (view s m) \<or> bitmap_bit (view s m) n)) \<and>
    \<not> bitmap_bit (view s m) (find_first_zero (view s m)) \<and>
    (\<forall>n < rd_blocks s. n \<noteq> m \<longrightarrow> n \<noteq> blk \<longrightarrow> view t n = view s n) \<and>
    inode_table t = inode_table s \<and> super_block t = super_block s \<and> rd_blocks t = rd_blocks s"
proof -
  let ?sb = "super_block s ! k" and ?bs = "b_data (bufs s ! b)"
  define j where "j = find_first_zero ?bs"
  have b: "b < length (bufs s)" "bh_is RD (int m) (bufs s ! b)" "b_uptodate (bufs s ! b) \<noteq> 0" "m < rd_blocks s"
    and i: "i < length (s_zmap ?sb)" "i < 8" "s_zmap ?sb ! i = Some b" and c: "b_count (bufs s ! b) \<noteq> 0"
    and j: "j < 64" "\<not> bitmap_bit ?bs j"
    using sl find_first_zero_bit [of ?bs] by (auto simp: zmap_slot_def j_def)
  have vm: "view s m = ?bs" by (rule view_cached) (use ok b in \<open>auto simp: fs_ok_def\<close>)
  have len: "length ?bs = BLOCK_SIZE" using ok b(1) by (auto simp: fs_ok_def cache_ok_def cache_rel_def)
  have "j div 8 < length ?bs" using j(1) len by linarith
  then obtain old bs' where sb: "set_bit_byte j ?bs = Some (old, bs')" by (auto simp: set_bit_byte_def Let_def)
  note bm = bitmap_set [OF sb]
  have old: "old = False" using bm(1) j(2) by simp
  define s1 where "s1 = s\<lparr>bufs := (bufs s)[b := (bufs s ! b)\<lparr>b_data := bs', b_dirt := 1\<rparr>]\<rparr>"
  note v1 = view_store [OF ok b(4,1,2,3) _ _ s1_def]
  have f1: "fs_ok s1" "rd_blocks s1 = rd_blocks s" "view s1 m = bs'" using v1(1,2,4) bm(2) len by simp_all
  have "\<exists>c t. getblk RD (int blk) s1 = Ok c t \<and> fs_ok t \<and> cache_frame s1 t \<and> rd_blocks t = rd_blocks s1 \<and> c < length (bufs t) \<and>
    bh_is RD (int blk) (bufs t ! c) \<and> b_count (bufs t ! c) = 1 \<and> (\<forall>n < rd_blocks s1. view t n = view s1 n)"
  proof (rule getblk_fresh [OF f1(1)])
    show "blk < rd_blocks s1" using blk(3) f1(2) by simp
    have "x \<in> room s1" if "x \<in> room s" for x using c that by (cases "x = b") (auto simp: room_def s1_def)
    then show "room s1 \<noteq> {}" using rm by blast
    show "b_count (bufs s1 ! x) = 0" if "x < length (bufs s1)" "bh_is RD (int blk) (bufs s1 ! x)" for x
      using idle [of x] that b(1) by (cases "x = b") (simp_all add: s1_def bh_is_def)
  qed
  then obtain x t where t: "getblk RD (int blk) s1 = Ok x t" "fs_ok t" "cache_frame s1 t" "rd_blocks t = rd_blocks s1" "x < length (bufs t)"
    "bh_is RD (int blk) (bufs t ! x)" "b_count (bufs t ! x) = 1" "\<forall>n < rd_blocks s1. view t n = view s1 n" by blast
  have lx: "length (b_data (bufs t ! x)) = BLOCK_SIZE" using t(2,5) by (auto simp: fs_ok_def cache_ok_def cache_rel_def)
  define u where "u = t\<lparr>bufs := (bufs t)[x := (bufs t ! x)\<lparr>b_data := replicate BLOCK_SIZE 0, b_dirt := 1, b_uptodate := 1\<rparr>]\<rparr>"
  have bt: "blk < rd_blocks t" using blk(3) t(4) f1(2) by simp
  note vu = view_write [OF t(2) bt t(5,6) _ _ _ u_def]
  have fu: "fs_ok u" "view u blk = replicate BLOCK_SIZE 0" "rd_blocks u = rd_blocks t" "cache_frame t u" using vu(1,2,4,5) by simp_all
  have "x < length (bufs u)" "b_count (bufs u ! x) \<noteq> 0" using t(5,7) by (simp_all add: u_def)
  from brelse_eq [OF fu(1) this] obtain v where v: "brelse (Some x) u = Ok () v" "fs_ok v" "cache_frame u v" "rd_blocks v = rd_blocks u"
    "\<forall>n. view v n = view u n" by blast
  have gs: "get_super RD s = Ok (Some k) s" "k < length (super_block s)"
    using get_super_eq [OF sf, of RD] k super_of_Some [OF k] sf by (simp_all add: supers_free_def)
  have sc: "scan_map 0 (s_zmap ?sb) None 8192 s = Ok (i, Some b, j) s"
    using scan_map_found [OF i(1,3) b(1), of 0 None 8192] sl by (simp add: zmap_slot_def j_def)
  define s0 where "s0 = s\<lparr>bufs := (bufs s)[b := (bufs s ! b)\<lparr>b_data := bs'\<rparr>]\<rparr>"
  have se: "set_bit j b s = Ok False s0" using b(1) sb old by (simp add: set_bit_def get_bh_def upd_bh_def retk_def s0_def)
  have d1: "upd_bh b (\<lambda>h. h\<lparr>b_dirt := 1\<rparr>) s0 = Ok () s1" using b(1) by (simp add: upd_bh_def s0_def s1_def)
  have cl: "clear_block x t = Ok () (t\<lparr>bufs := (bufs t)[x := (bufs t ! x)\<lparr>b_data := replicate BLOCK_SIZE 0\<rparr>]\<rparr>)"
    using t(5) lx by (simp add: clear_block_def upd_bh_def)
  have sw: "h\<lparr>b_data := d, b_uptodate := 1, b_dirt := 1\<rparr> = h\<lparr>b_data := d, b_dirt := 1, b_uptodate := 1\<rparr>" for h :: buffer_head and d
    by (rule buffer_head.equality) simp_all
  have up: "upd_bh x (\<lambda>h. h\<lparr>b_uptodate := 1, b_dirt := 1\<rparr>) (t\<lparr>bufs := (bufs t)[x := (bufs t ! x)\<lparr>b_data := replicate BLOCK_SIZE 0\<rparr>]\<rparr>) = Ok () u"
    unfolding u_def sw [symmetric] by (rule upd_bh_twice [OF t(5)])
  have gx: "get_bh x t = Ok (bufs t ! x) t" using t(5) by (simp add: get_bh_def)
  have bi: "int j + int i * 8192 + uint (s_firstdatazone ?sb) - 1 = int blk"
    using arg_cong [OF blk(1), of int] by (simp add: vm j_def)
  have "int blk < int (unat (s_nzones ?sb))" using blk(2) by (simp only: of_nat_less_iff)
  then have bz: "\<not> int blk \<ge> uint (s_nzones ?sb)" by simp
  have "new_block RD s = Ok (int blk) v"
    unfolding new_block_def using gs sc se d1 i(2) j(1) bi bz t(1,7) gx cl up v(1)
    by (simp add: get_sb_def Let_def retk_def)
  moreover have "inode_table v = inode_table s" "super_block v = super_block s"
    using cache_frame_fs [OF v(3)] cache_frame_fs [OF fu(4)] cache_frame_fs [OF t(3)] by (simp_all add: s1_def)
  moreover have "view v n = view s1 n" if "n < rd_blocks s" "n \<noteq> blk" for n
    using v(5) vu(3) [of n] t(4,8) f1(2) that by simp
  moreover have "view s1 n = view s n" if "n < rd_blocks s" "n \<noteq> m" for n using v1(3) [of n] that bm(2) len by simp
  ultimately show ?thesis using v(2,4,5) fu(2,3) f1(2,3) t(4) blk(4) b(4) bm(3) len j(2) vm
    by (intro exI [of _ v]) (simp add: j_def)
qed

section \<open>File blocks\<close>

text \<open>The abstract file layout: which zone holds file block \<open>block\<close>, read off the contents of the disk;
  0 is a hole.\<close>

definition table_entry :: "kstate \<Rightarrow> nat \<Rightarrow> nat \<Rightarrow> nat" where
  "table_entry s z k = (if z = 0 then 0 else unat (get16 (view s z) (2 * k)))"

definition file_block :: "kstate \<Rightarrow> m_inode \<Rightarrow> nat \<Rightarrow> nat" where
  "file_block s n block = (let zone = (\<lambda>k. unat (i_zone n ! k)) in
     if block < 7 then zone block
     else if block < 519 then table_entry s (zone 7) (block - 7)
     else table_entry s (table_entry s (zone 8) ((block - 519) div 512)) ((block - 519) mod 512))"

text \<open>The tables on the way to a file block are blocks of the disk.\<close>

definition path_ok :: "kstate \<Rightarrow> m_inode \<Rightarrow> nat \<Rightarrow> bool" where
  "path_ok s n block \<longleftrightarrow> (7 \<le> block \<longrightarrow> block < 519 \<longrightarrow> unat (i_zone n ! 7) < rd_blocks s) \<and>
     (519 \<le> block \<longrightarrow> unat (i_zone n ! 8) < rd_blocks s \<and> table_entry s (unat (i_zone n ! 8)) ((block - 519) div 512) < rd_blocks s)"

lemma zone_create_no:
  assumes "i < length (inode_table s)" "k < length (i_zone (inode_table s ! i))" "c \<longrightarrow> i_zone (inode_table s ! i) ! k \<noteq> 0"
  shows "zone_create i k c s = Ok () s" "inode_zone i k s = Ok (uint (i_zone (inode_table s ! i) ! k)) s"
  using assms by (cases c; simp add: zone_create_def inode_zone_def get_inode_def nthk_def whenk_def retk_def)+

text \<open>Reading entry \<open>k\<close> of table \<open>z\<close>: \<open>bread\<close> the table, then \<open>ind_entry\<close>.\<close>

lemma read_entry:
  assumes u: "usable s" and z: "z < rd_blocks s" and i: "i < length (inode_table s)"
    and c: "c \<longrightarrow> get16 (view s z) (2 * k) \<noteq> 0"
  shows "\<exists>b t v. bread RD (int z) s = Ok (Some b) t \<and> ind_entry i b k c t = Ok (uint (get16 (view s z) (2 * k))) v \<and>
    usable v \<and> cache_frame s v \<and> rd_blocks v = rd_blocks s \<and> (\<forall>m < rd_blocks s. view v m = view s m) \<and> room s \<subseteq> room v"
proof -
  from read_release [OF u z, of sync_dev] obtain b t v where
    v: "bread RD (int z) s = Ok (Some b) t" "reads s z b t" "brelse (Some b) t = Ok () v"
    "usable v" "cache_frame s v" "rd_blocks v = rd_blocks s" "\<forall>m < rd_blocks s. view v m = view s m" "room s \<subseteq> room v" unfolding bread_def by blast
  have "cache_frame s t" using v(2) by (simp add: reads_def)
  then have "get_inode i t = Ok (inode_table s ! i) t" using cache_frame_fs i by (simp add: get_inode_def)
  moreover have "get_bh b t = Ok (bufs t ! b) t" "b_data (bufs t ! b) = view s z" using v(2) by (simp_all add: reads_def get_bh_def)
  moreover have "\<not> (c \<and> uint (get16 (view s z) (2 * k)) = 0)" using c by (auto simp: uint_0_iff)
  ultimately have "ind_entry i b k c t = Ok (uint (get16 (view s z) (2 * k))) v"
    using v(3) by (cases c) (simp_all add: ind_entry_def Let_def retk_def)
  then show ?thesis using v by blast
qed

lemma bmap_law:
  assumes u: "usable s" and i: "i < length (inode_table s)" and n: "n = inode_table s ! i" and dv: "uint (i_dev n) = RD"
    and z: "length (i_zone n) = 9" and bl: "block < 7 + 512 + 512 * 512" and p: "path_ok s n block"
    and c: "c \<longrightarrow> file_block s n block \<noteq> 0"
  shows "\<exists>t. u_bmap i (int block) c s = Ok (int (file_block s n block)) t \<and> usable t \<and> cache_frame s t \<and>
    rd_blocks t = rd_blocks s \<and> (\<forall>m < rd_blocks s. view t m = view s m) \<and> room s \<subseteq> room t"
proof -
  have zc: "zone_create i k c s = Ok () s \<and> inode_zone i k s = Ok (uint (i_zone n ! k)) s"
    if "k < 9" "c \<longrightarrow> i_zone n ! k \<noteq> 0" for k using zone_create_no [OF i, of k c] that z n by simp
  have fr: "cache_frame s s" by (rule cache_frameI [where bs = "bufs s" and ht = "hash_table s" and q = "free_list s" and ts = "tasks s"
    and rq = "request s" and bd = "blk_dev s" and rm = "rd_mem s"]) simp_all
  have gi: "get_inode i s = Ok n s" using i n by (simp add: get_inode_def)
  consider (direct) "block < 7" | (ind) "7 \<le> block" "block < 519" | (dind) "519 \<le> block" by linarith
  then show ?thesis
  proof cases
    case direct
    then have f: "file_block s n block = unat (i_zone n ! block)" by (simp add: file_block_def)
    with c have "c \<longrightarrow> i_zone n ! block \<noteq> 0" by auto
    from zc [OF _ this] direct have "u_bmap i (int block) c s = Ok (int (file_block s n block)) s"
      by (simp add: u_bmap_def f)
    then show ?thesis using u fr by blast
  next
    case ind
    define z7 where "z7 = unat (i_zone n ! 7)"
    have f: "file_block s n block = table_entry s z7 (block - 7)" using ind by (simp add: file_block_def z7_def)
    with c have "c \<longrightarrow> i_zone n ! 7 \<noteq> 0" by (auto simp: table_entry_def z7_def)
    have "uint (i_zone n ! 7) = int z7" by (simp add: z7_def)
    with zc [of 7] \<open>c \<longrightarrow> i_zone n ! 7 \<noteq> 0\<close> have z7: "zone_create i 7 c s = Ok () s" "inode_zone i 7 s = Ok (int z7) s" by simp_all
    show ?thesis
    proof (cases "z7 = 0")
      case True
      then have "u_bmap i (int block) c s = Ok (int (file_block s n block)) s"
        using ind z7 by (simp add: u_bmap_def f table_entry_def retk_def)
      then show ?thesis using u fr by blast
    next
      case False
      have zr: "z7 < rd_blocks s" using p ind by (simp add: path_ok_def z7_def)
      have "c \<longrightarrow> get16 (view s z7) (2 * (block - 7)) \<noteq> 0" using c False by (auto simp: f table_entry_def)
      from read_entry [OF u zr i this] obtain b t v where v: "bread RD (int z7) s = Ok (Some b) t"
        "ind_entry i b (block - 7) c t = Ok (uint (get16 (view s z7) (2 * (block - 7)))) v" "usable v" "cache_frame s v"
        "rd_blocks v = rd_blocks s" "\<forall>m < rd_blocks s. view v m = view s m" "room s \<subseteq> room v" by blast
      have k: "nat (int block - 7) = block - 7" using ind by simp
      have "u_bmap i (int block) c s = Ok (int (file_block s n block)) v"
        using ind z7 False v(1,2) gi dv by (simp add: u_bmap_def f table_entry_def retk_def k)
      then show ?thesis using v by blast
    qed
  next
    case dind
    define z8 where "z8 = unat (i_zone n ! 8)"
    define q r where "q = (block - 519) div 512" and "r = (block - 519) mod 512"
    define z2 where "z2 = table_entry s z8 q"
    have f: "file_block s n block = table_entry s z2 r" using dind by (simp add: file_block_def z8_def z2_def q_def r_def)
    have "c \<longrightarrow> i_zone n ! 8 \<noteq> 0" using c by (auto simp: f table_entry_def z2_def z8_def)
    have "uint (i_zone n ! 8) = int z8" by (simp add: z8_def)
    with zc [of 8] \<open>c \<longrightarrow> i_zone n ! 8 \<noteq> 0\<close> have z8: "zone_create i 8 c s = Ok () s" "inode_zone i 8 s = Ok (int z8) s" by simp_all
    have k: "nat ((int block - 519) div 512) = q" "nat ((int block - 519) mod 512) = r"
      using dind by (simp_all add: q_def r_def nat_div_distrib nat_mod_distrib nat_diff_distrib)
    have nb: "\<not> int block < 0" "\<not> int block \<ge> 7 + 512 + 512 * 512" "\<not> int block < 7" "\<not> int block < 7 + 512" using dind bl by simp_all
    show ?thesis
    proof (cases "z8 = 0")
      case True
      then have "u_bmap i (int block) c s = Ok (int (file_block s n block)) s"
        using nb z8 by (simp add: u_bmap_def f table_entry_def retk_def z2_def)
      then show ?thesis using u fr by blast
    next
      case False
      have zr: "z8 < rd_blocks s" "z2 < rd_blocks s" using p dind by (simp_all add: path_ok_def z8_def z2_def q_def)
      have z2e: "int z2 = uint (get16 (view s z8) (2 * q))" using False by (simp add: z2_def table_entry_def)
      have "c \<longrightarrow> get16 (view s z8) (2 * q) \<noteq> 0" using c False by (auto simp: f table_entry_def z2_def)
      from read_entry [OF u zr(1) i this] obtain b t v where v: "bread RD (int z8) s = Ok (Some b) t"
        "ind_entry i b q c t = Ok (int z2) v" "usable v" "cache_frame s v"
        "rd_blocks v = rd_blocks s" "\<forall>m < rd_blocks s. view v m = view s m" "room s \<subseteq> room v" unfolding z2e by blast
      show ?thesis
      proof (cases "z2 = 0")
        case True
        then have "u_bmap i (int block) c s = Ok (int (file_block s n block)) v"
          using nb z8 False v(1,2) gi dv by (simp add: u_bmap_def f table_entry_def retk_def k)
        then show ?thesis using v by blast
      next
        case nz: False
        have vz: "view v z2 = view s z2" using v(6) zr(2) by simp
        have "c \<longrightarrow> get16 (view v z2) (2 * r) \<noteq> 0" using c nz by (auto simp: f table_entry_def vz)
        moreover have "z2 < rd_blocks v" "i < length (inode_table v)" using zr(2) v(5) cache_frame_fs [OF v(4)] i by simp_all
        ultimately obtain b' t' v' where w: "bread RD (int z2) v = Ok (Some b') t'"
          "ind_entry i b' r c t' = Ok (uint (get16 (view v z2) (2 * r))) v'" "usable v'" "cache_frame v v'"
          "rd_blocks v' = rd_blocks v" "\<forall>m < rd_blocks v. view v' m = view v m" "room v \<subseteq> room v'" using read_entry [OF v(3), of z2 i c r] by blast
        have "get_inode i v = Ok n v" using i n cache_frame_fs [OF v(4)] by (simp add: get_inode_def)
        then have "u_bmap i (int block) c s = Ok (int (file_block s n block)) v'"
          using nb z8 False nz v(1,2) w(1,2) gi dv by (simp add: u_bmap_def f table_entry_def retk_def k vz)
        moreover have "cache_frame s v'" by (rule cache_frame_trans [OF v(4) w(4)])
        ultimately show ?thesis using w v by auto
      qed
    qed
  qed
qed

end
