(* ===== verification/Inode_Props.thy ===== *)
theory Inode_Props
  imports Inode_IO
begin

text \<open>
  The properties of the inode layer, with a small file system as the example: four blocks of the ram
  disk, one super block, one inode.
\<close>

section \<open>A small file system\<close>

definition demo_super :: super_block where
  "demo_super = zero_super\<lparr>s_dev := 257, s_firstdatazone := 1, s_nzones := 4, s_ninodes := 32\<rparr>"

definition demo_inode :: m_inode where
  "demo_inode = zero_inode\<lparr>i_mode := 0x81A4, i_size := 8192, i_nlinks := 1, i_zone := [3, 0, 0, 0, 0, 0, 0, 3, 0],
     i_dev := 257, i_num := 1, i_count := 1, i_dirt := 1\<rparr>"

definition demo_fs :: kstate where
  "demo_fs = demo_cache\<lparr>super_block := demo_super # replicate 7 zero_super, inode_table := demo_inode # replicate 31 zero_inode\<rparr>"

lemma demo_fs_cache: "usable demo_fs" "rd_blocks demo_fs = 4" "view demo_fs = view demo_cache"
  using demo_cache_ok(1,2) cache_other(2,3,5) [of demo_fs demo_cache] by (simp_all add: demo_fs_def)

lemma demo_super_find:
  assumes "super_block s = demo_super # replicate 7 zero_super"
  shows "super_of s RD = Some 0" "supers_free s" "super_block s ! 0 = demo_super"
  using assms by (auto simp: super_of_def supers_free_def upt_conv_Cons demo_super_def zero_super_def nth_Cons split: nat.splits)

lemma demo_at: "inode_at demo_fs 0 2 0"
proof -
  have "at_hand demo_fs 2" using at_hand_usable [of demo_fs 2] demo_fs_cache by simp
  moreover have "super_block demo_fs = demo_super # replicate 7 zero_super" by (simp add: demo_fs_def)
  note demo_super_find [OF this]
  moreover have "inode_table demo_fs ! 0 = demo_inode" "0 < length (inode_table demo_fs)" by (simp_all add: demo_fs_def)
  ultimately show ?thesis
    by (simp add: inode_at_def demo_inode_def demo_super_def zero_super_def zero_inode_def inode_block_def inode_index_def)
qed

section \<open>Inodes on disk\<close>

text \<open>C17: \<open>write_inode\<close> on a dirty inode stores exactly its 32 bytes: entry \<open>j\<close> of its inode block decodes
  to the inode, every other entry of that block and every other block of the disk keeps its
  content, and the in-core inode is clean and unlocked afterwards, all other table entries the same.\<close>

theorem write_inode_correct:
  assumes "inode_at s i blk j" "i_dirt (inode_table s ! i) \<noteq> 0" "length (i_zone (inode_table s ! i)) = 9"
  shows "\<exists>t. write_inode i s = Ok () t \<and>
    decode_inode (view t blk) (32 * j) = d_inode_of (inode_table s ! i) \<and>
    (\<forall>k < 32. k \<noteq> j \<longrightarrow> decode_inode (view t blk) (32 * k) = decode_inode (view s blk) (32 * k)) \<and>
    (\<forall>m < rd_blocks s. m \<noteq> blk \<longrightarrow> view t m = view s m) \<and>
    inode_table t = (inode_table s)[i := (inode_table s ! i)\<lparr>i_dirt := 0, i_lock := 0\<rparr>]"
proof -
  let ?d = "d_inode_of (inode_table s ! i)"
  from write_inode_law [OF assms] obtain t where t: "write_inode i s = Ok () t"
    "inode_table t = (inode_table s)[i := (inode_table s ! i)\<lparr>i_dirt := 0, i_lock := 0\<rparr>]"
    "view t blk = put_bytes (32 * j) (encode_inode ?d) (view s blk)"
    "\<forall>m < rd_blocks s. m \<noteq> blk \<longrightarrow> view t m = view s m" "length (view s blk) = BLOCK_SIZE" by blast
  have z: "length (di_zone ?d) = 9" using assms(3) by (simp add: d_inode_of_def)
  have j: "32 * j + 32 \<le> BLOCK_SIZE" using assms(1) inode_index_less [of "i_num (inode_table s ! i)"] by (simp add: inode_at_def)
  then have "decode_inode (view t blk) (32 * j) = ?d" using decode_put_same [OF z] t(3,5) by simp
  moreover have "decode_inode (view t blk) (32 * k) = decode_inode (view s blk) (32 * k)" if "k < 32" "k \<noteq> j" for k
    using decode_put_other [OF z, of j "view s blk" k] that j t(3,5) by simp
  ultimately show ?thesis using t by blast
qed

theorem write_inode_correct_witness:
  "\<exists>t. write_inode 0 demo_fs = Ok () t \<and> decode_inode (view t 2) 0 = d_inode_of demo_inode \<and> view t 3 = view demo_fs 3"
  using write_inode_correct [OF demo_at] demo_fs_cache(2) by (auto simp: demo_fs_def demo_inode_def zero_inode_def)

text \<open>C18: an inode written with \<open>write_inode\<close> and read back with \<open>read_inode\<close> into any other unlocked entry of
  the table with the same device and number is the same inode, and the entry's bookkeeping fields stay.\<close>

theorem inode_disk_roundtrip:
  assumes at: "inode_at s i blk j" and d: "i_dirt (inode_table s ! i) \<noteq> 0" and z: "length (i_zone (inode_table s ! i)) = 9"
    and k: "k < length (inode_table s)" "k \<noteq> i" "i_lock (inode_table s ! k) = 0" "i_dev (inode_table s ! k) = i_dev (inode_table s ! i)"
      "i_num (inode_table s ! k) = i_num (inode_table s ! i)"
  shows "\<exists>t. bindk (write_inode i) (\<lambda>_. read_inode k) s = Ok () t \<and>
    inode_table t ! k = set_d_inode (d_inode_of (inode_table s ! i)) (inode_table s ! k)"
proof -
  from write_inode_law [OF at d z] obtain t where t: "write_inode i s = Ok () t" "at_hand t blk" "super_block t = super_block s"
    "inode_table t = (inode_table s)[i := (inode_table s ! i)\<lparr>i_dirt := 0, i_lock := 0\<rparr>]"
    "view t blk = put_bytes (32 * j) (encode_inode (d_inode_of (inode_table s ! i))) (view s blk)" "length (view s blk) = BLOCK_SIZE" by blast
  have "inode_at t k blk j" using at k t by (auto simp: inode_at_def supers_free_def super_of_def)
  from read_inode_law [OF this] obtain u where u: "read_inode k t = Ok () u"
    "inode_table u = (inode_table t)[k := set_d_inode (decode_inode (view t blk) (32 * j)) (inode_table t ! k)]" by blast
  have "32 * j + 32 \<le> BLOCK_SIZE" using at inode_index_less [of "i_num (inode_table s ! i)"] by (simp add: inode_at_def)
  then have "decode_inode (view t blk) (32 * j) = d_inode_of (inode_table s ! i)"
    using decode_put_same [of "d_inode_of (inode_table s ! i)"] z t(5,6) by (simp add: d_inode_of_def)
  then show ?thesis using t(1,4) u k(1,2) by simp
qed

text \<open>The example with a second entry for the same inode.\<close>

theorem inode_disk_roundtrip_witness:
  "\<exists>s t. bindk (write_inode 0) (\<lambda>_. read_inode 1) s = Ok () t \<and> i_size (inode_table t ! 1) = 8192"
proof -
  define s where "s = demo_fs\<lparr>inode_table := (inode_table demo_fs)[1 := zero_inode\<lparr>i_dev := 257, i_num := 1\<rparr>]\<rparr>"
  have e: "inode_table s ! 0 = inode_table demo_fs ! 0" "length (inode_table s) = length (inode_table demo_fs)"
    "supers_free s = supers_free demo_fs" "super_of s RD = super_of demo_fs RD" "super_block s = super_block demo_fs"
    by (simp_all add: s_def demo_fs_def supers_free_def super_of_def)
  have "at_hand s n = at_hand demo_fs n" for n by (rule at_hand_other) (simp_all add: s_def)
  then have "inode_at s 0 2 0" using demo_at e by (simp add: inode_at_def)
  moreover have n: "inode_table s ! 0 = demo_inode" "inode_table s ! 1 = zero_inode\<lparr>i_dev := 257, i_num := 1\<rparr>" "1 < length (inode_table s)"
    by (simp_all add: s_def demo_fs_def)
  ultimately obtain t where "bindk (write_inode 0) (\<lambda>_. read_inode 1) s = Ok () t"
    "inode_table t ! 1 = set_d_inode (d_inode_of demo_inode) (inode_table s ! 1)"
    using inode_disk_roundtrip [of s 0 2 0 1] by (auto simp: n demo_inode_def zero_inode_def)
  moreover have "i_size (set_d_inode (d_inode_of demo_inode) (inode_table s ! 1)) = 8192"
    by (simp add: demo_inode_def set_d_inode_def d_inode_of_def)
  ultimately show ?thesis by metis
qed

text \<open>C19: \<open>bmap\<close>, and \<open>create_block\<close> for a block the file already has, returns the zone of the file block as
  the direct zones, the indirect and the double indirect table of the inode say, 0 for a hole; it
  changes no content of the disk and no inode.\<close>

theorem bmap_correct:
  assumes "usable s" "i < length (inode_table s)" "n = inode_table s ! i" "uint (i_dev n) = RD" "length (i_zone n) = 9"
    and "block < 7 + 512 + 512 * 512" "path_ok s n block"
  shows "(\<exists>t. bmap i (int block) s = Ok (int (file_block s n block)) t \<and> inode_table t = inode_table s \<and>
      (\<forall>m < rd_blocks s. view t m = view s m)) \<and>
    (file_block s n block \<noteq> 0 \<longrightarrow> (\<exists>t. create_block i (int block) s = Ok (int (file_block s n block)) t \<and>
      inode_table t = inode_table s \<and> (\<forall>m < rd_blocks s. view t m = view s m)))"
  unfolding bmap_def create_block_def
  using bmap_law [OF assms, of False] bmap_law [OF assms, of True] cache_frame_fs by blast

theorem bmap_correct_witness: "\<exists>t. bmap 0 7 demo_fs = Ok (int (file_block demo_fs demo_inode 7)) t \<and> view t 3 = view demo_fs 3"
proof -
  have "0 < length (inode_table demo_fs)" "inode_table demo_fs ! 0 = demo_inode" by (simp_all add: demo_fs_def)
  then show ?thesis using bmap_correct [of demo_fs 0 demo_inode 7] demo_fs_cache(1,2)
    by (auto simp: demo_inode_def zero_inode_def path_ok_def)
qed

section \<open>Allocation\<close>

text \<open>C20: \<open>new_block\<close> takes the first zero bit of the first bitmap slot that shows one, sets that bit and
  no other, and returns the block the bit stands for with zeroed content; the contents of all other
  blocks and all inodes stay. The bit was clear before: a block in use is never handed out.\<close>

theorem new_block_correct:
  assumes "fs_ok s" "supers_free s" "super_of s RD = Some k" "zmap_slot s k i b m"
    and "blk + 1 = find_first_zero (view s m) + i * 8192 + unat (s_firstdatazone (super_block s ! k))"
      "blk < unat (s_nzones (super_block s ! k))" "blk < rd_blocks s" "blk \<noteq> m"
    and "room s \<noteq> {}"
    and "\<And>x. x < length (bufs s) \<Longrightarrow> bh_is RD (int blk) (bufs s ! x) \<Longrightarrow> b_count (bufs s ! x) = 0"
  shows "\<exists>t. new_block RD s = Ok (int blk) t \<and> fs_ok t \<and> view t blk = replicate BLOCK_SIZE 0 \<and>
    (\<forall>n < 8192. bitmap_bit (view t m) n = (n = find_first_zero (view s m) \<or> bitmap_bit (view s m) n)) \<and>
    \<not> bitmap_bit (view s m) (find_first_zero (view s m)) \<and>
    (\<forall>n < rd_blocks s. n \<noteq> m \<longrightarrow> n \<noteq> blk \<longrightarrow> view t n = view s n) \<and> inode_table t = inode_table s"
  using new_block_law [OF assms] by blast

text \<open>The example: the content of every block is 7s, so the first zero bit of the bitmap is bit 3.\<close>

lemma sevens: "find_first_zero (replicate 1024 7) = 3"
proof -
  have "bitmap_bit (replicate 1024 7) n = bit (7 :: u8) (n mod 8)" if "n < 64" for n
  proof -
    have "n div 8 < 1024" using that by linarith
    then show ?thesis by (simp add: bitmap_bit_def)
  qed
  then have "List.find (\<lambda>n. \<not> bitmap_bit (replicate 1024 7) n) [0..<64] = List.find (\<lambda>n. \<not> bit (7 :: u8) (n mod 8)) [0..<64]"
    by (intro find_cong) auto
  also have "\<dots> = Some 3" by (simp add: upt_conv_Cons bit_numeral_rec)
  finally show ?thesis by (simp add: find_first_zero_eq)
qed

lemma demo_view: "n < 4 \<Longrightarrow> view demo_cache n = replicate 1024 7"
proof -
  have "view demo_cache n = rd_content demo_cache n"
    by (rule view_uncached) (use demo_cache_ok(4) in \<open>auto simp: bh_is_def\<close>)
  then show ?thesis using demo_cache_ok(5) by (simp add: rd_content_def rd_fetch_def map_replicate_const)
qed

theorem new_block_correct_witness: "\<exists>s t. new_block RD s = Ok 3 t \<and> view t 3 = replicate BLOCK_SIZE 0"
proof -
  have u: "usable demo_cache" "rd_blocks demo_cache = 4" "length (bufs demo_cache) = 2" by (fact demo_cache_ok)+
  then have ah: "at_hand demo_cache 1" by (intro at_hand_usable) simp_all
  from at_hand_bread [OF this] obtain b t where r: "reads demo_cache 1 b t" "b_count (bufs t ! b) \<noteq> 0" by blast
  note r' = r(1) [unfolded reads_def]
  define s where "s = t\<lparr>super_block := (demo_super\<lparr>s_zmap := Some b # replicate 7 None\<rparr>) # replicate 7 zero_super\<rparr>"
  have cc: "fs_ok s" "view s = view t" "rd_blocks s = rd_blocks t" "room s = room t"
    using cache_other [of s t] r' by (simp_all add: s_def)
  have zero: "x < 2 \<Longrightarrow> b_count (bufs demo_cache ! x) = 0 \<and> b_dirt (bufs demo_cache ! x) = 0" for x
    using demo_cache_ok(7) by (simp add: u(3))
  have oth: "x < 2 \<Longrightarrow> x \<noteq> b \<Longrightarrow> b_count (bufs t ! x) = 0 \<and> b_dirt (bufs t ! x) = 0" for x using r' zero u(3) by auto
  have "b < 2" using r' u(3) by simp
  then have "1 - b < 2" "1 - b \<noteq> b" by arith+
  then have "1 - b \<in> room t" using oth r' u(3) by (auto simp: room_def)
  then have rm: "room s \<noteq> {}" using cc(4) by blast
  have vb: "view t 1 = replicate 1024 7" "b_data (bufs t ! b) = replicate 1024 7" using r' u(2) demo_view [of 1] by simp_all
  have sup: "super_of s RD = Some 0" "supers_free s"
    by (auto simp: s_def super_of_def supers_free_def upt_conv_Cons demo_super_def zero_super_def nth_Cons split: nat.splits)
  have sl: "zmap_slot s 0 0 b 1" using r' r(2) vb u(2) sevens cc(3) by (simp add: zmap_slot_def demo_super_def) (simp add: s_def)
  have "b_count (bufs s ! x) = 0" if "x < length (bufs s)" "bh_is RD (int 3) (bufs s ! x)" for x
  proof -
    have "x \<noteq> b" using that r' by (auto simp: s_def bh_is_def)
    then show ?thesis using that oth r' u(3) by (simp add: s_def)
  qed
  from new_block_correct [OF cc(1) sup(2,1) sl _ _ _ _ rm this] r' vb sevens u(2) cc(2,3) show ?thesis
    by (auto simp: s_def demo_super_def)
qed

text \<open>\<open>find_first_zero\<close> finds the first zero bit only among the first 64 bits of the bitmap block: the
  loop over the block never advances its pointer. When those bits are all set it reports 8192, no
  free bit, whatever the other 8128 bits are.\<close>

theorem find_first_zero_correct:
  "find_first_zero bs = (case List.find (\<lambda>n. \<not> bitmap_bit bs n) [0..<64] of Some n \<Rightarrow> n | None \<Rightarrow> 8192)"
  by (rule find_first_zero_eq)

lemma free_inode_mask:
  assumes "unat (num :: u16) < 8192"
  shows "unat (num AND 0x2000) = 0" "unat (drop_bit 13 num) = 0"
proof -
  have "\<not> bit num 13" using word_bit_bound [of num 13 13] assms by auto
  then have "num AND 0x2000 = 0" using and_exp_eq_0_iff_not_bit [of num 13] by simp
  then show "unat (num AND 0x2000) = 0" by simp
  show "unat (drop_bit 13 num) = 0" using assms by (simp add: unat_drop_bit)
qed

text \<open>Freeing an inode clears the wrong bit. For an inode number below 8192 \<open>free_inode\<close> clears bit 0 of
  the inode bitmap (the mask is \<open>1 << 13\<close> instead of \<open>(1 << 13) - 1\<close>) and leaves the bit of the inode
  set: the number is never allocated again, and number 0 becomes allocatable.\<close>

theorem free_inode_wrong_bit:
  assumes sf: "supers_free s" and i: "i < length (inode_table s)" and n: "n = inode_table s ! i"
    and dv: "uint (i_dev n) = dev" "dev \<noteq> 0" and k: "super_of s dev = Some k"
    and live: "i_count n \<le> 1" "i_nlinks n = 0" "1 \<le> i_num n" "i_num n \<le> s_ninodes (super_block s ! k)" "unat (i_num n) < 8192"
    and m: "s_imap (super_block s ! k) \<noteq> []" "s_imap (super_block s ! k) ! 0 = Some b" "b < length (bufs s)" "length (b_data (bufs s ! b)) = BLOCK_SIZE"
  shows "\<exists>t. free_inode i s = Ok () t \<and> inode_table t ! i = zero_inode \<and>
    (\<forall>x < 8192. bitmap_bit (b_data (bufs t ! b)) x = (x \<noteq> 0 \<and> bitmap_bit (b_data (bufs s ! b)) x))"
proof -
  obtain was bs where cb: "clear_bit_byte 0 (b_data (bufs s ! b)) = Some (was, bs)" using m(4) by (auto simp: clear_bit_byte_def Let_def)
  define t1 where "t1 = s\<lparr>bufs := (bufs s)[b := (bufs s ! b)\<lparr>b_data := bs\<rparr>]\<rparr>"
  define t2 where "t2 = s\<lparr>bufs := (bufs s)[b := (bufs s ! b)\<lparr>b_data := bs, b_dirt := 1\<rparr>]\<rparr>"
  have c: "clear_bit 0 b s = Ok was t1" using m(3) cb by (simp add: clear_bit_def get_bh_def upd_bh_def retk_def t1_def)
  have u: "upd_bh b (\<lambda>h. h\<lparr>b_dirt := 1\<rparr>) t1 = Ok () t2" using m(3) by (simp add: upd_bh_def t1_def t2_def)
  have gs: "get_super dev s = Ok (Some k) s" "k < length (super_block s)"
    using get_super_eq [OF sf dv(2)] k super_of_Some [OF k] sf by (simp_all add: supers_free_def)
  have "i_dev n \<noteq> 0" using dv by auto
  moreover have "\<not> (i_num n < 1 \<or> i_num n > s_ninodes (super_block s ! k))" using live(3,4) by auto
  moreover have "get_inode i s = Ok n s" "get_sb k s = Ok (super_block s ! k) s" using i n gs(2) by (simp_all add: get_inode_def get_sb_def)
  moreover have "nthk (s_imap (super_block s ! k)) 0 s = Ok (Some b) s" using m(1,2) by (simp add: nthk_def retk_def)
  moreover have "upd_inode i (\<lambda>_. zero_inode) t2 = Ok () (t2\<lparr>inode_table := (inode_table t2)[i := zero_inode]\<rparr>)"
    using i by (simp add: upd_inode_def t2_def)
  moreover have "\<not> i_count n > 1" using live(1) by simp
  ultimately have "free_inode i s = Ok () (t2\<lparr>inode_table := (inode_table t2)[i := zero_inode]\<rparr>)"
    unfolding free_inode_def using live(2) dv(1) gs(1) c u free_inode_mask [OF live(5)] by simp
  moreover have "bitmap_bit bs x = (x \<noteq> 0 \<and> bitmap_bit (b_data (bufs s ! b)) x)" if "x < 8192" for x
    using bitmap_clear(3) [OF cb, of x] that m(4) by simp
  ultimately show ?thesis using i m(3)
    by (intro exI [of _ "t2\<lparr>inode_table := (inode_table t2)[i := zero_inode]\<rparr>"]) (simp add: t2_def)
qed

theorem free_inode_wrong_bit_witness:
  "\<exists>s t. free_inode 0 s = Ok () t \<and> bitmap_bit (b_data (bufs s ! 0)) 1 \<and> bitmap_bit (b_data (bufs t ! 0)) 1"
proof -
  define s where "s = demo_fs\<lparr>bufs := [zero_buffer\<lparr>b_data := replicate 1024 7\<rparr>], inode_table := [demo_inode\<lparr>i_nlinks := 0\<rparr>],
    super_block := (demo_super\<lparr>s_imap := Some 0 # replicate 7 None\<rparr>) # replicate 7 zero_super\<rparr>"
  have sup: "super_of s RD = Some 0" "supers_free s"
    by (auto simp: s_def super_of_def supers_free_def upt_conv_Cons demo_super_def zero_super_def nth_Cons split: nat.splits)
  have bits: "bitmap_bit (b_data (bufs s ! 0)) 1" by (simp add: s_def bitmap_bit_def bit_numeral_rec)
  from free_inode_wrong_bit [OF sup(2), of 0 "demo_inode\<lparr>i_nlinks := 0\<rparr>" RD 0 0] sup(1)
  obtain t where "free_inode 0 s = Ok () t" "\<forall>x < 8192. bitmap_bit (b_data (bufs t ! 0)) x = (x \<noteq> 0 \<and> bitmap_bit (b_data (bufs s ! 0)) x)"
    by (auto simp: s_def demo_inode_def demo_super_def zero_inode_def)
  then show ?thesis using bits by (intro exI [of _ s] exI [of _ t]) simp
qed

lemma S_ISBLK_byte: "S_ISBLK (ucast (w :: u8)) = False"
proof (rule ccontr)
  assume "S_ISBLK (ucast w) \<noteq> False"
  then have "(ucast w :: u16) AND 0xF000 = 0x6000" by (simp add: S_ISBLK_def)
  then have "bit ((ucast w :: u16) AND 0xF000) 13" by (simp add: bit_numeral_rec)
  then have "bit w 13" by (simp add: bit_simps)
  then show False by (auto dest: bit_imp_le_length)
qed

text \<open>\<open>sys_mount\<close> never succeeds: it tests the mount flag of the device inode, a byte, for the type of a
  block device, and even past that test the assignment \<open>i_num = ROOT_INO\<close> in the condition makes every
  directory busy. Whatever the names resolve to, a call that returns returns an error.\<close>

theorem sys_mount_fails:
  assumes "sys_mount nd nr s = Ok r t"
  shows "r = - ENOENT \<or> r = - EPERM"
proof -
  have "sys_mount nd nr = bindk nd (\<lambda>r. case r of None \<Rightarrow> retk (- ENOENT) | Some d \<Rightarrow>
     bindk (get_inode d) (\<lambda>dn. bindk (nthk (i_zone dn) 0) (\<lambda>z. bindk (iput (Some d)) (\<lambda>_. retk (- EPERM)))))"
    unfolding sys_mount_def S_ISBLK_byte Let_def not_False_eq_True if_True ..
  then show ?thesis using assms by (auto simp: bindk_eq_Ok retk_def split: option.splits)
qed

theorem sys_mount_fails_witness: "\<exists>r. sys_mount (retk None) (retk None) demo_fs = Ok r demo_fs \<and> r \<noteq> 0"
proof -
  obtain r where r: "sys_mount (retk None) (retk None) demo_fs = Ok r demo_fs" by (simp add: sys_mount_def retk_def)
  from sys_mount_fails [OF this] r show ?thesis by auto
qed

end
