(* ===== verification/Paging.thy ===== *)
theory Paging
  imports Inode Pte
begin

text \<open>
  Virtual memory (the rest of \<open>mm/memory.c\<close>), the store-fault handler of \<open>trap/machine_exception.c\<close>
  and the access of the kernel to user memory (\<open>kernel/segment.c\<close>).

  Page tables live in physical memory \<open>pmem\<close>: an entry is the 64-bit word at its address. User space is
  \<open>USER_START_ADDR\<close> to \<open>USER_END_ADDR\<close>, addressed by the directory at \<open>page_dir_table\<close> (one entry per
  2 MB) and one table of 512 entries per directory entry. \<open>invalidate()\<close> is a fence instruction and has
  no effect on the state. \<open>oom()\<close> is \<open>do_exit(SIGSEGV)\<close>. A group of bit-field writes to one entry is one
  update of the word.
\<close>

abbreviation "USER_END_ADDR \<equiv> (0x1BFFFFFFF :: ulong)"
abbreviation "SIGSEGV \<equiv> (11 :: int)"

definition GET_PAGE_DIR_ID :: "ulong \<Rightarrow> ulong" where "GET_PAGE_DIR_ID x = drop_bit 21 (x AND 0x3FFFFFFF)"
definition GET_PAGE_DIR_SIZE :: "ulong \<Rightarrow> ulong" where "GET_PAGE_DIR_SIZE x = drop_bit 21 (x + 0x200000 - 1)"
definition GET_PAGE_ENTRY_ID :: "ulong \<Rightarrow> ulong" where "GET_PAGE_ENTRY_ID x = drop_bit 12 (x AND 0x1FFFFF)"
definition GET_PAGE_ID :: "ulong \<Rightarrow> ulong" where "GET_PAGE_ID x = drop_bit 12 (x AND 0x3FFFFFFF)"

definition get_pte :: "ulong \<Rightarrow> ulong K" where
  "get_pte a = getk (\<lambda>s. read64 (pmem s) a)"

definition upd_pte :: "ulong \<Rightarrow> (ulong \<Rightarrow> ulong) \<Rightarrow> unit K" where
  "upd_pte a f = modk (\<lambda>s. s\<lparr>pmem := write64 (pmem s) a (f (read64 (pmem s) a))\<rparr>)"

text \<open>\<open>&page_dir_table[GET_PAGE_DIR_ID(x)]\<close> and \<open>&table[GET_PAGE_ENTRY_ID(x)]\<close>.\<close>

definition dir_slot :: "ulong \<Rightarrow> kstate \<Rightarrow> ulong" where
  "dir_slot x s = page_dir_table s + 8 * GET_PAGE_DIR_ID x"

definition entry_slot :: "ulong \<Rightarrow> ulong \<Rightarrow> ulong" where
  "entry_slot table x = table + 8 * GET_PAGE_ENTRY_ID x"

text \<open>A change of one reference count; the index may run off the array.\<close>

definition upd_ref :: "ulong \<Rightarrow> (u8 \<Rightarrow> u8) \<Rightarrow> unit K" where
  "upd_ref page f = (\<lambda>s. let i = unat (MAP_NR page) in
     if i < length (mem_map s) then Ok () (s\<lparr>mem_map := (mem_map s)[i := f (mem_map s ! i)]\<rparr>) else Fault)"

definition get_ref :: "ulong \<Rightarrow> u8 K" where
  "get_ref page = bindk (getk mem_map) (\<lambda>mm. nthk mm (unat (MAP_NR page)))"

section \<open>Copying between kernel and user memory\<close>

definition page_transform_start :: "unit K" where
  "page_transform_start = modk (\<lambda>s. s\<lparr>traned := False\<rparr>)"

text \<open>\<open>user_addr_to_kernel(&addr)\<close> is passed the address of the pointer parameter, a kernel stack
  address below \<open>USER_START_ADDR\<close>, so it returns true and translates nothing.\<close>

definition page_transform_addr :: "ulong \<Rightarrow> (ulong \<times> bool) K" where
  "page_transform_addr a = bindk (getk (\<lambda>s. s)) (\<lambda>s.
     if \<not> traned s \<or> GET_PAGE_ID a \<noteq> GET_PAGE_ID (lastkerneladdr s) then
       let a' = a - lastkerneladdr s + lastuseraddr s in
       bindk (modk (\<lambda>s. s\<lparr>traned := True, lastuseraddr := a', lastkerneladdr := a'\<rparr>)) (\<lambda>_. retk (a', True))
     else retk (a, True))"

text \<open>The copy loops advance neither pointer. The kernel object on the other side is not in \<open>pmem\<close>: the
  first function takes its first byte, the second returns the byte it leaves there.\<close>

fun mem_copy_from_loop :: "u8 \<Rightarrow> ulong \<Rightarrow> nat \<Rightarrow> unit K" where
  "mem_copy_from_loop v to 0 = retk ()"
| "mem_copy_from_loop v to (Suc n) = bindk (page_transform_addr to) (\<lambda>(to', _).
     bindk (modk (\<lambda>s. s\<lparr>pmem := (pmem s)(to' := v)\<rparr>)) (\<lambda>_. mem_copy_from_loop v to' n))"

definition mem_copy_from_kernel :: "u8 \<Rightarrow> ulong \<Rightarrow> nat \<Rightarrow> unit K" where
  "mem_copy_from_kernel v to sz = bindk page_transform_start (\<lambda>_. mem_copy_from_loop v to sz)"

fun mem_copy_to_loop :: "ulong \<Rightarrow> nat \<Rightarrow> u8 option \<Rightarrow> u8 option K" where
  "mem_copy_to_loop from 0 r = retk r"
| "mem_copy_to_loop from (Suc n) r = bindk (page_transform_addr from) (\<lambda>(from', _).
     bindk (getk (\<lambda>s. pmem s from')) (\<lambda>v. mem_copy_to_loop from' n (Some v)))"

definition mem_copy_to_kernel :: "ulong \<Rightarrow> nat \<Rightarrow> u8 option K" where
  "mem_copy_to_kernel from sz = bindk page_transform_start (\<lambda>_. mem_copy_to_loop from sz None)"

text \<open>512 rounds, each copying the same first eight bytes.\<close>

definition copy_page :: "ulong \<Rightarrow> ulong \<Rightarrow> unit K" where
  "copy_page from to = eachk (\<lambda>_. bindk (get_pte from) (\<lambda>w. upd_pte to (\<lambda>_. w))) [0..<512]"

section \<open>Page tables\<close>

text \<open>One directory entry of \<open>free_page_tables\<close>; the parameter \<open>dir\<close> of the C function is overwritten at
  once and has no influence.\<close>

definition free_table :: "ulong \<Rightarrow> unit K" where
  "free_table d = bindk (get_pte d) (\<lambda>w. whenk (pte_v w)
     (let tb = pte_common_ppn_to_addr w in
      bindk (eachk (\<lambda>nr. let e = tb + 8 * word_of_nat nr in
         bindk (get_pte e) (\<lambda>x. bindk (whenk (pte_v x) (free_page (pte_common_ppn_to_addr x))) (\<lambda>_.
         pte_common_init e 1))) [0..<512]) (\<lambda>_.
      bindk (get_pte d) (\<lambda>w. bindk (free_page (pte_common_ppn_to_addr w)) (\<lambda>_. pte_common_init d 1)))))"

definition free_page_tables :: "ulong \<Rightarrow> ulong \<Rightarrow> unit K" where
  "free_page_tables from sz = (if from AND 0xFFF \<noteq> 0 then panick ''free_page_tables called with wrong alignment''
     else if from = 0 then panick ''Trying to free up swapper memory space''
     else bindk (getk (dir_slot from)) (\<lambda>d.
       eachk (\<lambda>k. free_table (d + 8 * word_of_nat k)) [0..<unat (GET_PAGE_DIR_SIZE sz)]))"

text \<open>One page of \<open>copy_page_tables\<close>: both entries become read-only, the page gets one more user.\<close>

definition copy_entry :: "ulong \<Rightarrow> ulong \<Rightarrow> unit K" where
  "copy_entry fe te = bindk (get_pte fe) (\<lambda>w. whenk (pte_v w)
     (let w' = pte_common_set_accessibility pte_accessibility_readexecute w; page = pte_common_ppn_to_addr w' in
      bindk (upd_pte te (\<lambda>_. w')) (\<lambda>_.
      whenk (page > LOW_MEM) (bindk (upd_pte fe (\<lambda>_. w')) (\<lambda>_. upd_ref page (\<lambda>c. c + 1))))))"

text \<open>One directory entry: true when out of memory.\<close>

definition copy_table :: "ulong \<Rightarrow> ulong \<Rightarrow> bool K" where
  "copy_table fd td = bindk (get_pte td) (\<lambda>tw. if pte_v tw then panick ''copy_page_tables: already exist'' else
     bindk (get_pte fd) (\<lambda>fw. if \<not> pte_v fw then retk False else
     bindk get_free_page (\<lambda>tb. if tb = 0 then retk True else
     bindk (upd_pte td (\<lambda>w. pte_common_enable_entry (pte_common_set_accessibility pte_accessibility_pointer
        (pte_common_addr_to_ppn tb w)))) (\<lambda>_.
     bindk (eachk (\<lambda>nr. copy_entry (pte_common_ppn_to_addr fw + 8 * word_of_nat nr) (tb + 8 * word_of_nat nr)) [0..<512])
       (\<lambda>_. retk False)))))"

fun copy_tables :: "ulong \<Rightarrow> ulong \<Rightarrow> nat \<Rightarrow> int K" where
  "copy_tables fd td 0 = retk 0"
| "copy_tables fd td (Suc n) = bindk (copy_table fd td) (\<lambda>oom. if oom then retk (- 1) else copy_tables (fd + 8) (td + 8) n)"

definition copy_page_tables :: "ulong \<Rightarrow> ulong \<Rightarrow> ulong \<Rightarrow> ulong \<Rightarrow> int K" where
  "copy_page_tables from to to_dir sz = (if to_dir = 0 then retk 0
     else if from AND 0x1FFFFF \<noteq> 0 \<or> to AND 0x1FFFFF \<noteq> 0 then panick ''copy_page_tables called with wrong alignment''
     else bindk (getk (dir_slot from)) (\<lambda>fd. copy_tables fd to_dir (unat (GET_PAGE_DIR_SIZE sz))))"

definition map_entry :: "ulong \<Rightarrow> ulong \<Rightarrow> ulong" where
  "map_entry page w = pte_common_enable_entry (pte_common_enable_user
     (pte_common_set_accessibility pte_accessibility_all (pte_common_addr_to_ppn page w)))"

definition put_page :: "ulong \<Rightarrow> ulong \<Rightarrow> ulong K" where
  "put_page page address = bindk (get_ref page) (\<lambda>_.
     bindk (getk (dir_slot address)) (\<lambda>d.
     bindk (get_pte d) (\<lambda>w.
     bindk (if pte_v w then retk (pte_common_ppn_to_addr w) else
        bindk get_free_page (\<lambda>tmp. if tmp = 0 then retk 0 else
        bindk (pte_common_init tmp 512) (\<lambda>_.
        bindk (upd_pte d (\<lambda>w. pte_common_enable_entry (pte_common_enable_user
           (pte_common_set_accessibility pte_accessibility_pointer (pte_common_addr_to_ppn tmp w))))) (\<lambda>_. retk tmp)))) (\<lambda>tb.
     if \<not> pte_v w \<and> tb = 0 then retk 0 else
     bindk (upd_pte (entry_slot tb address) (map_entry page)) (\<lambda>_. retk page)))))"

section \<open>Faults\<close>

definition un_wp_page :: "ulong \<Rightarrow> unit K" where
  "un_wp_page e = bindk (get_pte e) (\<lambda>w. let old = pte_common_ppn_to_addr w in
     bindk (if old \<ge> LOW_MEM then bindk (get_ref old) (\<lambda>c. retk (c = 1)) else retk False) (\<lambda>sole.
     if sole then upd_pte e pte_common_set_writeable else
     bindk get_free_page (\<lambda>new. if new = 0 then diek SIGSEGV else
     bindk (whenk (old \<ge> LOW_MEM) (upd_ref old (\<lambda>c. c - 1))) (\<lambda>_.
     bindk (upd_pte e (map_entry new)) (\<lambda>_. copy_page old new)))))"

definition do_wp_page :: "ulong \<Rightarrow> unit K" where
  "do_wp_page address = bindk (getk (dir_slot address)) (\<lambda>d. bindk (get_pte d) (\<lambda>w.
     un_wp_page (entry_slot (pte_common_ppn_to_addr w) address)))"

definition write_verify :: "ulong \<Rightarrow> unit K" where
  "write_verify address = bindk (getk (dir_slot address)) (\<lambda>d. bindk (get_pte d) (\<lambda>w.
     if \<not> pte_v w then retk () else
     let e = entry_slot (pte_common_ppn_to_addr w) address in
     bindk (get_pte e) (\<lambda>x. whenk (pte_v x \<and> \<not> pte_w x) (un_wp_page e))))"

text \<open>\<open>verify_area\<close> of \<open>kernel/fork.c\<close>: every page of the area gets its own copy if it is write-protected.\<close>

definition verify_area :: "ulong \<Rightarrow> int \<Rightarrow> unit K" where
  "verify_area addr sz = (let start = addr AND NOT 0xFFF; n = sz + uint (addr AND 0xFFF) in
     eachk (\<lambda>k. write_verify (start + 4096 * word_of_nat k)) [0..<nat ((n + 4095) div 4096)])"

definition get_empty_page :: "ulong \<Rightarrow> unit K" where
  "get_empty_page address = bindk get_free_page (\<lambda>tmp.
     bindk (if tmp = 0 then retk 0 else put_page tmp address) (\<lambda>r.
     if r = 0 then bindk (free_page tmp) (\<lambda>_. diek SIGSEGV) else retk ()))"

text \<open>The current task's own directory is \<open>current -> page_dir_table\<close>, not the global. The entry found for
  the current task is only made read-only: it is not given the address of the shared page.\<close>

definition try_to_share :: "ulong \<Rightarrow> ulong \<Rightarrow> bool K" where
  "try_to_share address p = bindk (get_task p) (\<lambda>pt. bindk (getk cur_task) (\<lambda>ct.
     let fd = t_page_dir pt + 8 * GET_PAGE_DIR_ID address; td = t_page_dir ct + 8 * GET_PAGE_DIR_ID address in
     bindk (get_pte fd) (\<lambda>fw. if \<not> pte_v fw then retk False else
     let fe = entry_slot (pte_common_ppn_to_addr fw) address in
     bindk (get_pte fe) (\<lambda>fx. if \<not> pte_v fx \<or> pte_d fx then retk False else
     let phys = pte_common_ppn_to_addr fx in
     bindk (getk HIGH_MEMORY) (\<lambda>hi. if phys \<ge> hi \<or> phys < LOW_MEM then retk False else
     bindk (get_pte td) (\<lambda>tw.
     bindk (if pte_v tw then retk () else bindk get_free_page (\<lambda>to. if to = 0 then diek SIGSEGV else
        upd_pte td (\<lambda>w. pte_common_enable_user (pte_common_enable_entry
          (pte_common_set_accessibility pte_accessibility_all (pte_common_addr_to_ppn to w)))))) (\<lambda>_.
     bindk (get_pte td) (\<lambda>tw.
     let te = entry_slot (pte_common_ppn_to_addr tw) address in
     bindk (get_pte te) (\<lambda>tx. if pte_v tx then panick ''try_to_share: to_page already exists'' else
     bindk (upd_pte fe (put_bit 2 False)) (\<lambda>_.
     bindk (upd_pte te (put_bit 2 False)) (\<lambda>_.
     bindk (upd_ref phys (\<lambda>c. c + 1)) (\<lambda>_. retk True))))))))))))"

fun share_with :: "ulong \<Rightarrow> nat list \<Rightarrow> bool K" where
  "share_with address [] = retk False"
| "share_with address (k # ks) = bindk (getk (\<lambda>s. s)) (\<lambda>s. let p = task s ! k in
     if p = 0 \<or> p = current s \<or> t_executable (tasks s p) \<noteq> t_executable (cur_task s) then share_with address ks
     else bindk (try_to_share address p) (\<lambda>r. if r then retk True else share_with address ks))"

definition share_page :: "ulong \<Rightarrow> bool K" where
  "share_page address = bindk (getk cur_task) (\<lambda>t. case t_executable t of None \<Rightarrow> retk False | Some i \<Rightarrow>
     bindk (get_inode i) (\<lambda>n. if i_count n < 2 then retk False else share_with address (rev [0..<NR_TASKS])))"

fun bmap_list :: "nat \<Rightarrow> int \<Rightarrow> nat \<Rightarrow> int list K" where
  "bmap_list i block 0 = retk []"
| "bmap_list i block (Suc n) = bindk (bmap i block) (\<lambda>b. bindk (bmap_list i (block + 1) n) (\<lambda>bs. retk (b # bs)))"

text \<open>\<open>block\<close> and the byte count \<open>i\<close> are \<open>int\<close>s computed from unsigned longs: the low 32 bits, signed.\<close>

definition to_int32 :: "ulong \<Rightarrow> int" where
  "to_int32 w = sint (ucast w :: u32)"

definition do_no_page :: "ulong \<Rightarrow> unit K" where
  "do_no_page addr = (let address = addr AND NOT 0xFFF in
     bindk (getk cur_task) (\<lambda>t. case t_executable t of None \<Rightarrow> get_empty_page address | Some x \<Rightarrow>
     if address \<ge> t_end_data t then get_empty_page address else
     bindk (share_page address) (\<lambda>shared. if shared then retk () else
     bindk get_free_page (\<lambda>page. if page = 0 then diek SIGSEGV else
     let tmp = address - t_start_code t in
     bindk (bmap_list x (to_int32 (1 + tmp div 1024)) 4) (\<lambda>nr.
     bindk (get_inode x) (\<lambda>n.
     bindk (bread_page page (uint (i_dev n)) nr) (\<lambda>_.
     bindk (getk cur_task) (\<lambda>t.
     let i = to_int32 (tmp + t_start_code t + 4096 - t_end_data t) in
     bindk (whenk (i > 0) (modk (\<lambda>s. s\<lparr>pmem := memset0 (page + 4096 - word_of_int i) (word_of_int i) (pmem s)\<rparr>))) (\<lambda>_.
     bindk (put_page page address) (\<lambda>r. if r \<noteq> 0 then retk () else
     bindk (free_page page) (\<lambda>_. diek SIGSEGV)))))))))))"

definition machine_exception_store_or_amo_access_fault :: "ulong \<Rightarrow> unit K" where
  "machine_exception_store_or_amo_access_fault addr =
     (if addr > USER_END_ADDR \<or> addr < USER_START_ADDR then do_no_page addr else
      bindk (getk page_dir_table) (\<lambda>dir. if dir = 0 then do_no_page addr else
      bindk (getk (dir_slot addr)) (\<lambda>d. bindk (get_pte d) (\<lambda>w. if \<not> pte_v w then do_no_page addr else
      bindk (get_pte (entry_slot (pte_common_ppn_to_addr w) addr)) (\<lambda>x.
      if \<not> pte_v x then do_no_page addr else do_wp_page addr)))))"

section \<open>Translation of user addresses\<close>

text \<open>The common body of \<open>user_addr_to_kernel\<close> and \<open>user_addr_to_kernel_write\<close>: at the first missing entry
  the fault handler runs and everything starts again, at the second the kernel panics. The flag says
  whether the handler may still run.\<close>

definition translate_round :: "(ulong \<Rightarrow> unit K) \<Rightarrow> ulong \<Rightarrow> bool \<Rightarrow> (bool + ulong) K" where
  "translate_round handler a first =
     (if a < USER_START_ADDR then retk (Inr a) else
      bindk (getk page_dir_table) (\<lambda>dir. if dir = 0 then panick ''page_dir_table is null'' else
      if a > USER_END_ADDR then panick ''addr > USER_END_ADDR'' else
      bindk (getk (dir_slot a)) (\<lambda>d. bindk (get_pte d) (\<lambda>w.
      if \<not> pte_v w then
        if first then bindk (handler a) (\<lambda>_. retk (Inl False)) else panick ''page dir is not enabled''
      else bindk (get_pte (entry_slot (pte_common_ppn_to_addr w) a)) (\<lambda>x.
      if \<not> pte_v x then
        if first then bindk (handler a) (\<lambda>_. retk (Inl False)) else panick ''page entry is not enabled''
      else retk (Inr (pte_common_ppn_to_addr x + (a AND 0xFFF))))))))"

definition user_addr_to_kernel :: "ulong \<Rightarrow> ulong K" where
  "user_addr_to_kernel a = loopk 2 (translate_round do_no_page a) True"

definition user_addr_to_kernel_write :: "ulong \<Rightarrow> ulong K" where
  "user_addr_to_kernel_write a = loopk 2 (translate_round machine_exception_store_or_amo_access_fault a) True"

section \<open>User memory\<close>

definition get_fs :: "ulong K" where "get_fs = getk fs_is_kernel"
definition set_fs :: "ulong \<Rightarrow> unit K" where "set_fs v = modk (\<lambda>s. s\<lparr>fs_is_kernel := v\<rparr>)"
definition get_ds :: ulong where "get_ds = 1"

definition fs_addr :: "ulong \<Rightarrow> ulong K" where
  "fs_addr a = bindk get_fs (\<lambda>k. if k = 0 then user_addr_to_kernel a else retk a)"

definition load_bytes :: "ulong \<Rightarrow> nat \<Rightarrow> kstate \<Rightarrow> u8 list" where
  "load_bytes a n s = map (\<lambda>i. pmem s (a + word_of_nat i)) [0..<n]"

definition store_bytes :: "ulong \<Rightarrow> u8 list \<Rightarrow> kstate \<Rightarrow> kstate" where
  "store_bytes a bs s = s\<lparr>pmem := (\<lambda>x. if unat (x - a) < length bs then bs ! unat (x - a) else pmem s x)\<rparr>"

definition get_fs_byte :: "ulong \<Rightarrow> u8 K" where
  "get_fs_byte addr = bindk (fs_addr addr) (\<lambda>a. getk (\<lambda>s. pmem s a))"

definition get_fs_word :: "ulong \<Rightarrow> u16 K" where
  "get_fs_word addr = bindk (fs_addr addr) (\<lambda>a. getk (\<lambda>s. get16 (load_bytes a 2 s) 0))"

definition get_fs_long :: "ulong \<Rightarrow> u32 K" where
  "get_fs_long addr = bindk (fs_addr addr) (\<lambda>a. getk (\<lambda>s. get32 (load_bytes a 4 s) 0))"

definition get_fs_64long :: "ulong \<Rightarrow> ulong K" where
  "get_fs_64long addr = bindk (fs_addr addr) (\<lambda>a. getk (\<lambda>s. read64 (pmem s) a))"

definition put_fs_byte :: "u8 \<Rightarrow> ulong \<Rightarrow> unit K" where
  "put_fs_byte val addr = bindk (fs_addr addr) (\<lambda>a. modk (store_bytes a [val]))"

definition put_fs_word :: "u16 \<Rightarrow> ulong \<Rightarrow> unit K" where
  "put_fs_word val addr = bindk (fs_addr addr) (\<lambda>a. modk (store_bytes a (le16 val)))"

definition put_fs_long :: "u32 \<Rightarrow> ulong \<Rightarrow> unit K" where
  "put_fs_long val addr = bindk (fs_addr addr) (\<lambda>a. modk (store_bytes a (le32 val)))"

definition put_fs_64long :: "ulong \<Rightarrow> ulong \<Rightarrow> unit K" where
  "put_fs_64long val addr = bindk (fs_addr addr) (\<lambda>a. modk (\<lambda>s. s\<lparr>pmem := write64 (pmem s) a val\<rparr>))"

section \<open>Memory management keeps the file system tables well-formed\<close>

lemma kv_pte_ops [keeps_intros]: "keeps kinv (get_pte a)" "keeps kinv (upd_pte a f)" "keeps kinv (pte_common_init a n)"
  "keeps kinv (get_ref p)" "keeps kinv page_transform_start"
  unfolding get_pte_def upd_pte_def pte_common_init_def get_ref_def page_transform_start_def by (intro keeps_intros kv_modk; simp)+

lemma kv_upd_ref [keeps_intros]: "keeps kinv (upd_ref p f)"
  by (auto simp: keeps_def upd_ref_def Let_def intro: kinv_other [rotated 6])

lemma kv_get_task [keeps_intros]: "keeps Q (get_task p)"
  by (simp add: keeps_def get_task_def)

lemma kv_page_transform [keeps_intros]: "keeps kinv (page_transform_addr a)"
  unfolding page_transform_addr_def Let_def by (intro keeps_intros kv_modk; simp)

lemma kv_mem_copy_from_loop: "keeps kinv (mem_copy_from_loop v to n)"
  by (induction n arbitrary: to) (auto intro!: keeps_intros kv_modk split: prod.splits)

lemma kv_mem_copy_to_loop: "keeps kinv (mem_copy_to_loop from n r)"
  by (induction n arbitrary: "from" r) (auto intro!: keeps_intros split: prod.splits)

lemma kv_mem_copy [keeps_intros]: "keeps kinv (mem_copy_from_kernel v to n)" "keeps kinv (mem_copy_to_kernel from n)"
  unfolding mem_copy_from_kernel_def mem_copy_to_kernel_def by (intro keeps_intros kv_mem_copy_from_loop kv_mem_copy_to_loop)+

lemma kv_copy_page [keeps_intros]: "keeps kinv (copy_page from to)"
  unfolding copy_page_def by (intro keeps_intros)

lemma kv_free_page_tables [keeps_intros]: "keeps kinv (free_page_tables from sz)"
  unfolding free_page_tables_def free_table_def Let_def by (intro keeps_intros)

lemma kv_copy_table [keeps_intros]: "keeps kinv (copy_table fd td)"
  unfolding copy_table_def copy_entry_def Let_def by (intro keeps_intros)

lemma kv_copy_tables: "keeps kinv (copy_tables fd td n)"
  by (induction n arbitrary: fd td) (auto intro!: keeps_intros)

lemma kv_copy_page_tables [keeps_intros]: "keeps kinv (copy_page_tables from to dir sz)"
  unfolding copy_page_tables_def by (intro keeps_intros kv_copy_tables)

lemma kv_put_page [keeps_intros]: "keeps kinv (put_page p a)"
  unfolding put_page_def by (intro keeps_intros)

lemma kv_un_wp_page [keeps_intros]: "keeps kinv (un_wp_page e)"
  unfolding un_wp_page_def Let_def by (intro keeps_intros)

lemma kv_wp [keeps_intros]: "keeps kinv (do_wp_page a)" "keeps kinv (write_verify a)" "keeps kinv (get_empty_page a)"
  unfolding do_wp_page_def write_verify_def get_empty_page_def Let_def by (intro keeps_intros)+

lemma kv_verify_area [keeps_intros]: "keeps kinv (verify_area a n)"
  unfolding verify_area_def Let_def by (intro keeps_intros)

lemma kv_try_to_share [keeps_intros]: "keeps kinv (try_to_share a p)"
  unfolding try_to_share_def Let_def by (intro keeps_intros)

lemma kv_share_with: "keeps kinv (share_with a ks)"
  by (induction ks) (auto simp: Let_def intro!: keeps_intros)

lemma kv_share_page [keeps_intros]: "keeps kinv (share_page a)"
  unfolding share_page_def by (intro keeps_intros kv_share_with)

lemma kv_bmap [keeps_intros]: "keeps kinv (bmap i b)" "keeps kinv (create_block i b)"
  unfolding bmap_def create_block_def by (intro keeps_intros)+

lemma kv_bmap_list [keeps_intros]: "keeps kinv (bmap_list i b n)"
  by (induction n arbitrary: b) (auto intro!: keeps_intros)

lemma kv_do_no_page [keeps_intros]: "keeps kinv (do_no_page a)"
  unfolding do_no_page_def Let_def by (intro keeps_intros kv_modk; simp)

lemma kv_store_fault [keeps_intros]: "keeps kinv (machine_exception_store_or_amo_access_fault a)"
  unfolding machine_exception_store_or_amo_access_fault_def by (intro keeps_intros)

lemma kv_translate [keeps_intros]: "keeps kinv (user_addr_to_kernel a)" "keeps kinv (user_addr_to_kernel_write a)"
  unfolding user_addr_to_kernel_def user_addr_to_kernel_write_def translate_round_def by (intro keeps_intros)+

lemma kv_fs_addr [keeps_intros]: "keeps kinv (fs_addr a)" "keeps kinv (set_fs v)"
  unfolding fs_addr_def get_fs_def set_fs_def by (intro keeps_intros kv_modk; simp)+

lemma kv_get_fs [keeps_intros]: "keeps kinv (get_fs_byte a)" "keeps kinv (get_fs_word a)" "keeps kinv (get_fs_long a)" "keeps kinv (get_fs_64long a)"
  unfolding get_fs_byte_def get_fs_word_def get_fs_long_def get_fs_64long_def by (intro keeps_intros)+

lemma kv_put_fs [keeps_intros]: "keeps kinv (put_fs_byte v1 a)" "keeps kinv (put_fs_word v2 a)" "keeps kinv (put_fs_long v3 a)" "keeps kinv (put_fs_64long v4 a)"
  unfolding put_fs_byte_def put_fs_word_def put_fs_long_def put_fs_64long_def store_bytes_def by (intro keeps_intros kv_modk; simp)+

end
