(* ===== verification/Paging_Props.thy ===== *)
theory Paging_Props
  imports Paging
begin

text \<open>
  Properties of virtual memory: where table entries are and that they do not overlap, that a page put
  at a user address is found there by the translation, what write faults and the copy loops do.
\<close>

section \<open>Slots of page tables\<close>

lemma dir_id_less: "unat (GET_PAGE_DIR_ID x) < 512"
proof -
  have "(x AND 0x3FFFFFFF) = take_bit 30 x" using take_bit_eq_mask [of 30 x] by (simp add: mask_eq_exp_minus_1)
  then have "unat (x AND 0x3FFFFFFF) < 2 ^ 30" using take_bit_nat_less_exp [of 30 "unat x"] by (simp add: unsigned_take_bit_eq)
  then show ?thesis unfolding GET_PAGE_DIR_ID_def unat_drop_bit by (intro less_mult_imp_div_less) simp
qed

lemma entry_id_less: "unat (GET_PAGE_ENTRY_ID x) < 512"
proof -
  have "(x AND 0x1FFFFF) = take_bit 21 x" using take_bit_eq_mask [of 21 x] by (simp add: mask_eq_exp_minus_1)
  then have "unat (x AND 0x1FFFFF) < 2 ^ 21" using take_bit_nat_less_exp [of 21 "unat x"] by (simp add: unsigned_take_bit_eq)
  then show ?thesis unfolding GET_PAGE_ENTRY_ID_def unat_drop_bit by (intro less_mult_imp_div_less) simp
qed

lemma same_page_ids:
  assumes "drop_bit 12 b = drop_bit 12 a"
  shows "GET_PAGE_DIR_ID b = GET_PAGE_DIR_ID a" "GET_PAGE_ENTRY_ID b = GET_PAGE_ENTRY_ID a"
proof -
  have m: "x AND 0x3FFFFFFF = take_bit 30 x" "x AND 0x1FFFFF = take_bit 21 x" for x :: ulong
    using take_bit_eq_mask [of 30 x] take_bit_eq_mask [of 21 x] by (simp_all add: mask_eq_exp_minus_1)
  have e: "bit b (n + 12) = bit a (n + 12)" for n using arg_cong [OF assms, of "\<lambda>x. bit x n"] by (simp add: bit_simps add.commute)
  have "bit b (n + 21) = bit a (n + 21)" for n using e [of "n + 9"] by (simp add: add.commute)
  then show "GET_PAGE_DIR_ID b = GET_PAGE_DIR_ID a"
    by (intro bit_word_eqI) (auto simp: GET_PAGE_DIR_ID_def m bit_simps add.commute)
  show "GET_PAGE_ENTRY_ID b = GET_PAGE_ENTRY_ID a"
    using e by (intro bit_word_eqI) (auto simp: GET_PAGE_ENTRY_ID_def m bit_simps add.commute)
qed

lemma unat_slot:
  assumes "k < PAGING_PAGES" "unat w < 512"
  shows "unat (page_addr k + 8 * w) = 0x80100000 + 4096 * k + 8 * unat w"
  using assms unat_page_addr [OF assms(1)] by (simp add: unat_word_ariths)

lemma words_apart:
  assumes "unat a + 8 \<le> unat b \<or> unat b + 8 \<le> unat (a :: ulong)" "unat a < 2 ^ 63" "unat b < 2 ^ 63"
  shows "8 \<le> b - a" "b - a \<le> - 8"
proof -
  have "8 \<le> unat (b - a) \<and> unat (b - a) \<le> 2 ^ 64 - 8"
    using assms unat_sub_if' [of b a] by (cases "unat a \<le> unat b") (simp_all, linarith+)
  moreover have "unat (- 8 :: ulong) = 2 ^ 64 - 8" by simp
  ultimately show "8 \<le> b - a" "b - a \<le> - 8" by (simp_all add: word_le_nat_alt)
qed

lemma slots_apart:
  assumes "k < PAGING_PAGES" "l < PAGING_PAGES" "k \<noteq> l" "unat v < 512" "unat w < 512"
  shows "read64 (write64 m (page_addr k + 8 * v) x) (page_addr l + 8 * w) = read64 m (page_addr l + 8 * w)"
proof (rule read64_write64_other)
  have "unat (page_addr k + 8 * v) + 8 \<le> unat (page_addr l + 8 * w) \<or> unat (page_addr l + 8 * w) + 8 \<le> unat (page_addr k + 8 * v)"
    using unat_slot [OF assms(1,4)] unat_slot [OF assms(2,5)] assms(3-5) by linarith
  moreover have "unat (page_addr k + 8 * v) < 2 ^ 63" "unat (page_addr l + 8 * w) < 2 ^ 63"
    using unat_slot [OF assms(1,4)] unat_slot [OF assms(2,5)] assms by simp_all
  note words_apart [OF calculation this]
  then show "8 \<le> page_addr l + 8 * w - (page_addr k + 8 * v)"
    "page_addr l + 8 * w - (page_addr k + 8 * v) \<le> - 8" by blast+
qed

lemma read64_cong: "(\<And>i. i < 8 \<Longrightarrow> m (a + word_of_nat i) = m' (a + word_of_nat i)) \<Longrightarrow> read64 m a = read64 m' a"
  by (rule bit_word_eqI) (auto simp: bit_read64)

text \<open>Clearing another page does not touch a slot.\<close>

lemma slot_byte_outside:
  assumes "k < PAGING_PAGES" "l < PAGING_PAGES" "k \<noteq> l" "unat w < 512" "i < 8"
  shows "\<not> page_addr l + 8 * w + word_of_nat i - page_addr k < 4096"
proof -
  have "unat (word_of_nat i :: ulong) = i" using assms(5) by (simp add: unsigned_of_nat take_bit_nat_eq_self)
  then have a: "unat (page_addr l + 8 * w + word_of_nat i) = 0x80100000 + 4096 * l + 8 * unat w + i"
    using unat_slot [OF assms(2,4)] assms(2,4,5) by (subst unat_add_lem [THEN iffD1]) simp_all
  have b: "unat (page_addr k) = k * 4096 + 0x80100000" by (rule unat_page_addr [OF assms(1)])
  have "unat (page_addr l + 8 * w + word_of_nat i - page_addr k) \<ge> 4096"
  proof (cases "k < l")
    case True
    then show ?thesis using a b assms(4,5) by (auto simp: unat_sub_if')
  next
    case False
    then have "l < k" using assms(3) by simp
    then show ?thesis using a b assms by (auto simp: unat_sub_if')
  qed
  then show ?thesis by (simp add: word_less_nat_alt)
qed

lemma slot_memset0:
  assumes "k < PAGING_PAGES" "l < PAGING_PAGES" "k \<noteq> l" "unat w < 512"
  shows "read64 (memset0 (page_addr k) 4096 m) (page_addr l + 8 * w) = read64 m (page_addr l + 8 * w)"
  by (rule read64_cong) (use slot_byte_outside [OF assms] in \<open>simp add: memset0_def\<close>)

lemma page_addr_frame: "k < PAGING_PAGES \<Longrightarrow> take_bit 12 (page_addr k) = 0 \<and> page_addr k < 2 ^ 50"
proof
  assume k: "k < PAGING_PAGES"
  have "unat (take_bit 12 (page_addr k)) = 0"
    by (simp only: unsigned_take_bit_eq) (simp add: unat_page_addr [OF k] take_bit_eq_mod)
  then show "take_bit 12 (page_addr k) = 0" by (simp only: unat_eq_0)
  show "page_addr k < 2 ^ 50" using unat_page_addr [OF k] k by (simp add: word_less_nat_alt)
qed

lemma map_entry_fields:
  assumes "k < PAGING_PAGES"
  shows "pte_v (map_entry (page_addr k) w)" "pte_w (map_entry (page_addr k) w)" "pte_common_ppn_to_addr (map_entry (page_addr k) w) = page_addr k"
  using ppn_addr_aligned [of "page_addr k" w] page_addr_frame [OF assms]
  by (simp_all add: map_entry_def pte_flags pte_common_enable_entry_def pte_common_enable_user_def pte_common_set_accessibility_def
     bit_put_bit bit_numeral_rec)

section \<open>Mapping and translation\<close>

text \<open>The directory lies in a page in use, and the table for \<open>a\<close>, if there is one, in another page.\<close>

definition tables_ok :: "kstate \<Rightarrow> ulong \<Rightarrow> bool" where
  "tables_ok s a \<longleftrightarrow> length (mem_map s) = PAGING_PAGES \<and>
     (\<exists>d < PAGING_PAGES. page_dir_table s = page_addr d \<and> mem_map s ! d \<noteq> 0 \<and>
       (pte_v (read64 (pmem s) (dir_slot a s)) \<longrightarrow>
         (\<exists>k < PAGING_PAGES. k \<noteq> d \<and> pte_common_ppn_to_addr (read64 (pmem s) (dir_slot a s)) = page_addr k)))"

lemma translate_mapped:
  assumes b: "USER_START_ADDR \<le> b" "b \<le> USER_END_ADDR" and dir: "page_dir_table t \<noteq> 0"
    and d: "pte_v (read64 (pmem t) (dir_slot b t))" "pte_common_ppn_to_addr (read64 (pmem t) (dir_slot b t)) = tb"
    and e: "pte_v (read64 (pmem t) (entry_slot tb b))" "pte_common_ppn_to_addr (read64 (pmem t) (entry_slot tb b)) = page"
  shows "user_addr_to_kernel b t = Ok (page + (b AND 0xFFF)) t"
proof -
  have "\<not> b < USER_START_ADDR" "\<not> b > USER_END_ADDR" using b by simp_all
  then show ?thesis using dir d e
    by (simp add: user_addr_to_kernel_def loopk_numeral translate_round_def get_pte_def getk_def retk_def)
qed

lemma get_ref_Ok: "k < PAGING_PAGES \<Longrightarrow> length (mem_map s) = PAGING_PAGES \<Longrightarrow> get_ref (page_addr k) s = Ok (mem_map s ! k) s"
  by (simp add: get_ref_def getk_def nthk_def retk_def)

text \<open>Once the table is there, writing the entry establishes the mapping.\<close>

lemma entry_mapped:
  assumes kd: "k < PAGING_PAGES" "d < PAGING_PAGES" "k \<noteq> d" "p < PAGING_PAGES" and pd: "page_dir_table u = page_addr d"
    and w: "pte_v (read64 (pmem u) (dir_slot a u))" "pte_common_ppn_to_addr (read64 (pmem u) (dir_slot a u)) = page_addr k"
    and t: "t = u\<lparr>pmem := write64 (pmem u) (entry_slot (page_addr k) a) (map_entry (page_addr p) x)\<rparr>"
    and b: "USER_START_ADDR \<le> b" "b \<le> USER_END_ADDR" "drop_bit 12 b = drop_bit 12 a"
  shows "user_addr_to_kernel b t = Ok (page_addr p + (b AND 0xFFF)) t"
proof (rule translate_mapped [OF b(1,2)])
  note ids = same_page_ids [OF b(3)]
  have ds: "dir_slot b t = dir_slot a u" by (simp add: dir_slot_def t ids)
  have es: "entry_slot (page_addr k) b = entry_slot (page_addr k) a" by (simp add: entry_slot_def ids)
  have "read64 (pmem t) (dir_slot a u) = read64 (pmem u) (dir_slot a u)"
    unfolding t dir_slot_def entry_slot_def pd using slots_apart [OF kd(1,2,3) entry_id_less dir_id_less] by simp
  then show "pte_v (read64 (pmem t) (dir_slot b t))" "pte_common_ppn_to_addr (read64 (pmem t) (dir_slot b t)) = page_addr k"
    using w ds by simp_all
  show "page_dir_table t \<noteq> 0" using kd(2) by (simp add: t pd)
  have "read64 (pmem t) (entry_slot (page_addr k) b) = map_entry (page_addr p) x" by (simp add: t es)
  then show "pte_v (read64 (pmem t) (entry_slot (page_addr k) b))"
    "pte_common_ppn_to_addr (read64 (pmem t) (entry_slot (page_addr k) b)) = page_addr p"
    using map_entry_fields [OF kd(4)] by simp_all
qed

lemma pointer_entry_fields:
  assumes "k < PAGING_PAGES"
  shows "pte_v (pte_common_enable_entry (pte_common_enable_user (pte_common_set_accessibility pte_accessibility_pointer
       (pte_common_addr_to_ppn (page_addr k) w))))"
    "pte_common_ppn_to_addr (pte_common_enable_entry (pte_common_enable_user (pte_common_set_accessibility pte_accessibility_pointer
       (pte_common_addr_to_ppn (page_addr k) w)))) = page_addr k"
  using ppn_addr_aligned [of "page_addr k" w] page_addr_frame [OF assms]
  by (simp_all add: pte_flags pte_common_enable_entry_def bit_put_bit)

text \<open>C29: \<open>put_page\<close> fails only for lack of memory, without any effect, and otherwise maps the page: every
  address of the same user page then translates to the same offset in the page that was put, whether
  the table for that address existed or had to be allocated.\<close>

theorem put_page_translates:
  assumes ok: "tables_ok s a" and p: "p < PAGING_PAGES"
  shows "(put_page (page_addr p) a s = Ok 0 s \<and> (\<forall>j. 1 \<le> j \<longrightarrow> j < PAGING_PAGES \<longrightarrow> mem_map s ! j \<noteq> 0)) \<or>
    (\<exists>t. put_page (page_addr p) a s = Ok (page_addr p) t \<and>
      (\<forall>b. USER_START_ADDR \<le> b \<longrightarrow> b \<le> USER_END_ADDR \<longrightarrow> drop_bit 12 b = drop_bit 12 a \<longrightarrow>
        user_addr_to_kernel b t = Ok (page_addr p + (b AND 0xFFF)) t))"
proof -
  obtain d where d: "d < PAGING_PAGES" "page_dir_table s = page_addr d" "mem_map s ! d \<noteq> 0" and len: "length (mem_map s) = PAGING_PAGES"
    and tb: "pte_v (read64 (pmem s) (dir_slot a s)) \<Longrightarrow>
         \<exists>k < PAGING_PAGES. k \<noteq> d \<and> pte_common_ppn_to_addr (read64 (pmem s) (dir_slot a s)) = page_addr k"
    using ok by (auto simp: tables_ok_def)
  let ?w = "read64 (pmem s) (dir_slot a s)"
  note ref = get_ref_Ok [OF p len]
  show ?thesis
  proof (cases "pte_v ?w")
    case True
    then obtain k where k: "k < PAGING_PAGES" "k \<noteq> d" "pte_common_ppn_to_addr ?w = page_addr k" using tb by blast
    define t where "t = s\<lparr>pmem := write64 (pmem s) (entry_slot (page_addr k) a)
       (map_entry (page_addr p) (read64 (pmem s) (entry_slot (page_addr k) a)))\<rparr>"
    have "put_page (page_addr p) a s = Ok (page_addr p) t"
      using ref True k(3) by (simp add: put_page_def get_pte_def upd_pte_def getk_def modk_def retk_def t_def)
    then show ?thesis using entry_mapped [OF k(1) d(1) k(2) p d(2) True k(3) t_def] by blast
  next
    case False
    show ?thesis
    proof (cases rule: get_free_page_cases [of s])
      case none
      then have "put_page (page_addr p) a s = Ok 0 s"
        using ref False by (simp add: put_page_def get_pte_def getk_def retk_def)
      then show ?thesis using none(2) by blast
    next
      case (page k)
      have kd: "k \<noteq> d" using d(3) page(3) by blast
      define s1 where "s1 = s\<lparr>mem_map := (mem_map s)[k := 1], pmem := memset0 (page_addr k) 4096 (pmem s)\<rparr>"
      define ini where "ini = (\<lambda>x. if x - page_addr k < 4096 then 0 else pmem s1 x)"
      define dw where "dw = pte_common_enable_entry (pte_common_enable_user (pte_common_set_accessibility pte_accessibility_pointer
         (pte_common_addr_to_ppn (page_addr k) (read64 ini (dir_slot a s)))))"
      define u where "u = s1\<lparr>pmem := write64 ini (dir_slot a s) dw\<rparr>"
      define t where "t = u\<lparr>pmem := write64 (pmem u) (entry_slot (page_addr k) a)
         (map_entry (page_addr p) (read64 (pmem u) (entry_slot (page_addr k) a)))\<rparr>"
      have st: "get_free_page s = Ok (page_addr k) s1" "pte_common_init (page_addr k) 512 s1 = Ok () (s1\<lparr>pmem := ini\<rparr>)"
        by (simp add: page(5) s1_def) (simp add: pte_common_init_def modk_def ini_def)
      have su: "upd_pte (dir_slot a s) (\<lambda>w. pte_common_enable_entry (pte_common_enable_user (pte_common_set_accessibility
          pte_accessibility_pointer (pte_common_addr_to_ppn (page_addr k) w)))) (s1\<lparr>pmem := ini\<rparr>) = Ok () u"
        by (simp add: upd_pte_def modk_def u_def dw_def)
      have sv: "upd_pte (entry_slot (page_addr k) a) (map_entry (page_addr p)) u = Ok () t" by (simp add: upd_pte_def modk_def t_def)
      have "put_page (page_addr p) a s = Ok (page_addr p) t"
        using ref False page(2) st su sv by (simp add: put_page_def get_pte_def getk_def retk_def)
      moreover have "dir_slot a u = dir_slot a s" "page_dir_table u = page_addr d" by (simp_all add: u_def s1_def dir_slot_def d(2))
      moreover have "read64 (pmem u) (dir_slot a u) = dw" using calculation(2) by (simp add: u_def)
      ultimately show ?thesis
        using entry_mapped [OF page(2) d(1) kd p _ _ _ t_def, of] pointer_entry_fields [OF page(2)] by (metis dw_def)
    qed
  qed
qed

definition demo_vm :: kstate where
  "demo_vm = kernel_image\<lparr>page_dir_table := page_addr 5, HIGH_MEMORY := 0x81000000, mem_map := (replicate PAGING_PAGES 0)[5 := 1, 6 := 1, 7 := 2]\<rparr>"

lemma read64_zero: "read64 (\<lambda>_. 0) a = 0"
  by (rule bit_word_eqI) (simp add: bit_read64)

theorem put_page_translates_witness:
  "\<exists>t. put_page (page_addr 6) 0xC0001000 demo_vm = Ok (page_addr 6) t \<and>
     user_addr_to_kernel 0xC0001234 t = Ok (page_addr 6 + 0x234) t"
proof -
  have "tables_ok demo_vm 0xC0001000"
    by (auto simp: tables_ok_def demo_vm_def kernel_image_def read64_zero pte_v_def intro!: exI [of _ 5])
  moreover have "mem_map demo_vm ! 1 = 0" by (simp add: demo_vm_def)
  ultimately obtain t where t: "put_page (page_addr 6) 0xC0001000 demo_vm = Ok (page_addr 6) t"
    "\<forall>b. USER_START_ADDR \<le> b \<longrightarrow> b \<le> USER_END_ADDR \<longrightarrow> drop_bit 12 b = drop_bit 12 (0xC0001000 :: ulong) \<longrightarrow>
        user_addr_to_kernel b t = Ok (page_addr 6 + (b AND 0xFFF)) t"
    using put_page_translates [of demo_vm "0xC0001000" 6] by force
  from t(2) [rule_format, of "0xC0001234"] have "user_addr_to_kernel 0xC0001234 t = Ok (page_addr 6 + 0x234) t" by simp
  then show ?thesis using t(1) by blast
qed

section \<open>Write faults\<close>

lemma write64_same: "write64 (write64 m a v) a v = write64 m a v"
  by (rule ext) (simp add: write64_def)

lemma copy_page_rounds:
  assumes "read64 (write64 m to v) from = v" and "pmem s = write64 m to v"
  shows "eachk (\<lambda>_. bindk (get_pte from) (\<lambda>w. upd_pte to (\<lambda>_. w))) xs s = Ok () s"
proof -
  have eq: "s\<lparr>pmem := write64 m to v\<rparr> = s" by (rule kstate.equality) (simp_all add: assms(2))
  have "bindk (get_pte from) (\<lambda>w. upd_pte to (\<lambda>_. w)) s = Ok () s"
    using assms by (simp add: get_pte_def upd_pte_def getk_def modk_def write64_same eq)
  then show ?thesis by (induction xs) (simp_all add: retk_def)
qed

lemma copy_page_eq:
  assumes "8 \<le> from - to" "from - to \<le> - 8"
  shows "copy_page from to s = Ok () (s\<lparr>pmem := write64 (pmem s) to (read64 (pmem s) from)\<rparr>)"
proof -
  let ?v = "read64 (pmem s) from"
  have "[0..<512 :: nat] = 0 # [Suc 0..<512]" by (rule upt_conv_Cons) simp
  moreover have "read64 (write64 (pmem s) to ?v) from = ?v" by (rule read64_write64_other [OF assms])
  then have "eachk (\<lambda>_. bindk (get_pte from) (\<lambda>w. upd_pte to (\<lambda>_. w))) [Suc 0..<512] (s\<lparr>pmem := write64 (pmem s) to ?v\<rparr>)
     = Ok () (s\<lparr>pmem := write64 (pmem s) to ?v\<rparr>)" by (rule copy_page_rounds) simp
  ultimately show ?thesis unfolding copy_page_def by (simp only: eachk.simps) (simp add: get_pte_def upd_pte_def getk_def modk_def)
qed

lemma pages_apart:
  assumes "k < PAGING_PAGES" "l < PAGING_PAGES" "k \<noteq> l"
  shows "8 \<le> page_addr k - page_addr l" "page_addr k - page_addr l \<le> - 8"
proof -
  have "unat (page_addr l) + 8 \<le> unat (page_addr k) \<or> unat (page_addr k) + 8 \<le> unat (page_addr l)"
    using unat_page_addr [OF assms(1)] unat_page_addr [OF assms(2)] assms(3) by linarith
  moreover have "unat (page_addr l) < 2 ^ 63" "unat (page_addr k) < 2 ^ 63"
    using unat_page_addr [OF assms(1)] unat_page_addr [OF assms(2)] assms by simp_all
  note words_apart [OF calculation this]
  then show "8 \<le> page_addr k - page_addr l" "page_addr k - page_addr l \<le> - 8" by blast+
qed

text \<open>C30: a write to a shared page. \<open>un_wp_page\<close> takes an unused page, moves the entry to it with all
  permissions and drops one user of the old page. But \<open>copy_page\<close> never advances its pointers: of the
  4096 bytes of the old page only the first eight reach the new one, the rest is zero.\<close>

theorem un_wp_page_shared:
  assumes len: "length (mem_map s) = PAGING_PAGES"
    and k: "k < PAGING_PAGES" "unat w < 512" "mem_map s ! k \<noteq> 0"
    and old: "p < PAGING_PAGES" "p \<noteq> k" "mem_map s ! p > 1" "pte_common_ppn_to_addr (read64 (pmem s) (page_addr k + 8 * w)) = page_addr p"
    and free: "\<exists>j. 1 \<le> j \<and> j < PAGING_PAGES \<and> mem_map s ! j = 0"
  shows "\<exists>n t. un_wp_page (page_addr k + 8 * w) s = Ok () t \<and> n < PAGING_PAGES \<and> mem_map s ! n = 0 \<and>
    mem_map t = (mem_map s)[n := 1, p := mem_map s ! p - 1] \<and>
    (let x = read64 (pmem t) (page_addr k + 8 * w) in pte_common_ppn_to_addr x = page_addr n \<and> pte_w x \<and> pte_v x) \<and>
    read64 (pmem t) (page_addr n) = read64 (pmem s) (page_addr p) \<and>
    (\<forall>x. 8 \<le> x - page_addr n \<longrightarrow> x - page_addr n < 4096 \<longrightarrow> pmem t x = 0)"
proof (cases rule: get_free_page_cases [of s])
  case none
  then show ?thesis using free by blast
next
  case (page n)
  let ?e = "page_addr k + 8 * w"
  have nk: "n \<noteq> k" "n \<noteq> p" using page(3) k(3) old(3) by auto
  define s1 where "s1 = s\<lparr>mem_map := (mem_map s)[n := 1], pmem := memset0 (page_addr n) 4096 (pmem s)\<rparr>"
  define s2 where "s2 = s1\<lparr>mem_map := (mem_map s1)[p := mem_map s ! p - 1]\<rparr>"
  define x where "x = map_entry (page_addr n) (read64 (pmem s1) ?e)"
  define s3 where "s3 = s2\<lparr>pmem := write64 (pmem s1) ?e x\<rparr>"
  define t where "t = s3\<lparr>pmem := write64 (pmem s3) (page_addr n) (read64 (pmem s3) (page_addr p))\<rparr>"
  have slot0: "page_addr l = page_addr l + 8 * (0 :: ulong)" for l by simp
  have apart: "read64 (write64 m ?e v) (page_addr p) = read64 m (page_addr p)" for m v
    using slots_apart [OF k(1) old(1) old(2) [symmetric] k(2), of 0] by simp
  have old3: "read64 (pmem s3) (page_addr p) = read64 (pmem s) (page_addr p)"
    using slot_memset0 [OF page(2) old(1) nk(2), of 0] by (simp add: s3_def apart s1_def)
  have w1: "read64 (pmem s1) ?e = read64 (pmem s) ?e" using slot_memset0 [OF page(2) k(1) nk(1) k(2)] by (simp add: s1_def)
  have "get_pte ?e s = Ok (read64 (pmem s) ?e) s" by (simp add: get_pte_def getk_def)
  moreover have "get_ref (page_addr p) s = Ok (mem_map s ! p) s" by (rule get_ref_Ok [OF old(1) len])
  moreover have "get_free_page s = Ok (page_addr n) s1" by (simp add: page(5) s1_def)
  moreover have "upd_ref (page_addr p) (\<lambda>c. c - 1) s1 = Ok () s2"
    using old(1) len nk(2) by (simp add: upd_ref_def s2_def s1_def Let_def)
  moreover have "upd_pte ?e (map_entry (page_addr n)) s2 = Ok () s3" by (simp add: upd_pte_def modk_def s3_def s2_def x_def)
  moreover have "copy_page (page_addr p) (page_addr n) s3 = Ok () t"
    unfolding t_def by (rule copy_page_eq) (use pages_apart [OF old(1) page(2)] nk(2) in auto)
  moreover have "mem_map s ! p \<noteq> 1" using old(3) by auto
  ultimately have run: "un_wp_page ?e s = Ok () t"
    using old(1,4) page(2) by (simp add: un_wp_page_def Let_def retk_def whenk_def)
  have "read64 (pmem t) ?e = x"
    unfolding t_def using slots_apart [OF page(2) k(1) nk(1) _ k(2), of 0] by (simp add: s3_def)
  then have "pte_common_ppn_to_addr (read64 (pmem t) ?e) = page_addr n \<and> pte_w (read64 (pmem t) ?e) \<and> pte_v (read64 (pmem t) ?e)"
    using map_entry_fields [OF page(2)] by (simp add: x_def)
  moreover have "read64 (pmem t) (page_addr n) = read64 (pmem s) (page_addr p)" by (simp add: t_def old3)
  moreover have "pmem t y = 0" if y: "8 \<le> y - page_addr n" "y - page_addr n < 4096" for y
  proof -
    have "\<not> y - ?e < 8"
    proof
      assume "y - ?e < 8"
      then have i: "unat (y - ?e) < 8" by (simp add: word_less_nat_alt)
      have "y = ?e + word_of_nat (unat (y - ?e))" by simp
      then show False using slot_byte_outside [OF page(2) k(1) nk(1) k(2) i] y(2) by simp
    qed
    then show ?thesis using y by (simp add: t_def s3_def s1_def write64_def memset0_def not_less)
  qed
  moreover have "mem_map t = (mem_map s)[n := 1, p := mem_map s ! p - 1]" using nk by (simp add: t_def s3_def s2_def s1_def)
  ultimately show ?thesis using run page(2,3) unfolding Let_def by (intro exI [of _ n] exI [of _ t]) simp
qed

theorem un_wp_page_shared_witness:
  "\<exists>s n t. un_wp_page (page_addr 6) s = Ok () t \<and> pmem s (page_addr 7 + 9) = 1 \<and> pmem t (page_addr n + 9) = 0 \<and>
     pte_common_ppn_to_addr (read64 (pmem t) (page_addr 6)) = page_addr n"
proof -
  define s where "s = demo_vm\<lparr>pmem := (write64 (\<lambda>_. 0) (page_addr 6) (map_entry (page_addr 7) 0))(page_addr 7 + 9 := 1)\<rparr>"
  have r: "read64 (pmem s) (page_addr 6) = map_entry (page_addr 7) 0"
  proof -
    have "read64 (pmem s) (page_addr 6) = read64 (write64 (\<lambda>_. 0) (page_addr 6) (map_entry (page_addr 7) 0)) (page_addr 6)"
    proof (rule read64_cong)
      fix i :: nat assume "i < 8"
      from slot_byte_outside [of 7 6 0 i] this have "page_addr 6 + word_of_nat i \<noteq> page_addr 7 + 9" by auto
      then show "pmem s (page_addr 6 + word_of_nat i) = write64 (\<lambda>_. 0) (page_addr 6) (map_entry (page_addr 7) 0) (page_addr 6 + word_of_nat i)"
        by (simp add: s_def)
    qed
    then show ?thesis by simp
  qed
  have m: "mem_map s ! 6 = 1" "mem_map s ! 7 = 2" "mem_map s ! 1 = 0" "length (mem_map s) = PAGING_PAGES" by (simp_all add: s_def demo_vm_def)
  have ex: "\<exists>j. 1 \<le> j \<and> j < PAGING_PAGES \<and> mem_map s ! j = 0" using m(3) by (intro exI [of _ 1]) simp
  from un_wp_page_shared [OF m(4) _ _ _ _ _ _ _ ex, of 6 0 7] r m map_entry_fields(3) [of 7 0] obtain n t where
    "un_wp_page (page_addr 6) s = Ok () t" "pte_common_ppn_to_addr (read64 (pmem t) (page_addr 6)) = page_addr n"
    "\<forall>x. 8 \<le> x - page_addr n \<longrightarrow> x - page_addr n < 4096 \<longrightarrow> pmem t x = 0" by (auto simp: Let_def)
  moreover have "pmem s (page_addr 7 + 9) = 1" by (simp add: s_def)
  ultimately show ?thesis by (intro exI [of _ s] exI [of _ n] exI [of _ t]) simp
qed

section \<open>Copies to user space\<close>

lemma mem_copy_from_rounds:
  assumes "traned s" "lastkerneladdr s = to" "pmem s to = v"
  shows "mem_copy_from_loop v to n s = Ok () s"
  using assms
proof (induction n)
  case (Suc n)
  have "(pmem s)(to := v) = pmem s" using Suc.prems(3) by auto
  then show ?case using Suc by (simp add: page_transform_addr_def getk_def retk_def modk_def)
qed (simp add: retk_def)

text \<open>\<open>mem_copy_from_kernel\<close> of any positive number of bytes stores one byte: neither pointer is
  advanced, so only the first byte of the kernel object reaches user space, and it is stored at the
  untranslated address.\<close>

theorem mem_copy_from_kernel_one_byte:
  assumes "lastkerneladdr s = lastuseraddr s" "0 < n"
  shows "mem_copy_from_kernel v to n s = Ok () (s\<lparr>traned := True, lastuseraddr := to, lastkerneladdr := to, pmem := (pmem s)(to := v)\<rparr>)"
proof -
  obtain m where n: "n = Suc m" using assms(2) by (cases n) auto
  define t where "t = s\<lparr>traned := True, lastuseraddr := to, lastkerneladdr := to, pmem := (pmem s)(to := v)\<rparr>"
  have "mem_copy_from_loop v to m t = Ok () t" by (rule mem_copy_from_rounds) (simp_all add: t_def)
  moreover have "page_transform_addr to (s\<lparr>traned := False\<rparr>) = Ok (to, True) (s\<lparr>traned := True, lastuseraddr := to, lastkerneladdr := to\<rparr>)"
    using assms(1) by (simp add: page_transform_addr_def getk_def modk_def retk_def Let_def)
  ultimately show ?thesis by (simp add: mem_copy_from_kernel_def page_transform_start_def modk_def n t_def)
qed

theorem mem_copy_from_kernel_one_byte_witness:
  "\<exists>t. mem_copy_from_kernel 7 0xC0000000 44 demo_vm = Ok () t \<and> pmem t 0xC0000000 = 7 \<and> pmem t 0xC0000001 = 0"
  using mem_copy_from_kernel_one_byte [of demo_vm 44 7 "0xC0000000"] by (simp add: demo_vm_def kernel_image_def)

end
