(* ===== verification/Namei.thy ===== *)
theory Namei
  imports Super Paging
begin

text \<open>
  Names and directories (\<open>fs/namei.c\<close>). A \<open>struct dir_entry *\<close> is the buffer and the byte offset of the
  entry in its data: two bytes of inode number, fourteen of name. An entry that is not wholly inside the
  block is out of range. Names are read from user memory byte by byte; \<open>PATH_FUEL\<close> bounds the length of
  a path and the number of its components. \<open>int\<close> flags and modes are 32-bit words.

  The functions that take \<open>struct m_inode **dir\<close> return the directory they leave there, those that take
  \<open>struct dir_entry **res_dir\<close> the entry.
\<close>

abbreviation "PATH_FUEL \<equiv> (4096 :: nat)"
abbreviation "NAME_LEN \<equiv> (14 :: nat)"
abbreviation "DIR_ENTRIES_PER_BLOCK \<equiv> (64 :: nat)"
abbreviation "MAY_EXEC \<equiv> (1 :: u32)"
abbreviation "MAY_WRITE \<equiv> (2 :: u32)"
abbreviation "MAY_READ \<equiv> (4 :: u32)"
abbreviation "O_ACCMODE \<equiv> (0x3 :: u32)"
abbreviation "O_WRONLY \<equiv> (0x1 :: u32)"
abbreviation "O_CREAT \<equiv> (0x40 :: u32)"
abbreviation "O_EXCL \<equiv> (0x80 :: u32)"
abbreviation "O_TRUNC \<equiv> (0x200 :: u32)"
abbreviation "I_REGULAR \<equiv> (0x8000 :: u32)"
abbreviation "I_DIRECTORY \<equiv> (0x4000 :: u32)"
abbreviation "S_ISVTX \<equiv> (0x200 :: u16)"
abbreviation "EACCES \<equiv> (13 :: int)"
abbreviation "EEXIST \<equiv> (17 :: int)"
abbreviation "EXDEV \<equiv> (18 :: int)"
abbreviation "ENOTDIR \<equiv> (20 :: int)"
abbreviation "EISDIR \<equiv> (21 :: int)"
abbreviation "ENOSPC \<equiv> (28 :: int)"
abbreviation "ENOTEMPTY \<equiv> (39 :: int)"
abbreviation "ERROR \<equiv> (99 :: int)"

definition suser :: "kstate \<Rightarrow> bool" where "suser s \<longleftrightarrow> t_euid (cur_task s) = 0"

text \<open>\<open>"\\004\\002\\006\\377"[(x) & O_ACCMODE]\<close>.\<close>

definition ACC_MODE :: "u32 \<Rightarrow> u32" where
  "ACC_MODE x = (let k = x AND O_ACCMODE in if k = 0 then 4 else if k = 1 then 2 else if k = 2 then 6 else 0xFF)"

definition permission :: "nat \<Rightarrow> u32 \<Rightarrow> bool K" where
  "permission i msk = bindk (get_inode i) (\<lambda>n. bindk (getk (\<lambda>s. s)) (\<lambda>s.
     let t = cur_task s; mode = (ucast (i_mode n) :: u32) in
     if i_dev n \<noteq> 0 \<and> i_nlinks n = 0 then retk False else
     let m = (if t_euid t = i_uid n then drop_bit 6 mode else if uint (t_egid t) = uint (i_gid n) then drop_bit 3 mode else mode) in
     retk (m AND msk AND 7 = msk \<or> suser s)))"

section \<open>Directory entries\<close>

fun match_bytes :: "ulong \<Rightarrow> nat \<Rightarrow> nat \<Rightarrow> nat list \<Rightarrow> bool K" where
  "match_bytes name b off [] = retk True"
| "match_bytes name b off (i # is) = bindk (get_fs_byte (name + word_of_nat i)) (\<lambda>c. bindk (get_bh b) (\<lambda>h.
     if c \<noteq> b_data h ! (off + 2 + i) then retk False else match_bytes name b off is))"

definition match :: "nat \<Rightarrow> ulong \<Rightarrow> nat \<Rightarrow> nat \<Rightarrow> bool K" where
  "match len name b off = bindk (get_bh b) (\<lambda>h. if off + 16 > length (b_data h) then faultk else
     if get16 (b_data h) off = 0 \<or> len > NAME_LEN then retk False else
     if len < NAME_LEN \<and> b_data h ! (off + 2 + len) \<noteq> 0 then retk False else
     match_bytes name b off [0..<len])"

text \<open>\<open>(namelen == 2) && name[0] == '.' && name[1] == '.'\<close>, with its short circuits.\<close>

definition is_dotdot :: "nat \<Rightarrow> ulong \<Rightarrow> bool K" where
  "is_dotdot len name = (if len \<noteq> 2 then retk False else
     bindk (get_fs_byte name) (\<lambda>c. if c \<noteq> 0x2E then retk False else
     bindk (get_fs_byte (name + 1)) (\<lambda>c. retk (c = 0x2E))))"

text \<open>The directory and name length after the treatment of \<open>..\<close>.\<close>

definition dotdot :: "nat \<Rightarrow> ulong \<Rightarrow> nat \<Rightarrow> (nat \<times> nat) K" where
  "dotdot dir name len = bindk (is_dotdot len name) (\<lambda>d. if \<not> d then retk (dir, len) else
     bindk (getk cur_task) (\<lambda>t. if t_root t = Some dir then retk (dir, 1) else
     bindk (get_inode dir) (\<lambda>n. if uint (i_num n) \<noteq> ROOT_INO then retk (dir, len) else
     bindk (get_super (uint (i_dev n))) (\<lambda>r. bindk (derefk r) (\<lambda>k. bindk (get_sb k) (\<lambda>sb.
     case s_imount sb of None \<Rightarrow> retk (dir, len) | Some m \<Rightarrow>
       bindk (iput (Some dir)) (\<lambda>_. bindk (upd_inode m (\<lambda>n. n\<lparr>i_count := i_count n + 1\<rparr>)) (\<lambda>_. retk (m, len)))))))))"

text \<open>One round of the search: the variables are \<open>i\<close>, \<open>bh\<close> and \<open>de\<close>. The test for the end of the block is
  \<open>>\<close>, so the entry just behind the block is looked at as well.\<close>

definition find_entry_round :: "nat \<Rightarrow> ulong \<Rightarrow> nat \<Rightarrow> nat \<Rightarrow> nat \<times> nat option \<times> nat \<Rightarrow> (nat \<times> nat option \<times> nat + (nat \<times> nat) option) K" where
  "find_entry_round dir name len entries = (\<lambda>(i, bh, off).
     if i \<ge> entries then bindk (brelse bh) (\<lambda>_. retk (Inr None)) else
     bindk (derefk bh) (\<lambda>b.
     bindk (if off \<le> BLOCK_SIZE then retk (Some (b, off)) else
        bindk (brelse (Some b)) (\<lambda>_.
        bindk (bmap dir (int (i div DIR_ENTRIES_PER_BLOCK))) (\<lambda>block. if block = 0 then retk None else
        bindk (get_inode dir) (\<lambda>n. bindk (bread (uint (i_dev n)) block) (\<lambda>r.
        case r of None \<Rightarrow> retk None | Some b \<Rightarrow> retk (Some (b, 0))))))) (\<lambda>p.
     case p of None \<Rightarrow> retk (Inl (i + DIR_ENTRIES_PER_BLOCK, None, off)) | Some (b, off) \<Rightarrow>
     bindk (match len name b off) (\<lambda>m. if m then retk (Inr (Some (b, off))) else retk (Inl (i + 1, Some b, off + 16))))))"

definition find_entry :: "nat \<Rightarrow> ulong \<Rightarrow> nat \<Rightarrow> (nat \<times> (nat \<times> nat) option) K" where
  "find_entry dir name namelen = (let len = min namelen NAME_LEN in
     bindk (get_inode dir) (\<lambda>n. let entries = unat (i_size n) div 16 in
     if len = 0 then retk (dir, None) else
     bindk (dotdot dir name len) (\<lambda>(dir, len).
     bindk (get_inode dir) (\<lambda>n. bindk (nthk (i_zone n) 0) (\<lambda>block. if block = 0 then retk (dir, None) else
     bindk (bread (uint (i_dev n)) (uint block)) (\<lambda>r. case r of None \<Rightarrow> retk (dir, None) | Some b \<Rightarrow>
     bindk (loopk (entries + 1) (find_entry_round dir name len entries) (0, Some b, 0)) (\<lambda>r. retk (dir, r))))))))"

text \<open>A write into the data of a buffer, which must stay inside the block.\<close>

definition upd_bytes :: "nat \<Rightarrow> nat \<Rightarrow> u8 list \<Rightarrow> unit K" where
  "upd_bytes b off ys = bindk (get_bh b) (\<lambda>h. if off + length ys > length (b_data h) then faultk else
     upd_bh b (\<lambda>h. h\<lparr>b_data := put_bytes off ys (b_data h)\<rparr>))"

text \<open>Storing the name, and one round of the search for a free entry.\<close>

definition store_name :: "ulong \<Rightarrow> nat \<Rightarrow> nat \<Rightarrow> nat \<Rightarrow> unit K" where
  "store_name name len b off = eachk (\<lambda>i. bindk (if i < len then get_fs_byte (name + word_of_nat i) else retk 0) (\<lambda>c.
     upd_bytes b (off + 2 + i) [c])) [0..<NAME_LEN]"

definition set_entry_inode :: "nat \<Rightarrow> nat \<Rightarrow> u16 \<Rightarrow> unit K" where
  "set_entry_inode b off num = upd_bytes b off (le16 num)"

definition set_dirty :: "nat \<Rightarrow> unit K" where
  "set_dirty b = upd_bh b (\<lambda>h. h\<lparr>b_dirt := 1\<rparr>)"

definition get_entry_inode :: "nat \<Rightarrow> nat \<Rightarrow> u16 K" where
  "get_entry_inode b off = bindk (get_bh b) (\<lambda>h. if off + 16 > length (b_data h) then faultk else retk (get16 (b_data h) off))"

definition add_entry_round :: "nat \<Rightarrow> ulong \<Rightarrow> nat \<Rightarrow> nat \<times> nat option \<times> nat \<Rightarrow> (nat \<times> nat option \<times> nat + (nat \<times> nat) option) K" where
  "add_entry_round dir name len = (\<lambda>(i, bh, off).
     bindk (derefk bh) (\<lambda>b.
     bindk (if off < BLOCK_SIZE then retk (Inl (b, off)) else
        bindk (brelse (Some b)) (\<lambda>_.
        bindk (create_block dir (int (i div DIR_ENTRIES_PER_BLOCK))) (\<lambda>block. if block = 0 then retk (Inr True) else
        bindk (get_inode dir) (\<lambda>n. bindk (bread (uint (i_dev n)) block) (\<lambda>r.
        case r of None \<Rightarrow> retk (Inr False) | Some b \<Rightarrow> retk (Inl (b, 0))))))) (\<lambda>p.
     case p of Inr True \<Rightarrow> retk (Inr None) | Inr False \<Rightarrow> retk (Inl (i + DIR_ENTRIES_PER_BLOCK, None, off)) | Inl (b, off) \<Rightarrow>
     bindk (get_inode dir) (\<lambda>n. bindk (getk CURRENT_TIME) (\<lambda>now.
     bindk (whenk (16 * i \<ge> unat (i_size n)) (bindk (set_entry_inode b off 0) (\<lambda>_.
        upd_inode dir (\<lambda>n. n\<lparr>i_size := word_of_nat ((i + 1) * 16), i_dirt := 1, i_ctime := word_of_int now\<rparr>)))) (\<lambda>_.
     bindk (get_entry_inode b off) (\<lambda>num. if num \<noteq> 0 then retk (Inl (i + 1, Some b, off + 16)) else
     bindk (upd_inode dir (\<lambda>n. n\<lparr>i_mtime := word_of_int now\<rparr>)) (\<lambda>_.
     bindk (store_name name len b off) (\<lambda>_.
     bindk (set_dirty b) (\<lambda>_. retk (Inr (Some (b, off)))))))))))))"

definition add_entry :: "nat \<Rightarrow> ulong \<Rightarrow> nat \<Rightarrow> (nat \<times> nat) option K" where
  "add_entry dir name namelen = (let len = min namelen NAME_LEN in
     if len = 0 then retk None else
     bindk (get_inode dir) (\<lambda>n. bindk (nthk (i_zone n) 0) (\<lambda>block. if block = 0 then retk None else
     bindk (bread (uint (i_dev n)) (uint block)) (\<lambda>r. case r of None \<Rightarrow> retk None | Some b \<Rightarrow>
     loopk WAIT_FUEL (add_entry_round dir name len) (0, Some b, 0)))))"

section \<open>Paths\<close>

text \<open>The scan for the end of a component: the last character read, the pointer behind it, the length.\<close>

definition scan_name :: "ulong \<Rightarrow> (u8 \<times> ulong \<times> nat) K" where
  "scan_name p = loopk PATH_FUEL (\<lambda>(p, len). bindk (get_fs_byte p) (\<lambda>c.
     if c \<noteq> 0 \<and> c \<noteq> 0x2F then retk (Inl (p + 1, len + 1)) else retk (Inr (c, p + 1, len)))) (p, 0)"

definition get_dir_round :: "nat \<times> ulong \<Rightarrow> (nat \<times> ulong + nat option) K" where
  "get_dir_round = (\<lambda>(i, pn). bindk (get_inode i) (\<lambda>n. bindk (if S_ISDIR (i_mode n) then permission i MAY_EXEC else retk False) (\<lambda>ok.
     if \<not> ok then bindk (iput (Some i)) (\<lambda>_. retk (Inr None)) else
     bindk (scan_name pn) (\<lambda>(c, pn', len). if c = 0 then retk (Inr (Some i)) else
     bindk (find_entry i pn len) (\<lambda>(i, r). case r of None \<Rightarrow> bindk (iput (Some i)) (\<lambda>_. retk (Inr None)) | Some (b, off) \<Rightarrow>
     bindk (get_entry_inode b off) (\<lambda>inr. bindk (get_inode i) (\<lambda>n.
     bindk (brelse (Some b)) (\<lambda>_. bindk (iput (Some i)) (\<lambda>_.
     bindk (iget (uint (i_dev n)) (uint inr)) (\<lambda>j. retk (Inl (j, pn'))))))))))))"

definition live_inode :: "nat option \<Rightarrow> bool K" where
  "live_inode p = (case p of None \<Rightarrow> retk False | Some i \<Rightarrow> bindk (get_inode i) (\<lambda>n. retk (i_count n \<noteq> 0)))"

definition get_dir :: "ulong \<Rightarrow> nat option K" where
  "get_dir pn = bindk (getk cur_task) (\<lambda>t.
     bindk (live_inode (t_root t)) (\<lambda>r. if \<not> r then panick ''No root inode'' else
     bindk (live_inode (t_pwd t)) (\<lambda>r. if \<not> r then panick ''No cwd inode'' else
     bindk (get_fs_byte pn) (\<lambda>c. if c = 0 then retk None else
     bindk (derefk (if c = 0x2F then t_root t else t_pwd t)) (\<lambda>i.
     bindk (upd_inode i (\<lambda>n. n\<lparr>i_count := i_count n + 1\<rparr>)) (\<lambda>_.
     loopk PATH_FUEL get_dir_round (i, if c = 0x2F then pn + 1 else pn)))))))"

text \<open>The directory, the length and the address of the last component.\<close>

definition dir_namei :: "ulong \<Rightarrow> (nat \<times> nat \<times> ulong) option K" where
  "dir_namei pn = bindk (get_dir pn) (\<lambda>r. case r of None \<Rightarrow> retk None | Some dir \<Rightarrow>
     loopk PATH_FUEL (\<lambda>(p, base). bindk (get_fs_byte p) (\<lambda>c.
       if c = 0 then retk (Inr (Some (dir, unat (p - base), base)))
       else retk (Inl (p + 1, if c = 0x2F then p + 1 else base)))) (pn, pn))"

definition namei :: "ulong \<Rightarrow> nat option K" where
  "namei pn = bindk (dir_namei pn) (\<lambda>r. case r of None \<Rightarrow> retk None | Some (dir, namelen, base) \<Rightarrow>
     if namelen = 0 then retk (Some dir) else
     bindk (find_entry dir base namelen) (\<lambda>(dir, r). case r of None \<Rightarrow> bindk (iput (Some dir)) (\<lambda>_. retk None) | Some (b, off) \<Rightarrow>
     bindk (get_entry_inode b off) (\<lambda>inr. bindk (get_inode dir) (\<lambda>n.
     bindk (brelse (Some b)) (\<lambda>_. bindk (iput (Some dir)) (\<lambda>_.
     bindk (iget (uint (i_dev n)) (uint inr)) (\<lambda>j. bindk (getk CURRENT_TIME) (\<lambda>now.
     bindk (upd_inode j (\<lambda>n. n\<lparr>i_atime := word_of_int now, i_dirt := 1\<rparr>)) (\<lambda>_. retk (Some j))))))))))"

section \<open>Opening and creating\<close>

text \<open>\<open>iput\<close> several inodes and return an error.\<close>

fun iputs :: "nat list \<Rightarrow> unit K" where
  "iputs [] = retk ()"
| "iputs (i # is) = bindk (iput (Some i)) (\<lambda>_. iputs is)"

definition fail_with :: "nat list \<Rightarrow> int \<Rightarrow> int K" where
  "fail_with is e = bindk (iputs is) (\<lambda>_. retk (- e))"

definition fail_entry :: "nat list \<Rightarrow> nat \<Rightarrow> int \<Rightarrow> int K" where
  "fail_entry is b e = bindk (iputs is) (\<lambda>_. bindk (brelse (Some b)) (\<lambda>_. retk (- e)))"

definition open_namei :: "ulong \<Rightarrow> u32 \<Rightarrow> u32 \<Rightarrow> (int \<times> nat option) K" where
  "open_namei pn flag0 mode0 = (let flag = (if flag0 AND O_TRUNC \<noteq> 0 \<and> flag0 AND O_ACCMODE = 0 then flag0 OR O_WRONLY else flag0) in
     bindk (getk cur_task) (\<lambda>t.
     let mode = (mode0 AND 0x1FF AND NOT (ucast (t_umask t))) OR I_REGULAR in
     bindk (dir_namei pn) (\<lambda>r. case r of None \<Rightarrow> retk (- ENOENT, None) | Some (dir, namelen, base) \<Rightarrow>
     if namelen = 0 then
       if flag AND (O_ACCMODE OR O_CREAT OR O_TRUNC) = 0 then retk (0, Some dir)
       else bindk (fail_with [dir] EISDIR) (\<lambda>e. retk (e, None))
     else bindk (find_entry dir base namelen) (\<lambda>(dir, r). case r of
       None \<Rightarrow>
         if flag AND O_CREAT = 0 then bindk (fail_with [dir] ENOENT) (\<lambda>e. retk (e, None)) else
         bindk (permission dir MAY_WRITE) (\<lambda>ok. if \<not> ok then bindk (fail_with [dir] EACCES) (\<lambda>e. retk (e, None)) else
         bindk (get_inode dir) (\<lambda>dn. bindk (new_inode (uint (i_dev dn))) (\<lambda>r. case r of
           None \<Rightarrow> bindk (fail_with [dir] ENOSPC) (\<lambda>e. retk (e, None)) | Some i \<Rightarrow>
         bindk (getk cur_task) (\<lambda>t.
         bindk (upd_inode i (\<lambda>n. n\<lparr>i_uid := t_euid t, i_mode := ucast mode, i_dirt := 1\<rparr>)) (\<lambda>_.
         bindk (add_entry dir base namelen) (\<lambda>r. case r of
           None \<Rightarrow> bindk (upd_inode i (\<lambda>n. n\<lparr>i_nlinks := i_nlinks n - 1\<rparr>)) (\<lambda>_.
              bindk (fail_with [i, dir] ENOSPC) (\<lambda>e. retk (e, None)))
         | Some (b, off) \<Rightarrow>
           bindk (get_inode i) (\<lambda>n. bindk (set_entry_inode b off (i_num n)) (\<lambda>_. bindk (set_dirty b) (\<lambda>_.
           bindk (brelse (Some b)) (\<lambda>_. bindk (iput (Some dir)) (\<lambda>_. retk (0, Some i))))))))))))
     | Some (b, off) \<Rightarrow>
       bindk (get_entry_inode b off) (\<lambda>inr. bindk (get_inode dir) (\<lambda>dn.
       bindk (brelse (Some b)) (\<lambda>_. bindk (iput (Some dir)) (\<lambda>_.
       if flag AND O_EXCL \<noteq> 0 then retk (- EEXIST, None) else
       bindk (iget (uint (i_dev dn)) (uint inr)) (\<lambda>i. bindk (get_inode i) (\<lambda>n.
       bindk (if S_ISDIR (i_mode n) \<and> flag AND O_ACCMODE \<noteq> 0 then retk False else permission i (ACC_MODE flag)) (\<lambda>ok.
       if \<not> ok then bindk (fail_with [i] EPERM) (\<lambda>e. retk (e, None)) else
       bindk (getk CURRENT_TIME) (\<lambda>now. bindk (upd_inode i (\<lambda>n. n\<lparr>i_atime := word_of_int now\<rparr>)) (\<lambda>_.
       bindk (whenk (flag AND O_TRUNC \<noteq> 0) (truncate i)) (\<lambda>_. retk (0, Some i)))))))))))))))"

text \<open>The common start of the calls that create or remove a name: the directory, the name and its length.\<close>

definition parent_dir :: "ulong \<Rightarrow> int \<Rightarrow> (int + nat \<times> nat \<times> ulong) K" where
  "parent_dir pn perm_error = bindk (dir_namei pn) (\<lambda>r. case r of None \<Rightarrow> retk (Inl (- ENOENT)) | Some (dir, namelen, base) \<Rightarrow>
     if namelen = 0 then bindk (fail_with [dir] ENOENT) (\<lambda>e. retk (Inl e)) else
     bindk (permission dir MAY_WRITE) (\<lambda>ok. if \<not> ok then bindk (fail_with [dir] perm_error) (\<lambda>e. retk (Inl e))
     else retk (Inr (dir, namelen, base))))"

text \<open>Enter the number of inode \<open>i\<close> in the new entry.\<close>

definition enter_inode :: "nat \<Rightarrow> nat \<Rightarrow> nat \<Rightarrow> unit K" where
  "enter_inode i b off = bindk (get_inode i) (\<lambda>n. bindk (set_entry_inode b off (i_num n)) (\<lambda>_. set_dirty b))"

definition sys_mknod :: "ulong \<Rightarrow> u32 \<Rightarrow> int \<Rightarrow> int K" where
  "sys_mknod pn mode dev = bindk (getk suser) (\<lambda>su. if \<not> su then retk (- EPERM) else
     bindk (parent_dir pn EPERM) (\<lambda>r. case r of Inl e \<Rightarrow> retk e | Inr (dir, namelen, base) \<Rightarrow>
     bindk (find_entry dir base namelen) (\<lambda>(dir, r). case r of
       Some (b, off) \<Rightarrow> bindk (brelse (Some b)) (\<lambda>_. fail_with [dir] EEXIST)
     | None \<Rightarrow>
     bindk (get_inode dir) (\<lambda>dn. bindk (new_inode (uint (i_dev dn))) (\<lambda>r. case r of None \<Rightarrow> fail_with [dir] ENOSPC | Some i \<Rightarrow>
     bindk (getk CURRENT_TIME) (\<lambda>now.
     bindk (upd_inode i (\<lambda>n. n\<lparr>i_mode := ucast mode\<rparr>)) (\<lambda>_.
     bindk (whenk (S_ISBLK (ucast mode) \<or> S_ISCHR (ucast mode)) (upd_inode i (\<lambda>n. n\<lparr>i_zone := (i_zone n)[0 := word_of_int dev]\<rparr>))) (\<lambda>_.
     bindk (upd_inode i (\<lambda>n. n\<lparr>i_mtime := word_of_int now, i_atime := word_of_int now, i_dirt := 1\<rparr>)) (\<lambda>_.
     bindk (add_entry dir base namelen) (\<lambda>r. case r of
       None \<Rightarrow> bindk (iput (Some dir)) (\<lambda>_. bindk (upd_inode i (\<lambda>n. n\<lparr>i_nlinks := 0\<rparr>)) (\<lambda>_. fail_with [i] ENOSPC))
     | Some (b, off) \<Rightarrow>
       bindk (enter_inode i b off) (\<lambda>_. bindk (iputs [dir, i]) (\<lambda>_. bindk (brelse (Some b)) (\<lambda>_. retk 0)))))))))))))"

text \<open>The two entries of a new directory; \<open>strcpy\<close> writes the terminating zero as well.\<close>

definition dot_entries :: "nat \<Rightarrow> u16 \<Rightarrow> u16 \<Rightarrow> unit K" where
  "dot_entries db self parent = bindk (upd_bytes db 0 (le16 self)) (\<lambda>_. bindk (upd_bytes db 2 [0x2E, 0]) (\<lambda>_.
     bindk (upd_bytes db 16 (le16 parent)) (\<lambda>_. upd_bytes db 18 [0x2E, 0x2E, 0])))"

definition sys_mkdir :: "ulong \<Rightarrow> u32 \<Rightarrow> int K" where
  "sys_mkdir pn mode = bindk (getk suser) (\<lambda>su. if \<not> su then retk (- EPERM) else
     bindk (parent_dir pn EPERM) (\<lambda>r. case r of Inl e \<Rightarrow> retk e | Inr (dir, namelen, base) \<Rightarrow>
     bindk (find_entry dir base namelen) (\<lambda>(dir, r). case r of
       Some (b, off) \<Rightarrow> bindk (brelse (Some b)) (\<lambda>_. fail_with [dir] EEXIST)
     | None \<Rightarrow>
     bindk (get_inode dir) (\<lambda>dn. bindk (new_inode (uint (i_dev dn))) (\<lambda>r. case r of None \<Rightarrow> fail_with [dir] ENOSPC | Some i \<Rightarrow>
     bindk (getk CURRENT_TIME) (\<lambda>now.
     bindk (upd_inode i (\<lambda>n. n\<lparr>i_size := 32, i_dirt := 1, i_mtime := word_of_int now, i_atime := word_of_int now\<rparr>)) (\<lambda>_.
     bindk (get_inode i) (\<lambda>n. bindk (new_block (uint (i_dev n))) (\<lambda>blk.
     bindk (upd_inode i (\<lambda>n. n\<lparr>i_zone := (i_zone n)[0 := word_of_int blk]\<rparr>)) (\<lambda>_.
     if (word_of_int blk :: u16) = 0 then bindk (iput (Some dir)) (\<lambda>_.
       bindk (upd_inode i (\<lambda>n. n\<lparr>i_nlinks := i_nlinks n - 1\<rparr>)) (\<lambda>_. fail_with [i] ENOSPC)) else
     bindk (upd_inode i (\<lambda>n. n\<lparr>i_dirt := 1\<rparr>)) (\<lambda>_.
     bindk (get_inode i) (\<lambda>n. bindk (nthk (i_zone n) 0) (\<lambda>z.
     bindk (bread (uint (i_dev n)) (uint z)) (\<lambda>r. case r of
       None \<Rightarrow> bindk (iput (Some dir)) (\<lambda>_. bindk (free_block (uint (i_dev n)) (uint z)) (\<lambda>_.
         bindk (upd_inode i (\<lambda>n. n\<lparr>i_nlinks := i_nlinks n - 1\<rparr>)) (\<lambda>_. fail_with [i] ERROR)))
     | Some db \<Rightarrow>
     bindk (get_inode dir) (\<lambda>dn.
     bindk (dot_entries db (i_num n) (i_num dn)) (\<lambda>_.
     bindk (upd_inode i (\<lambda>n. n\<lparr>i_nlinks := 2\<rparr>)) (\<lambda>_.
     bindk (set_dirty db) (\<lambda>_. bindk (brelse (Some db)) (\<lambda>_.
     bindk (getk cur_task) (\<lambda>t.
     bindk (upd_inode i (\<lambda>n. n\<lparr>i_mode := ucast (I_DIRECTORY OR (mode AND 0x1FF AND NOT (ucast (t_umask t)))), i_dirt := 1\<rparr>)) (\<lambda>_.
     bindk (add_entry dir base namelen) (\<lambda>r. case r of
       None \<Rightarrow> bindk (iput (Some dir)) (\<lambda>_. bindk (get_inode i) (\<lambda>n. bindk (nthk (i_zone n) 0) (\<lambda>z.
         bindk (free_block (uint (i_dev n)) (uint z)) (\<lambda>_.
         bindk (upd_inode i (\<lambda>n. n\<lparr>i_nlinks := 0\<rparr>)) (\<lambda>_. fail_with [i] ENOSPC)))))
     | Some (b, off) \<Rightarrow>
       bindk (enter_inode i b off) (\<lambda>_.
       bindk (upd_inode dir (\<lambda>n. n\<lparr>i_nlinks := i_nlinks n + 1, i_dirt := 1\<rparr>)) (\<lambda>_.
       bindk (iputs [dir, i]) (\<lambda>_. bindk (brelse (Some b)) (\<lambda>_. retk 0))))))))))))))))))))))))))"

section \<open>Removing\<close>

text \<open>\<open>strcmp\<close> with a literal: equal bytes up to and including the zero.\<close>

definition is_string :: "u8 list \<Rightarrow> nat \<Rightarrow> u8 list \<Rightarrow> bool" where
  "is_string bs off str = (take (length str + 1) (drop off bs) = str @ [0])"

definition empty_dir_round :: "nat \<Rightarrow> nat \<Rightarrow> nat \<times> nat \<times> nat \<Rightarrow> (nat \<times> nat \<times> nat + bool) K" where
  "empty_dir_round i len = (\<lambda>(nr, b, off). if nr \<ge> len then bindk (brelse (Some b)) (\<lambda>_. retk (Inr True)) else
     bindk (if off < BLOCK_SIZE then retk (Inl (b, off)) else
        bindk (brelse (Some b)) (\<lambda>_. bindk (bmap i (int (nr div DIR_ENTRIES_PER_BLOCK))) (\<lambda>block.
        if block = 0 then retk (Inr True) else
        bindk (get_inode i) (\<lambda>n. bindk (bread (uint (i_dev n)) block) (\<lambda>r. case r of None \<Rightarrow> retk (Inr False) | Some b \<Rightarrow> retk (Inl (b, 0)))))))
     (\<lambda>p. case p of Inr True \<Rightarrow> retk (Inl (nr + DIR_ENTRIES_PER_BLOCK, b, off)) | Inr False \<Rightarrow> retk (Inr False) | Inl (b, off) \<Rightarrow>
     bindk (get_entry_inode b off) (\<lambda>num. if num \<noteq> 0 then bindk (brelse (Some b)) (\<lambda>_. retk (Inr False))
     else retk (Inl (nr + 1, b, off + 16)))))"

definition empty_dir :: "nat \<Rightarrow> bool K" where
  "empty_dir i = bindk (get_inode i) (\<lambda>n. let len = unat (i_size n) div 16 in
     bindk (nthk (i_zone n) 0) (\<lambda>z. if len < 2 \<or> z = 0 then retk False else
     bindk (bread (uint (i_dev n)) (uint z)) (\<lambda>r. case r of None \<Rightarrow> retk False | Some b \<Rightarrow>
     bindk (get_bh b) (\<lambda>h. bindk (get_inode i) (\<lambda>n.
     if get16 (b_data h) 0 \<noteq> i_num n \<or> get16 (b_data h) 16 = 0 \<or> \<not> is_string (b_data h) 2 [0x2E] \<or> \<not> is_string (b_data h) 18 [0x2E, 0x2E]
     then retk False else
     loopk (len + 1) (empty_dir_round i len) (2, b, 32))))))"

definition sys_rmdir :: "ulong \<Rightarrow> int K" where
  "sys_rmdir pn = bindk (getk suser) (\<lambda>su. if \<not> su then retk (- EPERM) else
     bindk (parent_dir pn EPERM) (\<lambda>r. case r of Inl e \<Rightarrow> retk e | Inr (dir, namelen, base) \<Rightarrow>
     bindk (find_entry dir base namelen) (\<lambda>(dir, r). case r of None \<Rightarrow> fail_with [dir] ENOENT | Some (b, off) \<Rightarrow>
     bindk (get_inode dir) (\<lambda>dn. bindk (get_entry_inode b off) (\<lambda>inr.
     bindk (iget (uint (i_dev dn)) (uint inr)) (\<lambda>i.
     bindk (get_inode dir) (\<lambda>dn. bindk (get_inode i) (\<lambda>n. bindk (getk cur_task) (\<lambda>t.
     if i_mode dn AND S_ISVTX \<noteq> 0 \<and> t_euid t \<noteq> 0 \<and> i_uid n \<noteq> t_euid t then fail_entry [dir, i] b EPERM else
     if i_dev n \<noteq> i_dev dn \<or> i_count n > 1 then fail_entry [dir, i] b EPERM else
     if i = dir then fail_entry [i, dir] b EPERM else
     if \<not> S_ISDIR (i_mode n) then fail_entry [i, dir] b ENOTDIR else
     bindk (empty_dir i) (\<lambda>em. if \<not> em then fail_entry [i, dir] b ENOTEMPTY else
     bindk (set_entry_inode b off 0) (\<lambda>_. bindk (set_dirty b) (\<lambda>_. bindk (brelse (Some b)) (\<lambda>_.
     bindk (upd_inode i (\<lambda>n. n\<lparr>i_nlinks := 0, i_dirt := 1\<rparr>)) (\<lambda>_.
     bindk (getk CURRENT_TIME) (\<lambda>now.
     bindk (upd_inode dir (\<lambda>n. n\<lparr>i_nlinks := i_nlinks n - 1, i_ctime := word_of_int now, i_mtime := word_of_int now, i_dirt := 1\<rparr>)) (\<lambda>_.
     bindk (iputs [dir, i]) (\<lambda>_. retk 0)))))))))))))))))"

definition sys_unlink :: "ulong \<Rightarrow> int K" where
  "sys_unlink pn =
     bindk (parent_dir pn EPERM) (\<lambda>r. case r of Inl e \<Rightarrow> retk e | Inr (dir, namelen, base) \<Rightarrow>
     bindk (find_entry dir base namelen) (\<lambda>(dir, r). case r of None \<Rightarrow> fail_with [dir] ENOENT | Some (b, off) \<Rightarrow>
     bindk (get_inode dir) (\<lambda>dn. bindk (get_entry_inode b off) (\<lambda>inr.
     bindk (iget (uint (i_dev dn)) (uint inr)) (\<lambda>i.
     bindk (get_inode dir) (\<lambda>dn. bindk (get_inode i) (\<lambda>n. bindk (getk cur_task) (\<lambda>t.
     if i_mode dn AND S_ISVTX \<noteq> 0 \<and> t_euid t \<noteq> 0 \<and> t_euid t \<noteq> i_uid n \<and> t_euid t \<noteq> i_uid dn then fail_entry [dir, i] b EPERM else
     if S_ISDIR (i_mode n) then fail_entry [i, dir] b EPERM else
     bindk (whenk (i_nlinks n = 0) (upd_inode i (\<lambda>n. n\<lparr>i_nlinks := 1\<rparr>))) (\<lambda>_.
     bindk (set_entry_inode b off 0) (\<lambda>_. bindk (set_dirty b) (\<lambda>_. bindk (brelse (Some b)) (\<lambda>_.
     bindk (getk CURRENT_TIME) (\<lambda>now.
     bindk (upd_inode i (\<lambda>n. n\<lparr>i_nlinks := i_nlinks n - 1, i_dirt := 1, i_ctime := word_of_int now\<rparr>)) (\<lambda>_.
     bindk (iputs [i, dir]) (\<lambda>_. retk 0)))))))))))))))"

definition sys_link :: "ulong \<Rightarrow> ulong \<Rightarrow> int K" where
  "sys_link oldname newname = bindk (namei oldname) (\<lambda>r. case r of None \<Rightarrow> retk (- ENOENT) | Some old \<Rightarrow>
     bindk (get_inode old) (\<lambda>n. if S_ISDIR (i_mode n) then fail_with [old] EPERM else
     bindk (dir_namei newname) (\<lambda>r. case r of None \<Rightarrow> fail_with [old] EACCES | Some (dir, namelen, base) \<Rightarrow>
     if namelen = 0 then fail_with [old, dir] EPERM else
     bindk (get_inode dir) (\<lambda>dn. bindk (get_inode old) (\<lambda>n. if i_dev dn \<noteq> i_dev n then fail_with [dir, old] EXDEV else
     bindk (permission dir MAY_WRITE) (\<lambda>ok. if \<not> ok then fail_with [dir, old] EACCES else
     bindk (find_entry dir base namelen) (\<lambda>(dir, r). case r of
       Some (b, off) \<Rightarrow> bindk (brelse (Some b)) (\<lambda>_. fail_with [dir, old] EEXIST)
     | None \<Rightarrow>
     bindk (add_entry dir base namelen) (\<lambda>r. case r of None \<Rightarrow> fail_with [dir, old] ENOSPC | Some (b, off) \<Rightarrow>
     bindk (enter_inode old b off) (\<lambda>_. bindk (brelse (Some b)) (\<lambda>_. bindk (iput (Some dir)) (\<lambda>_.
     bindk (getk CURRENT_TIME) (\<lambda>now.
     bindk (upd_inode old (\<lambda>n. n\<lparr>i_nlinks := i_nlinks n + 1, i_ctime := word_of_int now, i_dirt := 1\<rparr>)) (\<lambda>_.
     bindk (iput (Some old)) (\<lambda>_. retk 0))))))))))))))"

section \<open>All of it keeps the tables well-formed\<close>

lemma kv_upd_bytes [keeps_intros]: "keeps kinv (upd_bytes b off ys)"
  unfolding keeps_def
proof (intro allI impI)
  fix s assume k: "kinv s"
  show "post kinv (upd_bytes b off ys s)"
  proof (cases "b < length (bufs s) \<and> off + length ys \<le> length (b_data (bufs s ! b))")
    case True
    let ?bs = "put_bytes off ys (b_data (bufs s ! b))"
    have "length (b_data (bufs s ! b)) = BLOCK_SIZE" using k True by (auto simp: kinv_def cache_ok_def cache_rel_def)
    then have "keeps kinv (upd_bh b (\<lambda>h. h\<lparr>b_data := ?bs\<rparr>))" using True by (intro kv_data_len) simp
    then have "post kinv (upd_bh b (\<lambda>h. h\<lparr>b_data := ?bs\<rparr>) s)" using k by (simp add: keeps_def)
    then show ?thesis using True by (simp add: upd_bytes_def get_bh_def upd_bh_def)
  qed (auto simp: upd_bytes_def get_bh_def faultk_def bindk_def)
qed

lemma kv_entry_ops [keeps_intros]: "keeps kinv (set_entry_inode b off num)" "keeps kinv (set_dirty b)" "keeps kinv (get_entry_inode b off)"
  "keeps kinv (store_name name len b off)" "keeps kinv (dot_entries b self parent)"
  unfolding set_entry_inode_def set_dirty_def get_entry_inode_def store_name_def dot_entries_def by (intro keeps_intros; simp)+

lemma keeps_sum [keeps_intros]:
  "(\<And>x. keeps Q (f x)) \<Longrightarrow> (\<And>y. keeps Q (g y)) \<Longrightarrow> keeps Q (case r of Inl x \<Rightarrow> f x | Inr y \<Rightarrow> g y)"
  by (cases r) simp_all

lemma keeps_prod [keeps_intros]: "(\<And>x y. keeps Q (f x y)) \<Longrightarrow> keeps Q (case p of (x, y) \<Rightarrow> f x y)"
  by (cases p) simp

lemma keeps_bool [keeps_intros]: "keeps Q f \<Longrightarrow> keeps Q g \<Longrightarrow> keeps Q (case b of True \<Rightarrow> f | False \<Rightarrow> g)"
  by (cases b) simp_all

lemma kv_permission [keeps_intros]: "keeps kinv (permission i m)"
  unfolding permission_def Let_def by (intro keeps_intros)

lemma kv_match_bytes [keeps_intros]: "keeps kinv (match_bytes name b off ks)"
  by (induction ks) (auto intro!: keeps_intros)

lemma kv_match [keeps_intros]: "keeps kinv (match len name b off)"
  unfolding match_def by (intro keeps_intros)

lemma kv_dotdot [keeps_intros]: "keeps kinv (dotdot dir name len)"
  unfolding dotdot_def is_dotdot_def by (intro keeps_intros; simp)

lemma kv_find_entry [keeps_intros]: "keeps kinv (find_entry dir name len)"
  unfolding find_entry_def find_entry_round_def Let_def by (intro keeps_intros; simp)

lemma kv_add_entry [keeps_intros]: "keeps kinv (add_entry dir name len)"
  unfolding add_entry_def add_entry_round_def Let_def by (intro keeps_intros; simp)

lemma kv_scan_name [keeps_intros]: "keeps kinv (scan_name p)"
  unfolding scan_name_def by (intro keeps_intros)

lemma kv_get_dir [keeps_intros]: "keeps kinv (get_dir p)"
  unfolding get_dir_def get_dir_round_def live_inode_def by (intro keeps_intros; simp)

lemma kv_dir_namei [keeps_intros]: "keeps kinv (dir_namei p)"
  unfolding dir_namei_def by (intro keeps_intros)

lemma kv_namei [keeps_intros]: "keeps kinv (namei p)"
  unfolding namei_def by (intro keeps_intros; simp)

lemma kv_iputs [keeps_intros]: "keeps kinv (iputs ks)"
  by (induction ks) (auto intro!: keeps_intros)

lemma kv_fail [keeps_intros]: "keeps kinv (fail_with ks e)" "keeps kinv (fail_entry ks b e)"
  unfolding fail_with_def fail_entry_def by (intro keeps_intros)+

lemma kv_open_namei [keeps_intros]: "keeps kinv (open_namei p flag mode)"
  unfolding open_namei_def Let_def by (intro keeps_intros; simp)

lemma kv_parent_dir [keeps_intros]: "keeps kinv (parent_dir p e)" "keeps kinv (enter_inode i b off)"
  unfolding parent_dir_def enter_inode_def by (intro keeps_intros)+

lemma kv_sys_mknod [keeps_intros]: "keeps kinv (sys_mknod p mode dev)"
  unfolding sys_mknod_def by (intro keeps_intros; simp)

lemma kv_sys_mkdir [keeps_intros]: "keeps kinv (sys_mkdir p mode)"
  unfolding sys_mkdir_def by (intro keeps_intros; simp)

lemma kv_empty_dir [keeps_intros]: "keeps kinv (empty_dir i)"
  unfolding empty_dir_def empty_dir_round_def Let_def by (intro keeps_intros; simp)

lemma kv_sys_rmdir [keeps_intros]: "keeps kinv (sys_rmdir p)"
  unfolding sys_rmdir_def by (intro keeps_intros; simp)

lemma kv_sys_unlink [keeps_intros]: "keeps kinv (sys_unlink p)"
  unfolding sys_unlink_def by (intro keeps_intros; simp)

lemma kv_sys_link [keeps_intros]: "keeps kinv (sys_link old new)"
  unfolding sys_link_def by (intro keeps_intros; simp)

end
