(* ===== verification/Tty.thy ===== *)
theory Tty
  imports Namei
begin

text \<open>
  Terminals: the character queues of \<open>include/linux/tty.h\<close>, the line discipline and the reads and writes of
  \<open>kernel/chr_drv/tty_io.c\<close>, the serial driver \<open>serial.c\<close> and \<open>tty_ioctl.c\<close>.

  There is one terminal, the debug UART. The byte the device has received is the argument of the receive
  interrupt, the bytes given to it are appended to \<open>uart_tx\<close>; it is ready whenever it is polled. A C \<open>char\<close>
  is unsigned on RISC-V; the \<open>signed char\<close> of \<open>copy_to_cooked\<close> is compared through \<open>sint\<close>.

  \<open>TTY_FUEL\<close> bounds the loops over one queue, which holds at most 1023 characters.
\<close>

abbreviation "TTY_FUEL \<equiv> (4096 :: nat)"
abbreviation "TTY_BUF_SIZE \<equiv> (1024 :: nat)"

abbreviation "ESRCH \<equiv> (3 :: int)"
abbreviation "EINTR \<equiv> (4 :: int)"
abbreviation "EIO \<equiv> (5 :: int)"
abbreviation "ENOEXEC \<equiv> (8 :: int)"
abbreviation "EBADF \<equiv> (9 :: int)"
abbreviation "ECHILD \<equiv> (10 :: int)"
abbreviation "EAGAIN \<equiv> (11 :: int)"
abbreviation "ENOMEM \<equiv> (12 :: int)"
abbreviation "ENODEV \<equiv> (19 :: int)"
abbreviation "EINVAL \<equiv> (22 :: int)"
abbreviation "EMFILE \<equiv> (24 :: int)"
abbreviation "ENOTTY \<equiv> (25 :: int)"
abbreviation "ESPIPE \<equiv> (29 :: int)"
abbreviation "ENOSYS \<equiv> (38 :: int)"

section \<open>Character queues\<close>

definition INC :: "u32 \<Rightarrow> u32" where "INC a = (a + 1) AND 1023"
definition DEC :: "u32 \<Rightarrow> u32" where "DEC a = (a - 1) AND 1023"
definition EMPTY :: "tty_queue \<Rightarrow> bool" where "EMPTY q \<longleftrightarrow> q_head q = q_tail q"
definition LEFT :: "tty_queue \<Rightarrow> u32" where "LEFT q = (q_tail q - q_head q - 1) AND 1023"
definition LAST :: "tty_queue \<Rightarrow> u8" where "LAST q = q_buf q ! unat (1023 AND (q_head q - 1))"
definition FULL :: "tty_queue \<Rightarrow> bool" where "FULL q \<longleftrightarrow> LEFT q = 0"
definition CHARS :: "tty_queue \<Rightarrow> u32" where "CHARS q = (q_head q - q_tail q) AND 1023"

definition GETCH :: "tty_queue \<Rightarrow> u8 \<times> tty_queue" where
  "GETCH q = (q_buf q ! unat (q_tail q), q\<lparr>q_tail := INC (q_tail q)\<rparr>)"

definition PUTCH :: "u8 \<Rightarrow> tty_queue \<Rightarrow> tty_queue" where
  "PUTCH c q = q\<lparr>q_buf := (q_buf q)[unat (q_head q) := c], q_head := INC (q_head q)\<rparr>"

datatype ttyq = ReadQ | WriteQ | SecQ

fun queue_of :: "ttyq \<Rightarrow> tty_struct \<Rightarrow> tty_queue" where
  "queue_of ReadQ t = tty_read_q t"
| "queue_of WriteQ t = tty_write_q t"
| "queue_of SecQ t = tty_secondary t"

fun upd_queue :: "ttyq \<Rightarrow> (tty_queue \<Rightarrow> tty_queue) \<Rightarrow> tty_struct \<Rightarrow> tty_struct" where
  "upd_queue ReadQ f t = t\<lparr>tty_read_q := f (tty_read_q t)\<rparr>"
| "upd_queue WriteQ f t = t\<lparr>tty_write_q := f (tty_write_q t)\<rparr>"
| "upd_queue SecQ f t = t\<lparr>tty_secondary := f (tty_secondary t)\<rparr>"

definition get_tty :: "nat \<Rightarrow> tty_struct K" where
  [kdefs]: "get_tty i = (\<lambda>s. if i < length (tty_table s) then Ok (tty_table s ! i) s else Fault)"

definition upd_tty :: "nat \<Rightarrow> (tty_struct \<Rightarrow> tty_struct) \<Rightarrow> unit K" where
  [kdefs]: "upd_tty i f = (\<lambda>s. if i < length (tty_table s)
     then Ok () (s\<lparr>tty_table := (tty_table s)[i := f (tty_table s ! i)]\<rparr>) else Fault)"

text \<open>The macros on a queue in memory: an index at the end of the array faults.\<close>

definition putch :: "nat \<Rightarrow> ttyq \<Rightarrow> u8 \<Rightarrow> unit K" where
  "putch i w c = bindk (get_tty i) (\<lambda>t. let q = queue_of w t in
     if unat (q_head q) < length (q_buf q) then upd_tty i (upd_queue w (PUTCH c)) else faultk)"

definition getch :: "nat \<Rightarrow> ttyq \<Rightarrow> u8 K" where
  "getch i w = bindk (get_tty i) (\<lambda>t. let q = queue_of w t in
     if unat (q_tail q) < length (q_buf q)
     then bindk (upd_tty i (upd_queue w (\<lambda>q. snd (GETCH q)))) (\<lambda>_. retk (fst (GETCH q))) else faultk)"

section \<open>The serial driver\<close>

definition serial_send_interrupt :: "unit K" where
  "serial_send_interrupt = bindk (get_tty 0) (\<lambda>t. let cur = tty_write_q t in
     bindk (whenk (q_proc_list cur \<noteq> 0) (set_state (q_proc_list cur) TASK_RUNNING)) (\<lambda>_.
     whenk (CHARS cur \<noteq> 0) (bindk (getch 0 WriteQ) (\<lambda>c. modk (\<lambda>s. s\<lparr>uart_tx := uart_tx s @ [c]\<rparr>)))))"

definition rs_write :: "nat \<Rightarrow> unit K" where
  "rs_write i = bindk (get_tty i) (\<lambda>t. whenk (\<not> EMPTY (tty_write_q t)) serial_send_interrupt)"

section \<open>The line discipline\<close>

definition L_FLAG :: "tty_struct \<Rightarrow> u32 \<Rightarrow> bool" where "L_FLAG t f \<longleftrightarrow> c_lflag (tty_termios t) AND f \<noteq> 0"
definition I_FLAG :: "tty_struct \<Rightarrow> u32 \<Rightarrow> bool" where "I_FLAG t f \<longleftrightarrow> c_iflag (tty_termios t) AND f \<noteq> 0"
definition O_FLAG :: "tty_struct \<Rightarrow> u32 \<Rightarrow> bool" where "O_FLAG t f \<longleftrightarrow> c_oflag (tty_termios t) AND f \<noteq> 0"

abbreviation "L_ISIG t \<equiv> L_FLAG t 0x1"
abbreviation "L_CANON t \<equiv> L_FLAG t 0x2"
abbreviation "L_ECHO t \<equiv> L_FLAG t 0x8"
abbreviation "L_ECHOCTL t \<equiv> L_FLAG t 0x200"
abbreviation "I_NLCR t \<equiv> I_FLAG t 0x40"
abbreviation "I_NOCR t \<equiv> I_FLAG t 0x80"
abbreviation "I_CRNL t \<equiv> I_FLAG t 0x100"
abbreviation "I_UCLC t \<equiv> I_FLAG t 0x200"
abbreviation "O_POST t \<equiv> O_FLAG t 0x1"
abbreviation "O_LCUC t \<equiv> O_FLAG t 0x2"
abbreviation "O_NLCR t \<equiv> O_FLAG t 0x4"
abbreviation "O_CRNL t \<equiv> O_FLAG t 0x8"
abbreviation "O_NLRET t \<equiv> O_FLAG t 0x20"

definition cc_char :: "tty_struct \<Rightarrow> nat \<Rightarrow> u8" where
  "cc_char t n = c_cc (tty_termios t) ! n"

abbreviation "INTR_CHAR t \<equiv> cc_char t 0"
abbreviation "QUIT_CHAR t \<equiv> cc_char t 1"
abbreviation "ERASE_CHAR t \<equiv> cc_char t 2"
abbreviation "KILL_CHAR t \<equiv> cc_char t 3"
abbreviation "EOF_CHAR t \<equiv> cc_char t 4"
abbreviation "START_CHAR t \<equiv> cc_char t 8"
abbreviation "STOP_CHAR t \<equiv> cc_char t 9"

text \<open>Comparison of a \<open>signed char\<close> with an \<open>unsigned char\<close>, both promoted to \<open>int\<close>.\<close>

definition is_char :: "u8 \<Rightarrow> u8 \<Rightarrow> bool" where
  "is_char c k \<longleftrightarrow> sint c = uint k"

definition tolower :: "u8 \<Rightarrow> u8" where "tolower c = (if 65 \<le> c \<and> c \<le> 90 then c + 32 else c)"
definition toupper :: "u8 \<Rightarrow> u8" where "toupper c = (if 97 \<le> c \<and> c \<le> 122 then c - 32 else c)"

abbreviation "INTMASK \<equiv> (0x2 :: ulong)"
abbreviation "QUITMASK \<equiv> (0x4 :: ulong)"
abbreviation "ALRMMASK \<equiv> (0x2000 :: ulong)"

definition tty_intr :: "nat \<Rightarrow> ulong \<Rightarrow> unit K" where
  "tty_intr i msk = bindk (get_tty i) (\<lambda>t. if tty_pgrp t \<le> 0 then retk () else
     eachk (\<lambda>k. bindk (getk task) (\<lambda>tk. bindk (nthk tk k) (\<lambda>p. if p = 0 then retk () else
       bindk (get_task p) (\<lambda>x. whenk (t_pgrp x = tty_pgrp t) (upd_task p (\<lambda>x. x\<lparr>t_signal := t_signal x OR msk\<rparr>))))))
       [0..<NR_TASKS])"

definition sleep_if_empty :: "nat \<Rightarrow> unit K" where
  "sleep_if_empty i = loopk WAIT_FUEL (\<lambda>_. bindk (getk cur_task) (\<lambda>c. bindk (get_tty i) (\<lambda>t.
     if t_signal c = 0 \<and> EMPTY (tty_secondary t)
     then bindk (interruptible_sleep_on (WTtySec i)) (\<lambda>_. retk (Inl ())) else retk (Inr ())))) ()"

definition sleep_if_full :: "nat \<Rightarrow> unit K" where
  "sleep_if_full i = bindk (get_tty i) (\<lambda>t. if \<not> FULL (tty_write_q t) then retk () else
     loopk WAIT_FUEL (\<lambda>_. bindk (getk cur_task) (\<lambda>c. bindk (get_tty i) (\<lambda>t.
       if t_signal c = 0 \<and> LEFT (tty_write_q t) < 128
       then bindk (interruptible_sleep_on (WTtyWrite i)) (\<lambda>_. retk (Inl ())) else retk (Inr ())))) ())"

definition wait_for_keypress :: "unit K" where
  "wait_for_keypress = sleep_if_empty 0"

text \<open>The translation of an input character; \<open>None\<close> when it is ignored.\<close>

definition cook_input :: "tty_struct \<Rightarrow> u8 \<Rightarrow> u8 option" where
  "cook_input t c = map_option (\<lambda>c. if I_UCLC t then tolower c else c)
     (if c = 13 then if I_CRNL t then Some 10 else if I_NOCR t then None else Some c
      else if c = 10 \<and> I_NLCR t then Some 13 else Some c)"

text \<open>The echo of an erased character, and taking it back.\<close>

definition rub_out :: "nat \<Rightarrow> u8 \<Rightarrow> unit K" where
  "rub_out i c = bindk (get_tty i) (\<lambda>t. bindk (whenk (L_ECHO t)
     (bindk (whenk (sint c < 32) (putch i WriteQ 127)) (\<lambda>_. bindk (putch i WriteQ 127) (\<lambda>_. rs_write i)))) (\<lambda>_.
     upd_tty i (upd_queue SecQ (\<lambda>q. q\<lparr>q_head := DEC (q_head q)\<rparr>))))"

text \<open>The loop that kills the input line. Its condition is a disjunction: with characters left it goes on,
  and \<open>c\<close> is only updated when the queue is empty.\<close>

definition kill_round :: "nat \<Rightarrow> u8 \<Rightarrow> (u8 + unit) K" where
  "kill_round i c = bindk (get_tty i) (\<lambda>t. let q = tty_secondary t in
     if \<not> EMPTY q then bindk (rub_out i c) (\<lambda>_. retk (Inl c)) else
     if LAST q = 10 \<or> is_char (LAST q) (EOF_CHAR t) then bindk (rub_out i (LAST q)) (\<lambda>_. retk (Inl (LAST q)))
     else retk (Inr ()))"

definition kill_line :: "nat \<Rightarrow> u8 \<Rightarrow> unit K" where
  "kill_line i c = loopk TTY_FUEL (kill_round i) c"

definition erase_char :: "nat \<Rightarrow> unit K" where
  "erase_char i = bindk (get_tty i) (\<lambda>t. let q = tty_secondary t in
     if EMPTY q \<or> LAST q = 10 \<or> is_char (LAST q) (EOF_CHAR t) then retk () else rub_out i (LAST q))"

definition echo_char :: "nat \<Rightarrow> u8 \<Rightarrow> unit K" where
  "echo_char i c = bindk (get_tty i) (\<lambda>t. if \<not> L_ECHO t then retk () else
     bindk (if c = 10 then bindk (putch i WriteQ 13) (\<lambda>_. putch i WriteQ 10)
       else if sint c < 32 then whenk (L_ECHOCTL t) (bindk (putch i WriteQ 94) (\<lambda>_. putch i WriteQ (c + 64)))
       else putch i WriteQ c) (\<lambda>_. rs_write i))"

definition cook_char :: "nat \<Rightarrow> u8 \<Rightarrow> unit K" where
  "cook_char i c = bindk (get_tty i) (\<lambda>t.
     if L_CANON t \<and> is_char c (KILL_CHAR t) then kill_line i c
     else if L_CANON t \<and> is_char c (ERASE_CHAR t) then erase_char i
     else if L_CANON t \<and> is_char c (STOP_CHAR t) then upd_tty i (\<lambda>t. t\<lparr>tty_stopped := 1\<rparr>)
     else if L_CANON t \<and> is_char c (START_CHAR t) then upd_tty i (\<lambda>t. t\<lparr>tty_stopped := 0\<rparr>)
     else if L_ISIG t \<and> is_char c (INTR_CHAR t) then tty_intr i INTMASK
     else if L_ISIG t \<and> is_char c (QUIT_CHAR t) then tty_intr i QUITMASK
     else bindk (whenk (c = 10 \<or> is_char c (EOF_CHAR t)) (upd_tty i (upd_queue SecQ (\<lambda>q. q\<lparr>q_data := q_data q + 1\<rparr>)))) (\<lambda>_.
       bindk (echo_char i c) (\<lambda>_. putch i SecQ c)))"

definition cook_round :: "nat \<Rightarrow> unit \<Rightarrow> (unit + unit) K" where
  "cook_round i _ = bindk (get_tty i) (\<lambda>t.
     if EMPTY (tty_read_q t) \<or> FULL (tty_secondary t) then retk (Inr ()) else
     bindk (getch i ReadQ) (\<lambda>c. bindk (case cook_input t c of None \<Rightarrow> retk () | Some c' \<Rightarrow> cook_char i c') (\<lambda>_.
     retk (Inl ()))))"

definition copy_to_cooked :: "nat \<Rightarrow> unit K" where
  "copy_to_cooked i = bindk (loopk TTY_FUEL (cook_round i) ()) (\<lambda>_. wake_up (WTtySec i))"

definition do_tty_interrupt :: "nat \<Rightarrow> unit K" where
  "do_tty_interrupt tty = copy_to_cooked tty"

text \<open>A received byte. The head of the queue is incremented without wrapping round.\<close>

definition serial_rev_interrupt :: "u8 \<Rightarrow> unit K" where
  "serial_rev_interrupt rbr = bindk (get_tty 0) (\<lambda>t. let cur = tty_read_q t in
     bindk (if CHARS cur < 1023 then
         if unat (q_head cur) < length (q_buf cur)
         then upd_tty 0 (upd_queue ReadQ (\<lambda>q. q\<lparr>q_buf := (q_buf q)[unat (q_head q) := rbr], q_head := q_head q + 1\<rparr>))
         else faultk
       else retk ()) (\<lambda>_. do_tty_interrupt 0))"

section \<open>Reading and writing\<close>

text \<open>The inner loop of \<open>tty_read\<close>: the number of characters stored, the number still wanted, and whether an
  end-of-file character ends the call.\<close>

definition read_chars_round :: "nat \<Rightarrow> ulong \<Rightarrow> int \<times> int \<Rightarrow> (int \<times> int + int \<times> int \<times> bool) K" where
  "read_chars_round i buf = (\<lambda>(n, nr). bindk (getch i SecQ) (\<lambda>c. bindk (get_tty i) (\<lambda>t.
     bindk (whenk (c = EOF_CHAR t \<or> c = 10) (upd_tty i (upd_queue SecQ (\<lambda>q. q\<lparr>q_data := q_data q - 1\<rparr>)))) (\<lambda>_.
     if c = EOF_CHAR t \<and> L_CANON t then retk (Inr (n, nr, True)) else
     bindk (put_fs_byte c (buf + word_of_int n)) (\<lambda>_.
     if nr - 1 = 0 then retk (Inr (n + 1, nr - 1, False)) else
     bindk (get_tty i) (\<lambda>t. if nr - 1 > 0 \<and> \<not> EMPTY (tty_secondary t) then retk (Inl (n + 1, nr - 1))
       else retk (Inr (n + 1, nr - 1, False))))))))"

definition read_chars :: "nat \<Rightarrow> ulong \<Rightarrow> int \<Rightarrow> int \<Rightarrow> (int \<times> int \<times> bool) K" where
  "read_chars i buf n nr = loopk TTY_FUEL (read_chars_round i buf) (n, nr)"

text \<open>\<open>flag = ((!oldalarm) || ((time + jiffies) < oldalarm))\<close>, with the alarm set when it is true.\<close>

definition read_alarm :: "int \<Rightarrow> int \<Rightarrow> bool K" where
  "read_alarm oldalarm time = bindk (getk jiffies) (\<lambda>now.
     if oldalarm = 0 \<or> time + now < oldalarm
     then bindk (upd_cur (\<lambda>c. c\<lparr>t_alarm := time + now\<rparr>)) (\<lambda>_. retk True) else retk False)"

text \<open>One round of the outer loop on (stored, wanted, alarm flag); it ends with the number of characters
  stored and whether the function returns at once.\<close>

definition tty_read_round :: "nat \<Rightarrow> ulong \<Rightarrow> int \<Rightarrow> int \<Rightarrow> int \<Rightarrow> int \<times> int \<times> bool \<Rightarrow> (int \<times> int \<times> bool + int \<times> bool) K" where
  "tty_read_round i buf oldalarm time minimum = (\<lambda>(n, nr, flag). if nr \<le> 0 then retk (Inr (n, False)) else
     bindk (getk cur_task) (\<lambda>c.
     if flag \<and> t_signal c AND ALRMMASK \<noteq> 0 then
       bindk (upd_cur (\<lambda>c. c\<lparr>t_signal := t_signal c AND NOT ALRMMASK\<rparr>)) (\<lambda>_. retk (Inr (n, False)))
     else if t_signal c \<noteq> 0 then retk (Inr (n, False)) else
     bindk (get_tty i) (\<lambda>t. let q = tty_secondary t in
     if EMPTY q \<or> L_CANON t \<and> q_data q = 0 \<and> LEFT q > 20
     then bindk (sleep_if_empty i) (\<lambda>_. retk (Inl (n, nr, flag))) else
     bindk (read_chars i buf n nr) (\<lambda>(n, nr, eof). if eof then retk (Inr (n, True)) else
     bindk (get_tty i) (\<lambda>t.
     bindk (if time \<noteq> 0 \<and> \<not> L_CANON t then
         bindk (read_alarm oldalarm time) (\<lambda>f.
         bindk (whenk (\<not> f) (upd_cur (\<lambda>c. c\<lparr>t_alarm := oldalarm\<rparr>))) (\<lambda>_. retk f))
       else retk flag) (\<lambda>flag.
     if (if L_CANON t then n \<noteq> 0 else n \<ge> minimum) then retk (Inr (n, False)) else retk (Inl (n, nr, flag))))))))"

definition tty_read :: "ulong \<Rightarrow> ulong \<Rightarrow> int \<Rightarrow> int K" where
  "tty_read channel buf nr = (if channel > 0 \<or> nr < 0 then retk (- 1) else
     let i = unat channel in
     bindk (get_tty i) (\<lambda>t. bindk (getk (\<lambda>s. t_alarm (cur_task s))) (\<lambda>oldalarm.
     let time = 10 * uint (cc_char t 5); minimum = uint (cc_char t 6) in
     bindk (if time \<noteq> 0 \<and> minimum = 0 then read_alarm oldalarm time else retk False) (\<lambda>flag.
     let minimum = (if time \<noteq> 0 \<and> minimum = 0 then 1 else minimum) in
     bindk (loopk WAIT_FUEL (tty_read_round i buf oldalarm time (min minimum nr)) (0, nr, flag)) (\<lambda>(n, ret).
     if ret then retk n else
     bindk (upd_cur (\<lambda>c. c\<lparr>t_alarm := oldalarm\<rparr>)) (\<lambda>_.
     bindk (getk cur_task) (\<lambda>c. retk (if t_signal c \<noteq> 0 \<and> n = 0 then - EINTR else n))))))))"

text \<open>The inner loop of \<open>tty_write\<close> on (taken, left): a character is put after its output translation, and a
  carriage return may be put before a line feed.\<close>

definition write_chars_round :: "nat \<Rightarrow> ulong \<Rightarrow> int \<times> int \<Rightarrow> (int \<times> int + int \<times> int) K" where
  "write_chars_round i buf = (\<lambda>(n, nr). bindk (get_tty i) (\<lambda>t.
     if nr \<le> 0 \<or> FULL (tty_write_q t) then retk (Inr (n, nr)) else
     bindk (get_fs_byte (buf + word_of_int n)) (\<lambda>c. bindk (get_tty i) (\<lambda>t. bindk (getk cr_flag) (\<lambda>cr.
     let c1 = (if \<not> O_POST t then c else if c = 13 \<and> O_CRNL t then 10 else if c = 10 \<and> O_NLRET t then 13 else c) in
     if O_POST t \<and> c1 = 10 \<and> \<not> cr \<and> O_NLCR t then
       bindk (modk (\<lambda>s. s\<lparr>cr_flag := True\<rparr>)) (\<lambda>_. bindk (putch i WriteQ 13) (\<lambda>_. retk (Inl (n, nr))))
     else
       bindk (modk (\<lambda>s. s\<lparr>cr_flag := False\<rparr>)) (\<lambda>_.
       bindk (putch i WriteQ (if O_POST t \<and> O_LCUC t then toupper c1 else c1)) (\<lambda>_. retk (Inl (n + 1, nr - 1)))))))))"

definition write_chars :: "nat \<Rightarrow> ulong \<Rightarrow> int \<Rightarrow> int \<Rightarrow> (int \<times> int) K" where
  "write_chars i buf n nr = loopk TTY_FUEL (write_chars_round i buf) (n, nr)"

definition tty_write_round :: "nat \<Rightarrow> ulong \<Rightarrow> int \<times> int \<Rightarrow> (int \<times> int + int) K" where
  "tty_write_round i buf = (\<lambda>(n, nr). if nr \<le> 0 then retk (Inr n) else
     bindk (sleep_if_full i) (\<lambda>_. bindk (getk cur_task) (\<lambda>c. if t_signal c \<noteq> 0 then retk (Inr n) else
     bindk (write_chars i buf n nr) (\<lambda>(n, nr).
     bindk (rs_write i) (\<lambda>_.
     bindk (if nr > 0 then bindk schedule (\<lambda>_. retk ()) else retk ()) (\<lambda>_. retk (Inl (n, nr))))))))"

text \<open>Every two rounds take at least one character.\<close>

definition tty_write :: "ulong \<Rightarrow> ulong \<Rightarrow> int \<Rightarrow> int K" where
  "tty_write channel buf nr = (if channel > 0 \<or> nr < 0 then retk (- 1) else
     loopk (2 * nat nr + 2) (tty_write_round (unat channel) buf) (0, nr))"

section \<open>Control\<close>

definition flush :: "nat \<Rightarrow> ttyq \<Rightarrow> unit K" where
  "flush i w = upd_tty i (upd_queue w (\<lambda>q. q\<lparr>q_head := q_tail q\<rparr>))"

text \<open>\<open>mem_copy_from_kernel\<close> and \<open>mem_copy_to_kernel\<close> move one byte, the first of the object. The other bytes
  of the local \<open>tmp_termio\<close> of \<open>set_termio\<close> are not initialised: they are the argument \<open>junk\<close>.\<close>

definition set_low_byte :: "u8 option \<Rightarrow> u32 \<Rightarrow> u32" where
  "set_low_byte v w = (case v of None \<Rightarrow> w | Some b \<Rightarrow> (w AND NOT 0xFF) OR ucast b)"

definition set_low16 :: "u16 \<Rightarrow> u32 \<Rightarrow> u32" where
  "set_low16 v w = (w AND NOT 0xFFFF) OR ucast v"

definition get_termios :: "nat \<Rightarrow> ulong \<Rightarrow> int K" where
  "get_termios i a = bindk (verify_area a 36) (\<lambda>_. bindk (get_tty i) (\<lambda>t.
     bindk (mem_copy_from_kernel (ucast (c_iflag (tty_termios t))) a 36) (\<lambda>_. retk 0)))"

definition set_termios :: "nat \<Rightarrow> ulong \<Rightarrow> int K" where
  "set_termios i a = bindk (mem_copy_to_kernel a 36) (\<lambda>v.
     bindk (upd_tty i (\<lambda>t. t\<lparr>tty_termios := (tty_termios t)\<lparr>c_iflag := set_low_byte v (c_iflag (tty_termios t))\<rparr>\<rparr>)) (\<lambda>_. retk 0))"

definition get_termio :: "nat \<Rightarrow> ulong \<Rightarrow> int K" where
  "get_termio i a = bindk (verify_area a 18) (\<lambda>_. bindk (get_tty i) (\<lambda>t.
     bindk (mem_copy_from_kernel (ucast (c_iflag (tty_termios t))) a 18) (\<lambda>_. retk 0)))"

definition set_termio :: "u8 list \<Rightarrow> nat \<Rightarrow> ulong \<Rightarrow> int K" where
  "set_termio junk i a = bindk (mem_copy_to_kernel a 18) (\<lambda>v.
     let tmp = (case v of None \<Rightarrow> junk | Some b \<Rightarrow> junk[0 := b]) in
     bindk (upd_tty i (\<lambda>t. let m = tty_termios t in t\<lparr>tty_termios := m\<lparr>
        c_iflag := set_low16 (get16 tmp 0) (c_iflag m), c_oflag := set_low16 (get16 tmp 2) (c_oflag m),
        c_cflag := set_low16 (get16 tmp 4) (c_cflag m), c_lflag := set_low16 (get16 tmp 6) (c_lflag m),
        c_line := tmp ! 8, c_cc := take 8 (drop 9 tmp) @ drop 8 (c_cc m)\<rparr>\<rparr>)) (\<lambda>_. retk 0))"

definition tty_ioctl :: "u8 list \<Rightarrow> int \<Rightarrow> int \<Rightarrow> int \<Rightarrow> int K" where
  "tty_ioctl junk dev cmd arg = bindk (getk (\<lambda>s. t_tty (cur_task s))) (\<lambda>ctty.
     if MAJOR dev = 5 \<and> ctty < 0 then panick ''tty_ioctl: dev<0'' else
     let i = (if MAJOR dev = 5 then nat ctty else MINOR dev); a = word_of_int arg :: ulong in
     if cmd = 0x5401 then get_termios i a
     else if cmd = 0x5404 then bindk (flush i ReadQ) (\<lambda>_. bindk (flush i SecQ) (\<lambda>_. set_termios i a))
     else if cmd = 0x5403 \<or> cmd = 0x5402 then set_termios i a
     else if cmd = 0x5405 then get_termio i a
     else if cmd = 0x5408 then bindk (flush i ReadQ) (\<lambda>_. bindk (flush i SecQ) (\<lambda>_. set_termio junk i a))
     else if cmd = 0x5407 \<or> cmd = 0x5406 then set_termio junk i a
     else if cmd = 0x5409 then retk 0
     else if cmd = 0x540B then
       (if arg = 0 then bindk (flush i ReadQ) (\<lambda>_. bindk (flush i SecQ) (\<lambda>_. retk 0))
        else if arg = 1 then bindk (flush i WriteQ) (\<lambda>_. retk 0)
        else if arg = 2 then bindk (flush i ReadQ) (\<lambda>_. bindk (flush i SecQ) (\<lambda>_. bindk (flush i WriteQ) (\<lambda>_. retk 0)))
        else retk (- EINVAL))
     else if cmd = 0x540F then bindk (verify_area a 4) (\<lambda>_. bindk (get_tty i) (\<lambda>t.
       bindk (mem_copy_from_kernel (word_of_int (tty_pgrp t)) a 4) (\<lambda>_. retk 0)))
     else if cmd = 0x5410 then bindk (mem_copy_to_kernel a 4) (\<lambda>v.
       bindk (upd_tty i (\<lambda>t. t\<lparr>tty_pgrp := sint (set_low_byte v (word_of_int (tty_pgrp t)))\<rparr>)) (\<lambda>_. retk 0))
     else if cmd = 0x5411 then bindk (verify_area a 8) (\<lambda>_. bindk (get_tty i) (\<lambda>t.
       bindk (mem_copy_from_kernel (ucast (CHARS (tty_write_q t))) a 8) (\<lambda>_. retk 0)))
     else if cmd = 0x541B then bindk (verify_area a 8) (\<lambda>_. bindk (get_tty i) (\<lambda>t.
       bindk (mem_copy_from_kernel (ucast (CHARS (tty_secondary t))) a 8) (\<lambda>_. retk 0)))
     else retk (- EINVAL))"

section \<open>Terminals keep the file system tables well-formed\<close>

lemma kv_tty [keeps_intros]: "keeps kinv (get_tty i)" "keeps kinv (upd_tty i f)"
  by (auto simp: keeps_def get_tty_def upd_tty_def intro: kinv_other [rotated 6])

lemma kv_isleep [keeps_intros]: "keeps kinv (interruptible_sleep_on q)"
  by (rule kv.keeps_interruptible_sleep_on)

lemma kv_putch [keeps_intros]: "keeps kinv (putch i w c)" "keeps kinv (getch i w)"
  unfolding putch_def getch_def Let_def by (intro keeps_intros)+

lemma kv_serial_send [keeps_intros]: "keeps kinv serial_send_interrupt"
  unfolding serial_send_interrupt_def Let_def by (intro keeps_intros kv_modk; simp)

lemma kv_rs_write [keeps_intros]: "keeps kinv (rs_write i)"
  unfolding rs_write_def by (intro keeps_intros)

lemma kv_tty_sleep [keeps_intros]: "keeps kinv (tty_intr i m)" "keeps kinv (sleep_if_empty i)" "keeps kinv (sleep_if_full i)" "keeps kinv wait_for_keypress"
  unfolding tty_intr_def sleep_if_empty_def sleep_if_full_def wait_for_keypress_def by (intro keeps_intros)+

lemma kv_cook [keeps_intros]: "keeps kinv (copy_to_cooked i)"
  unfolding copy_to_cooked_def cook_round_def cook_char_def kill_line_def kill_round_def erase_char_def rub_out_def echo_char_def Let_def
  by (intro keeps_intros)

lemma kv_serial_rev [keeps_intros]: "keeps kinv (serial_rev_interrupt c)" "keeps kinv (do_tty_interrupt i)"
  unfolding serial_rev_interrupt_def do_tty_interrupt_def Let_def by (intro keeps_intros)+

lemma kv_read_chars [keeps_intros]: "keeps kinv (read_chars i buf n nr)" "keeps kinv (read_alarm oa tm)"
  unfolding read_chars_def read_chars_round_def read_alarm_def by (intro keeps_intros; auto intro!: keeps_intros split: prod.splits)+

lemma kv_tty_read [keeps_intros]: "keeps kinv (tty_read ch buf nr)"
  unfolding tty_read_def tty_read_round_def Let_def by (intro keeps_intros; auto intro!: keeps_intros split: prod.splits)

lemma kv_write_chars [keeps_intros]: "keeps kinv (write_chars i buf n nr)"
  unfolding write_chars_def write_chars_round_def Let_def by (intro keeps_intros; auto intro!: keeps_intros kv_modk split: prod.splits)

lemma kv_tty_write [keeps_intros]: "keeps kinv (tty_write ch buf nr)"
  unfolding tty_write_def tty_write_round_def by (intro keeps_intros; auto intro!: keeps_intros split: prod.splits)

lemma kv_tty_ioctl [keeps_intros]: "keeps kinv (tty_ioctl junk dev cmd arg)"
  unfolding tty_ioctl_def get_termios_def set_termios_def get_termio_def set_termio_def flush_def Let_def by (intro keeps_intros)

end
