(* ===== verification/Files.thy ===== *)
theory Files
  imports Tty
begin

text \<open>
  Open files: regular files (\<open>fs/file_dev.c\<close>), block devices (\<open>fs/block_dev.c\<close>), pipes (\<open>fs/pipe.c\<close>), character
  devices (\<open>fs/char_dev.c\<close>), the system calls of \<open>fs/read_write.c\<close>, \<open>open.c\<close>, \<open>fcntl.c\<close>, \<open>stat.c\<close> and \<open>ioctl.c\<close>.

  A \<open>struct file *\<close> is an index of \<open>file_table\<close>. The address of a file's position that the device functions are
  given is the index of the file. Every round of a transfer loop moves at least one byte, so the byte count
  bounds the rounds.
\<close>

abbreviation "O_APPEND \<equiv> (0x400 :: u16)"
abbreviation "O_NONBLOCK \<equiv> (0x800 :: u16)"
abbreviation "SIGPIPE \<equiv> (13 :: nat)"

definition get_file :: "nat \<Rightarrow> file_struct K" where
  [kdefs]: "get_file i = (\<lambda>s. if i < length (file_table s) then Ok (file_table s ! i) s else Fault)"

definition upd_file :: "nat \<Rightarrow> (file_struct \<Rightarrow> file_struct) \<Rightarrow> unit K" where
  [kdefs]: "upd_file i f = (\<lambda>s. if i < length (file_table s)
     then Ok () (s\<lparr>file_table := (file_table s)[i := f (file_table s ! i)]\<rparr>) else Fault)"

text \<open>\<open>current -> filp[fd]\<close>, for a descriptor below \<open>NR_OPEN\<close>, and storing into it.\<close>

definition get_filp :: "nat \<Rightarrow> nat option K" where
  "get_filp fd = bindk (getk cur_task) (\<lambda>t. nthk (t_filp t) fd)"

definition set_filp :: "nat \<Rightarrow> nat option \<Rightarrow> unit K" where
  "set_filp fd p = upd_cur (\<lambda>t. t\<lparr>t_filp := (t_filp t)[fd := p]\<rparr>)"

text \<open>\<open>fd >= NR_OPEN || !(file = current -> filp[fd])\<close>\<close>

definition fd_file :: "nat \<Rightarrow> nat option K" where
  "fd_file fd = (if fd \<ge> NR_OPEN then retk None else get_filp fd)"

definition c_rem :: "int \<Rightarrow> int \<Rightarrow> int" where
  "c_rem a b = a - b * c_div a b"

section \<open>Regular files\<close>

definition file_read_round :: "nat \<Rightarrow> nat \<Rightarrow> ulong \<Rightarrow> int \<Rightarrow> int \<Rightarrow> (int + int) K" where
  "file_read_round i f buf count left = (if left = 0 then retk (Inr left) else
     bindk (get_file f) (\<lambda>fl. bindk (bmap i (c_int (c_div (f_pos fl) 1024))) (\<lambda>nr.
     bindk (if nr \<noteq> 0 then bindk (get_inode i) (\<lambda>n. bindk (bread (uint (i_dev n)) nr) (\<lambda>r. retk (map_option Some r)))
       else retk (Some None)) (\<lambda>r. case r of None \<Rightarrow> retk (Inr left) | Some bh \<Rightarrow>
     let off = c_rem (f_pos fl) 1024; chars = min (1024 - off) left; dst = buf + word_of_int (count - left) in
     bindk (upd_file f (\<lambda>x. x\<lparr>f_pos := f_pos x + chars\<rparr>)) (\<lambda>_.
     bindk (case bh of
         Some b \<Rightarrow> bindk (eachk (\<lambda>k. bindk (get_bh b) (\<lambda>h. bindk (nthk (b_data h) (nat off + k)) (\<lambda>c.
             put_fs_byte c (dst + word_of_nat k)))) [0..<nat chars]) (\<lambda>_. brelse (Some b))
       | None \<Rightarrow> eachk (\<lambda>k. put_fs_byte 0 (dst + word_of_nat k)) [0..<nat chars]) (\<lambda>_.
     retk (Inl (left - chars))))))))"

definition file_read :: "nat \<Rightarrow> nat \<Rightarrow> ulong \<Rightarrow> int \<Rightarrow> int K" where
  "file_read i f buf count = (if count \<le> 0 then retk 0 else
     bindk (loopk (nat count + 1) (file_read_round i f buf count) count) (\<lambda>left.
     bindk (getk CURRENT_TIME) (\<lambda>now. bindk (upd_inode i (\<lambda>n. n\<lparr>i_atime := word_of_int now\<rparr>)) (\<lambda>_.
     retk (if count - left \<noteq> 0 then count - left else - ERROR)))))"

definition file_write_round :: "nat \<Rightarrow> ulong \<Rightarrow> int \<Rightarrow> int \<times> int \<Rightarrow> (int \<times> int + int \<times> int) K" where
  "file_write_round i buf count = (\<lambda>(pos, k). if k \<ge> count then retk (Inr (pos, k)) else
     bindk (create_block i (c_int (c_div pos 1024))) (\<lambda>block. if block = 0 then retk (Inr (pos, k)) else
     bindk (get_inode i) (\<lambda>n. bindk (bread (uint (i_dev n)) block) (\<lambda>r. case r of None \<Rightarrow> retk (Inr (pos, k)) | Some b \<Rightarrow>
     let off = c_rem pos 1024; c = min (1024 - off) (count - k); pos' = pos + c in
     bindk (upd_bh b (\<lambda>h. h\<lparr>b_dirt := 1\<rparr>)) (\<lambda>_.
     bindk (get_inode i) (\<lambda>n. bindk (whenk (pos' > uint (i_size n)) (upd_inode i (\<lambda>n. n\<lparr>i_size := word_of_int pos', i_dirt := 1\<rparr>))) (\<lambda>_.
     bindk (eachk (\<lambda>j. bindk (get_fs_byte (buf + word_of_int (k + int j))) (\<lambda>v.
        upd_bh b (\<lambda>h. h\<lparr>b_data := (b_data h)[nat off + j := v]\<rparr>))) [0..<nat c]) (\<lambda>_.
     bindk (brelse (Some b)) (\<lambda>_. retk (Inl (pos', k + c)))))))))))"

definition file_write :: "nat \<Rightarrow> nat \<Rightarrow> ulong \<Rightarrow> int \<Rightarrow> int K" where
  "file_write i f buf count = bindk (get_file f) (\<lambda>fl. bindk (get_inode i) (\<lambda>n.
     let app = f_flags fl AND O_APPEND \<noteq> 0; pos = (if app then uint (i_size n) else f_pos fl) in
     bindk (loopk (nat count + 1) (file_write_round i buf count) (pos, 0)) (\<lambda>(pos, k).
     bindk (getk CURRENT_TIME) (\<lambda>now. bindk (upd_inode i (\<lambda>n. n\<lparr>i_mtime := word_of_int now\<rparr>)) (\<lambda>_.
     bindk (whenk (\<not> app) (bindk (upd_file f (\<lambda>x. x\<lparr>f_pos := pos\<rparr>)) (\<lambda>_. upd_inode i (\<lambda>n. n\<lparr>i_ctime := word_of_int now\<rparr>)))) (\<lambda>_.
     retk (if k \<noteq> 0 then k else - 1)))))))"

section \<open>Block devices\<close>

text \<open>The loop state: the block, the offset in it, the bytes left; what has been moved is \<open>count\<close> less what is left.\<close>

definition block_write_round :: "int \<Rightarrow> nat \<Rightarrow> ulong \<Rightarrow> int \<Rightarrow> int \<times> int \<times> int \<Rightarrow> (int \<times> int \<times> int + int) K" where
  "block_write_round dev f buf count = (\<lambda>(block, off, left). if left \<le> 0 then retk (Inr (count - left)) else
     let chars = min (1024 - off) left; done = count - left in
     bindk (if chars = 1024 then bindk (getblk dev block) (\<lambda>b. retk (Some b)) else breada dev block [block + 1, block + 2]) (\<lambda>r.
     case r of None \<Rightarrow> retk (Inr (if done \<noteq> 0 then done else - EIO)) | Some b \<Rightarrow>
     bindk (upd_file f (\<lambda>x. x\<lparr>f_pos := f_pos x + chars\<rparr>)) (\<lambda>_.
     bindk (eachk (\<lambda>j. bindk (get_fs_byte (buf + word_of_int (done + int j))) (\<lambda>v.
        upd_bh b (\<lambda>h. h\<lparr>b_data := (b_data h)[nat off + j := v]\<rparr>))) [0..<nat chars]) (\<lambda>_.
     bindk (upd_bh b (\<lambda>h. h\<lparr>b_dirt := 1\<rparr>)) (\<lambda>_.
     bindk (brelse (Some b)) (\<lambda>_. retk (Inl (block + 1, 0, left - chars))))))))"

definition block_write :: "int \<Rightarrow> nat \<Rightarrow> ulong \<Rightarrow> int \<Rightarrow> int K" where
  "block_write dev f buf count = bindk (get_file f) (\<lambda>fl.
     loopk (nat count + 1) (block_write_round dev f buf count) (c_int (f_pos fl div 1024), f_pos fl mod 1024, count))"

definition block_read_round :: "int \<Rightarrow> nat \<Rightarrow> ulong \<Rightarrow> int \<Rightarrow> int \<times> int \<times> int \<Rightarrow> (int \<times> int \<times> int + int) K" where
  "block_read_round dev f buf count = (\<lambda>(block, off, left). if left \<le> 0 then retk (Inr (count - left)) else
     let chars = min (1024 - off) left; done = count - left in
     bindk (breada dev block [block + 1, block + 2]) (\<lambda>r.
     case r of None \<Rightarrow> retk (Inr (if done \<noteq> 0 then done else - EIO)) | Some b \<Rightarrow>
     bindk (upd_file f (\<lambda>x. x\<lparr>f_pos := f_pos x + chars\<rparr>)) (\<lambda>_.
     bindk (eachk (\<lambda>j. bindk (get_bh b) (\<lambda>h. bindk (nthk (b_data h) (nat off + j)) (\<lambda>c.
        put_fs_byte c (buf + word_of_int (done + int j))))) [0..<nat chars]) (\<lambda>_.
     bindk (brelse (Some b)) (\<lambda>_. retk (Inl (block + 1, 0, left - chars)))))))"

definition block_read :: "int \<Rightarrow> nat \<Rightarrow> ulong \<Rightarrow> int \<Rightarrow> int K" where
  "block_read dev f buf count = bindk (get_file f) (\<lambda>fl.
     loopk (nat count + 1) (block_read_round dev f buf count) (c_int (f_pos fl div 1024), f_pos fl mod 1024, count))"

section \<open>Pipes\<close>

definition PIPE_HEAD :: "m_inode \<Rightarrow> u16" where "PIPE_HEAD n = i_zone n ! 0"
definition PIPE_TAIL :: "m_inode \<Rightarrow> u16" where "PIPE_TAIL n = i_zone n ! 1"
definition PIPE_SIZE :: "m_inode \<Rightarrow> int" where "PIPE_SIZE n = (uint (PIPE_HEAD n) - uint (PIPE_TAIL n)) mod 4096"

text \<open>The inner loops: wait until there is something to read, or to write to. True when the other end is closed.\<close>

definition pipe_wait :: "nat \<Rightarrow> (m_inode \<Rightarrow> bool) \<Rightarrow> bool K" where
  "pipe_wait i ready = loopk WAIT_FUEL (\<lambda>_. bindk (get_inode i) (\<lambda>n. if ready n then retk (Inr False) else
     bindk (wake_up (WInode i)) (\<lambda>_. bindk (get_inode i) (\<lambda>n. if i_count n \<noteq> 2 then retk (Inr True) else
     bindk (sleep_on (WInode i)) (\<lambda>_. retk (Inl ())))))) ()"

text \<open>The loop state: bytes moved so far and bytes left. It ends with the bytes moved, and whether the function
  returns at once because the other end is closed.\<close>

definition read_pipe_round :: "nat \<Rightarrow> ulong \<Rightarrow> int \<times> int \<Rightarrow> (int \<times> int + int \<times> bool) K" where
  "read_pipe_round i buf = (\<lambda>(m, count). if count \<le> 0 then retk (Inr (m, False)) else
     bindk (pipe_wait i (\<lambda>n. PIPE_SIZE n \<noteq> 0)) (\<lambda>stop. if stop then retk (Inr (m, True)) else
     bindk (get_inode i) (\<lambda>n. let tl = uint (PIPE_TAIL n); chars = min (min (4096 - tl) count) (PIPE_SIZE n) in
     bindk (upd_inode i (\<lambda>n. n\<lparr>i_zone := (i_zone n)[1 := (PIPE_TAIL n + word_of_int chars) AND 0xFFF]\<rparr>)) (\<lambda>_.
     bindk (eachk (\<lambda>k. bindk (get_inode i) (\<lambda>n. bindk (getk (\<lambda>s. pmem s (ucast (i_size n) + word_of_int (tl + int k)))) (\<lambda>c.
        put_fs_byte c (buf + word_of_int (m + int k))))) [0..<nat chars]) (\<lambda>_.
     retk (Inl (m + chars, count - chars)))))))"

definition read_pipe :: "nat \<Rightarrow> ulong \<Rightarrow> int \<Rightarrow> int K" where
  "read_pipe i buf count = bindk (loopk (nat count + 1) (read_pipe_round i buf) (0, count)) (\<lambda>(m, stop).
     if stop then retk m else bindk (wake_up (WInode i)) (\<lambda>_. retk m))"

definition write_pipe_round :: "nat \<Rightarrow> ulong \<Rightarrow> int \<times> int \<Rightarrow> (int \<times> int + int \<times> bool) K" where
  "write_pipe_round i buf = (\<lambda>(m, count). if count \<le> 0 then retk (Inr (m, False)) else
     bindk (pipe_wait i (\<lambda>n. 4095 - PIPE_SIZE n \<noteq> 0)) (\<lambda>stop. if stop then retk (Inr (m, True)) else
     bindk (get_inode i) (\<lambda>n. let hd = uint (PIPE_HEAD n); chars = min (min (4096 - hd) count) (4095 - PIPE_SIZE n) in
     bindk (upd_inode i (\<lambda>n. n\<lparr>i_zone := (i_zone n)[0 := (PIPE_HEAD n + word_of_int chars) AND 0xFFF]\<rparr>)) (\<lambda>_.
     bindk (eachk (\<lambda>k. bindk (get_fs_byte (buf + word_of_int (m + int k))) (\<lambda>c. bindk (get_inode i) (\<lambda>n.
        modk (\<lambda>s. s\<lparr>pmem := (pmem s)(ucast (i_size n) + word_of_int (hd + int k) := c)\<rparr>)))) [0..<nat chars]) (\<lambda>_.
     retk (Inl (m + chars, count - chars)))))))"

definition write_pipe :: "nat \<Rightarrow> ulong \<Rightarrow> int \<Rightarrow> int K" where
  "write_pipe i buf count = bindk (loopk (nat count + 1) (write_pipe_round i buf) (0, count)) (\<lambda>(m, stop).
     if stop then bindk (upd_cur (\<lambda>t. t\<lparr>t_signal := t_signal t OR push_bit (SIGPIPE - 1) 1\<rparr>)) (\<lambda>_. retk (if m \<noteq> 0 then m else - 1))
     else bindk (wake_up (WInode i)) (\<lambda>_. retk m))"

text \<open>The two searches of \<open>sys_pipe\<close>: the first two unused files, the first two unused descriptors.\<close>

definition free_files :: "kstate \<Rightarrow> nat list" where
  "free_files s = filter (\<lambda>i. f_count (file_table s ! i) = 0) [0..<NR_FILE]"

definition free_fds :: "kstate \<Rightarrow> nat list" where
  "free_fds s = filter (\<lambda>i. t_filp (cur_task s) ! i = None) [0..<NR_OPEN]"

definition put_fd :: "nat \<Rightarrow> unit K" where
  "put_fd f = upd_file f (\<lambda>x. x\<lparr>f_count := 0\<rparr>)"

definition sys_pipe :: "ulong \<Rightarrow> int K" where
  "sys_pipe fildes = bindk (getk free_files) (\<lambda>fs. case fs of f0 # f1 # _ \<Rightarrow>
       bindk (upd_file f0 (\<lambda>x. x\<lparr>f_count := f_count x + 1\<rparr>)) (\<lambda>_. bindk (upd_file f1 (\<lambda>x. x\<lparr>f_count := f_count x + 1\<rparr>)) (\<lambda>_.
       bindk (getk free_fds) (\<lambda>ds. case ds of d0 # d1 # _ \<Rightarrow>
           bindk (set_filp d0 (Some f0)) (\<lambda>_. bindk (set_filp d1 (Some f1)) (\<lambda>_.
           bindk get_pipe_inode (\<lambda>r. case r of
             None \<Rightarrow> bindk (set_filp d1 None) (\<lambda>_. bindk (set_filp d0 None) (\<lambda>_.
               bindk (put_fd f1) (\<lambda>_. bindk (put_fd f0) (\<lambda>_. retk (- 1)))))
           | Some i \<Rightarrow>
             bindk (upd_file f0 (\<lambda>x. x\<lparr>f_inode := Some i, f_pos := 0, f_mode := 1\<rparr>)) (\<lambda>_.
             bindk (upd_file f1 (\<lambda>x. x\<lparr>f_inode := Some i, f_pos := 0, f_mode := 2\<rparr>)) (\<lambda>_.
             bindk (put_fs_long (word_of_nat d0) fildes) (\<lambda>_. bindk (put_fs_long (word_of_nat d1) (fildes + 8)) (\<lambda>_. retk 0)))))))
         | _ \<Rightarrow> bindk (put_fd f1) (\<lambda>_. bindk (put_fd f0) (\<lambda>_. retk (- 1))))))
     | _ \<Rightarrow> retk (- 1))"

section \<open>Character devices\<close>

definition rw_ttyx :: "int \<Rightarrow> nat \<Rightarrow> ulong \<Rightarrow> int \<Rightarrow> int K" where
  "rw_ttyx rw minor buf count = (if rw = READ then tty_read (word_of_nat minor) buf count else tty_write (word_of_nat minor) buf count)"

definition rw_tty :: "int \<Rightarrow> nat \<Rightarrow> ulong \<Rightarrow> int \<Rightarrow> int K" where
  "rw_tty rw minor buf count = bindk (getk (\<lambda>s. t_tty (cur_task s))) (\<lambda>t.
     if t < 0 then retk (- EPERM) else rw_ttyx rw (nat t) buf count)"

definition rw_memory :: "int \<Rightarrow> nat \<Rightarrow> ulong \<Rightarrow> int \<Rightarrow> int K" where
  "rw_memory rw minor buf count = (if minor = 3 then retk (if rw = READ then 0 else count) else retk (- EIO))"

text \<open>\<open>crw_table\<close> has eight entries, of which 1, 4 and 5 are functions.\<close>

definition rw_char :: "int \<Rightarrow> int \<Rightarrow> ulong \<Rightarrow> int \<Rightarrow> int K" where
  "rw_char rw dev buf count = (case MAJOR dev of Suc 0 \<Rightarrow> rw_memory rw (MINOR dev) buf count
     | m \<Rightarrow> if m = 4 then rw_ttyx rw (MINOR dev) buf count else if m = 5 then rw_tty rw (MINOR dev) buf count
       else retk (- ENODEV))"

section \<open>Reading, writing and seeking\<close>

definition IS_SEEKABLE :: "nat \<Rightarrow> bool" where "IS_SEEKABLE x \<longleftrightarrow> 1 \<le> x \<and> x \<le> 3"

definition sys_lseek :: "nat \<Rightarrow> int \<Rightarrow> int \<Rightarrow> int K" where
  "sys_lseek fd offset origin = bindk (fd_file fd) (\<lambda>r. case r of None \<Rightarrow> retk (- EBADF) | Some f \<Rightarrow>
     bindk (get_file f) (\<lambda>fl. case f_inode fl of None \<Rightarrow> retk (- EBADF) | Some i \<Rightarrow>
     bindk (get_inode i) (\<lambda>n. if \<not> IS_SEEKABLE (MAJOR (uint (i_dev n))) then retk (- EBADF) else
     if i_pipe n \<noteq> 0 then retk (- ESPIPE) else
     let new = (if origin = 0 then if offset < 0 then None else Some offset
        else if origin = 1 then if f_pos fl + offset < 0 then None else Some (f_pos fl + offset)
        else if origin = 2 then if c_int (uint (i_size n) + offset) < 0 then None else Some (c_int (uint (i_size n) + offset))
        else None) in
     case new of None \<Rightarrow> retk (- EINVAL) | Some p \<Rightarrow> bindk (upd_file f (\<lambda>x. x\<lparr>f_pos := p\<rparr>)) (\<lambda>_. retk p))))"

definition sys_read :: "nat \<Rightarrow> ulong \<Rightarrow> int \<Rightarrow> int K" where
  "sys_read fd buf count = (if count < 0 then retk (- EINVAL) else
     bindk (fd_file fd) (\<lambda>r. case r of None \<Rightarrow> retk (- EINVAL) | Some f \<Rightarrow>
     if count = 0 then retk 0 else
     bindk (verify_area buf count) (\<lambda>_. bindk (get_file f) (\<lambda>fl. bindk (derefk (f_inode fl)) (\<lambda>i.
     bindk (get_inode i) (\<lambda>n.
     if i_pipe n \<noteq> 0 then if f_mode fl AND 1 \<noteq> 0 then read_pipe i buf count else retk (- EIO)
     else if S_ISCHR (i_mode n) then rw_char READ (uint (i_zone n ! 0)) buf count
     else if S_ISBLK (i_mode n) then block_read (uint (i_zone n ! 0)) f buf count
     else if S_ISDIR (i_mode n) \<or> S_ISREG (i_mode n) then
       let c = (if count + f_pos fl > uint (i_size n) then c_int (uint (i_size n) - f_pos fl) else count) in
       if c \<le> 0 then retk 0 else file_read i f buf c
     else retk (- EINVAL)))))))"

definition sys_write :: "nat \<Rightarrow> ulong \<Rightarrow> int \<Rightarrow> int K" where
  "sys_write fd buf count = (if count < 0 then retk (- EINVAL) else
     bindk (fd_file fd) (\<lambda>r. case r of None \<Rightarrow> retk (- EINVAL) | Some f \<Rightarrow>
     if count = 0 then retk 0 else
     bindk (get_file f) (\<lambda>fl. bindk (derefk (f_inode fl)) (\<lambda>i. bindk (get_inode i) (\<lambda>n.
     if i_pipe n \<noteq> 0 then if f_mode fl AND 2 \<noteq> 0 then write_pipe i buf count else retk (- EIO)
     else if S_ISCHR (i_mode n) then rw_char WRITE (uint (i_zone n ! 0)) buf count
     else if S_ISBLK (i_mode n) then block_write (uint (i_zone n ! 0)) f buf count
     else if S_ISREG (i_mode n) then file_write i f buf count
     else retk (- EINVAL))))))"

section \<open>Opening and closing\<close>

definition sys_ustat :: "int K" where "sys_ustat = retk (- ENOSYS)"

definition sys_utime :: "ulong \<Rightarrow> ulong \<Rightarrow> int K" where
  "sys_utime filename tms = bindk (namei filename) (\<lambda>r. case r of None \<Rightarrow> retk (- ENOENT) | Some i \<Rightarrow>
     bindk (if tms \<noteq> 0 then bindk (get_fs_long tms) (\<lambda>a. bindk (get_fs_long (tms + 8)) (\<lambda>m. retk (a, m)))
       else bindk (getk CURRENT_TIME) (\<lambda>now. retk (word_of_int now, word_of_int now))) (\<lambda>(a, m).
     bindk (upd_inode i (\<lambda>n. n\<lparr>i_atime := a, i_mtime := m, i_dirt := 1\<rparr>)) (\<lambda>_.
     bindk (iput (Some i)) (\<lambda>_. retk 0))))"

text \<open>The owner and the group are compared after the inode has been released; the group case shifts by six.\<close>

definition sys_access :: "ulong \<Rightarrow> u16 \<Rightarrow> int K" where
  "sys_access filename mode0 = (let mode = mode0 AND 7 in
     bindk (namei filename) (\<lambda>r. case r of None \<Rightarrow> retk (- EACCES) | Some i \<Rightarrow>
     bindk (get_inode i) (\<lambda>n. let res = i_mode n AND 0x1FF in
     bindk (iput (Some i)) (\<lambda>_. bindk (get_inode i) (\<lambda>n. bindk (getk cur_task) (\<lambda>t.
     let res' = (if t_uid t = i_uid n then drop_bit 6 res else if uint (t_gid t) = uint (i_gid n) then drop_bit 6 res else res) in
     if res' AND 7 AND mode = mode then retk 0
     else if t_uid t = 0 \<and> (mode AND 1 = 0 \<or> res AND 0x49 \<noteq> 0) then retk 0
     else retk (- EACCES)))))))"

text \<open>\<open>sys_chdir\<close> and \<open>sys_chroot\<close> differ in the field they set.\<close>

definition change_dir :: "(task_struct \<Rightarrow> nat option) \<Rightarrow> (nat option \<Rightarrow> task_struct \<Rightarrow> task_struct) \<Rightarrow> ulong \<Rightarrow> int K" where
  "change_dir field upd filename = bindk (namei filename) (\<lambda>r. case r of None \<Rightarrow> retk (- ENOENT) | Some i \<Rightarrow>
     bindk (get_inode i) (\<lambda>n. if \<not> S_ISDIR (i_mode n) then bindk (iput (Some i)) (\<lambda>_. retk (- ENOTDIR)) else
     bindk (getk cur_task) (\<lambda>t. bindk (iput (field t)) (\<lambda>_. bindk (upd_cur (upd (Some i))) (\<lambda>_. retk 0)))))"

definition sys_chdir :: "ulong \<Rightarrow> int K" where
  "sys_chdir = change_dir t_pwd (\<lambda>p t. t\<lparr>t_pwd := p\<rparr>)"

definition sys_chroot :: "ulong \<Rightarrow> int K" where
  "sys_chroot = change_dir t_root (\<lambda>p t. t\<lparr>t_root := p\<rparr>)"

definition sys_chmod :: "ulong \<Rightarrow> u16 \<Rightarrow> int K" where
  "sys_chmod filename mode = bindk (namei filename) (\<lambda>r. case r of None \<Rightarrow> retk (- ENOENT) | Some i \<Rightarrow>
     bindk (get_inode i) (\<lambda>n. bindk (getk (\<lambda>s. s)) (\<lambda>s.
     if t_euid (cur_task s) \<noteq> i_uid n \<and> \<not> suser s then bindk (iput (Some i)) (\<lambda>_. retk (- EACCES)) else
     bindk (upd_inode i (\<lambda>n. n\<lparr>i_mode := (mode AND 0xFFF) OR (i_mode n AND NOT 0xFFF), i_dirt := 1\<rparr>)) (\<lambda>_.
     bindk (iput (Some i)) (\<lambda>_. retk 0)))))"

definition sys_chown :: "ulong \<Rightarrow> int \<Rightarrow> int \<Rightarrow> int K" where
  "sys_chown filename uid gid = bindk (namei filename) (\<lambda>r. case r of None \<Rightarrow> retk (- ENOENT) | Some i \<Rightarrow>
     bindk (getk suser) (\<lambda>su. if \<not> su then bindk (iput (Some i)) (\<lambda>_. retk (- EACCES)) else
     bindk (upd_inode i (\<lambda>n. n\<lparr>i_uid := word_of_int uid, i_gid := word_of_int gid, i_dirt := 1\<rparr>)) (\<lambda>_.
     bindk (iput (Some i)) (\<lambda>_. retk 0))))"

text \<open>\<open>current -> close_on_exec &= ~(1 << fd)\<close>; the shift of an \<open>int\<close>, so its complement is sign-extended.\<close>

definition clear_close_on_exec :: "nat \<Rightarrow> unit K" where
  "clear_close_on_exec fd = upd_cur (\<lambda>t. t\<lparr>t_close_on_exec := t_close_on_exec t AND NOT (push_bit fd 1)\<rparr>)"

definition open_undo :: "nat \<Rightarrow> nat \<Rightarrow> int \<Rightarrow> int K" where
  "open_undo fd f e = bindk (set_filp fd None) (\<lambda>_. bindk (put_fd f) (\<lambda>_. retk e))"

definition sys_open :: "ulong \<Rightarrow> u32 \<Rightarrow> u32 \<Rightarrow> int K" where
  "sys_open filename flag mode0 = bindk (getk (\<lambda>s. s)) (\<lambda>s.
     let mode = mode0 AND 0x1FF AND NOT (ucast (t_umask (cur_task s))) in
     case free_fds s of [] \<Rightarrow> retk (- EINVAL) | fd # _ \<Rightarrow>
     bindk (clear_close_on_exec fd) (\<lambda>_.
     bindk (getk free_files) (\<lambda>fs. case fs of [] \<Rightarrow> retk (- EINVAL) | f # _ \<Rightarrow>
     bindk (set_filp fd (Some f)) (\<lambda>_. bindk (upd_file f (\<lambda>x. x\<lparr>f_count := f_count x + 1\<rparr>)) (\<lambda>_.
     bindk (open_namei filename flag mode) (\<lambda>(e, r). if e < 0 then open_undo fd f e else
     bindk (derefk r) (\<lambda>i. bindk (get_inode i) (\<lambda>n. bindk (getk cur_task) (\<lambda>t.
     let z = uint (i_zone n ! 0) in
     if S_ISCHR (i_mode n) \<and> MAJOR z = 5 \<and> t_tty t < 0 then
       bindk (iput (Some i)) (\<lambda>_. open_undo fd f (- EPERM)) else
     bindk (whenk (S_ISCHR (i_mode n) \<and> MAJOR z = 4 \<and> t_leader t \<noteq> 0 \<and> t_tty t < 0)
       (bindk (upd_cur (\<lambda>t. t\<lparr>t_tty := int (MINOR z)\<rparr>)) (\<lambda>_. upd_tty (MINOR z) (\<lambda>y. y\<lparr>tty_pgrp := t_pgrp t\<rparr>)))) (\<lambda>_.
     bindk (upd_file f (\<lambda>x. x\<lparr>f_mode := i_mode n, f_flags := ucast flag, f_count := 1, f_inode := Some i, f_pos := 0\<rparr>)) (\<lambda>_.
     retk (int fd))))))))))))"

definition sys_creat :: "ulong \<Rightarrow> u32 \<Rightarrow> int K" where
  "sys_creat pathname mode = sys_open pathname (O_CREAT OR O_TRUNC) mode"

definition sys_close :: "nat \<Rightarrow> int K" where
  "sys_close fd = (if fd \<ge> NR_OPEN then retk (- EINVAL) else
     bindk (clear_close_on_exec fd) (\<lambda>_.
     bindk (get_filp fd) (\<lambda>r. case r of None \<Rightarrow> retk (- EINVAL) | Some f \<Rightarrow>
     bindk (set_filp fd None) (\<lambda>_.
     bindk (get_file f) (\<lambda>fl. if f_count fl = 0 then panick ''Close: file count is 0'' else
     bindk (upd_file f (\<lambda>x. x\<lparr>f_count := f_count x - 1\<rparr>)) (\<lambda>_.
     if f_count fl - 1 \<noteq> 0 then retk 0 else bindk (iput (f_inode fl)) (\<lambda>_. retk 0)))))))"

section \<open>Descriptors\<close>

definition dupfd :: "nat \<Rightarrow> nat \<Rightarrow> int K" where
  "dupfd fd arg = bindk (fd_file fd) (\<lambda>r. case r of None \<Rightarrow> retk (- EBADF) | Some f \<Rightarrow>
     if arg \<ge> NR_OPEN then retk (- EINVAL) else
     bindk (getk free_fds) (\<lambda>ds. case filter (\<lambda>d. arg \<le> d) ds of [] \<Rightarrow> retk (- EMFILE) | d # _ \<Rightarrow>
     bindk (clear_close_on_exec d) (\<lambda>_.
     bindk (set_filp d (Some f)) (\<lambda>_. bindk (upd_file f (\<lambda>x. x\<lparr>f_count := f_count x + 1\<rparr>)) (\<lambda>_. retk (int d))))))"

definition sys_dup2 :: "nat \<Rightarrow> nat \<Rightarrow> int K" where
  "sys_dup2 oldfd newfd = bindk (sys_close newfd) (\<lambda>_. dupfd oldfd newfd)"

definition sys_dup :: "nat \<Rightarrow> int K" where
  "sys_dup fildes = dupfd fildes 0"

definition sys_fcntl :: "nat \<Rightarrow> nat \<Rightarrow> ulong \<Rightarrow> int K" where
  "sys_fcntl fd cmd arg = bindk (fd_file fd) (\<lambda>r. case r of None \<Rightarrow> retk (- EBADF) | Some f \<Rightarrow>
     if cmd = 0 then dupfd fd (unat (ucast arg :: u32))
     else if cmd = 1 then bindk (getk cur_task) (\<lambda>t. retk (if bit (t_close_on_exec t) fd then 1 else 0))
     else if cmd = 2 then
       bindk (if arg AND 1 \<noteq> 0 then upd_cur (\<lambda>t. t\<lparr>t_close_on_exec := t_close_on_exec t OR push_bit fd 1\<rparr>)
         else clear_close_on_exec fd) (\<lambda>_. retk 0)
     else if cmd = 3 then bindk (get_file f) (\<lambda>fl. retk (uint (f_flags fl)))
     else if cmd = 4 then bindk (upd_file f (\<lambda>x. x\<lparr>f_flags :=
         (f_flags x AND NOT (O_APPEND OR O_NONBLOCK)) OR (ucast arg AND (O_APPEND OR O_NONBLOCK))\<rparr>)) (\<lambda>_. retk 0)
     else retk (- 1))"

section \<open>Status and control\<close>

definition le64 :: "ulong \<Rightarrow> u8 list" where
  "le64 w = map (\<lambda>k. ucast (drop_bit (8 * k) w)) [0..<8]"

text \<open>The bytes of \<open>struct stat\<close>. The local variable is not cleared: its four bytes of padding are the argument
  \<open>pad\<close>.\<close>

definition stat_bytes :: "u8 list \<Rightarrow> m_inode \<Rightarrow> u8 list" where
  "stat_bytes pad n = le16 (i_dev n) @ le16 (i_num n) @ le16 (i_mode n) @ [i_nlinks n, pad ! 0] @ le16 (i_uid n) @
     [i_gid n, pad ! 1] @ le16 (i_zone n ! 0) @ [pad ! 2, pad ! 3] @ le64 (ucast (i_size n)) @ le64 (ucast (i_atime n)) @
     le64 (ucast (i_mtime n)) @ le64 (ucast (i_ctime n))"

definition cp_stat :: "u8 list \<Rightarrow> nat \<Rightarrow> ulong \<Rightarrow> unit K" where
  "cp_stat pad i statbuf = bindk (verify_area statbuf 48) (\<lambda>_. bindk (get_inode i) (\<lambda>n.
     eachk (\<lambda>k. put_fs_byte (stat_bytes pad n ! k) (statbuf + word_of_nat k)) [0..<48]))"

definition sys_stat :: "u8 list \<Rightarrow> ulong \<Rightarrow> ulong \<Rightarrow> int K" where
  "sys_stat pad filename statbuf = bindk (namei filename) (\<lambda>r. case r of None \<Rightarrow> retk (- ENOENT) | Some i \<Rightarrow>
     bindk (cp_stat pad i statbuf) (\<lambda>_. bindk (iput (Some i)) (\<lambda>_. retk 0)))"

definition sys_fstat :: "u8 list \<Rightarrow> nat \<Rightarrow> ulong \<Rightarrow> int K" where
  "sys_fstat pad fd statbuf = bindk (fd_file fd) (\<lambda>r. case r of None \<Rightarrow> retk (- EBADF) | Some f \<Rightarrow>
     bindk (get_file f) (\<lambda>fl. case f_inode fl of None \<Rightarrow> retk (- EBADF) | Some i \<Rightarrow>
     bindk (cp_stat pad i statbuf) (\<lambda>_. retk 0)))"

text \<open>The function pointers of \<open>ioctl_table\<close> take an \<open>int\<close>: the argument is cut to 32 bits.\<close>

definition sys_ioctl :: "u8 list \<Rightarrow> nat \<Rightarrow> int \<Rightarrow> ulong \<Rightarrow> int K" where
  "sys_ioctl junk fd cmd arg = bindk (fd_file fd) (\<lambda>r. case r of None \<Rightarrow> retk (- EBADF) | Some f \<Rightarrow>
     bindk (get_file f) (\<lambda>fl. bindk (derefk (f_inode fl)) (\<lambda>i. bindk (get_inode i) (\<lambda>n.
     if \<not> S_ISCHR (i_mode n) \<and> \<not> S_ISBLK (i_mode n) then retk (- EINVAL) else
     let dev = uint (i_zone n ! 0) in
     if MAJOR dev \<ge> 8 then retk (- ENODEV)
     else if MAJOR dev \<noteq> 4 \<and> MAJOR dev \<noteq> 5 then retk (- ENOTTY)
     else tty_ioctl junk dev cmd (to_int32 arg)))))"

section \<open>Files keep the file system tables well-formed\<close>

lemma kv_file [keeps_intros]: "keeps kinv (get_file i)" "keeps kinv (upd_file i f)"
  by (auto simp: keeps_def get_file_def upd_file_def intro: kinv_other [rotated 6])

lemma kv_filp [keeps_intros]: "keeps kinv (get_filp fd)" "keeps kinv (set_filp fd p)" "keeps kinv (fd_file fd)" "keeps kinv (put_fd f)" "keeps kinv (clear_close_on_exec fd)"
  unfolding get_filp_def set_filp_def fd_file_def put_fd_def clear_close_on_exec_def by (intro keeps_intros)+

lemma kv_file_read [keeps_intros]: "keeps kinv (file_read i f buf count)"
  unfolding file_read_def file_read_round_def Let_def by (intro keeps_intros; simp)

lemma kv_set_byte [keeps_intros]: "keeps kinv (upd_bh b (\<lambda>h. h\<lparr>b_data := (b_data h)[k := v]\<rparr>))"
proof -
  have "post kinv (upd_bh b (\<lambda>h. h\<lparr>b_data := (b_data h)[k := v]\<rparr>) s)" if "kinv s" for s
  proof (cases "b < length (bufs s)")
    case True
    have "data_step s (s\<lparr>bufs := (bufs s)[b := (bufs s ! b)\<lparr>b_data := (b_data (bufs s ! b))[k := v]\<rparr>]\<rparr>)"
      using True by (auto simp: data_step_def nth_list_update)
    then show ?thesis using that kv.Q_io [OF io_step_bufs] by (simp add: upd_bh_def True)
  qed (simp add: upd_bh_def)
  then show ?thesis by (simp add: keeps_def)
qed

lemma kv_file_write [keeps_intros]: "keeps kinv (file_write i f buf count)"
  unfolding file_write_def file_write_round_def Let_def
  by (intro keeps_intros; (simp | auto intro!: keeps_intros split: prod.splits))

lemma kv_block_dev [keeps_intros]:
  "0 \<le> dev \<Longrightarrow> dev < 2 ^ 16 \<Longrightarrow> keeps kinv (block_read dev f buf count)"
  "0 \<le> dev \<Longrightarrow> dev < 2 ^ 16 \<Longrightarrow> keeps kinv (block_write dev f buf count)"
  unfolding block_read_def block_read_round_def block_write_def block_write_round_def Let_def
  by (intro keeps_intros; (simp | auto intro!: keeps_intros split: prod.splits))+

lemma kv_pipe_wait [keeps_intros]: "keeps kinv (pipe_wait i ready)"
  unfolding pipe_wait_def by (intro keeps_intros)

lemma kv_pipe [keeps_intros]: "keeps kinv (read_pipe i buf count)" "keeps kinv (write_pipe i buf count)"
  unfolding read_pipe_def read_pipe_round_def write_pipe_def write_pipe_round_def Let_def
  by (intro keeps_intros kv_modk; (simp | auto intro!: keeps_intros kv_modk split: prod.splits))+

lemma kv_sys_pipe [keeps_intros]: "keeps kinv (sys_pipe fildes)"
  unfolding sys_pipe_def by (intro keeps_intros) (auto intro!: keeps_intros split: list.splits)

lemma kv_rw_char [keeps_intros]: "keeps kinv (rw_char rw dev buf count)"
  unfolding rw_char_def rw_ttyx_def rw_tty_def rw_memory_def by (auto intro!: keeps_intros split: nat.splits)

lemma kv_rw [keeps_intros]: "keeps kinv (sys_lseek fd off org)" "keeps kinv (sys_read fd buf count)" "keeps kinv (sys_write fd buf count)"
  unfolding sys_lseek_def sys_read_def sys_write_def Let_def by (intro keeps_intros; simp)+

lemma kv_sys_open [keeps_intros]: "keeps kinv (sys_open fn fl md)" "keeps kinv (sys_creat fn md)"
  unfolding sys_creat_def sys_open_def open_undo_def Let_def
  by (intro keeps_intros; auto intro!: keeps_intros split: list.splits prod.splits)+

lemma kv_sys_close [keeps_intros]: "keeps kinv (sys_close fd)"
  unfolding sys_close_def by (intro keeps_intros)

lemma kv_open [keeps_intros]: "keeps kinv (sys_utime fn t)" "keeps kinv (sys_access fn m)" "keeps kinv (sys_chdir fn)"
  "keeps kinv (sys_chroot fn)" "keeps kinv (sys_chmod fn m)" "keeps kinv (sys_chown fn u g)" "keeps kinv sys_ustat"
  unfolding sys_utime_def sys_access_def sys_chdir_def sys_chroot_def change_dir_def sys_chmod_def sys_chown_def sys_ustat_def Let_def
  by (intro keeps_intros; (simp | auto intro!: keeps_intros split: prod.splits))+

lemma kv_fcntl [keeps_intros]: "keeps kinv (dupfd fd a)" "keeps kinv (sys_dup fd)" "keeps kinv (sys_dup2 fd fd')" "keeps kinv (sys_fcntl fd c x)"
  unfolding sys_fcntl_def sys_dup_def sys_dup2_def dupfd_def by (intro keeps_intros; auto intro!: keeps_intros split: list.splits)+

lemma kv_stat [keeps_intros]: "keeps kinv (cp_stat pad i a)" "keeps kinv (sys_stat pad fn a)" "keeps kinv (sys_fstat pad fd a)" "keeps kinv (sys_ioctl pad fd c x)"
  unfolding sys_stat_def sys_fstat_def cp_stat_def sys_ioctl_def Let_def by (intro keeps_intros)+

end
