(* ===== verification/Procs.thy ===== *)
theory Procs
  imports Files
begin

text \<open>
  Processes: \<open>kernel/sys.c\<close>, \<open>kernel/signal.c\<close>, \<open>kernel/fork.c\<close>, \<open>kernel/exit.c\<close>.

  A \<open>struct task_struct *\<close> is an address, a slot of the task table the index of \<open>task\<close>. The registers of the
  interrupted program (\<open>trap_info.regs\<close>) are the list \<open>trap_regs\<close>. Structures that \<open>mem_copy_from_kernel\<close> copies
  are given by their first byte, the only one it reads (see \<open>Paging\<close>).
\<close>

abbreviation "SIGHUP \<equiv> (1 :: int)"
abbreviation "SIGKILL \<equiv> (9 :: int)"
abbreviation "SIGCHLD \<equiv> (17 :: int)"
abbreviation "SA_NOMASK \<equiv> (0x40000000 :: u32)"
abbreviation "SA_ONESHOT \<equiv> (0x80000000 :: u32)"
abbreviation "reg_ra \<equiv> (1 :: nat)"
abbreviation "reg_sp \<equiv> (2 :: nat)"
abbreviation "reg_a0 \<equiv> (10 :: nat)"
abbreviation "STACK_PAGES \<equiv> (8 :: nat)"
abbreviation "KERNEL_STACK_SIZE \<equiv> (32768 :: ulong)"
abbreviation "TRAP_CUSTOMBACKUPSTACKSIZE \<equiv> (48 :: ulong)"

text \<open>Bound: candidates for a process id (64 tasks can refuse 64).\<close>

abbreviation "PID_FUEL \<equiv> (65 :: nat)"

definition get_slot :: "nat \<Rightarrow> ulong K" where
  "get_slot i = bindk (getk task) (\<lambda>tk. nthk tk i)"

section \<open>kernel/sys.c\<close>

definition syscall_return_value_check :: "int \<Rightarrow> int \<Rightarrow> int K" where
  "syscall_return_value_check returnvalue no = retk returnvalue"

definition sys_ftime :: "int K" where "sys_ftime = retk (- ENOSYS)"
definition sys_break :: "int K" where "sys_break = retk (- ENOSYS)"
definition sys_ptrace :: "int K" where "sys_ptrace = retk (- ENOSYS)"
definition sys_stty :: "int K" where "sys_stty = retk (- ENOSYS)"
definition sys_gtty :: "int K" where "sys_gtty = retk (- ENOSYS)"
definition sys_rename :: "int K" where "sys_rename = retk (- ENOSYS)"
definition sys_prof :: "int K" where "sys_prof = retk (- ENOSYS)"
definition sys_acct :: "int K" where "sys_acct = retk (- ENOSYS)"
definition sys_phys :: "int K" where "sys_phys = retk (- ENOSYS)"
definition sys_lock :: "int K" where "sys_lock = retk (- ENOSYS)"
definition sys_mpx :: "int K" where "sys_mpx = retk (- ENOSYS)"
definition sys_ulimit :: "int K" where "sys_ulimit = retk (- ENOSYS)"

text \<open>The third operand of the \<open>||\<close> is an assignment to \<open>sgid\<close>, true unless the stored value is 0.\<close>

definition set_egid :: "int \<Rightarrow> int K" where
  "set_egid egid = bindk (getk id) (\<lambda>s. let t = cur_task s; ok = bindk (upd_cur (\<lambda>t. t\<lparr>t_egid := word_of_int egid\<rparr>)) (\<lambda>_. retk 0) in
     if uint (t_gid t) = egid \<or> uint (t_egid t) = egid then ok
     else bindk (upd_cur (\<lambda>t. t\<lparr>t_sgid := word_of_int egid\<rparr>)) (\<lambda>_.
       if (word_of_int egid :: u16) \<noteq> 0 \<or> suser s then ok else retk (- EPERM)))"

definition sys_setregid :: "int \<Rightarrow> int \<Rightarrow> int K" where
  "sys_setregid rgid egid = bindk (getk id) (\<lambda>s.
     if rgid > 0 \<and> \<not> (uint (t_gid (cur_task s)) = rgid \<or> suser s) then retk (- EPERM) else
     bindk (whenk (rgid > 0) (upd_cur (\<lambda>t. t\<lparr>t_gid := word_of_int rgid\<rparr>))) (\<lambda>_.
     if egid > 0 then set_egid egid else retk 0))"

definition sys_setgid :: "int \<Rightarrow> int K" where "sys_setgid gid = sys_setregid gid gid"

definition sys_time :: "ulong \<Rightarrow> int K" where
  "sys_time tloc = bindk (getk (\<lambda>s. c_int (CURRENT_TIME s))) (\<lambda>i.
     bindk (whenk (tloc \<noteq> 0) (bindk (verify_area tloc 8) (\<lambda>_. put_fs_long (word_of_int i) tloc))) (\<lambda>_. retk i))"

text \<open>The second parameter is unsigned.\<close>

definition sys_setreuid :: "int \<Rightarrow> u32 \<Rightarrow> int K" where
  "sys_setreuid ruid euid = bindk (getk id) (\<lambda>s. let old_ruid = t_uid (cur_task s) in
     if ruid > 0 \<and> \<not> (uint (t_euid (cur_task s)) = ruid \<or> uint old_ruid = ruid \<or> suser s) then retk (- EPERM) else
     bindk (whenk (ruid > 0) (upd_cur (\<lambda>t. t\<lparr>t_uid := word_of_int ruid\<rparr>))) (\<lambda>_.
     if euid = 0 then retk 0
     else if uint old_ruid = uint euid \<or> uint (t_euid (cur_task s)) = uint euid \<or> suser s
       then bindk (upd_cur (\<lambda>t. t\<lparr>t_euid := ucast euid\<rparr>)) (\<lambda>_. retk 0)
     else bindk (upd_cur (\<lambda>t. t\<lparr>t_uid := old_ruid\<rparr>)) (\<lambda>_. retk (- EPERM))))"

definition sys_setuid :: "int \<Rightarrow> int K" where "sys_setuid uid = sys_setreuid uid (word_of_int uid)"

definition sys_stime :: "ulong \<Rightarrow> int K" where
  "sys_stime tptr = bindk (getk suser) (\<lambda>su. if \<not> su then retk (- EPERM) else
     bindk (get_fs_long tptr) (\<lambda>t. bindk (modk (\<lambda>s. s\<lparr>startup_time := uint t - c_div (jiffies s) HZ\<rparr>)) (\<lambda>_. retk 0)))"

definition sys_times :: "ulong \<Rightarrow> int K" where
  "sys_times tbuf = bindk (whenk (tbuf \<noteq> 0) (bindk (verify_area tbuf 32) (\<lambda>_. bindk (getk cur_task) (\<lambda>t.
     mem_copy_from_kernel (word_of_int (t_utime t)) tbuf 32)))) (\<lambda>_. getk jiffies)"

definition sys_brk :: "ulong \<Rightarrow> int K" where
  "sys_brk end_data_seg = bindk (getk cur_task) (\<lambda>t.
     bindk (whenk (t_end_code t \<le> end_data_seg \<and> end_data_seg < t_start_stack t - 16384) (upd_cur (\<lambda>t. t\<lparr>t_brk := end_data_seg\<rparr>))) (\<lambda>_.
     getk (\<lambda>s. sint (t_brk (cur_task s)))))"

text \<open>The first slot whose task has the process id \<open>pid\<close>.\<close>

definition find_pid :: "kstate \<Rightarrow> int \<Rightarrow> nat option" where
  "find_pid s pid = List.find (\<lambda>i. i < length (task s) \<and> task s ! i \<noteq> 0 \<and> t_pid (tasks s (task s ! i)) = pid) [0..<NR_TASKS]"

definition sys_setpgid :: "int \<Rightarrow> int \<Rightarrow> int K" where
  "sys_setpgid pid pgid = bindk (getk id) (\<lambda>s. let c = cur_task s; pid = (if pid = 0 then c_int (t_pid c) else pid);
       pgid = (if pgid = 0 then c_int (t_pid c) else pgid) in
     case find_pid s pid of None \<Rightarrow> retk (- ESRCH) | Some i \<Rightarrow>
       let p = task s ! i; t = tasks s p in
       if t_leader t \<noteq> 0 \<or> t_session t \<noteq> t_session c then retk (- EPERM)
       else bindk (upd_task p (\<lambda>t. t\<lparr>t_pgrp := pgid\<rparr>)) (\<lambda>_. retk 0))"

definition sys_getpgrp :: "int K" where "sys_getpgrp = getk (\<lambda>s. t_pgrp (cur_task s))"

definition sys_setsid :: "int K" where
  "sys_setsid = bindk (getk id) (\<lambda>s. if t_leader (cur_task s) \<noteq> 0 \<and> \<not> suser s then retk (- EPERM) else
     bindk (upd_cur (\<lambda>t. t\<lparr>t_leader := 1, t_pgrp := t_pid t, t_session := t_pid t, t_tty := - 1\<rparr>)) (\<lambda>_. sys_getpgrp))"

text \<open>\<open>thisname\<close> begins with the letter \<open>l\<close>; the structure has 45 bytes.\<close>

definition sys_uname :: "ulong \<Rightarrow> int K" where
  "sys_uname name = (if name = 0 then retk (- ERROR) else
     bindk (verify_area name 45) (\<lambda>_. bindk (mem_copy_from_kernel 108 name 45) (\<lambda>_. retk 0)))"

definition sys_umask :: "u32 \<Rightarrow> int K" where
  "sys_umask msk = bindk (getk (\<lambda>s. uint (t_umask (cur_task s)))) (\<lambda>old.
     bindk (upd_cur (\<lambda>t. t\<lparr>t_umask := ucast (msk AND 0x1FF)\<rparr>)) (\<lambda>_. retk old))"

definition sys_debug :: "ulong \<Rightarrow> int K" where "sys_debug p = retk 0"

section \<open>kernel/fork.c\<close>

definition copy_mem :: "ulong \<Rightarrow> int K" where
  "copy_mem p = bindk (upd_task p (\<lambda>t. t\<lparr>t_start_code := USER_START_ADDR\<rparr>)) (\<lambda>_. bindk (get_task p) (\<lambda>t.
     bindk (copy_page_tables (t_data_base t) USER_START_ADDR (t_page_dir t) (t_data_limit t div 4096)) (\<lambda>r.
     if r \<noteq> 0 then bindk (free_page_tables USER_START_ADDR (t_data_limit t)) (\<lambda>_. retk (- ENOMEM)) else retk 0)))"

text \<open>The child's task structure, as the assignments after \<open>*p = *current\<close> leave it.\<close>

definition child_task :: "kstate \<Rightarrow> task_struct" where
  "child_task s = (let c = cur_task s in c\<lparr>t_state := TASK_UNINTERRUPTIBLE, t_pid := last_pid s, t_father := t_pid c, t_counter := t_priority c,
     t_signal := 0, t_alarm := 0, t_leader := 0, t_utime := 0, t_stime := 0, t_cutime := 0, t_cstime := 0, t_start_time := jiffies s\<rparr>)"

text \<open>The child's kernel stack below its top \<open>sp + 512\<close>: the registers of the parent with 0 in \<open>a0\<close> and the
  return address \<open>fork_process_exit\<close>, an entry of the assembly part that is the argument \<open>fork_exit\<close>.\<close>

definition child_stack :: "ulong \<Rightarrow> ulong \<Rightarrow> unit K" where
  "child_stack fork_exit sp = bindk (modk (\<lambda>s. store_bytes sp (concat (map le64 (trap_regs s))) s)) (\<lambda>_.
     bindk (modk (\<lambda>s. store_bytes (sp + 256) (concat (map le64 (trap_fregs s))) s)) (\<lambda>_.
     bindk (modk (\<lambda>s. s\<lparr>pmem := write64 (pmem s) (sp + 8 * word_of_nat reg_a0) 0\<rparr>)) (\<lambda>_.
     bindk (modk (\<lambda>s. s\<lparr>pmem := write64 (pmem s) (sp + 8 * word_of_nat reg_ra) fork_exit\<rparr>)) (\<lambda>_.
     bindk (getk trap_regs) (\<lambda>rs. bindk (nthk rs reg_ra) (\<lambda>ra.
     modk (\<lambda>s. s\<lparr>pmem := write64 (pmem s) (sp - 8) ra\<rparr>)))))))"

text \<open>One more user of every open file and directory of the parent.\<close>

definition share_files :: "ulong \<Rightarrow> unit K" where
  "share_files p = bindk (get_task p) (\<lambda>t. bindk (eachk (\<lambda>i. bindk (nthk (t_filp t) i) (\<lambda>f. case f of None \<Rightarrow> retk () | Some x \<Rightarrow>
       upd_file x (\<lambda>f. f\<lparr>f_count := f_count f + 1\<rparr>))) [0..<NR_OPEN]) (\<lambda>_. bindk (getk cur_task) (\<lambda>c.
     eachk (\<lambda>d. case d of None \<Rightarrow> retk () | Some i \<Rightarrow> upd_inode i (\<lambda>n. n\<lparr>i_count := i_count n + 1\<rparr>))
       [t_pwd c, t_root c, t_executable c])))"

definition set_slot :: "nat \<Rightarrow> ulong \<Rightarrow> unit K" where
  "set_slot i p = modk (\<lambda>s. s\<lparr>task := (task s)[i := p]\<rparr>)"

definition copy_process :: "ulong \<Rightarrow> nat \<Rightarrow> int K" where
  "copy_process fork_exit nr = bindk (get_free_pages 5) (\<lambda>p. if p = 0 then retk (- EAGAIN) else
     bindk (set_slot nr p) (\<lambda>_. bindk (modk (\<lambda>s. s\<lparr>tasks := (tasks s)(p := child_task s)\<rparr>)) (\<lambda>_.
     bindk (get_free_pages STACK_PAGES) (\<lambda>k.
     bindk (modk (\<lambda>s. s\<lparr>kernel_stack := (kernel_stack s)[nr := k], kernel_stackbottom := (kernel_stackbottom s)[nr := k]\<rparr>)) (\<lambda>_.
     if k = 0 then bindk (free_pages p 5) (\<lambda>_. retk (- EAGAIN)) else
     bindk (modk (\<lambda>s. s\<lparr>kernel_stack := (kernel_stack s)[nr := k + KERNEL_STACK_SIZE]\<rparr>)) (\<lambda>_.
     bindk (getk trap_epc) (\<lambda>epc. let sp = k + KERNEL_STACK_SIZE - 512 in
     bindk (upd_task p (\<lambda>t. t\<lparr>t_tss_sp := sp, t_tss_epc := epc + 4\<rparr>)) (\<lambda>_.
     bindk (child_stack fork_exit sp) (\<lambda>_.
     bindk (upd_task p (\<lambda>t. t\<lparr>t_page_dir := p + 4096\<rparr>)) (\<lambda>_.
     bindk (pte_common_init (p + 4096) 2048) (\<lambda>_.
     bindk (copy_mem p) (\<lambda>r. if r \<noteq> 0 then
       bindk (set_slot nr 0) (\<lambda>_. bindk (free_pages k STACK_PAGES) (\<lambda>_. bindk (free_pages p 5) (\<lambda>_. retk (- EAGAIN)))) else
     bindk (share_files p) (\<lambda>_. bindk (set_state p TASK_RUNNING) (\<lambda>_. getk last_pid))))))))))))))"

text \<open>\<open>last_pid\<close> is an \<open>int\<close>; its increment at the top of the range gives a negative value, which restarts at 1.\<close>

definition next_pid :: "int \<Rightarrow> int" where
  "next_pid n = (if c_int (n + 1) < 0 then 1 else c_int (n + 1))"

definition pid_round :: "unit \<Rightarrow> (unit + unit) K" where
  "pid_round u = bindk (modk (\<lambda>s. s\<lparr>last_pid := next_pid (last_pid s)\<rparr>)) (\<lambda>_. bindk (getk id) (\<lambda>s.
     retk (if find_pid s (last_pid s) \<noteq> None then Inl () else Inr ())))"

definition find_empty_process :: "int K" where
  "find_empty_process = bindk (loopk PID_FUEL pid_round ()) (\<lambda>_. getk (\<lambda>s.
     case List.find (\<lambda>i. i < length (task s) \<and> task s ! i = 0) [1..<NR_TASKS] of Some i \<Rightarrow> int i | None \<Rightarrow> - EAGAIN))"

section \<open>kernel/exit.c\<close>

definition release :: "ulong \<Rightarrow> unit K" where
  "release p = (if p = 0 then retk () else
     bindk (getk (\<lambda>s. List.find (\<lambda>i. i < length (task s) \<and> task s ! i = p) [1..<NR_TASKS])) (\<lambda>r. case r of
       None \<Rightarrow> panick ''trying to release non-existent task''
     | Some i \<Rightarrow> bindk (set_slot i 0) (\<lambda>_. bindk (free_pages p 5) (\<lambda>_.
         bindk (getk kernel_stackbottom) (\<lambda>ks. bindk (nthk ks i) (\<lambda>k. bindk (free_pages k STACK_PAGES) (\<lambda>_.
         bindk (modk (\<lambda>s. s\<lparr>kernel_stack := (kernel_stack s)[i := 0], kernel_stackbottom := (kernel_stackbottom s)[i := 0]\<rparr>)) (\<lambda>_.
         bindk schedule (\<lambda>_. retk ())))))))))"

text \<open>\<open>1 << (sig - 1)\<close> is an \<open>int\<close>, extended to 64 bits with its sign.\<close>

definition sig_bit :: "int \<Rightarrow> ulong" where
  "sig_bit sig = word_of_int (c_int (2 ^ nat (sig - 1)))"

definition send_sig :: "int \<Rightarrow> ulong \<Rightarrow> bool \<Rightarrow> int K" where
  "send_sig sig p priv = (if p = 0 \<or> sig < 1 \<or> sig > 32 then retk (- EINVAL) else
     bindk (getk id) (\<lambda>s. if priv \<or> t_euid (cur_task s) = t_euid (tasks s p) \<or> suser s
       then bindk (upd_task p (\<lambda>t. t\<lparr>t_signal := t_signal t OR sig_bit sig\<rparr>)) (\<lambda>_. retk 0) else retk (- EPERM)))"

text \<open>The slots \<open>while(--p > &FIRST_TASK)\<close> visits.\<close>

abbreviation "DOWN_SLOTS \<equiv> rev [1..<NR_TASKS]"

definition kill_session :: "unit K" where
  "kill_session = eachk (\<lambda>i. bindk (get_slot i) (\<lambda>p. if p = 0 then retk () else bindk (get_task p) (\<lambda>t. bindk (getk cur_task) (\<lambda>c.
     whenk (t_session t = t_session c) (upd_task p (\<lambda>t. t\<lparr>t_signal := t_signal t OR sig_bit SIGHUP\<rparr>)))))) DOWN_SLOTS"

text \<open>Which tasks \<open>sys_kill\<close> addresses; for \<open>-1\<close> the empty slots are not skipped.\<close>

definition kill_target :: "int \<Rightarrow> kstate \<Rightarrow> ulong \<Rightarrow> bool" where
  "kill_target pid s p = (if pid = 0 then p \<noteq> 0 \<and> t_pgrp (tasks s p) = t_pid (cur_task s)
     else if pid > 0 then p \<noteq> 0 \<and> t_pid (tasks s p) = pid
     else if pid = - 1 then True
     else p \<noteq> 0 \<and> t_pgrp (tasks s p) = - pid)"

fun kill_scan :: "int \<Rightarrow> int \<Rightarrow> int \<Rightarrow> nat list \<Rightarrow> int K" where
  "kill_scan pid sig retval [] = retk retval"
| "kill_scan pid sig retval (i # xs) = bindk (get_slot i) (\<lambda>p. bindk (getk (\<lambda>s. kill_target pid s p)) (\<lambda>tg.
     if \<not> tg then kill_scan pid sig retval xs else
     bindk (send_sig sig p (pid = 0)) (\<lambda>err. kill_scan pid sig (if err \<noteq> 0 then err else retval) xs)))"

definition sys_kill :: "int \<Rightarrow> int \<Rightarrow> int K" where
  "sys_kill pid sig = kill_scan pid sig 0 DOWN_SLOTS"

definition tell_father :: "int \<Rightarrow> unit K" where
  "tell_father pid = bindk (getk id) (\<lambda>s. case if pid = 0 then None else find_pid s pid of
       Some i \<Rightarrow> upd_task (task s ! i) (\<lambda>t. t\<lparr>t_signal := t_signal t OR sig_bit SIGCHLD\<rparr>)
     | None \<Rightarrow> release (current s))"

text \<open>The children of the current process are given to process 1.\<close>

definition orphan :: "nat \<Rightarrow> unit K" where
  "orphan i = bindk (get_slot i) (\<lambda>p. if p = 0 then retk () else bindk (get_task p) (\<lambda>t. bindk (getk cur_task) (\<lambda>c.
     whenk (t_father t = t_pid c) (bindk (upd_task p (\<lambda>t. t\<lparr>t_father := 1\<rparr>)) (\<lambda>_.
       whenk (t_state t = TASK_ZOMBIE) (bindk (get_slot 1) (\<lambda>q. bindk (send_sig SIGCHLD q True) (\<lambda>_. retk ()))))))))"

definition put_dirs :: "unit K" where
  "put_dirs = bindk (getk cur_task) (\<lambda>c. bindk (iput (t_pwd c)) (\<lambda>_. bindk (upd_cur (\<lambda>t. t\<lparr>t_pwd := None\<rparr>)) (\<lambda>_.
     bindk (getk cur_task) (\<lambda>c. bindk (iput (t_root c)) (\<lambda>_. bindk (upd_cur (\<lambda>t. t\<lparr>t_root := None\<rparr>)) (\<lambda>_.
     bindk (getk cur_task) (\<lambda>c. bindk (iput (t_executable c)) (\<lambda>_. upd_cur (\<lambda>t. t\<lparr>t_executable := None\<rparr>)))))))))"

definition do_exit :: "int \<Rightarrow> unit K" where
  "do_exit code = bindk (getk cur_task) (\<lambda>c.
     bindk (whenk (t_page_dir c \<noteq> 0) (free_page_tables (t_page_dir c) 2048)) (\<lambda>_.
     bindk (eachk orphan [0..<NR_TASKS]) (\<lambda>_.
     bindk (eachk (\<lambda>i. bindk (get_filp i) (\<lambda>f. if f = None then retk () else bindk (sys_close i) (\<lambda>_. retk ()))) [0..<NR_OPEN]) (\<lambda>_.
     bindk put_dirs (\<lambda>_. bindk (getk cur_task) (\<lambda>c.
     bindk (whenk (t_leader c \<noteq> 0 \<and> t_tty c \<ge> 0) (upd_tty (nat (t_tty c)) (\<lambda>t. t\<lparr>tty_pgrp := 0\<rparr>))) (\<lambda>_.
     bindk (whenk (t_leader c \<noteq> 0) kill_session) (\<lambda>_.
     bindk (upd_cur (\<lambda>t. t\<lparr>t_state := TASK_ZOMBIE, t_exit_code := code\<rparr>)) (\<lambda>_.
     bindk (tell_father (t_father c)) (\<lambda>_. bindk schedule (\<lambda>_. retk ())))))))))))"

definition sys_exit :: "int \<Rightarrow> int K" where
  "sys_exit error_code = bindk (do_exit (push_bit 8 (error_code AND 0xFF))) (\<lambda>_. retk (- 1))"

text \<open>Does \<open>sys_waitpid(pid)\<close> wait for the task at \<open>p\<close>?\<close>

definition wait_target :: "int \<Rightarrow> kstate \<Rightarrow> ulong \<Rightarrow> bool" where
  "wait_target pid s p \<longleftrightarrow> p \<noteq> 0 \<and> p \<noteq> current s \<and> t_father (tasks s p) = t_pid (cur_task s) \<and>
     (pid > 0 \<longrightarrow> t_pid (tasks s p) = pid) \<and> (pid = 0 \<longrightarrow> t_pgrp (tasks s p) = t_pgrp (cur_task s)) \<and>
     (pid < - 1 \<longrightarrow> t_pgrp (tasks s p) = - pid)"

text \<open>One pass over the slots: \<open>Inr\<close> a result to return, \<open>Inl\<close> whether there is a child to wait for.\<close>

fun wait_scan :: "int \<Rightarrow> ulong \<Rightarrow> int \<Rightarrow> bool \<Rightarrow> nat list \<Rightarrow> (bool + int) K" where
  "wait_scan pid stat_addr options flag [] = retk (Inl flag)"
| "wait_scan pid stat_addr options flag (i # xs) = bindk (get_slot i) (\<lambda>p. bindk (getk (\<lambda>s. wait_target pid s p)) (\<lambda>tg.
     if \<not> tg then wait_scan pid stat_addr options flag xs else bindk (get_task p) (\<lambda>t.
     if t_state t = TASK_STOPPED then
       (if options AND 2 = 0 then wait_scan pid stat_addr options flag xs
        else bindk (put_fs_long 0x7F stat_addr) (\<lambda>_. retk (Inr (t_pid t))))
     else if t_state t = TASK_ZOMBIE then
       bindk (upd_cur (\<lambda>c. c\<lparr>t_cutime := t_cutime c + t_utime t, t_cstime := t_cstime c + t_stime t\<rparr>)) (\<lambda>_.
       bindk (release p) (\<lambda>_. bindk (put_fs_long (word_of_int (t_exit_code t)) stat_addr) (\<lambda>_. retk (Inr (t_pid t)))))
     else wait_scan pid stat_addr options True xs)))"

definition sys_waitpid :: "int \<Rightarrow> ulong \<Rightarrow> int \<Rightarrow> int K" where
  "sys_waitpid pid stat_addr options = bindk (verify_area stat_addr 4) (\<lambda>_. loopk WAIT_FUEL (\<lambda>_.
     bindk (wait_scan pid stat_addr options False DOWN_SLOTS) (\<lambda>r. case r of Inr v \<Rightarrow> retk (Inr v) | Inl flag \<Rightarrow>
     if \<not> flag then retk (Inr (- ECHILD))
     else if options AND 1 \<noteq> 0 then retk (Inr 0)
     else bindk (upd_cur (\<lambda>t. t\<lparr>t_state := TASK_INTERRUPTIBLE\<rparr>)) (\<lambda>_. bindk schedule (\<lambda>_.
       bindk (upd_cur (\<lambda>t. t\<lparr>t_signal := t_signal t AND NOT 0x1FFFF\<rparr>)) (\<lambda>_. bindk (getk cur_task) (\<lambda>c.
       retk (if t_signal c = 0 then Inl () else Inr (- EINTR)))))))) ())"

section \<open>kernel/signal.c\<close>

definition sys_sgetmask :: "int K" where "sys_sgetmask = getk (\<lambda>s. to_int32 (t_blocked (cur_task s)))"

definition sys_ssetmask :: "int \<Rightarrow> int K" where
  "sys_ssetmask newmask = bindk sys_sgetmask (\<lambda>old.
     bindk (upd_cur (\<lambda>t. t\<lparr>t_blocked := word_of_int newmask AND NOT (push_bit 8 1)\<rparr>)) (\<lambda>_. retk old))"

definition upd_sigaction :: "int \<Rightarrow> (sigaction \<Rightarrow> sigaction) \<Rightarrow> unit K" where
  "upd_sigaction signum f = upd_cur (\<lambda>t. t\<lparr>t_sigaction := (t_sigaction t)[nat (signum - 1) := f (t_sigaction t ! nat (signum - 1))]\<rparr>)"

definition get_sigaction :: "int \<Rightarrow> sigaction K" where
  "get_sigaction signum = bindk (getk cur_task) (\<lambda>t. if signum < 1 then faultk else nthk (t_sigaction t) (nat (signum - 1)))"

text \<open>\<open>struct sigaction\<close> begins with the handler and has 24 bytes.\<close>

definition save_old :: "sigaction \<Rightarrow> ulong \<Rightarrow> unit K" where
  "save_old from to = bindk (verify_area to 24) (\<lambda>_. mem_copy_from_kernel (ucast (sa_handler from)) to 24)"

definition get_new :: "ulong \<Rightarrow> int \<Rightarrow> unit K" where
  "get_new from signum = bindk (mem_copy_to_kernel from 24) (\<lambda>v. case v of None \<Rightarrow> retk () | Some b \<Rightarrow>
     upd_sigaction signum (\<lambda>a. a\<lparr>sa_handler := (sa_handler a AND NOT 0xFF) OR ucast b\<rparr>))"

definition sys_signal :: "int \<Rightarrow> ulong \<Rightarrow> ulong \<Rightarrow> int K" where
  "sys_signal signum handler restorer = (if signum < 1 \<or> signum > 32 \<or> signum = SIGKILL then retk (- 1) else
     bindk (get_sigaction signum) (\<lambda>old. bindk (upd_sigaction signum (\<lambda>_. \<lparr>sa_handler = handler, sa_mask = 0,
       sa_flags = SA_ONESHOT OR SA_NOMASK, sa_restorer = restorer\<rparr>)) (\<lambda>_. retk (sint (sa_handler old)))))"

definition sys_sigaction :: "int \<Rightarrow> ulong \<Rightarrow> ulong \<Rightarrow> int K" where
  "sys_sigaction signum action oldaction = (if signum < 1 \<or> signum > 32 \<or> signum = SIGKILL then retk (- 1) else
     bindk (get_sigaction signum) (\<lambda>tmp. bindk (get_new action signum) (\<lambda>_.
     bindk (whenk (oldaction \<noteq> 0) (save_old tmp oldaction)) (\<lambda>_.
     bindk (upd_sigaction signum (\<lambda>a. if sa_flags a AND SA_NOMASK \<noteq> 0 then a\<lparr>sa_mask := 0\<rparr>
       else a\<lparr>sa_mask := sa_mask a OR push_bit (nat (signum - 1)) 1\<rparr>)) (\<lambda>_. retk 0)))))"

text \<open>The frame a signal handler runs on: 32 registers, 32 floating point registers, the program counter and
  the signal mask, 66 words, each copied by \<open>mem_copy_from_kernel\<close>.\<close>

definition save_frame :: "ulong \<Rightarrow> bool \<Rightarrow> unit K" where
  "save_frame stack withmask = bindk (verify_area stack 528) (\<lambda>_. bindk (getk id) (\<lambda>s.
     bindk (nthk (trap_regs s) 0) (\<lambda>r0. bindk (nthk (trap_fregs s) 0) (\<lambda>f0.
     bindk (mem_copy_from_kernel (ucast r0) stack 256) (\<lambda>_. bindk (mem_copy_from_kernel (ucast f0) (stack + 256) 256) (\<lambda>_.
     bindk (mem_copy_from_kernel (ucast (trap_epc s)) (stack + 512) 8) (\<lambda>_.
     whenk withmask (mem_copy_from_kernel (ucast (t_blocked (cur_task s))) (stack + 520) 8))))))))"

definition do_signal :: "int \<Rightarrow> unit K" where
  "do_signal signr = bindk (get_sigaction signr) (\<lambda>sa. let h = sa_handler sa in
     if h = 1 then retk ()
     else if h = 0 \<and> signr = SIGCHLD then retk ()
     else bindk (whenk (h = 0) (do_exit (c_int (2 ^ nat (signr - 1))))) (\<lambda>_.
     bindk (whenk (sa_flags sa AND SA_ONESHOT \<noteq> 0) (upd_sigaction signr (\<lambda>a. a\<lparr>sa_handler := 0\<rparr>))) (\<lambda>_.
     bindk (getk trap_regs) (\<lambda>rs. bindk (nthk rs reg_sp) (\<lambda>sp.
     bindk (save_frame (sp - TRAP_CUSTOMBACKUPSTACKSIZE) (sa_flags sa AND SA_NOMASK = 0)) (\<lambda>_.
     bindk (modk (\<lambda>s. s\<lparr>trap_regs := (trap_regs s)[reg_ra := sa_restorer sa, reg_sp := sp - 528, reg_a0 := word_of_int signr], trap_newepc := h\<rparr>)) (\<lambda>_.
     upd_cur (\<lambda>t. t\<lparr>t_blocked := t_blocked t OR ucast (sa_mask sa)\<rparr>))))))))"

section \<open>Processes keep the file system tables well-formed\<close>

lemma kv_slots [keeps_intros]: "keeps kinv (get_slot i)" "keeps kinv (set_slot i p)"
  unfolding get_slot_def set_slot_def by (intro keeps_intros kv_modk; simp)+

lemma kv_sys [keeps_intros]: "keeps kinv (sys_setregid a b)" "keeps kinv (sys_setgid a)" "keeps kinv (sys_time p)" "keeps kinv (sys_setreuid a c)"
    "keeps kinv (sys_setuid a)" "keeps kinv (sys_stime p)" "keeps kinv (sys_times p)" "keeps kinv (sys_brk p)" "keeps kinv (sys_setpgid a b)"
    "keeps kinv sys_getpgrp" "keeps kinv sys_setsid" "keeps kinv (sys_uname p)" "keeps kinv (sys_umask c)" "keeps kinv (sys_debug p)"
  unfolding sys_setregid_def sys_setgid_def set_egid_def sys_time_def sys_setreuid_def sys_setuid_def sys_stime_def sys_times_def sys_brk_def
    sys_setpgid_def sys_getpgrp_def sys_setsid_def sys_uname_def sys_umask_def sys_debug_def Let_def
  by (intro keeps_intros kv_modk; simp)+

lemma kv_free_pages [keeps_intros]: "keeps kinv (free_pages a n)"
  by (induction n arbitrary: a) (auto intro!: keeps_intros)

lemma kv_get_free_pages [keeps_intros]: "keeps kinv (get_free_pages n)"
  by (auto simp: keeps_def get_free_pages_def Let_def split: option.splits intro: kinv_other [rotated 6])

lemma kv_fork [keeps_intros]: "keeps kinv (copy_mem p)" "keeps kinv (child_stack fe sp)" "keeps kinv (share_files p)" "keeps kinv find_empty_process"
  unfolding copy_mem_def child_stack_def share_files_def find_empty_process_def pid_round_def store_bytes_def
  by (intro keeps_intros kv_modk; (simp | auto intro!: keeps_intros split: option.splits))+

lemma kv_copy_process [keeps_intros]: "keeps kinv (copy_process fe nr)"
  unfolding copy_process_def Let_def by (intro keeps_intros kv_modk; simp)

lemma kv_release [keeps_intros]: "keeps kinv (release p)" "keeps kinv (send_sig sig p priv)"
  unfolding release_def send_sig_def by (intro keeps_intros kv_modk; simp)+

lemma kv_kill_scan: "keeps kinv (kill_scan pid sig r xs)"
  by (induction xs arbitrary: r) (auto intro!: keeps_intros)

lemma kv_exit [keeps_intros]: "keeps kinv kill_session" "keeps kinv (sys_kill pid sig)" "keeps kinv (tell_father n)" "keeps kinv (orphan i)"
    "keeps kinv put_dirs"
  unfolding kill_session_def sys_kill_def tell_father_def orphan_def put_dirs_def
  by (intro keeps_intros kv_kill_scan)+

lemma kv_do_exit [keeps_intros]: "keeps kinv (do_exit code)" "keeps kinv (sys_exit n)"
  unfolding do_exit_def sys_exit_def by (intro keeps_intros)+

lemma kv_wait_scan: "keeps kinv (wait_scan pid a opts flag xs)"
  by (induction xs arbitrary: flag) (auto intro!: keeps_intros)

lemma kv_sys_waitpid [keeps_intros]: "keeps kinv (sys_waitpid pid a opts)"
  unfolding sys_waitpid_def by (intro keeps_intros kv_wait_scan)

lemma kv_signal [keeps_intros]: "keeps kinv (upd_sigaction n f)" "keeps kinv (get_sigaction n)" "keeps kinv sys_sgetmask" "keeps kinv (sys_ssetmask n)"
    "keeps kinv (sys_signal n h r)" "keeps kinv (sys_sigaction n a oa)" "keeps kinv (do_signal n)"
  unfolding sys_sgetmask_def sys_ssetmask_def sys_signal_def sys_sigaction_def do_signal_def save_frame_def save_old_def get_new_def upd_sigaction_def
    get_sigaction_def Let_def
  by (intro keeps_intros kv_modk; simp)+

end
