(* ===== verification/Fork_Space.thy ===== *)
theory Fork_Space
  imports Paging_Props Procs
begin

text \<open>
  The address space of a forked process. Physical memory is seen as frames of 512 words
  (\<open>slot m k j\<close> is word \<open>j\<close> of frame \<open>k\<close>); \<open>copy_entry\<close>, \<open>copy_table\<close> and \<open>copy_tables\<close> are described
  by their effect on the words of the frames and on the reference counts, up to \<open>copy_page_tables\<close>: the
  child's directory translates what the parent's translates, to the same pages, write-protected on both
  sides.
\<close>

section \<open>Memory as frames of words\<close>

definition slot :: "(ulong \<Rightarrow> u8) \<Rightarrow> nat \<Rightarrow> nat \<Rightarrow> ulong" where
  "slot m k j = read64 m (page_addr k + 8 * word_of_nat j)"

lemma unat_idx: "j < 512 \<Longrightarrow> unat (word_of_nat j :: ulong) = j"
  by (simp add: unsigned_of_nat take_bit_nat_eq_self)

lemma slot_write64:
  assumes "k < PAGING_PAGES" "l < PAGING_PAGES" "i < 512" "j < 512"
  shows "slot (write64 m (page_addr k + 8 * word_of_nat i) x) l j = (if l = k \<and> j = i then x else slot m l j)"
proof (cases "l = k \<and> j = i")
  case False
  have ui: "unat (word_of_nat i :: ulong) < 512" "unat (word_of_nat j :: ulong) < 512" using assms by (simp_all add: unat_idx)
  show ?thesis
  proof (cases "k = l")
    case True
    let ?a = "page_addr k + 8 * word_of_nat i" and ?b = "page_addr k + 8 * word_of_nat j"
    have u: "unat ?a = 0x80100000 + 4096 * k + 8 * i" "unat ?b = 0x80100000 + 4096 * k + 8 * j"
      using unat_slot [OF assms(1) ui(1)] unat_slot [OF assms(1) ui(2)] assms by (simp_all add: unat_idx)
    moreover from False True have "i < j \<or> j < i" by linarith
    ultimately have "unat ?a + 8 \<le> unat ?b \<or> unat ?b + 8 \<le> unat ?a" by linarith
    from words_apart [OF this] u assms have "8 \<le> ?b - ?a" "?b - ?a \<le> - 8" by simp_all
    then show ?thesis using True False by (auto simp: slot_def read64_write64_other)
  next
    case kl: False
    then show ?thesis using slots_apart [OF assms(1,2) kl ui] by (simp add: slot_def)
  qed
qed (simp add: slot_def)

lemma slot_memset:
  assumes "k < PAGING_PAGES" "l < PAGING_PAGES" "j < 512"
  shows "slot (memset0 (page_addr k) 4096 m) l j = (if l = k then 0 else slot m l j)"
proof (cases "l = k")
  case True
  have "page_addr k + 8 * word_of_nat j + word_of_nat i - page_addr k < 4096" if "i < 8" for i
  proof -
    have "page_addr k + 8 * word_of_nat j + word_of_nat i - page_addr k = (word_of_nat (8 * j + i) :: ulong)" by simp
    moreover have "unat (word_of_nat (8 * j + i) :: ulong) = 8 * j + i"
      using that assms(3) by (simp only: unsigned_of_nat) (simp add: take_bit_nat_eq_self)
    moreover have "unat (4096 :: ulong) = 4096" by simp
    moreover have "8 * j + i < 4096" using that assms(3) by linarith
    ultimately show ?thesis by (simp only: word_less_nat_alt)
  qed
  then have "slot (memset0 (page_addr k) 4096 m) l j = read64 (\<lambda>_. 0) (page_addr k + 8 * word_of_nat j)"
    unfolding slot_def True by (intro read64_cong) (simp add: memset0_def)
  then show ?thesis using True by (simp add: read64_zero)
next
  case False
  then show ?thesis using slot_memset0 [of k l "word_of_nat j" m] assms by (simp add: slot_def unat_idx)
qed

lemma get_slot: "get_pte (page_addr k + 8 * word_of_nat j) s = Ok (slot (pmem s) k j) s"
  by (simp add: get_pte_def getk_def slot_def)

section \<open>One page\<close>

text \<open>The entry both processes get, and the page it maps.\<close>

definition shared_entry :: "ulong \<Rightarrow> ulong" where
  "shared_entry w = pte_common_set_accessibility pte_accessibility_readexecute w"

definition maps_page :: "ulong \<Rightarrow> nat \<Rightarrow> bool" where
  "maps_page w p \<longleftrightarrow> pte_v w \<and> pte_common_ppn_to_addr w > LOW_MEM \<and> pte_common_ppn_to_addr w = page_addr p"

definition entry_ok :: "ulong \<Rightarrow> bool" where
  "entry_ok w \<longleftrightarrow> (pte_v w \<longrightarrow> pte_common_ppn_to_addr w \<le> LOW_MEM \<or> (\<exists>p < PAGING_PAGES. pte_common_ppn_to_addr w = page_addr p))"

lemma shared_entry_fields [simp]:
  "pte_v (shared_entry w) = pte_v w" "pte_common_ppn_to_addr (shared_entry w) = pte_common_ppn_to_addr w"
  "\<not> pte_w (shared_entry w)" "pte_r (shared_entry w)" "pte_x (shared_entry w)" "pte_u (shared_entry w) = pte_u w"
  using pte_accessibility_flags [of pte_accessibility_readexecute w] by (simp_all add: shared_entry_def bit_numeral_rec bit_0)

lemma page_addr_inj:
  assumes "page_addr p = page_addr q" "p < PAGING_PAGES" "q < PAGING_PAGES"
  shows "p = q"
proof -
  have "p * 4096 + 0x80100000 = q * 4096 + 0x80100000"
    using unat_page_addr [OF assms(2)] unat_page_addr [OF assms(3)] unfolding assms(1) by (rule trans [OF sym])
  then show ?thesis by simp
qed

text \<open>The number of entries among \<open>J\<close> of frame \<open>k\<close> that map page \<open>p\<close>.\<close>

definition users :: "(ulong \<Rightarrow> u8) \<Rightarrow> nat \<Rightarrow> nat set \<Rightarrow> nat \<Rightarrow> nat" where
  "users m k J p = card {j \<in> J. maps_page (slot m k j) p}"

lemma users_simps [simp]:
  "users m k {} p = 0" "users m k {j} p = (if maps_page (slot m k j) p then 1 else 0)"
proof -
  have "{i. i = j \<and> maps_page (slot m k i) p} = (if maps_page (slot m k j) p then {j} else {})" by auto
  then show "users m k {} p = 0" "users m k {j} p = (if maps_page (slot m k j) p then 1 else 0)" by (simp_all add: users_def)
qed

lemma users_insert: "finite J \<Longrightarrow> j \<notin> J \<Longrightarrow> users m k (insert j J) p = users m k J p + users m k {j} p"
proof -
  assume J: "finite J" "j \<notin> J"
  have "{i \<in> insert j J. maps_page (slot m k i) p} = {i \<in> J. maps_page (slot m k i) p} \<union> {i \<in> {j}. maps_page (slot m k i) p}" by auto
  then show ?thesis using J unfolding users_def by (subst card_Un_disjoint [symmetric]) auto
qed

text \<open>The effect of copying the entries \<open>J\<close> of frame \<open>k\<close> to frame \<open>c\<close>, on the words and on the counts.\<close>

definition child_word :: "ulong \<Rightarrow> ulong \<Rightarrow> ulong" where
  "child_word w v = (if pte_v w then shared_entry w else v)"

definition parent_word :: "ulong \<Rightarrow> ulong" where
  "parent_word w = (if pte_v w \<and> pte_common_ppn_to_addr w > LOW_MEM then shared_entry w else w)"

definition copied :: "nat \<Rightarrow> nat \<Rightarrow> nat set \<Rightarrow> kstate \<Rightarrow> kstate \<Rightarrow> bool" where
  "copied k c J s t \<longleftrightarrow> t = s\<lparr>pmem := pmem t, mem_map := mem_map t\<rparr> \<and> length (mem_map t) = length (mem_map s) \<and>
     (\<forall>l < PAGING_PAGES. \<forall>j < 512. slot (pmem t) l j =
        (if l = c \<and> j \<in> J then child_word (slot (pmem s) k j) (slot (pmem s) c j)
         else if l = k \<and> j \<in> J then parent_word (slot (pmem s) k j) else slot (pmem s) l j)) \<and>
     (\<forall>p < PAGING_PAGES. mem_map t ! p = mem_map s ! p + word_of_nat (users (pmem s) k J p))"

lemma mem_only_trans:
  assumes t: "t = s\<lparr>pmem := pmem t, mem_map := mem_map t\<rparr>" and u: "u = t\<lparr>pmem := pmem u, mem_map := mem_map u\<rparr>"
  shows "u = s\<lparr>pmem := pmem u, mem_map := mem_map u\<rparr>"
proof -
  have "t\<lparr>pmem := x, mem_map := y\<rparr> = s\<lparr>pmem := x, mem_map := y\<rparr>" for x y by (subst t) simp
  with u show ?thesis by simp
qed

lemma copied_empty: "copied k c {} s s"
  by (simp add: copied_def)

lemma copy_entry_copied:
  assumes kc: "k < PAGING_PAGES" "c < PAGING_PAGES" "k \<noteq> c" and j: "j < 512" and len: "length (mem_map s) = PAGING_PAGES"
    and ok: "entry_ok (slot (pmem s) k j)"
  shows "\<exists>t. copy_entry (page_addr k + 8 * word_of_nat j) (page_addr c + 8 * word_of_nat j) s = Ok () t \<and> copied k c {j} s t"
proof -
  let ?w = "slot (pmem s) k j" and ?fe = "page_addr k + 8 * word_of_nat j" and ?te = "page_addr c + 8 * word_of_nat j"
  note def = copy_entry_def get_slot Let_def shared_entry_def [symmetric] upd_pte_def modk_def whenk_def
  consider (invalid) "\<not> pte_v ?w" | (low) "pte_v ?w" "\<not> pte_common_ppn_to_addr ?w > LOW_MEM"
    | (page) p where "pte_v ?w" "pte_common_ppn_to_addr ?w > LOW_MEM" "p < PAGING_PAGES" "pte_common_ppn_to_addr ?w = page_addr p"
    using ok unfolding entry_ok_def not_less by force
  then show ?thesis
  proof cases
    case invalid
    then show ?thesis by (auto simp: def retk_def copied_def child_word_def parent_word_def maps_page_def)
  next
    case low
    define t where "t = s\<lparr>pmem := write64 (pmem s) ?te (shared_entry ?w)\<rparr>"
    have "copy_entry ?fe ?te s = Ok () t" using low by (simp add: def retk_def t_def)
    moreover have "copied k c {j} s t"
      using low kc j by (auto simp: copied_def t_def slot_write64 child_word_def parent_word_def maps_page_def)
    ultimately show ?thesis by blast
  next
    case page
    define t where "t = s\<lparr>pmem := write64 (write64 (pmem s) ?te (shared_entry ?w)) ?fe (shared_entry ?w),
       mem_map := (mem_map s)[p := mem_map s ! p + 1]\<rparr>"
    have "copy_entry ?fe ?te s = Ok () t" using page len by (simp add: def t_def upd_ref_def)
    moreover have "maps_page (slot (pmem s) k j) q = (q = p)" if "q < PAGING_PAGES" for q
      using page that page_addr_inj [of p q] by (auto simp: maps_page_def)
    then have "copied k c {j} s t"
      using page kc j len by (auto simp: copied_def t_def slot_write64 child_word_def parent_word_def nth_list_update)
    ultimately show ?thesis by blast
  qed
qed

lemma copied_insert:
  assumes "copied k c J s t" "copied k c {j} t u" "j \<notin> J" "finite J" "j < 512" "k < PAGING_PAGES" "c < PAGING_PAGES" "k \<noteq> c"
  shows "copied k c (insert j J) s u"
proof -
  from assms(1,3,5,6,7,8) have e: "slot (pmem t) k j = slot (pmem s) k j" "slot (pmem t) c j = slot (pmem s) c j"
    by (simp_all add: copied_def)
  show ?thesis unfolding copied_def
  proof (intro conjI allI impI)
    show "u = s\<lparr>pmem := pmem u, mem_map := mem_map u\<rparr>"
      using assms(1,2) unfolding copied_def by (blast intro: mem_only_trans)
    show "length (mem_map u) = length (mem_map s)" using assms(1,2) by (simp add: copied_def)
  next
    fix l i :: nat assume "l < PAGING_PAGES" "i < 512"
    then show "slot (pmem u) l i = (if l = c \<and> i \<in> insert j J then child_word (slot (pmem s) k i) (slot (pmem s) c i)
         else if l = k \<and> i \<in> insert j J then parent_word (slot (pmem s) k i) else slot (pmem s) l i)"
      using assms e by (auto simp: copied_def)
  next
    fix p :: nat assume "p < PAGING_PAGES"
    then show "mem_map u ! p = mem_map s ! p + word_of_nat (users (pmem s) k (insert j J) p)"
      using assms(1,2) users_insert [OF assms(4,3)] e by (simp add: copied_def)
  qed
qed


section \<open>One table\<close>

lemma copy_entries:
  assumes kc: "k < PAGING_PAGES" "c < PAGING_PAGES" "k \<noteq> c" and len: "length (mem_map s) = PAGING_PAGES"
    and ok: "\<And>j. j < 512 \<Longrightarrow> entry_ok (slot (pmem s) k j)" and n: "n \<le> 512"
  shows "\<exists>t. eachk (\<lambda>nr. copy_entry (page_addr k + 8 * word_of_nat nr) (page_addr c + 8 * word_of_nat nr)) [0..<n] s = Ok () t \<and>
    copied k c {0..<n} s t"
  using n
proof (induction n)
  case 0
  then show ?case by (simp add: retk_def copied_empty)
next
  case (Suc n)
  then obtain t where t: "eachk (\<lambda>nr. copy_entry (page_addr k + 8 * word_of_nat nr) (page_addr c + 8 * word_of_nat nr)) [0..<n] s = Ok () t"
    "copied k c {0..<n} s t" by auto
  then have len_t: "length (mem_map t) = PAGING_PAGES" and e: "slot (pmem t) k n = slot (pmem s) k n"
    using len kc Suc.prems by (simp_all add: copied_def)
  obtain u where u: "copy_entry (page_addr k + 8 * word_of_nat n) (page_addr c + 8 * word_of_nat n) t = Ok () u" "copied k c {n} t u"
    using copy_entry_copied [OF kc _ len_t, of n] e ok [of n] Suc.prems by auto
  have "copied k c (insert n {0..<n}) s u" using copied_insert [OF t(2) u(2)] kc Suc.prems by simp
  moreover have "insert n {0..<n} = {0..<Suc n}" by auto
  ultimately show ?case using t(1) u(1) by (auto simp: eachk_append retk_def)
qed


text \<open>The frame of the table behind word \<open>i\<close> of the directory in frame \<open>d\<close>, the tables of a part \<open>I\<close> of the
  directory, and how many of their entries map page \<open>p\<close>.\<close>

definition tab :: "kstate \<Rightarrow> nat \<Rightarrow> nat \<Rightarrow> nat" where
  "tab s d i = unat (MAP_NR (pte_common_ppn_to_addr (slot (pmem s) d i)))"

definition present :: "kstate \<Rightarrow> nat \<Rightarrow> nat set \<Rightarrow> nat set" where
  "present s d I = {i \<in> I. pte_v (slot (pmem s) d i)}"

definition mappings :: "kstate \<Rightarrow> nat \<Rightarrow> nat set \<Rightarrow> nat \<Rightarrow> nat" where
  "mappings s d I p = (\<Sum>i \<in> present s d I. users (pmem s) (tab s d i) {0..<512} p)"

text \<open>The directory in frame \<open>e\<close> can receive a copy of the part \<open>I\<close> of the directory in frame \<open>d\<close>: the
  directories and tables are different frames in use, no table is itself mapped, and no reference count
  will exceed its byte.\<close>

definition fork_dirs :: "kstate \<Rightarrow> nat \<Rightarrow> nat \<Rightarrow> nat set \<Rightarrow> bool" where
  "fork_dirs s d e I \<longleftrightarrow> length (mem_map s) = PAGING_PAGES \<and> I \<subseteq> {0..<512} \<and> d < PAGING_PAGES \<and> e < PAGING_PAGES \<and> d \<noteq> e \<and>
     mem_map s ! d \<noteq> 0 \<and> mem_map s ! e \<noteq> 0 \<and> (\<forall>i \<in> I. \<not> pte_v (slot (pmem s) e i)) \<and> inj_on (tab s d) (present s d I)"

definition fork_table :: "kstate \<Rightarrow> nat \<Rightarrow> nat \<Rightarrow> nat \<Rightarrow> bool" where
  "fork_table s d e i \<longleftrightarrow> tab s d i < PAGING_PAGES \<and> pte_common_ppn_to_addr (slot (pmem s) d i) = page_addr (tab s d i) \<and>
     tab s d i \<noteq> d \<and> tab s d i \<noteq> e \<and> mem_map s ! tab s d i \<noteq> 0 \<and> (\<forall>j < 512. entry_ok (slot (pmem s) (tab s d i) j))"

definition fork_count :: "kstate \<Rightarrow> nat \<Rightarrow> nat \<Rightarrow> nat set \<Rightarrow> nat \<Rightarrow> bool" where
  "fork_count s d e I p \<longleftrightarrow> p \<noteq> d \<and> p \<noteq> e \<and> p \<notin> tab s d ` present s d I \<and> mem_map s ! p \<noteq> 0 \<and>
     unat (mem_map s ! p) + mappings s d I p < 256"

definition fork_ok :: "kstate \<Rightarrow> nat \<Rightarrow> nat \<Rightarrow> nat set \<Rightarrow> bool" where
  "fork_ok s d e I \<longleftrightarrow> fork_dirs s d e I \<and> (\<forall>i \<in> present s d I. fork_table s d e i) \<and>
     (\<forall>p < PAGING_PAGES. 0 < mappings s d I p \<longrightarrow> fork_count s d e I p)"

lemma fork_okD:
  assumes "fork_ok s d e I"
  shows "length (mem_map s) = PAGING_PAGES" "I \<subseteq> {0..<512}" "d < PAGING_PAGES" "e < PAGING_PAGES" "d \<noteq> e" "mem_map s ! d \<noteq> 0" "mem_map s ! e \<noteq> 0"
    "\<And>i. i \<in> I \<Longrightarrow> \<not> pte_v (slot (pmem s) e i)" "inj_on (tab s d) (present s d I)"
  using assms by (simp_all add: fork_ok_def fork_dirs_def)

lemma fork_ok_table:
  assumes "fork_ok s d e I" "i \<in> present s d I"
  shows "fork_table s d e i" "tab s d i < PAGING_PAGES" "pte_common_ppn_to_addr (slot (pmem s) d i) = page_addr (tab s d i)"
    "tab s d i \<noteq> d" "tab s d i \<noteq> e" "mem_map s ! tab s d i \<noteq> 0" "\<And>j. j < 512 \<Longrightarrow> entry_ok (slot (pmem s) (tab s d i) j)"
  using assms by (simp_all add: fork_ok_def fork_table_def)

lemma fork_ok_count: "fork_ok s d e I \<Longrightarrow> p < PAGING_PAGES \<Longrightarrow> 0 < mappings s d I p \<Longrightarrow> fork_count s d e I p"
  by (simp add: fork_ok_def)

definition no_free_page :: "kstate \<Rightarrow> bool" where
  "no_free_page s \<longleftrightarrow> (\<forall>j. 1 \<le> j \<longrightarrow> j < PAGING_PAGES \<longrightarrow> mem_map s ! j \<noteq> 0)"

lemma finite_present: "I \<subseteq> {0..<512} \<Longrightarrow> finite (present s d I)"
  by (rule finite_subset [of _ "{0..<512}"]) (auto simp: present_def)

lemma mappings_remove:
  assumes "i \<in> I" "I \<subseteq> {0..<512}"
  shows "mappings s d I p = (if pte_v (slot (pmem s) d i) then users (pmem s) (tab s d i) {0..<512} p else 0) + mappings s d (I - {i}) p"
proof -
  have "present s d I = (if pte_v (slot (pmem s) d i) then insert i (present s d (I - {i})) else present s d (I - {i}))"
    using assms(1) by (auto simp: present_def)
  moreover have "i \<notin> present s d (I - {i})" by (simp add: present_def)
  moreover have "finite (present s d (I - {i}))" by (rule finite_present) (use assms(2) in auto)
  ultimately show ?thesis by (auto simp: mappings_def)
qed

lemma present_mono: "I \<subseteq> J \<Longrightarrow> present s d I \<subseteq> present s d J"
  by (auto simp: present_def)

lemma fork_ok_mono:
  assumes ok: "fork_ok s d e I" and J: "J \<subseteq> I"
  shows "fork_ok s d e J"
proof -
  have sub: "present s d J \<subseteq> present s d I" using J by (rule present_mono)
  have le: "mappings s d J p \<le> mappings s d I p" for p
    unfolding mappings_def using sub fork_okD(2) [OF ok] by (intro sum_mono2 finite_present) simp_all
  have "fork_count s d e J p" if "p < PAGING_PAGES" "0 < mappings s d J p" for p
    using fork_ok_count [OF ok that(1)] that(2) le [of p] sub by (auto simp: fork_count_def)
  moreover have "fork_dirs s d e J"
    using fork_okD [OF ok] J inj_on_subset [OF fork_okD(9) [OF ok] sub] by (auto simp: fork_dirs_def)
  ultimately show ?thesis using fork_ok_table(1) [OF ok] sub by (auto simp: fork_ok_def)
qed

text \<open>The effect of one directory word: the new table is in frame \<open>c\<close>.\<close>

definition table_copied :: "nat \<Rightarrow> nat \<Rightarrow> nat \<Rightarrow> nat \<Rightarrow> kstate \<Rightarrow> kstate \<Rightarrow> bool" where
  "table_copied d e i c s t \<longleftrightarrow> t = s\<lparr>pmem := pmem t, mem_map := mem_map t\<rparr> \<and> length (mem_map t) = length (mem_map s) \<and>
     c < PAGING_PAGES \<and> mem_map s ! c = 0 \<and> mem_map t ! c \<noteq> 0 \<and>
     pte_v (slot (pmem t) e i) \<and> pte_common_ppn_to_addr (slot (pmem t) e i) = page_addr c \<and>
     (\<forall>j < 512. slot (pmem t) c j = child_word (slot (pmem s) (tab s d i) j) 0 \<and>
        slot (pmem t) (tab s d i) j = parent_word (slot (pmem s) (tab s d i) j)) \<and>
     (\<forall>l < PAGING_PAGES. \<forall>j < 512. l \<noteq> c \<longrightarrow> l \<noteq> tab s d i \<longrightarrow> (l, j) \<noteq> (e, i) \<longrightarrow> slot (pmem t) l j = slot (pmem s) l j) \<and>
     (\<forall>p < PAGING_PAGES. p \<noteq> c \<longrightarrow> mem_map t ! p = mem_map s ! p + word_of_nat (users (pmem s) (tab s d i) {0..<512} p))"

lemma child_dir_entry:
  assumes "k < PAGING_PAGES"
  shows "pte_v (pte_common_enable_entry (pte_common_set_accessibility pte_accessibility_pointer (pte_common_addr_to_ppn (page_addr k) w)))"
    "pte_common_ppn_to_addr (pte_common_enable_entry (pte_common_set_accessibility pte_accessibility_pointer
       (pte_common_addr_to_ppn (page_addr k) w))) = page_addr k"
  using ppn_addr_aligned [of "page_addr k" w] page_addr_frame [OF assms]
  by (simp_all add: pte_flags pte_common_enable_entry_def bit_put_bit)

lemma copy_table_copied:
  assumes ok: "fork_ok s d e I" and i: "i \<in> I" and v: "pte_v (slot (pmem s) d i)"
    and c: "get_free_page s = Ok (page_addr c) (s\<lparr>mem_map := (mem_map s)[c := 1], pmem := memset0 (page_addr c) 4096 (pmem s)\<rparr>)"
      "c < PAGING_PAGES" "mem_map s ! c = 0"
  shows "\<exists>t. copy_table (page_addr d + 8 * word_of_nat i) (page_addr e + 8 * word_of_nat i) s = Ok False t \<and> table_copied d e i c s t"
proof -
  have i512: "i < 512" and pres: "i \<in> present s d I" and len: "length (mem_map s) = PAGING_PAGES" and de: "d < PAGING_PAGES" "e < PAGING_PAGES"
    using fork_okD [OF ok] i v by (auto simp: present_def)
  define k where "k = tab s d i"
  have k: "k < PAGING_PAGES" "pte_common_ppn_to_addr (slot (pmem s) d i) = page_addr k" "k \<noteq> e" "mem_map s ! k \<noteq> 0"
    and ents: "\<And>j. j < 512 \<Longrightarrow> entry_ok (slot (pmem s) k j)"
    using fork_ok_table [OF ok pres] unfolding k_def by blast+
  have ce: "c \<noteq> e" "c \<noteq> k" using fork_okD(7) [OF ok] c(3) k(4) by auto
  have nu: "users (pmem s) k {0..<512} c = 0"
  proof (rule ccontr)
    assume "users (pmem s) k {0..<512} c \<noteq> 0"
    then have "0 < mappings s d I c" using mappings_remove [OF i fork_okD(2) [OF ok], of s d c] v by (simp add: k_def)
    then show False using fork_ok_count [OF ok c(2)] c(3) by (simp add: fork_count_def)
  qed
  define w where "w = pte_common_enable_entry (pte_common_set_accessibility pte_accessibility_pointer
     (pte_common_addr_to_ppn (page_addr c) (read64 (memset0 (page_addr c) 4096 (pmem s)) (page_addr e + 8 * word_of_nat i))))"
  define u where "u = s\<lparr>mem_map := (mem_map s)[c := 1], pmem := write64 (memset0 (page_addr c) 4096 (pmem s)) (page_addr e + 8 * word_of_nat i) w\<rparr>"
  have us: "slot (pmem u) l j = (if l = c then 0 else if (l, j) = (e, i) then w else slot (pmem s) l j)" if "l < PAGING_PAGES" "j < 512" for l j
    using that de i512 c(2) ce by (auto simp: u_def slot_write64 slot_memset)
  have uu: "users (pmem u) k J p = users (pmem s) k J p" if "J \<subseteq> {0..<512}" for J p
    using that us [OF k(1)] ce k(3) unfolding users_def by (intro arg_cong [of _ _ card]) force
  have "\<exists>t. eachk (\<lambda>nr. copy_entry (page_addr k + 8 * word_of_nat nr) (page_addr c + 8 * word_of_nat nr)) [0..<512] u = Ok () t \<and> copied k c {0..<512} u t"
    using us [OF k(1)] ents ce k len by (intro copy_entries) (auto simp: c(2) u_def)
  then obtain t where t: "eachk (\<lambda>nr. copy_entry (page_addr k + 8 * word_of_nat nr) (page_addr c + 8 * word_of_nat nr)) [0..<512] u = Ok () t"
    "copied k c {0..<512} u t" by blast
  have "copy_table (page_addr d + 8 * word_of_nat i) (page_addr e + 8 * word_of_nat i) s = Ok False t"
  proof -
    have "\<not> pte_v (slot (pmem s) e i)" by (rule fork_okD(8) [OF ok i])
    moreover have "upd_pte (page_addr e + 8 * word_of_nat i) (\<lambda>w. pte_common_enable_entry (pte_common_set_accessibility pte_accessibility_pointer
        (pte_common_addr_to_ppn (page_addr c) w))) (s\<lparr>mem_map := (mem_map s)[c := 1], pmem := memset0 (page_addr c) 4096 (pmem s)\<rparr>) = Ok () u"
      by (simp add: upd_pte_def modk_def u_def w_def)
    ultimately show ?thesis using v c k(2) t(1) by (simp add: copy_table_def get_slot retk_def)
  qed
  moreover have "table_copied d e i c s t"
  proof -
    have su: "u = s\<lparr>pmem := pmem u, mem_map := mem_map u\<rparr>" by (simp add: u_def)
    have ts: "t = s\<lparr>pmem := pmem t, mem_map := mem_map t\<rparr>" using mem_only_trans [OF su] t(2) by (simp add: copied_def)
    have sl: "slot (pmem t) l j = (if l = c then child_word (slot (pmem s) k j) 0 else if l = k then parent_word (slot (pmem s) k j)
        else if (l, j) = (e, i) then w else slot (pmem s) l j)" if "l < PAGING_PAGES" "j < 512" for l j
      using t(2) that us k ce c(2) by (simp add: copied_def)
    have mm: "mem_map t ! p = (if p = c then 1 else mem_map s ! p + word_of_nat (users (pmem s) k {0..<512} p))" if "p < PAGING_PAGES" for p
      using t(2) that nu len c(2) by (simp add: copied_def uu) (simp add: u_def nth_list_update)
    have "length (mem_map t) = length (mem_map s)" using t(2) by (simp add: copied_def u_def)
    then show ?thesis using ts sl mm c(2,3) ce k(1,3) child_dir_entry [OF c(2)] de(2) i512 unfolding table_copied_def k_def [symmetric] w_def
      by (intro conjI allI impI) (simp_all, blast)
  qed
  ultimately show ?thesis by blast
qed


section \<open>The whole directory\<close>

text \<open>The part \<open>I\<close> of the directory in frame \<open>d\<close> has been copied to the directory in frame \<open>e\<close>.\<close>

definition new_pages :: "kstate \<Rightarrow> kstate \<Rightarrow> nat set" where
  "new_pages s t = {p. p < PAGING_PAGES \<and> mem_map s ! p = 0 \<and> mem_map t ! p \<noteq> 0}"

definition free_pages_of :: "kstate \<Rightarrow> nat set" where
  "free_pages_of s = {p. 1 \<le> p \<and> p < PAGING_PAGES \<and> mem_map s ! p = 0}"

definition shared_space :: "nat \<Rightarrow> nat \<Rightarrow> nat set \<Rightarrow> kstate \<Rightarrow> kstate \<Rightarrow> bool" where
  "shared_space d e I s t \<longleftrightarrow> t = s\<lparr>pmem := pmem t, mem_map := mem_map t\<rparr> \<and> length (mem_map t) = length (mem_map s) \<and>
     (\<forall>i \<in> present s d I. \<exists>c < PAGING_PAGES. mem_map s ! c = 0 \<and> mem_map t ! c \<noteq> 0 \<and>
        pte_v (slot (pmem t) e i) \<and> pte_common_ppn_to_addr (slot (pmem t) e i) = page_addr c \<and>
        (\<forall>j < 512. slot (pmem t) c j = child_word (slot (pmem s) (tab s d i) j) 0 \<and>
           slot (pmem t) (tab s d i) j = parent_word (slot (pmem s) (tab s d i) j))) \<and>
     (\<forall>l < PAGING_PAGES. \<forall>j < 512. mem_map s ! l \<noteq> 0 \<longrightarrow> l \<notin> tab s d ` present s d I \<longrightarrow> (l = e \<longrightarrow> j \<notin> present s d I) \<longrightarrow>
        slot (pmem t) l j = slot (pmem s) l j) \<and>
     (\<forall>p < PAGING_PAGES. mem_map s ! p \<noteq> 0 \<longrightarrow>
        mem_map t ! p \<noteq> 0 \<and> mem_map t ! p = mem_map s ! p + word_of_nat (mappings s d I p)) \<and>
     card (new_pages s t) \<le> card (present s d I)"

lemma shared_space_empty: "shared_space d e {} s s"
  by (simp add: shared_space_def present_def mappings_def new_pages_def)

text \<open>Copying one table leaves everything the rest of the copy looks at as it was.\<close>

lemma table_copied_rest:
  assumes ok: "fork_ok s d e I" and i: "i \<in> present s d I" and tc: "table_copied d e i c s u"
  shows "\<And>j. j < 512 \<Longrightarrow> slot (pmem u) d j = slot (pmem s) d j"
    and "present u d (I - {i}) = present s d (I - {i})"
    and "\<And>i'. i' \<in> present s d (I - {i}) \<Longrightarrow> tab u d i' = tab s d i' \<and> tab s d i' \<noteq> c \<and> tab s d i' \<noteq> tab s d i"
    and "\<And>i' j. i' \<in> present s d (I - {i}) \<Longrightarrow> j < 512 \<Longrightarrow> slot (pmem u) (tab s d i') j = slot (pmem s) (tab s d i') j"
    and "\<And>p. mappings u d (I - {i}) p = mappings s d (I - {i}) p"
proof -
  note d = fork_okD(3,6,5) [OF ok] and I = fork_okD(2) [OF ok]
  have c0: "mem_map s ! c = 0" using tc by (simp add: table_copied_def)
  note ti = fork_ok_table(4) [OF ok i]
  show sd: "slot (pmem u) d j = slot (pmem s) d j" if "j < 512" for j
  proof -
    have "d \<noteq> c" using c0 d(2) by auto
    then show ?thesis using tc d ti that unfolding table_copied_def by simp
  qed
  then have td: "tab u d i' = tab s d i'" if "i' < 512" for i' using that by (simp add: tab_def)
  show pr: "present u d (I - {i}) = present s d (I - {i})" using sd I by (auto simp: present_def)
  have rest: "tab s d i' < PAGING_PAGES \<and> tab s d i' \<noteq> e \<and> tab s d i' \<noteq> c \<and> tab s d i' \<noteq> tab s d i \<and> tab u d i' = tab s d i'"
    if "i' \<in> present s d (I - {i})" for i'
  proof -
    from that have i': "i' \<in> present s d I" "i' \<noteq> i" "i' < 512" using I by (auto simp: present_def)
    then have "tab s d i' \<noteq> tab s d i" using fork_okD(9) [OF ok] i by (auto simp: inj_on_def)
    moreover note fork_ok_table(2,5,6) [OF ok i'(1)]
    ultimately show ?thesis using c0 td [OF i'(3)] by auto
  qed
  then show "tab u d i' = tab s d i' \<and> tab s d i' \<noteq> c \<and> tab s d i' \<noteq> tab s d i" if "i' \<in> present s d (I - {i})" for i' using that by blast
  show st: "slot (pmem u) (tab s d i') j = slot (pmem s) (tab s d i') j" if "i' \<in> present s d (I - {i})" "j < 512" for i' j
    using tc rest [OF that(1)] that(2) by (simp add: table_copied_def)
  have "users (pmem u) (tab u d i') {0..<512} p = users (pmem s) (tab s d i') {0..<512} p" if "i' \<in> present s d (I - {i})" for i' p
    using rest [OF that] st [OF that] unfolding users_def by (intro arg_cong [of _ _ card]) force
  then show "mappings u d (I - {i}) p = mappings s d (I - {i}) p" for p unfolding mappings_def pr by (intro sum.cong) simp_all
qed

lemma table_copied_counts:
  assumes ok: "fork_ok s d e I" and i: "i \<in> present s d I" and tc: "table_copied d e i c s u" and p: "p < PAGING_PAGES" "mem_map s ! p \<noteq> 0"
  shows "mem_map u ! p \<noteq> 0" "unat (mem_map u ! p) + mappings s d (I - {i}) p = unat (mem_map s ! p) + mappings s d I p"
    "mem_map u ! p + word_of_nat (mappings s d (I - {i}) p) = mem_map s ! p + word_of_nat (mappings s d I p)"
proof -
  define n where "n = users (pmem s) (tab s d i) {0..<512} p"
  have iI: "i \<in> I" "I \<subseteq> {0..<512}" "pte_v (slot (pmem s) d i)" using fork_okD(2) [OF ok] i by (simp_all add: present_def)
  have n: "mappings s d I p = n + mappings s d (I - {i}) p" using mappings_remove [OF iI(1,2), of s d p] iI(3) by (simp add: n_def)
  have u: "mem_map u ! p = mem_map s ! p + word_of_nat n" using tc p by (auto simp: table_copied_def n_def)
  have un: "unat (mem_map u ! p) = unat (mem_map s ! p) + n"
  proof (cases "n = 0")
    case False
    then have "unat (mem_map s ! p) + mappings s d I p < 256" using fork_ok_count [OF ok p(1)] n by (simp add: fork_count_def)
    then have lt: "unat (mem_map s ! p) + n < 256" using n by linarith
    then have "unat (word_of_nat n :: u8) = n" by (simp add: unsigned_of_nat take_bit_nat_eq_self)
    then show ?thesis using u lt by (simp add: unat_word_ariths)
  qed (simp add: u)
  have "unat (mem_map s ! p) \<noteq> 0" using p(2) by (simp add: unat_eq_0)
  with un show "mem_map u ! p \<noteq> 0" by (metis add_is_0 unat_0)
  show "unat (mem_map u ! p) + mappings s d (I - {i}) p = unat (mem_map s ! p) + mappings s d I p" using un n by simp
  show "mem_map u ! p + word_of_nat (mappings s d (I - {i}) p) = mem_map s ! p + word_of_nat (mappings s d I p)" using u n by simp
qed


lemma fork_ok_rest:
  assumes ok: "fork_ok s d e I" and i: "i \<in> present s d I" and tc: "table_copied d e i c s u"
  shows "fork_ok u d e (I - {i})"
proof -
  note rest = table_copied_rest [OF ok i tc] and counts = table_copied_counts [OF ok i tc]
  have ok': "fork_ok s d e (I - {i})" by (rule fork_ok_mono [OF ok]) blast
  note D = fork_okD [OF ok']
  have "e \<noteq> c" using tc D(7) by (auto simp: table_copied_def)
  then have se: "\<not> pte_v (slot (pmem u) e i')" if "i' \<in> I - {i}" for i'
    using tc D(2,4) D(8) [OF that] fork_ok_table(5) [OF ok i] that by (auto simp: table_copied_def)
  have im: "tab u d ` present s d (I - {i}) = tab s d ` present s d (I - {i})" using rest(3) by (intro image_cong) auto
  have tb: "fork_table u d e i'" if "i' \<in> present s d (I - {i})" for i'
  proof -
    have "i' < 512" using that D(2) by (auto simp: present_def)
    then show ?thesis using fork_ok_table [OF ok' that] rest(1,3,4) that counts(1) by (simp add: fork_table_def)
  qed
  have ct: "fork_count u d e (I - {i}) p" if p: "p < PAGING_PAGES" "0 < mappings s d (I - {i}) p" for p
  proof -
    have "0 < mappings s d I p" using p(2) mappings_remove [of i I s d p] i fork_okD(2) [OF ok] by (simp add: present_def)
    then have "unat (mem_map s ! p) + mappings s d I p < 256" using fork_ok_count [OF ok p(1)] by (simp add: fork_count_def)
    then show ?thesis using fork_ok_count [OF ok' p] counts p(1) unfolding fork_count_def rest(2) im rest(5) by simp
  qed
  have "inj_on (tab u d) (present s d (I - {i}))" using D(9) rest(3) unfolding inj_on_def by metis
  moreover have "length (mem_map u) = PAGING_PAGES" using D(1) tc by (simp add: table_copied_def)
  ultimately have "fork_dirs u d e (I - {i})" using D se counts(1) unfolding fork_dirs_def rest(2) by blast
  then show ?thesis unfolding fork_ok_def rest(2,5) using tb ct by blast
qed

lemma shared_space_step:
  assumes ok: "fork_ok s d e I" and i: "i \<in> present s d I" and tc: "table_copied d e i c s u" and sh: "shared_space d e (I - {i}) u t"
  shows "shared_space d e I s t"
proof -
  note rest = table_copied_rest [OF ok i tc] and counts = table_copied_counts [OF ok i tc]
  let ?k = "tab s d i" and ?I = "I - {i}"
  have iI: "i \<in> I" "i < 512" and all: "present s d I = insert i (present s d ?I)" using fork_okD(2) [OF ok] i by (auto simp: present_def)
  have im: "tab u d ` present s d ?I = tab s d ` present s d ?I" using rest(3) by (intro image_cong) auto
  have k: "?k < PAGING_PAGES" "?k \<noteq> e" "mem_map s ! ?k \<noteq> 0" using fork_ok_table [OF ok i] by blast+
  have k4: "?k \<notin> tab s d ` present s d ?I" using rest(3) by (metis imageE)
  have e: "e < PAGING_PAGES" "mem_map s ! e \<noteq> 0" "e \<notin> tab s d ` present s d I" using fork_okD(4,7) [OF ok] fork_ok_table(5) [OF ok] by blast+
  have c: "c < PAGING_PAGES" "mem_map s ! c = 0" "mem_map u ! c \<noteq> 0" "c \<notin> tab s d ` present s d ?I" "c \<noteq> e"
    using tc rest(3) e(2) unfolding table_copied_def by blast+
  have kept: "slot (pmem t) l j = slot (pmem u) l j" if "l < PAGING_PAGES" "j < 512" "mem_map u ! l \<noteq> 0" "l \<notin> tab s d ` present s d ?I"
      "l = e \<longrightarrow> j \<notin> present s d ?I" for l j
    using sh that unfolding shared_space_def rest(2) im by blast
  have mm: "mem_map t ! p \<noteq> 0" "mem_map t ! p = mem_map u ! p + word_of_nat (mappings s d ?I p)" if "p < PAGING_PAGES" "mem_map u ! p \<noteq> 0" for p
    using sh that unfolding shared_space_def rest(5) by blast+
  show ?thesis unfolding shared_space_def
  proof (intro conjI ballI allI impI)
    show "t = s\<lparr>pmem := pmem t, mem_map := mem_map t\<rparr>" using tc sh unfolding table_copied_def shared_space_def by (blast intro: mem_only_trans)
    show "length (mem_map t) = length (mem_map s)" using tc sh by (simp add: table_copied_def shared_space_def)
  next
    fix i' assume i': "i' \<in> present s d I"
    show "\<exists>c < PAGING_PAGES. mem_map s ! c = 0 \<and> mem_map t ! c \<noteq> 0 \<and> pte_v (slot (pmem t) e i') \<and> pte_common_ppn_to_addr (slot (pmem t) e i') = page_addr c \<and>
        (\<forall>j < 512. slot (pmem t) c j = child_word (slot (pmem s) (tab s d i') j) 0 \<and> slot (pmem t) (tab s d i') j = parent_word (slot (pmem s) (tab s d i') j))"
    proof (cases "i' = i")
      case True
      have "slot (pmem t) e i = slot (pmem u) e i" using kept [OF e(1) iI(2)] counts(1) [OF e(1,2)] e(3) all by (auto simp: present_def)
      then show ?thesis unfolding True using tc c mm(1) [OF c(1,3)] kept [OF c(1) _ c(3,4)] kept [OF k(1) _ counts(1) [OF k(1,3)] k4] k(2)
        unfolding table_copied_def by (intro exI [of _ c]) simp
    next
      case False
      then have i'': "i' \<in> present s d ?I" using i' all by blast
      then obtain x where x: "x < PAGING_PAGES" "mem_map u ! x = 0" "mem_map t ! x \<noteq> 0" "pte_v (slot (pmem t) e i')"
        "pte_common_ppn_to_addr (slot (pmem t) e i') = page_addr x"
        "\<And>j. j < 512 \<Longrightarrow> slot (pmem t) x j = child_word (slot (pmem u) (tab u d i') j) 0 \<and> slot (pmem t) (tab u d i') j = parent_word (slot (pmem u) (tab u d i') j)"
        using sh unfolding shared_space_def rest(2) by blast
      moreover have "mem_map s ! x = 0" using counts(1) [OF x(1)] x(2) by blast
      ultimately show ?thesis using rest(3,4) [OF i''] by (intro exI [of _ x]) simp
    qed
  next
    fix l j :: nat assume l: "l < PAGING_PAGES" "j < 512" "mem_map s ! l \<noteq> 0" "l \<notin> tab s d ` present s d I" "l = e \<longrightarrow> j \<notin> present s d I"
    then have "slot (pmem u) l j = slot (pmem s) l j" using tc c(2) i unfolding table_copied_def by blast
    then show "slot (pmem t) l j = slot (pmem s) l j" using kept [OF l(1,2) counts(1) [OF l(1,3)]] l(4,5) all by auto
  next
    fix p assume p: "p < PAGING_PAGES" "mem_map s ! p \<noteq> 0"
    note u = counts(1) [OF p]
    show "mem_map t ! p \<noteq> 0" by (rule mm(1) [OF p(1) u])
    show "mem_map t ! p = mem_map s ! p + word_of_nat (mappings s d I p)" using mm(2) [OF p(1) u] counts(3) [OF p] by simp
  next
    have "mem_map u ! p = 0" if p: "p < PAGING_PAGES" "mem_map s ! p = 0" "p \<noteq> c" for p
    proof -
      have "mappings s d I p = 0" using fork_ok_count [OF ok p(1)] p(2) by (auto simp: fork_count_def)
      then have "users (pmem s) ?k {0..<512} p = 0" using mappings_remove [OF iI(1) fork_okD(2) [OF ok], of s d p] i by (simp add: present_def)
      then show ?thesis using tc p by (simp add: table_copied_def)
    qed
    then have "new_pages s t \<subseteq> insert c (new_pages u t)" by (auto simp: new_pages_def)
    moreover have fin: "finite (new_pages u t)" by (rule finite_subset [of _ "{..<PAGING_PAGES}"]) (auto simp: new_pages_def)
    ultimately have "card (new_pages s t) \<le> card (insert c (new_pages u t))" by (intro card_mono) simp_all
    also have "\<dots> \<le> Suc (card (new_pages u t))" by (simp add: card_insert_if fin)
    also have "\<dots> \<le> Suc (card (present s d ?I))" using sh unfolding shared_space_def rest(2) by simp
    also have "\<dots> = card (present s d I)" using all finite_present [of ?I s d] fork_okD(2) [OF ok] by (subst all, subst card_insert_disjoint) (auto simp: present_def)
    finally show "card (new_pages s t) \<le> card (present s d I)" .
  qed
qed

lemma copy_tables_shared:
  assumes "fork_ok s d e {i..<i + n}"
  shows "\<exists>t m. copy_tables (page_addr d + 8 * word_of_nat i) (page_addr e + 8 * word_of_nat i) n s = Ok (if m = n then 0 else - 1) t \<and>
    m \<le> n \<and> shared_space d e {i..<i + m} s t \<and> (m < n \<longrightarrow> no_free_page t)"
  using assms
proof (induction n arbitrary: i s)
  case 0
  then show ?case by (auto simp: retk_def shared_space_empty)
next
  case (Suc n)
  let ?fd = "page_addr d + 8 * word_of_nat i" and ?td = "page_addr e + 8 * word_of_nat i"
  have iI: "i \<in> {i..<i + Suc n}" and rm: "{i..<i + Suc m} - {i} = {Suc i..<Suc i + m}" for m by auto
  have next_slot: "?fd + 8 = page_addr d + 8 * word_of_nat (Suc i)" "?td + 8 = page_addr e + 8 * word_of_nat (Suc i)" by (simp_all add: algebra_simps)
  have ne: "\<not> pte_v (slot (pmem s) e i)" by (rule fork_okD(8) [OF Suc.prems iI])
  show ?case
  proof (cases "pte_v (slot (pmem s) d i)")
    case False
    then have "copy_table ?fd ?td s = Ok False s" using ne by (simp add: copy_table_def get_slot retk_def)
    moreover obtain t m where "copy_tables (?fd + 8) (?td + 8) n s = Ok (if m = n then 0 else - 1) t" "m \<le> n"
      and sh: "shared_space d e {Suc i..<Suc i + m} s t" and "m < n \<longrightarrow> no_free_page t"
      using Suc.IH [of s "Suc i"] fork_ok_mono [OF Suc.prems, of "{Suc i..<Suc i + n}"] unfolding next_slot by auto
    moreover have "shared_space d e {i..<i + Suc m} s t"
    proof -
      have *: "present s d {i..<i + Suc m} = present s d {Suc i..<Suc i + m}" using False by (auto simp: present_def Suc_le_eq le_less)
      from sh show ?thesis unfolding shared_space_def mappings_def * .
    qed
    ultimately show ?thesis by (intro exI [of _ t] exI [of _ "Suc m"]) simp
  next
    case v: True
    show ?thesis
    proof (cases rule: get_free_page_cases [of s])
      case none
      then have "copy_table ?fd ?td s = Ok True s" using ne v by (simp add: copy_table_def get_slot retk_def)
      then show ?thesis using none(2) by (intro exI [of _ s] exI [of _ 0]) (simp add: retk_def shared_space_empty no_free_page_def)
    next
      case (page c)
      obtain u where u: "copy_table ?fd ?td s = Ok False u" "table_copied d e i c s u"
        using copy_table_copied [OF Suc.prems iI v page(5,2,3)] by blast
      have pres: "i \<in> present s d {i..<i + Suc n}" using v by (simp add: present_def)
      obtain t m where t: "copy_tables (?fd + 8) (?td + 8) n u = Ok (if m = n then 0 else - 1) t" "m \<le> n"
        "shared_space d e {Suc i..<Suc i + m} u t" "m < n \<longrightarrow> no_free_page t"
        using Suc.IH [of u "Suc i"] fork_ok_rest [OF Suc.prems pres u(2)] unfolding rm next_slot by blast
      moreover have "shared_space d e {i..<i + Suc m} s t"
      proof (rule shared_space_step [OF _ _ u(2)])
        show "fork_ok s d e {i..<i + Suc m}" by (rule fork_ok_mono [OF Suc.prems]) (use t(2) in auto)
        show "shared_space d e ({i..<i + Suc m} - {i}) u t" unfolding rm by (rule t(3))
      qed (use v in \<open>simp add: present_def\<close>)
      ultimately show ?thesis using u(1) by (intro exI [of _ t] exI [of _ "Suc m"]) simp
    qed
  qed
qed


section \<open>Translation through a directory\<close>

text \<open>The entry that maps user address \<open>a\<close> through the directory at \<open>dir\<close>.\<close>

definition walk :: "(ulong \<Rightarrow> u8) \<Rightarrow> ulong \<Rightarrow> ulong \<Rightarrow> ulong option" where
  "walk m dir a = (let w = read64 m (dir + 8 * GET_PAGE_DIR_ID a); x = read64 m (entry_slot (pte_common_ppn_to_addr w) a) in
     if pte_v w \<and> pte_v x then Some x else None)"

lemma walk_translates:
  assumes "walk (pmem s) (page_dir_table s) a = Some x" "page_dir_table s \<noteq> 0" "USER_START_ADDR \<le> a" "a \<le> USER_END_ADDR"
  shows "user_addr_to_kernel a s = Ok (pte_common_ppn_to_addr x + (a AND 0xFFF)) s"
  using assms by (intro translate_mapped) (auto simp: walk_def Let_def dir_slot_def split: if_splits)

lemma walk_slots:
  assumes "i = unat (GET_PAGE_DIR_ID a)" "j = unat (GET_PAGE_ENTRY_ID a)"
  shows "walk m (page_addr d) a = (if pte_v (slot m d i) \<and> pte_v (read64 m (pte_common_ppn_to_addr (slot m d i) + 8 * word_of_nat j))
     then Some (read64 m (pte_common_ppn_to_addr (slot m d i) + 8 * word_of_nat j)) else None)"
  using assms by (simp add: walk_def slot_def entry_slot_def Let_def)

lemma shared_space_walk:
  assumes ok: "fork_ok s d e I" and sh: "shared_space d e I s t" and a: "unat (GET_PAGE_DIR_ID a) \<in> I"
  shows "walk (pmem t) (page_addr e) a = map_option shared_entry (walk (pmem s) (page_addr d) a)"
    "walk (pmem t) (page_addr d) a = map_option parent_word (walk (pmem s) (page_addr d) a)"
proof -
  define i j where ij: "i = unat (GET_PAGE_DIR_ID a)" "j = unat (GET_PAGE_ENTRY_ID a)"
  note D = fork_okD [OF ok]
  have b: "i < 512" "j < 512" "i \<in> I" using dir_id_less [of a] entry_id_less [of a] a by (simp_all add: ij)
  have keptd: "slot (pmem t) d i = slot (pmem s) d i"
  proof -
    have "d \<notin> tab s d ` present s d I" using fork_ok_table(4) [OF ok] by (metis imageE)
    then show ?thesis using sh D(3,5,6) b(1) unfolding shared_space_def by blast
  qed
  note w = walk_slots [OF ij]
  show "walk (pmem t) (page_addr e) a = map_option shared_entry (walk (pmem s) (page_addr d) a)"
    "walk (pmem t) (page_addr d) a = map_option parent_word (walk (pmem s) (page_addr d) a)"
  proof -
    consider (absent) "\<not> pte_v (slot (pmem s) d i)" | (present) "i \<in> present s d I" using b(3) by (auto simp: present_def)
    then have "walk (pmem t) (page_addr e) a = map_option shared_entry (walk (pmem s) (page_addr d) a) \<and>
      walk (pmem t) (page_addr d) a = map_option parent_word (walk (pmem s) (page_addr d) a)"
    proof cases
      case absent
      then have np: "i \<notin> present s d I" by (simp add: present_def)
      have "e \<notin> tab s d ` present s d I" using fork_ok_table(5) [OF ok] by (metis imageE)
      then have "slot (pmem t) e i = slot (pmem s) e i" using sh D(4,7) b(1) np unfolding shared_space_def by blast
      then show ?thesis using absent keptd D(8) [OF b(3)] by (simp add: w)
    next
      case present
      note T = fork_ok_table [OF ok present]
      have v: "pte_v (slot (pmem s) d i)" using present by (simp add: present_def)
      obtain c where c: "pte_v (slot (pmem t) e i)" "pte_common_ppn_to_addr (slot (pmem t) e i) = page_addr c"
        "slot (pmem t) c j = child_word (slot (pmem s) (tab s d i) j) 0" "slot (pmem t) (tab s d i) j = parent_word (slot (pmem s) (tab s d i) j)"
        using sh present b(2) unfolding shared_space_def by blast
      have fold: "read64 m (page_addr k + 8 * word_of_nat j) = slot m k j" for m k by (simp add: slot_def)
      have "\<not> pte_v (0 :: ulong)" by (simp add: pte_v_def)
      then show ?thesis using v c(1) unfolding w keptd c(2) T(3) fold c(3,4) by (auto simp: child_word_def parent_word_def)
    qed
    then show "walk (pmem t) (page_addr e) a = map_option shared_entry (walk (pmem s) (page_addr d) a)"
      "walk (pmem t) (page_addr d) a = map_option parent_word (walk (pmem s) (page_addr d) a)" by blast+
  qed
qed


section \<open>Fork\<close>

lemma copy_page_tables_run:
  assumes dir: "page_dir_table s = page_addr d" and al: "to AND 0x1FFFFF = 0" and n: "n = unat (GET_PAGE_DIR_SIZE sz)"
    and ok: "fork_ok s d e {0..<n}"
  shows "\<exists>t m. copy_page_tables USER_START_ADDR to (page_addr e) sz s = Ok (if m = n then 0 else - 1) t \<and> m \<le> n \<and>
    fork_ok s d e {0..<m} \<and> shared_space d e {0..<m} s t \<and> (m < n \<longrightarrow> card (free_pages_of s) \<le> card (present s d {0..<m}))"
proof -
  have "dir_slot USER_START_ADDR s = page_addr d + 8 * word_of_nat 0" by (simp add: dir_slot_def dir GET_PAGE_DIR_ID_def)
  moreover have "page_addr e \<noteq> 0" using fork_okD(4) [OF ok] by simp
  ultimately have run: "copy_page_tables USER_START_ADDR to (page_addr e) sz s = copy_tables (page_addr d + 8 * word_of_nat 0) (page_addr e + 8 * word_of_nat 0) n s"
    using al by (simp add: copy_page_tables_def n getk_def)
  obtain t m where t: "copy_page_tables USER_START_ADDR to (page_addr e) sz s = Ok (if m = n then 0 else - 1) t" "m \<le> n"
    and sh: "shared_space d e {0..<m} s t" and nf: "m < n \<longrightarrow> no_free_page t"
    using copy_tables_shared [of s d e 0 n] ok unfolding run by auto
  have "fork_ok s d e {0..<m}" by (rule fork_ok_mono [OF ok]) (use t(2) in auto)
  moreover have "card (free_pages_of s) \<le> card (present s d {0..<m})" if "m < n"
  proof -
    from that have "free_pages_of s \<subseteq> new_pages s t" using nf by (auto simp: no_free_page_def free_pages_of_def new_pages_def)
    moreover have "finite (new_pages s t)" by (rule finite_subset [of _ "{..<PAGING_PAGES}"]) (auto simp: new_pages_def)
    ultimately show ?thesis using sh card_mono unfolding shared_space_def by (meson le_trans)
  qed
  ultimately show ?thesis using t sh by blast
qed

text \<open>C14: \<open>copy_page_tables\<close> gives the child the parent's address space. For every user address in the copied
  part, the child's directory has the parent's entry with the write permission removed, or none where
  the parent has none; the parent's entry is write-protected as well unless the page is a kernel page; the
  translation of every mapped address gives the same physical address in both processes as it gave before.
  The reference count of every page in use rises by the number of entries that map it, and no word of a
  page in use is changed other than the parent's tables and the child's directory. It stops early with
  -1 only when the tables made so far have used up all free pages.\<close>

theorem copy_page_tables_shares:
  assumes dir: "page_dir_table s = page_addr d" and al: "to AND 0x1FFFFF = 0" and n: "n = unat (GET_PAGE_DIR_SIZE sz)"
    and ok: "fork_ok s d e {0..<n}"
  shows "\<exists>t m. copy_page_tables USER_START_ADDR to (page_addr e) sz s = Ok (if m = n then 0 else - 1) t \<and> m \<le> n \<and>
    (m < n \<longrightarrow> card (free_pages_of s) \<le> card (present s d {0..<m})) \<and>
    (\<forall>a. unat (GET_PAGE_DIR_ID a) < m \<longrightarrow>
       walk (pmem t) (page_addr e) a = map_option shared_entry (walk (pmem s) (page_addr d) a) \<and>
       walk (pmem t) (page_addr d) a = map_option parent_word (walk (pmem s) (page_addr d) a)) \<and>
    (\<forall>a x. unat (GET_PAGE_DIR_ID a) < m \<longrightarrow> USER_START_ADDR \<le> a \<longrightarrow> a \<le> USER_END_ADDR \<longrightarrow> walk (pmem s) (page_addr d) a = Some x \<longrightarrow>
       (\<exists>phys. user_addr_to_kernel a s = Ok phys s \<and> user_addr_to_kernel a t = Ok phys t \<and>
          (let t' = t\<lparr>page_dir_table := page_addr e\<rparr> in user_addr_to_kernel a t' = Ok phys t'))) \<and>
    (\<forall>p < PAGING_PAGES. mem_map s ! p \<noteq> 0 \<longrightarrow> mem_map t ! p = mem_map s ! p + word_of_nat (mappings s d {0..<m} p)) \<and>
    (\<forall>l < PAGING_PAGES. \<forall>j < 512. mem_map s ! l \<noteq> 0 \<longrightarrow> l \<notin> tab s d ` present s d {0..<m} \<longrightarrow> (l = e \<longrightarrow> m \<le> j) \<longrightarrow>
       slot (pmem t) l j = slot (pmem s) l j)"
proof -
  obtain t m where t: "copy_page_tables USER_START_ADDR to (page_addr e) sz s = Ok (if m = n then 0 else - 1) t" "m \<le> n"
    and okm: "fork_ok s d e {0..<m}" and sh: "shared_space d e {0..<m} s t" and few: "m < n \<longrightarrow> card (free_pages_of s) \<le> card (present s d {0..<m})"
    using copy_page_tables_run [OF dir al n ok] by blast
  have wk: "walk (pmem t) (page_addr e) a = map_option shared_entry (walk (pmem s) (page_addr d) a) \<and>
       walk (pmem t) (page_addr d) a = map_option parent_word (walk (pmem s) (page_addr d) a)" if "unat (GET_PAGE_DIR_ID a) < m" for a
    using shared_space_walk [OF okm sh, of a] that by simp
  have pd: "page_dir_table t = page_addr d"
  proof -
    from sh have "t = s\<lparr>pmem := pmem t, mem_map := mem_map t\<rparr>" by (simp add: shared_space_def)
    then have "page_dir_table t = page_dir_table (s\<lparr>pmem := pmem t, mem_map := mem_map t\<rparr>)" by (rule arg_cong)
    then show ?thesis by (simp add: dir)
  qed
  have tr: "\<exists>phys. user_addr_to_kernel a s = Ok phys s \<and> user_addr_to_kernel a t = Ok phys t \<and>
      (let t' = t\<lparr>page_dir_table := page_addr e\<rparr> in user_addr_to_kernel a t' = Ok phys t')"
    if a: "unat (GET_PAGE_DIR_ID a) < m" "USER_START_ADDR \<le> a" "a \<le> USER_END_ADDR" "walk (pmem s) (page_addr d) a = Some x" for a x
  proof -
    note tr = walk_translates [OF _ _ a(2,3)] and D = fork_okD(3,4) [OF ok]
    have "user_addr_to_kernel a s = Ok (pte_common_ppn_to_addr x + (a AND 0xFFF)) s" by (rule tr) (use a(4) dir D in simp_all)
    moreover have "user_addr_to_kernel a t = Ok (pte_common_ppn_to_addr (parent_word x) + (a AND 0xFFF)) t" by (rule tr) (use a(4) pd D wk [OF a(1)] in simp_all)
    moreover have "user_addr_to_kernel a (t\<lparr>page_dir_table := page_addr e\<rparr>) =
        Ok (pte_common_ppn_to_addr (shared_entry x) + (a AND 0xFFF)) (t\<lparr>page_dir_table := page_addr e\<rparr>)" by (rule tr) (use a(4) D wk [OF a(1)] in simp_all)
    ultimately show ?thesis by (simp add: parent_word_def Let_def split: if_splits)
  qed
  have ct: "\<forall>p < PAGING_PAGES. mem_map s ! p \<noteq> 0 \<longrightarrow> mem_map t ! p = mem_map s ! p + word_of_nat (mappings s d {0..<m} p)"
    using sh unfolding shared_space_def by blast
  have fr: "slot (pmem t) l j = slot (pmem s) l j" if "l < PAGING_PAGES" "j < 512" "mem_map s ! l \<noteq> 0" "l \<notin> tab s d ` present s d {0..<m}" "l = e \<longrightarrow> m \<le> j" for l j
  proof -
    have "l = e \<longrightarrow> j \<notin> present s d {0..<m}" using that(5) by (auto simp: present_def)
    then show ?thesis using sh that(1-4) unfolding shared_space_def by blast
  qed
  show ?thesis
    by (intro exI [of _ t] exI [of _ m] conjI) (use t few wk tr ct fr in simp_all)
qed


text \<open>A parent whose directory is in frame 5, with a table in frame 6 that maps page 7 at \<open>0xC0001000\<close> and a
  table in frame 9 that maps page 10 at \<open>0xC3FFF000\<close>, the top of its stack; the child's directory is in frame 8.\<close>

definition demo_dir :: "nat \<Rightarrow> ulong" where
  "demo_dir k = pte_common_enable_entry (pte_common_addr_to_ppn (page_addr k) 0)"

definition demo_fork :: kstate where
  "demo_fork = demo_vm\<lparr>mem_map := (replicate PAGING_PAGES 0)[5 := 1, 6 := 1, 7 := 1, 8 := 1, 9 := 1, 10 := 1],
     pmem := write64 (write64 (write64 (write64 (\<lambda>_. 0) (page_addr 5 + 8 * word_of_nat 0) (demo_dir 6))
       (page_addr 5 + 8 * word_of_nat 31) (demo_dir 9))
       (page_addr 6 + 8 * word_of_nat 1) (map_entry (page_addr 7) 0))
       (page_addr 9 + 8 * word_of_nat 511) (map_entry (page_addr 10) 0),
     tasks := (tasks demo_vm)(page_addr 11 := (tasks demo_vm (page_addr 11))\<lparr>t_data_base := USER_START_ADDR,
       t_data_limit := 0x4000000, t_page_dir := page_addr 8\<rparr>)\<rparr>"

lemma demo_fork_slot:
  assumes "l < PAGING_PAGES" "j < 512"
  shows "slot (pmem demo_fork) l j = (if l = 9 \<and> j = 511 then map_entry (page_addr 10) 0 else if l = 6 \<and> j = 1 then map_entry (page_addr 7) 0 else
     if l = 5 \<and> j = 31 then demo_dir 9 else if l = 5 \<and> j = 0 then demo_dir 6 else 0)"
proof -
  have z: "slot (\<lambda>_. 0) l j = 0" by (simp add: slot_def read64_zero)
  have p: "pmem demo_fork = write64 (write64 (write64 (write64 (\<lambda>_. 0) (page_addr 5 + 8 * word_of_nat 0) (demo_dir 6))
       (page_addr 5 + 8 * word_of_nat 31) (demo_dir 9))
       (page_addr 6 + 8 * word_of_nat 1) (map_entry (page_addr 7) 0))
       (page_addr 9 + 8 * word_of_nat 511) (map_entry (page_addr 10) 0)"
    by (simp add: demo_fork_def)
  have "(9 :: nat) < PAGING_PAGES" "(6 :: nat) < PAGING_PAGES" "(5 :: nat) < PAGING_PAGES" "(1 :: nat) < 512" "(0 :: nat) < 512" "(31 :: nat) < 512"
    "(511 :: nat) < 512" by simp_all
  then show ?thesis using assms unfolding p by (simp only: slot_write64 z)
qed

lemma demo_dir_fields: "k < PAGING_PAGES \<Longrightarrow> pte_v (demo_dir k)" "k < PAGING_PAGES \<Longrightarrow> pte_common_ppn_to_addr (demo_dir k) = page_addr k"
  using ppn_addr_aligned [of "page_addr k" 0] page_addr_frame [of k] by (simp_all add: demo_dir_def pte_flags pte_common_enable_entry_def bit_put_bit)

lemma demo_fork_mm: "mem_map demo_fork = (replicate PAGING_PAGES 0)[5 := 1, 6 := 1, 7 := 1, 8 := 1, 9 := 1, 10 := 1]"
  by (simp add: demo_fork_def)

lemma demo_fork_ok:
  "fork_ok demo_fork 5 8 {0..<1}" "mappings demo_fork 5 {0..<1} 7 = 1" "0 < card (free_pages_of demo_fork)"
proof -
  have nv: "\<not> pte_v 0" by (simp add: pte_v_def)
  note dw = demo_dir_fields [of 6] and me = map_entry_fields [of 7 0] and mm = demo_fork_mm
  have tb: "tab demo_fork 5 0 = 6" by (simp add: tab_def demo_fork_slot dw)
  have pr: "present demo_fork 5 {0..<1} = {0}" by (auto simp: present_def demo_fork_slot dw)
  have maps: "maps_page (slot (pmem demo_fork) 6 j) p \<longleftrightarrow> j = 1 \<and> p = 7" if "j < 512" "p < PAGING_PAGES" for j p
    using that me nv page_addr_inj [of 7 p] unat_page_addr [of 7] by (auto simp: maps_page_def demo_fork_slot word_less_nat_alt)
  have us: "users (pmem demo_fork) 6 {0..<512} p = (if p = 7 then 1 else 0)" if "p < PAGING_PAGES" for p
  proof -
    have "{j \<in> {0..<512}. maps_page (slot (pmem demo_fork) 6 j) p} = (if p = 7 then {1} else {})" using maps that by auto
    then show ?thesis by (simp add: users_def)
  qed
  have mp: "mappings demo_fork 5 {0..<1} p = (if p = 7 then 1 else 0)" if "p < PAGING_PAGES" for p unfolding mappings_def pr by (simp add: tb us that)
  show "mappings demo_fork 5 {0..<1} 7 = 1" by (subst mp) simp_all
  have "fork_dirs demo_fork 5 8 {0..<1}" unfolding fork_dirs_def pr by (simp add: mm demo_fork_slot nv)
  moreover have "entry_ok (slot (pmem demo_fork) 6 j)" if "j < 512" for j
  proof (cases "j = 1")
    case True
    then show ?thesis unfolding entry_ok_def using me by (intro impI disjI2 exI [of _ 7]) (simp add: demo_fork_slot)
  qed (use that nv in \<open>simp add: entry_ok_def demo_fork_slot\<close>)
  then have "fork_table demo_fork 5 8 0" by (simp add: fork_table_def tb mm demo_fork_slot dw)
  moreover have "fork_count demo_fork 5 8 {0..<1} 7" using mp [of 7] unfolding fork_count_def pr by (simp add: tb mm)
  ultimately show "fork_ok demo_fork 5 8 {0..<1}" unfolding fork_ok_def pr using mp by (simp split: if_splits)
  have "1 \<in> free_pages_of demo_fork" by (simp add: free_pages_of_def mm)
  moreover have "finite (free_pages_of demo_fork)" by (rule finite_subset [of _ "{..<PAGING_PAGES}"]) (auto simp: free_pages_of_def)
  ultimately show "0 < card (free_pages_of demo_fork)" by (auto simp: card_gt_0_iff)
qed

lemma demo_fork_walk:
  "walk (pmem demo_fork) (page_addr 5) 0xC0001234 = Some (map_entry (page_addr 7) 0)"
  "walk (pmem demo_fork) (page_addr 5) 0xC3FFF000 = Some (map_entry (page_addr 10) 0)"
proof -
  have ids: "0 = unat (GET_PAGE_DIR_ID 0xC0001234)" "1 = unat (GET_PAGE_ENTRY_ID 0xC0001234)"
    "31 = unat (GET_PAGE_DIR_ID 0xC3FFF000)" "511 = unat (GET_PAGE_ENTRY_ID 0xC3FFF000)" by (simp_all add: GET_PAGE_DIR_ID_def GET_PAGE_ENTRY_ID_def)
  have e: "read64 (pmem demo_fork) (page_addr 6 + 8 * word_of_nat 1) = map_entry (page_addr 7) 0"
    "read64 (pmem demo_fork) (page_addr 9 + 8 * word_of_nat 511) = map_entry (page_addr 10) 0"
    using demo_fork_slot [of 6 1] demo_fork_slot [of 9 511] by (simp_all add: slot_def)
  show "walk (pmem demo_fork) (page_addr 5) 0xC0001234 = Some (map_entry (page_addr 7) 0)"
    using map_entry_fields [of 7 0] demo_dir_fields [of 6] e(1) unfolding walk_slots [OF ids(1,2)] by (simp add: demo_fork_slot)
  show "walk (pmem demo_fork) (page_addr 5) 0xC3FFF000 = Some (map_entry (page_addr 10) 0)"
    using map_entry_fields [of 10 0] demo_dir_fields [of 9] e(2) unfolding walk_slots [OF ids(3,4)] by (simp add: demo_fork_slot)
qed

theorem copy_page_tables_shares_witness:
  "\<exists>t. copy_page_tables USER_START_ADDR USER_START_ADDR (page_addr 8) 0x4000 demo_fork = Ok 0 t \<and> mem_map t ! 7 = 2 \<and>
     walk (pmem t) (page_addr 8) 0xC0001234 = Some (shared_entry (map_entry (page_addr 7) 0)) \<and>
     (let t' = t\<lparr>page_dir_table := page_addr 8\<rparr> in user_addr_to_kernel 0xC0001234 t' = Ok (page_addr 7 + 0x234) t')"
proof -
  have n: "(1 :: nat) = unat (GET_PAGE_DIR_SIZE 0x4000)" by (simp add: GET_PAGE_DIR_SIZE_def)
  have dir: "page_dir_table demo_fork = page_addr 5" by (simp add: demo_fork_def demo_vm_def)
  have ids: "unat (GET_PAGE_DIR_ID 0xC0001234) = 0" by (simp add: GET_PAGE_DIR_ID_def)
  have c: "(USER_START_ADDR :: ulong) AND 0x1FFFFF = 0" "USER_START_ADDR \<le> (0xC0001234 :: ulong)" "(0xC0001234 :: ulong) \<le> USER_END_ADDR"
    "(0xC0001234 :: ulong) AND 0xFFF = 0x234" by simp_all
  have p: "pte_common_ppn_to_addr (map_entry (page_addr 7) 0) = page_addr 7" by (rule map_entry_fields) simp
  have src: "user_addr_to_kernel 0xC0001234 demo_fork = Ok (page_addr 7 + 0x234) demo_fork"
    using walk_translates [of demo_fork "0xC0001234"] demo_fork_walk(1) c dir p by simp
  from copy_page_tables_shares [OF dir c(1) n demo_fork_ok(1)] obtain t m where
    t: "copy_page_tables USER_START_ADDR USER_START_ADDR (page_addr 8) 0x4000 demo_fork = Ok (if m = 1 then 0 else - 1) t" "m \<le> 1"
    and few: "m < 1 \<longrightarrow> card (free_pages_of demo_fork) \<le> card (present demo_fork 5 {0..<m})"
    and w: "\<forall>a. unat (GET_PAGE_DIR_ID a) < m \<longrightarrow> walk (pmem t) (page_addr 8) a = map_option shared_entry (walk (pmem demo_fork) (page_addr 5) a) \<and>
       walk (pmem t) (page_addr 5) a = map_option parent_word (walk (pmem demo_fork) (page_addr 5) a)"
    and u: "\<forall>a x. unat (GET_PAGE_DIR_ID a) < m \<longrightarrow> USER_START_ADDR \<le> a \<longrightarrow> a \<le> USER_END_ADDR \<longrightarrow> walk (pmem demo_fork) (page_addr 5) a = Some x \<longrightarrow>
       (\<exists>phys. user_addr_to_kernel a demo_fork = Ok phys demo_fork \<and> user_addr_to_kernel a t = Ok phys t \<and>
          (let t' = t\<lparr>page_dir_table := page_addr 8\<rparr> in user_addr_to_kernel a t' = Ok phys t'))"
    and ct: "\<forall>p < PAGING_PAGES. mem_map demo_fork ! p \<noteq> 0 \<longrightarrow> mem_map t ! p = mem_map demo_fork ! p + word_of_nat (mappings demo_fork 5 {0..<m} p)"
    by (elim exE conjE)
  have m: "m = 1" using few t(2) demo_fork_ok(3) by (cases m) (auto simp: present_def)
  have "mem_map demo_fork ! 7 = 1" by (simp add: demo_fork_def)
  then have "mem_map t ! 7 = 2" using ct [rule_format, of 7] demo_fork_ok(2) unfolding m by simp
  moreover have "walk (pmem t) (page_addr 8) 0xC0001234 = Some (shared_entry (map_entry (page_addr 7) 0))" using w ids m demo_fork_walk(1) by simp
  moreover have "let t' = t\<lparr>page_dir_table := page_addr 8\<rparr> in user_addr_to_kernel 0xC0001234 t' = Ok (page_addr 7 + 0x234) t'"
    using u [rule_format, OF _ c(2,3) demo_fork_walk(1)] ids m src by (auto simp: Let_def)
  ultimately show ?thesis using t(1) m by (intro exI [of _ t]) simp
qed


text \<open>C38: a forked process gets only the first 2 MB of its parent's address space. \<open>copy_mem\<close> passes the number
  of pages of the data segment where \<open>copy_page_tables\<close> expects bytes, so for every segment of up to
  8 GB (\<open>execve\<close> always makes it 64 MB) exactly one table is copied: addresses in the first 2 MB
  translate as in the parent, and no other address is mapped in the child, in particular not the stack
  at the end of the segment.\<close>

theorem copy_mem_first_table:
  assumes dir: "page_dir_table s = page_addr d" and p: "p \<noteq> 0" and base: "t_data_base (tasks s p) = USER_START_ADDR"
    and pd: "t_page_dir (tasks s p) = page_addr e" and lim: "0x1000 \<le> t_data_limit (tasks s p)" "t_data_limit (tasks s p) \<le> 0x200000000"
    and ok: "fork_ok s d e {0..<1}" and child: "\<And>j. j < 512 \<Longrightarrow> \<not> pte_v (slot (pmem s) e j)" and free: "0 < card (free_pages_of s)"
  shows "\<exists>t. copy_mem p s = Ok 0 t \<and>
    (\<forall>a. walk (pmem t) (page_addr e) a = (if GET_PAGE_DIR_ID a = 0 then map_option shared_entry (walk (pmem s) (page_addr d) a) else None))"
proof -
  define s' where "s' = s\<lparr>tasks := (tasks s)(p := (tasks s p)\<lparr>t_start_code := USER_START_ADDR\<rparr>)\<rparr>"
  have mem: "pmem s' = pmem s" "mem_map s' = mem_map s" "page_dir_table s' = page_addr d" by (simp_all add: s'_def dir)
  have tabs: "tab s' = tab s" "present s' = present s" by (simp_all add: fun_eq_iff tab_def present_def mem)
  then have "mappings s' = mappings s" by (simp add: fun_eq_iff mappings_def mem)
  with tabs have ok': "fork_ok s' d e {0..<1}" using ok
    unfolding fork_ok_def fork_dirs_def fork_table_def fork_count_def mem(1,2) by simp
  have n: "1 = unat (GET_PAGE_DIR_SIZE (t_data_limit (tasks s p) div 4096))"
  proof -
    let ?u = "unat (t_data_limit (tasks s p))"
    have "4096 \<le> ?u" "?u \<le> 0x200000000" using lim by (simp_all add: word_le_nat_alt)
    then have "unat (t_data_limit (tasks s p) div 4096 + 0x200000 - 1) = ?u div 4096 + 0x1FFFFF" "1 \<le> ?u div 4096" "?u div 4096 \<le> 0x200000"
      by (simp_all add: unat_word_ariths unat_div)
    then show ?thesis by (simp add: GET_PAGE_DIR_SIZE_def unat_drop_bit)
  qed
  obtain t m where t: "copy_page_tables USER_START_ADDR USER_START_ADDR (page_addr e) (t_data_limit (tasks s p) div 4096) s' = Ok (if m = 1 then 0 else - 1) t" "m \<le> 1"
    and sh: "shared_space d e {0..<m} s' t" and few: "m < 1 \<longrightarrow> card (free_pages_of s') \<le> card (present s' d {0..<m})"
    using copy_page_tables_run [OF mem(3) _ n ok', of USER_START_ADDR] by auto
  have "free_pages_of s' = free_pages_of s" by (simp add: free_pages_of_def mem)
  then have m: "m = 1" using few t(2) free by (cases m) (simp_all add: present_def)
  have "copy_mem p s = Ok 0 t"
    using t(1) p base pd by (simp add: copy_mem_def upd_task_def get_task_def m s'_def retk_def)
  moreover have "walk (pmem t) (page_addr e) a = (if GET_PAGE_DIR_ID a = 0 then map_option shared_entry (walk (pmem s) (page_addr d) a) else None)" for a
  proof (cases "GET_PAGE_DIR_ID a = 0")
    case True
    then show ?thesis using shared_space_walk(1) [OF ok', of t a] sh by (simp add: m mem)
  next
    case False
    then have i: "unat (GET_PAGE_DIR_ID a) \<noteq> 0" "unat (GET_PAGE_DIR_ID a) < 512" using dir_id_less by (simp_all add: unat_eq_0)
    then have "unat (GET_PAGE_DIR_ID a) \<notin> present s' d {0..<1}" by (simp add: present_def)
    moreover have "e \<notin> tab s' d ` present s' d {0..<1}" using fork_ok_table(5) [OF ok'] by (metis imageE)
    ultimately have "slot (pmem t) e (unat (GET_PAGE_DIR_ID a)) = slot (pmem s') e (unat (GET_PAGE_DIR_ID a))"
      using sh fork_okD(4,7) [OF ok'] i(2) unfolding shared_space_def m by blast
    then show ?thesis using child [OF i(2)] False walk_slots [OF refl refl, of "pmem t" e a] by (simp add: mem)
  qed
  ultimately show ?thesis by blast
qed

theorem copy_mem_first_table_witness:
  "\<exists>t. copy_mem (page_addr 11) demo_fork = Ok 0 t \<and>
     walk (pmem t) (page_addr 8) 0xC0001234 = Some (shared_entry (map_entry (page_addr 7) 0)) \<and>
     walk (pmem demo_fork) (page_addr 5) 0xC3FFF000 = Some (map_entry (page_addr 10) 0) \<and> walk (pmem t) (page_addr 8) 0xC3FFF000 = None"
proof -
  have "\<not> pte_v (slot (pmem demo_fork) 8 j)" if "j < 512" for j using that by (simp add: demo_fork_slot pte_v_def)
  moreover have "page_dir_table demo_fork = page_addr 5" by (simp add: demo_fork_def demo_vm_def)
  moreover have "page_addr 11 \<noteq> 0" by simp
  moreover have "t_data_base (tasks demo_fork (page_addr 11)) = USER_START_ADDR" "t_page_dir (tasks demo_fork (page_addr 11)) = page_addr 8"
    "t_data_limit (tasks demo_fork (page_addr 11)) = 0x4000000" by (simp_all add: demo_fork_def)
  ultimately obtain t where "copy_mem (page_addr 11) demo_fork = Ok 0 t"
    "\<forall>a. walk (pmem t) (page_addr 8) a = (if GET_PAGE_DIR_ID a = 0 then map_option shared_entry (walk (pmem demo_fork) (page_addr 5) a) else None)"
    using copy_mem_first_table [of demo_fork 5 "page_addr 11" 8] demo_fork_ok by auto
  moreover have "GET_PAGE_DIR_ID 0xC0001234 = 0" "GET_PAGE_DIR_ID 0xC3FFF000 \<noteq> 0" by (simp_all add: GET_PAGE_DIR_ID_def)
  ultimately show ?thesis using demo_fork_walk by simp
qed

end
