(* ===== verification/Uaccess.thy ===== *)
theory Uaccess
  imports Paging
begin

text \<open>
  The accesses of \<open>kernel/segment.c\<close> when no translation is involved: the kernel's own segment is selected
  (\<open>set_fs(get_ds())\<close>) or the address lies below user space. Byte by byte loops then are block stores and
  loads.
\<close>

definition direct_addr :: "kstate \<Rightarrow> ulong \<Rightarrow> bool" where
  "direct_addr s a \<longleftrightarrow> fs_is_kernel s \<noteq> 0 \<or> a < USER_START_ADDR"

lemma fs_addr_direct: "direct_addr s a \<Longrightarrow> fs_addr a s = Ok a s"
  by (auto simp: direct_addr_def fs_addr_def get_fs_def getk_def user_addr_to_kernel_def translate_round_def retk_def loopk_numeral)

lemma get_fs_byte_direct: "direct_addr s a \<Longrightarrow> get_fs_byte a s = Ok (pmem s a) s"
  by (simp add: get_fs_byte_def fs_addr_direct getk_def)

lemma put_fs_byte_direct: "direct_addr s a \<Longrightarrow> put_fs_byte v a s = Ok () (store_bytes a [v] s)"
  by (simp add: put_fs_byte_def fs_addr_direct modk_def)

lemma store_bytes_Nil [simp]: "store_bytes a [] s = s"
  by (simp add: store_bytes_def)

lemma direct_addr_store [simp]: "direct_addr (store_bytes a bs s) b = direct_addr s b"
  by (simp add: direct_addr_def store_bytes_def)

lemma store_bytes_other [simp]:
  "store_bytes a bs (s\<lparr>tty_table := x\<rparr>) = (store_bytes a bs s)\<lparr>tty_table := x\<rparr>"
  "tty_table (store_bytes a bs s) = tty_table s" "tasks (store_bytes a bs s) = tasks s" "current (store_bytes a bs s) = current s"
  "inode_table (store_bytes a bs s) = inode_table s" "file_table (store_bytes a bs s) = file_table s" "bufs (store_bytes a bs s) = bufs s"
  by (rule kstate.equality; simp add: store_bytes_def cong: if_cong) (simp_all add: store_bytes_def)

definition stored :: "ulong \<Rightarrow> u8 list \<Rightarrow> (ulong \<Rightarrow> u8) \<Rightarrow> ulong \<Rightarrow> u8" where
  "stored a bs m x = (if unat (x - a) < length bs then bs ! unat (x - a) else m x)"

lemma store_bytes_stored: "store_bytes a bs s = s\<lparr>pmem := stored a bs (pmem s)\<rparr>"
  by (simp add: store_bytes_def stored_def [abs_def])

lemma stored_Cons:
  assumes "length bs < 2 ^ 64 - 1"
  shows "stored (a + 1) bs (stored a [b] m) = stored a (b # bs) m"
proof
  fix x
  show "stored (a + 1) bs (stored a [b] m) x = stored a (b # bs) m x"
  proof (cases "x = a")
    case True
    moreover have "unat (- 1 :: ulong) = 2 ^ 64 - 1" by (simp add: unsigned_minus_1_eq_mask mask_eq_exp_minus_1)
    ultimately show ?thesis using assms by (simp add: stored_def)
  next
    case False
    then have "x - a \<noteq> 0" by simp
    then have "unat (x - a - 1) = unat (x - a) - 1" "0 < unat (x - a)" by (simp_all add: unat_minus_one unat_gt_0)
    then have "unat (x - (a + 1)) = unat (x - a) - 1" "0 < unat (x - a)" by (simp_all only: diff_diff_eq)
    then show ?thesis by (auto simp: stored_def nth_Cons')
  qed
qed

lemma store_bytes_Cons:
  "length bs < 2 ^ 64 - 1 \<Longrightarrow> store_bytes (a + 1) bs (store_bytes a [b] s) = store_bytes a (b # bs) s"
  by (simp add: store_bytes_stored stored_Cons)

lemma load_store_bytes: "length bs < 2 ^ 64 \<Longrightarrow> load_bytes a (length bs) (store_bytes a bs s) = bs"
  by (rule nth_equalityI) (simp_all add: load_bytes_def store_bytes_def unsigned_of_nat take_bit_nat_eq_self)

lemma store_bytes_outside: "length bs \<le> unat (x - a) \<Longrightarrow> pmem (store_bytes a bs s) x = pmem s x"
  by (simp add: store_bytes_def)

section \<open>Copy loops\<close>

lemma unat_of_nat_small: "n < 2 ^ 64 \<Longrightarrow> unat (word_of_nat n :: ulong) = n"
  by (simp add: unsigned_of_nat take_bit_nat_eq_self)

lemma stored_snoc:
  assumes "length bs < 2 ^ 64"
  shows "stored a (bs @ [b]) m = (stored a bs m)(a + word_of_nat (length bs) := b)"
proof
  fix x
  have "x = a + word_of_nat (length bs) \<longleftrightarrow> unat (x - a) = length bs"
    using unat_of_nat_small [OF assms] by (metis add_diff_cancel_left' diff_add_cancel add.commute word_unat_eq_iff)
  then show "stored a (bs @ [b]) m x = ((stored a bs m)(a + word_of_nat (length bs) := b)) x"
    by (auto simp: stored_def nth_append less_Suc_eq)
qed

lemma stored_append:
  "length bs + length cs < 2 ^ 64 \<Longrightarrow> stored (a + word_of_nat (length bs)) cs (stored a bs m) = stored a (bs @ cs) m"
proof (induction cs rule: rev_induct)
  case Nil
  then show ?case by (simp add: stored_def [abs_def])
next
  case (snoc c cs)
  then show ?case
    using stored_snoc [of "bs @ cs" a c m] stored_snoc [of cs "a + word_of_nat (length bs)" c "stored a bs m"]
    by (simp add: add.assoc)
qed

definition disjoint_ranges :: "ulong \<Rightarrow> nat \<Rightarrow> ulong \<Rightarrow> nat \<Rightarrow> bool" where
  "disjoint_ranges a n b m \<longleftrightarrow> (\<forall>i < n. \<forall>j < m. a + word_of_nat i \<noteq> b + word_of_nat j)"

lemma stored_outside:
  assumes "length bs < 2 ^ 64" "\<forall>j < length bs. x \<noteq> a + word_of_nat j"
  shows "stored a bs m x = m x"
proof -
  have "x = a + word_of_nat (unat (x - a))" by simp
  with assms(2) have "\<not> unat (x - a) < length bs" by metis
  then show ?thesis by (simp add: stored_def)
qed

lemma stored_inside: "j < length bs \<Longrightarrow> length bs < 2 ^ 64 \<Longrightarrow> stored a bs m (a + word_of_nat j) = bs ! j"
  by (simp add: stored_def unat_of_nat_small)

text \<open>A store into part of a block of memory, seen through indices of the block.\<close>

lemma stored_block:
  assumes "h + length bs \<le> N" "N < 2 ^ 64" "k < N"
  shows "stored (base + word_of_nat h) bs m (base + word_of_nat k) = (if h \<le> k \<and> k < h + length bs then bs ! (k - h) else m (base + word_of_nat k))"
proof (cases "h \<le> k \<and> k < h + length bs")
  case True
  then have "base + word_of_nat k = base + word_of_nat h + word_of_nat (k - h)" by (simp add: of_nat_diff)
  moreover have "k - h < length bs" "length bs < 2 ^ 64" using True assms by auto
  ultimately show ?thesis using True stored_inside [of "k - h" bs "base + word_of_nat h" m] by simp
next
  case False
  have "(word_of_nat k :: ulong) \<noteq> word_of_nat (h + j)" if "j < length bs" for j
  proof
    assume "(word_of_nat k :: ulong) = word_of_nat (h + j)"
    then have "unat (word_of_nat k :: ulong) = unat (word_of_nat (h + j) :: ulong)" by simp
    then have "k = h + j" using that assms by (simp add: unat_of_nat_small del: of_nat_add)
    with that False show False by simp
  qed
  then show ?thesis using False assms by (subst stored_outside) (auto simp: add.assoc)
qed

lemma load_bytes_Suc: "load_bytes a (Suc n) s = load_bytes a n s @ [pmem s (a + word_of_nat n)]"
  by (simp add: load_bytes_def)

lemma load_bytes_add: "load_bytes a (n + m) s = load_bytes a n s @ load_bytes (a + word_of_nat n) m s"
  by (induction m) (simp_all add: load_bytes_def add.assoc)

lemma load_bytes_cong: "(\<And>k. k < n \<Longrightarrow> pmem t (a + word_of_nat k) = pmem s (a + word_of_nat k)) \<Longrightarrow> load_bytes a n t = load_bytes a n s"
  by (simp add: load_bytes_def)

lemma disjoint_ranges_part:
  assumes "disjoint_ranges a n b m" "x + n' \<le> n" "y + m' \<le> m"
  shows "disjoint_ranges (a + word_of_nat x) n' (b + word_of_nat y) m'"
  unfolding disjoint_ranges_def
proof (intro allI impI)
  fix i j assume "i < n'" "j < m'"
  then have "a + word_of_nat (x + i) \<noteq> b + word_of_nat (y + j)"
    using assms(1) [unfolded disjoint_ranges_def, rule_format, of "x + i" "y + j"] assms(2,3) by linarith
  then show "a + word_of_nat x + word_of_nat i \<noteq> b + word_of_nat y + word_of_nat j" by (simp add: add.assoc)
qed

lemma length_load_bytes [simp]: "length (load_bytes a n s) = n"
  by (simp add: load_bytes_def)

text \<open>A loop that fetches byte \<open>k\<close> from \<open>src + k\<close> and puts it at \<open>dst + k\<close> is one store of the source range,
  when the ranges are apart and each step does what it says.\<close>

lemma copy_loop:
  assumes step: "\<And>k u M. k < n \<Longrightarrow> u = s\<lparr>pmem := M\<rparr> \<Longrightarrow> body k u = Ok () (u\<lparr>pmem := M(dst + word_of_nat k := M (src + word_of_nat k))\<rparr>)"
    and n: "n < 2 ^ 64" and dj: "disjoint_ranges src n dst n"
  shows "m \<le> n \<Longrightarrow> eachk body [0..<m] s = Ok () (s\<lparr>pmem := stored dst (load_bytes src m s) (pmem s)\<rparr>)"
proof (induction m)
  case 0
  have "stored dst [] (pmem s) = pmem s" by (simp add: stored_def [abs_def])
  then show ?case by (simp add: retk_def load_bytes_def)
next
  case (Suc m)
  let ?M = "stored dst (load_bytes src m s) (pmem s)"
  have "?M (src + word_of_nat m) = pmem s (src + word_of_nat m)"
    using dj Suc.prems n by (intro stored_outside) (auto simp: disjoint_ranges_def)
  then have "body m (s\<lparr>pmem := ?M\<rparr>) = Ok () (s\<lparr>pmem := ?M(dst + word_of_nat m := pmem s (src + word_of_nat m))\<rparr>)"
    using step [of m "s\<lparr>pmem := ?M\<rparr>" ?M] Suc.prems by simp
  also have "?M(dst + word_of_nat m := pmem s (src + word_of_nat m)) = stored dst (load_bytes src (Suc m) s) (pmem s)"
    using stored_snoc [of "load_bytes src m s"] Suc.prems n by (simp add: load_bytes_Suc)
  finally show ?case using Suc by (simp add: eachk_append retk_def)
qed

end
