(* ===== verification/File_IO.thy ===== *)
theory File_IO
  imports Files Uaccess Inode_Props
begin

text \<open>
  Reading and writing regular files (\<open>fs/file_dev.c\<close>) through the block map, the buffer cache and the ram
  disk, against the abstract view of a file as a sequence of bytes.
\<close>

section \<open>A file as a sequence of bytes\<close>

definition file_byte :: "kstate \<Rightarrow> m_inode \<Rightarrow> nat \<Rightarrow> u8" where
  "file_byte s n p = (let z = file_block s n (p div 1024) in if z = 0 then 0 else view s z ! (p mod 1024))"

definition file_bytes :: "kstate \<Rightarrow> m_inode \<Rightarrow> nat \<Rightarrow> nat \<Rightarrow> u8 list" where
  "file_bytes s n p c = map (file_byte s n) [p..<p + c]"

lemma length_file_bytes [simp]: "length (file_bytes s n p c) = c"
  by (simp add: file_bytes_def)

lemma file_bytes_append: "file_bytes s n p (c + d) = file_bytes s n p c @ file_bytes s n (p + c) d"
  using upt_add_eq_append [of p "p + c" d] by (simp add: file_bytes_def add.assoc)

text \<open>The tables consulted for a file block; the mapping depends on nothing else.\<close>

definition tables :: "kstate \<Rightarrow> m_inode \<Rightarrow> nat \<Rightarrow> nat set" where
  "tables s n b = (if b < 7 then {} else if b < 519 then {unat (i_zone n ! 7)}
     else {unat (i_zone n ! 8), table_entry s (unat (i_zone n ! 8)) ((b - 519) div 512)})"

lemma path_ok_tables: "path_ok s n b \<longleftrightarrow> (\<forall>z \<in> tables s n b. z < rd_blocks s)"
  by (auto simp: path_ok_def tables_def)

lemma file_block_cong:
  assumes "\<forall>z \<in> tables s n b. z \<noteq> 0 \<longrightarrow> view t z = view s z" "i_zone n' = i_zone n"
  shows "file_block t n' b = file_block s n b" "tables t n' b = tables s n b"
  using assms by (auto simp: file_block_def tables_def table_entry_def Let_def split: if_splits)

text \<open>Blocks \<open>0\<close> to \<open>N - 1\<close> of file \<open>n\<close>, open as table entry \<open>i\<close>, can be read: the block map stays on the disk.\<close>

definition readable :: "kstate \<Rightarrow> nat \<Rightarrow> nat \<Rightarrow> bool" where
  "readable s i N \<longleftrightarrow> usable s \<and> i < length (inode_table s) \<and> uint (i_dev (inode_table s ! i)) = RD \<and>
     length (i_zone (inode_table s ! i)) = 9 \<and> N \<le> 7 + 512 + 512 * 512 \<and>
     (\<forall>b < N. path_ok s (inode_table s ! i) b \<and> file_block s (inode_table s ! i) b < rd_blocks s)"

text \<open>What reading leaves as it was.\<close>

definition quiet :: "kstate \<Rightarrow> kstate \<Rightarrow> bool" where
  "quiet s t \<longleftrightarrow> usable t \<and> rd_blocks t = rd_blocks s \<and> (\<forall>m < rd_blocks s. view t m = view s m) \<and> room s \<subseteq> room t \<and>
     inode_table t = inode_table s \<and> fs_is_kernel t = fs_is_kernel s"

lemma quiet_trans: "quiet s t \<Longrightarrow> quiet t u \<Longrightarrow> quiet s u"
  by (auto simp: quiet_def)

lemma cache_frame_more: "cache_frame s t \<Longrightarrow> fs_is_kernel t = fs_is_kernel s \<and> pmem t = pmem s \<and> file_table t = file_table s"
  by (auto simp: cache_frame_def)

lemma quiet_frame: "usable t \<Longrightarrow> cache_frame s t \<Longrightarrow> rd_blocks t = rd_blocks s \<Longrightarrow> \<forall>m < rd_blocks s. view t m = view s m \<Longrightarrow>
    room s \<subseteq> room t \<Longrightarrow> quiet s t"
  using cache_frame_fs [of s t] cache_frame_more [of s t] by (simp add: quiet_def)

lemma quiet_file:
  assumes q: "quiet s t" and p: "path_ok s n b"
  shows "file_block t n b = file_block s n b" "path_ok t n b"
proof -
  have "\<forall>z \<in> tables s n b. z \<noteq> 0 \<longrightarrow> view t z = view s z" using q p by (simp add: quiet_def path_ok_tables)
  from file_block_cong [OF this, of n] show "file_block t n b = file_block s n b" "path_ok t n b"
    using p q by (simp_all add: path_ok_tables quiet_def)
qed

lemma quiet_readable: "quiet s t \<Longrightarrow> readable s i N \<Longrightarrow> readable t i N"
  using quiet_file [of s t "inode_table s ! i"] by (simp add: readable_def quiet_def)

lemma quiet_byte:
  assumes "quiet s t" "path_ok s n (p div 1024)" "file_block s n (p div 1024) < rd_blocks s"
  shows "file_byte t n p = file_byte s n p"
  using quiet_file [OF assms(1,2)] assms(1,3) by (simp add: file_byte_def Let_def quiet_def)

lemma quiet_bytes:
  assumes q: "quiet s t" and r: "readable s i N" and "p + c \<le> N * 1024"
  shows "file_bytes t (inode_table s ! i) p c = file_bytes s (inode_table s ! i) p c"
  unfolding file_bytes_def
proof (rule map_cong [OF refl])
  fix x assume "x \<in> set [p..<p + c]"
  then have "x div 1024 < N" using assms(3) by (simp add: less_mult_imp_div_less)
  then show "file_byte t (inode_table s ! i) x = file_byte s (inode_table s ! i) x"
    using r by (intro quiet_byte [OF q]) (simp_all add: readable_def)
qed

section \<open>Reading\<close>

text \<open>Storing a list of bytes one by one.\<close>

lemma put_loop:
  assumes step: "\<And>k u M. k < length bs \<Longrightarrow> u = s\<lparr>pmem := M\<rparr> \<Longrightarrow> body k u = Ok () (u\<lparr>pmem := M(dst + word_of_nat k := bs ! k)\<rparr>)"
    and n: "length bs < 2 ^ 64"
  shows "m \<le> length bs \<Longrightarrow> eachk body [0..<m] s = Ok () (s\<lparr>pmem := stored dst (take m bs) (pmem s)\<rparr>)"
proof (induction m)
  case 0
  have "stored dst [] (pmem s) = pmem s" by (simp add: stored_def [abs_def])
  then show ?case by (simp add: retk_def)
next
  case (Suc m)
  let ?M = "stored dst (take m bs) (pmem s)"
  have "body m (s\<lparr>pmem := ?M\<rparr>) = Ok () (s\<lparr>pmem := ?M(dst + word_of_nat m := bs ! m)\<rparr>)"
    using step [of m "s\<lparr>pmem := ?M\<rparr>" ?M] Suc.prems by simp
  also have "?M(dst + word_of_nat m := bs ! m) = stored dst (take (Suc m) bs) (pmem s)"
    using stored_snoc [of "take m bs" dst "bs ! m" "pmem s"] Suc.prems n by (simp add: take_Suc_conv_app_nth min_absorb2)
  finally show ?case using Suc by (simp add: eachk_append retk_def)
qed

text \<open>Reading block \<open>z\<close> with something done to memory and the file table before it is released.\<close>

lemma read_use:
  assumes u: "usable s" and z: "z < rd_blocks s"
  shows "\<exists>b t. bread RD (int z) s = Ok (Some b) t \<and> cache_frame s t \<and> b < length (bufs t) \<and> b_data (bufs t ! b) = view s z \<and>
    length (view s z) = 1024 \<and>
    (\<forall>F M. \<exists>v. brelse (Some b) (t\<lparr>file_table := F, pmem := M\<rparr>) = Ok () v \<and> quiet s v \<and> file_table v = F \<and> pmem v = M)"
proof -
  obtain b t where bt: "bread RD (int z) s = Ok (Some b) t" "reads s z b t"
    using bread_reads [of s z sync_dev] u z by (auto simp: usable_def bread_def)
  note r = bt(2) [unfolded reads_def]
  have len: "length (view s z) = 1024" using view_length [OF _ z bt(2)] u by (simp add: usable_def)
  have "\<exists>v. brelse (Some b) (t\<lparr>file_table := F, pmem := M\<rparr>) = Ok () v \<and> quiet s v \<and> file_table v = F \<and> pmem v = M" for F M
  proof -
    let ?u = "t\<lparr>file_table := F, pmem := M\<rparr>"
    note o = cache_other [of ?u t, simplified]
    from reads_release [OF u bt(2), of ?u] o r obtain v where v: "brelse (Some b) ?u = Ok () v" "fs_ok v" "cache_frame ?u v"
      "rd_blocks v = rd_blocks s" "\<forall>m. view v m = view ?u m" "\<forall>x < length (bufs v). b_count (bufs v ! x) \<noteq> 255" "room s \<subseteq> room v" by auto
    have "usable v" using v u by (auto simp: usable_def)
    moreover have "inode_table v = inode_table s \<and> fs_is_kernel v = fs_is_kernel s" "file_table v = F \<and> pmem v = M"
      using cache_frame_fs [OF v(3)] cache_frame_more [OF v(3)] cache_frame_fs [of s t] cache_frame_more [of s t] r by simp_all
    ultimately show ?thesis using v r o by (intro exI [of _ v]) (simp add: quiet_def)
  qed
  then show ?thesis using bt r len by blast
qed

lemma c_div_nat: "c_div (int p) 1024 = int (p div 1024)" "c_rem (int p) 1024 = int (p mod 1024)"
proof -
  show d: "c_div (int p) 1024 = int (p div 1024)" by (cases "p = 0") (simp_all add: c_div_def zdiv_int)
  show "c_rem (int p) 1024 = int (p mod 1024)" 
    using minus_mult_div_eq_mod [of "int p" 1024] by (simp add: c_rem_def d zdiv_int zmod_int)
qed

lemma file_bytes_block:
  assumes "p mod 1024 + c \<le> 1024" "file_block s n (p div 1024) \<noteq> 0 \<Longrightarrow> length (view s (file_block s n (p div 1024))) = 1024"
  shows "file_bytes s n p c = (let z = file_block s n (p div 1024) in if z = 0 then replicate c 0 else take c (drop (p mod 1024) (view s z)))"
proof (rule nth_equalityI)
  fix k assume "k < length (file_bytes s n p c)"
  then have k: "k < c" "p mod 1024 + k < 1024" using assms(1) by simp_all
  have e: "p + k = (p mod 1024 + k) + 1024 * (p div 1024)" by simp
  have "(p + k) div 1024 = p div 1024" "(p + k) mod 1024 = p mod 1024 + k"
    unfolding e using k(2) by (simp_all only: div_mult_self2 mod_mult_self2 div_less mod_less add_0_right)
  then show "file_bytes s n p c ! k = (let z = file_block s n (p div 1024) in if z = 0 then replicate c 0 else take c (drop (p mod 1024) (view s z))) ! k"
    using k assms by (simp add: file_bytes_def file_byte_def Let_def)
qed (use assms in \<open>simp add: Let_def\<close>)

lemma file_read_round_law:
  assumes r: "readable s i N" and n: "n = inode_table s ! i" and f: "f < length (file_table s)" "f_pos (file_table s ! f) = int p"
    and p: "p < N * 1024" and l: "0 < l" "c = min (1024 - p mod 1024) l"
    and d: "\<forall>k < c. direct_addr s (buf + word_of_int (count - int l) + word_of_nat k)"
  shows "\<exists>t. file_read_round i f buf count (int l) s = Ok (Inl (int (l - c))) t \<and> quiet s t \<and>
    file_table t = (file_table s)[f := (file_table s ! f)\<lparr>f_pos := int (p + c)\<rparr>] \<and>
    pmem t = stored (buf + word_of_int (count - int l)) (file_bytes s n p c) (pmem s)"
proof -
  let ?z = "file_block s n (p div 1024)" and ?off = "p mod 1024" and ?dst = "buf + word_of_int (count - int l)"
  let ?F = "(file_table s)[f := (file_table s ! f)\<lparr>f_pos := int (p + c)\<rparr>]"
  have b: "p div 1024 < N" using p by (simp add: less_mult_imp_div_less)
  have h: "usable s" "i < length (inode_table s)" "uint (i_dev n) = RD" "length (i_zone n) = 9" "N \<le> 262663"
    "path_ok s n (p div 1024)" "?z < rd_blocks s" using r b by (simp_all add: readable_def n)
  have bl: "p div 1024 < 7 + 512 + 512 * 512" using b h(5) by simp
  obtain t1 where t1: "bmap i (int (p div 1024)) s = Ok (int ?z) t1" "quiet s t1" "cache_frame s t1"
    using bmap_law [OF h(1,2) n h(3,4) bl h(6), of False] quiet_frame [of _ s] by (auto simp: bmap_def)
  have ci: "c_int (int (p div 1024)) = int (p div 1024)" using bl by (intro c_int_id) simp_all
  have c: "c \<le> l" "?off + c \<le> 1024" "min (1024 - int ?off) (int l) = int c" "c < 2 ^ 64"
    using l(2) by (auto simp: of_nat_diff min_def)
  have gf: "get_file f s = Ok (file_table s ! f) s" "get_inode i t1 = Ok n t1" using f h(2) t1(2) n by (simp_all add: kdefs get_inode_def quiet_def)
  have tf: "file_table t1 = file_table s" "pmem t1 = pmem s" using cache_frame_more [OF t1(3)] by simp_all
  have put: "put_fs_byte v (?dst + word_of_nat k) u = Ok () (u\<lparr>pmem := M(?dst + word_of_nat k := v)\<rparr>)"
    if "k < c" "u = w\<lparr>pmem := M\<rparr>" "fs_is_kernel w = fs_is_kernel s" for k u w M v
  proof -
    have "direct_addr u (?dst + word_of_nat k)" using that d by (simp add: direct_addr_def)
    moreover have "stored a [v] mm = mm(a := v)" for a and mm :: "ulong \<Rightarrow> u8"
      using stored_snoc [of "[]" a v mm] by (simp add: stored_def [abs_def])
    ultimately show ?thesis using that(2) by (simp add: put_fs_byte_direct store_bytes_stored)
  qed
  show ?thesis
  proof (cases "?z = 0")
    case True
    then have bs: "file_bytes s n p c = replicate c 0" using file_bytes_block [OF c(2), of s n] by simp
    have "eachk (\<lambda>k. put_fs_byte 0 (?dst + word_of_nat k)) [0..<c] (t1\<lparr>file_table := ?F\<rparr>) =
       Ok () (t1\<lparr>file_table := ?F, pmem := stored ?dst (take c (replicate c 0)) (pmem t1)\<rparr>)"
      using put_loop [of "replicate c 0" "t1\<lparr>file_table := ?F\<rparr>" "\<lambda>k. put_fs_byte 0 (?dst + word_of_nat k)" ?dst c] put c(4) t1(2)
      by (simp add: quiet_def)
    then have "file_read_round i f buf count (int l) s = Ok (Inl (int (l - c))) (t1\<lparr>file_table := ?F, pmem := stored ?dst (replicate c 0) (pmem s)\<rparr>)"
      using l(1) gf t1(1) ci c True f tf by (simp add: file_read_round_def c_div_nat kdefs Let_def retk_def of_nat_diff)
    moreover have "quiet s (t1\<lparr>file_table := ?F, pmem := M\<rparr>)" for M
      using t1(2) cache_other [of "t1\<lparr>file_table := ?F, pmem := M\<rparr>" t1] by (simp add: quiet_def)
    ultimately show ?thesis using bs by (intro exI) auto
  next
    case False
    have "?z < rd_blocks t1" "usable t1" using h(7) t1(2) by (simp_all add: quiet_def)
    from read_use [OF this(2,1)] obtain x t2 where x: "bread RD (int ?z) t1 = Ok (Some x) t2" "cache_frame t1 t2" "x < length (bufs t2)"
      "b_data (bufs t2 ! x) = view t1 ?z" "length (view t1 ?z) = 1024"
      "\<And>F M. \<exists>v. brelse (Some x) (t2\<lparr>file_table := F, pmem := M\<rparr>) = Ok () v \<and> quiet t1 v \<and> file_table v = F \<and> pmem v = M" by blast
    have vz: "view t1 ?z = view s ?z" using t1(2) h(7) by (simp add: quiet_def)
    let ?bs = "file_bytes s n p c"
    have bs: "?bs = take c (drop ?off (view s ?z))" using file_bytes_block [OF c(2), of s n] False x(5) vz by (simp add: Let_def)
    note t2 = cache_frame_more [OF x(2)]
    let ?body = "\<lambda>k. bindk (get_bh x) (\<lambda>h. bindk (nthk (b_data h) (?off + k)) (\<lambda>c. put_fs_byte c (?dst + word_of_nat k)))"
    have "eachk ?body [0..<c] (t2\<lparr>file_table := ?F\<rparr>) = Ok () (t2\<lparr>file_table := ?F, pmem := stored ?dst (take c ?bs) (pmem t2)\<rparr>)"
    proof -
      have "?body k u = Ok () (u\<lparr>pmem := M(?dst + word_of_nat k := ?bs ! k)\<rparr>)"
        if "k < length ?bs" "u = (t2\<lparr>file_table := ?F\<rparr>)\<lparr>pmem := M\<rparr>" for k u M
        using that put [OF _ that(2)] x(3-5) vz c(2) t2 t1(2) bs
        by (simp add: get_bh_def nthk_def quiet_def)
      from put_loop [where m = c, OF this] c(4) show ?thesis by simp
    qed
    moreover obtain v where v: "brelse (Some x) (t2\<lparr>file_table := ?F, pmem := stored ?dst ?bs (pmem s)\<rparr>) = Ok () v" "quiet t1 v"
      "file_table v = ?F" "pmem v = stored ?dst ?bs (pmem s)" using x(6) by blast
    ultimately have "file_read_round i f buf count (int l) s = Ok (Inl (int (l - c))) v"
      using l(1) gf t1(1) ci c False f tf t2 x(1) h(3) by (simp add: file_read_round_def c_div_nat kdefs Let_def retk_def of_nat_diff)
    then show ?thesis using v quiet_trans [OF t1(2) v(2)] by blast
  qed
qed

lemma file_read_loop:
  assumes "readable s i N" "n = inode_table s ! i" "f < length (file_table s)" "f_pos (file_table s ! f) = int p"
    and "p + l \<le> N * 1024" "l < fuel" "\<forall>k < l. direct_addr s (buf + word_of_int (count - int l) + word_of_nat k)"
  shows "\<exists>t. loopk fuel (file_read_round i f buf count) (int l) s = Ok 0 t \<and> quiet s t \<and>
    file_table t = (file_table s)[f := (file_table s ! f)\<lparr>f_pos := int (p + l)\<rparr>] \<and>
    pmem t = stored (buf + word_of_int (count - int l)) (file_bytes s n p l) (pmem s)"
  using assms
proof (induction l arbitrary: s p fuel rule: less_induct)
  case (less l)
  then obtain g where g: "fuel = Suc g" by (cases fuel) auto
  let ?a = "buf + word_of_int (count - int l)"
  show ?case
  proof (cases "l = 0")
    case True
    have "stored ?a [] (pmem s) = pmem s" by (simp add: stored_def [abs_def])
    moreover have "(file_table s ! f)\<lparr>f_pos := int p\<rparr> = file_table s ! f" using less.prems(4) by (simp add: file_struct.equality)
    moreover have "quiet s s" using less.prems(1) by (simp add: quiet_def readable_def)
    ultimately show ?thesis using True by (simp add: g file_read_round_def retk_def file_bytes_def)
  next
    case False
    define c where "c = min (1024 - p mod 1024) l"
    have c: "0 < c" "c \<le> l" using False by (simp_all add: c_def)
    have N: "N \<le> 262663" using less.prems(1) by (simp add: readable_def)
    have "\<exists>t. file_read_round i f buf count (int l) s = Ok (Inl (int (l - c))) t \<and> quiet s t \<and>
      file_table t = (file_table s)[f := (file_table s ! f)\<lparr>f_pos := int (p + c)\<rparr>] \<and> pmem t = stored ?a (file_bytes s n p c) (pmem s)"
      using less.prems False c by (intro file_read_round_law [OF less.prems(1-4) _ _ c_def]) simp_all
    then obtain t where t: "file_read_round i f buf count (int l) s = Ok (Inl (int (l - c))) t" "quiet s t"
      "file_table t = (file_table s)[f := (file_table s ! f)\<lparr>f_pos := int (p + c)\<rparr>]" "pmem t = stored ?a (file_bytes s n p c) (pmem s)" by blast
    have a: "buf + word_of_int (count - int (l - c)) = ?a + word_of_nat c" using c by (simp add: of_nat_diff)
    have "\<exists>u. loopk g (file_read_round i f buf count) (int (l - c)) t = Ok 0 u \<and> quiet t u \<and>
      file_table u = (file_table t)[f := (file_table t ! f)\<lparr>f_pos := int (p + c + (l - c))\<rparr>] \<and>
      pmem u = stored (buf + word_of_int (count - int (l - c))) (file_bytes t n (p + c) (l - c)) (pmem t)"
    proof (rule less.IH)
      show "l - c < l" "l - c < g" "f < length (file_table t)" "f_pos (file_table t ! f) = int (p + c)" "p + c + (l - c) \<le> N * 1024"
        using c less.prems t(3) by (simp_all add: g)
      show "readable t i N" by (rule quiet_readable [OF t(2) less.prems(1)])
      show "n = inode_table t ! i" using less.prems(2) t(2) by (simp add: quiet_def)
      show "\<forall>k < l - c. direct_addr t (buf + word_of_int (count - int (l - c)) + word_of_nat k)"
      proof (intro allI impI)
        fix k assume "k < l - c"
        then have "direct_addr s (?a + word_of_nat (c + k))" using less.prems(7) [rule_format, of "c + k"] by simp
        then show "direct_addr t (buf + word_of_int (count - int (l - c)) + word_of_nat k)"
          using t(2) unfolding a by (simp add: direct_addr_def quiet_def add.assoc)
      qed
    qed
    then obtain u where u: "loopk g (file_read_round i f buf count) (int (l - c)) t = Ok 0 u" "quiet t u"
      "file_table u = (file_table t)[f := (file_table t ! f)\<lparr>f_pos := int (p + l)\<rparr>]"
      "pmem u = stored (buf + word_of_int (count - int (l - c))) (file_bytes t n (p + c) (l - c)) (pmem t)" using c by auto
    have "file_bytes t n (p + c) (l - c) = file_bytes s n (p + c) (l - c)"
      using quiet_bytes [OF t(2) less.prems(1), of "p + c" "l - c"] less.prems(2,5) c by simp
    then have "pmem u = stored ?a (file_bytes s n p l) (pmem s)"
      using u(4) t(4) file_bytes_append [of s n p c "l - c"] stored_append [of "file_bytes s n p c" "file_bytes s n (p + c) (l - c)" ?a "pmem s"] c N less.prems(5)
      unfolding a by simp
    then show ?thesis using t(1,3) u less.prems(3) quiet_trans [OF t(2) u(2)] by (intro exI [of _ u]) (simp add: g)
  qed
qed

lemma file_read_law:
  assumes "readable s i N" "n = inode_table s ! i" "f < length (file_table s)" "f_pos (file_table s ! f) = int p"
    and "p + l \<le> N * 1024" "0 < l" "\<forall>k < l. direct_addr s (buf + word_of_nat k)"
  shows "\<exists>t. file_read i f buf (int l) s = Ok (int l) t \<and> load_bytes buf l t = file_bytes s n p l \<and>
    f_pos (file_table t ! f) = int (p + l) \<and> (\<forall>m < rd_blocks s. view t m = view s m) \<and> usable t"
proof -
  obtain t where t: "loopk (l + 1) (file_read_round i f buf (int l)) (int l) s = Ok 0 t" "quiet s t"
    "file_table t = (file_table s)[f := (file_table s ! f)\<lparr>f_pos := int (p + l)\<rparr>]" "pmem t = stored buf (file_bytes s n p l) (pmem s)"
    using file_read_loop [OF assms(1-5), of "l + 1" buf "int l"] assms(7) by auto
  let ?u = "t\<lparr>inode_table := (inode_table t)[i := (inode_table t ! i)\<lparr>i_atime := word_of_int (CURRENT_TIME t)\<rparr>]\<rparr>"
  have i: "i < length (inode_table t)" "N \<le> 262663" using assms(1) t(2) by (simp_all add: readable_def quiet_def)
  have "file_read i f buf (int l) s = Ok (int l) ?u"
    using t(1) assms(6) i by (simp add: file_read_def getk_def upd_inode_def retk_def)
  moreover have "load_bytes buf l ?u = load_bytes buf l (store_bytes buf (file_bytes s n p l) s)"
    by (rule load_bytes_cong) (simp add: t(4) store_bytes_stored)
  then have "load_bytes buf l ?u = file_bytes s n p l" using load_store_bytes [of "file_bytes s n p l" buf s] i(2) assms(5) by simp
  moreover note cache_other [of ?u t, simplified]
  ultimately show ?thesis using t assms(3) by (intro exI [of _ ?u]) (simp add: quiet_def)
qed


section \<open>Writing\<close>

text \<open>The first \<open>N\<close> blocks of the file are all there, at different places of the disk and apart from the tables.\<close>

definition writable :: "kstate \<Rightarrow> nat \<Rightarrow> nat \<Rightarrow> bool" where
  "writable s i N \<longleftrightarrow> readable s i N \<and> inj_on (file_block s (inode_table s ! i)) {..<N} \<and>
     (\<forall>b < N. file_block s (inode_table s ! i) b \<noteq> 0 \<and>
       (\<forall>b' < N. file_block s (inode_table s ! i) b \<notin> tables s (inode_table s ! i) b'))"

text \<open>The effect of storing \<open>bs\<close> at position \<open>p\<close> of file \<open>i\<close>.\<close>

definition wrote :: "nat \<Rightarrow> nat \<Rightarrow> nat \<Rightarrow> u8 list \<Rightarrow> kstate \<Rightarrow> kstate \<Rightarrow> bool" where
  "wrote i N p bs s t \<longleftrightarrow> (let n = inode_table s ! i; n' = inode_table t ! i in writable t i N \<and> rd_blocks t = rd_blocks s \<and>
     length (inode_table t) = length (inode_table s) \<and> (\<forall>j. j \<noteq> i \<longrightarrow> inode_table t ! j = inode_table s ! j) \<and> i_zone n' = i_zone n \<and>
     uint (i_size n') = (if bs = [] then uint (i_size n) else max (uint (i_size n)) (int (p + length bs))) \<and>
     (\<forall>b < N. file_block t n' b = file_block s n b) \<and>
     (\<forall>q < N * 1024. file_byte t n' q = (if p \<le> q \<and> q < p + length bs then bs ! (q - p) else file_byte s n q)) \<and>
     (\<forall>m < rd_blocks s. m \<notin> file_block s n ` {..<N} \<longrightarrow> view t m = view s m) \<and>
     pmem t = pmem s \<and> file_table t = file_table s \<and> fs_is_kernel t = fs_is_kernel s)"

lemma wrote_refl: "writable s i N \<Longrightarrow> wrote i N p [] s s"
  by (auto simp: wrote_def Let_def)

lemma wrote_trans:
  assumes 1: "wrote i N p bs s t" and 2: "wrote i N (p + length bs) cs t u"
  shows "wrote i N p (bs @ cs) s u"
proof -
  note a = 1 [unfolded wrote_def Let_def] and b = 2 [unfolded wrote_def Let_def]
  have "file_block s (inode_table s ! i) ` {..<N} = file_block t (inode_table t ! i) ` {..<N}" using a by (intro image_cong) simp_all
  moreover have "file_byte u (inode_table u ! i) q = (if p \<le> q \<and> q < p + length (bs @ cs) then (bs @ cs) ! (q - p) else file_byte s (inode_table s ! i) q)"
    if "q < N * 1024" for q using a b that by (auto simp: nth_append)
  ultimately show ?thesis using a b unfolding wrote_def Let_def by auto
qed

text \<open>A change to the content of one data block keeps the block map.\<close>

lemma block_change:
  assumes w: "writable s i N" and b: "b < N" and n: "n = inode_table s ! i" and z: "z = file_block s n b"
    and t: "usable t" "rd_blocks t = rd_blocks s" "\<forall>m < rd_blocks s. m \<noteq> z \<longrightarrow> view t m = view s m"
    and i: "length (inode_table t) = length (inode_table s)" "i_zone (inode_table t ! i) = i_zone n" "i_dev (inode_table t ! i) = i_dev n"
  shows "writable t i N" "b' < N \<Longrightarrow> file_block t (inode_table t ! i) b' = file_block s n b'"
proof -
  let ?n = "inode_table t ! i"
  have "\<forall>y \<in> tables s n b'. y \<noteq> 0 \<longrightarrow> view t y = view s y" if "b' < N" for b'
  proof (intro ballI impI)
    fix y assume y: "y \<in> tables s n b'"
    then have "y < rd_blocks s" using w that by (auto simp: writable_def readable_def n path_ok_tables)
    moreover have "z \<notin> tables s n b'" using w b that by (simp add: writable_def n z)
    ultimately show "view t y = view s y" using t(3) y by metis
  qed
  note c = file_block_cong [OF this i(2)]
  show "b' < N \<Longrightarrow> file_block t ?n b' = file_block s n b'" by (rule c)
  have "inj_on (file_block t ?n) {..<N}" using w c(1) unfolding writable_def n inj_on_def by simp
  moreover have "readable t i N" using w t(1,2) i c n by (simp add: writable_def readable_def path_ok_tables)
  ultimately show "writable t i N" using w c n by (simp add: writable_def)
qed

lemma file_byte_split:
  assumes "b < N" "\<And>b'. b' < N \<Longrightarrow> file_block t n' b' = file_block s n b'" "inj_on (file_block s n) {..<N}" "\<forall>b < N. file_block s n b \<noteq> 0 \<and> file_block s n b < R"
    and "\<forall>m < R. m \<noteq> file_block s n b \<longrightarrow> view t m = view s m" "view t (file_block s n b) = put_bytes off bs (view s (file_block s n b))"
    and "length (view s (file_block s n b)) = 1024" "off + length bs \<le> 1024" "p = b * 1024 + off" "q < N * 1024"
  shows "file_byte t n' q = (if p \<le> q \<and> q < p + length bs then bs ! (q - p) else file_byte s n q)"
proof (cases "q div 1024 = b")
  case True
  have q: "q = b * 1024 + q mod 1024" using True by (metis div_mult_mod_eq)
  then have "p \<le> q \<longleftrightarrow> off \<le> q mod 1024" "q < p + length bs \<longleftrightarrow> q mod 1024 < off + length bs" "q - p = q mod 1024 - off"
    using assms(9) by linarith+
  then show ?thesis using assms True nth_put_bytes [of off bs "view s (file_block s n b)" "q mod 1024"] by (auto simp: file_byte_def Let_def)
next
  case False
  have qN: "q div 1024 < N" using assms(10) by (simp add: less_mult_imp_div_less)
  have "\<not> (p \<le> q \<and> q < p + length bs)"
  proof
    assume a: "p \<le> q \<and> q < p + length bs"
    then have "q - b * 1024 < 1024" "q = b * 1024 + (q - b * 1024)" using assms(8,9) by linarith+
    then have "q div 1024 = b" by (metis div_mult_self3 div_less add_0_right add.commute zero_neq_numeral)
    with False show False by simp
  qed
  moreover have "file_block s n (q div 1024) \<noteq> file_block s n b" using assms(1,3) qN False by (auto simp: inj_on_def)
  ultimately show ?thesis using assms(2,4,5) qN by (auto simp: file_byte_def Let_def)
qed

text \<open>Fetching bytes into a buffer one by one.\<close>

lemma put_bytes_snoc: "off + length bs < length xs \<Longrightarrow> put_bytes off (bs @ [v]) xs = (put_bytes off bs xs)[off + length bs := v]"
  by (intro nth_equalityI) (auto simp: nth_put_bytes nth_list_update nth_append)

lemma fetch_loop:
  assumes b: "b < length (bufs s)" and d: "\<forall>j < m. direct_addr s (a + word_of_nat j)" and l: "off + m \<le> length (b_data (bufs s ! b))"
  shows "eachk (\<lambda>j. bindk (get_fs_byte (a + word_of_nat j)) (\<lambda>v. upd_bh b (\<lambda>h. h\<lparr>b_data := (b_data h)[off + j := v]\<rparr>))) [0..<m] s =
    Ok () (s\<lparr>bufs := (bufs s)[b := (bufs s ! b)\<lparr>b_data := put_bytes off (load_bytes a m s) (b_data (bufs s ! b))\<rparr>]\<rparr>)"
  using d l
proof (induction m)
  case 0
  then show ?case by (simp add: retk_def load_bytes_def put_bytes_def)
next
  case (Suc m)
  let ?D = "put_bytes off (load_bytes a m s) (b_data (bufs s ! b))"
  let ?u = "s\<lparr>bufs := (bufs s)[b := (bufs s ! b)\<lparr>b_data := ?D\<rparr>]\<rparr>"
  have "direct_addr ?u (a + word_of_nat m)" using Suc.prems by (simp add: direct_addr_def)
  then show ?case using Suc b put_bytes_snoc [of off "load_bytes a m s" "b_data (bufs s ! b)"]
    by (simp add: eachk_append get_fs_byte_direct upd_bh_def retk_def load_bytes_Suc)
qed

text \<open>What a round does with a block it has read: mark it dirty, grow the file, fetch the bytes, release it.\<close>

lemma store_in_block:
  assumes u: "usable s" and r: "reads s z b t" and z: "z < rd_blocks s" and i: "i < length (inode_table s)"
    and bs: "off + length bs \<le> 1024"
  defines "v \<equiv> \<lambda>I. t\<lparr>bufs := (bufs t)[b := (bufs t ! b)\<lparr>b_dirt := 1, b_data := put_bytes off bs (view s z)\<rparr>], inode_table := I\<rparr>"
  shows "\<exists>w. brelse (Some b) (v I) = Ok () w \<and> fs_ok w \<and> cache_frame (v I) w \<and> rd_blocks w = rd_blocks s \<and>
    (\<forall>x < length (bufs w). b_count (bufs w ! x) \<noteq> 255) \<and> room s - {b} \<subseteq> room w \<and>
    view w z = put_bytes off bs (view s z) \<and> (\<forall>m < rd_blocks s. m \<noteq> z \<longrightarrow> view w m = view s m)"
proof -
  note r' = r [unfolded reads_def]
  have len: "length (view s z) = 1024" using view_length [OF _ z r] u by (simp add: usable_def)
  let ?t = "t\<lparr>bufs := (bufs t)[b := (bufs t ! b)\<lparr>b_data := put_bytes off bs (view s z), b_dirt := 1\<rparr>]\<rparr>"
  have zt: "z < rd_blocks t" "length (put_bytes off bs (view s z)) = BLOCK_SIZE" using z r' len bs by simp_all
  have t: "fs_ok t" "b < length (bufs t)" "bh_is RD (int z) (bufs t ! b)" "b_uptodate (bufs t ! b) \<noteq> 0" using r' by blast+
  note st = view_store [OF t(1) zt(1) t(2-4) zt(2), of 1, OF _ refl, simplified]
  have "h\<lparr>b_dirt := 1, b_data := D\<rparr> = h\<lparr>b_data := D, b_dirt := 1\<rparr>" for h :: buffer_head and D by (rule buffer_head.equality) simp_all
  from this [of _ "bufs t ! b"] have e: "v I = ?t\<lparr>inode_table := I\<rparr>" by (simp only: v_def)
  note o = cache_other [of "v I" ?t]
  have o: "fs_ok (v I)" "view (v I) = view ?t" "rd_blocks (v I) = rd_blocks s" using o st(1,4) r' unfolding e by simp_all
  have "\<exists>w. brelse (Some b) (v I) = Ok () w \<and> fs_ok w \<and> cache_frame (v I) w \<and> rd_blocks w = rd_blocks s \<and> (\<forall>m. view w m = view (v I) m) \<and>
    (\<forall>x < length (bufs w). b_count (bufs w ! x) \<noteq> 255) \<and> room s - {b} \<subseteq> room w \<and> (b_dirt (bufs (v I) ! b) = b_dirt (bufs t ! b) \<longrightarrow> room s \<subseteq> room w)"
    by (rule reads_release [OF u r o(1,3)]) (use r' in \<open>simp_all add: v_def\<close>)
  then obtain w where w: "brelse (Some b) (v I) = Ok () w" "fs_ok w" "cache_frame (v I) w" "rd_blocks w = rd_blocks s" "\<forall>m. view w m = view ?t m"
    "\<forall>x < length (bufs w). b_count (bufs w ! x) \<noteq> 255" "room s - {b} \<subseteq> room w" using o(2) by auto
  then show ?thesis using st(2,3) r' by (intro exI [of _ w]) simp
qed

lemma file_write_round_law:
  assumes w: "writable s i N" and n: "n = inode_table s ! i" and p: "p < N * 1024" "int k < count"
    and c: "c = min (1024 - p mod 1024) (nat (count - int k))" and d: "\<forall>j < c. direct_addr s (buf + word_of_nat k + word_of_nat j)"
    and rm: "2 \<le> card (room s)"
  shows "\<exists>t. file_write_round i buf count (int p, int k) s = Ok (Inl (int (p + c), int (k + c))) t \<and>
    wrote i N p (load_bytes (buf + word_of_nat k) c s) s t \<and> card (room s) \<le> card (room t) + 1"
proof -
  let ?z = "file_block s n (p div 1024)" and ?off = "p mod 1024" and ?a = "buf + word_of_nat k"
  let ?bs = "load_bytes ?a c s"
  have b: "p div 1024 < N" using p by (simp add: less_mult_imp_div_less)
  have h: "usable s" "i < length (inode_table s)" "uint (i_dev n) = RD" "length (i_zone n) = 9" "N \<le> 262663"
    "path_ok s n (p div 1024)" "?z < rd_blocks s" "?z \<noteq> 0" using w b by (simp_all add: writable_def readable_def n)
  have bl: "p div 1024 < 7 + 512 + 512 * 512" using b h(5) by simp
  have cc: "0 < c" "?off + c \<le> 1024" "min (1024 - int ?off) (count - int k) = int c"
    using p(2) unfolding c by (auto simp: of_nat_diff of_nat_min min_def)
  obtain t1 where t1: "create_block i (int (p div 1024)) s = Ok (int ?z) t1" "quiet s t1" "cache_frame s t1"
    using bmap_law [OF h(1,2) n h(3,4) bl h(6), of True] h(8) quiet_frame [of _ s] by (auto simp: create_block_def)
  note q = t1(2) [unfolded quiet_def]
  have ci: "c_int (int (p div 1024)) = int (p div 1024)" using bl by (intro c_int_id) simp_all
  obtain x t2 where x: "bread RD (int ?z) t1 = Ok (Some x) t2" "reads t1 ?z x t2"
    using bread_reads [of t1 ?z sync_dev] q h(7) by (auto simp: usable_def bread_def)
  have i1: "inode_table t2 = inode_table s" "pmem t2 = pmem s" "fs_is_kernel t2 = fs_is_kernel s" "file_table t2 = file_table s"
    using x(2) cache_frame_fs [of t1 t2] cache_frame_more [of t1 t2] cache_frame_more [OF t1(3)] q by (simp_all add: reads_def)
  have x2: "x < length (bufs t2)" "b_data (bufs t2 ! x) = view t1 ?z" "view t1 ?z = view s ?z" "length (view t1 ?z) = 1024"
    using x(2) q h(7) view_length [OF _ _ x(2)] by (auto simp: reads_def usable_def)
  define n' where "n' = (if int (p + c) > uint (i_size n) then n\<lparr>i_size := word_of_int (int (p + c)), i_dirt := 1\<rparr> else n)"
  let ?I = "(inode_table s)[i := n']"
  let ?v = "t2\<lparr>bufs := (bufs t2)[x := (bufs t2 ! x)\<lparr>b_dirt := 1, b_data := put_bytes ?off ?bs (view t1 ?z)\<rparr>], inode_table := ?I\<rparr>"
  have "?z < rd_blocks t1" "i < length (inode_table t1)" "?off + length ?bs \<le> 1024" using q h(2,7) cc(2) by simp_all
  from store_in_block [OF _ x(2) this, of ?I] q obtain t where t: "brelse (Some x) ?v = Ok () t" "fs_ok t" "cache_frame ?v t" "rd_blocks t = rd_blocks s"
    "\<forall>x < length (bufs t). b_count (bufs t ! x) \<noteq> 255" "room t1 - {x} \<subseteq> room t" "view t ?z = put_bytes ?off ?bs (view s ?z)"
    "\<forall>m < rd_blocks s. m \<noteq> ?z \<longrightarrow> view t m = view s m" using x2(3) by auto
  let ?u = "t2\<lparr>bufs := (bufs t2)[x := (bufs t2 ! x)\<lparr>b_dirt := 1\<rparr>], inode_table := ?I\<rparr>"
  have grow: "whenk (int (p + c) > uint (i_size n)) (upd_inode i (\<lambda>n. n\<lparr>i_size := word_of_int (int (p + c)), i_dirt := 1\<rparr>))
      (t2\<lparr>bufs := (bufs t2)[x := (bufs t2 ! x)\<lparr>b_dirt := 1\<rparr>]\<rparr>) = Ok () ?u"
    using h(2) i1 n by (auto simp: n'_def upd_inode_def whenk_def retk_def)
  have "load_bytes ?a c ?u = ?bs" by (rule load_bytes_cong) (simp add: i1)
  then have copy: "eachk (\<lambda>j. bindk (get_fs_byte (?a + word_of_nat j)) (\<lambda>v. upd_bh x (\<lambda>h. h\<lparr>b_data := (b_data h)[?off + j := v]\<rparr>))) [0..<c] ?u = Ok () ?v"
    using fetch_loop [of x ?u c ?a ?off] d x2 cc(2) i1(3) by (simp add: direct_addr_def)
  have mark: "upd_bh x (\<lambda>h. h\<lparr>b_dirt := 1\<rparr>) t2 = Ok () (t2\<lparr>bufs := (bufs t2)[x := (bufs t2 ! x)\<lparr>b_dirt := 1\<rparr>]\<rparr>)"
    using x2(1) by (simp add: upd_bh_def)
  have gi: "get_inode i t1 = Ok n t1" "get_inode i (t2\<lparr>bufs := B\<rparr>) = Ok n (t2\<lparr>bufs := B\<rparr>)" for B
    using q i1(1) h(2) n by (simp_all add: get_inode_def)
  have "file_write_round i buf count (int p, int k) s = Ok (Inl (int (p + c), int (k + c))) t"
    using p(2) t1(1) ci h(3,8) x(1) cc(3) grow copy t(1) gi mark
    by (simp add: file_write_round_def c_div_nat Let_def retk_def add.assoc)
  moreover have "card (room s) \<le> card (room t) + 1"
  proof -
    have f: "finite (room y)" for y by (simp add: room_def)
    have "card (room s - {x}) \<le> card (room t)" using t(6) q by (intro card_mono [OF f]) auto
    then show ?thesis using f [of s] by (cases "x \<in> room s") (simp_all add: card_Diff_singleton)
  qed
  moreover have "usable t" using t(2,5) calculation(2) rm by (auto simp: usable_def)
  moreover have ti: "inode_table t = ?I" "pmem t = pmem s" "file_table t = file_table s" "fs_is_kernel t = fs_is_kernel s"
    using cache_frame_fs [OF t(3)] cache_frame_more [OF t(3)] i1 by simp_all
  moreover have pc: "p + c \<le> N * 1024" "p = (p div 1024) * 1024 + ?off"
  proof -
    have "(p div 1024) * 1024 + 1024 \<le> N * 1024" using mult_right_mono [of "p div 1024 + 1" N 1024] b by simp
    then show "p = (p div 1024) * 1024 + ?off" "p + c \<le> N * 1024" using cc(2) div_mult_mod_eq [of p 1024] by linarith+
  qed
  moreover have n2: "i_zone n' = i_zone n" "i_dev n' = i_dev n" "uint (i_size n') = max (uint (i_size n)) (int (p + c))"
  proof -
    have "uint (word_of_int (int (p + c)) :: u32) = int (p + c)" using pc h(5) by (simp only: uint_word_of_int) simp
    then show "i_zone n' = i_zone n" "i_dev n' = i_dev n" "uint (i_size n') = max (uint (i_size n)) (int (p + c))"
      by (simp_all add: n'_def max_def)
  qed
  moreover have ni: "inode_table t ! i = n'" "length (inode_table t) = length (inode_table s)" using ti h(2) by simp_all
  moreover note bc = block_change [OF w b n refl \<open>usable t\<close> t(4,8) ni(2), unfolded ni, OF n2(1,2)]
  moreover have "file_byte t n' y = (if p \<le> y \<and> y < p + length ?bs then ?bs ! (y - p) else file_byte s n y)" if "y < N * 1024" for y
    by (rule file_byte_split [OF b bc(2) _ _ t(8,7) _ _ pc(2) that]) (use w n x2(3,4) cc(2) in \<open>simp_all add: writable_def readable_def\<close>)
  moreover have "?bs \<noteq> []" using cc(1) by (metis length_load_bytes less_numeral_extra(3) list.size(3))
  moreover have "view t m = view s m" if "m < rd_blocks s" "m \<notin> file_block s n ` {..<N}" for m using t(8) that b by auto
  ultimately show ?thesis using t(4) n by (intro exI [of _ t]) (auto simp: wrote_def Let_def)
qed

text \<open>The blocks a transfer of \<open>l\<close> bytes at position \<open>p\<close> touches.\<close>

definition blocks_of :: "nat \<Rightarrow> nat \<Rightarrow> nat" where
  "blocks_of p l = (p mod 1024 + l + 1023) div 1024"

lemma blocks_of_next:
  assumes "0 < l" "c = min (1024 - p mod 1024) l"
  shows "0 < blocks_of p l" "c < l \<Longrightarrow> blocks_of p l = blocks_of (p + c) (l - c) + 1"
proof -
  show "0 < blocks_of p l" using assms(1) by (simp add: blocks_of_def div_greater_zero_iff)
  assume "c < l"
  then have c: "c = 1024 - p mod 1024" using assms(2) by auto
  have "p + c = 1024 + 1024 * (p div 1024)" using c div_mult_mod_eq [of p 1024] mod_less_divisor [of 1024 p] by linarith
  then have "(p + c) mod 1024 = 0" by simp
  moreover have "p mod 1024 + l + 1023 = (l - c + 1023) + 1024 * 1" using c \<open>c < l\<close> mod_less_divisor [of 1024 p] by linarith
  ultimately show "blocks_of p l = blocks_of (p + c) (l - c) + 1" unfolding blocks_of_def
    by (simp only: div_mult_self2 add_0 zero_neq_numeral [symmetric] not_False_eq_True)
qed

lemma file_write_loop:
  assumes "writable s i N" "p + l \<le> N * 1024" "l < fuel" "blocks_of p l < card (room s)" "count = int (k + l)"
    and "\<forall>j < l. direct_addr s (buf + word_of_nat k + word_of_nat j)"
  shows "\<exists>t. loopk fuel (file_write_round i buf count) (int p, int k) s = Ok (int (p + l), count) t \<and>
    wrote i N p (load_bytes (buf + word_of_nat k) l s) s t"
  using assms
proof (induction l arbitrary: s p k fuel rule: less_induct)
  case (less l)
  then obtain g where g: "fuel = Suc g" by (cases fuel) auto
  let ?a = "buf + word_of_nat k"
  show ?case
  proof (cases "l = 0")
    case True
    then show ?thesis using less.prems(1,5) wrote_refl by (simp add: g file_write_round_def retk_def load_bytes_def)
  next
    case False
    define c where "c = min (1024 - p mod 1024) l"
    have c: "0 < c" "c \<le> l" "nat (count - int k) = l" "c = min (1024 - p mod 1024) (nat (count - int k))"
      using False less.prems(5) by (simp_all add: c_def)
    note nx = blocks_of_next [of l c p, OF _ c_def]
    have "\<exists>t. file_write_round i buf count (int p, int k) s = Ok (Inl (int (p + c), int (k + c))) t \<and>
      wrote i N p (load_bytes ?a c s) s t \<and> card (room s) \<le> card (room t) + 1"
      using less.prems False c nx by (intro file_write_round_law [OF less.prems(1) refl _ _ c(4)]) simp_all
    then obtain t where t: "file_write_round i buf count (int p, int k) s = Ok (Inl (int (p + c), int (k + c))) t"
      "wrote i N p (load_bytes ?a c s) s t" "card (room s) \<le> card (room t) + 1" by blast
    note w = t(2) [unfolded wrote_def Let_def]
    have "\<exists>u. loopk g (file_write_round i buf count) (int (p + c), int (k + c)) t = Ok (int (p + c + (l - c)), count) u \<and>
      wrote i N (p + c) (load_bytes (buf + word_of_nat (k + c)) (l - c) t) t u"
    proof (cases "c = l")
      case True
      then show ?thesis using less.prems(3,5) w wrote_refl False by (cases g) (auto simp: g file_write_round_def retk_def load_bytes_def)
    next
      case False
      show ?thesis
      proof (rule less.IH)
        show "l - c < l" "l - c < g" "p + c + (l - c) \<le> N * 1024" "writable t i N" "count = int (k + c + (l - c))"
          using c less.prems w by (simp_all add: g)
        show "blocks_of (p + c) (l - c) < card (room t)" using nx(2) False c less.prems(4) t(3) by simp
        show "\<forall>j < l - c. direct_addr t (buf + word_of_nat (k + c) + word_of_nat j)"
        proof (intro allI impI)
          fix j assume "j < l - c"
          then have "direct_addr s (?a + word_of_nat (c + j))" using less.prems(6) [rule_format, of "c + j"] by simp
          then show "direct_addr t (buf + word_of_nat (k + c) + word_of_nat j)" using w by (simp add: direct_addr_def add.assoc)
        qed
      qed
    qed
    then obtain u where u: "loopk g (file_write_round i buf count) (int (p + c), int (k + c)) t = Ok (int (p + l), count) u"
      "wrote i N (p + c) (load_bytes (buf + word_of_nat (k + c)) (l - c) t) t u" using c by auto
    have "load_bytes (buf + word_of_nat (k + c)) (l - c) t = load_bytes (?a + word_of_nat c) (l - c) s"
      using w by (simp add: load_bytes_def add.assoc)
    then have "wrote i N p (load_bytes ?a l s) s u"
      using wrote_trans [OF t(2), of "load_bytes (?a + word_of_nat c) (l - c) s" u] u(2) load_bytes_add [of ?a c "l - c" s] c by simp
    then show ?thesis using t(1) u(1) by (simp add: g)
  qed
qed

text \<open>A change of the times and the open files is none of the content.\<close>

lemma file_other:
  assumes "view u = view t" "rd_blocks u = rd_blocks t" "usable u = usable t" "length (inode_table u) = length (inode_table t)"
    and z: "i_zone (inode_table u ! i) = i_zone (inode_table t ! i)" and "i_dev (inode_table u ! i) = i_dev (inode_table t ! i)"
  shows "readable u i N = readable t i N" "file_byte u (inode_table u ! i) q = file_byte t (inode_table t ! i) q"
proof -
  note c = file_block_cong [of t _ _ u, OF _ z, unfolded assms(1), simplified]
  show "readable u i N = readable t i N" using assms c by (simp add: readable_def path_ok_tables)
  show "file_byte u (inode_table u ! i) q = file_byte t (inode_table t ! i) q" using c assms(1) by (simp add: file_byte_def Let_def)
qed

lemma file_write_law:
  assumes w: "writable s i N" "n = inode_table s ! i" and f: "f < length (file_table s)" "f_pos (file_table s ! f) = int p" "f_flags (file_table s ! f) AND O_APPEND = 0"
    and l: "p + l \<le> N * 1024" "0 < l" "blocks_of p l < card (room s)" "\<forall>j < l. direct_addr s (buf + word_of_nat j)"
  shows "\<exists>t. file_write i f buf (int l) s = Ok (int l) t \<and> readable t i N \<and> rd_blocks t = rd_blocks s \<and>
    uint (i_size (inode_table t ! i)) = max (uint (i_size n)) (int (p + l)) \<and>
    (\<forall>q < N * 1024. file_byte t (inode_table t ! i) q = (if p \<le> q \<and> q < p + l then pmem s (buf + word_of_nat (q - p)) else file_byte s n q)) \<and>
    (\<forall>m < rd_blocks s. m \<notin> file_block s n ` {..<N} \<longrightarrow> view t m = view s m) \<and>
    file_table t = (file_table s)[f := (file_table s ! f)\<lparr>f_pos := int (p + l)\<rparr>] \<and> fs_is_kernel t = fs_is_kernel s"
proof -
  have i: "i < length (inode_table s)" using w by (simp add: writable_def readable_def)
  obtain t where t: "loopk (l + 1) (file_write_round i buf (int l)) (int p, 0) s = Ok (int (p + l), int l) t" "wrote i N p (load_bytes buf l s) s t"
    using file_write_loop [OF w(1) l(1), of "l + 1" "int l" 0 buf] l by auto
  note W = t(2) [unfolded wrote_def Let_def]
  have bs: "load_bytes buf l s \<noteq> []" using l(2) by (metis length_load_bytes less_numeral_extra(3) list.size(3))
  let ?n = "inode_table t ! i" and ?F = "(file_table s)[f := (file_table s ! f)\<lparr>f_pos := int (p + l)\<rparr>]"
  let ?m = "?n\<lparr>i_mtime := word_of_int (CURRENT_TIME t), i_ctime := word_of_int (CURRENT_TIME t)\<rparr>"
  define u where "u = t\<lparr>inode_table := (inode_table t)[i := ?m], file_table := ?F\<rparr>"
  have "CURRENT_TIME (t\<lparr>inode_table := X\<rparr>) = CURRENT_TIME t" for X by (simp add: CURRENT_TIME_def)
  then have "file_write i f buf (int l) s = Ok (int l) u" unfolding u_def
    using t(1) f i l(2) w(2) W by (simp add: file_write_def getk_def upd_inode_def kdefs get_inode_def retk_def Let_def whenk_def)
  moreover have o: "view u = view t" "rd_blocks u = rd_blocks t" "usable u = usable t" using cache_other [of u t] by (simp_all add: u_def)
  moreover have ui: "inode_table u ! i = ?m" "length (inode_table u) = length (inode_table t)" "file_table u = ?F" "fs_is_kernel u = fs_is_kernel t"
    using i W by (simp_all add: u_def)
  moreover have z: "i_zone (inode_table u ! i) = i_zone ?n" "i_dev (inode_table u ! i) = i_dev ?n" "i_size (inode_table u ! i) = i_size ?n"
    by (simp_all add: ui(1))
  moreover note file_other [OF o ui(2) z(1,2)]
  moreover have "readable t i N" using W by (simp add: writable_def)
  moreover have "load_bytes buf l s ! k = pmem s (buf + word_of_nat k)" if "k < l" for k using that by (simp add: load_bytes_def)
  ultimately show ?thesis using W bs w(2) by (intro exI [of _ u]) auto
qed



section \<open>A file of the example file system\<close>

definition demo_file :: kstate where
  "demo_file = demo_fs\<lparr>file_table := replicate 2 (zero_file\<lparr>f_count := 1, f_pos := 1000\<rparr>) @ replicate 62 zero_file,
     pmem := (\<lambda>a. if a < 0x2000 then ucast a else 0)\<rparr>"

lemma demo_file_fields: "inode_table demo_file ! 0 = demo_inode" "f_pos (file_table demo_file ! 0) = int 1000" "f_pos (file_table demo_file ! 1) = int 1000"
  "f_flags (file_table demo_file ! 0) AND O_APPEND = 0" "length (file_table demo_file) = 64" "0 < length (inode_table demo_file)"
  by (simp_all add: demo_file_def demo_fs_def nth_append zero_file_def)

lemma demo_file_cache: "usable demo_file" "rd_blocks demo_file = 4"
  using demo_fs_cache cache_other [of demo_file demo_fs] by (simp_all add: demo_file_def)

lemma demo_file_writable: "writable demo_file 0 1"
  using demo_file_cache demo_file_fields(6)
  by (auto simp: writable_def readable_def demo_file_fields path_ok_tables tables_def inj_on_def)
    (simp_all add: file_block_def demo_inode_def zero_inode_def)

lemma demo_file_room: "card (room demo_file) = 2"
proof -
  have "bufs demo_file = bufs demo_cache" by (simp add: demo_file_def demo_fs_def)
  then have "room demo_file = {..<2}" using demo_cache_ok(6,7) by (auto simp: room_def)
  then show ?thesis by simp
qed

lemma demo_file_direct: "j < 4096 \<Longrightarrow> direct_addr demo_file (0x1000 + word_of_nat j)" "j < 4096 \<Longrightarrow> direct_addr demo_file (0x3000 + word_of_nat j)"
  by (simp_all add: direct_addr_def word_less_nat_alt unat_word_ariths unat_of_nat_small)




end
