(* ===== verification/Dir_Props.thy ===== *)
theory Dir_Props
  imports File_IO
begin

text \<open>
  Directories as maps: a block of directory entries represents a finite map from names to inode numbers, the
  search \<open>find_entry\<close> is its lookup, and \<open>add_entry\<close> with the store of the inode number its update.
\<close>

definition entry_inode :: "u8 list \<Rightarrow> nat \<Rightarrow> u16" where
  "entry_inode d k = get16 d (16 * k)"

definition entry_name :: "u8 list \<Rightarrow> nat \<Rightarrow> u8 list" where
  "entry_name d k = takeWhile (\<lambda>c. c \<noteq> 0) (take NAME_LEN (drop (16 * k + 2) d))"

definition entry_is :: "u8 list \<Rightarrow> u8 list \<Rightarrow> nat \<Rightarrow> bool" where
  "entry_is d w k \<longleftrightarrow> entry_inode d k \<noteq> 0 \<and> entry_name d k = w"

text \<open>The map of the first \<open>m\<close> entries; an entry with inode number 0 is free.\<close>

definition dir_map :: "u8 list \<Rightarrow> nat \<Rightarrow> u8 list \<rightharpoonup> u16" where
  "dir_map d m w = map_option (entry_inode d) (List.find (entry_is d w) [0..<m])"

text \<open>A name as the kernel accepts it: one to fourteen bytes without zero, not \<open>..\<close>.\<close>

definition plain_name :: "u8 list \<Rightarrow> bool" where
  "plain_name w \<longleftrightarrow> w \<noteq> [] \<and> length w \<le> NAME_LEN \<and> 0 \<notin> set w \<and> w \<noteq> [0x2E, 0x2E]"

section \<open>Comparing a name with an entry\<close>

lemma takeWhile_nonzero:
  assumes "(0 :: u8) \<notin> set w" "length w \<le> length xs"
  shows "takeWhile (\<lambda>c. c \<noteq> 0) xs = w \<longleftrightarrow> (\<forall>i < length w. w ! i = xs ! i) \<and> (length w < length xs \<longrightarrow> xs ! length w = 0)"
  using assms
proof (induction w arbitrary: xs)
  case Nil
  then show ?case by (cases xs) auto
next
  case (Cons c w)
  then obtain x ys where xs: "xs = x # ys" by (cases xs) auto
  then have IH: "takeWhile (\<lambda>c. c \<noteq> 0) ys = w \<longleftrightarrow> (\<forall>i < length w. w ! i = ys ! i) \<and> (length w < length ys \<longrightarrow> ys ! length w = 0)"
    using Cons by simp
  have "(\<forall>i < Suc (length w). (c # w) ! i = (x # ys) ! i) \<longleftrightarrow> c = x \<and> (\<forall>i < length w. w ! i = ys ! i)"
    by (auto simp: less_Suc_eq_0_disj)
  then show ?case using Cons.prems(1) by (auto simp: xs IH)
qed

lemma entry_name_eq:
  assumes "0 \<notin> set w" "length w \<le> NAME_LEN" "16 * k + 16 \<le> length d"
  shows "entry_name d k = w \<longleftrightarrow> (\<forall>i < length w. w ! i = d ! (16 * k + 2 + i)) \<and> (length w < NAME_LEN \<longrightarrow> d ! (16 * k + 2 + length w) = 0)"
proof -
  let ?xs = "take NAME_LEN (drop (16 * k + 2) d)"
  have "length ?xs = NAME_LEN" using assms(3) by simp
  moreover have "?xs ! i = d ! (16 * k + 2 + i)" if "i < NAME_LEN" for i using that assms(3) by simp
  ultimately show ?thesis unfolding entry_name_def using takeWhile_nonzero [OF assms(1), of ?xs] assms(2) by auto
qed

lemma match_bytes_law:
  assumes "b < length (bufs s)" "\<forall>i \<in> set is. direct_addr s (name + word_of_nat i)"
  shows "match_bytes name b off is s = Ok (\<forall>i \<in> set is. pmem s (name + word_of_nat i) = b_data (bufs s ! b) ! (off + 2 + i)) s"
  using assms by (induction "is") (auto simp: retk_def get_bh_def get_fs_byte_direct)

lemma match_law:
  assumes b: "b < length (bufs s)" "b_data (bufs s ! b) = d" "length d = BLOCK_SIZE" and k: "k < DIR_ENTRIES_PER_BLOCK"
    and w: "plain_name w" "w = load_bytes name (length w) s" "\<forall>i < length w. direct_addr s (name + word_of_nat i)"
  shows "match (length w) name b (16 * k) s = Ok (entry_is d w k) s"
proof -
  have wi: "w ! i = pmem s (name + word_of_nat i)" if "i < length w" for i
    by (subst w(2)) (use that in \<open>simp add: load_bytes_def\<close>)
  have "entry_name d k = w \<longleftrightarrow> (\<forall>i < length w. pmem s (name + word_of_nat i) = d ! (16 * k + 2 + i)) \<and>
      (length w < NAME_LEN \<longrightarrow> d ! (16 * k + 2 + length w) = 0)"
    using entry_name_eq [of w k d] w(1) b(3) k by (simp add: plain_name_def wi)
  then show ?thesis using b k w(1,3) match_bytes_law [of b s "[0..<length w]" name "16 * k"]
    by (auto simp: match_def get_bh_def retk_def entry_is_def entry_inode_def plain_name_def)
qed

section \<open>The search\<close>

lemma find_entry_loop:
  assumes b: "b < length (bufs s)" "b_data (bufs s ! b) = d" "length d = BLOCK_SIZE" and m: "m \<le> DIR_ENTRIES_PER_BLOCK" and i: "i \<le> m" "m - i < fuel"
    and w: "plain_name w" "w = load_bytes name (length w) s" "\<forall>i < length w. direct_addr s (name + word_of_nat i)"
    and v: "brelse (Some b) s = Ok () v"
  shows "loopk fuel (find_entry_round dir name (length w) m) (i, Some b, 16 * i) s =
    (case List.find (entry_is d w) [i..<m] of Some k \<Rightarrow> Ok (Some (b, 16 * k)) s | None \<Rightarrow> Ok None v)"
  using i
proof (induction fuel arbitrary: i)
  case (Suc fuel)
  show ?case
  proof (cases "i = m")
    case True
    then show ?thesis using v by (simp add: find_entry_round_def retk_def bindk_def)
  next
    case False
    then have im: "i < m" "i < DIR_ENTRIES_PER_BLOCK" using Suc.prems m by simp_all
    then have up: "[i..<m] = i # [Suc i..<m]" by (simp add: upt_conv_Cons)
    have "match (length w) name b (16 * i) s = Ok (entry_is d w i) s" by (rule match_law [OF b im(2) w])
    then have "find_entry_round dir name (length w) m (i, Some b, 16 * i) s =
        Ok (if entry_is d w i then Inr (Some (b, 16 * i)) else Inl (Suc i, Some b, 16 * Suc i)) s"
      using im by (simp add: find_entry_round_def derefk_def retk_def)
    then show ?thesis using Suc.IH [of "Suc i"] Suc.prems im by (simp add: up retk_def)
  qed
qed simp

text \<open>A directory on the ram disk with first block \<open>z\<close>, and one whose entries all lie in it.\<close>

definition dir_at :: "kstate \<Rightarrow> nat \<Rightarrow> nat \<Rightarrow> bool" where
  "dir_at s dir z \<longleftrightarrow> usable s \<and> dir < length (inode_table s) \<and> uint (i_dev (inode_table s ! dir)) = RD \<and>
     i_zone (inode_table s ! dir) \<noteq> [] \<and> i_zone (inode_table s ! dir) ! 0 = word_of_nat z \<and> 0 < z \<and> z < 2 ^ 16 \<and> z < rd_blocks s"

definition small_dir :: "kstate \<Rightarrow> nat \<Rightarrow> nat \<Rightarrow> bool" where
  "small_dir s dir z \<longleftrightarrow> dir_at s dir z \<and> unat (i_size (inode_table s ! dir)) \<le> BLOCK_SIZE"

lemma is_dotdot_law:
  assumes "plain_name w" "w = load_bytes name (length w) s" "\<forall>i < length w. direct_addr s (name + word_of_nat i)"
  shows "is_dotdot (length w) name s = Ok False s"
proof (cases "length w = 2")
  case True
  then have "w = [pmem s name, pmem s (name + 1)]" using assms(2) by (simp add: load_bytes_def numeral_2_eq_2)
  then have "\<not> (pmem s name = 0x2E \<and> pmem s (name + 1) = 0x2E)" using assms(1) by (auto simp: plain_name_def)
  then show ?thesis using assms(3) True get_fs_byte_direct [of s name] get_fs_byte_direct [of s "name + 1"]
    by (auto simp: is_dotdot_def retk_def numeral_2_eq_2 less_Suc_eq all_conj_distrib bindk_def)
qed (simp add: is_dotdot_def retk_def)

text \<open>What the kernel does with a block between reading and releasing it does not matter here.\<close>

lemma read_hold:
  assumes "usable s" "z < rd_blocks s"
  shows "\<exists>b t v. bread RD (int z) s = Ok (Some b) t \<and> reads s z b t \<and> cache_frame s t \<and> b < length (bufs t) \<and> b_data (bufs t ! b) = view s z \<and>
    length (view s z) = BLOCK_SIZE \<and> brelse (Some b) t = Ok () v \<and> quiet s v \<and> pmem v = pmem s"
proof -
  obtain b t v where v: "bread RD (int z) s = Ok (Some b) t" "reads s z b t" "brelse (Some b) t = Ok () v" "usable v" "cache_frame s v"
    "rd_blocks v = rd_blocks s" "\<forall>m < rd_blocks s. view v m = view s m" "room s \<subseteq> room v"
    using read_release [OF assms, of sync_dev] unfolding bread_def by blast
  moreover have "length (view s z) = BLOCK_SIZE" using view_length [OF _ assms(2) v(2)] assms(1) by (simp add: usable_def)
  moreover have "quiet s v" "pmem v = pmem s" using quiet_frame [OF v(4-8)] cache_frame_more [OF v(5)] by simp_all
  ultimately show ?thesis by (auto simp: reads_def)
qed

lemma direct_frame: "cache_frame s t \<Longrightarrow> direct_addr t a = direct_addr s a \<and> load_bytes a' n t = load_bytes a' n s"
  using cache_frame_more [of s t] by (simp add: direct_addr_def load_bytes_def)

lemma find_entry_start:
  assumes d: "dir_at s dir z" and w: "plain_name w" "w = load_bytes name (length w) s" "\<forall>i < length w. direct_addr s (name + word_of_nat i)"
  defines "m \<equiv> unat (i_size (inode_table s ! dir)) div 16"
  shows "\<exists>b t v. reads s z b t \<and> quiet s v \<and> length (view s z) = BLOCK_SIZE \<and> brelse (Some b) t = Ok () v \<and>
    b < length (bufs t) \<and> b_data (bufs t ! b) = view s z \<and> w = load_bytes name (length w) t \<and> (\<forall>i < length w. direct_addr t (name + word_of_nat i)) \<and>
    find_entry dir name (length w) s = bindk (loopk (m + 1) (find_entry_round dir name (length w) m) (0, Some b, 0)) (\<lambda>r. retk (dir, r)) t"
proof -
  note d' = d [unfolded dir_at_def]
  obtain b t v where t: "bread RD (int z) s = Ok (Some b) t" "reads s z b t" "cache_frame s t" "b < length (bufs t)" "b_data (bufs t ! b) = view s z"
    "length (view s z) = BLOCK_SIZE" "brelse (Some b) t = Ok () v" "quiet s v" using read_hold [of s z] d' by blast
  have w': "w = load_bytes name (length w) t" "\<forall>i < length w. direct_addr t (name + word_of_nat i)"
    using direct_frame [OF t(3)] w(2,3) by simp_all
  have "uint (word_of_nat z :: u16) = int z" "(word_of_nat z :: u16) \<noteq> 0"
    using d' by (auto simp: unsigned_of_nat take_bit_nat_eq_self word_of_nat_eq_0_iff dest: dvd_imp_le)
  moreover have "dotdot dir name (length w) s = Ok (dir, length w) s" using is_dotdot_law [OF w] by (simp add: dotdot_def retk_def)
  moreover have "get_inode dir s = Ok (inode_table s ! dir) s" using d' by (simp add: get_inode_def)
  moreover have "length w \<noteq> 0" "min (length w) NAME_LEN = length w" using w(1) by (auto simp: plain_name_def)
  ultimately have "find_entry dir name (length w) s = bindk (loopk (m + 1) (find_entry_round dir name (length w) m) (0, Some b, 0)) (\<lambda>r. retk (dir, r)) t"
    using t(1) d' by (simp add: find_entry_def Let_def nthk_def m_def)
  then show ?thesis using t(2,4-8) w' by blast
qed

lemma find_entry_law:
  assumes d: "small_dir s dir z" and w: "plain_name w" "w = load_bytes name (length w) s" "\<forall>i < length w. direct_addr s (name + word_of_nat i)"
  defines "m \<equiv> unat (i_size (inode_table s ! dir)) div 16"
  shows "\<exists>b t v. reads s z b t \<and> quiet s v \<and> find_entry dir name (length w) s =
    (case List.find (entry_is (view s z) w) [0..<m] of Some k \<Rightarrow> Ok (dir, Some (b, 16 * k)) t | None \<Rightarrow> Ok (dir, None) v)"
proof -
  have "dir_at s dir z" and m: "m \<le> DIR_ENTRIES_PER_BLOCK"
    using d div_le_mono [of "unat (i_size (inode_table s ! dir))" 1024 16] by (simp_all add: small_dir_def m_def)
  from find_entry_start [OF this(1) w] obtain b t v where t: "reads s z b t" "quiet s v" "length (view s z) = BLOCK_SIZE" "brelse (Some b) t = Ok () v"
    "b < length (bufs t)" "b_data (bufs t ! b) = view s z" "w = load_bytes name (length w) t" "\<forall>i < length w. direct_addr t (name + word_of_nat i)"
    "find_entry dir name (length w) s = bindk (loopk (m + 1) (find_entry_round dir name (length w) m) (0, Some b, 0)) (\<lambda>r. retk (dir, r)) t"
    unfolding m_def by blast
  have "find_entry dir name (length w) s = (case List.find (entry_is (view s z) w) [0..<m] of Some k \<Rightarrow> Ok (dir, Some (b, 16 * k)) t | None \<Rightarrow> Ok (dir, None) v)"
    using find_entry_loop [OF t(5,6,3) m _ _ w(1) t(7,8,4), of 0 "m + 1" dir] unfolding t(9) by (simp add: bindk_def retk_def split: option.split)
  then show ?thesis using t(1,2) by blast
qed

text \<open>Behind the last entry of the block the search goes on.\<close>

lemma find_entry_past:
  assumes b: "b < length (bufs s)" "b_data (bufs s ! b) = d" "length d = BLOCK_SIZE" and m: "DIR_ENTRIES_PER_BLOCK < m"
    and w: "plain_name w" "w = load_bytes name (length w) s" "\<forall>i < length w. direct_addr s (name + word_of_nat i)"
    and no: "\<forall>k < DIR_ENTRIES_PER_BLOCK. \<not> entry_is d w k"
  shows "i \<le> DIR_ENTRIES_PER_BLOCK \<Longrightarrow> DIR_ENTRIES_PER_BLOCK - i < fuel \<Longrightarrow>
    loopk fuel (find_entry_round dir name (length w) m) (i, Some b, 16 * i) s = Fault"
proof (induction fuel arbitrary: i)
  case (Suc fuel)
  show ?case
  proof (cases "i = DIR_ENTRIES_PER_BLOCK")
    case True
    have "match (length w) name b 1024 s = Fault" using b by (simp add: match_def get_bh_def faultk_def)
    then show ?thesis using True m by (simp add: find_entry_round_def derefk_def bindk_def retk_def)
  next
    case False
    then have i: "i < DIR_ENTRIES_PER_BLOCK" using Suc.prems by simp
    then have "match (length w) name b (16 * i) s = Ok False s" using match_law [OF b i w] no by simp
    then have "find_entry_round dir name (length w) m (i, Some b, 16 * i) s = Ok (Inl (Suc i, Some b, 16 * Suc i)) s"
      using i m by (simp add: find_entry_round_def derefk_def retk_def)
    then show ?thesis using Suc.IH [of "Suc i"] Suc.prems i by simp
  qed
qed simp

text \<open>C31: in a directory of more than 64 entries the search for a name that is not in the first block reads behind the
  block: the test for its end is \<open>>\<close> where it should be \<open>>=\<close>, so the entry at offset 1024 is looked at.\<close>

theorem find_entry_overrun:
  assumes "dir_at s dir z" "plain_name w" "w = load_bytes name (length w) s" "\<forall>i < length w. direct_addr s (name + word_of_nat i)"
    and m: "BLOCK_SIZE + 16 \<le> unat (i_size (inode_table s ! dir))" and no: "dir_map (view s z) DIR_ENTRIES_PER_BLOCK w = None"
  shows "find_entry dir name (length w) s = Fault"
proof -
  let ?m = "unat (i_size (inode_table s ! dir)) div 16"
  obtain b t where t: "length (view s z) = BLOCK_SIZE" "b < length (bufs t)" "b_data (bufs t ! b) = view s z" "w = load_bytes name (length w) t"
    "\<forall>i < length w. direct_addr t (name + word_of_nat i)"
    "find_entry dir name (length w) s = bindk (loopk (?m + 1) (find_entry_round dir name (length w) ?m) (0, Some b, 0)) (\<lambda>r. retk (dir, r)) t"
    using find_entry_start [OF assms(1-4)] by blast
  have m64: "DIR_ENTRIES_PER_BLOCK < ?m" using div_le_mono [OF m, of 16] by simp
  have "\<forall>k < DIR_ENTRIES_PER_BLOCK. \<not> entry_is (view s z) w k" using no by (auto simp: dir_map_def find_None_iff)
  from find_entry_past [OF t(2,3,1) m64 assms(2) t(4,5) this, of 0 "?m + 1" dir] m64 show ?thesis unfolding t(6) by (simp add: bindk_def)
qed

text \<open>C6: \<open>find_entry\<close> is the lookup in the map a directory represents. In a directory of one block, a name that is in
  the map is found: the caller holds the block, and the entry it gets is the one with the inode number of the map; for
  any other name the result is NULL. No block, inode or buffer in use changes.\<close>

theorem find_entry_lookup:
  assumes "small_dir s dir z" "plain_name w" "w = load_bytes name (length w) s" "\<forall>i < length w. direct_addr s (name + word_of_nat i)"
  shows "\<exists>r t. find_entry dir name (length w) s = Ok (dir, r) t \<and> (\<forall>n < rd_blocks s. view t n = view s n) \<and> inode_table t = inode_table s \<and>
    map_option (\<lambda>(b, off). get16 (b_data (bufs t ! b)) off) r = dir_map (view s z) (unat (i_size (inode_table s ! dir)) div 16) w"
proof -
  let ?f = "List.find (entry_is (view s z) w) [0..<unat (i_size (inode_table s ! dir)) div 16]"
  obtain b t v where r: "reads s z b t" "quiet s v" and f: "find_entry dir name (length w) s =
    (case ?f of Some k \<Rightarrow> Ok (dir, Some (b, 16 * k)) t | None \<Rightarrow> Ok (dir, None) v)"
    using find_entry_law [OF assms] by blast
  note r' = r(1) [unfolded reads_def]
  show ?thesis
  proof (cases ?f)
    case None
    then show ?thesis using f r(2) by (intro exI [of _ None] exI [of _ v]) (simp add: dir_map_def quiet_def)
  next
    case (Some k)
    then show ?thesis using f r' cache_frame_fs [of s t]
      by (intro exI [of _ "Some (b, 16 * k)"] exI [of _ t]) (simp add: dir_map_def entry_inode_def)
  qed
qed

section \<open>Adding an entry\<close>

text \<open>The name field, and the whole entry as it is stored.\<close>

definition name_field :: "u8 list \<Rightarrow> u8 list" where
  "name_field w = w @ replicate (NAME_LEN - length w) 0"

definition put_entry :: "nat \<Rightarrow> u16 \<Rightarrow> u8 list \<Rightarrow> u8 list \<Rightarrow> u8 list" where
  "put_entry k num w d = put_bytes (16 * k) (le16 num @ name_field w) d"

lemma takeWhile_pad: "0 \<notin> set w \<Longrightarrow> takeWhile (\<lambda>c. c \<noteq> 0) (w @ replicate n 0) = (w :: u8 list)"
  by (induction w) (auto simp: takeWhile_eq_Nil_iff)

lemma length_name_field [simp]: "length w \<le> NAME_LEN \<Longrightarrow> length (name_field w) = NAME_LEN"
  by (simp add: name_field_def)

lemma put_bytes_append:
  "off + length xs + length ys \<le> length d \<Longrightarrow> put_bytes (off + length xs) ys (put_bytes off xs d) = put_bytes off (xs @ ys) d"
  by (intro nth_equalityI) (auto simp: nth_put_bytes nth_append)

lemma put_bytes_before:
  "off + length xs + length ys \<le> length d \<Longrightarrow> put_bytes off xs (put_bytes (off + length xs) ys d) = put_bytes off (xs @ ys) d"
  by (intro nth_equalityI) (auto simp: nth_put_bytes nth_append)

lemma put_bytes_again:
  "length xs = length ys \<Longrightarrow> off + length xs + length zs \<le> length d \<Longrightarrow>
    put_bytes off xs (put_bytes (off + length xs) zs (put_bytes off ys d)) = put_bytes off (xs @ zs) d"
  by (intro nth_equalityI) (auto simp: nth_put_bytes nth_append)

lemma put_entry_fields:
  assumes "k < DIR_ENTRIES_PER_BLOCK" "j < DIR_ENTRIES_PER_BLOCK" "length d = BLOCK_SIZE" "length w \<le> NAME_LEN" "0 \<notin> set w"
  shows "entry_inode (put_entry k num w d) j = (if j = k then num else entry_inode d j)"
    "entry_name (put_entry k num w d) j = (if j = k then w else entry_name d j)"
proof -
  let ?ys = "le16 num @ name_field w" and ?D = "put_entry k num w d"
  have l: "length ?ys = 16" "16 * k + 16 \<le> length d" "16 * j + 16 \<le> length d" using assms by simp_all
  have n: "?D ! i = (if 16 * k \<le> i \<and> i < 16 * k + 16 then ?ys ! (i - 16 * k) else d ! i)" if "i < length d" for i
    unfolding put_entry_def using nth_put_bytes [of "16 * k" ?ys d i] l that by simp
  have same: "?D ! (16 * j + i) = d ! (16 * j + i)" if "j \<noteq> k" "i < 16" for i
    using that l by (subst n) auto
  have own: "?D ! (16 * k + i) = ?ys ! i" if "i < 16" for i using that l by (subst n) auto
  have "get16 ?D (16 * k) = get16 (le16 num) 0"
    using own [of 0] own [of 1] by (intro get16_cong) (simp_all add: nth_append le16_def)
  then show "entry_inode ?D j = (if j = k then num else entry_inode d j)"
    using same [of 0] same [of 1] by (auto simp: entry_inode_def get16_le16 intro!: get16_cong)
  have "take 14 (drop (16 * k + 2) ?D) = name_field w"
  proof (rule nth_equalityI)
    show "length (take 14 (drop (16 * k + 2) ?D)) = length (name_field w)" using l assms(4) by (simp add: put_entry_def)
  next
    fix i assume "i < length (take 14 (drop (16 * k + 2) ?D))"
    then have "i < 14" "16 * k + 2 \<le> length ?D" using l by (simp_all add: put_entry_def)
    then show "take 14 (drop (16 * k + 2) ?D) ! i = name_field w ! i" using own [of "i + 2"] by (simp add: nth_append add.commute add.left_commute)
  qed
  then have "entry_name ?D k = w" using assms(5) by (simp add: entry_name_def name_field_def takeWhile_pad)
  moreover have "take 14 (drop (16 * j + 2) ?D) = take 14 (drop (16 * j + 2) d)" if "j \<noteq> k"
  proof -
    have "length ?D = length d" using l by (simp add: put_entry_def)
    moreover have "?D ! Suc (Suc (16 * j + i)) = d ! Suc (Suc (16 * j + i))" if "i < 14" for i
      using same [OF \<open>j \<noteq> k\<close>, of "Suc (Suc i)"] that by simp
    ultimately show ?thesis using l by (intro nth_equalityI) simp_all
  qed
  ultimately show "entry_name ?D j = (if j = k then w else entry_name d j)" by (auto simp: entry_name_def)
qed

text \<open>Storing an entry in a free place is the update of the map.\<close>

lemma find_append: "List.find P (xs @ ys) = (case List.find P xs of None \<Rightarrow> List.find P ys | Some x \<Rightarrow> Some x)"
  by (induction xs) auto

lemma find_upt: "k < n \<Longrightarrow> P k \<Longrightarrow> (\<And>j. j < k \<Longrightarrow> \<not> P j) \<Longrightarrow> List.find P [0..<n] = Some k"
  by (auto simp: find_Some_iff intro!: exI [of _ k])

lemma dir_map_put:
  assumes k: "k \<le> m" "k < DIR_ENTRIES_PER_BLOCK" "m \<le> DIR_ENTRIES_PER_BLOCK" "k < m \<longrightarrow> entry_inode d k = 0" and d: "length d = BLOCK_SIZE"
    and w: "plain_name w" "dir_map d m w = None" and num: "num \<noteq> 0"
  shows "dir_map (put_entry k num w d) (max m (k + 1)) = (dir_map d m)(w \<mapsto> num)"
proof
  fix x
  let ?D = "put_entry k num w d" and ?m = "max m (k + 1)"
  have f: "entry_is ?D x j = (if j = k then x = w else entry_is d x j)" if "j < DIR_ENTRIES_PER_BLOCK" for j
    using put_entry_fields [OF k(2) that d, of w num] w(1) num by (auto simp: entry_is_def plain_name_def)
  have m: "[0..<?m] = [0..<m] @ (if k = m then [k] else [])" using k(1) by (cases "k = m") (simp_all add: max_absorb1 Suc_leI)
  have nk: "\<not> entry_is d x k" if "k < m" using k(4) that by (simp add: entry_is_def)
  show "dir_map ?D ?m x = ((dir_map d m)(w \<mapsto> num)) x"
  proof (cases "x = w")
    case True
    have no: "\<not> entry_is d w j" if "j < m" for j using w(2) that by (auto simp: dir_map_def find_None_iff)
    have "List.find (entry_is ?D w) [0..<?m] = Some k"
      using f no k True by (intro find_upt) auto
    then show ?thesis using True put_entry_fields(1) [OF k(2,2) d, of w num] w(1) by (simp add: dir_map_def plain_name_def)
  next
    case False
    have "List.find (entry_is ?D x) [0..<m] = List.find (entry_is d x) [0..<m]"
      using f nk False k(3) by (intro find_cong) auto
    then have fd: "List.find (entry_is ?D x) [0..<?m] = List.find (entry_is d x) [0..<m]"
      using f [of k] False k(2) by (simp only: m find_append) (auto split: option.split)
    have "entry_inode ?D j = entry_inode d j" if "List.find (entry_is d x) [0..<m] = Some j" for j
    proof -
      have "j < m" "entry_is d x j" using that by (auto simp: find_Some_iff)
      then show ?thesis using nk put_entry_fields(1) [OF k(2) _ d, of j w num] w(1) k(3) by (auto simp: plain_name_def)
    qed
    then show ?thesis using False unfolding dir_map_def fd by (cases "List.find (entry_is d x) [0..<m]") simp_all
  qed
qed

section \<open>The search for a free entry\<close>

text \<open>The bytes of a held buffer, replaced.\<close>

abbreviation with_data :: "nat \<Rightarrow> u8 list \<Rightarrow> kstate \<Rightarrow> kstate" where
  "with_data b d s \<equiv> s\<lparr>bufs := (bufs s)[b := (bufs s ! b)\<lparr>b_data := d\<rparr>]\<rparr>"

lemma upd_bytes_law:
  "b < length (bufs s) \<Longrightarrow> off + length ys \<le> length (b_data (bufs s ! b)) \<Longrightarrow>
    upd_bytes b off ys s = Ok () (with_data b (put_bytes off ys (b_data (bufs s ! b))) s)"
  by (simp add: upd_bytes_def get_bh_def upd_bh_def)

lemma store_name_law:
  assumes b: "b < length (bufs s)" "length (b_data (bufs s ! b)) = BLOCK_SIZE" "off + 16 \<le> BLOCK_SIZE"
    and w: "plain_name w" "w = load_bytes name (length w) s" "\<forall>i < length w. direct_addr s (name + word_of_nat i)"
  shows "store_name name (length w) b off s = Ok () (with_data b (put_bytes (off + 2) (name_field w) (b_data (bufs s ! b))) s)"
proof -
  let ?d = "b_data (bufs s ! b)" and ?p = "name_field w"
  have lp: "length ?p = NAME_LEN" using w(1) by (simp add: plain_name_def)
  have pi: "?p ! i = (if i < length w then pmem s (name + word_of_nat i) else 0)" if "i < NAME_LEN" for i
  proof (cases "i < length w")
    case True
    have "w ! i = pmem s (name + word_of_nat i)" by (subst w(2)) (use True in \<open>simp add: load_bytes_def\<close>)
    then show ?thesis using True by (simp add: name_field_def nth_append)
  qed (use that in \<open>simp add: name_field_def nth_append\<close>)
  let ?f = "\<lambda>i. bindk (if i < length w then get_fs_byte (name + word_of_nat i) else retk 0) (\<lambda>c. upd_bytes b (off + 2 + i) [c])"
  have "eachk (\<lambda>i. bindk (if i < length w then get_fs_byte (name + word_of_nat i) else retk 0) (\<lambda>c. upd_bytes b (off + 2 + i) [c])) [0..<m] s =
      Ok () (with_data b (put_bytes (off + 2) (take m ?p) ?d) s)" if "m \<le> NAME_LEN" for m
    using that
  proof (induction m)
    case 0
    then show ?case by (simp add: retk_def put_bytes_def)
  next
    case (Suc m)
    let ?u = "with_data b (put_bytes (off + 2) (take m ?p) ?d) s"
    have m: "m < NAME_LEN" "length (take m ?p) = m" using Suc.prems lp by simp_all
    have get: "(if m < length w then get_fs_byte (name + word_of_nat m) else retk 0) ?u = Ok (?p ! m) ?u"
      using w(3) m(1) pi [of m] by (auto simp: get_fs_byte_direct direct_addr_def retk_def)
    have "upd_bytes b (off + 2 + m) [?p ! m] ?u = Ok () (with_data b (put_bytes (off + 2) (take (Suc m) ?p) ?d) s)"
    proof -
      let ?d1 = "put_bytes (off + 2) (take m ?p) ?d"
      have "off + 2 + length (take m ?p) + length [?p ! m] \<le> length ?d" using m b by simp
      from put_bytes_append [OF this] have e: "put_bytes (off + 2 + m) [?p ! m] ?d1 = put_bytes (off + 2) (take (Suc m) ?p) ?d"
        unfolding m(2) using m(1) lp by (simp only: take_Suc_conv_app_nth)
      have "length ?d1 = BLOCK_SIZE" using m b by simp
      then have "upd_bytes b (off + 2 + m) [?p ! m] ?u = Ok () (with_data b (put_bytes (off + 2 + m) [?p ! m] ?d1) ?u)"
        using upd_bytes_law [of b ?u "off + 2 + m" "[?p ! m]"] m b by simp
      then show ?thesis unfolding e using b(1) by simp
    qed
    then have "?f m ?u = Ok () (with_data b (put_bytes (off + 2) (take (Suc m) ?p) ?d) s)" by (simp only: bindk_Ok [where m = "if m < length w then get_fs_byte (name + word_of_nat m) else retk 0", OF get])
    then have "eachk ?f [m] ?u = Ok () (with_data b (put_bytes (off + 2) (take (Suc m) ?p) ?d) s)" unfolding eachk.simps by (simp only: bindk_Ok retk_def)
    moreover have "eachk ?f [0..<m] s = Ok () ?u" using Suc by simp
    ultimately show ?case unfolding upt_Suc_append [OF le0] eachk_append by (simp only: bindk_Ok)
  qed
  from this [of NAME_LEN] show ?thesis by (simp add: store_name_def lp)
qed

text \<open>The rounds over the entries in use change nothing.\<close>

lemma add_entry_skip:
  assumes b: "b < length (bufs s)" "length (b_data (bufs s ! b)) = BLOCK_SIZE" and dir: "dir < length (inode_table s)"
    and m: "unat (i_size (inode_table s ! dir)) = 16 * m" "m \<le> DIR_ENTRIES_PER_BLOCK" and k: "k \<le> m"
    and used: "\<forall>j < k. entry_inode (b_data (bufs s ! b)) j \<noteq> 0"
  shows "i \<le> k \<Longrightarrow> loopk (fuel + (k - i)) (add_entry_round dir name len) (i, Some b, 16 * i) s = loopk fuel (add_entry_round dir name len) (k, Some b, 16 * k) s"
proof (induction "k - i" arbitrary: i)
  case (Suc x)
  then have i: "i < k" "i < m" "i < DIR_ENTRIES_PER_BLOCK" "k - i = Suc x" "x = k - Suc i" using k m(2) by simp_all
  have "add_entry_round dir name len (i, Some b, 16 * i) s = Ok (Inl (Suc i, Some b, 16 * Suc i)) s"
    using b dir m i used by (simp add: add_entry_round_def derefk_def get_inode_def getk_def whenk_def get_entry_inode_def get_bh_def retk_def entry_inode_def)
  then show ?case using Suc(1) [OF i(5)] i by simp
qed simp

text \<open>What the search does with the entry it takes.\<close>

abbreviation taken :: "nat \<Rightarrow> u8 list \<Rightarrow> nat \<Rightarrow> (m_inode \<Rightarrow> m_inode) \<Rightarrow> kstate \<Rightarrow> kstate" where
  "taken b d dir f s \<equiv> s\<lparr>bufs := (bufs s)[b := (bufs s ! b)\<lparr>b_dirt := 1, b_data := d\<rparr>], inode_table := (inode_table s)[dir := f (inode_table s ! dir)]\<rparr>"

lemma add_entry_store:
  assumes b: "b < length (bufs s)" "length (b_data (bufs s ! b)) = BLOCK_SIZE" "off + 16 \<le> BLOCK_SIZE" and dir: "dir < length (inode_table s)"
    and w: "plain_name w" "w = load_bytes name (length w) s" "\<forall>i < length w. direct_addr s (name + word_of_nat i)"
  shows "bindk (upd_inode dir f) (\<lambda>_. bindk (store_name name (length w) b off) (\<lambda>_. bindk (set_dirty b) (\<lambda>_. retk r))) s =
    Ok r (taken b (put_bytes (off + 2) (name_field w) (b_data (bufs s ! b))) dir f s)"
proof -
  let ?u = "s\<lparr>inode_table := (inode_table s)[dir := f (inode_table s ! dir)]\<rparr>" and ?D = "put_bytes (off + 2) (name_field w) (b_data (bufs s ! b))"
  have 1: "upd_inode dir f s = Ok () ?u" using dir by (simp add: upd_inode_def)
  have w': "w = load_bytes name (length w) ?u" "\<forall>i < length w. direct_addr ?u (name + word_of_nat i)" using w by (simp_all add: load_bytes_def direct_addr_def)
  have 2: "store_name name (length w) b off ?u = Ok () (with_data b ?D ?u)" using store_name_law [OF _ _ b(3) w(1) w'] b by simp
  have e: "h\<lparr>b_data := D, b_dirt := 1\<rparr> = h\<lparr>b_dirt := 1, b_data := D\<rparr>" for h :: buffer_head and D by (rule buffer_head.equality) simp_all
  have "taken b ?D dir f s = (with_data b ?D ?u)\<lparr>bufs := (bufs s)[b := (bufs s ! b)\<lparr>b_data := ?D, b_dirt := 1\<rparr>]\<rparr>"
    by (intro kstate.equality) (simp_all add: e)
  then have 3: "set_dirty b (with_data b ?D ?u) = Ok () (taken b ?D dir f s)" using b(1) by (simp add: set_dirty_def upd_bh_def)
  show ?thesis using 1 2 3 by (simp only: bindk_Ok retk_def)
qed

lemma add_entry_round_in:
  assumes "off < BLOCK_SIZE" "dir < length (inode_table s)"
    and "whenk (16 * i \<ge> unat (i_size (inode_table s ! dir))) (bindk (set_entry_inode b off 0) (\<lambda>_.
        upd_inode dir (\<lambda>n. n\<lparr>i_size := word_of_nat ((i + 1) * 16), i_dirt := 1, i_ctime := word_of_int (CURRENT_TIME s)\<rparr>))) s = Ok () u"
    and "get_entry_inode b off u = Ok 0 u"
  shows "add_entry_round dir name len (i, Some b, off) s = bindk (upd_inode dir (\<lambda>n. n\<lparr>i_mtime := word_of_int (CURRENT_TIME s)\<rparr>)) (\<lambda>_.
     bindk (store_name name len b off) (\<lambda>_. bindk (set_dirty b) (\<lambda>_. retk (Inr (Some (b, off)))))) u"
  using assms by (simp add: add_entry_round_def derefk_def get_inode_def getk_def)

lemma add_entry_take:
  assumes b: "b < length (bufs s)" "length (b_data (bufs s ! b)) = BLOCK_SIZE" and dir: "dir < length (inode_table s)"
    and m: "unat (i_size (inode_table s ! dir)) = 16 * m" "m \<le> DIR_ENTRIES_PER_BLOCK"
    and k: "k \<le> m" "k < DIR_ENTRIES_PER_BLOCK" "k < m \<longrightarrow> entry_inode (b_data (bufs s ! b)) k = 0"
    and w: "plain_name w" "w = load_bytes name (length w) s" "\<forall>i < length w. direct_addr s (name + word_of_nat i)"
  shows "\<exists>d f. add_entry_round dir name (length w) (k, Some b, 16 * k) s = Ok (Inr (Some (b, 16 * k))) (taken b d dir f s) \<and>
    length d = BLOCK_SIZE \<and> (\<forall>num. put_bytes (16 * k) (le16 num) d = put_entry k num w (b_data (bufs s ! b))) \<and>
    unat (i_size (f (inode_table s ! dir))) = 16 * max m (k + 1) \<and> (\<forall>n. i_zone (f n) = i_zone n \<and> i_num (f n) = i_num n \<and> i_dev (f n) = i_dev n)"
proof -
  let ?d = "b_data (bufs s ! b)" and ?f = "\<lambda>n. n\<lparr>i_mtime := word_of_int (CURRENT_TIME s)\<rparr>"
  have l: "length (name_field w) = NAME_LEN" "16 * k + 16 \<le> BLOCK_SIZE" using w(1) k(2) by (simp_all add: plain_name_def)
  show ?thesis
  proof (cases "k < m")
    case True
    let ?D = "put_bytes (16 * k + 2) (name_field w) ?d"
    have "get16 ?d (16 * k) = 0" "\<not> 16 * m \<le> 16 * k" using k(3) True by (simp_all add: entry_inode_def)
    then have "get_entry_inode b (16 * k) s = Ok 0 s" using b l by (simp add: get_entry_inode_def get_bh_def retk_def)
    then have "add_entry_round dir name (length w) (k, Some b, 16 * k) s = Ok (Inr (Some (b, 16 * k))) (taken b ?D dir ?f s)"
      using add_entry_round_in [of "16 * k" dir s k b s name "length w"] add_entry_store [OF b l(2) dir w, of ?f "Inr (Some (b, 16 * k))"] dir m True l(2)
      by (simp add: whenk_def retk_def)
    moreover have "put_bytes (16 * k) (le16 num) ?D = put_entry k num w ?d" for num
      using put_bytes_before [of "16 * k" "le16 num" "name_field w" ?d] l b(2) by (simp add: put_entry_def)
    ultimately show ?thesis using m(1) True l b(2) by (intro exI [of _ ?D] exI [of _ ?f]) (simp add: max_def)
  next
    case False
    let ?z = "put_bytes (16 * k) (le16 0) ?d" and ?g = "\<lambda>n. n\<lparr>i_size := word_of_nat ((k + 1) * 16), i_dirt := 1, i_ctime := word_of_int (CURRENT_TIME s)\<rparr>"
    let ?D = "put_bytes (16 * k + 2) (name_field w) ?z"
    let ?u = "with_data b ?z s" and ?v = "(with_data b ?z s)\<lparr>inode_table := (inode_table s)[dir := ?g (inode_table s ! dir)]\<rparr>"
    have km: "k = m" using False k(1) by simp
    have lz: "length ?z = BLOCK_SIZE" using l b(2) by simp
    have 1: "set_entry_inode b (16 * k) 0 s = Ok () ?u" unfolding set_entry_inode_def by (rule upd_bytes_law) (use b l in simp_all)
    have 2: "upd_inode dir ?g ?u = Ok () ?v" using dir by (simp add: upd_inode_def)
    have "get16 ?z (16 * k) = 0" using get16_put16 [of "8 * k" ?d "8 * k" 0] l b(2) by simp
    then have 3: "get_entry_inode b (16 * k) ?v = Ok 0 ?v" using b(1) l lz by (simp add: get_entry_inode_def get_bh_def retk_def)
    have w': "w = load_bytes name (length w) ?v" "\<forall>i < length w. direct_addr ?v (name + word_of_nat i)" using w(2,3) by (simp_all add: load_bytes_def direct_addr_def)
    have 4: "bindk (upd_inode dir ?f) (\<lambda>_. bindk (store_name name (length w) b (16 * k)) (\<lambda>_. bindk (set_dirty b) (\<lambda>_. retk (Inr (Some (b, 16 * k)))))) ?v =
      Ok (Inr (Some (b, 16 * k))) (taken b ?D dir (?f \<circ> ?g) s)"
      using add_entry_store [of b ?v "16 * k" dir w name ?f "Inr (Some (b, 16 * k))", OF _ _ l(2) _ w(1) w'] b(1) lz dir by simp
    have "add_entry_round dir name (length w) (k, Some b, 16 * k) s = Ok (Inr (Some (b, 16 * k))) (taken b ?D dir (?f \<circ> ?g) s)"
    proof -
      have "bindk (set_entry_inode b (16 * k) 0) (\<lambda>_. upd_inode dir ?g) s = Ok () ?v" using 1 2 by (simp only: bindk_Ok)
      then have "whenk (16 * k \<ge> unat (i_size (inode_table s ! dir))) (bindk (set_entry_inode b (16 * k) 0) (\<lambda>_. upd_inode dir ?g)) s = Ok () ?v"
        using m(1) km by (simp only: whenk_def) simp
      from add_entry_round_in [OF _ dir this 3, of name "length w"] l(2) show ?thesis unfolding 4 by simp
    qed
    moreover have "put_bytes (16 * k) (le16 num) ?D = put_entry k num w ?d" for num
      using put_bytes_again [of "le16 num" "le16 0" "16 * k" "name_field w" ?d] l b(2) by (simp add: put_entry_def)
    moreover have "unat (word_of_nat ((k + 1) * 16) :: u32) = 16 * max m (k + 1)"
      unfolding unsigned_of_nat using km k(2) by (simp add: take_bit_nat_eq_self max_def)
    ultimately show ?thesis using l lz by (intro exI [of _ ?D] exI [of _ "?f \<circ> ?g"]) simp
  qed
qed

lemma add_entry_law:
  assumes d: "small_dir s dir z" and m: "unat (i_size (inode_table s ! dir)) = 16 * m"
    and k: "k \<le> m" "k < DIR_ENTRIES_PER_BLOCK" "k < m \<longrightarrow> entry_inode (view s z) k = 0" "\<forall>j < k. entry_inode (view s z) j \<noteq> 0"
    and w: "plain_name w" "w = load_bytes name (length w) s" "\<forall>i < length w. direct_addr s (name + word_of_nat i)"
  shows "\<exists>b t d f. reads s z b t \<and> add_entry dir name (length w) s = Ok (Some (b, 16 * k)) (taken b d dir f t) \<and>
    length d = BLOCK_SIZE \<and> (\<forall>num. put_bytes (16 * k) (le16 num) d = put_entry k num w (view s z)) \<and>
    unat (i_size (f (inode_table s ! dir))) = 16 * max m (k + 1) \<and> (\<forall>n. i_zone (f n) = i_zone n \<and> i_num (f n) = i_num n \<and> i_dev (f n) = i_dev n)"
proof -
  note d' = d [unfolded small_dir_def dir_at_def]
  obtain b t v where t: "bread RD (int z) s = Ok (Some b) t" "reads s z b t" "cache_frame s t" "b < length (bufs t)" "b_data (bufs t ! b) = view s z"
    "length (view s z) = BLOCK_SIZE" using read_hold [of s z] d' by blast
  have w': "w = load_bytes name (length w) t" "\<forall>i < length w. direct_addr t (name + word_of_nat i)"
    using direct_frame [OF t(3)] w(2,3) by simp_all
  have it: "inode_table t = inode_table s" using cache_frame_fs [OF t(3)] by simp
  have mm: "m \<le> DIR_ENTRIES_PER_BLOCK" using d' m by simp
  have z: "uint (word_of_nat z :: u16) = int z" "(word_of_nat z :: u16) \<noteq> 0"
    using d' by (auto simp: unsigned_of_nat take_bit_nat_eq_self word_of_nat_eq_0_iff dest: dvd_imp_le)
  have "get_inode dir s = Ok (inode_table s ! dir) s" "length w \<noteq> 0" "min (length w) NAME_LEN = length w"
    using d' w(1) by (auto simp: get_inode_def plain_name_def)
  then have "add_entry dir name (length w) s = loopk WAIT_FUEL (add_entry_round dir name (length w)) (0, Some b, 0) t"
    using t(1) d' z m by (simp add: add_entry_def Let_def nthk_def)
  also have "\<dots> = loopk (WAIT_FUEL - k) (add_entry_round dir name (length w)) (k, Some b, 16 * k) t"
    using add_entry_skip [of b t dir m k 0 "WAIT_FUEL - k" name "length w"] t(4-6) d' it m mm k by simp
  finally have a: "add_entry dir name (length w) s = loopk (Suc (WAIT_FUEL - 1 - k)) (add_entry_round dir name (length w)) (k, Some b, 16 * k) t"
    using k(2) by (simp add: Suc_diff_le [symmetric])
  have p: "length (b_data (bufs t ! b)) = BLOCK_SIZE" "dir < length (inode_table t)" "unat (i_size (inode_table t ! dir)) = 16 * m"
    "k < m \<longrightarrow> entry_inode (b_data (bufs t ! b)) k = 0" using t(5,6) it d' m k(3) by simp_all
  obtain D f where
    r: "add_entry_round dir name (length w) (k, Some b, 16 * k) t = Ok (Inr (Some (b, 16 * k))) (taken b D dir f t)" "length D = BLOCK_SIZE"
    "\<forall>num. put_bytes (16 * k) (le16 num) D = put_entry k num w (view s z)"
    "unat (i_size (f (inode_table s ! dir))) = 16 * max m (k + 1)" "\<forall>n. i_zone (f n) = i_zone n \<and> i_num (f n) = i_num n \<and> i_dev (f n) = i_dev n"
    using add_entry_take [OF t(4) p(1-3) mm k(1,2) p(4) w(1) w'] unfolding it t(5) by blast
  have "add_entry dir name (length w) s = Ok (Some (b, 16 * k)) (taken b D dir f t)"
    unfolding a loopk.simps using r(1) by (simp only: bindk_Ok sum.case retk_def)
  then show ?thesis using t(2) r(2-5) by blast
qed

text \<open>The first free place: an entry with inode number 0, or the place behind the last entry.\<close>

lemma first_free:
  assumes "m < DIR_ENTRIES_PER_BLOCK \<or> (\<exists>j < m. entry_inode d j = 0)" "m \<le> DIR_ENTRIES_PER_BLOCK"
  shows "\<exists>k \<le> m. k < DIR_ENTRIES_PER_BLOCK \<and> (k < m \<longrightarrow> entry_inode d k = 0) \<and> (\<forall>j < k. entry_inode d j \<noteq> 0)"
proof (cases "\<exists>j < m. entry_inode d j = 0")
  case True
  then obtain k where k: "k < m \<and> entry_inode d k = 0" "\<forall>j < k. \<not> (j < m \<and> entry_inode d j = 0)"
    using exists_least_iff [of "\<lambda>j. j < m \<and> entry_inode d j = 0"] by blast
  then have "\<forall>j < k. entry_inode d j \<noteq> 0" by (meson less_trans)
  then show ?thesis using k assms(2) by (intro exI [of _ k]) auto
qed (use assms in auto)

lemma enter_inode_law:
  assumes b: "b < length (bufs t)" "length d = BLOCK_SIZE" "16 * k + 16 \<le> BLOCK_SIZE" and i: "i < length (inode_table t)"
    and f: "\<forall>n. i_num (f n) = i_num n" and e: "put_bytes (16 * k) (le16 (i_num (inode_table t ! i))) d = D"
  shows "enter_inode i b (16 * k) (taken b d dir f t) = Ok () (taken b D dir f t)"
proof -
  let ?u = "taken b d dir f t"
  have 1: "get_inode i ?u = Ok (inode_table ?u ! i) ?u" using i by (simp add: get_inode_def)
  have num: "i_num (inode_table ?u ! i) = i_num (inode_table t ! i)" using i f by (cases "i = dir") simp_all
  have 2: "set_entry_inode b (16 * k) (i_num (inode_table ?u ! i)) ?u = Ok () (with_data b D ?u)"
    using upd_bytes_law [of b ?u "16 * k" "le16 (i_num (inode_table t ! i))"] b e unfolding set_entry_inode_def num by simp
  have c: "h\<lparr>b_data := D, b_dirt := 1\<rparr> = h\<lparr>b_dirt := 1, b_data := D\<rparr>" for h :: buffer_head by (rule buffer_head.equality) simp_all
  have "(with_data b D ?u)\<lparr>bufs := (bufs (with_data b D ?u))[b := (bufs (with_data b D ?u) ! b)\<lparr>b_dirt := 1\<rparr>]\<rparr> = taken b D dir f t"
    using b(1) by (intro kstate.equality) (simp_all add: c)
  then have 3: "set_dirty b (with_data b D ?u) = Ok () (taken b D dir f t)" using b(1) by (simp add: set_dirty_def upd_bh_def)
  show ?thesis using 1 2 3 by (simp only: enter_inode_def bindk_Ok)
qed

lemma dir_insert_law:
  assumes d: "small_dir s dir z" and m: "unat (i_size (inode_table s ! dir)) = 16 * m"
    and free: "m < DIR_ENTRIES_PER_BLOCK \<or> (\<exists>j < m. entry_inode (view s z) j = 0)"
    and w: "plain_name w" "w = load_bytes name (length w) s" "\<forall>i < length w. direct_addr s (name + word_of_nat i)"
    and i: "i < length (inode_table s)" "i_num (inode_table s ! i) \<noteq> 0" and new: "dir_map (view s z) m w = None"
  shows "\<exists>b off t u m'. add_entry dir name (length w) s = Ok (Some (b, off)) t \<and> bindk (enter_inode i b off) (\<lambda>_. brelse (Some b)) t = Ok () u \<and>
    m' \<le> DIR_ENTRIES_PER_BLOCK \<and> unat (i_size (inode_table u ! dir)) = 16 * m' \<and>
    dir_map (view u z) m' = (dir_map (view s z) m)(w \<mapsto> i_num (inode_table s ! i)) \<and>
    (\<forall>n < rd_blocks s. n \<noteq> z \<longrightarrow> view u n = view s n) \<and> (\<forall>j. j \<noteq> dir \<longrightarrow> inode_table u ! j = inode_table s ! j) \<and>
    i_zone (inode_table u ! dir) = i_zone (inode_table s ! dir) \<and> i_dev (inode_table u ! dir) = i_dev (inode_table s ! dir) \<and>
    length (inode_table u) = length (inode_table s) \<and> rd_blocks u = rd_blocks s \<and> fs_ok u \<and> (\<forall>x < length (bufs u). b_count (bufs u ! x) \<noteq> 255) \<and>
    room s - {b} \<subseteq> room u \<and> pmem u = pmem s \<and> fs_is_kernel u = fs_is_kernel s"
proof -
  note d' = d [unfolded small_dir_def dir_at_def]
  have mm: "m \<le> DIR_ENTRIES_PER_BLOCK" using d' m by simp
  let ?num = "i_num (inode_table s ! i)"
  obtain k where k: "k \<le> m" "k < DIR_ENTRIES_PER_BLOCK" "k < m \<longrightarrow> entry_inode (view s z) k = 0" "\<forall>j < k. entry_inode (view s z) j \<noteq> 0"
    using first_free [OF free mm] by blast
  obtain b t D f where t: "reads s z b t" and a: "add_entry dir name (length w) s = Ok (Some (b, 16 * k)) (taken b D dir f t)" and
    D: "length D = BLOCK_SIZE" "\<forall>num. put_bytes (16 * k) (le16 num) D = put_entry k num w (view s z)" and
    f: "unat (i_size (f (inode_table s ! dir))) = 16 * max m (k + 1)" "\<forall>n. i_zone (f n) = i_zone n \<and> i_num (f n) = i_num n \<and> i_dev (f n) = i_dev n"
    using add_entry_law [OF d m k w] by blast
  note t' = t [unfolded reads_def]
  have it: "inode_table t = inode_table s" "pmem t = pmem s" "fs_is_kernel t = fs_is_kernel s" using cache_frame_fs cache_frame_more t' by blast+
  define v where "v = taken b (put_entry k ?num w (view s z)) dir f t"
  have e: "enter_inode i b (16 * k) (taken b D dir f t) = Ok () v"
    unfolding v_def by (rule enter_inode_law) (use t' D k(2) i it f(2) in auto)
  obtain u where u: "brelse (Some b) v = Ok () u" "fs_ok u" "cache_frame v u" "rd_blocks u = rd_blocks s"
    "\<forall>x < length (bufs u). b_count (bufs u ! x) \<noteq> 255" "room s - {b} \<subseteq> room u"
    "view u z = put_entry k ?num w (view s z)" "\<forall>m < rd_blocks s. m \<noteq> z \<longrightarrow> view u m = view s m"
    using store_in_block [OF _ t, of dir "16 * k" "le16 ?num @ name_field w" "(inode_table t)[dir := f (inode_table t ! dir)]"] d' w(1) k(2)
    unfolding v_def put_entry_def by (auto simp: plain_name_def)
  have "length (view s z) = BLOCK_SIZE" using view_length [OF _ _ t] d' by (simp add: usable_def)
  then have dm: "dir_map (view u z) (max m (k + 1)) = (dir_map (view s z) m)(w \<mapsto> ?num)"
    unfolding u(7) by (rule dir_map_put [OF k(1,2) mm k(3) _ w(1) new i(2)])
  have iu: "inode_table u = (inode_table s)[dir := f (inode_table s ! dir)]" "pmem u = pmem s" "fs_is_kernel u = fs_is_kernel s"
    using cache_frame_fs [OF u(3)] cache_frame_more [OF u(3)] it by (simp_all add: v_def)
  have "bindk (enter_inode i b (16 * k)) (\<lambda>_. brelse (Some b)) (taken b D dir f t) = Ok () u" using e u(1) by (simp only: bindk_Ok)
  moreover have "max m (k + 1) \<le> DIR_ENTRIES_PER_BLOCK" using mm k(2) by simp
  moreover have "unat (i_size (inode_table u ! dir)) = 16 * max m (k + 1)" "\<forall>j. j \<noteq> dir \<longrightarrow> inode_table u ! j = inode_table s ! j"
    "i_zone (inode_table u ! dir) = i_zone (inode_table s ! dir)" "i_dev (inode_table u ! dir) = i_dev (inode_table s ! dir)"
    "length (inode_table u) = length (inode_table s)" unfolding iu(1) using f d' by simp_all
  ultimately show ?thesis using a dm u(2,4-6,8) iu(2,3) by blast
qed

section \<open>Properties of directories\<close>

text \<open>C7: making a directory entry is the update of the map, and the name is found again. In a directory of one block
  with a free place, \<open>add_entry\<close> for a new name followed by the store of the inode number and the release of the block (as
  \<open>sys_mknod\<close>, \<open>sys_mkdir\<close> and \<open>sys_link\<close> do) adds exactly that name to the map the directory represents, changes no other
  block and no other inode, and \<open>find_entry\<close> then delivers the inode number.\<close>

theorem dir_add_find:
  assumes "small_dir s dir z" "unat (i_size (inode_table s ! dir)) = 16 * m" "m < DIR_ENTRIES_PER_BLOCK \<or> (\<exists>j < m. entry_inode (view s z) j = 0)"
    and w: "plain_name w" "w = load_bytes name (length w) s" "\<forall>i < length w. direct_addr s (name + word_of_nat i)"
    and i: "i < length (inode_table s)" "i_num (inode_table s ! i) \<noteq> 0" and new: "dir_map (view s z) m w = None" and rm: "2 \<le> card (room s)"
  shows "\<exists>b off t u m' r v. add_entry dir name (length w) s = Ok (Some (b, off)) t \<and> bindk (enter_inode i b off) (\<lambda>_. brelse (Some b)) t = Ok () u \<and>
    unat (i_size (inode_table u ! dir)) = 16 * m' \<and> dir_map (view u z) m' = (dir_map (view s z) m)(w \<mapsto> i_num (inode_table s ! i)) \<and>
    (\<forall>n < rd_blocks s. n \<noteq> z \<longrightarrow> view u n = view s n) \<and> (\<forall>j. j \<noteq> dir \<longrightarrow> inode_table u ! j = inode_table s ! j) \<and>
    find_entry dir name (length w) u = Ok (dir, Some r) v \<and> get16 (b_data (bufs v ! fst r)) (snd r) = i_num (inode_table s ! i)"
proof -
  note d' = assms(1) [unfolded small_dir_def dir_at_def]
  obtain b off t u m' where u: "add_entry dir name (length w) s = Ok (Some (b, off)) t" "bindk (enter_inode i b off) (\<lambda>_. brelse (Some b)) t = Ok () u"
    "m' \<le> DIR_ENTRIES_PER_BLOCK" "unat (i_size (inode_table u ! dir)) = 16 * m'"
    "dir_map (view u z) m' = (dir_map (view s z) m)(w \<mapsto> i_num (inode_table s ! i))"
    "\<forall>n < rd_blocks s. n \<noteq> z \<longrightarrow> view u n = view s n" "\<forall>j. j \<noteq> dir \<longrightarrow> inode_table u ! j = inode_table s ! j" and
    v: "i_zone (inode_table u ! dir) = i_zone (inode_table s ! dir)" "i_dev (inode_table u ! dir) = i_dev (inode_table s ! dir)"
    "length (inode_table u) = length (inode_table s)" "rd_blocks u = rd_blocks s" "fs_ok u" "\<forall>x < length (bufs u). b_count (bufs u ! x) \<noteq> 255"
    "room s - {b} \<subseteq> room u" "pmem u = pmem s" "fs_is_kernel u = fs_is_kernel s"
    using dir_insert_law [OF assms(1-3) w i new] by blast
  have "card (room s - {b}) \<noteq> 0" using rm by (cases "b \<in> room s") (simp_all add: card_Diff_singleton)
  then have "room s - {b} \<noteq> {}" by (metis card.empty)
  then have "room u \<noteq> {}" using v(7) by blast
  then have "small_dir u dir z" using d' u(3,4) v by (simp add: small_dir_def dir_at_def usable_def)
  moreover have "w = load_bytes name (length w) u" "\<forall>i < length w. direct_addr u (name + word_of_nat i)" using w v(8,9) by (simp_all add: load_bytes_def direct_addr_def)
  moreover have "unat (i_size (inode_table u ! dir)) div 16 = m'" using u(4) by simp
  ultimately obtain c x where f: "reads u z c x"
    "find_entry dir name (length w) u = (case List.find (entry_is (view u z) w) [0..<m'] of Some k \<Rightarrow> Ok (dir, Some (c, 16 * k)) x | None \<Rightarrow> Ok (dir, None) x) \<or>
      List.find (entry_is (view u z) w) [0..<m'] = None"
    using find_entry_law [of u dir z w name] w(1) by (auto split: option.splits)
  obtain k where k: "List.find (entry_is (view u z) w) [0..<m'] = Some k" "entry_inode (view u z) k = i_num (inode_table s ! i)"
    using fun_cong [OF u(5), of w] by (auto simp: dir_map_def)
  then have "find_entry dir name (length w) u = Ok (dir, Some (c, 16 * k)) x" using f(2) by simp
  moreover have "get16 (b_data (bufs x ! fst (c, 16 * k))) (snd (c, 16 * k)) = i_num (inode_table s ! i)" using f(1) k(2) by (simp add: reads_def entry_inode_def)
  ultimately show ?thesis using u(1,2,4-7) by blast
qed

text \<open>A directory of two entries in block 3 of the example disk, with names of fourteen bytes 7, and an inode to enter.\<close>

definition demo_dir :: kstate where
  "demo_dir = demo_fs\<lparr>inode_table := (inode_table demo_fs)[0 := demo_inode\<lparr>i_size := 32\<rparr>, 1 := zero_inode\<lparr>i_num := 5\<rparr>],
     pmem := (\<lambda>a. if a < 0x2000 then ucast a else 7)\<rparr>"

lemma demo_dir_ok: "small_dir demo_dir 0 3" "view demo_dir 3 = replicate 1024 7" "card (room demo_dir) = 2"
proof -
  have "usable demo_dir" "rd_blocks demo_dir = 4" "view demo_dir = view demo_fs"
    using demo_fs_cache cache_other [of demo_dir demo_fs] by (simp_all add: demo_dir_def)
  moreover have "inode_table demo_dir ! 0 = demo_inode\<lparr>i_size := 32\<rparr>" "0 < length (inode_table demo_dir)" by (simp_all add: demo_dir_def demo_fs_def)
  ultimately show "small_dir demo_dir 0 3" "view demo_dir 3 = replicate 1024 7"
    using demo_view [of 3] demo_fs_cache(3) by (simp_all add: small_dir_def dir_at_def demo_inode_def zero_inode_def)
  have "bufs demo_dir = bufs demo_cache" by (simp add: demo_dir_def demo_fs_def)
  then have "room demo_dir = {..<2}" using demo_cache_ok(6,7) by (auto simp: room_def)
  then show "card (room demo_dir) = 2" by simp
qed

lemma demo_dir_memory: "j < 4096 \<Longrightarrow> direct_addr demo_dir (0x3000 + word_of_nat j)" "j < 4096 \<Longrightarrow> direct_addr demo_dir (0x1001 + word_of_nat j)"
  "replicate 14 7 = load_bytes 0x3000 (length (replicate 14 (7 :: u8))) demo_dir" "[1, 2, 3] = load_bytes 0x1001 (length [1, 2, 3 :: u8]) demo_dir"
proof -
  show "j < 4096 \<Longrightarrow> direct_addr demo_dir (0x3000 + word_of_nat j)" "j < 4096 \<Longrightarrow> direct_addr demo_dir (0x1001 + word_of_nat j)"
    by (simp_all add: direct_addr_def word_less_nat_alt unat_word_ariths unat_of_nat_small)
  have "pmem demo_dir (0x3000 + word_of_nat k) = 7" if "k < 14" for k
    using that by (simp add: demo_dir_def word_less_nat_alt unat_word_ariths unat_of_nat_small)
  then show "replicate 14 7 = load_bytes 0x3000 (length (replicate 14 (7 :: u8))) demo_dir"
    by (intro nth_equalityI) (simp_all add: load_bytes_def)
  show "[1, 2, 3] = load_bytes 0x1001 (length [1, 2, 3 :: u8]) demo_dir" by (simp add: load_bytes_def demo_dir_def upt_rec)
qed

lemma demo_dir_inodes: "unat (i_size (inode_table demo_dir ! 0)) = 16 * 2" "i_num (inode_table demo_dir ! 1) = 5" "1 < length (inode_table demo_dir)"
  by (simp_all add: demo_dir_def demo_fs_def)

lemma demo_dir_entry:
  assumes "k < 64"
  shows "entry_inode (replicate 1024 7) k = 0x707" "entry_name (replicate 1024 7) k = replicate 14 7"
proof -
  have "16 * k + 16 \<le> 1024" using assms by simp
  then show "entry_inode (replicate 1024 7) k = 0x707" "entry_name (replicate 1024 7) k = replicate 14 7"
    by (simp_all add: entry_inode_def entry_name_def get16_def takeWhile_eq_all_conv min_def)
qed

lemma demo_dir_map: "dir_map (replicate 1024 7) 2 w = (if w = replicate 14 7 then Some 0x707 else None)"
  by (auto simp: dir_map_def entry_is_def demo_dir_entry upt_rec)

theorem find_entry_lookup_witness: "\<exists>b off t. find_entry 0 0x3000 14 demo_dir = Ok (0, Some (b, off)) t \<and> get16 (b_data (bufs t ! b)) off = 0x707"
proof -
  have "plain_name (replicate 14 7)" by (auto simp: plain_name_def dest: arg_cong [where f = length])
  from find_entry_lookup [OF demo_dir_ok(1) this demo_dir_memory(3)] demo_dir_memory(1) show ?thesis
    by (auto simp: demo_dir_map demo_dir_ok(2) demo_dir_inodes(1))
qed

theorem dir_add_find_witness:
  "\<exists>b off t u r v. add_entry 0 0x1001 3 demo_dir = Ok (Some (b, off)) t \<and> bindk (enter_inode 1 b off) (\<lambda>_. brelse (Some b)) t = Ok () u \<and>
    find_entry 0 0x1001 3 u = Ok (0, Some r) v \<and> get16 (b_data (bufs v ! fst r)) (snd r) = 5"
proof -
  have p: "plain_name [1, 2, 3]" by (simp add: plain_name_def)
  have l: "length [1, 2, 3 :: u8] = 3" by simp
  have d: "\<forall>i < length [1, 2, 3 :: u8]. direct_addr demo_dir (0x1001 + word_of_nat i)" using demo_dir_memory(2) by simp
  have n: "i_num (inode_table demo_dir ! 1) \<noteq> 0" "(2 :: nat) < DIR_ENTRIES_PER_BLOCK \<or> (\<exists>j < 2. entry_inode (view demo_dir 3) j = 0)"
    "dir_map (view demo_dir 3) 2 [1, 2, 3] = None" "2 \<le> card (room demo_dir)"
    unfolding demo_dir_ok(2) demo_dir_inodes(2) demo_dir_map using demo_dir_ok(3) by (auto dest: arg_cong [where f = length])
  from dir_add_find [OF demo_dir_ok(1) demo_dir_inodes(1) n(2) p demo_dir_memory(4) d demo_dir_inodes(3) n(1,3,4)] show ?thesis
    unfolding l demo_dir_inodes(2) by blast
qed

theorem find_entry_overrun_witness:
  "find_entry 0 0x1001 3 (demo_dir\<lparr>inode_table := (inode_table demo_dir)[0 := demo_inode\<lparr>i_size := 2048\<rparr>]\<rparr>) = Fault"
proof -
  let ?s = "demo_dir\<lparr>inode_table := (inode_table demo_dir)[0 := demo_inode\<lparr>i_size := 2048\<rparr>]\<rparr>"
  have c: "usable ?s" "rd_blocks ?s = rd_blocks demo_dir" "view ?s = view demo_dir"
    using demo_dir_ok(1) cache_other [of ?s demo_dir] by (simp_all add: small_dir_def dir_at_def)
  have l: "0 < length (inode_table demo_dir)" using demo_dir_inodes(3) by linarith
  then have n: "inode_table ?s ! 0 = demo_inode\<lparr>i_size := 2048\<rparr>" by simp
  have at: "dir_at ?s 0 3"
    using c(1,2) demo_dir_ok(1) l unfolding dir_at_def small_dir_def n by (simp add: demo_inode_def)
  have p: "plain_name [1, 2, 3]" by (simp add: plain_name_def)
  have w: "[1, 2, 3] = load_bytes 0x1001 (length [1, 2, 3 :: u8]) ?s" "\<forall>i < length [1, 2, 3 :: u8]. direct_addr ?s (0x1001 + word_of_nat i)"
    using demo_dir_memory(2,4) by (simp_all add: load_bytes_def direct_addr_def)
  have no: "dir_map (view ?s 3) 64 [1, 2, 3] = None"
    unfolding c(3) demo_dir_ok(2) by (auto simp: dir_map_def find_None_iff entry_is_def demo_dir_entry dest: arg_cong [where f = length])
  have "BLOCK_SIZE + 16 \<le> unat (i_size (inode_table ?s ! 0))" unfolding n by simp
  from find_entry_overrun [OF at p w this no] show ?thesis by (simp add: numeral_3_eq_3)
qed

end
