(* ===== verification/Itable.thy ===== *)
theory Itable
  imports Inode_IO
begin

text \<open>
  The inode table as a cache: the table and the disk together represent a map from inode numbers to inodes
  (\<open>fs_rel\<close>), \<open>iget\<close> reads it whatever slot it takes and \<open>iput\<close> gives the reference back.
\<close>

section \<open>What reading leaves as it was\<close>

definition calm :: "kstate \<Rightarrow> kstate \<Rightarrow> bool" where
  "calm s t \<longleftrightarrow> usable t \<and> (\<forall>m < rd_blocks s. view t m = view s m) \<and>
     cache_frame s (t\<lparr>inode_table := inode_table s, last_inode := last_inode s\<rparr>)"

lemma calm_facts:
  assumes "calm s t"
  shows "usable t" "rd_blocks t = rd_blocks s" "super_block t = super_block s" "fs_is_kernel t = fs_is_kernel s" "pmem t = pmem s"
    "current t = current s" "woken (tasks s) (tasks t)" "CURRENT_TIME t = CURRENT_TIME s" "file_table t = file_table s" "page_dir_table t = page_dir_table s"
proof -
  let ?u = "t\<lparr>inode_table := inode_table s, last_inode := last_inode s\<rparr>"
  have "woken (tasks s) (tasks ?u) \<and> rd_blocks ?u = rd_blocks s \<and> super_block ?u = super_block s \<and> fs_is_kernel ?u = fs_is_kernel s \<and>
      pmem ?u = pmem s \<and> current ?u = current s \<and> CURRENT_TIME ?u = CURRENT_TIME s \<and> file_table ?u = file_table s \<and> page_dir_table ?u = page_dir_table s"
    using assms unfolding calm_def cache_frame_def
    by (elim conjE exE) (simp only:, simp add: rd_blocks_def CURRENT_TIME_def)
  then show "rd_blocks t = rd_blocks s" "super_block t = super_block s" "fs_is_kernel t = fs_is_kernel s" "pmem t = pmem s"
    "current t = current s" "woken (tasks s) (tasks t)" "CURRENT_TIME t = CURRENT_TIME s" "file_table t = file_table s" "page_dir_table t = page_dir_table s" by (simp_all add: rd_blocks_def CURRENT_TIME_def)
  show "usable t" using assms by (simp add: calm_def)
qed

lemma calm_trans:
  assumes "calm s t" "calm t u"
  shows "calm s u"
proof -
  have "cache_frame t (u\<lparr>inode_table := inode_table t, last_inode := last_inode t\<rparr>)" using assms(2) by (simp add: calm_def)
  from cache_frame_inodes [OF this, where F = "inode_table s" and l = "last_inode s"]
  have "cache_frame (t\<lparr>inode_table := inode_table s, last_inode := last_inode s\<rparr>) (u\<lparr>inode_table := inode_table s, last_inode := last_inode s\<rparr>)" by simp
  moreover have "cache_frame s (t\<lparr>inode_table := inode_table s, last_inode := last_inode s\<rparr>)" using assms(1) by (simp add: calm_def)
  ultimately have "cache_frame s (u\<lparr>inode_table := inode_table s, last_inode := last_inode s\<rparr>)" by (rule cache_frame_trans [rotated])
  then show ?thesis using assms calm_facts(2) [OF assms(1)] by (simp add: calm_def)
qed

lemma calm_table: "usable s \<Longrightarrow> calm s (s\<lparr>inode_table := F, last_inode := l\<rparr>)"
  using cache_other(2,5) [of "s\<lparr>inode_table := F, last_inode := l\<rparr>" s] cache_frame_woken [OF woken_refl, of s] by (simp add: calm_def)

lemma calm_eq: "usable s \<Longrightarrow> t = s\<lparr>inode_table := inode_table t, last_inode := last_inode t\<rparr> \<Longrightarrow> calm s t"
  using calm_table by metis

lemma calm_cache:
  assumes "usable t" "cache_frame s t" "\<forall>m < rd_blocks s. view t m = view s m"
  shows "calm s t"
proof -
  have "t\<lparr>inode_table := inode_table s, last_inode := last_inode s\<rparr> = t" using cache_frame_fs [OF assms(2)] by simp
  then show ?thesis using assms by (simp add: calm_def)
qed

section \<open>The inode table\<close>

text \<open>Where an inode is on the disk, what the disk holds there, and which slot of the table holds an inode.\<close>

definition root_sb :: "kstate \<Rightarrow> super_block" where "root_sb s = super_block s ! the (super_of s RD)"

definition inode_blk :: "kstate \<Rightarrow> u16 \<Rightarrow> nat" where "inode_blk s num = nat (inode_block (root_sb s) num)"

definition num_ok :: "kstate \<Rightarrow> u16 \<Rightarrow> bool" where "num_ok s num \<longleftrightarrow> inode_blk s num < rd_blocks s"

definition disk_inode :: "kstate \<Rightarrow> u16 \<Rightarrow> d_inode" where
  "disk_inode s num = decode_inode (view s (inode_blk s num)) (32 * inode_index num)"

definition in_slot :: "kstate \<Rightarrow> u16 \<Rightarrow> nat \<Rightarrow> bool" where
  "in_slot s num i \<longleftrightarrow> uint (i_dev (inode_table s ! i)) = RD \<and> i_num (inode_table s ! i) = num"

text \<open>The state represents the inodes \<open>f\<close>: every slot of the table is unlocked, no slot is a mount point, an unused slot is
  clean, the slots with inodes of the disk hold what \<open>f\<close> says, each in one slot only, and for every other inode the disk
  does. There is an unused slot.\<close>

definition slot_ok :: "(u16 \<Rightarrow> d_inode) \<Rightarrow> kstate \<Rightarrow> m_inode \<Rightarrow> bool" where
  "slot_ok f s n \<longleftrightarrow> i_lock n = 0 \<and> i_mount n = 0 \<and> length (i_zone n) = 9 \<and> i_count n \<noteq> 0xFFFF \<and> (i_count n = 0 \<longrightarrow> i_dirt n = 0) \<and>
     (uint (i_dev n) = RD \<longrightarrow> i_pipe n = 0 \<and> num_ok s (i_num n) \<and> d_inode_of n = f (i_num n) \<and>
        (i_dirt n = 0 \<longrightarrow> disk_inode s (i_num n) = f (i_num n)))"

definition fs_rel :: "(u16 \<Rightarrow> d_inode) \<Rightarrow> kstate \<Rightarrow> bool" where
  "fs_rel f s \<longleftrightarrow> usable s \<and> supers_free s \<and> super_of s RD \<noteq> None \<and> length (inode_table s) = NR_INODE \<and> last_inode s < NR_INODE \<and>
     (\<forall>i < NR_INODE. slot_ok f s (inode_table s ! i)) \<and> (\<exists>i < NR_INODE. i_count (inode_table s ! i) = 0) \<and>
     (\<forall>i < NR_INODE. \<forall>j < NR_INODE. \<forall>num. in_slot s num i \<longrightarrow> in_slot s num j \<longrightarrow> i = j) \<and>
     (\<forall>num. num_ok s num \<longrightarrow> (\<forall>i < NR_INODE. \<not> in_slot s num i) \<longrightarrow> disk_inode s num = f num)"

lemma fs_relD:
  assumes "fs_rel f s"
  shows "usable s" "supers_free s" "super_of s RD \<noteq> None" "length (inode_table s) = NR_INODE" "last_inode s < NR_INODE"
    "i < NR_INODE \<Longrightarrow> slot_ok f s (inode_table s ! i)" "\<exists>i < NR_INODE. i_count (inode_table s ! i) = 0"
    "i < NR_INODE \<Longrightarrow> j < NR_INODE \<Longrightarrow> in_slot s num i \<Longrightarrow> in_slot s num j \<Longrightarrow> i = j"
    "num_ok s num \<Longrightarrow> \<forall>i < NR_INODE. \<not> in_slot s num i \<Longrightarrow> disk_inode s num = f num"
  using assms unfolding fs_rel_def by blast+

lemma calm_disk:
  assumes "calm s t"
  shows "inode_blk t num = inode_blk s num" "num_ok t num = num_ok s num" "num_ok s num \<Longrightarrow> disk_inode t num = disk_inode s num"
    "slot_ok f t n = slot_ok f s n" "supers_free t = supers_free s" "super_of t d = super_of s d"
proof -
  have sb: "super_block t = super_block s" and rb: "rd_blocks t = rd_blocks s" and v: "\<forall>m < rd_blocks s. view t m = view s m"
    using calm_facts [OF assms] assms by (simp_all add: calm_def)
  show so: "supers_free t = supers_free s" "super_of t d = super_of s d" for d by (simp_all add: supers_free_def super_of_def sb)
  show ib: "inode_blk t num = inode_blk s num" for num by (simp add: inode_blk_def root_sb_def so sb)
  show no: "num_ok t num = num_ok s num" for num by (simp add: num_ok_def ib rb)
  show di: "num_ok s num \<Longrightarrow> disk_inode t num = disk_inode s num" for num using v by (simp add: disk_inode_def ib num_ok_def)
  show "slot_ok f t n = slot_ok f s n" by (auto simp: slot_ok_def no di)
qed

text \<open>Changing one slot.\<close>

lemma fs_rel_update:
  assumes r: "fs_rel f s" and c: "calm s t" and t: "inode_table t = (inode_table s)[e := n]" "e < NR_INODE" "last_inode t < NR_INODE"
    and n: "slot_ok f s n" "uint (i_dev n) = RD \<Longrightarrow> \<forall>i < NR_INODE. i \<noteq> e \<longrightarrow> \<not> in_slot s (i_num n) i"
    and old: "\<And>num. in_slot s num e \<Longrightarrow> \<not> (uint (i_dev n) = RD \<and> i_num n = num) \<Longrightarrow> disk_inode s num = f num"
    and sp: "\<exists>i < NR_INODE. i_count (inode_table t ! i) = 0"
  shows "fs_rel f t"
proof -
  note s = fs_relD [OF r] and cd = calm_disk [OF c]
  have slot: "in_slot t num i = (if i = e then uint (i_dev n) = RD \<and> i_num n = num else in_slot s num i)" if "i < NR_INODE" for num i
    using that s(4) t(2) by (simp add: in_slot_def t(1))
  have "slot_ok f t (inode_table t ! i)" if "i < NR_INODE" for i using that s(4,6) t n(1) by (cases "i = e") (simp_all add: cd)
  moreover have "i = j" if ij: "i < NR_INODE" "j < NR_INODE" and b: "in_slot t num i" "in_slot t num j" for i j num
    using b n(2) ij s(8) by (auto simp: slot split: if_splits)
  moreover have "disk_inode t num = f num" if num: "num_ok t num" "\<forall>i < NR_INODE. \<not> in_slot t num i" for num
  proof -
    have ns: "num_ok s num" using num(1) by (simp add: cd)
    have "disk_inode s num = f num"
    proof (cases "in_slot s num e")
      case True
      then show ?thesis using old num(2) t(2) slot [of e num] by auto
    next
      case False
      then have "\<forall>i < NR_INODE. \<not> in_slot s num i" using num(2) slot by (metis (full_types))
      then show ?thesis using s(9) ns by blast
    qed
    then show ?thesis using cd(3) [OF ns] by simp
  qed
  ultimately show ?thesis using s(2-4) t(1,3) sp calm_facts(1) [OF c] unfolding fs_rel_def cd by simp
qed

section \<open>An unused slot\<close>

lemma scan_inodes_law:
  assumes r: "fs_rel f s" and l: "l < NR_INODE"
  shows "\<exists>k. 0 < k \<and> k \<le> n \<and> i_count (inode_table s ! ((l + k) mod NR_INODE)) = 0 \<Longrightarrow>
    \<exists>e < NR_INODE. i_count (inode_table s ! e) = 0 \<and> scan_inodes n p (s\<lparr>last_inode := l\<rparr>) = Ok (Some e) (s\<lparr>last_inode := e\<rparr>)"
  using l
proof (induction n arbitrary: l p)
  case (Suc n)
  define m where "m = (if l + 1 \<ge> NR_INODE then 0 else l + 1)"
  have m: "m < NR_INODE" "m = (l + 1) mod NR_INODE" using Suc.prems(2) by (cases "l + 1 = NR_INODE"; simp add: m_def)+
  have so: "i_lock (inode_table s ! m) = 0" "i_count (inode_table s ! m) = 0 \<Longrightarrow> i_dirt (inode_table s ! m) = 0"
    using fs_relD(6) [OF r m(1)] by (simp_all add: slot_ok_def)
  have step: "scan_inodes (Suc n) p (s\<lparr>last_inode := l\<rparr>) = (if i_count (inode_table s ! m) = 0 then Ok (Some m) (s\<lparr>last_inode := m\<rparr>)
      else scan_inodes n p (s\<lparr>last_inode := m\<rparr>))"
  proof -
    have "modk (\<lambda>s. s\<lparr>last_inode := if last_inode s + 1 \<ge> NR_INODE then 0 else last_inode s + 1\<rparr>) (s\<lparr>last_inode := l\<rparr>) = Ok () (s\<lparr>last_inode := m\<rparr>)"
      by (simp add: modk_def m_def)
    then show ?thesis using so m(1) fs_relD(4) [OF r] by (simp add: getk_def get_inode_def retk_def)
  qed
  show ?case
  proof (cases "i_count (inode_table s ! m) = 0")
    case True
    then show ?thesis using step m(1) by (intro exI [of _ m]) simp
  next
    case False
    obtain k where k: "0 < k" "k \<le> Suc n" "i_count (inode_table s ! ((l + k) mod NR_INODE)) = 0" using Suc.prems(1) by blast
    have "k \<noteq> 1" using False k(3) m(2) by auto
    then have "(m + (k - 1)) mod NR_INODE = (l + k) mod NR_INODE" using k(1) mod_add_left_eq [of "l + 1" NR_INODE "k - 1"] unfolding m(2) by simp
    then have "\<exists>k. 0 < k \<and> k \<le> n \<and> i_count (inode_table s ! ((m + k) mod NR_INODE)) = 0"
      using k \<open>k \<noteq> 1\<close> by (intro exI [of _ "k - 1"]) auto
    from Suc.IH [OF this m(1)] False show ?thesis unfolding step by simp
  qed
qed simp

lemma ring_reach: "l < N \<Longrightarrow> i < (N :: nat) \<Longrightarrow> \<exists>k. 0 < k \<and> k \<le> N \<and> (l + k) mod N = i"
proof -
  assume a: "l < N" "i < N"
  show ?thesis
  proof (cases "i \<le> l")
    case True
    then have "(l + (N + i - l)) mod N = i" using a by simp
    then show ?thesis using True a by (intro exI [of _ "N + i - l"]) auto
  next
    case False
    then show ?thesis using a by (intro exI [of _ "i - l"]) auto
  qed
qed

lemma get_empty_inode_law:
  assumes r: "fs_rel f s"
  shows "\<exists>e < NR_INODE. i_count (inode_table s ! e) = 0 \<and>
    get_empty_inode s = Ok e (s\<lparr>inode_table := (inode_table s)[e := zero_inode\<lparr>i_count := 1\<rparr>], last_inode := e\<rparr>)"
proof -
  note s = fs_relD [OF r]
  obtain i where i: "i < NR_INODE" "i_count (inode_table s ! i) = 0" using s(7) by blast
  obtain k where "0 < k" "k \<le> NR_INODE" "(last_inode s + k) mod NR_INODE = i" using ring_reach [OF s(5) i(1)] by blast
  with scan_inodes_law [OF r s(5), of NR_INODE None] i(2) obtain e where
    e: "e < NR_INODE" "i_count (inode_table s ! e) = 0" "scan_inodes NR_INODE None s = Ok (Some e) (s\<lparr>last_inode := e\<rparr>)" by auto
  let ?t = "s\<lparr>last_inode := e\<rparr>"
  have so: "i_lock (inode_table s ! e) = 0" "i_dirt (inode_table s ! e) = 0" using s(6) [OF e(1)] e(2) by (simp_all add: slot_ok_def)
  have "wait_on_inode e ?t = Ok () ?t" by (rule wait_on_inode_free) (use e(1) s(4) so in simp_all)
  then have "get_empty_inode s = Ok e (s\<lparr>inode_table := (inode_table s)[e := zero_inode\<lparr>i_count := 1\<rparr>], last_inode := e\<rparr>)"
    using e so s(4) by (simp add: get_empty_inode_def loopk_numeral get_inode_def upd_inode_def retk_def)
  then show ?thesis using e by blast
qed

section \<open>Giving an inode back\<close>

definition drop_ref :: "nat \<Rightarrow> kstate \<Rightarrow> kstate" where
  "drop_ref i s = s\<lparr>inode_table := (inode_table s)[i := (inode_table s ! i)\<lparr>i_count := i_count (inode_table s ! i) - 1\<rparr>]\<rparr>"

text \<open>The caller has one of the references to slot \<open>i\<close>: without it the state is as it should be.\<close>

definition holding :: "(u16 \<Rightarrow> d_inode) \<Rightarrow> kstate \<Rightarrow> nat \<Rightarrow> u16 \<Rightarrow> bool" where
  "holding f s i num \<longleftrightarrow> i < NR_INODE \<and> i_count (inode_table s ! i) \<noteq> 0 \<and> in_slot s num i \<and> fs_rel f (drop_ref i s)"

lemma holdingD:
  assumes "holding f s i num"
  shows "i < length (inode_table s)" "length (inode_table s) = NR_INODE" "usable s" "i_lock (inode_table s ! i) = 0" "uint (i_dev (inode_table s ! i)) = RD"
    "d_inode_of (inode_table s ! i) = f num" "i_pipe (inode_table s ! i) = 0" "i_count (inode_table s ! i) = 1 \<Longrightarrow> i_dirt (inode_table s ! i) = 0"
    "length (di_zone (f num)) = 9"
proof -
  note h = assms [unfolded holding_def] and r = fs_relD [of f "drop_ref i s"]
  show l: "length (inode_table s) = NR_INODE" "i < length (inode_table s)" using r(4) h by (simp_all add: drop_ref_def)
  show "usable s" using r(1) h cache_other(5) [of "drop_ref i s" s] by (simp add: drop_ref_def)
  have so: "slot_ok f (drop_ref i s) (inode_table (drop_ref i s) ! i)" using r(6) [of i] h by blast
  with h l show "i_lock (inode_table s ! i) = 0" "uint (i_dev (inode_table s ! i)) = RD" "i_pipe (inode_table s ! i) = 0"
    "i_count (inode_table s ! i) = 1 \<Longrightarrow> i_dirt (inode_table s ! i) = 0" and d: "d_inode_of (inode_table s ! i) = f num"
    by (auto simp: drop_ref_def slot_ok_def in_slot_def d_inode_of_def)
  have "length (i_zone (inode_table s ! i)) = 9" using so l by (simp add: drop_ref_def slot_ok_def)
  then show "length (di_zone (f num)) = 9" unfolding d [symmetric] by (simp add: d_inode_of_def)
qed

lemma iput_law:
  assumes h: "holding f s i num" and k: "\<not> S_ISBLK (di_mode (f num))" "di_nlinks (f num) \<noteq> 0"
  shows "iput (Some i) s = Ok () (drop_ref i s)"
proof -
  note d = holdingD [OF h]
  let ?n = "inode_table s ! i"
  have m: "i_mode ?n = di_mode (f num)" "i_nlinks ?n = di_nlinks (f num)" unfolding d(6) [symmetric] by (simp_all add: d_inode_of_def)
  have c: "i_count ?n \<noteq> 0" using h by (simp add: holding_def)
  have "i_count ?n > 1 \<or> i_count ?n = 1" using c by (metis less_linear word_less_1)
  then have "i_count ?n > 1 \<or> i_dirt ?n = 0" using d(8) by blast
  then show ?thesis
  proof (cases "i_count ?n > 1")
    case True
    then show ?thesis using d(1,7) k(1) m c wait_on_inode_free [OF d(1,4)]
      by (simp add: iput_def get_inode_def loopk_numeral upd_inode_def retk_def drop_ref_def whenk_def)
  next
    case False
    then show ?thesis using \<open>i_count ?n > 1 \<or> i_dirt ?n = 0\<close> d(1,7) k m c wait_on_inode_free [OF d(1,4)]
      by (simp add: iput_def get_inode_def loopk_numeral upd_inode_def retk_def drop_ref_def whenk_def)
  qed
qed

text \<open>The slot \<open>iget\<close> has taken and does not need.\<close>

lemma iput_empty:
  assumes "e < length (inode_table s)" "inode_table s ! e = zero_inode\<lparr>i_count := 1\<rparr>"
  shows "iput (Some e) s = Ok () (s\<lparr>inode_table := (inode_table s)[e := zero_inode]\<rparr>)"
proof -
  have "wait_on_inode e s = Ok () s" by (rule wait_on_inode_free) (use assms in \<open>simp_all add: zero_inode_def\<close>)
  then show ?thesis using assms
    by (simp add: iput_def get_inode_def loopk_numeral upd_inode_def retk_def zero_inode_def S_ISBLK_def S_ISREG_def truncate_def free_inode_def whenk_def)
qed

section \<open>iget\<close>

text \<open>The scan of the table: the slot of the inode, or the end.\<close>

lemma iget_scan:
  assumes len: "length (inode_table s) = NR_INODE" and no: "\<forall>j < i. i0 \<le> j \<longrightarrow> \<not> in_slot s num j" and i: "i0 \<le> i" "i \<le> NR_INODE"
  shows "loopk (i - i0 + n) (iget_step e) (i0, RD, uint num) s = loopk n (iget_step e) (i, RD, uint num) s"
  using i no
proof (induction "i - i0" arbitrary: i0)
  case (Suc d)
  then have "i0 < i" by simp
  then have x: "\<not> in_slot s num i0" "i0 < NR_INODE" "i - i0 + n = Suc (i - Suc i0 + n)" using Suc.prems by auto
  have "iget_step e (i0, RD, uint num) s = Ok (Inl (Suc i0, RD, uint num)) s"
    using x len by (auto simp: iget_step_def get_inode_def in_slot_def retk_def word_uint_eq_iff)
  then have "loopk (i - i0 + n) (iget_step e) (i0, RD, uint num) s = loopk (i - Suc i0 + n) (iget_step e) (Suc i0, RD, uint num) s"
    unfolding x(3) by simp
  also have "\<dots> = loopk n (iget_step e) (i, RD, uint num) s" by (rule Suc.hyps(1)) (use Suc \<open>i0 < i\<close> in auto)
  finally show ?case .
qed simp

lemma slot_ok_zero: "slot_ok f s zero_inode" "slot_ok f s (zero_inode\<lparr>i_count := 1\<rparr>)"
  by (simp_all add: slot_ok_def zero_inode_def)

text \<open>A slot that was unused and is cleared.\<close>

lemma fs_rel_clear:
  assumes r: "fs_rel f s" and e: "e < NR_INODE" "i_count (inode_table s ! e) = 0"
  shows "fs_rel f (s\<lparr>inode_table := (inode_table s)[e := zero_inode], last_inode := e\<rparr>)"
proof (rule fs_rel_update [OF r])
  have "slot_ok f s (inode_table s ! e)" using fs_relD(6) [OF r e(1)] .
  then show "disk_inode s num = f num" if "in_slot s num e" for num using that e(2) by (auto simp: slot_ok_def in_slot_def)
  show "calm s (s\<lparr>inode_table := (inode_table s)[e := zero_inode], last_inode := e\<rparr>)"
    using calm_table [OF fs_relD(1) [OF r], of e] by simp
  show "\<exists>i < NR_INODE. i_count (inode_table (s\<lparr>inode_table := (inode_table s)[e := zero_inode], last_inode := e\<rparr>) ! i) = 0"
    using e fs_relD(4) [OF r] by (intro exI [of _ e]) (simp add: zero_inode_def)
  show "slot_ok f s zero_inode" by (rule slot_ok_zero)
  show "uint (i_dev zero_inode) = RD \<Longrightarrow> \<forall>i < NR_INODE. i \<noteq> e \<longrightarrow> \<not> in_slot s (i_num zero_inode) i" by (simp add: zero_inode_def)
qed (use e in simp_all)

text \<open>The state after \<open>get_empty_inode\<close> took slot \<open>e\<close>, and with that slot given back.\<close>

definition taken :: "nat \<Rightarrow> kstate \<Rightarrow> kstate" where
  "taken e s = s\<lparr>inode_table := (inode_table s)[e := zero_inode\<lparr>i_count := 1\<rparr>], last_inode := e\<rparr>"

definition cleared :: "nat \<Rightarrow> kstate \<Rightarrow> kstate" where
  "cleared e s = s\<lparr>inode_table := (inode_table s)[e := zero_inode], last_inode := e\<rparr>"

lemma taken_slot: "e < length (inode_table s) \<Longrightarrow> in_slot (taken e s) num i = in_slot (cleared e s) num i"
  by (cases "i = e") (simp_all add: in_slot_def taken_def cleared_def zero_inode_def)

lemma cleared_slot: "e < length (inode_table s) \<Longrightarrow> \<not> in_slot (cleared e s) num e"
  by (simp add: in_slot_def cleared_def zero_inode_def)

text \<open>The inode is in the table.\<close>

lemma iget_cached:
  assumes rc: "fs_rel f (cleared e s)" and e: "e < length (inode_table s)" and j: "j < NR_INODE" "in_slot (cleared e s) num j"
  shows "\<exists>t. loopk WAIT_FUEL (iget_step e) (0, RD, uint num) (taken e s) = Ok j t \<and> calm (cleared e s) t \<and> holding f t j num"
proof -
  let ?c = "cleared e s" and ?u = "taken e s"
  note cD = fs_relD [OF rc]
  have lu: "length (inode_table ?u) = NR_INODE" "length (inode_table ?c) = NR_INODE" using cD(4) by (simp_all add: taken_def cleared_def)
  have je: "j \<noteq> e" using j(2) cleared_slot [OF e] by auto
  have "\<forall>k < j. \<not> in_slot ?u num k" using cD(8) j taken_slot [OF e] by (metis less_trans nat_neq_iff)
  moreover obtain N where N: "WAIT_FUEL = j + Suc N" using j(1) less_imp_Suc_add [of j WAIT_FUEL] by auto
  ultimately have lp: "loopk WAIT_FUEL (iget_step e) (0, RD, uint num) ?u = loopk (Suc N) (iget_step e) (j, RD, uint num) ?u"
    using iget_scan [OF lu(1), of j 0 num "Suc N" e] j(1) unfolding N by simp
  define t where "t = ?c\<lparr>inode_table := (inode_table ?c)[j := (inode_table ?c ! j)\<lparr>i_count := i_count (inode_table ?c ! j) + 1\<rparr>]\<rparr>"
  define v where "v = ?u\<lparr>inode_table := (inode_table ?u)[j := (inode_table ?u ! j)\<lparr>i_count := i_count (inode_table ?u ! j) + 1\<rparr>]\<rparr>"
  have uj: "inode_table ?u ! j = inode_table ?c ! j" using je by (simp add: taken_def cleared_def)
  have so: "slot_ok f ?c (inode_table ?c ! j)" by (rule cD(6) [OF j(1)])
  have wo: "wait_on_inode j ?u = Ok () ?u" by (rule wait_on_inode_free) (use j lu uj so in \<open>simp_all add: slot_ok_def\<close>)
  have "iput (Some e) v = Ok () (v\<lparr>inode_table := (inode_table v)[e := zero_inode]\<rparr>)"
    by (rule iput_empty) (use e je in \<open>simp_all add: v_def taken_def\<close>)
  moreover have "v\<lparr>inode_table := (inode_table v)[e := zero_inode]\<rparr> = t"
    using je by (simp add: v_def t_def taken_def cleared_def list_update_swap)
  moreover have "get_inode j ?u = Ok (inode_table ?c ! j) ?u" "upd_inode j (\<lambda>n. n\<lparr>i_count := i_count n + 1\<rparr>) ?u = Ok () v"
    using j(1) lu uj by (simp_all add: get_inode_def upd_inode_def v_def)
  moreover have "uint (i_dev (inode_table ?c ! j)) = RD" "i_num (inode_table ?c ! j) = num" "i_mount (inode_table ?c ! j) = 0"
    using j(2) so by (simp_all add: in_slot_def slot_ok_def)
  ultimately have "iget_step e (j, RD, uint num) ?u = Ok (Inr j) t" using wo j(1) by (simp add: iget_step_def retk_def)
  then have res: "loopk WAIT_FUEL (iget_step e) (0, RD, uint num) ?u = Ok j t" unfolding lp by (simp add: retk_def)
  have "i_count (inode_table ?c ! j) + 1 \<noteq> 0" using so by (auto simp: slot_ok_def add_eq_0_iff2)
  moreover have "drop_ref j t = ?c" using j(1) lu by (simp add: drop_ref_def t_def)
  ultimately have "holding f t j num" using rc j lu by (simp add: holding_def) (simp add: t_def in_slot_def)
  moreover have "calm ?c t" by (rule calm_eq [OF cD(1)]) (simp add: t_def)
  ultimately show ?thesis using res by blast
qed

text \<open>It is not: it is read from the disk.\<close>

lemma read_empty:
  assumes rc: "fs_rel f c" and w: "calm c w" "inode_table w ! e = zero_inode\<lparr>i_count := 1, i_dev := word_of_int RD, i_num := num\<rparr>"
    "e < length (inode_table w)" and nc: "num_ok c num"
  shows "\<exists>t. read_inode e w = Ok () t \<and> calm w t \<and> last_inode t = last_inode w \<and>
    inode_table t = (inode_table w)[e := set_d_inode (disk_inode w num) (inode_table w ! e)]"
proof -
  note cD = fs_relD [OF rc] and cw = calm_disk [OF w(1)]
  have "super_of w RD \<noteq> None" "supers_free w" "inode_blk w num < rd_blocks w" "usable w"
    using cD(2,3) nc cw calm_facts [OF w(1)] by (simp_all add: num_ok_def)
  moreover have "0 \<le> inode_block (root_sb w) num"
  proof -
    have "(- 1) div 32 \<le> (uint num - 1) div (32 :: int)" by (rule zdiv_mono1) (use uint_ge_0 [of num] in linarith, simp)
    then show ?thesis using uint_ge_0 [of "s_imap_blocks (root_sb w)"] uint_ge_0 [of "s_zmap_blocks (root_sb w)"]
      unfolding inode_block_def by linarith
  qed
  ultimately have "inode_at w e (inode_blk w num) (inode_index num)"
    using w(2,3) at_hand_usable [of w "inode_blk w num"] by (auto simp: inode_at_def zero_inode_def inode_blk_def root_sb_def)
  from read_inode_full [OF this] \<open>usable w\<close> obtain t where t: "read_inode e w = Ok () t" "rd_blocks t = rd_blocks w"
    "inode_table t = (inode_table w)[e := set_d_inode (disk_inode w num) (inode_table w ! e)]"
    "\<forall>m < rd_blocks w. view t m = view w m" "usable t" "cache_frame w (t\<lparr>inode_table := inode_table w\<rparr>)"
    unfolding disk_inode_def by blast
  have lt: "last_inode t = last_inode w" using cache_frame_fs [OF t(6)] by simp
  then have "t\<lparr>inode_table := inode_table w, last_inode := last_inode w\<rparr> = t\<lparr>inode_table := inode_table w\<rparr>"
    by (intro kstate.equality) simp_all
  then have "calm w t" using t(4-6) by (simp add: calm_def)
  then show ?thesis using t(1,3) lt by blast
qed

lemma iget_uncached:
  assumes rc: "fs_rel f (cleared e s)" and e: "e < length (inode_table s)" and no: "\<forall>j < NR_INODE. \<not> in_slot (cleared e s) num j"
    and nc: "num_ok (cleared e s) num"
  shows "\<exists>t. loopk WAIT_FUEL (iget_step e) (0, RD, uint num) (taken e s) = Ok e t \<and> calm (cleared e s) t \<and> holding f t e num"
proof -
  let ?c = "cleared e s" and ?u = "taken e s"
  note cD = fs_relD [OF rc]
  have lu: "length (inode_table ?u) = NR_INODE" "length (inode_table ?c) = NR_INODE" "e < NR_INODE"
    using cD(4) e by (simp_all add: taken_def cleared_def)
  define w where "w = ?u\<lparr>inode_table := (inode_table ?u)[e := (inode_table ?u ! e)\<lparr>i_dev := word_of_int RD, i_num := num\<rparr>]\<rparr>"
  have we: "inode_table w ! e = zero_inode\<lparr>i_count := 1, i_dev := word_of_int RD, i_num := num\<rparr>" "e < length (inode_table w)"
    using e by (simp_all add: w_def taken_def)
  have cw: "calm ?c w" by (rule calm_eq [OF cD(1)]) (simp add: w_def taken_def cleared_def)
  obtain t where t: "read_inode e w = Ok () t" "calm w t" "last_inode t = last_inode w"
    "inode_table t = (inode_table w)[e := set_d_inode (disk_inode w num) (inode_table w ! e)]"
    using read_empty [OF rc cw we nc] by blast
  have "loopk WAIT_FUEL (iget_step e) (0, RD, uint num) ?u = loopk (WAIT_FUEL - NR_INODE) (iget_step e) (NR_INODE, RD, uint num) ?u"
    using iget_scan [OF lu(1), of NR_INODE 0 num "WAIT_FUEL - NR_INODE" e] no taken_slot [OF e] by simp
  moreover have "iget_step e (NR_INODE, RD, uint num) ?u = Ok (Inr e) t"
    using t(1) lu by (simp add: iget_step_def upd_inode_def w_def retk_def)
  ultimately have res: "loopk WAIT_FUEL (iget_step e) (0, RD, uint num) ?u = Ok e t" by (simp add: loopk_numeral retk_def)
  define n where "n = set_d_inode (f num) (zero_inode\<lparr>i_dev := word_of_int RD, i_num := num\<rparr>)"
  have df: "disk_inode w num = f num" "disk_inode ?c num = f num" using calm_disk(3) [OF cw nc] cD(9) [OF nc no] by simp_all
  have dz: "length (di_zone (f num)) = 9" unfolding df(1) [symmetric] by (simp add: disk_inode_def decode_inode_def)
  have "(inode_table w)[e := x] = (inode_table ?c)[e := x]" for x by (simp add: w_def taken_def cleared_def)
  moreover have "set_d_inode (disk_inode w num) (inode_table w ! e) = n\<lparr>i_count := 1\<rparr>"
    unfolding df(1) we(1) n_def by (simp add: set_d_inode_def zero_inode_def)
  ultimately have tt: "inode_table t = (inode_table ?c)[e := n\<lparr>i_count := 1\<rparr>]" unfolding t(4) by simp
  have "n\<lparr>i_count := 0\<rparr> = n" by (simp add: n_def set_d_inode_def zero_inode_def)
  then have dt: "drop_ref e t = t\<lparr>inode_table := (inode_table ?c)[e := n]\<rparr>" using lu by (simp add: drop_ref_def tt)
  have "calm t (drop_ref e t)" by (rule calm_eq [OF calm_facts(1) [OF t(2)]]) (simp add: dt)
  then have ct: "calm ?c (drop_ref e t)" using calm_trans [OF calm_trans [OF cw t(2)]] by blast
  have "fs_rel f (drop_ref e t)"
  proof (rule fs_rel_update [OF rc ct])
    show "inode_table (drop_ref e t) = (inode_table ?c)[e := n]" by (simp add: dt)
    show "slot_ok f ?c n" using nc df(2) dz by (simp add: slot_ok_def n_def set_d_inode_def zero_inode_def d_inode_of_def)
    show "\<exists>i < NR_INODE. i_count (inode_table (drop_ref e t) ! i) = 0"
      using lu by (intro exI [of _ e]) (simp add: dt n_def set_d_inode_def zero_inode_def)
    show "disk_inode ?c m = f m" if "in_slot ?c m e" for m using that cleared_slot [OF e] by simp
    show "last_inode (drop_ref e t) < NR_INODE" using t(3) lu by (simp add: drop_ref_def w_def taken_def)
  qed (use lu no in \<open>simp_all add: n_def set_d_inode_def\<close>)
  then have "holding f t e num" using lu by (simp add: holding_def in_slot_def tt) (simp add: n_def set_d_inode_def zero_inode_def)
  then show ?thesis using res calm_trans [OF cw t(2)] by blast
qed

lemma iget_law:
  assumes r: "fs_rel f s" and num: "num_ok s num"
  shows "\<exists>j t. iget RD (uint num) s = Ok j t \<and> calm s t \<and> holding f t j num"
proof -
  obtain e where e: "e < NR_INODE" "i_count (inode_table s ! e) = 0" and ge: "get_empty_inode s = Ok e (taken e s)"
    using get_empty_inode_law [OF r] unfolding taken_def by blast
  have rc: "fs_rel f (cleared e s)" unfolding cleared_def by (rule fs_rel_clear [OF r e])
  have sc: "calm s (cleared e s)" by (rule calm_eq [OF fs_relD(1) [OF r]]) (simp add: cleared_def)
  have el: "e < length (inode_table s)" using e(1) fs_relD(4) [OF r] by simp
  have ig: "iget RD (uint num) s = loopk WAIT_FUEL (iget_step e) (0, RD, uint num) (taken e s)" using ge by (simp add: iget_def)
  have "\<exists>j t. iget RD (uint num) s = Ok j t \<and> calm (cleared e s) t \<and> holding f t j num"
    unfolding ig using iget_cached [OF rc el] iget_uncached [OF rc el] num calm_disk(2) [OF sc] by blast
  then show ?thesis using calm_trans [OF sc] by blast
qed

end
