(* ===== verification/Path_Props.thy ===== *)
theory Path_Props
  imports Dir_Props Itable
begin

text \<open>
  Path names: \<open>namei\<close> is the walk through the directories of the inodes that the inode table and the disk represent.
\<close>

section \<open>The walk through the directories\<close>

text \<open>Whether the mode bits of an inode let the current process do \<open>msk\<close>, the map of a directory, and one step of the walk.\<close>

definition may :: "kstate \<Rightarrow> d_inode \<Rightarrow> u32 \<Rightarrow> bool" where
  "may s d msk \<longleftrightarrow> (let t = cur_task s; mode = (ucast (di_mode d) :: u32);
     m = (if t_euid t = di_uid d then drop_bit 6 mode else if uint (t_egid t) = uint (di_gid d) then drop_bit 3 mode else mode) in
     m AND msk AND 7 = msk \<or> t_euid t = 0)"

definition entries_of :: "kstate \<Rightarrow> d_inode \<Rightarrow> u8 list \<rightharpoonup> u16" where
  "entries_of s d = dir_map (view s (unat (di_zone d ! 0))) (unat (di_size d) div 16)"

definition searchable :: "kstate \<Rightarrow> d_inode \<Rightarrow> bool" where
  "searchable s d \<longleftrightarrow> S_ISDIR (di_mode d) \<and> may s d MAY_EXEC"

definition step_to :: "kstate \<Rightarrow> (u16 \<Rightarrow> d_inode) \<Rightarrow> u16 \<Rightarrow> u8 list \<rightharpoonup> u16" where
  "step_to s f num w = (if searchable s (f num) then entries_of s (f num) w else None)"

fun walk :: "kstate \<Rightarrow> (u16 \<Rightarrow> d_inode) \<Rightarrow> u16 \<Rightarrow> u8 list list \<Rightarrow> u16 option" where
  "walk s f num [] = Some num"
| "walk s f num (w # ws) = (case step_to s f num w of None \<Rightarrow> None | Some m \<Rightarrow> walk s f m ws)"

text \<open>The inodes on the way: linked, no block devices, and the directories among them of one block.\<close>

definition node_ok :: "kstate \<Rightarrow> d_inode \<Rightarrow> bool" where
  "node_ok s d \<longleftrightarrow> di_nlinks d \<noteq> 0 \<and> \<not> S_ISBLK (di_mode d) \<and>
     (S_ISDIR (di_mode d) \<longrightarrow> di_zone d ! 0 \<noteq> 0 \<and> unat (di_zone d ! 0) < rd_blocks s \<and> unat (di_size d) \<le> BLOCK_SIZE)"

fun walk_ok :: "kstate \<Rightarrow> (u16 \<Rightarrow> d_inode) \<Rightarrow> u16 \<Rightarrow> u8 list list \<Rightarrow> bool" where
  "walk_ok s f num [] = num_ok s num"
| "walk_ok s f num (w # ws) = (num_ok s num \<and> node_ok s (f num) \<and>
     (case step_to s f num w of None \<Rightarrow> True | Some m \<Rightarrow> walk_ok s f m ws))"

definition path_names :: "u8 list list \<Rightarrow> bool" where
  "path_names ws \<longleftrightarrow> ws \<noteq> [] \<and> (\<forall>w \<in> set ws. plain_name w \<and> 0x2F \<notin> set w)"

text \<open>The directory of the last component.\<close>

fun enter :: "kstate \<Rightarrow> (u16 \<Rightarrow> d_inode) \<Rightarrow> u16 \<Rightarrow> u8 list list \<Rightarrow> u16 option" where
  "enter s f num (w # v # ws) = (case step_to s f num w of None \<Rightarrow> None | Some m \<Rightarrow> enter s f m (v # ws))"
| "enter s f num ws = (if searchable s (f num) then Some num else None)"

lemma enter_walk: "ws \<noteq> [] \<Longrightarrow> walk s f num ws = (case enter s f num ws of None \<Rightarrow> None | Some m \<Rightarrow> step_to s f m (last ws))"
  by (induction s f num ws rule: enter.induct) (auto simp: step_to_def split: option.split)

lemma enter_ok: "ws \<noteq> [] \<Longrightarrow> walk_ok s f num ws \<Longrightarrow> enter s f num ws = Some m \<Longrightarrow> walk_ok s f m [last ws] \<and> searchable s (f m)"
  by (induction s f num ws rule: enter.induct) (auto split: option.splits if_splits)

lemma calm_task:
  assumes "calm s t"
  shows "t_euid (cur_task t) = t_euid (cur_task s)" "t_egid (cur_task t) = t_egid (cur_task s)" "t_filp (cur_task t) = t_filp (cur_task s)"
    "length (t_filp (cur_task t)) = length (t_filp (cur_task s))"
proof -
  have "woken (tasks s) (tasks t)" "current t = current s" using calm_facts [OF assms] by simp_all
  then show "t_euid (cur_task t) = t_euid (cur_task s)" "t_egid (cur_task t) = t_egid (cur_task s)" "t_filp (cur_task t) = t_filp (cur_task s)"
    "length (t_filp (cur_task t)) = length (t_filp (cur_task s))"
    by (auto simp: woken_def cur_task_def dest!: spec [of _ "current s"])
qed

lemma searchable_calm: "calm s t \<Longrightarrow> may t d msk = may s d msk" "calm s t \<Longrightarrow> searchable t d = searchable s d"
  using calm_task [of s t] by (simp_all add: searchable_def may_def Let_def)

lemma step_calm:
  assumes c: "calm s t" and n: "node_ok s (f num)"
  shows "step_to t f num w = step_to s f num w" "node_ok t (f num)"
proof -
  have "S_ISDIR (di_mode (f num)) \<Longrightarrow> entries_of t (f num) w = entries_of s (f num) w"
    using n c by (simp add: node_ok_def entries_of_def calm_def)
  then show "step_to t f num w = step_to s f num w" by (simp add: step_to_def searchable_calm(2) [OF c]) (simp add: searchable_def)
  show "node_ok t (f num)" using n calm_facts(2) [OF c] by (simp add: node_ok_def)
qed

lemma walk_calm:
  assumes c: "calm s t"
  shows "walk_ok s f num ws \<Longrightarrow> walk t f num ws = walk s f num ws \<and> walk_ok t f num ws \<and> enter t f num ws = enter s f num ws"
proof (induction ws arbitrary: num rule: induct_list012)
  case 1
  then show ?case using searchable_calm(2) [OF c] calm_disk(2) [OF c] by simp
next
  case (2 w)
  then show ?case using step_calm [OF c, of f num] searchable_calm(2) [OF c] calm_disk(2) [OF c] by (auto split: option.splits)
next
  case (3 w v ws)
  have n: "node_ok s (f num)" using "3.prems" by simp
  note st = step_calm [OF c, of f num, OF n] calm_disk(2) [OF c]
  show ?case
  proof (cases "step_to s f num w")
    case None
    then show ?thesis using "3.prems" st by simp
  next
    case (Some m)
    have "walk_ok s f m (v # ws)" using "3.prems" Some by simp
    from "3.IH"(2) [OF this] show ?thesis using "3.prems" Some st(2,3)
      by (simp only: walk.simps(2) [of _ _ num w] walk_ok.simps(2) [of _ _ num w] enter.simps(1) [of _ _ num w] st(1) option.case)
  qed
qed

section \<open>Strings in memory\<close>

definition str_at :: "kstate \<Rightarrow> ulong \<Rightarrow> u8 list \<Rightarrow> bool" where
  "str_at s a bs \<longleftrightarrow> (\<forall>k \<le> length bs. direct_addr s (a + word_of_nat k)) \<and> (\<forall>k < length bs. pmem s (a + word_of_nat k) = bs ! k) \<and>
     pmem s (a + word_of_nat (length bs)) = 0"

lemma str_at_calm: "calm s t \<Longrightarrow> str_at t a bs = str_at s a bs"
  using calm_facts [of s t] by (simp add: str_at_def direct_addr_def)

lemma str_at_append: "str_at s a (xs @ ys) \<Longrightarrow> str_at s (a + word_of_nat (length xs)) ys"
  unfolding str_at_def
proof (intro conjI allI impI; elim conjE)
  fix k assume "k \<le> length ys" "\<forall>k \<le> length (xs @ ys). direct_addr s (a + word_of_nat k)"
  then show "direct_addr s (a + word_of_nat (length xs) + word_of_nat k)" by (auto simp: add.assoc simp flip: of_nat_add)
next
  fix k assume "k < length ys" "\<forall>k < length (xs @ ys). pmem s (a + word_of_nat k) = (xs @ ys) ! k"
  then show "pmem s (a + word_of_nat (length xs) + word_of_nat k) = ys ! k"
    by (auto simp: add.assoc simp flip: of_nat_add dest!: spec [of _ "length xs + k"])
qed (simp add: add.assoc)

lemma str_at_Cons: "str_at s a (c # bs) \<Longrightarrow> str_at s (a + 1) bs"
  using str_at_append [of s a "[c]" bs] by simp

lemma str_at_byte: "str_at s a bs \<Longrightarrow> get_fs_byte a s = Ok (case bs of [] \<Rightarrow> 0 | c # _ \<Rightarrow> c) s"
  unfolding str_at_def by (cases bs) (auto simp: get_fs_byte_direct dest!: spec [of _ 0])

lemma str_at_name:
  assumes "str_at s a (w @ r)"
  shows "w = load_bytes a (length w) s" "\<forall>i < length w. direct_addr s (a + word_of_nat i)"
proof -
  show "w = load_bytes a (length w) s" by (rule nth_equalityI) (use assms in \<open>auto simp: load_bytes_def str_at_def nth_append\<close>)
  show "\<forall>i < length w. direct_addr s (a + word_of_nat i)" using assms by (simp add: str_at_def)
qed

fun join :: "u8 list list \<Rightarrow> u8 list" where
  "join [] = []"
| "join [w] = w"
| "join (w # v # ws) = w @ 0x2F # join (v # ws)"

lemma scan_name_loop:
  assumes r: "r = [] \<or> hd r = 0x2F"
  shows "str_at s a (w @ r) \<Longrightarrow> 0 \<notin> set w \<Longrightarrow> 0x2F \<notin> set w \<Longrightarrow> length w < n \<Longrightarrow>
    loopk n (\<lambda>(p, len). bindk (get_fs_byte p) (\<lambda>c. if c \<noteq> 0 \<and> c \<noteq> 0x2F then retk (Inl (p + 1, len + 1)) else retk (Inr (c, p + 1, len)))) (a, l) s =
    Ok (if r = [] then 0 else 0x2F, a + word_of_nat (length w) + 1, l + length w) s"
proof (induction w arbitrary: a l n)
  case Nil
  then obtain m where "n = Suc m" by (cases n) auto
  then show ?case using Nil r str_at_byte [of s a r] by (cases r) (auto simp: retk_def)
next
  case (Cons c w)
  then obtain m where n: "n = Suc m" by (cases n) auto
  have "get_fs_byte a s = Ok c s" using str_at_byte [OF Cons.prems(1)] by simp
  moreover have "str_at s (a + 1) (w @ r)" using Cons.prems(1) str_at_Cons by simp
  ultimately show ?case using Cons.IH [of "a + 1" m "l + 1"] Cons.prems n by (auto simp: retk_def algebra_simps)
qed

lemma scan_name_law:
  assumes "str_at s a (w @ r)" "0 \<notin> set w" "0x2F \<notin> set w" "length w < PATH_FUEL" "r = [] \<or> hd r = 0x2F"
  shows "scan_name a s = Ok (if r = [] then 0 else 0x2F, a + word_of_nat (length w) + 1, length w) s"
  unfolding scan_name_def using scan_name_loop [OF assms(5,1-4), of 0] by simp

text \<open>The last component: where it starts and how long it is.\<close>

lemma base_skip:
  assumes body: "body = (\<lambda>(p, base). bindk (get_fs_byte p) (\<lambda>c.
       if c = 0 then retk (Inr (Some (dir, unat (p - base), base))) else retk (Inl (p + 1, if c = 0x2F then p + 1 else base))))"
  shows "str_at s a (w @ r) \<Longrightarrow> 0 \<notin> set w \<Longrightarrow> 0x2F \<notin> set w \<Longrightarrow> loopk (length w + n) body (a, b) s = loopk n body (a + word_of_nat (length w), b) s"
proof (induction w arbitrary: a)
  case (Cons c w)
  have "get_fs_byte a s = Ok c s" using str_at_byte [OF Cons.prems(1)] by simp
  moreover have "str_at s (a + 1) (w @ r)" using Cons.prems(1) str_at_Cons by simp
  ultimately show ?case using Cons.IH [of "a + 1"] Cons.prems by (auto simp: body retk_def algebra_simps)
qed simp

lemma base_law:
  assumes body: "body = (\<lambda>(p, base). bindk (get_fs_byte p) (\<lambda>c.
       if c = 0 then retk (Inr (Some (dir, unat (p - base), base))) else retk (Inl (p + 1, if c = 0x2F then p + 1 else base))))"
  shows "ws \<noteq> [] \<Longrightarrow> \<forall>w \<in> set ws. 0 \<notin> set w \<and> 0x2F \<notin> set w \<and> length w < 2 ^ 64 \<Longrightarrow> str_at s a (join ws) \<Longrightarrow> length (join ws) < n \<Longrightarrow>
    \<exists>a'. loopk n body (a, a) s = Ok (Some (dir, length (last ws), a')) s \<and> str_at s a' (last ws)"
proof (induction ws arbitrary: a n rule: induct_list012)
  case (2 w)
  then have w: "0 \<notin> set w" "0x2F \<notin> set w" "length w < 2 ^ 64" "str_at s a (w @ [])" by auto
  obtain m where n: "n = length w + Suc m" using 2(4) by (auto simp: less_iff_Suc_add)
  have "get_fs_byte (a + word_of_nat (length w)) s = Ok 0 s" using str_at_byte [OF str_at_append [OF w(4)]] by simp
  then have "loopk n body (a, a) s = Ok (Some (dir, length w, a)) s"
    unfolding n base_skip [OF body w(4,1,2)] using w(3) by (simp add: body retk_def unsigned_of_nat take_bit_nat_eq_self)
  then show ?case using w(4) by auto
next
  case (3 w v ws)
  then have w: "0 \<notin> set w" "0x2F \<notin> set w" "str_at s a (w @ 0x2F # join (v # ws))" by auto
  obtain m where n: "n = length w + Suc m" "length (join (v # ws)) < m" using "3.prems"(4) by (auto simp: less_iff_Suc_add)
  let ?b = "a + word_of_nat (length w)"
  have b: "str_at s ?b (0x2F # join (v # ws))" by (rule str_at_append [OF w(3)])
  then have "loopk n body (a, a) s = loopk m body (?b + 1, ?b + 1) s"
    unfolding n(1) base_skip [OF body w(3,1,2)] using str_at_byte [OF b] by (simp add: body retk_def)
  then show ?case using "3.IH"(2) [OF _ _ str_at_Cons [OF b] n(2)] "3.prems"(2) by simp
qed simp

section \<open>One component\<close>

lemma holding_calm:
  assumes h: "holding f s i num" and c: "calm s v" "inode_table v = inode_table s" "last_inode v = last_inode s"
  shows "holding f v i num"
proof -
  note r = fs_relD [of f "drop_ref i s"]
  have hr: "fs_rel f (drop_ref i s)" and i: "i < NR_INODE" using h by (simp_all add: holding_def)
  have "calm (drop_ref i s) s" by (rule calm_eq [OF r(1) [OF hr]]) (simp add: drop_ref_def)
  moreover have "calm v (drop_ref i v)" by (rule calm_eq [OF calm_facts(1) [OF c(1)]]) (simp add: drop_ref_def)
  ultimately have dd: "calm (drop_ref i s) (drop_ref i v)" using calm_trans c(1) by blast
  have "fs_rel f (drop_ref i v)"
  proof (rule fs_rel_update [OF hr dd, of i "inode_table (drop_ref i s) ! i"])
    show "inode_table (drop_ref i v) = (inode_table (drop_ref i s))[i := inode_table (drop_ref i s) ! i]" by (simp add: drop_ref_def c)
    show "slot_ok f (drop_ref i s) (inode_table (drop_ref i s) ! i)" by (rule r(6) [OF hr i])
    show "\<forall>j < NR_INODE. j \<noteq> i \<longrightarrow> \<not> in_slot (drop_ref i s) (i_num (inode_table (drop_ref i s) ! i)) j"
      if "uint (i_dev (inode_table (drop_ref i s) ! i)) = RD" using that r(8) [OF hr i] unfolding in_slot_def by blast
    show "\<exists>j < NR_INODE. i_count (inode_table (drop_ref i v) ! j) = 0" using r(7) [OF hr] by (simp add: drop_ref_def c)
    show "last_inode (drop_ref i v) < NR_INODE" using r(5) [OF hr] by (simp add: drop_ref_def c)
  qed (auto simp: i in_slot_def)
  then show ?thesis using h c by (simp add: holding_def in_slot_def)
qed

lemma permission_law:
  assumes h: "holding f s i num" and n: "di_nlinks (f num) \<noteq> 0"
  shows "permission i msk s = Ok (may s (f num) msk) s"
proof -
  note d = holdingD [OF h]
  have m: "i_mode (inode_table s ! i) = di_mode (f num)" "i_uid (inode_table s ! i) = di_uid (f num)" "i_gid (inode_table s ! i) = di_gid (f num)"
    "i_nlinks (inode_table s ! i) = di_nlinks (f num)" unfolding d(6) [symmetric] by (simp_all add: d_inode_of_def)
  show ?thesis using d(1) n by (simp add: permission_def get_inode_def getk_def retk_def m Let_def may_def suser_def)
qed

lemma search_law:
  assumes h: "holding f s i num" and n: "node_ok s (f num)"
  shows "(if S_ISDIR (i_mode (inode_table s ! i)) then permission i MAY_EXEC else retk False) s = Ok (searchable s (f num)) s"
proof -
  have "i_mode (inode_table s ! i) = di_mode (f num)" unfolding holdingD(6) [OF h, symmetric] by (simp add: d_inode_of_def)
  then show ?thesis using permission_law [OF h] n by (simp add: retk_def searchable_def node_ok_def)
qed

text \<open>The search, and what releasing the block leaves.\<close>

lemma lookup_law:
  assumes h: "holding f s i num" and n: "node_ok s (f num)" "S_ISDIR (di_mode (f num))" and w: "plain_name w" "str_at s a (w @ r)"
  shows "\<exists>v. calm s v \<and> inode_table v = inode_table s \<and> last_inode v = last_inode s \<and> (case entries_of s (f num) w of
      None \<Rightarrow> find_entry i a (length w) s = Ok (i, None) v
    | Some m \<Rightarrow> \<exists>b off t. find_entry i a (length w) s = Ok (i, Some (b, off)) t \<and> get_entry_inode b off t = Ok m t \<and>
        get_inode i t = Ok (inode_table s ! i) t \<and> brelse (Some b) t = Ok () v)"
proof -
  note d = holdingD [OF h]
  let ?n = "inode_table s ! i" and ?z = "unat (di_zone (f num) ! 0)"
  have m: "i_zone ?n = di_zone (f num)" "i_size ?n = di_size (f num)" unfolding d(6) [symmetric] by (simp_all add: d_inode_of_def)
  have "dir_at s i ?z" using d m n unsigned_less [of "di_zone (f num) ! 0"] by (auto simp: dir_at_def node_ok_def unat_gt_0)
  define k where "k = unat (di_size (f num)) div 16"
  have k: "k \<le> DIR_ENTRIES_PER_BLOCK" using n div_le_mono [of "unat (di_size (f num))" 1024 16] by (simp add: k_def node_ok_def)
  note wa = str_at_name [OF w(2)]
  from find_entry_start [OF \<open>dir_at s i ?z\<close> w(1) wa] obtain b t v where
    t: "reads s ?z b t" "quiet s v" "length (view s ?z) = BLOCK_SIZE" "brelse (Some b) t = Ok () v" "b < length (bufs t)" "b_data (bufs t ! b) = view s ?z"
      "w = load_bytes a (length w) t" "\<forall>i < length w. direct_addr t (a + word_of_nat i)"
      "find_entry i a (length w) s = bindk (loopk (k + 1) (find_entry_round i a (length w) k) (0, Some b, 0)) (\<lambda>r. retk (i, r)) t"
    unfolding m(2) k_def by blast
  have fe: "find_entry i a (length w) s = (case List.find (entry_is (view s ?z) w) [0..<k] of Some x \<Rightarrow> Ok (i, Some (b, 16 * x)) t | None \<Rightarrow> Ok (i, None) v)"
    using find_entry_loop [OF t(5,6,3) k _ _ w(1) t(7,8,4), of 0 "k + 1" i] unfolding t(9) by (simp add: bindk_def retk_def split: option.split)
  have st: "cache_frame s t" using t(1) by (simp add: reads_def)
  have "cache_frame t v" using reads_release [OF d(3) t(1), of t] t(1,4) by (auto simp: reads_def)
  then have sv: "cache_frame s v" by (rule cache_frame_trans [OF st])
  then have "calm s v" using calm_cache t(2) by (auto simp: quiet_def)
  moreover have "get_inode i t = Ok ?n t" using cache_frame_fs [OF st] d(1) by (simp add: get_inode_def)
  moreover have "get_entry_inode b (16 * x) t = Ok (entry_inode (view s ?z) x) t" if "x < k" for x
    using that k t(3,5,6) by (simp add: get_entry_inode_def get_bh_def entry_inode_def retk_def)
  moreover have "x < k" if "List.find (entry_is (view s ?z) w) [0..<k] = Some x" for x using that by (auto simp: find_Some_iff)
  ultimately show ?thesis using fe t(4) cache_frame_fs [OF sv]
    by (intro exI [of _ v]; cases "List.find (entry_is (view s ?z) w) [0..<k]") (auto simp: entries_of_def dir_map_def simp flip: k_def)
qed

text \<open>From a directory to the inode of a name in it: the common part of \<open>get_dir\<close> and \<open>namei\<close>.\<close>

definition descend :: "'a K \<Rightarrow> (nat \<Rightarrow> 'a K) \<Rightarrow> nat \<Rightarrow> ulong \<Rightarrow> nat \<Rightarrow> 'a K" where
  "descend none some i a len = bindk (find_entry i a len) (\<lambda>(i, r). case r of None \<Rightarrow> bindk (iput (Some i)) (\<lambda>_. none) | Some (b, off) \<Rightarrow>
     bindk (get_entry_inode b off) (\<lambda>inr. bindk (get_inode i) (\<lambda>n. bindk (brelse (Some b)) (\<lambda>_. bindk (iput (Some i)) (\<lambda>_.
     bindk (iget (uint (i_dev n)) (uint inr)) some)))))"

lemma drop_law:
  assumes h: "holding f v i num" and n: "node_ok s (f num)"
  shows "iput (Some i) v = Ok () (drop_ref i v)" "fs_rel f (drop_ref i v)" "calm v (drop_ref i v)"
proof -
  show "iput (Some i) v = Ok () (drop_ref i v)" by (rule iput_law [OF h]) (use n in \<open>simp_all add: node_ok_def\<close>)
  show "fs_rel f (drop_ref i v)" using h by (simp add: holding_def)
  show "calm v (drop_ref i v)" by (rule calm_eq [OF holdingD(3) [OF h]]) (simp add: drop_ref_def)
qed

lemma descend_law:
  assumes h: "holding f s i num" and n: "walk_ok s f num [w]" "searchable s (f num)" and w: "plain_name w" "str_at s a (w @ r)"
  shows "\<exists>t. calm s t \<and> (case step_to s f num w of None \<Rightarrow> fs_rel f t \<and> descend none some i a (length w) s = none t
     | Some m \<Rightarrow> \<exists>j. holding f t j m \<and> descend none some i a (length w) s = some j t)"
proof -
  have no: "node_ok s (f num)" "S_ISDIR (di_mode (f num))" using n by (simp_all add: searchable_def)
  from lookup_law [OF h no w] obtain v where v: "calm s v" "inode_table v = inode_table s" "last_inode v = last_inode s"
    and fe: "case entries_of s (f num) w of None \<Rightarrow> find_entry i a (length w) s = Ok (i, None) v
    | Some m \<Rightarrow> \<exists>b off t. find_entry i a (length w) s = Ok (i, Some (b, off)) t \<and> get_entry_inode b off t = Ok m t \<and>
        get_inode i t = Ok (inode_table s ! i) t \<and> brelse (Some b) t = Ok () v" by blast
  note dl = drop_law [OF holding_calm [OF h v] no(1)]
  have sd: "calm s (drop_ref i v)" by (rule calm_trans [OF v(1) dl(3)])
  have st: "step_to s f num w = entries_of s (f num) w" using n by (simp add: step_to_def)
  show ?thesis
  proof (cases "entries_of s (f num) w")
    case None
    then have "descend none some i a (length w) s = none (drop_ref i v)" using fe dl(1) by (simp add: descend_def)
    then show ?thesis using None sd dl(2) by (auto simp: st)
  next
    case (Some m)
    have "num_ok (drop_ref i v) m" using n(1) Some calm_disk(2) [OF sd] by (simp add: st)
    from iget_law [OF dl(2) this] obtain j t where t: "iget RD (uint m) (drop_ref i v) = Ok j t" "calm (drop_ref i v) t" "holding f t j m" by blast
    have "descend none some i a (length w) s = some j t" using fe dl(1) t(1) holdingD(5) [OF h] Some by (auto simp: descend_def)
    then show ?thesis using Some t(3) calm_trans [OF sd t(2)] by (auto simp: st)
  qed
qed

section \<open>Paths\<close>

lemma get_dir_round_eq: "get_dir_round (i, pn) = bindk (get_inode i) (\<lambda>n. bindk (if S_ISDIR (i_mode n) then permission i MAY_EXEC else retk False) (\<lambda>ok.
     if \<not> ok then bindk (iput (Some i)) (\<lambda>_. retk (Inr None)) else
     bindk (scan_name pn) (\<lambda>(c, pn', len). if c = 0 then retk (Inr (Some i)) else
     descend (retk (Inr None)) (\<lambda>j. retk (Inl (j, pn'))) i pn len)))"
  unfolding get_dir_round_def descend_def by simp

lemma round_law:
  assumes h: "holding f s i num" and n: "node_ok s (f num)" "plain_name w" "0x2F \<notin> set w"
    and w: "str_at s a (w @ r)" "length w < PATH_FUEL" "r = [] \<or> hd r = 0x2F"
  shows "get_dir_round (i, a) s = (if \<not> searchable s (f num) then Ok (Inr None) (drop_ref i s) else if r = [] then Ok (Inr (Some i)) s else
    descend (retk (Inr None)) (\<lambda>j. retk (Inl (j, a + word_of_nat (length w) + 1))) i a (length w) s)"
proof -
  have "get_inode i s = Ok (inode_table s ! i) s" using holdingD(1) [OF h] by (simp add: get_inode_def)
  moreover have "scan_name a s = Ok (if r = [] then 0 else 0x2F, a + word_of_nat (length w) + 1, length w) s"
    by (rule scan_name_law) (use n w in \<open>auto simp: plain_name_def\<close>)
  ultimately show ?thesis using search_law [OF h n(1)] drop_law(1) [OF h n(1)]
    by (auto simp: get_dir_round_eq retk_def)
qed

lemma get_dir_loop:
  "holding f s i num \<Longrightarrow> path_names ws \<Longrightarrow> walk_ok s f num ws \<Longrightarrow> str_at s a (join ws) \<Longrightarrow> length (join ws) < PATH_FUEL \<Longrightarrow> length ws \<le> fuel \<Longrightarrow>
    \<exists>r t. loopk fuel get_dir_round (i, a) s = Ok r t \<and> calm s t \<and>
      (case enter s f num ws of None \<Rightarrow> r = None \<and> fs_rel f t | Some m \<Rightarrow> \<exists>j. r = Some j \<and> holding f t j m)"
proof (induction ws arbitrary: s i num a fuel rule: induct_list012)
  case (2 w)
  then obtain k where fu: "fuel = Suc k" by (cases fuel) auto
  have n: "node_ok s (f num)" "plain_name w" "0x2F \<notin> set w" and w: "str_at s a (w @ [])" "length w < PATH_FUEL" using 2 by (simp_all add: path_names_def)
  note rl = round_law [OF 2(1) n w, simplified]
  show ?case
  proof (cases "searchable s (f num)")
    case True
    then show ?thesis using rl fu 2(1) calm_eq [OF holdingD(3) [OF 2(1)], of s] by (auto simp: retk_def)
  next
    case False
    then show ?thesis using rl fu drop_law [OF 2(1) n(1)] by (auto simp: retk_def)
  qed
next
  case (3 w v ws)
  then obtain k where fu: "fuel = Suc k" "length (v # ws) \<le> k" by (cases fuel) auto
  have n: "node_ok s (f num)" "plain_name w" "0x2F \<notin> set w" and w: "str_at s a (w @ 0x2F # join (v # ws))" "length w < PATH_FUEL" using 3 by (simp_all add: path_names_def)
  have l: "length (join (v # ws)) < PATH_FUEL" "path_names (v # ws)" using "3.prems"(2,5) by (simp_all add: path_names_def)
  note rl = round_law [OF "3.prems"(1) n w, simplified]
  show ?case
  proof (cases "searchable s (f num)")
    case False
    then show ?thesis using rl fu drop_law [OF "3.prems"(1) n(1)] by (auto simp: retk_def step_to_def)
  next
    case True
    have "walk_ok s f num [w]" using "3.prems"(3) by (auto split: option.splits)
    from descend_law [OF "3.prems"(1) this True n(2) w(1), of "retk (Inr None)" "\<lambda>j. retk (Inl (j, a + word_of_nat (length w) + 1))"]
    obtain t where t: "calm s t" "case step_to s f num w of
       None \<Rightarrow> fs_rel f t \<and> get_dir_round (i, a) s = Ok (Inr None) t
     | Some m \<Rightarrow> \<exists>j. holding f t j m \<and> get_dir_round (i, a) s = Ok (Inl (j, a + word_of_nat (length w) + 1)) t"
      using True rl by (fastforce simp: retk_def split: option.splits)
    show ?thesis
    proof (cases "step_to s f num w")
      case None
      then show ?thesis using t fu by (auto simp: retk_def)
    next
      case (Some m)
      then obtain j where j: "holding f t j m" "get_dir_round (i, a) s = Ok (Inl (j, a + word_of_nat (length w) + 1)) t" using t(2) by auto
      have wo: "walk_ok s f m (v # ws)" using "3.prems"(3) Some by simp
      have sa: "str_at t (a + word_of_nat (length w) + 1) (join (v # ws))"
        using str_at_Cons [OF str_at_append [OF w(1)]] str_at_calm [OF t(1)] by simp
      note wc = walk_calm [OF t(1) wo]
      have "walk_ok t f m (v # ws)" using wc by blast
      from "3.IH"(2) [OF j(1) l(2) this sa l(1) fu(2)] obtain r u where
        u: "loopk k get_dir_round (j, a + word_of_nat (length w) + 1) t = Ok r u" "calm t u"
          "case enter t f m (v # ws) of None \<Rightarrow> r = None \<and> fs_rel f u | Some m \<Rightarrow> \<exists>j. r = Some j \<and> holding f u j m" by auto
      have en: "enter s f num (w # v # ws) = enter t f m (v # ws)" using Some wc by simp
      have "loopk fuel get_dir_round (i, a) s = Ok r u" using j(2) u(1) fu by simp
      then show ?thesis using calm_trans [OF t(1) u(2)] u(3) unfolding en by blast
    qed
  qed
qed (simp add: path_names_def)

text \<open>The bytes of a path: absolute or relative.\<close>

definition path_bytes :: "bool \<Rightarrow> u8 list list \<Rightarrow> u8 list" where
  "path_bytes absolute ws = (if absolute then 0x2F # join ws else join ws)"

text \<open>The process has a root and a working directory; the walk starts in slot \<open>i\<close>, which holds inode \<open>num\<close>.\<close>

definition starts_at :: "kstate \<Rightarrow> bool \<Rightarrow> nat \<Rightarrow> u16 \<Rightarrow> bool" where
  "starts_at s absolute i num \<longleftrightarrow> (\<exists>r p. t_root (cur_task s) = Some r \<and> t_pwd (cur_task s) = Some p \<and> r < NR_INODE \<and> p < NR_INODE \<and>
     i_count (inode_table s ! r) \<noteq> 0 \<and> i_count (inode_table s ! p) \<noteq> 0 \<and> i = (if absolute then r else p) \<and> in_slot s num i)"

lemma join_hd:
  assumes "path_names ws"
  shows "join ws \<noteq> []" "hd (join ws) \<noteq> 0" "hd (join ws) \<noteq> 0x2F"
proof -
  obtain w vs where ws: "ws = w # vs" using assms by (cases ws) (auto simp: path_names_def)
  then have "w \<noteq> []" "0 \<notin> set w" "0x2F \<notin> set w" using assms by (auto simp: plain_name_def path_names_def)
  then show "join ws \<noteq> []" "hd (join ws) \<noteq> 0" "hd (join ws) \<noteq> 0x2F" by (cases w; cases vs; simp add: ws)+
qed

lemma join_length: "\<forall>w \<in> set ws. plain_name w \<Longrightarrow> length ws \<le> length (join ws)"
proof (induction ws rule: induct_list012)
  case (2 w)
  then show ?case by (cases w) (auto simp: plain_name_def)
next
  case (3 w v ws)
  then show ?case by simp
qed simp

lemma get_dir_law:
  assumes r: "fs_rel f s" and st: "starts_at s absolute i num" and ws: "path_names ws" "walk_ok s f num ws"
    and a: "str_at s a (path_bytes absolute ws)" "length (path_bytes absolute ws) < PATH_FUEL"
  shows "\<exists>x t. get_dir a s = Ok x t \<and> calm s t \<and> (case enter s f num ws of None \<Rightarrow> x = None \<and> fs_rel f t | Some m \<Rightarrow> \<exists>j. x = Some j \<and> holding f t j m)"
proof -
  obtain rt p where p: "t_root (cur_task s) = Some rt" "t_pwd (cur_task s) = Some p" "rt < NR_INODE" "p < NR_INODE"
    "i_count (inode_table s ! rt) \<noteq> 0" "i_count (inode_table s ! p) \<noteq> 0" "i = (if absolute then rt else p)" "in_slot s num i"
    using st unfolding starts_at_def by blast
  note s = fs_relD [OF r]
  have i: "i < NR_INODE" using p by simp
  define u where "u = s\<lparr>inode_table := (inode_table s)[i := (inode_table s ! i)\<lparr>i_count := i_count (inode_table s ! i) + 1\<rparr>]\<rparr>"
  have su: "calm s u" by (rule calm_eq [OF s(1)]) (simp add: u_def)
  have dr: "drop_ref i u = s" using i s(4) by (simp add: drop_ref_def u_def)
  have "i_count (inode_table s ! i) \<noteq> 0xFFFF" using s(6) [OF i] by (simp add: slot_ok_def)
  then have "i_count (inode_table s ! i) + 1 \<noteq> 0" by (auto simp: add_eq_0_iff2)
  then have h: "holding f u i num" using r dr i p(8) s(4) by (simp add: holding_def) (simp add: u_def in_slot_def)
  have b: "get_fs_byte a s = Ok (if absolute then 0x2F else hd (join ws)) s"
    using str_at_byte [OF a(1)] join_hd [OF ws(1)] by (auto simp: path_bytes_def split: list.splits)
  define a' where "a' = (if absolute then a + 1 else a)"
  have "str_at s a' (join ws)" using a(1) str_at_Cons by (auto simp: a'_def path_bytes_def split: if_splits)
  then have au: "str_at u a' (join ws)" using str_at_calm [OF su] by simp
  have li: "live_inode (Some rt) s = Ok True s" "live_inode (Some p) s = Ok True s"
    using p s(4) by (simp_all add: live_inode_def get_inode_def retk_def)
  have "upd_inode i (\<lambda>n. n\<lparr>i_count := i_count n + 1\<rparr>) s = Ok () u" using i s(4) by (simp add: upd_inode_def u_def)
  then have gd: "get_dir a s = loopk PATH_FUEL get_dir_round (i, a') u"
    using li p(1,2,7) b join_hd [OF ws(1)]
    by (cases absolute) (simp_all add: get_dir_def getk_def derefk_def a'_def retk_def)
  note wc = walk_calm [OF su ws(2)]
  have "walk_ok u f num ws" using wc by blast
  moreover have "length (join ws) < PATH_FUEL" using a(2) by (simp add: path_bytes_def split: if_splits)
  moreover from this have "length ws \<le> PATH_FUEL" using join_length [of ws] ws(1) by (simp add: path_names_def)
  ultimately have "\<exists>r t. loopk PATH_FUEL get_dir_round (i, a') u = Ok r t \<and> calm u t \<and>
      (case enter u f num ws of None \<Rightarrow> r = None \<and> fs_rel f t | Some m \<Rightarrow> \<exists>j. r = Some j \<and> holding f t j m)"
    by (intro get_dir_loop [OF h ws(1) _ au])
  then obtain x t where
    x: "loopk PATH_FUEL get_dir_round (i, a') u = Ok x t" "calm u t"
      "case enter u f num ws of None \<Rightarrow> x = None \<and> fs_rel f t | Some m \<Rightarrow> \<exists>j. x = Some j \<and> holding f t j m" by blast
  have "enter u f num ws = enter s f num ws" using wc by blast
  then show ?thesis using x calm_trans [OF su x(2)] unfolding gd by auto
qed

lemma dir_namei_law:
  assumes r: "fs_rel f s" and st: "starts_at s absolute i num" and ws: "path_names ws" "walk_ok s f num ws"
    and a: "str_at s a (path_bytes absolute ws)" "length (path_bytes absolute ws) < PATH_FUEL"
  shows "\<exists>x t. dir_namei a s = Ok x t \<and> calm s t \<and> (case enter s f num ws of None \<Rightarrow> x = None \<and> fs_rel f t
     | Some m \<Rightarrow> \<exists>j b. x = Some (j, length (last ws), b) \<and> holding f t j m \<and> str_at t b (last ws))"
proof -
  obtain x t where x: "get_dir a s = Ok x t" "calm s t" "case enter s f num ws of None \<Rightarrow> x = None \<and> fs_rel f t | Some m \<Rightarrow> \<exists>j. x = Some j \<and> holding f t j m"
    using get_dir_law [OF assms] by blast
  show ?thesis
  proof (cases "enter s f num ws")
    case None
    then show ?thesis using x by (auto simp: dir_namei_def retk_def)
  next
    case (Some m)
    then obtain j where j: "x = Some j" "holding f t j m" using x(3) by auto
    define body where "body = (\<lambda>(p, base). bindk (get_fs_byte p) (\<lambda>c. if c = 0 then retk (Inr (Some (j, unat (p - base), base)))
      else retk (Inl (p + 1, if c = 0x2F then p + 1 else base))))"
    have nm: "ws \<noteq> []" "\<forall>w \<in> set ws. 0 \<notin> set w \<and> 0x2F \<notin> set w \<and> length w < 2 ^ 64" using ws(1) by (auto simp: path_names_def plain_name_def)
    note bl = base_law [OF body_def nm, of t]
    have at: "str_at t a (path_bytes absolute ws)" using a(1) str_at_calm [OF x(2)] by simp
    have "\<exists>b. loopk PATH_FUEL body (a, a) t = Ok (Some (j, length (last ws), b)) t \<and> str_at t b (last ws)"
    proof (cases absolute)
      case True
      then have c: "str_at t a (0x2F # join ws)" using at by (simp add: path_bytes_def)
      have "body (a, a) t = Ok (Inl (a + 1, a + 1)) t" using str_at_byte [OF c] by (simp add: body_def retk_def)
      then have "loopk PATH_FUEL body (a, a) t = loopk (PATH_FUEL - 1) body (a + 1, a + 1) t" by (simp add: loopk_numeral)
      then show ?thesis using bl [OF str_at_Cons [OF c], of "PATH_FUEL - 1"] a(2) True by (simp add: path_bytes_def)
    next
      case False
      then show ?thesis using bl [of a PATH_FUEL] at a(2) by (simp add: path_bytes_def)
    qed
    then obtain b where "loopk PATH_FUEL body (a, a) t = Ok (Some (j, length (last ws), b)) t" "str_at t b (last ws)" by blast
    then show ?thesis using x(1,2) j Some by (auto simp: dir_namei_def body_def)
  qed
qed

text \<open>The last step, seen after the walk to its directory.\<close>

lemma last_step:
  assumes "ws \<noteq> []" "walk_ok s f num ws" "enter s f num ws = Some d" "calm s t"
  shows "walk_ok t f d [last ws] \<and> searchable t (f d) \<and> step_to t f d (last ws) = walk s f num ws"
proof -
  have "walk_ok s f d [last ws]" "searchable s (f d)" using enter_ok [OF assms(1-3)] by auto
  then show ?thesis using walk_calm [OF assms(4), of f d "[last ws]"] searchable_calm(2) [OF assms(4)] enter_walk [OF assms(1), of s f num]
      assms(3) step_calm(1) [OF assms(4), of f d] by simp
qed

lemma namei_eq: "namei a = bindk (dir_namei a) (\<lambda>r. case r of None \<Rightarrow> retk None | Some (dir, len, base) \<Rightarrow> if len = 0 then retk (Some dir) else
    descend (retk None) (\<lambda>j. bindk (getk CURRENT_TIME) (\<lambda>now. bindk (upd_inode j (\<lambda>n. n\<lparr>i_atime := word_of_int now, i_dirt := 1\<rparr>)) (\<lambda>_. retk (Some j))))
      dir base len)"
  unfolding namei_def descend_def by simp

text \<open>The access time that \<open>namei\<close> stores.\<close>

definition accessed :: "nat \<Rightarrow> kstate \<Rightarrow> kstate" where
  "accessed j s = s\<lparr>inode_table := (inode_table s)[j := (inode_table s ! j)\<lparr>i_atime := word_of_int (CURRENT_TIME s), i_dirt := 1\<rparr>]\<rparr>"

text \<open>C11: \<open>namei\<close> is the walk through the directories. Let the inode table and the disk together represent the inodes \<open>f\<close>, whatever
  part of them is in the table. For a path of plain names, absolute or relative, through directories of one block, the result
  is what following the names in the maps of the directories gives: the inode of the number found, with one
  reference for the caller and its access time set, in whatever slot it is; NULL if a component is missing, is not a
  directory or may not be searched by the process, and then no reference is kept. No inode and no block changes.\<close>

theorem namei_correct:
  assumes "fs_rel f s" "starts_at s absolute i num" "path_names ws" "walk_ok s f num ws"
    and "str_at s a (path_bytes absolute ws)" "length (path_bytes absolute ws) < PATH_FUEL"
  shows "\<exists>t. calm s t \<and> (case walk s f num ws of None \<Rightarrow> namei a s = Ok None t \<and> fs_rel f t
    | Some m \<Rightarrow> \<exists>j. namei a s = Ok (Some j) (accessed j t) \<and> holding f t j m \<and> d_inode_of (inode_table t ! j) = f m)"
proof -
  have ne: "ws \<noteq> []" and pl: "plain_name (last ws)" using assms(3) by (simp_all add: path_names_def)
  obtain x t where x: "dir_namei a s = Ok x t" "calm s t" "case enter s f num ws of None \<Rightarrow> x = None \<and> fs_rel f t
     | Some m \<Rightarrow> \<exists>j b. x = Some (j, length (last ws), b) \<and> holding f t j m \<and> str_at t b (last ws)"
    using dir_namei_law [OF assms] by blast
  show ?thesis
  proof (cases "enter s f num ws")
    case None
    then show ?thesis using x enter_walk [OF ne, of s f num] by (auto simp: namei_eq retk_def)
  next
    case (Some d)
    then obtain j b where j: "x = Some (j, length (last ws), b)" "holding f t j d" "str_at t b (last ws @ [])" using x(3) by auto
    from last_step [OF ne assms(4) Some x(2)] have ok: "walk_ok t f d [last ws]" "searchable t (f d)" and st: "step_to t f d (last ws) = walk s f num ws"
      by blast+
    let ?some = "\<lambda>j. bindk (getk CURRENT_TIME) (\<lambda>now. bindk (upd_inode j (\<lambda>n. n\<lparr>i_atime := word_of_int now, i_dirt := 1\<rparr>)) (\<lambda>_. retk (Some j)))"
    have ni: "namei a s = descend (retk None) ?some j b (length (last ws)) t"
      using x(1) j(1) pl by (simp add: namei_eq plain_name_def)
    from descend_law [OF j(2) ok pl j(3), of "retk None" ?some] obtain u where
      u: "calm t u" "case walk s f num ws of None \<Rightarrow> fs_rel f u \<and> namei a s = retk None u
        | Some m \<Rightarrow> \<exists>k. holding f u k m \<and> namei a s = ?some k u" unfolding ni st by blast
    have "?some k u = Ok (Some k) (accessed k u)" if "holding f u k m" for k m
      using holdingD(1) [OF that] by (simp add: getk_def upd_inode_def accessed_def retk_def)
    then show ?thesis using u(2) calm_trans [OF x(2) u(1)] holdingD(6) by (fastforce simp: retk_def split: option.splits)
  qed
qed

text \<open>The example disk with 64 blocks of 7s; inode 1 is a directory in block 3 whose two entries name inode \<open>0x707\<close>, which is
  on the disk and not a directory.\<close>

definition demo_root :: m_inode where
  "demo_root = demo_inode\<lparr>i_mode := 0x41ED, i_size := 32\<rparr>"

definition demo_path :: kstate where
  "demo_path = demo_cache\<lparr>rd_length := 65536, super_block := demo_super # replicate 7 zero_super, inode_table := demo_root # replicate 31 zero_inode,
     last_inode := 0, pmem := (\<lambda>a. if a = 0x300E \<or> a = 0x401D then 0 else if a = 0x400E then 0x2F else 7),
     tasks := (\<lambda>p. (tasks demo_cache p)\<lparr>t_root := Some 0, t_pwd := Some 0, t_euid := 0\<rparr>)\<rparr>"

definition demo_inodes :: "u16 \<Rightarrow> d_inode" where
  "demo_inodes num = (if num = 1 then d_inode_of demo_root else disk_inode demo_path num)"

lemma demo_path_cache: "usable demo_path" "rd_blocks demo_path = 64" "view demo_path n = replicate 1024 7"
proof -
  define t where "t = demo_path\<lparr>rd_length := rd_length demo_cache\<rparr>"
  have u: "usable t" "room t = room demo_cache" using demo_cache_ok(1) cache_other(4,5) [of t demo_cache] by (simp_all add: t_def demo_path_def)
  have b: "bufs demo_path = bufs demo_cache" "bufs t = bufs demo_cache" by (simp_all add: t_def demo_path_def)
  have "data_step t demo_path" by (rule data_step_other) (simp_all add: t_def demo_path_def)
  then have "cache_ok demo_path" using u(1) cache_ok_data_step by (auto simp: usable_def fs_ok_def)
  moreover have "coherent demo_path" using demo_cache_ok(4) by (auto simp: coherent_def b bh_is_def)
  moreover have "blk_ok demo_path" using u(1) by (simp add: usable_def fs_ok_def blk_ok_def t_def demo_path_def)
  moreover have "rd_length demo_path < 2 ^ 60" "room demo_path = room t" by (simp_all add: demo_path_def room_def t_def)
  ultimately show "usable demo_path" using u(1) b by (simp add: usable_def fs_ok_def)
  show "rd_blocks demo_path = 64" by (simp add: rd_blocks_def demo_path_def)
  have "view demo_path n = rd_content demo_path n"
    by (rule view_uncached) (use demo_cache_ok(4) b in \<open>auto simp: bh_is_def\<close>)
  then show "view demo_path n = replicate 1024 7" using demo_cache_ok(5)
    by (simp add: rd_content_def rd_fetch_def map_replicate_const demo_path_def)
qed

lemma demo_path_super: "super_of demo_path RD = Some 0" "supers_free demo_path" "root_sb demo_path = demo_super" "inode_blk demo_path num = nat (2 + (uint num - 1) div 32)"
proof -
  have "super_block demo_path = demo_super # replicate 7 zero_super" by (simp add: demo_path_def)
  note d = demo_super_find [OF this]
  then show "super_of demo_path RD = Some 0" "supers_free demo_path" by simp_all
  show r: "root_sb demo_path = demo_super" using d by (simp add: root_sb_def)
  show "inode_blk demo_path num = nat (2 + (uint num - 1) div 32)" by (simp add: inode_blk_def r inode_block_def demo_super_def zero_super_def)
qed

lemma demo_path_slots: "i < NR_INODE \<Longrightarrow> inode_table demo_path ! i = (if i = 0 then demo_root else zero_inode)"
  by (cases i) (simp_all add: demo_path_def)

lemma demo_path_rel: "fs_rel demo_inodes demo_path"
proof -
  have sl: "in_slot demo_path num i \<longleftrightarrow> i = 0 \<and> num = 1" if "i < NR_INODE" for num i
    using that by (auto simp: in_slot_def demo_path_slots demo_root_def demo_inode_def zero_inode_def)
  have "slot_ok demo_inodes demo_path (inode_table demo_path ! i)" if "i < NR_INODE" for i
    using that demo_path_cache(2)
    by (auto simp: demo_path_slots slot_ok_zero) (auto simp: slot_ok_def demo_root_def demo_inode_def zero_inode_def num_ok_def demo_path_super demo_inodes_def)
  moreover have "\<exists>i < NR_INODE. i_count (inode_table demo_path ! i) = 0" by (intro exI [of _ 1]) (simp add: demo_path_slots zero_inode_def)
  moreover have "disk_inode demo_path num = demo_inodes num" if "\<forall>i < NR_INODE. \<not> in_slot demo_path num i" for num
    using that sl [of 0 num] by (simp add: demo_inodes_def)
  ultimately show ?thesis using demo_path_cache demo_path_super sl by (auto simp: fs_rel_def demo_path_def)
qed

lemma demo_path_step: "step_to demo_path demo_inodes 1 w = (if w = replicate 14 7 then Some 0x707 else None)"
  "step_to demo_path demo_inodes 0x707 w = None"
proof -
  have m: "demo_inodes 1 = d_inode_of demo_root" "di_zone (d_inode_of demo_root) ! 0 = 3" "di_size (d_inode_of demo_root) = 32" "di_mode (d_inode_of demo_root) = 0x41ED"
    by (simp_all add: demo_inodes_def demo_root_def demo_inode_def d_inode_of_def)
  have "t_euid (cur_task demo_path) = 0" by (simp add: cur_task_def demo_path_def)
  then show "step_to demo_path demo_inodes 1 w = (if w = replicate 14 7 then Some 0x707 else None)"
    by (simp add: step_to_def searchable_def may_def m S_ISDIR_def Let_def entries_of_def demo_path_cache(3) demo_dir_map)
  have "di_mode (demo_inodes 0x707) = 0x707"
    by (simp add: demo_inodes_def disk_inode_def decode_inode_def demo_path_cache(3) inode_index_def get16_def)
  then show "step_to demo_path demo_inodes 0x707 w = None" by (simp add: step_to_def searchable_def S_ISDIR_def)
qed

lemma demo_path_nodes: "node_ok demo_path (demo_inodes 1)" "node_ok demo_path (demo_inodes 0x707)" "num_ok demo_path 1" "num_ok demo_path 0x707"
proof -
  show "node_ok demo_path (demo_inodes 1)"
    by (simp add: node_ok_def demo_inodes_def demo_root_def demo_inode_def d_inode_of_def S_ISBLK_def S_ISDIR_def demo_path_cache(2))
  show "node_ok demo_path (demo_inodes 0x707)"
    by (simp add: node_ok_def demo_inodes_def disk_inode_def decode_inode_def demo_path_cache(2,3) inode_index_def get16_def S_ISBLK_def S_ISDIR_def)
  show "num_ok demo_path 1" "num_ok demo_path 0x707" by (simp_all add: num_ok_def demo_path_super demo_path_cache(2))
qed

lemma demo_path_names: "plain_name (replicate 14 7)" "0x2F \<notin> set (replicate 14 (7 :: u8))" "starts_at demo_path False 0 1"
proof -
  show "plain_name (replicate 14 7)" by (auto simp: plain_name_def dest: arg_cong [where f = length])
  have "cur_task demo_path = (tasks demo_cache (current demo_path))\<lparr>t_root := Some 0, t_pwd := Some 0, t_euid := 0\<rparr>" by (simp add: cur_task_def demo_path_def)
  then show "starts_at demo_path False 0 1"
    by (simp add: starts_at_def in_slot_def demo_path_slots) (simp add: demo_root_def demo_inode_def)
qed simp

lemma demo_path_string: "str_at demo_path 0x3000 (path_bytes False [replicate 14 7])" "str_at demo_path 0x4000 (path_bytes False [replicate 14 7, replicate 14 7])"
proof -
  have d: "direct_addr demo_path (0x3000 + word_of_nat k)" "direct_addr demo_path (0x4000 + word_of_nat k)" if "k < 4096" for k
    using that by (simp_all add: direct_addr_def word_less_nat_alt unat_word_ariths unat_of_nat_small)
  have "\<forall>k \<in> {..<14}. pmem demo_path (0x3000 + word_of_nat k) = 7" "pmem demo_path (0x3000 + word_of_nat 14) = 0"
    by (simp_all add: demo_path_def lessThan_nat_numeral lessThan_Suc)
  then show "str_at demo_path 0x3000 (path_bytes False [replicate 14 7])"
    using d(1) by (simp add: str_at_def path_bytes_def)
  have "\<forall>k \<in> {..<29}. pmem demo_path (0x4000 + word_of_nat k) = (replicate 14 7 @ 0x2F # replicate 14 7) ! k" "pmem demo_path (0x4000 + word_of_nat 29) = 0"
    by (simp_all add: demo_path_def lessThan_nat_numeral lessThan_Suc nth_append)
  then show "str_at demo_path 0x4000 (path_bytes False [replicate 14 7, replicate 14 7])"
    using d(2) by (simp add: str_at_def path_bytes_def)
qed

theorem namei_correct_witness:
  "(\<exists>j t. namei 0x3000 demo_path = Ok (Some j) t \<and> i_num (inode_table t ! j) = 0x707) \<and> (\<exists>t. namei 0x4000 demo_path = Ok None t)"
proof
  let ?w = "replicate 14 (7 :: u8)"
  have pn: "path_names [?w]" "path_names [?w, ?w]" using demo_path_names(1,2) by (simp_all add: path_names_def)
  have wk: "walk_ok demo_path demo_inodes 1 [?w]" "walk_ok demo_path demo_inodes 1 [?w, ?w]" using demo_path_nodes by (simp_all add: demo_path_step)
  have l: "length (path_bytes False [?w]) < PATH_FUEL" "length (path_bytes False [?w, ?w]) < PATH_FUEL" by (simp_all add: path_bytes_def)
  from namei_correct [OF demo_path_rel demo_path_names(3) pn(1) wk(1) demo_path_string(1) l(1)]
  obtain j t where "namei 0x3000 demo_path = Ok (Some j) (accessed j t)" "holding demo_inodes t j 0x707" by (auto simp: demo_path_step)
  then show "\<exists>j t. namei 0x3000 demo_path = Ok (Some j) t \<and> i_num (inode_table t ! j) = 0x707"
    using holdingD(1) [of demo_inodes t j "0x707"] by (auto simp: accessed_def holding_def in_slot_def)
  from namei_correct [OF demo_path_rel demo_path_names(3) pn(2) wk(2) demo_path_string(2) l(2)]
  show "\<exists>t. namei 0x4000 demo_path = Ok None t" by (auto simp: demo_path_step)
qed

end
