(* ===== verification/Ring.thy ===== *)
theory Ring
  imports Prelude
begin

text \<open>
  Ring buffers. Terminal queues (\<open>include/linux/tty.h\<close>) and pipes (\<open>fs/pipe.c\<close>) store a first-in first-out
  queue in an array with a head and a tail index: the queue is empty when they are equal, and one place
  always stays unused. \<open>ring\<close> reads the queue off such an array. The locale \<open>fifo\<close> is the contract of a
  bounded queue; its client lemma is that any sequence of guarded insertions and removals delivers what the
  same sequence on a list does.
\<close>

definition ring_count :: "nat \<Rightarrow> nat \<Rightarrow> nat \<Rightarrow> nat" where
  "ring_count N h t = (h + N - t) mod N"

definition ring :: "nat \<Rightarrow> (nat \<Rightarrow> 'a) \<Rightarrow> nat \<Rightarrow> nat \<Rightarrow> 'a list" where
  "ring N f h t = map (\<lambda>k. f ((t + k) mod N)) [0..<ring_count N h t]"

lemma length_ring [simp]: "length (ring N f h t) = ring_count N h t"
  by (simp add: ring_def)

lemma ring_count_less: "0 < N \<Longrightarrow> ring_count N h t < N"
  by (simp add: ring_count_def)

lemma ring_count_eq:
  "h < N \<Longrightarrow> t < N \<Longrightarrow> ring_count N h t = (if t \<le> h then h - t else h + N - t)"
  by (simp add: ring_count_def mod_if)

lemma ring_count_0: "h < N \<Longrightarrow> t < N \<Longrightarrow> ring_count N h t = 0 \<longleftrightarrow> h = t"
  by (simp add: ring_count_eq)

lemma ring_index: "h < N \<Longrightarrow> t < N \<Longrightarrow> (t + ring_count N h t) mod N = h"
  by (auto simp: ring_count_eq mod_if)

lemma ring_count_Suc:
  "h < N \<Longrightarrow> t < N \<Longrightarrow> ring_count N h t < N - 1 \<Longrightarrow> ring_count N (Suc h mod N) t = Suc (ring_count N h t)"
  by (cases "Suc h = N") (auto simp: ring_count_eq split: if_splits)

lemma ring_index_inj:
  assumes "h < N" "t < N" "k < ring_count N h t"
  shows "(t + k) mod N \<noteq> h"
proof -
  have "ring_count N h t < N" using assms by (intro ring_count_less) simp
  then show ?thesis using assms by (auto simp: ring_count_eq mod_if split: if_splits)
qed

lemma ring_put:
  assumes "h < N" "t < N" "ring_count N h t < N - 1"
  shows "ring N (f(h := c)) (Suc h mod N) t = ring N f h t @ [c]"
  using assms by (simp add: ring_def ring_count_Suc ring_index ring_index_inj)

lemma ring_get:
  assumes "h < N" "t < N" "h \<noteq> t"
  shows "ring N f h t = f t # ring N f h (Suc t mod N)"
proof -
  have c: "ring_count N h t = Suc (ring_count N h (Suc t mod N))"
    using assms by (cases "Suc t = N") (auto simp: ring_count_eq split: if_splits)
  have "map (\<lambda>k. f ((t + k) mod N)) [0..<Suc n] = f t # map (\<lambda>k. f ((Suc t mod N + k) mod N)) [0..<n]" for n
    using assms(2) by (simp add: upt_conv_Cons map_Suc_upt [symmetric] mod_add_left_eq del: upt_Suc)
  then show ?thesis by (simp add: ring_def c del: upt_Suc)
qed

lemma ring_puts:
  assumes "h < N" "t < N"
  shows "h + length bs \<le> N \<Longrightarrow> ring_count N h t + length bs < N \<Longrightarrow>
    ring_count N ((h + length bs) mod N) t = ring_count N h t + length bs \<and>
    ring N (\<lambda>k. if h \<le> k \<and> k < h + length bs then bs ! (k - h) else f k) ((h + length bs) mod N) t = ring N f h t @ bs"
proof (induction bs rule: rev_induct)
  case Nil
  have "(\<lambda>k. if h \<le> k \<and> k < h + length [] then [] ! (k - h) else f k) = f" by (intro ext) auto
  then show ?case unfolding list.size using assms by (simp only: add_0_right mod_less append_Nil2)
next
  case (snoc b bs)
  let ?f = "\<lambda>k. if h \<le> k \<and> k < h + length bs then bs ! (k - h) else f k" and ?h = "h + length bs"
  have h: "?h < N" "?h mod N = ?h" using snoc.prems by simp_all
  have IH: "ring_count N ?h t = ring_count N h t + length bs" "ring N ?f ?h t = ring N f h t @ bs"
    using snoc h(2) by simp_all
  have "(\<lambda>k. if h \<le> k \<and> k < Suc ?h then (bs @ [b]) ! (k - h) else f k) = ?f(?h := b)"
    by (intro ext) (auto simp: nth_append)
  then show ?case
    using ring_put [OF h(1) assms(2), of ?f b] ring_count_Suc [OF h(1) assms(2)] IH snoc.prems(2) by simp
qed

lemma ring_gets:
  assumes "h < N" "t < N"
  shows "t + m \<le> N \<Longrightarrow> m \<le> ring_count N h t \<Longrightarrow>
    ring N f h t = map (\<lambda>k. f (t + k)) [0..<m] @ ring N f h ((t + m) mod N)"
proof (induction m)
  case (Suc m)
  have t: "t + m < N" "(t + m) mod N = t + m" using Suc.prems by simp_all
  have IH: "ring N f h t = map (\<lambda>k. f (t + k)) [0..<m] @ ring N f h (t + m)" using Suc t(2) by simp
  have "h \<noteq> t + m"
  proof
    assume "h = t + m"
    then have "ring_count N h t = m" using assms by (simp add: ring_count_eq)
    with Suc.prems show False by simp
  qed
  from ring_get [OF assms(1) t(1) this, of f] IH show ?case by simp
qed (simp add: assms)

lemma ring_same [simp]: "ring N f h h = []"
  by (simp add: ring_def ring_count_def)

section \<open>Bounded queues\<close>

datatype 'a qop = Put 'a | Get

text \<open>The reference: a list, with insertions into a full queue and removals from an empty one ignored.\<close>

fun run_list :: "nat \<Rightarrow> 'a qop list \<Rightarrow> 'a list \<Rightarrow> 'a list \<times> 'a list" where
  "run_list cap [] xs = ([], xs)"
| "run_list cap (Put c # qs) xs = run_list cap qs (if length xs < cap then xs @ [c] else xs)"
| "run_list cap (Get # qs) xs = (case xs of [] \<Rightarrow> run_list cap qs []
     | x # xs \<Rightarrow> let (out, ys) = run_list cap qs xs in (x # out, ys))"

fun run_queue :: "('q \<Rightarrow> bool) \<Rightarrow> ('q \<Rightarrow> bool) \<Rightarrow> ('a \<Rightarrow> 'q \<Rightarrow> 'q) \<Rightarrow> ('q \<Rightarrow> 'a \<times> 'q) \<Rightarrow> 'a qop list \<Rightarrow> 'q \<Rightarrow> 'a list \<times> 'q" where
  "run_queue full emp put get [] q = ([], q)"
| "run_queue full emp put get (Put c # qs) q = run_queue full emp put get qs (if full q then q else put c q)"
| "run_queue full emp put get (Get # qs) q = (if emp q then run_queue full emp put get qs q
     else let (c, q) = get q; (out, q) = run_queue full emp put get qs q in (c # out, q))"

locale fifo =
  fixes wf :: "'q \<Rightarrow> bool" and cont :: "'q \<Rightarrow> 'a list" and cap :: nat
    and full :: "'q \<Rightarrow> bool" and emp :: "'q \<Rightarrow> bool" and put :: "'a \<Rightarrow> 'q \<Rightarrow> 'q" and get :: "'q \<Rightarrow> 'a \<times> 'q"
  assumes full_law: "wf q \<Longrightarrow> full q \<longleftrightarrow> \<not> length (cont q) < cap"
    and empty_law: "wf q \<Longrightarrow> emp q \<longleftrightarrow> cont q = []"
    and put_law: "wf q \<Longrightarrow> length (cont q) < cap \<Longrightarrow> wf (put c q) \<and> cont (put c q) = cont q @ [c]"
    and get_law: "wf q \<Longrightarrow> cont q = c # cs \<Longrightarrow> fst (get q) = c \<and> wf (snd (get q)) \<and> cont (snd (get q)) = cs"
begin

lemma run_refines:
  "wf q \<Longrightarrow> run_queue full emp put get qs q = (out, q') \<Longrightarrow>
    wf q' \<and> run_list cap qs (cont q) = (out, cont q')"
proof (induction qs arbitrary: q out q')
  case (Cons p qs)
  note IH = Cons.IH and prems = Cons.prems
  show ?case
  proof (cases p)
    case (Put c)
    then show ?thesis
      using prems IH [of "put c q" out q'] IH [of q out q'] put_law [of q c] full_law [of q]
      by (cases "full q") simp_all
  next
    case Get
    show ?thesis
    proof (cases "cont q")
      case Nil
      then show ?thesis using Get prems IH [of q out q'] empty_law [of q] by simp
    next
      case (Cons x xs)
      obtain c r where g: "get q = (c, r)" by fastforce
      obtain o1 q1 where r: "run_queue full emp put get qs r = (o1, q1)" by fastforce
      have "c = x" "wf r" "cont r = xs" using get_law [OF prems(1) Cons] g by simp_all
      moreover from this have "wf q1 \<and> run_list cap qs xs = (o1, cont q1)" using IH r by blast
      ultimately show ?thesis using prems Get Cons g r empty_law [of q] by simp
    qed
  qed
qed simp

lemma puts_content:
  "wf q \<Longrightarrow> length (cont q) + length cs \<le> cap \<Longrightarrow> wf (fold put cs q) \<and> cont (fold put cs q) = cont q @ cs"
  by (induction cs arbitrary: q) (auto simp: put_law)

end

end
