(* ===== verification/Tty_Props.thy ===== *)
theory Tty_Props
  imports Tty Ring Uaccess
begin

text \<open>
  Properties of the terminals: the queue macros implement a bounded first-in first-out queue, a typed line is
  what a read delivers, and two loops of the line discipline that run away.
\<close>

section \<open>The queue macros\<close>

lemma unat_and_mask: "unat (w AND mask n :: 'a::len word) = unat w mod 2 ^ n"
  unfolding take_bit_eq_mask [symmetric] unsigned_take_bit_eq take_bit_nat_def ..

lemma unat_and_1023: "unat (w AND 1023 :: u32) = unat w mod 1024"
  using unat_and_mask [of w 10] by (simp add: mask_eq_exp_minus_1)

definition q_ok :: "tty_queue \<Rightarrow> bool" where
  "q_ok q \<longleftrightarrow> length (q_buf q) = TTY_BUF_SIZE \<and> unat (q_head q) < TTY_BUF_SIZE \<and> unat (q_tail q) < TTY_BUF_SIZE"

definition q_cont :: "tty_queue \<Rightarrow> u8 list" where
  "q_cont q = ring TTY_BUF_SIZE ((!) (q_buf q)) (unat (q_head q)) (unat (q_tail q))"

lemma ring_buf_cong: "0 < N \<Longrightarrow> (\<And>k. k < N \<Longrightarrow> f k = g k) \<Longrightarrow> ring N f h t = ring N g h t"
  by (simp add: ring_def)

lemma unat_diff_mod:
  assumes "unat b \<le> 1024"
  shows "unat (a - b :: u32) mod 1024 = (unat a + 1024 - unat b) mod 1024"
proof (cases "b \<le> a")
  case True
  then have "unat b \<le> unat a" by (simp add: word_le_nat_alt)
  then show ?thesis using unat_sub [OF True] by (simp add: mod_if)
next
  case False
  then have "unat (a - b) = unat a + 2 ^ 32 - unat b" by (simp add: unat_sub_if' word_le_nat_alt)
  also have "\<dots> = (unat a + 1024 - unat b) + 4194303 * 1024" using assms by simp
  finally show ?thesis by (simp only: mod_mult_self1)
qed

lemma unat_INC: "unat (INC a) = Suc (unat a) mod 1024"
  by (simp add: INC_def unat_and_1023 unat_word_ariths mod_mod_cancel)

lemma unat_DEC: "unat (DEC a) = (unat a + 1023) mod 1024"
  using unat_diff_mod [of 1 a] by (simp add: DEC_def unat_and_1023 add.commute)

lemma unat_CHARS: "q_ok q \<Longrightarrow> unat (CHARS q) = length (q_cont q)"
  using unat_diff_mod [of "q_tail q" "q_head q"] by (simp add: CHARS_def unat_and_1023 q_ok_def q_cont_def ring_count_def)

lemma unat_LEFT:
  assumes "q_ok q"
  shows "unat (LEFT q) = 1023 - length (q_cont q)"
proof -
  let ?h = "unat (q_head q)" and ?t = "unat (q_tail q)"
  have "unat (LEFT q) = (unat (q_tail q - q_head q) mod 1024 + 1023) mod 1024"
    using unat_diff_mod [of 1 "q_tail q - q_head q"] by (simp add: LEFT_def unat_and_1023 mod_simps add.commute)
  also have "\<dots> = (ring_count 1024 ?t ?h + 1023) mod 1024"
    using assms by (simp add: q_ok_def ring_count_def unat_diff_mod)
  also have "\<dots> = 1023 - ring_count 1024 ?h ?t"
    using assms by (auto simp: q_ok_def ring_count_eq mod_if)
  finally show ?thesis by (simp add: q_cont_def)
qed

lemma q_cont_bound: "length (q_cont q) \<le> 1023"
  using ring_count_less [of 1024] by (simp add: q_cont_def less_Suc_eq_le [symmetric])

lemma FULL_iff: "q_ok q \<Longrightarrow> FULL q \<longleftrightarrow> length (q_cont q) = 1023"
  using unat_LEFT [of q] q_cont_bound [of q] unat_eq_zero [of "LEFT q"] unfolding FULL_def by linarith

lemma EMPTY_iff: "q_ok q \<Longrightarrow> EMPTY q \<longleftrightarrow> q_cont q = []"
  by (simp add: EMPTY_def q_ok_def q_cont_def ring_count_0 word_unat_eq_iff flip: length_0_conv)

lemma q_cont_PUTCH:
  assumes "q_ok q" "length (q_cont q) < 1023"
  shows "q_ok (PUTCH c q)" "q_cont (PUTCH c q) = q_cont q @ [c]"
proof -
  show "q_ok (PUTCH c q)" using assms(1) by (simp add: q_ok_def PUTCH_def unat_INC)
  have "ring 1024 ((!) ((q_buf q)[unat (q_head q) := c])) (Suc (unat (q_head q)) mod 1024) (unat (q_tail q)) =
      ring 1024 (((!) (q_buf q))(unat (q_head q) := c)) (Suc (unat (q_head q)) mod 1024) (unat (q_tail q))"
    using assms(1) by (intro ring_buf_cong) (simp_all add: q_ok_def nth_list_update)
  then show "q_cont (PUTCH c q) = q_cont q @ [c]"
    using assms ring_put [of "unat (q_head q)" 1024 "unat (q_tail q)"] by (simp add: q_ok_def q_cont_def PUTCH_def unat_INC)
qed

lemma q_cont_GETCH:
  assumes "q_ok q" "q_cont q = c # cs"
  shows "fst (GETCH q) = c" "q_ok (snd (GETCH q))" "q_cont (snd (GETCH q)) = cs"
proof -
  have "unat (q_head q) \<noteq> unat (q_tail q)" using assms(2) by (auto simp: q_cont_def)
  note ring_get [OF _ _ this, of 1024 "(!) (q_buf q)"]
  then show "fst (GETCH q) = c" "q_cont (snd (GETCH q)) = cs"
    using assms by (simp_all add: q_ok_def q_cont_def GETCH_def unat_INC)
  show "q_ok (snd (GETCH q))" using assms(1) by (simp add: q_ok_def GETCH_def unat_INC)
qed

interpretation tq: fifo q_ok q_cont 1023 FULL EMPTY PUTCH GETCH
proof unfold_locales
  show "FULL q \<longleftrightarrow> \<not> length (q_cont q) < 1023" if "q_ok q" for q
    using FULL_iff [OF that] q_cont_bound [of q] by auto
qed (simp_all add: EMPTY_iff q_cont_PUTCH q_cont_GETCH)

text \<open>C33: the macros of \<open>tty.h\<close> refine a bounded first-in first-out queue. For any sequence of insertions (made
  unless \<open>FULL\<close>) and removals (made unless \<open>EMPTY\<close>) the characters \<open>GETCH\<close> delivers, and the contents left,
  are those of the same sequence on a list of at most 1023 characters; \<open>CHARS\<close> and \<open>LEFT\<close> count them.\<close>

theorem tty_queue_fifo:
  assumes "q_ok q" "run_queue FULL EMPTY PUTCH GETCH qs q = (out, q')"
  shows "run_list 1023 qs (q_cont q) = (out, q_cont q') \<and> q_ok q' \<and>
    unat (CHARS q') = length (q_cont q') \<and> unat (LEFT q') = 1023 - length (q_cont q')"
  using tq.run_refines [OF assms] by (simp add: unat_CHARS unat_LEFT)

lemma zero_queue_ok: "q_ok zero_queue" "q_cont zero_queue = []"
  by (simp_all add: q_ok_def q_cont_def zero_queue_def)

theorem tty_queue_fifo_witness:
  "\<exists>q'. run_queue FULL EMPTY PUTCH GETCH [Put 104, Put 105, Get, Put 33, Get, Get, Get] zero_queue = ([104, 105, 33], q')"
proof -
  obtain out q' where r: "run_queue FULL EMPTY PUTCH GETCH [Put 104, Put 105, Get, Put 33, Get, Get, Get] zero_queue = (out, q')"
    by fastforce
  from tty_queue_fifo [OF zero_queue_ok(1) r] have "out = [104, 105, 33]" by (simp add: zero_queue_ok(2))
  with r show ?thesis by auto
qed

section \<open>Operations on the terminal\<close>

text \<open>Waking a task changes its state only.\<close>

definition same_signals :: "(ulong \<Rightarrow> task_struct) \<Rightarrow> (ulong \<Rightarrow> task_struct) \<Rightarrow> bool" where
  "same_signals ts us \<longleftrightarrow> (\<forall>p. t_signal (ts p) = t_signal (us p) \<and> t_alarm (ts p) = t_alarm (us p))"

lemma same_signals_refl [simp]: "same_signals ts ts"
  by (simp add: same_signals_def)

lemma same_signals_trans: "same_signals ts us \<Longrightarrow> same_signals us vs \<Longrightarrow> same_signals ts vs"
  by (simp add: same_signals_def)

lemma set_state_Ok: "p \<noteq> 0 \<Longrightarrow> \<exists>ts. set_state p st s = Ok () (s\<lparr>tasks := ts\<rparr>) \<and> same_signals ts (tasks s)"
  by (auto simp: set_state_def upd_task_def same_signals_def)

lemma wake_up_Ok: "\<exists>ts. wake_up q s = Ok () (s\<lparr>tasks := ts\<rparr>) \<and> same_signals ts (tasks s)"
proof (cases "wq_get q s = 0")
  case True
  then have "wake_up q s = Ok () (s\<lparr>tasks := tasks s\<rparr>)" by (simp add: wake_up_def getk_def whenk_def retk_def)
  then show ?thesis by (intro exI [of _ "tasks s"]) simp
next
  case False
  then show ?thesis using set_state_Ok by (simp add: wake_up_def getk_def whenk_def)
qed

lemma get_tty_Ok: "tty_table s = [t] \<Longrightarrow> get_tty 0 s = Ok t s"
  by (simp add: get_tty_def)

lemma upd_tty_Ok: "tty_table s = [t] \<Longrightarrow> upd_tty 0 f s = Ok () (s\<lparr>tty_table := [f t]\<rparr>)"
  by (simp add: upd_tty_def)

lemmas tty_Ok = get_tty_Ok upd_tty_Ok

lemma putch_Ok:
  "tty_table s = [t] \<Longrightarrow> q_ok (queue_of w t) \<Longrightarrow> putch 0 w c s = Ok () (s\<lparr>tty_table := [upd_queue w (PUTCH c) t]\<rparr>)"
  by (simp add: putch_def tty_Ok q_ok_def)

lemma getch_Ok:
  "tty_table s = [t] \<Longrightarrow> q_ok (queue_of w t) \<Longrightarrow>
    getch 0 w s = Ok (fst (GETCH (queue_of w t))) (s\<lparr>tty_table := [upd_queue w (\<lambda>q. snd (GETCH q)) t]\<rparr>)"
  by (simp add: getch_def tty_Ok q_ok_def retk_def)

lemma q_ok_step: "q_ok q \<Longrightarrow> q_ok (PUTCH c q)" "q_ok q \<Longrightarrow> q_ok (snd (GETCH q))" "q_ok q \<Longrightarrow> q_ok (q\<lparr>q_head := DEC (q_head q)\<rparr>)"
  "q_ok (q\<lparr>q_data := d\<rparr>) = q_ok q"
  by (simp_all add: q_ok_def PUTCH_def GETCH_def unat_INC unat_DEC)

text \<open>Sending: one character of the write queue, if there is one, goes to the device.\<close>

lemma rs_write_Ok:
  assumes t: "tty_table s = [t]" and q: "q_ok (tty_write_q t)"
  shows "\<exists>ts W. rs_write 0 s = Ok () (s\<lparr>tasks := ts, tty_table := [t\<lparr>tty_write_q := W\<rparr>], uart_tx := uart_tx s @ take 1 (q_cont (tty_write_q t))\<rparr>) \<and>
    same_signals ts (tasks s) \<and> q_ok W \<and> q_cont W = tl (q_cont (tty_write_q t))"
proof (cases "q_cont (tty_write_q t)")
  case Nil
  then have "rs_write 0 s = Ok () (s\<lparr>tasks := tasks s, tty_table := [t\<lparr>tty_write_q := tty_write_q t\<rparr>], uart_tx := uart_tx s @ []\<rparr>)"
    using t EMPTY_iff [OF q] by (simp add: rs_write_def tty_Ok whenk_def retk_def)
  then show ?thesis using q Nil by (intro exI [of _ "tasks s"] exI [of _ "tty_write_q t"]) simp
next
  case (Cons c cs)
  let ?p = "q_proc_list (tty_write_q t)" and ?m = "whenk (q_proc_list (tty_write_q t) \<noteq> 0) (set_state (q_proc_list (tty_write_q t)) TASK_RUNNING)"
  have "\<exists>ts. ?m s = Ok () (s\<lparr>tasks := ts\<rparr>) \<and> same_signals ts (tasks s)"
  proof (cases "?p = 0")
    case True
    then have "?m s = Ok () (s\<lparr>tasks := tasks s\<rparr>)" by (simp add: whenk_def retk_def)
    then show ?thesis by (intro exI [of _ "tasks s"]) simp
  next
    case False
    then show ?thesis using set_state_Ok by (simp add: whenk_def)
  qed
  then obtain ts where m: "?m s = Ok () (s\<lparr>tasks := ts\<rparr>)" "same_signals ts (tasks s)" by blast
  have n: "CHARS (tty_write_q t) \<noteq> 0" using unat_CHARS [OF q] Cons by (metis list.size(4) add_Suc_right nat.simps(3) unat_0)
  have e: "\<not> EMPTY (tty_write_q t)" using EMPTY_iff [OF q] Cons by simp
  have "rs_write 0 s = Ok () (s\<lparr>tasks := ts, tty_table := [t\<lparr>tty_write_q := snd (GETCH (tty_write_q t))\<rparr>], uart_tx := uart_tx s @ [c]\<rparr>)"
    using t m(1) n e q q_cont_GETCH(1) [OF q Cons] getch_Ok [of "s\<lparr>tasks := ts\<rparr>" t WriteQ]
    by (simp add: rs_write_def serial_send_interrupt_def tty_Ok Let_def whenk_def modk_def)
  then show ?thesis using m(2) q_cont_GETCH [OF q Cons] Cons by (intro exI) simp
qed

section \<open>Killing the line\<close>

lemma loopk_forever:
  assumes "\<And>x s. J s \<Longrightarrow> \<exists>y t. f x s = Ok (Inl y) t \<and> J t"
  shows "J s \<Longrightarrow> loopk n f x s = NoFuel"
proof (induction n arbitrary: x s)
  case (Suc n)
  obtain y t where "f x s = Ok (Inl y) t" "J t" using assms [OF Suc.prems] by blast
  then show ?case using Suc.IH by simp
qed simp

definition tty_queues_ok :: "tty_struct \<Rightarrow> bool" where
  "tty_queues_ok t \<longleftrightarrow> q_ok (tty_read_q t) \<and> q_ok (tty_write_q t) \<and> q_ok (tty_secondary t)"

lemma rub_out_Ok:
  assumes t: "tty_table s = [t]" and q: "tty_queues_ok t"
  shows "\<exists>u t'. rub_out 0 c s = Ok () u \<and> tty_table u = [t'] \<and> tty_queues_ok t' \<and> tty_termios t' = tty_termios t \<and>
    tty_secondary t' = (tty_secondary t)\<lparr>q_head := DEC (q_head (tty_secondary t))\<rparr>"
proof (cases "L_ECHO t")
  case False
  then show ?thesis using t q by (simp add: rub_out_def tty_Ok whenk_def retk_def tty_queues_ok_def q_ok_step)
next
  case True
  define t1 where "t1 = (if sint c < 32 then upd_queue WriteQ (PUTCH 127) t else t)"
  define s1 where "s1 = (if sint c < 32 then s\<lparr>tty_table := [t1]\<rparr> else s)"
  have a: "whenk (sint c < 32) (putch 0 WriteQ 127) s = Ok () s1" "tty_table s1 = [t1]"
    using t q by (simp_all add: s1_def t1_def whenk_def retk_def putch_Ok tty_queues_ok_def)
  have q1: "q_ok (tty_write_q t1)" "q_ok (tty_secondary t1)" "q_ok (tty_read_q t1)" "tty_secondary t1 = tty_secondary t" "tty_termios t1 = tty_termios t"
    using q by (simp_all add: t1_def tty_queues_ok_def q_ok_step)
  let ?s2 = "s1\<lparr>tty_table := [upd_queue WriteQ (PUTCH 127) t1]\<rparr>"
  have b: "putch 0 WriteQ 127 s1 = Ok () ?s2" using putch_Ok [OF a(2), of WriteQ] q1 by simp
  obtain ts W tx where w: "rs_write 0 ?s2 = Ok () (?s2\<lparr>tasks := ts, tty_table := [t1\<lparr>tty_write_q := W\<rparr>], uart_tx := tx\<rparr>)" "q_ok W"
    using rs_write_Ok [of ?s2 "upd_queue WriteQ (PUTCH 127) t1"] q1(1) by (auto simp: q_ok_step)
  have g: "get_tty 0 s = Ok t s" by (rule get_tty_Ok [OF t])
  show ?thesis using g True a(1) b w q1
    by (simp add: rub_out_def bindk_assoc whenk_def [of True] tty_Ok tty_queues_ok_def q_ok_step)
qed

text \<open>The terminal just after a line has been read: the character before the start of the queue is a newline.\<close>

definition after_line :: "kstate \<Rightarrow> bool" where
  "after_line s \<longleftrightarrow> (\<exists>t. tty_table s = [t] \<and> tty_queues_ok t \<and>
     q_buf (tty_secondary t) ! ((unat (q_tail (tty_secondary t)) + 1023) mod 1024) = 10)"

lemma kill_round_goes_on:
  assumes "after_line s"
  shows "\<exists>c' t. kill_round 0 c s = Ok (Inl c') t \<and> after_line t"
proof -
  obtain t where t: "tty_table s = [t]" "tty_queues_ok t"
    and nl: "q_buf (tty_secondary t) ! ((unat (q_tail (tty_secondary t)) + 1023) mod 1024) = 10"
    using assms by (auto simp: after_line_def)
  have l: "LAST (tty_secondary t) = 10" if "EMPTY (tty_secondary t)"
    using that nl unat_DEC [of "q_head (tty_secondary t)"] by (simp add: LAST_def EMPTY_def DEC_def and.commute)
  define d where "d = (if EMPTY (tty_secondary t) then 10 else c)"
  obtain u where "rub_out 0 d s = Ok () u" "after_line u"
    using rub_out_Ok [OF t, of d] nl by (auto simp: after_line_def)
  then have "kill_round 0 c s = Ok (Inl d) u"
    using t(1) l by (cases "EMPTY (tty_secondary t)") (simp_all add: kill_round_def tty_Ok retk_def Let_def d_def)
  with \<open>after_line u\<close> show ?thesis by blast
qed


definition demo_line :: kstate where
  "demo_line = kernel_image\<lparr>tty_table := [init_tty\<lparr>tty_secondary := snd (GETCH (PUTCH 10 zero_queue))\<rparr>]\<rparr>"


section \<open>Typing a line\<close>

lemma sint_small: "c < 128 \<Longrightarrow> sint (c :: u8) = uint c"
  by (simp add: sint_uint word_less_def signed_take_bit_int_eq_self_iff order_trans [OF _ uint_ge_0])

lemma is_char_iff: "c < 128 \<Longrightarrow> is_char c k \<longleftrightarrow> c = k"
  by (simp add: is_char_def sint_small flip: word_uint_eq_iff)

definition plain_char :: "u8 \<Rightarrow> bool" where
  "plain_char c \<longleftrightarrow> 32 \<le> c \<and> c < 127"

lemma plain_char_not:
  assumes "plain_char c"
  shows "c < 128" "c \<noteq> 3" "c \<noteq> 4" "c \<noteq> 10" "c \<noteq> 13" "c \<noteq> 17" "c \<noteq> 19" "c \<noteq> 21" "c \<noteq> 28" "c \<noteq> 127" "\<not> sint c < 32"
proof -
  have l: "uint c \<ge> 32" "uint c < 127" using assms by (simp_all add: plain_char_def word_le_def word_less_def)
  then show s: "c < 128" by (simp add: word_less_def)
  show "c \<noteq> 3" "c \<noteq> 4" "c \<noteq> 10" "c \<noteq> 13" "c \<noteq> 17" "c \<noteq> 19" "c \<noteq> 21" "c \<noteq> 28" "c \<noteq> 127" using l by auto
  show "\<not> sint c < 32" using l by (simp add: sint_small [OF s])
qed

definition cooked :: "tty_struct \<Rightarrow> bool" where
  "cooked t \<longleftrightarrow> tty_termios t = tty_termios init_tty"

lemma cooked_flags:
  assumes "cooked t"
  shows "L_ISIG t" "L_CANON t" "L_ECHO t" "\<not> L_ECHOCTL t" "I_CRNL t" "\<not> I_NLCR t" "\<not> I_UCLC t"
    "INTR_CHAR t = 3" "QUIT_CHAR t = 28" "ERASE_CHAR t = 127" "KILL_CHAR t = 21" "EOF_CHAR t = 4" "START_CHAR t = 17" "STOP_CHAR t = 19"
    "cc_char t 5 = 0" "cc_char t 6 = 1"
  using assms by (simp_all add: cooked_def L_FLAG_def I_FLAG_def cc_char_def init_tty_def INIT_C_CC_def)

lemma cook_char_plain:
  assumes t: "tty_table s = [t]" and c: "cooked t" "tty_queues_ok t" "q_cont (tty_write_q t) = []" and p: "plain_char ch"
  shows "\<exists>ts W. cook_char 0 ch s = Ok () (s\<lparr>tasks := ts, tty_table := [t\<lparr>tty_write_q := W, tty_secondary := PUTCH ch (tty_secondary t)\<rparr>],
     uart_tx := uart_tx s @ [ch]\<rparr>) \<and> same_signals ts (tasks s) \<and> q_ok W \<and> q_cont W = []"
proof -
  let ?t1 = "upd_queue WriteQ (PUTCH ch) t"
  let ?s1 = "s\<lparr>tty_table := [?t1]\<rparr>"
  have q: "q_ok (tty_write_q t)" using c(2) by (simp add: tty_queues_ok_def)
  have a: "putch 0 WriteQ ch s = Ok () ?s1" using putch_Ok [OF t, of WriteQ] q by simp
  obtain ts W where w: "rs_write 0 ?s1 = Ok () (?s1\<lparr>tasks := ts, tty_table := [t\<lparr>tty_write_q := W\<rparr>], uart_tx := uart_tx s @ [ch]\<rparr>)"
     "same_signals ts (tasks s)" "q_ok W" "q_cont W = []"
    using rs_write_Ok [of ?s1 ?t1] q_cont_PUTCH [OF q, of ch] c(3) by auto
  let ?s2 = "?s1\<lparr>tasks := ts, tty_table := [t\<lparr>tty_write_q := W\<rparr>], uart_tx := uart_tx s @ [ch]\<rparr>"
  have e: "echo_char 0 ch s = Ok () ?s2"
    using a w(1) plain_char_not [OF p] cooked_flags [OF c(1)] by (simp add: echo_char_def get_tty_Ok [OF t])
  have "putch 0 SecQ ch ?s2 = Ok () (?s2\<lparr>tty_table := [t\<lparr>tty_write_q := W, tty_secondary := PUTCH ch (tty_secondary t)\<rparr>]\<rparr>)"
    using putch_Ok [of ?s2 "t\<lparr>tty_write_q := W\<rparr>" SecQ] c(2) by (simp add: tty_queues_ok_def)
  then have "cook_char 0 ch s = Ok () (s\<lparr>tasks := ts, tty_table := [t\<lparr>tty_write_q := W, tty_secondary := PUTCH ch (tty_secondary t)\<rparr>], uart_tx := uart_tx s @ [ch]\<rparr>)"
    using e plain_char_not [OF p] cooked_flags [OF c(1)] by (simp add: cook_char_def get_tty_Ok [OF t] is_char_iff whenk_def)
  then show ?thesis using w by blast
qed

lemma cook_char_newline:
  assumes t: "tty_table s = [t]" and c: "cooked t" "tty_queues_ok t" "q_cont (tty_write_q t) = []"
  defines "sec \<equiv> PUTCH 10 ((tty_secondary t)\<lparr>q_data := q_data (tty_secondary t) + 1\<rparr>)"
  shows "\<exists>ts W. cook_char 0 10 s = Ok () (s\<lparr>tasks := ts, tty_table := [t\<lparr>tty_write_q := W, tty_secondary := sec\<rparr>],
     uart_tx := uart_tx s @ [13]\<rparr>) \<and> same_signals ts (tasks s) \<and> q_ok W \<and> q_cont W = [10]"
proof -
  let ?t0 = "t\<lparr>tty_secondary := (tty_secondary t)\<lparr>q_data := q_data (tty_secondary t) + 1\<rparr>\<rparr>"
  let ?t1 = "upd_queue WriteQ (PUTCH 10) (upd_queue WriteQ (PUTCH 13) ?t0)"
  let ?s0 = "s\<lparr>tty_table := [?t0]\<rparr>" and ?s1 = "s\<lparr>tty_table := [?t1]\<rparr>"
  have q: "q_ok (tty_write_q t)" "q_ok (PUTCH 13 (tty_write_q t))" "q_cont (PUTCH 13 (tty_write_q t)) = [13]"
    using c(2) q_cont_PUTCH [of "tty_write_q t" 13] c(3) by (simp_all add: tty_queues_ok_def)
  have a: "putch 0 WriteQ 13 ?s0 = Ok () (s\<lparr>tty_table := [upd_queue WriteQ (PUTCH 13) ?t0]\<rparr>)"
     "putch 0 WriteQ 10 (s\<lparr>tty_table := [upd_queue WriteQ (PUTCH 13) ?t0]\<rparr>) = Ok () ?s1"
    using putch_Ok [of ?s0 ?t0 WriteQ] putch_Ok [of "s\<lparr>tty_table := [upd_queue WriteQ (PUTCH 13) ?t0]\<rparr>" "upd_queue WriteQ (PUTCH 13) ?t0" WriteQ] q by simp_all
  obtain ts W where w: "rs_write 0 ?s1 = Ok () (?s1\<lparr>tasks := ts, tty_table := [?t0\<lparr>tty_write_q := W\<rparr>], uart_tx := uart_tx s @ [13]\<rparr>)"
     "same_signals ts (tasks s)" "q_ok W" "q_cont W = [10]"
    using rs_write_Ok [of ?s1 ?t1] q_cont_PUTCH [OF q(2), of 10] q(3) by auto
  let ?s2 = "?s1\<lparr>tasks := ts, tty_table := [?t0\<lparr>tty_write_q := W\<rparr>], uart_tx := uart_tx s @ [13]\<rparr>"
  have c0: "cooked ?t0" using c(1) by (simp add: cooked_def)
  have e: "echo_char 0 10 ?s0 = Ok () ?s2"
    using a w(1) cooked_flags [OF c0] by (simp add: echo_char_def get_tty_Ok [of ?s0 ?t0])
  have "putch 0 SecQ 10 ?s2 = Ok () (?s2\<lparr>tty_table := [t\<lparr>tty_write_q := W, tty_secondary := sec\<rparr>]\<rparr>)"
    using putch_Ok [of ?s2 "?t0\<lparr>tty_write_q := W\<rparr>" SecQ] c(2) by (simp add: tty_queues_ok_def q_ok_step sec_def)
  then have "cook_char 0 10 s = Ok () (s\<lparr>tasks := ts, tty_table := [t\<lparr>tty_write_q := W, tty_secondary := sec\<rparr>], uart_tx := uart_tx s @ [13]\<rparr>)"
    using e cooked_flags [OF c(1)] by (simp add: cook_char_def get_tty_Ok [OF t] upd_tty_Ok [OF t] is_char_iff whenk_def)
  then show ?thesis using w by blast
qed

definition idle_tty :: "tty_struct \<Rightarrow> bool" where
  "idle_tty t \<longleftrightarrow> cooked t \<and> tty_queues_ok t \<and> q_cont (tty_read_q t) = [] \<and> q_cont (tty_write_q t) = []"

lemma loopk_again_end: "f x s = Ok (Inl y) u \<Longrightarrow> f y u = Ok (Inr z) v \<Longrightarrow> loopk (Suc (Suc n)) f x s = Ok z v"
  by (simp add: retk_def)

lemma tasks_first: "s\<lparr>tty_table := x, uart_tx := y, tasks := z\<rparr> = s\<lparr>tasks := z, tty_table := x, uart_tx := y\<rparr>"
  by (rule kstate.equality) simp_all

text \<open>The line discipline on a queue of one character.\<close>

lemma copy_one_char:
  assumes t: "tty_table s = [t]" and r: "q_ok (tty_read_q t)" "q_cont (tty_read_q t) = [ch]" and f: "\<not> FULL (tty_secondary t)"
    and i: "cook_input t ch = Some c" and k: "cook_char 0 c (s\<lparr>tty_table := [t\<lparr>tty_read_q := snd (GETCH (tty_read_q t))\<rparr>]\<rparr>) = Ok () u"
    and u: "tty_table u = [t']" "tty_read_q t' = snd (GETCH (tty_read_q t))"
  shows "\<exists>ts. copy_to_cooked 0 s = Ok () (u\<lparr>tasks := ts\<rparr>) \<and> same_signals ts (tasks u)"
proof -
  note g = q_cont_GETCH [OF r]
  have "\<not> EMPTY (tty_read_q t)" using EMPTY_iff [OF r(1)] r(2) by simp
  then have a: "cook_round 0 () s = Ok (Inl ()) u"
    using t f i k r(1) g(1) getch_Ok [OF t, of ReadQ] by (simp add: cook_round_def get_tty_Ok [OF t] retk_def)
  have "EMPTY (tty_read_q t')" using u(2) g(2,3) by (simp add: EMPTY_iff)
  then have b: "cook_round 0 () u = Ok (Inr ()) u" using u(1) by (simp add: cook_round_def tty_Ok retk_def)
  have "loopk (Suc (Suc 4094)) (cook_round 0) () s = Ok () u" by (rule loopk_again_end [of "cook_round 0" "()" s "()" u "()" u, OF a b])
  then show ?thesis using wake_up_Ok [of "WTtySec 0" u] by (simp add: copy_to_cooked_def)
qed

lemma unat_Suc: "unat (h :: u32) < 1023 \<Longrightarrow> unat (h + 1) = Suc (unat h)" "unat (h :: u32) < 1023 \<Longrightarrow> h + 1 = INC h"
proof -
  assume h: "unat h < 1023"
  then show a: "unat (h + 1) = Suc (unat h)" by (simp add: unat_word_ariths)
  then show "h + 1 = INC h" using h by (simp add: word_unat_eq_iff unat_INC)
qed

text \<open>A byte received by an idle terminal whose read queue does not reach the end of its array.\<close>

lemma receive_char:
  assumes t: "tty_table s = [t]" and i: "idle_tty t" and h: "unat (q_head (tty_read_q t)) < 1023"
  shows "serial_rev_interrupt ch s = copy_to_cooked 0 (s\<lparr>tty_table := [t\<lparr>tty_read_q := PUTCH ch (tty_read_q t)\<rparr>]\<rparr>)"
    "q_ok (PUTCH ch (tty_read_q t))" "q_cont (PUTCH ch (tty_read_q t)) = [ch]"
proof -
  have q: "q_ok (tty_read_q t)" "q_cont (tty_read_q t) = []" using i by (simp_all add: idle_tty_def tty_queues_ok_def)
  then show "q_ok (PUTCH ch (tty_read_q t))" "q_cont (PUTCH ch (tty_read_q t)) = [ch]" using q_cont_PUTCH by simp_all
  have "CHARS (tty_read_q t) = 0" using unat_CHARS [OF q(1)] q(2) by (metis list.size(3) unat_eq_zero)
  then show "serial_rev_interrupt ch s = copy_to_cooked 0 (s\<lparr>tty_table := [t\<lparr>tty_read_q := PUTCH ch (tty_read_q t)\<rparr>]\<rparr>)"
    using h q(1) by (simp add: serial_rev_interrupt_def do_tty_interrupt_def tty_Ok t q_ok_def PUTCH_def unat_Suc(2))
qed

lemma type_plain:
  assumes t: "tty_table s = [t]" and i: "idle_tty t" and h: "unat (q_head (tty_read_q t)) < 1023"
    and l: "length (q_cont (tty_secondary t)) < 1023" and p: "plain_char ch"
  shows "\<exists>ts t'. serial_rev_interrupt ch s = Ok () (s\<lparr>tasks := ts, tty_table := [t'], uart_tx := uart_tx s @ [ch]\<rparr>) \<and>
    same_signals ts (tasks s) \<and> idle_tty t' \<and> tty_secondary t' = PUTCH ch (tty_secondary t) \<and>
    unat (q_head (tty_read_q t')) = Suc (unat (q_head (tty_read_q t)))"
proof -
  note r = receive_char [OF t i h, of ch]
  let ?R = "PUTCH ch (tty_read_q t)"
  let ?t1 = "t\<lparr>tty_read_q := ?R\<rparr>" and ?t2 = "t\<lparr>tty_read_q := snd (GETCH ?R)\<rparr>"
  note g = q_cont_GETCH [OF r(2,3)]
  have c: "cooked t" "tty_queues_ok t" "q_cont (tty_write_q t) = []" using i by (simp_all add: idle_tty_def)
  then have c2: "cooked ?t2" "tty_queues_ok ?t2" "q_cont (tty_write_q ?t2) = []" using g(2) by (simp_all add: cooked_def tty_queues_ok_def)
  define t3 where "t3 W = ?t2\<lparr>tty_write_q := W, tty_secondary := PUTCH ch (tty_secondary t)\<rparr>" for W
  obtain ts W where k: "cook_char 0 ch (s\<lparr>tty_table := [?t2]\<rparr>) = Ok () (s\<lparr>tasks := ts, tty_table := [t3 W], uart_tx := uart_tx s @ [ch]\<rparr>)"
      "same_signals ts (tasks s)" "q_ok W" "q_cont W = []"
    using cook_char_plain [of "s\<lparr>tty_table := [?t2]\<rparr>", OF _ c2 p] by (auto simp: t3_def)
  have f: "\<not> FULL (tty_secondary ?t1)" using l c(2) by (simp add: FULL_iff tty_queues_ok_def)
  have ci: "cook_input ?t1 ch = Some ch"
    using plain_char_not [OF p] cooked_flags [of ?t1] c(1) by (simp add: cook_input_def cooked_def)
  obtain ts' where w: "copy_to_cooked 0 (s\<lparr>tty_table := [?t1]\<rparr>) = Ok () (s\<lparr>tasks := ts', tty_table := [t3 W], uart_tx := uart_tx s @ [ch]\<rparr>)"
      "same_signals ts' ts"
    using copy_one_char [of "s\<lparr>tty_table := [?t1]\<rparr>" ?t1, OF _ _ _ f ci, of "s\<lparr>tasks := ts, tty_table := [t3 W], uart_tx := uart_tx s @ [ch]\<rparr>" "t3 W"] k(1) r(2,3)
    by (auto simp: t3_def tasks_first)
  have "idle_tty (t3 W)" "tty_secondary (t3 W) = PUTCH ch (tty_secondary t)"
    using c2 k(3,4) g(2,3) c(2) by (simp_all add: idle_tty_def cooked_def tty_queues_ok_def q_ok_step t3_def)
  moreover have "unat (q_head (tty_read_q (t3 W))) = Suc (unat (q_head (tty_read_q t)))"
    using h by (simp add: GETCH_def PUTCH_def unat_INC t3_def)
  ultimately show ?thesis using r(1) w same_signals_trans [OF w(2) k(2)] by auto
qed

lemma type_newline:
  assumes t: "tty_table s = [t]" and i: "idle_tty t" and h: "unat (q_head (tty_read_q t)) < 1023"
    and l: "length (q_cont (tty_secondary t)) < 1023"
  shows "\<exists>ts t'. serial_rev_interrupt 13 s = Ok () (s\<lparr>tasks := ts, tty_table := [t'], uart_tx := uart_tx s @ [13]\<rparr>) \<and>
    same_signals ts (tasks s) \<and> cooked t' \<and> tty_queues_ok t' \<and>
    tty_secondary t' = PUTCH 10 ((tty_secondary t)\<lparr>q_data := q_data (tty_secondary t) + 1\<rparr>)"
proof -
  note r = receive_char [OF t i h, of 13]
  let ?R = "PUTCH 13 (tty_read_q t)" and ?Q = "PUTCH 10 ((tty_secondary t)\<lparr>q_data := q_data (tty_secondary t) + 1\<rparr>)"
  let ?t1 = "t\<lparr>tty_read_q := ?R\<rparr>" and ?t2 = "t\<lparr>tty_read_q := snd (GETCH ?R)\<rparr>"
  note g = q_cont_GETCH [OF r(2,3)]
  have c: "cooked t" "tty_queues_ok t" "q_cont (tty_write_q t) = []" using i by (simp_all add: idle_tty_def)
  then have c2: "cooked ?t2" "tty_queues_ok ?t2" "q_cont (tty_write_q ?t2) = []" using g(2) by (simp_all add: cooked_def tty_queues_ok_def)
  define t3 where "t3 W = ?t2\<lparr>tty_write_q := W, tty_secondary := ?Q\<rparr>" for W
  obtain ts W where k: "cook_char 0 10 (s\<lparr>tty_table := [?t2]\<rparr>) = Ok () (s\<lparr>tasks := ts, tty_table := [t3 W], uart_tx := uart_tx s @ [13]\<rparr>)"
      "same_signals ts (tasks s)" "q_ok W"
    using cook_char_newline [of "s\<lparr>tty_table := [?t2]\<rparr>", OF _ c2] by (auto simp: t3_def)
  have f: "\<not> FULL (tty_secondary ?t1)" using l c(2) by (simp add: FULL_iff tty_queues_ok_def)
  have ci: "cook_input ?t1 13 = Some 10" using cooked_flags [of ?t1] c(1) by (simp add: cook_input_def cooked_def)
  obtain ts' where w: "copy_to_cooked 0 (s\<lparr>tty_table := [?t1]\<rparr>) = Ok () (s\<lparr>tasks := ts', tty_table := [t3 W], uart_tx := uart_tx s @ [13]\<rparr>)"
      "same_signals ts' ts"
    using copy_one_char [of "s\<lparr>tty_table := [?t1]\<rparr>" ?t1, OF _ _ _ f ci, of "s\<lparr>tasks := ts, tty_table := [t3 W], uart_tx := uart_tx s @ [13]\<rparr>" "t3 W"] k(1) r(2,3)
    by (auto simp: t3_def tasks_first)
  have "cooked (t3 W)" "tty_queues_ok (t3 W)" "tty_secondary (t3 W) = ?Q"
    using c2 k(3) g(2,3) c(2) by (simp_all add: cooked_def tty_queues_ok_def q_ok_step t3_def)
  then show ?thesis using r(1) w same_signals_trans [OF w(2) k(2)] by auto
qed

lemma type_line:
  assumes "tty_table s = [t]" "idle_tty t" "unat (q_head (tty_read_q t)) + length cs \<le> 1023"
    and "length (q_cont (tty_secondary t)) + length cs \<le> 1023" "\<forall>c \<in> set cs. plain_char c"
  shows "\<exists>ts t'. eachk serial_rev_interrupt cs s = Ok () (s\<lparr>tasks := ts, tty_table := [t'], uart_tx := uart_tx s @ cs\<rparr>) \<and>
    same_signals ts (tasks s) \<and> idle_tty t' \<and> q_cont (tty_secondary t') = q_cont (tty_secondary t) @ cs \<and>
    q_data (tty_secondary t') = q_data (tty_secondary t) \<and>
    unat (q_head (tty_read_q t')) = unat (q_head (tty_read_q t)) + length cs"
  using assms
proof (induction cs arbitrary: s t)
  case Nil
  then have "s = s\<lparr>tasks := tasks s, tty_table := [t], uart_tx := uart_tx s @ []\<rparr>" by simp
  with Nil show ?case by (intro exI [of _ "tasks s"] exI [of _ t]) (simp add: retk_def)
next
  case (Cons c cs)
  obtain ts t1 where a: "serial_rev_interrupt c s = Ok () (s\<lparr>tasks := ts, tty_table := [t1], uart_tx := uart_tx s @ [c]\<rparr>)"
    "same_signals ts (tasks s)" "idle_tty t1" "tty_secondary t1 = PUTCH c (tty_secondary t)"
    "unat (q_head (tty_read_q t1)) = Suc (unat (q_head (tty_read_q t)))"
    using type_plain [OF Cons.prems(1,2), of c] Cons.prems(3-5) by auto
  have q: "q_cont (tty_secondary t1) = q_cont (tty_secondary t) @ [c]" "q_data (tty_secondary t1) = q_data (tty_secondary t)"
    using Cons.prems q_cont_PUTCH [of "tty_secondary t" c] by (simp_all add: a(4) idle_tty_def tty_queues_ok_def PUTCH_def)
  obtain ts' t' where "eachk serial_rev_interrupt cs (s\<lparr>tasks := ts, tty_table := [t1], uart_tx := uart_tx s @ [c]\<rparr>) =
      Ok () (s\<lparr>tasks := ts', tty_table := [t'], uart_tx := uart_tx s @ c # cs\<rparr>)" "same_signals ts' ts" "idle_tty t'"
      "q_cont (tty_secondary t') = q_cont (tty_secondary t) @ c # cs" "q_data (tty_secondary t') = q_data (tty_secondary t)"
      "unat (q_head (tty_read_q t')) = unat (q_head (tty_read_q t)) + length (c # cs)"
    using Cons.IH [of "s\<lparr>tasks := ts, tty_table := [t1], uart_tx := uart_tx s @ [c]\<rparr>" t1] a(3,5) q Cons.prems(3-5) by auto
  then show ?case using a(1) same_signals_trans [OF _ a(2)] by (intro exI [of _ ts'] exI [of _ t']) simp
qed

section \<open>Reading it back\<close>

lemma q_data_irrelevant [simp]: "q_cont (q\<lparr>q_data := d\<rparr>) = q_cont q" "EMPTY (q\<lparr>q_data := d\<rparr>) = EMPTY q"
  by (simp_all add: q_cont_def EMPTY_def)

text \<open>One character out of the queue into the buffer.\<close>

lemma read_one:
  assumes t: "tty_table s = [t]" and c: "cooked t" "q_ok (tty_secondary t)" "q_cont (tty_secondary t) = ch # cs"
    and d: "direct_addr s (buf + word_of_int n)" and e: "ch \<noteq> 4" "0 < nr"
  shows "\<exists>Q. read_chars_round 0 buf (n, nr) s =
      Ok (if nr = 1 \<or> cs = [] then Inr (n + 1, nr - 1, False) else Inl (n + 1, nr - 1))
        ((store_bytes (buf + word_of_int n) [ch] s)\<lparr>tty_table := [t\<lparr>tty_secondary := Q\<rparr>]\<rparr>) \<and> q_ok Q \<and> q_cont Q = cs"
proof -
  note g = q_cont_GETCH [OF c(2,3)]
  let ?Q0 = "snd (GETCH (tty_secondary t))"
  define Q where "Q = (if ch = 10 then ?Q0\<lparr>q_data := q_data ?Q0 - 1\<rparr> else ?Q0)"
  let ?s1 = "s\<lparr>tty_table := [t\<lparr>tty_secondary := ?Q0\<rparr>]\<rparr>" and ?s2 = "s\<lparr>tty_table := [t\<lparr>tty_secondary := Q\<rparr>]\<rparr>"
  have q: "q_ok Q" "q_cont Q = cs" "EMPTY Q = (cs = [])" using g by (simp_all add: Q_def q_ok_step EMPTY_iff)
  have k: "EOF_CHAR (t\<lparr>tty_secondary := x\<rparr>) = 4" for x using cooked_flags [of "t\<lparr>tty_secondary := x\<rparr>"] c(1) by (simp add: cooked_def)
  have 1: "getch 0 SecQ s = Ok ch ?s1" using getch_Ok [OF t, of SecQ] c(2) g(1) by simp
  have 2: "whenk (ch = 4 \<or> ch = 10) (upd_tty 0 (upd_queue SecQ (\<lambda>q. q\<lparr>q_data := q_data q - 1\<rparr>))) ?s1 = Ok () ?s2"
    using e(1) by (simp add: whenk_def retk_def upd_tty_def Q_def)
  have 3: "put_fs_byte ch (buf + word_of_int n) ?s2 = Ok () ((store_bytes (buf + word_of_int n) [ch] s)\<lparr>tty_table := [t\<lparr>tty_secondary := Q\<rparr>]\<rparr>)"
    using d put_fs_byte_direct [of ?s2] by (simp add: direct_addr_def)
  show ?thesis using 1 2 3 e q
    by (intro exI [of _ Q]) (simp add: read_chars_round_def tty_Ok [of ?s1] tty_Ok k retk_def)
qed

lemma read_chars_content:
  assumes "tty_table s = [t]" "cooked t" "q_ok (tty_secondary t)" "q_cont (tty_secondary t) = cs" "cs \<noteq> []" "4 \<notin> set cs"
    and "0 < nr" "length cs \<le> fuel" "length cs < 1024" "\<And>a. direct_addr s a"
  defines "m \<equiv> min (nat nr) (length cs)"
  shows "\<exists>Q. loopk fuel (read_chars_round 0 buf) (n, nr) s = Ok (n + int m, nr - int m, False)
      ((store_bytes (buf + word_of_int n) (take m cs) s)\<lparr>tty_table := [t\<lparr>tty_secondary := Q\<rparr>]\<rparr>) \<and> q_ok Q \<and> q_cont Q = drop m cs"
  using assms(1-10) unfolding m_def
proof (induction cs arbitrary: s t n nr fuel)
  case (Cons c cs)
  obtain f where f: "fuel = Suc f" using Cons.prems(8) by (cases fuel) auto
  obtain Q where r: "read_chars_round 0 buf (n, nr) s =
      Ok (if nr = 1 \<or> cs = [] then Inr (n + 1, nr - 1, False) else Inl (n + 1, nr - 1))
        ((store_bytes (buf + word_of_int n) [c] s)\<lparr>tty_table := [t\<lparr>tty_secondary := Q\<rparr>]\<rparr>)" "q_ok Q" "q_cont Q = cs"
    using read_one [OF Cons.prems(1-4) Cons.prems(10), of nr] Cons.prems(6,7) by auto
  let ?s1 = "(store_bytes (buf + word_of_int n) [c] s)\<lparr>tty_table := [t\<lparr>tty_secondary := Q\<rparr>]\<rparr>"
  show ?case
  proof (cases "nr = 1 \<or> cs = []")
    case True
    then have m: "min (nat nr) (length (c # cs)) = 1" using Cons.prems(7) by auto
    show ?thesis unfolding m using True r by (auto simp: f retk_def)
  next
    case False
    then have n1: "0 < nr - 1" "cs \<noteq> []" using Cons.prems(7) by auto
    have ck: "cooked (t\<lparr>tty_secondary := Q\<rparr>)" using Cons.prems(2) by (simp add: cooked_def)
    have d: "\<And>a. direct_addr ?s1 a" using Cons.prems(10) by (simp add: direct_addr_def store_bytes_def)
    obtain Q' where l: "loopk f (read_chars_round 0 buf) (n + 1, nr - 1) ?s1 =
       Ok (n + 1 + int (min (nat (nr - 1)) (length cs)), nr - 1 - int (min (nat (nr - 1)) (length cs)), False)
       ((store_bytes (buf + word_of_int (n + 1)) (take (min (nat (nr - 1)) (length cs)) cs) ?s1)\<lparr>tty_table := [t\<lparr>tty_secondary := Q'\<rparr>]\<rparr>)"
       "q_ok Q'" "q_cont Q' = drop (min (nat (nr - 1)) (length cs)) cs"
      using Cons.IH [of ?s1 "t\<lparr>tty_secondary := Q\<rparr>" "nr - 1" f "n + 1", OF _ ck _ _ n1(2) _ n1(1) _ _ d] r Cons.prems(6,8,9) by (auto simp: f)
    have m: "min (nat nr) (length (c # cs)) = Suc (min (nat (nr - 1)) (length cs))" using n1(1) by auto
    have "store_bytes (buf + word_of_int (n + 1)) (take k cs) (store_bytes (buf + word_of_int n) [c] s) =
        store_bytes (buf + word_of_int n) (c # take k cs) s" for k
      using store_bytes_Cons [of "take k cs" "buf + word_of_int n" c s] Cons.prems(9) by (simp add: algebra_simps)
    then show ?thesis using r(1) l False unfolding m by (auto simp: f)
  qed
qed simp

lemma tty_read_content:
  assumes t: "tty_table s = [t]" "cooked t" "q_ok (tty_secondary t)" "q_cont (tty_secondary t) = cs" "cs \<noteq> []" "4 \<notin> set cs"
    and d: "q_data (tty_secondary t) \<noteq> 0" and g: "t_signal (cur_task s) = 0" and n: "0 < nr" and a: "\<And>a. direct_addr s a"
  defines "m \<equiv> min (nat nr) (length cs)"
  shows "\<exists>Q. tty_read 0 buf nr s = Ok (int m) ((store_bytes buf (take m cs) s)\<lparr>tty_table := [t\<lparr>tty_secondary := Q\<rparr>]\<rparr>) \<and>
    q_ok Q \<and> q_cont Q = drop m cs"
proof -
  have l: "length cs < 1024" using q_cont_bound [of "tty_secondary t"] t(4) by simp
  obtain Q where r: "read_chars 0 buf 0 nr s = Ok (int m, nr - int m, False)
      ((store_bytes buf (take m cs) s)\<lparr>tty_table := [t\<lparr>tty_secondary := Q\<rparr>]\<rparr>)" "q_ok Q" "q_cont Q = drop m cs"
    using read_chars_content [OF t n _ l a, of TTY_FUEL buf 0] l by (auto simp: read_chars_def m_def)
  let ?u = "(store_bytes buf (take m cs) s)\<lparr>tty_table := [t\<lparr>tty_secondary := Q\<rparr>]\<rparr>"
  have "0 < m" using n t(5) by (cases cs) (auto simp: m_def)
  have f: "L_CANON t" "L_CANON (t\<lparr>tty_secondary := Q\<rparr>)" "cc_char t 5 = 0" "cc_char t 6 = 1"
    using cooked_flags [OF t(2)] cooked_flags [of "t\<lparr>tty_secondary := Q\<rparr>"] t(2) by (simp_all add: cooked_def)
  have e: "\<not> EMPTY (tty_secondary t)" using EMPTY_iff [OF t(3)] t(4,5) by simp
  have "tty_read_round 0 buf al 0 (min 1 nr) (0, nr, False) s = Ok (Inr (int m, False)) ?u" for al
    using t(1) n g d e r(1) f(1,2) \<open>0 < m\<close> by (simp add: tty_read_round_def tty_Ok getk_def retk_def)
  then have lp: "loopk WAIT_FUEL (tty_read_round 0 buf al 0 (min 1 nr)) (0, nr, False) s = Ok (int m, False) ?u" for al
    by (simp add: loopk_numeral retk_def)
  have "upd_cur (\<lambda>c. c\<lparr>t_alarm := t_alarm (cur_task s)\<rparr>) ?u = Ok () ?u" by (simp add: upd_cur_def cur_task_def)
  moreover have "t_signal (cur_task ?u) = 0" using g by (simp add: cur_task_def)
  ultimately have "tty_read 0 buf nr s = Ok (int m) ?u"
    using n lp f(3,4) by (simp add: tty_read_def tty_Ok t(1) getk_def retk_def)
  then show ?thesis using r(2,3) by blast
qed



end
