(* ===== verification/Files_Props.thy ===== *)
theory Files_Props
  imports Files Uaccess Tty_Props Inode_IO
begin

text \<open>
  Properties of open files: descriptors, pipes as first-in first-out byte streams.
\<close>

section \<open>Descriptors\<close>

lemma free_fds_first:
  assumes "free_fds s = d # ds"
  shows "d < NR_OPEN" "t_filp (cur_task s) ! d = None" "\<forall>e < d. t_filp (cur_task s) ! e \<noteq> None"
proof -
  have "d \<in> set (free_fds s)" using assms by simp
  then show "d < NR_OPEN" "t_filp (cur_task s) ! d = None" by (simp_all add: free_fds_def)
  have "sorted (free_fds s)" by (simp add: free_fds_def sorted_wrt_filter)
  then have "\<forall>x \<in> set (free_fds s). d \<le> x" using assms by auto
  moreover have "e \<in> set (free_fds s)" if "e < d" "t_filp (cur_task s) ! e = None" for e
    using that \<open>d < NR_OPEN\<close> by (simp add: free_fds_def)
  ultimately show "\<forall>e < d. t_filp (cur_task s) ! e \<noteq> None" by (metis not_less)
qed

text \<open>\<open>sys_dup\<close> gives the lowest unused descriptor, which then refers to the same open file, counted once more;
  closing the new descriptor takes everything back (its close-on-exec flag stays cleared).\<close>

theorem dup_close_roundtrip:
  assumes fd: "fd < NR_OPEN" "length (t_filp (cur_task s)) = NR_OPEN" "t_filp (cur_task s) ! fd = Some f"
    and f: "f < length (file_table s)" "f_count (file_table s ! f) \<noteq> 0" "f_count (file_table s ! f) \<noteq> - 1"
    and d: "free_fds s = d # ds"
  shows "\<exists>t. sys_dup fd s = Ok (int d) t \<and> (\<forall>e < d. t_filp (cur_task s) ! e \<noteq> None) \<and> t_filp (cur_task s) ! d = None \<and>
    t_filp (cur_task t) ! d = Some f \<and> f_count (file_table t ! f) = f_count (file_table s ! f) + 1 \<and>
    sys_close d t = Ok 0 (s\<lparr>tasks := (tasks s)(current s := (cur_task s)\<lparr>t_close_on_exec := t_close_on_exec (cur_task s) AND NOT (push_bit d 1)\<rparr>)\<rparr>)"
proof -
  note l = free_fds_first [OF d]
  let ?T = "cur_task s" and ?F = "file_table s ! f"
  let ?T1 = "?T\<lparr>t_close_on_exec := t_close_on_exec ?T AND NOT (push_bit d 1)\<rparr>"
  let ?t = "s\<lparr>tasks := (tasks s)(current s := ?T1\<lparr>t_filp := (t_filp ?T)[d := Some f]\<rparr>), file_table := (file_table s)[f := ?F\<lparr>f_count := f_count ?F + 1\<rparr>]\<rparr>"
  have dup: "sys_dup fd s = Ok (int d) ?t"
    using fd f(1) d l(1) by (simp add: sys_dup_def dupfd_def fd_file_def get_filp_def clear_close_on_exec_def set_filp_def kdefs cur_task_def)
  have c: "f_count ?F + 1 \<noteq> 0" using f(3) by (metis add.commute add_eq_0_iff)
  have r: "?T1\<lparr>t_filp := (t_filp ?T)[d := None]\<rparr> = ?T1" 
  proof -
    have "(t_filp ?T)[d := None] = t_filp ?T" using l(2) by (metis list_update_id)
    then show ?thesis by (intro task_struct.equality) simp_all
  qed
  have "sys_close d ?t = Ok 0 (s\<lparr>tasks := (tasks s)(current s := ?T1\<lparr>t_filp := (t_filp ?T)[d := None]\<rparr>)\<rparr>)"
    using fd(2) f(1,2) l(1,2) c
    by (simp add: sys_close_def get_filp_def clear_close_on_exec_def set_filp_def kdefs cur_task_def and.assoc list_update_same_conv)
  from this [unfolded r] show ?thesis using dup l f(1) fd(2) by (intro exI [of _ ?t]) (simp add: cur_task_def)
qed

definition demo_files :: kstate where
  "demo_files = kernel_image\<lparr>file_table := (zero_file\<lparr>f_count := 1\<rparr>) # replicate 63 zero_file,
     tasks := (\<lambda>_. zero_task\<lparr>t_filp := Some 0 # replicate 19 None\<rparr>)\<rparr>"

theorem dup_close_roundtrip_witness:
  "\<exists>t. sys_dup 0 demo_files = Ok 1 t \<and> t_filp (cur_task t) ! 1 = Some 0 \<and> (\<exists>u. sys_close 1 t = Ok 0 u)"
proof -
  have "free_fds demo_files = [1..<20]"
    by (simp add: free_fds_def demo_files_def cur_task_def upt_rec nth_Cons')
  then have "free_fds demo_files = 1 # [2..<20]" by (simp add: upt_rec)
  from dup_close_roundtrip [of 0 demo_files 0 1, OF _ _ _ _ _ _ this] show ?thesis
    by (auto simp: demo_files_def cur_task_def)
qed

section \<open>Pipes\<close>

text \<open>The bytes in a pipe, read off its page; \<open>i_size\<close> is the address of the page.\<close>

definition pipe_base :: "m_inode \<Rightarrow> ulong" where "pipe_base n = ucast (i_size n)"

definition pipe_ok :: "m_inode \<Rightarrow> bool" where
  "pipe_ok n \<longleftrightarrow> 2 \<le> length (i_zone n) \<and> unat (PIPE_HEAD n) < 4096 \<and> unat (PIPE_TAIL n) < 4096"

definition pipe_cont :: "kstate \<Rightarrow> m_inode \<Rightarrow> u8 list" where
  "pipe_cont s n = ring 4096 (\<lambda>k. pmem s (pipe_base n + word_of_nat k)) (unat (PIPE_HEAD n)) (unat (PIPE_TAIL n))"

lemma PIPE_SIZE_eq:
  assumes "pipe_ok n"
  shows "PIPE_SIZE n = int (length (pipe_cont s n))"
proof -
  have "int ((unat (PIPE_HEAD n) + 4096 - unat (PIPE_TAIL n)) mod 4096) = (uint (PIPE_HEAD n) + 4096 - uint (PIPE_TAIL n)) mod 4096"
    using assms by (simp add: pipe_ok_def zmod_int of_nat_diff)
  also have "\<dots> = PIPE_SIZE n" 
    using mod_add_self2 [of "uint (PIPE_HEAD n) - uint (PIPE_TAIL n)" 4096] by (simp add: PIPE_SIZE_def algebra_simps)
  finally show ?thesis by (simp add: pipe_cont_def ring_count_def)
qed

lemma pipe_bound: "length (pipe_cont s n) \<le> 4095"
  using ring_count_less [of 4096] by (simp add: pipe_cont_def less_Suc_eq_le [symmetric])

lemma word_range: "buf + word_of_int (m + int k) = (buf + word_of_int m) + word_of_nat k" for buf :: ulong
  by simp

lemma pipe_wait_ready:
  "i < length (inode_table s) \<Longrightarrow> ready (inode_table s ! i) \<Longrightarrow> pipe_wait i ready s = Ok False s"
  by (simp add: pipe_wait_def get_inode_def retk_def loopk_numeral)

lemma zone_index: "unat ((w + word_of_nat c) AND 0xFFF :: u16) = (unat w + c) mod 4096"
proof -
  have "unat ((w + word_of_nat c) AND 0xFFF) = unat (w + word_of_nat c) mod 4096"
    using unat_and_mask [of "w + word_of_nat c" 12] by (simp add: mask_eq_exp_minus_1)
  also have "\<dots> = (unat w + c) mod 65536 mod 4096"
    by (simp add: unat_word_ariths unsigned_of_nat take_bit_nat_def mod_simps)
  finally show ?thesis by (simp add: mod_mod_cancel)
qed

text \<open>One round of \<open>write_pipe\<close>.\<close>

lemma write_round:
  fixes buf :: ulong
  assumes i: "i < length (inode_table s)" and n: "n = inode_table s ! i" "pipe_ok n"
    and c: "0 < count" "length (pipe_cont s n) < 4095" "c = min (min (4096 - unat (PIPE_HEAD n)) (nat count)) (4095 - length (pipe_cont s n))"
    and d: "\<forall>k < c. direct_addr s (buf + word_of_int m + word_of_nat k)"
    and j: "disjoint_ranges (buf + word_of_int m) c (pipe_base n + word_of_nat (unat (PIPE_HEAD n))) c"
  defines "n' \<equiv> n\<lparr>i_zone := (i_zone n)[0 := (PIPE_HEAD n + word_of_nat c) AND 0xFFF]\<rparr>"
    and "bs \<equiv> load_bytes (buf + word_of_int m) c s"
  defines "t \<equiv> s\<lparr>inode_table := (inode_table s)[i := n'], pmem := stored (pipe_base n + word_of_nat (unat (PIPE_HEAD n))) bs (pmem s)\<rparr>"
  shows "write_pipe_round i buf (m, count) s = Ok (Inl (m + int c, count - int c)) t"
    "pipe_ok n'" "pipe_cont t n' = pipe_cont s n @ bs" "pipe_base n' = pipe_base n"
proof -
  let ?h = "unat (PIPE_HEAD n)" and ?s1 = "s\<lparr>inode_table := (inode_table s)[i := n']\<rparr>"
  have l: "length (i_zone n) \<ge> 2" "?h < 4096" "unat (PIPE_TAIL n) < 4096" using n(2) by (simp_all add: pipe_ok_def)
  have z: "i_zone n' ! 0 = (PIPE_HEAD n + word_of_nat c) AND 0xFFF" "i_zone n' ! 1 = i_zone n ! 1" "i_size n' = i_size n"
    using l(1) by (cases "i_zone n"; auto simp: n'_def)+
  then have hd: "unat (PIPE_HEAD n') = (?h + c) mod 4096" "PIPE_TAIL n' = PIPE_TAIL n" "pipe_base n' = pipe_base n"
    by (simp_all add: PIPE_HEAD_def PIPE_TAIL_def pipe_base_def zone_index)
  then show "pipe_base n' = pipe_base n" by simp
  show "pipe_ok n'" using hd l by (simp add: pipe_ok_def n'_def)
  have sz: "PIPE_SIZE n = int (length (pipe_cont s n))" by (rule PIPE_SIZE_eq [OF n(2)])
  then have chars: "min (min (4096 - uint (PIPE_HEAD n)) count) (4095 - PIPE_SIZE n) = int c"
    using l(2) c(1,2) unfolding c(3) of_nat_min by (simp add: of_nat_diff)
  have w: "pipe_wait i (\<lambda>n. 4095 - PIPE_SIZE n \<noteq> 0) s = Ok False s"
    using i c(2) sz n(1) by (intro pipe_wait_ready) auto
  have cle: "c \<le> 4096 - ?h" "c \<le> 4095 - length (pipe_cont s n)"
    unfolding c(3) by (auto intro: min.coboundedI1 min.coboundedI2)
  then have cb: "c < 2 ^ 64" by simp
  let ?body = "\<lambda>k. bindk (get_fs_byte (buf + word_of_int (m + int k))) (\<lambda>c. bindk (get_inode i) (\<lambda>n'.
        modk (\<lambda>s. s\<lparr>pmem := (pmem s)(ucast (i_size n') + word_of_int (uint (PIPE_HEAD n) + int k) := c)\<rparr>)))"
  have "eachk ?body [0..<c] ?s1 = Ok () (?s1\<lparr>pmem := stored (pipe_base n + word_of_nat ?h) (load_bytes (buf + word_of_int m) c ?s1) (pmem ?s1)\<rparr>)"
  proof (rule copy_loop [where n = c])
    fix k u M assume k: "k < c" "u = ?s1\<lparr>pmem := M\<rparr>"
    have "direct_addr u (buf + word_of_int (m + int k))" using d k by (simp add: direct_addr_def word_range del: of_int_add)
    then show "?body k u = Ok () (u\<lparr>pmem := M(pipe_base n + word_of_nat ?h + word_of_nat k := M (buf + word_of_int m + word_of_nat k))\<rparr>)"
      using k(2) i z(3) by (simp add: get_fs_byte_direct get_inode_def modk_def pipe_base_def algebra_simps)
  qed (use cb j in simp_all)
  then show "write_pipe_round i buf (m, count) s = Ok (Inl (m + int c, count - int c)) t"
    using c(1) w chars i n(1) by (simp add: write_pipe_round_def get_inode_def upd_inode_def Let_def retk_def n'_def bs_def t_def load_bytes_def PIPE_HEAD_def)
  have len: "length bs = c" "?h + c \<le> 4096" "ring_count 4096 ?h (unat (PIPE_TAIL n)) + c < 4096"
    using cle c(2) l(2) by (simp_all add: bs_def pipe_cont_def)
  have "pipe_cont t n' = ring 4096 (\<lambda>k. if ?h \<le> k \<and> k < ?h + length bs then bs ! (k - ?h) else pmem s (pipe_base n + word_of_nat k))
      ((?h + length bs) mod 4096) (unat (PIPE_TAIL n))"
    unfolding pipe_cont_def hd len(1)
  proof (rule ring_buf_cong)
    fix k :: nat assume "k < 4096"
    then show "pmem t (pipe_base n + word_of_nat k) = (if ?h \<le> k \<and> k < ?h + c then bs ! (k - ?h) else pmem s (pipe_base n + word_of_nat k))"
      using stored_block [of ?h bs 4096 k] len by (simp add: t_def)
  qed simp
  also have "\<dots> = pipe_cont s n @ bs"
    unfolding pipe_cont_def using ring_puts [OF l(2,3), of bs "\<lambda>k. pmem s (pipe_base n + word_of_nat k)"] len by simp
  finally show "pipe_cont t n' = pipe_cont s n @ bs" .
qed

text \<open>One round of \<open>read_pipe\<close>.\<close>

lemma read_round:
  fixes buf :: ulong
  assumes i: "i < length (inode_table s)" and n: "n = inode_table s ! i" "pipe_ok n"
    and c: "0 < count" "pipe_cont s n \<noteq> []" "c = min (min (4096 - unat (PIPE_TAIL n)) (nat count)) (length (pipe_cont s n))"
    and d: "\<forall>k < c. direct_addr s (buf + word_of_int m + word_of_nat k)"
    and j: "disjoint_ranges (buf + word_of_int m) c (pipe_base n) 4096"
  defines "n' \<equiv> n\<lparr>i_zone := (i_zone n)[1 := (PIPE_TAIL n + word_of_nat c) AND 0xFFF]\<rparr>"
  defines "t \<equiv> s\<lparr>inode_table := (inode_table s)[i := n'], pmem := stored (buf + word_of_int m) (take c (pipe_cont s n)) (pmem s)\<rparr>"
  shows "read_pipe_round i buf (m, count) s = Ok (Inl (m + int c, count - int c)) t"
    "pipe_ok n'" "pipe_cont t n' = drop c (pipe_cont s n)" "pipe_base n' = pipe_base n"
proof -
  let ?t = "unat (PIPE_TAIL n)" and ?s1 = "s\<lparr>inode_table := (inode_table s)[i := n']\<rparr>" and ?src = "pipe_base n + word_of_nat (unat (PIPE_TAIL n))"
  have l: "length (i_zone n) \<ge> 2" "unat (PIPE_HEAD n) < 4096" "?t < 4096" using n(2) by (simp_all add: pipe_ok_def)
  have z: "i_zone n' ! 1 = (PIPE_TAIL n + word_of_nat c) AND 0xFFF" "i_zone n' ! 0 = i_zone n ! 0" "i_size n' = i_size n"
    using l(1) by (simp_all add: n'_def)
  then have tl: "unat (PIPE_TAIL n') = (?t + c) mod 4096" "PIPE_HEAD n' = PIPE_HEAD n" "pipe_base n' = pipe_base n"
    by (simp_all add: PIPE_HEAD_def PIPE_TAIL_def pipe_base_def zone_index)
  then show "pipe_base n' = pipe_base n" by simp
  show "pipe_ok n'" using tl l by (simp add: pipe_ok_def n'_def)
  have cle: "c \<le> 4096 - ?t" "c \<le> length (pipe_cont s n)"
    unfolding c(3) by (auto intro: min.coboundedI1 min.coboundedI2)
  then have cb: "c < 2 ^ 64" "?t + c \<le> 4096" "c \<le> ring_count 4096 (unat (PIPE_HEAD n)) ?t"
    using l(3) by (simp_all add: pipe_cont_def)
  have sz: "PIPE_SIZE n = int (length (pipe_cont s n))" by (rule PIPE_SIZE_eq [OF n(2)])
  then have chars: "min (min (4096 - uint (PIPE_TAIL n)) count) (PIPE_SIZE n) = int c"
    using l(3) c(1) unfolding c(3) of_nat_min by (simp add: of_nat_diff)
  have w: "pipe_wait i (\<lambda>n. PIPE_SIZE n \<noteq> 0) s = Ok False s"
    using i c(2) sz n(1) by (intro pipe_wait_ready) auto
  note g = ring_gets [OF l(2,3) cb(2,3), of "\<lambda>k. pmem s (pipe_base n + word_of_nat k)"]
  have bytes: "load_bytes ?src c s = take c (pipe_cont s n)"
    using g by (simp add: pipe_cont_def load_bytes_def add.assoc)
  let ?body = "\<lambda>k. bindk (get_inode i) (\<lambda>n'. bindk (getk (\<lambda>s. pmem s (ucast (i_size n') + word_of_int (uint (PIPE_TAIL n) + int k)))) (\<lambda>c.
        put_fs_byte c (buf + word_of_int (m + int k))))"
  have "disjoint_ranges ?src c (buf + word_of_int m) c"
    unfolding disjoint_ranges_def
  proof (intro allI impI)
    fix x y assume "x < c" "y < c"
    then have "buf + word_of_int m + word_of_nat y \<noteq> pipe_base n + word_of_nat (?t + x)"
      using j [unfolded disjoint_ranges_def, rule_format, of y "?t + x"] cb(2) by linarith
    then show "?src + word_of_nat x \<noteq> buf + word_of_int m + word_of_nat y" by (metis add.assoc of_nat_add)
  qed
  then have "eachk ?body [0..<c] ?s1 = Ok () (?s1\<lparr>pmem := stored (buf + word_of_int m) (load_bytes ?src c ?s1) (pmem ?s1)\<rparr>)"
  proof (rule copy_loop [where n = c, rotated 2])
    fix k u M assume k: "k < c" "u = ?s1\<lparr>pmem := M\<rparr>"
    have "direct_addr u (buf + word_of_int (m + int k))" using d k by (simp add: direct_addr_def word_range del: of_int_add)
    moreover have "stored a [v] mm = mm(a := v)" for a v and mm :: "ulong \<Rightarrow> u8"
      using stored_snoc [of "[]" a v mm] by (simp add: stored_def [abs_def])
    ultimately show "?body k u = Ok () (u\<lparr>pmem := M(buf + word_of_int m + word_of_nat k := M (?src + word_of_nat k))\<rparr>)"
      using k(2) i z(3) by (simp add: put_fs_byte_direct store_bytes_stored get_inode_def getk_def pipe_base_def algebra_simps)
  qed (use cb in simp_all)
  then show "read_pipe_round i buf (m, count) s = Ok (Inl (m + int c, count - int c)) t"
    using c(1) w chars i n(1) bytes by (simp add: read_pipe_round_def get_inode_def upd_inode_def Let_def retk_def n'_def t_def load_bytes_def PIPE_TAIL_def)
  have "pipe_cont t n' = ring 4096 (\<lambda>k. pmem s (pipe_base n + word_of_nat k)) (unat (PIPE_HEAD n)) ((?t + c) mod 4096)"
    unfolding pipe_cont_def tl
  proof (rule ring_buf_cong)
    fix k :: nat assume "k < 4096"
    then show "pmem t (pipe_base n + word_of_nat k) = pmem s (pipe_base n + word_of_nat k)"
      using j cb(1) cle(2) by (auto simp: t_def disjoint_ranges_def intro!: stored_outside) metis
  qed simp
  then show "pipe_cont t n' = drop c (pipe_cont s n)" using g by (simp add: pipe_cont_def)
qed

lemma pipe_loop_end: "count \<le> 0 \<Longrightarrow> write_pipe_round i buf (m, count) s = Ok (Inr (m, False)) s"
  "count \<le> 0 \<Longrightarrow> read_pipe_round i buf (m, count) s = Ok (Inr (m, False)) s"
  by (simp_all add: write_pipe_round_def read_pipe_round_def retk_def)

lemma same_state: "s = s\<lparr>inode_table := (inode_table s)[i := inode_table s ! i], pmem := pmem s\<rparr>"
  by simp

text \<open>With room for all bytes \<open>write_pipe\<close> never waits: the loop appends them to the pipe.\<close>

lemma write_loop:
  fixes buf :: ulong
  assumes "i < length (inode_table s)" "n = inode_table s ! i" "pipe_ok n" "length (pipe_cont s n) + k \<le> 4095" "k < fuel"
    and "\<forall>x < k. direct_addr s (buf + word_of_int m + word_of_nat x)" "disjoint_ranges (buf + word_of_int m) k (pipe_base n) 4096"
  shows "\<exists>n' M. loopk fuel (write_pipe_round i buf) (m, int k) s = Ok (m + int k, False) (s\<lparr>inode_table := (inode_table s)[i := n'], pmem := M\<rparr>) \<and>
    pipe_ok n' \<and> pipe_base n' = pipe_base n \<and> pipe_cont (s\<lparr>pmem := M\<rparr>) n' = pipe_cont s n @ load_bytes (buf + word_of_int m) k s \<and>
    (\<forall>x. (\<forall>j < 4096. x \<noteq> pipe_base n + word_of_nat j) \<longrightarrow> M x = pmem s x)"
  using assms
proof (induction k arbitrary: s n m fuel rule: less_induct)
  case (less k)
  obtain f where f: "fuel = Suc f" using less.prems(5) by (cases fuel) auto
  show ?case
  proof (cases k)
    case 0
    then have "loopk fuel (write_pipe_round i buf) (m, int k) s = Ok (m + int k, False) (s\<lparr>inode_table := (inode_table s)[i := n], pmem := pmem s\<rparr>)"
      using less.prems(2) by (simp add: f pipe_loop_end retk_def)
    then show ?thesis using less.prems(2,3) 0 by (intro exI [of _ n] exI [of _ "pmem s"]) (simp add: load_bytes_def)
  next
    case (Suc k')
    let ?h = "unat (PIPE_HEAD n)"
    define c where "c = min (min (4096 - ?h) k) (4095 - length (pipe_cont s n))"
    have h: "?h < 4096" using less.prems(3) by (simp add: pipe_ok_def)
    have c: "0 < c" "c \<le> k" "?h + c \<le> 4096" using h Suc less.prems(4) by (auto simp: c_def)
    have dj: "disjoint_ranges (buf + word_of_int m) c (pipe_base n + word_of_nat ?h) c"
      using disjoint_ranges_part [OF less.prems(7), of 0 c ?h c] c by simp
    have r: "0 < int k" "length (pipe_cont s n) < 4095" "c = min (min (4096 - ?h) (nat (int k))) (4095 - length (pipe_cont s n))"
      "\<forall>x < c. direct_addr s (buf + word_of_int m + word_of_nat x)" using Suc less.prems(4,6) c by (simp_all add: c_def)
    note w = write_round [OF less.prems(1-3) r dj]
    let ?n1 = "n\<lparr>i_zone := (i_zone n)[0 := (PIPE_HEAD n + word_of_nat c) AND 0xFFF]\<rparr>" and ?bs = "load_bytes (buf + word_of_int m) c s"
    let ?M1 = "stored (pipe_base n + word_of_nat ?h) ?bs (pmem s)"
    let ?t = "s\<lparr>inode_table := (inode_table s)[i := ?n1], pmem := ?M1\<rparr>"
    have out: "?M1 x = pmem s x" if "\<forall>j < 4096. x \<noteq> pipe_base n + word_of_nat j" for x
    proof (intro stored_outside allI impI)
      fix j assume "j < length ?bs"
      then show "x \<noteq> pipe_base n + word_of_nat ?h + word_of_nat j" using that [rule_format, of "?h + j"] c(3) by (simp add: add.assoc)
    qed (use c in simp)
    have buf: "pmem ?t (buf + word_of_int m + word_of_nat x) = pmem s (buf + word_of_int m + word_of_nat x)" if "x < k" for x
      using that less.prems(7) out by (simp add: disjoint_ranges_def)
    have rest: "load_bytes (buf + word_of_int (m + int c)) (k - c) ?t = load_bytes (buf + word_of_int m + word_of_nat c) (k - c) s"
      using buf [of "c + x" for x] by (simp add: load_bytes_def add.assoc)
    have all: "load_bytes (buf + word_of_int m) k s = ?bs @ load_bytes (buf + word_of_int m + word_of_nat c) (k - c) s"
      using load_bytes_add [of "buf + word_of_int m" c "k - c" s] c(2) by simp
    have "\<exists>n' M. loopk f (write_pipe_round i buf) (m + int c, int (k - c)) ?t = Ok (m + int c + int (k - c), False) (?t\<lparr>inode_table := (inode_table ?t)[i := n'], pmem := M\<rparr>) \<and>
       pipe_ok n' \<and> pipe_base n' = pipe_base ?n1 \<and> pipe_cont (?t\<lparr>pmem := M\<rparr>) n' = pipe_cont ?t ?n1 @ load_bytes (buf + word_of_int (m + int c)) (k - c) ?t \<and>
       (\<forall>x. (\<forall>j < 4096. x \<noteq> pipe_base ?n1 + word_of_nat j) \<longrightarrow> M x = pmem ?t x)"
    proof (rule less.IH)
      show "k - c < k" "k - c < f" using c less.prems(5) by (simp_all add: f)
      show "i < length (inode_table ?t)" "?n1 = inode_table ?t ! i" using less.prems(1) by simp_all
      show "pipe_ok ?n1" by (rule w(2))
      show "length (pipe_cont ?t ?n1) + (k - c) \<le> 4095" using w(3) less.prems(4) c by simp
      show "\<forall>x < k - c. direct_addr ?t (buf + word_of_int (m + int c) + word_of_nat x)"
      proof (intro allI impI)
        fix x assume "x < k - c"
        then have "direct_addr s (buf + word_of_int m + word_of_nat (c + x))" using less.prems(6) [rule_format, of "c + x"] by simp
        then show "direct_addr ?t (buf + word_of_int (m + int c) + word_of_nat x)" by (simp add: direct_addr_def add.assoc)
      qed
      show "disjoint_ranges (buf + word_of_int (m + int c)) (k - c) (pipe_base ?n1) 4096"
        using disjoint_ranges_part [OF less.prems(7), of c "k - c" 0 4096] c by (simp add: w(4) add.assoc)
    qed
    then obtain n' M where IH: "loopk f (write_pipe_round i buf) (m + int c, int k - int c) ?t = Ok (m + int k, False) (s\<lparr>inode_table := (inode_table s)[i := n'], pmem := M\<rparr>)"
      "pipe_ok n'" "pipe_base n' = pipe_base n" "pipe_cont (s\<lparr>pmem := M\<rparr>) n' = pipe_cont s n @ load_bytes (buf + word_of_int m) k s"
      "\<forall>x. (\<forall>j < 4096. x \<noteq> pipe_base n + word_of_nat j) \<longrightarrow> M x = pmem s x"
      using w(3,4) out rest all c(2) by (auto simp: of_nat_diff pipe_cont_def)
    then show ?thesis using w(1) by (intro exI [of _ n'] exI [of _ M]) (simp add: f)
  qed
qed

lemma read_loop:
  fixes buf :: ulong
  assumes "i < length (inode_table s)" "n = inode_table s ! i" "pipe_ok n" "k \<le> length (pipe_cont s n)" "k < fuel"
    and "\<forall>x < k. direct_addr s (buf + word_of_int m + word_of_nat x)" "disjoint_ranges (buf + word_of_int m) k (pipe_base n) 4096"
  defines "M \<equiv> stored (buf + word_of_int m) (take k (pipe_cont s n)) (pmem s)"
  shows "\<exists>n'. loopk fuel (read_pipe_round i buf) (m, int k) s = Ok (m + int k, False) (s\<lparr>inode_table := (inode_table s)[i := n'], pmem := M\<rparr>) \<and>
    pipe_ok n' \<and> pipe_base n' = pipe_base n \<and> pipe_cont (s\<lparr>pmem := M\<rparr>) n' = drop k (pipe_cont s n)"
  using assms(1-7) unfolding M_def
proof (induction k arbitrary: s n m fuel rule: less_induct)
  case (less k)
  obtain f where f: "fuel = Suc f" using less.prems(5) by (cases fuel) auto
  show ?case
  proof (cases k)
    case 0
    have "stored a [] (pmem s) = pmem s" for a by (simp add: stored_def [abs_def])
    then have "loopk fuel (read_pipe_round i buf) (m, int k) s = Ok (m + int k, False) (s\<lparr>inode_table := (inode_table s)[i := n], pmem := stored (buf + word_of_int m) (take k (pipe_cont s n)) (pmem s)\<rparr>)"
      using less.prems(2) 0 by (simp add: f pipe_loop_end retk_def)
    then show ?thesis using less.prems(3) 0 \<open>\<And>a. stored a [] (pmem s) = pmem s\<close> by (intro exI [of _ n]) simp
  next
    case (Suc k')
    let ?t = "unat (PIPE_TAIL n)"
    define c where "c = min (min (4096 - ?t) k) (length (pipe_cont s n))"
    have t: "?t < 4096" using less.prems(3) by (simp add: pipe_ok_def)
    have c: "0 < c" "c \<le> k" "c \<le> 4096" using t Suc less.prems(4) by (auto simp: c_def)
    have ne: "pipe_cont s n \<noteq> []" using Suc less.prems(4) by auto
    have dj: "disjoint_ranges (buf + word_of_int m) c (pipe_base n) 4096"
      using disjoint_ranges_part [OF less.prems(7), of 0 c 0 4096] c by simp
    have r: "0 < int k" "c = min (min (4096 - ?t) (nat (int k))) (length (pipe_cont s n))" by (simp add: Suc) (simp add: c_def)
    have rd: "\<forall>x < c. direct_addr s (buf + word_of_int m + word_of_nat x)" using less.prems(6) c(2) by simp
    note w = read_round [OF less.prems(1-3) r(1) ne r(2) rd dj]
    let ?n1 = "n\<lparr>i_zone := (i_zone n)[1 := (PIPE_TAIL n + word_of_nat c) AND 0xFFF]\<rparr>"
    let ?M1 = "stored (buf + word_of_int m) (take c (pipe_cont s n)) (pmem s)"
    let ?u = "s\<lparr>inode_table := (inode_table s)[i := ?n1], pmem := ?M1\<rparr>"
    have all: "stored (buf + word_of_int (m + int c)) (take (k - c) (drop c (pipe_cont s n))) ?M1 = stored (buf + word_of_int m) (take k (pipe_cont s n)) (pmem s)"
    proof -
      have "take c (pipe_cont s n) @ take (k - c) (drop c (pipe_cont s n)) = take k (pipe_cont s n)"
        using take_add [of c "k - c" "pipe_cont s n"] c(2) by simp
      then show ?thesis
        using stored_append [of "take c (pipe_cont s n)" "take (k - c) (drop c (pipe_cont s n))" "buf + word_of_int m" "pmem s"] c less.prems(4) pipe_bound [of s n]
        by (simp add: add.assoc)
    qed
    have "\<exists>n'. loopk f (read_pipe_round i buf) (m + int c, int (k - c)) ?u = Ok (m + int c + int (k - c), False)
         (?u\<lparr>inode_table := (inode_table ?u)[i := n'], pmem := stored (buf + word_of_int (m + int c)) (take (k - c) (pipe_cont ?u ?n1)) (pmem ?u)\<rparr>) \<and>
       pipe_ok n' \<and> pipe_base n' = pipe_base ?n1 \<and>
       pipe_cont (?u\<lparr>pmem := stored (buf + word_of_int (m + int c)) (take (k - c) (pipe_cont ?u ?n1)) (pmem ?u)\<rparr>) n' = drop (k - c) (pipe_cont ?u ?n1)"
    proof (rule less.IH)
      show "k - c < k" "k - c < f" using c less.prems(5) by (simp_all add: f)
      show "i < length (inode_table ?u)" "?n1 = inode_table ?u ! i" using less.prems(1) by simp_all
      show "pipe_ok ?n1" by (rule w(2))
      show "k - c \<le> length (pipe_cont ?u ?n1)" using w(3) less.prems(4) by simp
      show "\<forall>x < k - c. direct_addr ?u (buf + word_of_int (m + int c) + word_of_nat x)"
      proof (intro allI impI)
        fix x assume "x < k - c"
        then have "direct_addr s (buf + word_of_int m + word_of_nat (c + x))" using less.prems(6) [rule_format, of "c + x"] by simp
        then show "direct_addr ?u (buf + word_of_int (m + int c) + word_of_nat x)" by (simp add: direct_addr_def add.assoc)
      qed
      show "disjoint_ranges (buf + word_of_int (m + int c)) (k - c) (pipe_base ?n1) 4096"
        using disjoint_ranges_part [OF less.prems(7), of c "k - c" 0 4096] c by (simp add: pipe_base_def add.assoc)
    qed
    then obtain n' where "loopk f (read_pipe_round i buf) (m + int c, int k - int c) ?u = Ok (m + int k, False)
         (s\<lparr>inode_table := (inode_table s)[i := n'], pmem := stored (buf + word_of_int m) (take k (pipe_cont s n)) (pmem s)\<rparr>)"
      "pipe_ok n'" "pipe_base n' = pipe_base n" "pipe_cont (s\<lparr>pmem := stored (buf + word_of_int m) (take k (pipe_cont s n)) (pmem s)\<rparr>) n' = drop k (pipe_cont s n)"
      using w(3,4) all c(2) by (auto simp: of_nat_diff pipe_cont_def)
    then show ?thesis using w(1) by (intro exI [of _ n']) (simp add: f)
  qed
qed

lemma pipe_cont_pmem: "pmem t = pmem s \<Longrightarrow> pipe_cont t n = pipe_cont s n"
  by (simp add: pipe_cont_def)

text \<open>C32: a pipe is a first-in first-out byte stream. A write that fits never blocks, returns the number of
  bytes and appends exactly these to the pipe; a read of at most as many bytes as are there never blocks,
  and delivers the oldest bytes in order and leaves the others, also when the ring wraps round in between.\<close>

theorem pipe_fifo:
  assumes i: "i < length (inode_table s)" "n = inode_table s ! i" "pipe_ok n"
    and w: "length (pipe_cont s n) + w \<le> 4095" "\<forall>x < w. direct_addr s (wbuf + word_of_nat x)" "disjoint_ranges wbuf w (pipe_base n) 4096"
    and r: "r \<le> length (pipe_cont s n) + w" "\<forall>x < r. direct_addr s (rbuf + word_of_nat x)" "disjoint_ranges rbuf r (pipe_base n) 4096"
  shows "\<exists>t u. write_pipe i wbuf (int w) s = Ok (int w) t \<and> pipe_cont t (inode_table t ! i) = pipe_cont s n @ load_bytes wbuf w s \<and>
    read_pipe i rbuf (int r) t = Ok (int r) u \<and> load_bytes rbuf r u = take r (pipe_cont s n @ load_bytes wbuf w s) \<and>
    pipe_cont u (inode_table u ! i) = drop r (pipe_cont s n @ load_bytes wbuf w s)"
proof -
  let ?all = "pipe_cont s n @ load_bytes wbuf w s"
  obtain n1 M where 1: "loopk (w + 1) (write_pipe_round i wbuf) (0, int w) s = Ok (int w, False) (s\<lparr>inode_table := (inode_table s)[i := n1], pmem := M\<rparr>)"
      "pipe_ok n1" "pipe_base n1 = pipe_base n" "pipe_cont (s\<lparr>pmem := M\<rparr>) n1 = ?all"
    using write_loop [OF i w(1), of "w + 1" wbuf 0] w(2,3) by auto
  obtain ts where t: "write_pipe i wbuf (int w) s = Ok (int w) (s\<lparr>inode_table := (inode_table s)[i := n1], pmem := M, tasks := ts\<rparr>)"
    using 1(1) wake_up_Ok [of "WInode i" "s\<lparr>inode_table := (inode_table s)[i := n1], pmem := M\<rparr>"] by (auto simp: write_pipe_def retk_def)
  let ?t = "s\<lparr>inode_table := (inode_table s)[i := n1], pmem := M, tasks := ts\<rparr>"
  have c: "pipe_cont ?t n1 = ?all" using 1(4) by (simp add: pipe_cont_def)
  have d: "direct_addr ?t x = direct_addr s x" for x by (simp add: direct_addr_def)
  obtain n2 where 2: "loopk (r + 1) (read_pipe_round i rbuf) (0, int r) ?t = Ok (int r, False) (?t\<lparr>inode_table := (inode_table ?t)[i := n2], pmem := stored rbuf (take r ?all) M\<rparr>)"
      "pipe_cont (?t\<lparr>pmem := stored rbuf (take r ?all) M\<rparr>) n2 = drop r ?all"
    using read_loop [of i ?t n1 r "r + 1" rbuf 0] i(1) 1(2,3) r by (auto simp: c d)
  let ?v = "?t\<lparr>inode_table := (inode_table ?t)[i := n2], pmem := stored rbuf (take r ?all) M\<rparr>"
  obtain ts' where u: "read_pipe i rbuf (int r) ?t = Ok (int r) (?v\<lparr>tasks := ts'\<rparr>)"
    using 2(1) wake_up_Ok [of "WInode i" ?v] by (auto simp: read_pipe_def retk_def)
  have lr: "length (take r ?all) = r" using r(1) by simp
  have "load_bytes rbuf r (?v\<lparr>tasks := ts'\<rparr>) = load_bytes rbuf r (store_bytes rbuf (take r ?all) ?t)"
    by (rule load_bytes_cong) (simp add: store_bytes_stored)
  then have "load_bytes rbuf r (?v\<lparr>tasks := ts'\<rparr>) = take r ?all"
    using load_store_bytes [of "take r ?all" rbuf ?t, unfolded lr] r(1) w(1) by simp
  moreover have "pipe_cont (?v\<lparr>tasks := ts'\<rparr>) n2 = drop r ?all"
    using 2(2) pipe_cont_pmem [of "?v\<lparr>tasks := ts'\<rparr>" "?t\<lparr>pmem := stored rbuf (take r ?all) M\<rparr>"] by simp
  ultimately show ?thesis using t u c i(1)
    by (intro exI [of _ ?t] exI [of _ "?v\<lparr>tasks := ts'\<rparr>"]) simp
qed

definition demo_pipe :: kstate where
  "demo_pipe = kernel_image\<lparr>inode_table := (zero_inode\<lparr>i_size := 0x80200000, i_pipe := 1, i_count := 2, i_zone := [4094, 4094, 0, 0, 0, 0, 0, 0, 0]\<rparr>) # replicate 31 zero_inode,
     pmem := (\<lambda>a. if a = 0x1000 then 65 else if a = 0x1001 then 66 else if a = 0x1002 then 67 else 0)\<rparr>"

theorem pipe_fifo_witness:
  "\<exists>t u. write_pipe 0 0x1000 3 demo_pipe = Ok 3 t \<and> read_pipe 0 0x2000 2 t = Ok 2 u \<and> load_bytes 0x2000 2 u = [65, 66]"
proof -
  have a: "unat ((0x1000 :: ulong) + word_of_nat k) = 0x1000 + k" "unat ((0x2000 :: ulong) + word_of_nat k) = 0x2000 + k"
      "unat ((0x80200000 :: ulong) + word_of_nat k) = 0x80200000 + k" if "k < 4096" for k
    using that by (simp_all add: unat_word_ariths unat_of_nat_small)
  let ?n = "inode_table demo_pipe ! 0"
  have n: "pipe_base ?n = 0x80200000" "pipe_cont demo_pipe ?n = []" "pipe_ok ?n"
    by (simp_all add: demo_pipe_def pipe_base_def pipe_cont_def pipe_ok_def PIPE_HEAD_def PIPE_TAIL_def)
  have b: "disjoint_ranges 0x1000 3 0x80200000 4096" "disjoint_ranges 0x2000 2 0x80200000 4096"
    using a by (auto simp: disjoint_ranges_def word_unat_eq_iff)
  have c: "\<forall>x < 3. direct_addr demo_pipe (0x1000 + word_of_nat x)" "\<forall>x < 2. direct_addr demo_pipe (0x2000 + word_of_nat x)"
    using a by (simp_all add: direct_addr_def word_less_nat_alt)
  have l: "load_bytes 0x1000 3 demo_pipe = [65, 66, 67]" by (simp add: load_bytes_def demo_pipe_def upt_rec)
  show ?thesis using pipe_fifo [of 0 demo_pipe ?n 3 "0x1000" 2 "0x2000"] n b c l by (auto simp: demo_pipe_def)
qed

end
