(* ===== verification/Open_Props.thy ===== *)
theory Open_Props
  imports Path_Props Files_Props
begin

text \<open>
  Opening and closing files by name: \<open>open_namei\<close> and \<open>sys_open\<close> over the walk through the directories, and \<open>sys_close\<close>.
\<close>

section \<open>Changes of the process and of the file table\<close>

text \<open>The representation of the file system and the walk do not depend on open files.\<close>

definition alike :: "kstate \<Rightarrow> kstate \<Rightarrow> bool" where
  "alike s u \<longleftrightarrow> (\<exists>T F. u = s\<lparr>tasks := (tasks s)(current s := T), file_table := F\<rparr> \<and>
     t_euid T = t_euid (cur_task s) \<and> t_egid T = t_egid (cur_task s) \<and> t_root T = t_root (cur_task s) \<and> t_pwd T = t_pwd (cur_task s))"

lemma alike_facts:
  assumes "alike s u"
  shows "usable u = usable s" "view u = view s" "rd_blocks u = rd_blocks s" "inode_table u = inode_table s" "last_inode u = last_inode s"
    "super_block u = super_block s" "pmem u = pmem s" "fs_is_kernel u = fs_is_kernel s" "may u d msk = may s d msk" "starts_at u b i num = starts_at s b i num"
    "CURRENT_TIME u = CURRENT_TIME s" "page_dir_table u = page_dir_table s"
proof -
  from assms obtain T F where u: "u = s\<lparr>tasks := (tasks s)(current s := T), file_table := F\<rparr>" and
    T: "t_euid T = t_euid (cur_task s)" "t_egid T = t_egid (cur_task s)" "t_root T = t_root (cur_task s)" "t_pwd T = t_pwd (cur_task s)"
    unfolding alike_def by blast
  show "usable u = usable s" "view u = view s" "rd_blocks u = rd_blocks s" by (rule cache_other, simp_all add: u)+
  show "inode_table u = inode_table s" "last_inode u = last_inode s" "super_block u = super_block s" "pmem u = pmem s"
    "fs_is_kernel u = fs_is_kernel s" "CURRENT_TIME u = CURRENT_TIME s" "page_dir_table u = page_dir_table s" by (simp_all add: u CURRENT_TIME_def)
  have "cur_task u = T" by (simp add: u cur_task_def)
  then show "may u d msk = may s d msk" "starts_at u b i num = starts_at s b i num"
    using T by (simp_all add: may_def Let_def starts_at_def in_slot_def u)
qed

lemma alike_disk:
  assumes "alike s u"
  shows "num_ok u num = num_ok s num" "fs_rel f u = fs_rel f s" "str_at u a bs = str_at s a bs"
    "walk u g m ws = walk s g m ws" "walk_ok u g m ws = walk_ok s g m ws"
proof -
  note a = alike_facts [OF assms]
  have so: "super_of u d = super_of s d" "supers_free u = supers_free s" for d using a by (simp_all add: super_of_def supers_free_def)
  then have rb: "root_sb u = root_sb s" using a by (simp add: root_sb_def)
  then show no: "num_ok u num = num_ok s num" for num using a by (simp add: num_ok_def inode_blk_def)
  have di: "disk_inode u num = disk_inode s num" for num using a rb by (simp add: disk_inode_def inode_blk_def)
  have "slot_ok f u n = slot_ok f s n" "in_slot u num i = in_slot s num i" for n num i using a no di by (simp_all add: slot_ok_def in_slot_def)
  then show "fs_rel f u = fs_rel f s" using a no di so by (simp add: fs_rel_def)
  show "str_at u a bs = str_at s a bs" using a by (simp add: str_at_def direct_addr_def)
  have "step_to u g m w = step_to s g m w" "node_ok u d = node_ok s d" for m w d
    using a by (simp_all add: step_to_def searchable_def entries_of_def node_ok_def)
  then show "walk u g m ws = walk s g m ws" "walk_ok u g m ws = walk_ok s g m ws"
    using no by (induction ws arbitrary: m) (simp_all split: option.split)
qed

lemma alike_drop:
  assumes "alike s u"
  shows "alike (drop_ref i s) (drop_ref i u)"
proof -
  from assms obtain T F where "u = s\<lparr>tasks := (tasks s)(current s := T), file_table := F\<rparr>"
    "t_euid T = t_euid (cur_task s) \<and> t_egid T = t_egid (cur_task s) \<and> t_root T = t_root (cur_task s) \<and> t_pwd T = t_pwd (cur_task s)"
    unfolding alike_def by blast
  then show ?thesis unfolding alike_def by (intro exI [of _ T] exI [of _ F]) (simp add: drop_ref_def cur_task_def)
qed

lemma alike_holding: "alike s u \<Longrightarrow> holding f u i num = holding f s i num"
  using alike_disk(2) [OF alike_drop] alike_facts(4) [of s u] by (simp add: holding_def in_slot_def)

section \<open>The access time\<close>

definition stamped :: "nat \<Rightarrow> kstate \<Rightarrow> kstate" where
  "stamped j s = s\<lparr>inode_table := (inode_table s)[j := (inode_table s ! j)\<lparr>i_atime := word_of_int (CURRENT_TIME s)\<rparr>]\<rparr>"

lemma stamped_law:
  assumes h: "holding f s j m"
  shows "holding f (stamped j s) j m" "calm s (stamped j s)"
proof -
  note d = holdingD [OF h] and h' = h [unfolded holding_def]
  show c: "calm s (stamped j s)" by (rule calm_eq [OF d(3)]) (simp add: stamped_def)
  have r: "fs_rel f (drop_ref j s)" using h' by simp
  let ?n = "(inode_table s ! j)\<lparr>i_atime := word_of_int (CURRENT_TIME s), i_count := i_count (inode_table s ! j) - 1\<rparr>"
  have dd: "drop_ref j (stamped j s) = (drop_ref j s)\<lparr>inode_table := (inode_table (drop_ref j s))[j := ?n]\<rparr>"
    using d(1) by (simp add: drop_ref_def stamped_def)
  have inj: "in_slot (drop_ref j s) (i_num ?n) j" using h' d(1) by (simp add: in_slot_def drop_ref_def)
  have ic: "i_count (inode_table (drop_ref j (stamped j s)) ! i) = i_count (inode_table (drop_ref j s) ! i)" for i
    unfolding dd using d(1) by (cases "i = j") (simp_all add: drop_ref_def)
  have "fs_rel f (drop_ref j (stamped j s))"
  proof (rule fs_rel_update [OF r])
    show "calm (drop_ref j s) (drop_ref j (stamped j s))" by (rule calm_eq [OF fs_relD(1) [OF r]]) (simp add: dd)
    show "inode_table (drop_ref j (stamped j s)) = (inode_table (drop_ref j s))[j := ?n]" by (simp add: dd)
    show "slot_ok f (drop_ref j s) ?n" using fs_relD(6) [OF r, of j] h' d(1) by (simp add: slot_ok_def d_inode_of_def drop_ref_def)
    show "\<forall>i < NR_INODE. i \<noteq> j \<longrightarrow> \<not> in_slot (drop_ref j s) (i_num ?n) i" if "uint (i_dev ?n) = RD"
      using fs_relD(8) [OF r _ _ inj] h' by blast
    show "\<exists>i < NR_INODE. i_count (inode_table (drop_ref j (stamped j s)) ! i) = 0"
      using fs_relD(7) [OF r] by (simp only: ic)
    show "last_inode (drop_ref j (stamped j s)) < NR_INODE" using fs_relD(5) [OF r] by (simp add: dd)
  qed (use h' d(1) in \<open>auto simp: in_slot_def drop_ref_def\<close>)
  then show "holding f (stamped j s) j m" using h' d(1) by (simp add: holding_def) (simp add: stamped_def in_slot_def)
qed

section \<open>open_namei\<close>

text \<open>Opening what exists, without truncation.\<close>

definition plain_flag :: "u32 \<Rightarrow> bool" where
  "plain_flag flag \<longleftrightarrow> flag AND O_CREAT = 0 \<and> flag AND O_EXCL = 0 \<and> flag AND O_TRUNC = 0"

definition admit :: "u32 \<Rightarrow> nat \<Rightarrow> (int \<times> nat option) K" where
  "admit flag i = bindk (get_inode i) (\<lambda>n.
     bindk (if S_ISDIR (i_mode n) \<and> flag AND O_ACCMODE \<noteq> 0 then retk False else permission i (ACC_MODE flag)) (\<lambda>ok.
     if \<not> ok then bindk (fail_with [i] EPERM) (\<lambda>e. retk (e, None)) else
     bindk (getk CURRENT_TIME) (\<lambda>now. bindk (upd_inode i (\<lambda>n. n\<lparr>i_atime := word_of_int now\<rparr>)) (\<lambda>_. retk (0, Some i)))))"

lemma open_namei_eq:
  assumes "plain_flag flag" "dir_namei a s = Ok (Some (dir, len, base)) t" "len \<noteq> 0"
  shows "open_namei a flag mode s = descend (retk (- ENOENT, None)) (admit flag) dir base len t"
  using assms unfolding open_namei_def descend_def admit_def plain_flag_def fail_with_def
  by (simp add: getk_def bindk_assoc whenk_def cong: option.case_cong if_cong)

text \<open>An inode that is no device and has links.\<close>

definition regular :: "d_inode \<Rightarrow> bool" where
  "regular d \<longleftrightarrow> S_ISREG (di_mode d) \<and> di_nlinks d \<noteq> 0"

lemma admit_law:
  assumes h: "holding f s j m" and n: "regular (f m)"
  shows "admit flag j s = (if may s (f m) (ACC_MODE flag) then Ok (0, Some j) (stamped j s) else Ok (- EPERM, None) (drop_ref j s))"
proof -
  note d = holdingD [OF h]
  have m: "i_mode (inode_table s ! j) = di_mode (f m)" unfolding d(6) [symmetric] by (simp add: d_inode_of_def)
  have k: "\<not> S_ISDIR (di_mode (f m))" "\<not> S_ISBLK (di_mode (f m))" "di_nlinks (f m) \<noteq> 0" using n by (auto simp: regular_def S_ISREG_def S_ISDIR_def S_ISBLK_def)
  show ?thesis using d(1) k m permission_law [OF h k(3), of "ACC_MODE flag"] iput_law [OF h k(2,3)]
    by (simp add: admit_def get_inode_def fail_with_def retk_def getk_def upd_inode_def stamped_def)
qed

lemma open_namei_law:
  assumes "fs_rel f s" "starts_at s absolute i num" "path_names ws" "walk_ok s f num ws"
    and "str_at s a (path_bytes absolute ws)" "length (path_bytes absolute ws) < PATH_FUEL"
    and flag: "plain_flag flag" and reg: "\<forall>m. walk s f num ws = Some m \<longrightarrow> regular (f m)"
  shows "\<exists>t. calm s t \<and> (case walk s f num ws of None \<Rightarrow> open_namei a flag mode s = Ok (- ENOENT, None) t \<and> fs_rel f t
    | Some m \<Rightarrow> if may s (f m) (ACC_MODE flag) then \<exists>j. open_namei a flag mode s = Ok (0, Some j) t \<and> holding f t j m
       else open_namei a flag mode s = Ok (- EPERM, None) t \<and> fs_rel f t)"
proof -
  have ne: "ws \<noteq> []" and pl: "plain_name (last ws)" using assms(3) by (simp_all add: path_names_def)
  obtain x t where x: "dir_namei a s = Ok x t" "calm s t" "case enter s f num ws of None \<Rightarrow> x = None \<and> fs_rel f t
     | Some m \<Rightarrow> \<exists>j b. x = Some (j, length (last ws), b) \<and> holding f t j m \<and> str_at t b (last ws)"
    using dir_namei_law [OF assms(1-6)] by blast
  show ?thesis
  proof (cases "enter s f num ws")
    case None
    then have "open_namei a flag mode s = Ok (- ENOENT, None) t" using x by (simp add: open_namei_def Let_def getk_def retk_def)
    then show ?thesis using x None enter_walk [OF ne, of s f num] by auto
  next
    case (Some d)
    then obtain j b where j: "x = Some (j, length (last ws), b)" "holding f t j d" "str_at t b (last ws @ [])" using x(3) by auto
    from last_step [OF ne assms(4) Some x(2)] have ok: "walk_ok t f d [last ws]" "searchable t (f d)" "step_to t f d (last ws) = walk s f num ws"
      by blast+
    have on: "open_namei a flag mode s = descend (retk (- ENOENT, None)) (admit flag) j b (length (last ws)) t"
      by (rule open_namei_eq [OF flag]) (use x(1) j(1) pl in \<open>simp_all add: plain_name_def\<close>)
    from descend_law [OF j(2) ok(1,2) pl j(3), of "retk (- ENOENT, None)" "admit flag"] obtain u where
      u: "calm t u" "case walk s f num ws of None \<Rightarrow> fs_rel f u \<and> open_namei a flag mode s = retk (- ENOENT, None) u
        | Some m \<Rightarrow> \<exists>k. holding f u k m \<and> open_namei a flag mode s = admit flag k u" unfolding on ok(3) by blast
    have su: "calm s u" by (rule calm_trans [OF x(2) u(1)])
    show ?thesis
    proof (cases "walk s f num ws")
      case None
      then show ?thesis using u su by (auto simp: retk_def)
    next
      case (Some m)
      then obtain k where k: "holding f u k m" "open_namei a flag mode s = admit flag k u" using u(2) by auto
      note al = admit_law [OF k(1), of flag] and sl = stamped_law [OF k(1)]
      have dr: "calm u (drop_ref k u)" "fs_rel f (drop_ref k u)" using k(1) calm_eq [OF holdingD(3) [OF k(1)], of "drop_ref k u"]
        by (simp_all add: holding_def drop_ref_def)
      show ?thesis
      proof (cases "may s (f m) (ACC_MODE flag)")
        case True
        then show ?thesis using k(2) al sl reg Some searchable_calm(1) [OF su] calm_trans [OF su] by (intro exI [of _ "stamped k u"]) simp
      next
        case False
        then show ?thesis using k(2) al dr reg Some searchable_calm(1) [OF su] calm_trans [OF su] by (intro exI [of _ "drop_ref k u"]) simp
      qed
    qed
  qed
qed

section \<open>sys_open and sys_close\<close>

text \<open>The state in which \<open>sys_open\<close> calls \<open>open_namei\<close>: descriptor \<open>fd\<close> refers to file \<open>x\<close>.\<close>

definition reserved :: "nat \<Rightarrow> nat \<Rightarrow> kstate \<Rightarrow> kstate" where
  "reserved fd x s = s\<lparr>tasks := (tasks s)(current s := (cur_task s)\<lparr>t_close_on_exec := t_close_on_exec (cur_task s) AND NOT (push_bit fd 1),
     t_filp := (t_filp (cur_task s))[fd := Some x]\<rparr>), file_table := (file_table s)[x := (file_table s ! x)\<lparr>f_count := f_count (file_table s ! x) + 1\<rparr>]\<rparr>"

lemma reserved_alike: "alike s (reserved fd x s)"
  unfolding alike_def reserved_def by (intro exI conjI, rule refl) simp_all

lemma reserved_facts: "t_filp (cur_task (reserved fd x s)) = (t_filp (cur_task s))[fd := Some x]" "length (file_table (reserved fd x s)) = length (file_table s)"
  by (simp_all add: reserved_def cur_task_def)

text \<open>What is left when the open failed, and the entry of the file table when it succeeded.\<close>

definition undone :: "nat \<Rightarrow> nat \<Rightarrow> kstate \<Rightarrow> kstate" where
  "undone fd x s = s\<lparr>tasks := (tasks s)(current s := (cur_task s)\<lparr>t_filp := (t_filp (cur_task s))[fd := None]\<rparr>),
     file_table := (file_table s)[x := (file_table s ! x)\<lparr>f_count := 0\<rparr>]\<rparr>"

lemma undone_alike: "alike s (undone fd x s)"
  unfolding alike_def undone_def by (intro exI conjI, rule refl) simp_all

definition opened :: "nat \<Rightarrow> nat \<Rightarrow> u32 \<Rightarrow> kstate \<Rightarrow> kstate" where
  "opened x j flag s = s\<lparr>file_table := (file_table s)[x := (file_table s ! x)\<lparr>f_mode := i_mode (inode_table s ! j), f_flags := ucast flag,
     f_count := 1, f_inode := Some j, f_pos := 0\<rparr>]\<rparr>"

lemma opened_alike: "alike s (opened x j flag s)"
  unfolding alike_def by (intro exI [of _ "cur_task s"] exI [of _ "file_table (opened x j flag s)"]) (simp add: opened_def cur_task_def)

lemma free_files_first: "free_files s = x # xs \<Longrightarrow> x < NR_FILE \<and> f_count (file_table s ! x) = 0"
  using filter_set [of "\<lambda>i. f_count (file_table s ! i) = 0" "[0..<NR_FILE]"] by (auto simp: free_files_def dest: arg_cong [of _ _ set])

lemma sys_open_eq:
  assumes fd: "free_fds s = fd # fds" and x: "free_files s = x # xs" "length (file_table s) = NR_FILE"
  shows "sys_open a flag mode s = bindk (open_namei a flag (mode AND 0x1FF AND NOT (ucast (t_umask (cur_task s))))) (\<lambda>(e, r). if e < 0 then open_undo fd x e else
     bindk (derefk r) (\<lambda>i. bindk (get_inode i) (\<lambda>n. bindk (getk cur_task) (\<lambda>t.
     let z = uint (i_zone n ! 0) in
     if S_ISCHR (i_mode n) \<and> MAJOR z = 5 \<and> t_tty t < 0 then bindk (iput (Some i)) (\<lambda>_. open_undo fd x (- EPERM)) else
     bindk (whenk (S_ISCHR (i_mode n) \<and> MAJOR z = 4 \<and> t_leader t \<noteq> 0 \<and> t_tty t < 0)
       (bindk (upd_cur (\<lambda>t. t\<lparr>t_tty := int (MINOR z)\<rparr>)) (\<lambda>_. upd_tty (MINOR z) (\<lambda>y. y\<lparr>tty_pgrp := t_pgrp t\<rparr>)))) (\<lambda>_.
     bindk (upd_file x (\<lambda>y. y\<lparr>f_mode := i_mode n, f_flags := ucast flag, f_count := 1, f_inode := Some i, f_pos := 0\<rparr>)) (\<lambda>_.
     retk (int fd))))))) (reserved fd x s)"
proof -
  let ?u = "s\<lparr>tasks := (tasks s)(current s := (cur_task s)\<lparr>t_close_on_exec := t_close_on_exec (cur_task s) AND NOT (push_bit fd 1)\<rparr>)\<rparr>"
  have c: "clear_close_on_exec fd s = Ok () ?u" by (simp add: clear_close_on_exec_def upd_cur_def)
  have f: "free_files ?u = x # xs" using x(1) by (simp add: free_files_def)
  have xl: "x < length (file_table s)" using free_files_first [OF x(1)] x(2) by simp
  have "set_filp fd (Some x) ?u = Ok () (?u\<lparr>tasks := (tasks ?u)(current s := (cur_task ?u)\<lparr>t_filp := (t_filp (cur_task ?u))[fd := Some x]\<rparr>)\<rparr>)"
    by (simp add: set_filp_def upd_cur_def)
  then show ?thesis unfolding sys_open_def using c f fd xl
    by (simp add: getk_def upd_file_def reserved_def cur_task_def)
qed

lemma close_law:
  assumes h: "holding f t j m" and n: "regular (f m)" and fd: "fd < NR_OPEN" "length (t_filp (cur_task t)) = NR_OPEN" "t_filp (cur_task t) ! fd = Some x"
    and x: "x < length (file_table t)" "f_count (file_table t ! x) = 1" "f_inode (file_table t ! x) = Some j"
  shows "\<exists>v. sys_close fd t = Ok 0 (drop_ref j v) \<and> alike t v \<and> t_filp (cur_task v) = (t_filp (cur_task t))[fd := None] \<and>
    file_table v = (file_table t)[x := (file_table t ! x)\<lparr>f_count := 0\<rparr>]"
proof -
  define v where "v = t\<lparr>tasks := (tasks t)(current t := (cur_task t)\<lparr>t_close_on_exec := t_close_on_exec (cur_task t) AND NOT (push_bit fd 1),
    t_filp := (t_filp (cur_task t))[fd := None]\<rparr>), file_table := (file_table t)[x := (file_table t ! x)\<lparr>f_count := 0\<rparr>]\<rparr>"
  have al: "alike t v" unfolding alike_def v_def by (intro exI conjI, rule refl) simp_all
  then have "iput (Some j) v = Ok () (drop_ref j v)"
    using iput_law [of f v j m] h n by (auto simp: alike_holding regular_def S_ISREG_def S_ISBLK_def)
  then have "sys_close fd t = Ok 0 (drop_ref j v)" using fd x
    by (simp add: sys_close_def get_filp_def clear_close_on_exec_def set_filp_def kdefs cur_task_def v_def)
  then show ?thesis using al by (auto simp: v_def cur_task_def)
qed

lemma sys_open_law:
  assumes fs: "fs_rel f s" "starts_at s absolute i num" "path_names ws" "walk_ok s f num ws"
    and p: "str_at s a (path_bytes absolute ws)" "length (path_bytes absolute ws) < PATH_FUEL"
    and fd: "free_fds s = fd # fds" "length (t_filp (cur_task s)) = NR_OPEN" and x: "free_files s = x # xs" "length (file_table s) = NR_FILE"
    and flag: "plain_flag flag" and reg: "\<forall>m. walk s f num ws = Some m \<longrightarrow> regular (f m)"
  shows "\<exists>r t v. sys_open a flag mode s = Ok r t \<and> calm (reserved fd x s) v \<and> alike v t \<and> length (file_table t) = NR_FILE \<and> (case walk s f num ws of
     Some m \<Rightarrow> if may s (f m) (ACC_MODE flag) then
         \<exists>j u. r = int fd \<and> t_filp (cur_task t) = (t_filp (cur_task s))[fd := Some x] \<and> holding f t j m \<and> f_inode (file_table t ! x) = Some j \<and>
           f_pos (file_table t ! x) = 0 \<and> f_mode (file_table t ! x) = di_mode (f m) \<and> f_count (file_table t ! x) = 1 \<and>
           sys_close fd t = Ok 0 u \<and> fs_rel f u \<and> t_filp (cur_task u) = t_filp (cur_task s) \<and> f_count (file_table u ! x) = 0
       else r = - EPERM \<and> fs_rel f t \<and> t_filp (cur_task t) = t_filp (cur_task s) \<and> f_count (file_table t ! x) = 0
   | None \<Rightarrow> r = - ENOENT \<and> fs_rel f t \<and> t_filp (cur_task t) = t_filp (cur_task s) \<and> f_count (file_table t ! x) = 0)"
proof -
  let ?u = "reserved fd x s" and ?mode = "mode AND 0x1FF AND NOT (ucast (t_umask (cur_task s)))"
  note au = reserved_alike [of s fd x] and ru = reserved_facts [of fd x s]
  note a1 = alike_facts [OF au] and a2 = alike_disk [OF au]
  have xl: "x < length (file_table s)" using free_files_first [OF x(1)] x(2) by simp
  have fn: "fd < NR_OPEN" "(t_filp (cur_task s))[fd := None] = t_filp (cur_task s)" using free_fds_first [OF fd(1)] by (simp, metis list_update_id)
  from open_namei_law [of f ?u absolute i num ws a flag ?mode, unfolded a1 a2, OF fs p flag reg] obtain t where ct: "calm ?u t" and
    on: "case walk s f num ws of None \<Rightarrow> open_namei a flag ?mode ?u = Ok (- ENOENT, None) t \<and> fs_rel f t
    | Some m \<Rightarrow> if may s (f m) (ACC_MODE flag) then \<exists>j. open_namei a flag ?mode ?u = Ok (0, Some j) t \<and> holding f t j m
       else open_namei a flag ?mode ?u = Ok (- EPERM, None) t \<and> fs_rel f t" by blast
  have ft: "file_table t = file_table ?u" "t_filp (cur_task t) = (t_filp (cur_task s))[fd := Some x]" "x < length (file_table t)"
    using calm_facts(9) [OF ct] calm_task(3) [OF ct] ru xl by simp_all
  have lf: "length (file_table (undone fd x t)) = NR_FILE" "length (file_table (opened x j flag t)) = NR_FILE" for j
    using ft ru x(2) by (simp_all add: undone_def opened_def)
  have un: "open_undo fd x e t = Ok e (undone fd x t)" for e
    using ft(3) by (simp add: open_undo_def set_filp_def put_fd_def upd_cur_def upd_file_def undone_def retk_def)
  have "t_filp (cur_task (undone fd x t)) = t_filp (cur_task s)" "f_count (file_table (undone fd x t) ! x) = 0"
    using ft fn by (simp_all add: undone_def cur_task_def)
  note ur = this alike_disk(2) [OF undone_alike] undone_alike [of t fd x]
  show ?thesis
  proof (cases "walk s f num ws")
    case None
    then have "sys_open a flag mode s = Ok (- ENOENT) (undone fd x t)" using on un sys_open_eq [OF fd(1) x, of a flag mode] by simp
    then show ?thesis using None on ur ct lf by (intro exI [of _ "- ENOENT"] exI [of _ "undone fd x t"] exI [of _ t]) simp
  next
    case (Some m)
    note wm = this
    show ?thesis
    proof (cases "may s (f m) (ACC_MODE flag)")
      case False
      then have "sys_open a flag mode s = Ok (- EPERM) (undone fd x t)" using Some on un sys_open_eq [OF fd(1) x, of a flag mode] by simp
      then show ?thesis using Some False on ur ct lf by (intro exI [of _ "- EPERM"] exI [of _ "undone fd x t"] exI [of _ t]) simp
    next
      case True
      then obtain j where j: "open_namei a flag ?mode ?u = Ok (0, Some j) t" "holding f t j m" using on Some by auto
      have rg: "regular (f m)" using reg Some by blast
      have md: "i_mode (inode_table t ! j) = di_mode (f m)" unfolding holdingD(6) [OF j(2), symmetric] by (simp add: d_inode_of_def)
      let ?t = "opened x j flag t"
      have "\<not> S_ISCHR (di_mode (f m))" using rg by (auto simp: regular_def S_ISREG_def S_ISCHR_def)
      then have so: "sys_open a flag mode s = Ok (int fd) ?t"
        using j(1) ft(3) md holdingD(1) [OF j(2)] sys_open_eq [OF fd(1) x, of a flag mode]
        by (simp add: derefk_def get_inode_def getk_def Let_def whenk_def upd_file_def opened_def retk_def)
      have ho: "holding f ?t j m" using j(2) alike_holding [OF opened_alike] by simp
      have fo: "t_filp (cur_task ?t) = (t_filp (cur_task s))[fd := Some x]" "f_inode (file_table ?t ! x) = Some j" "f_count (file_table ?t ! x) = 1"
        "x < length (file_table ?t)" "f_pos (file_table ?t ! x) = 0" "f_mode (file_table ?t ! x) = di_mode (f m)"
        using ft md by (simp_all add: opened_def cur_task_def)
      from close_law [OF ho rg fn(1) _ _ fo(4,3,2)] fo(1) fd(2) fn(1) obtain v where
        v: "sys_close fd ?t = Ok 0 (drop_ref j v)" "alike ?t v" "t_filp (cur_task v) = t_filp (cur_task s)" "f_count (file_table v ! x) = 0"
        using fn(2) fo(4) by auto
      have "holding f v j m" using ho alike_holding [OF v(2)] by simp
      then have "fs_rel f (drop_ref j v)" by (simp add: holding_def)
      then have "fs_rel f (drop_ref j v) \<and> t_filp (cur_task (drop_ref j v)) = t_filp (cur_task s) \<and> f_count (file_table (drop_ref j v) ! x) = 0"
        using v by (simp add: drop_ref_def cur_task_def)
      then show ?thesis using Some True so ho fo v(1) ct lf opened_alike [of t x j flag]
        by (intro exI [of _ "int fd"] exI [of _ "?t"] exI [of _ t]) auto
    qed
  qed
qed

text \<open>C12: opening a file by name. With a free descriptor and a free file, \<open>sys_open\<close> of a path that leads to a regular file
  which the mode bits let the process open returns the lowest free descriptor; it refers to a file at position 0 with the inode
  that the walk through the directories finds, on which the file holds a reference. A missing or unsearchable component
  gives \<open>-ENOENT\<close>, a file the process may not open \<open>-EPERM\<close>, and then descriptor, file and inode are free again. Closing
  the new descriptor frees all three. The inodes the kernel represents and the blocks of the disk stay as they were.\<close>

theorem sys_open_correct:
  assumes fs: "fs_rel f s" "starts_at s absolute i num" "path_names ws" "walk_ok s f num ws"
    and p: "str_at s a (path_bytes absolute ws)" "length (path_bytes absolute ws) < PATH_FUEL"
    and fd: "free_fds s = fd # fds" "length (t_filp (cur_task s)) = NR_OPEN" and x: "free_files s = x # xs" "length (file_table s) = NR_FILE"
    and flag: "plain_flag flag" and reg: "\<forall>m. walk s f num ws = Some m \<longrightarrow> regular (f m)"
  shows "\<exists>r t. sys_open a flag mode s = Ok r t \<and> (\<forall>n < rd_blocks s. view t n = view s n) \<and> (case walk s f num ws of
     Some m \<Rightarrow> if may s (f m) (ACC_MODE flag) then
         \<exists>j u. r = int fd \<and> t_filp (cur_task t) = (t_filp (cur_task s))[fd := Some x] \<and> holding f t j m \<and> f_inode (file_table t ! x) = Some j \<and>
           f_pos (file_table t ! x) = 0 \<and> f_mode (file_table t ! x) = di_mode (f m) \<and> f_count (file_table t ! x) = 1 \<and>
           sys_close fd t = Ok 0 u \<and> fs_rel f u \<and> t_filp (cur_task u) = t_filp (cur_task s) \<and> f_count (file_table u ! x) = 0
       else r = - EPERM \<and> fs_rel f t \<and> t_filp (cur_task t) = t_filp (cur_task s) \<and> f_count (file_table t ! x) = 0
   | None \<Rightarrow> r = - ENOENT \<and> fs_rel f t \<and> t_filp (cur_task t) = t_filp (cur_task s) \<and> f_count (file_table t ! x) = 0)"
proof -
  obtain r t v where t: "sys_open a flag mode s = Ok r t" "calm (reserved fd x s) v" "alike v t" and c: "case walk s f num ws of
     Some m \<Rightarrow> if may s (f m) (ACC_MODE flag) then
         \<exists>j u. r = int fd \<and> t_filp (cur_task t) = (t_filp (cur_task s))[fd := Some x] \<and> holding f t j m \<and> f_inode (file_table t ! x) = Some j \<and>
           f_pos (file_table t ! x) = 0 \<and> f_mode (file_table t ! x) = di_mode (f m) \<and> f_count (file_table t ! x) = 1 \<and>
           sys_close fd t = Ok 0 u \<and> fs_rel f u \<and> t_filp (cur_task u) = t_filp (cur_task s) \<and> f_count (file_table u ! x) = 0
       else r = - EPERM \<and> fs_rel f t \<and> t_filp (cur_task t) = t_filp (cur_task s) \<and> f_count (file_table t ! x) = 0
   | None \<Rightarrow> r = - ENOENT \<and> fs_rel f t \<and> t_filp (cur_task t) = t_filp (cur_task s) \<and> f_count (file_table t ! x) = 0"
    using sys_open_law [OF assms, of mode] by blast
  have "\<forall>n < rd_blocks s. view t n = view s n"
    using t(2) alike_facts(2,3) [OF t(3)] alike_facts(2,3) [OF reserved_alike [of s fd x]] by (simp add: calm_def)
  then show ?thesis using t(1) c by blast
qed

text \<open>The example with a regular file as inode \<open>0x707\<close>, in use by somebody else, and an empty descriptor table.\<close>

definition demo_reg :: m_inode where
  "demo_reg = demo_inode\<lparr>i_num := 0x707\<rparr>"

definition demo_open :: kstate where
  "demo_open = demo_path\<lparr>inode_table := demo_root # demo_reg # replicate 30 zero_inode, file_table := replicate 64 zero_file,
     tasks := (\<lambda>p. (tasks demo_path p)\<lparr>t_filp := replicate 20 None\<rparr>)\<rparr>"

definition demo_known :: "u16 \<Rightarrow> d_inode" where
  "demo_known num = (if num = 1 then d_inode_of demo_root else if num = 0x707 then d_inode_of demo_reg else disk_inode demo_open num)"

lemma demo_open_cache: "usable demo_open" "rd_blocks demo_open = 64" "view demo_open n = replicate 1024 7" "num_ok demo_open num = num_ok demo_path num"
  "super_of demo_open RD = Some 0" "supers_free demo_open" "str_at demo_open a bs = str_at demo_path a bs"
proof -
  note c = cache_other [of demo_open demo_path, simplified demo_open_def, simplified, folded demo_open_def]
  show "usable demo_open" and rb: "rd_blocks demo_open = 64" and "view demo_open n = replicate 1024 7" using c demo_path_cache by simp_all
  have sb: "super_block demo_open = super_block demo_path" by (simp add: demo_open_def)
  then have so: "super_of demo_open RD = super_of demo_path RD" "supers_free demo_open = supers_free demo_path" by (simp_all add: super_of_def supers_free_def)
  then show "super_of demo_open RD = Some 0" "supers_free demo_open" using demo_path_super by simp_all
  show "num_ok demo_open num = num_ok demo_path num" using so sb rb demo_path_cache(2) by (simp add: num_ok_def inode_blk_def root_sb_def)
  show "str_at demo_open a bs = str_at demo_path a bs" by (simp add: str_at_def direct_addr_def demo_open_def)
qed

lemma demo_open_slots: "i < NR_INODE \<Longrightarrow> inode_table demo_open ! i = (if i = 0 then demo_root else if i = 1 then demo_reg else zero_inode)"
  by (simp add: demo_open_def nth_Cons split: nat.split)

lemma demo_open_rel: "fs_rel demo_known demo_open"
proof -
  have sl: "in_slot demo_open num i \<longleftrightarrow> i = 0 \<and> num = 1 \<or> i = 1 \<and> num = 0x707" if "i < NR_INODE" for num i
    using that by (auto simp: in_slot_def demo_open_slots demo_root_def demo_reg_def demo_inode_def zero_inode_def)
  have "slot_ok demo_known demo_open (inode_table demo_open ! i)" if "i < NR_INODE" for i
    using that demo_path_nodes(3,4)
    by (auto simp: demo_open_slots slot_ok_zero) (auto simp: slot_ok_def demo_root_def demo_reg_def demo_inode_def zero_inode_def demo_open_cache demo_known_def)
  moreover have "\<exists>i < NR_INODE. i_count (inode_table demo_open ! i) = 0" by (intro exI [of _ 2]) (simp add: demo_open_slots zero_inode_def)
  moreover have "disk_inode demo_open num = demo_known num" if "\<forall>i < NR_INODE. \<not> in_slot demo_open num i" for num
    using that sl [of 0 num] sl [of 1 num] by (simp add: demo_known_def)
  ultimately show ?thesis using demo_open_cache demo_path_super sl by (auto simp: fs_rel_def) (auto simp: demo_open_def demo_path_def)
qed

lemma demo_open_facts: "may demo_open d k" "step_to demo_open demo_known 1 (replicate 14 7) = Some 0x707" "starts_at demo_open False 0 1"
  "walk_ok demo_open demo_known 1 [replicate 14 7]" "regular (demo_known 0x707)"
proof -
  have ct: "cur_task demo_open = (tasks demo_path (current demo_open))\<lparr>t_filp := replicate 20 None\<rparr>" by (simp add: cur_task_def demo_open_def)
  have ctp: "t_euid (tasks demo_path p) = 0" "t_root (tasks demo_path p) = Some 0" "t_pwd (tasks demo_path p) = Some 0" for p by (simp_all add: demo_path_def)
  have m: "demo_known 1 = d_inode_of demo_root" "di_zone (d_inode_of demo_root) ! 0 = 3" "di_size (d_inode_of demo_root) = 32" "di_mode (d_inode_of demo_root) = 0x41ED"
    by (simp_all add: demo_known_def demo_root_def demo_inode_def d_inode_of_def)
  show may: "may demo_open d k" for d k by (simp add: may_def Let_def ct ctp)
  show st: "step_to demo_open demo_known 1 (replicate 14 7) = Some 0x707"
    by (simp add: step_to_def searchable_def may m S_ISDIR_def entries_of_def demo_open_cache(3) demo_dir_map)
  show "starts_at demo_open False 0 1" using ct ctp
    by (simp add: starts_at_def in_slot_def demo_open_slots) (simp add: demo_root_def demo_inode_def)
  have "node_ok demo_open (demo_known 1)"
    by (simp add: node_ok_def demo_known_def demo_root_def demo_inode_def d_inode_of_def S_ISBLK_def S_ISDIR_def demo_open_cache(2))
  then show "walk_ok demo_open demo_known 1 [replicate 14 7]" using demo_path_nodes(3,4) by (simp add: st demo_open_cache)
  show "regular (demo_known 0x707)" by (simp add: regular_def demo_known_def demo_reg_def demo_inode_def d_inode_of_def S_ISREG_def)
qed

lemma demo_open_files: "free_fds demo_open = 0 # [1..<20]" "free_files demo_open = 0 # [1..<64]" "length (t_filp (cur_task demo_open)) = NR_OPEN"
  "length (file_table demo_open) = NR_FILE" "path_names [replicate 14 7]" "length (path_bytes False [replicate 14 7]) < PATH_FUEL"
  "str_at demo_open 0x3000 (path_bytes False [replicate 14 7])"
proof -
  have ct: "t_filp (cur_task demo_open) = replicate 20 None" by (simp add: cur_task_def demo_open_def)
  have "free_fds demo_open = [0..<20]" "free_files demo_open = [0..<64]"
    unfolding free_fds_def free_files_def by (rule filter_True, simp add: ct, rule filter_True, simp add: demo_open_def zero_file_def)
  then show "free_fds demo_open = 0 # [1..<20]" "free_files demo_open = 0 # [1..<64]" by (simp_all add: upt_conv_Cons)
  show "length (t_filp (cur_task demo_open)) = NR_OPEN" "length (file_table demo_open) = NR_FILE" by (simp add: ct, simp add: demo_open_def)
  show "path_names [replicate 14 7]" "length (path_bytes False [replicate 14 7]) < PATH_FUEL"
    using demo_path_names(1,2) by (simp_all add: path_names_def path_bytes_def)
  show "str_at demo_open 0x3000 (path_bytes False [replicate 14 7])" using demo_path_string(1) demo_open_cache(7) by simp
qed

theorem sys_open_correct_witness:
  "\<exists>t j u. sys_open 0x3000 0 0 demo_open = Ok 0 t \<and> f_inode (file_table t ! 0) = Some j \<and> i_num (inode_table t ! j) = 0x707 \<and> sys_close 0 t = Ok 0 u"
proof -
  note w = demo_open_facts and fl = demo_open_files
  from sys_open_correct [OF demo_open_rel w(3) fl(5) w(4) fl(7,6,1,3,2,4), of 0 0] obtain t j u where
    t: "sys_open 0x3000 0 0 demo_open = Ok 0 t" "holding demo_known t j 0x707" "f_inode (file_table t ! 0) = Some j" "sys_close 0 t = Ok 0 u"
    using w(1,2,5) by (auto simp: plain_flag_def)
  then show ?thesis by (auto simp: holding_def in_slot_def)
qed

end
