(* ===== verification/Read_Path.thy ===== *)
theory Read_Path
  imports Open_Props
begin

text \<open>
  From a path to the bytes of the file: \<open>sys_open\<close> followed by \<open>sys_read\<close>.
\<close>

section \<open>The buffer of the caller\<close>

text \<open>No page of the area is mapped write-protected, so \<open>verify_area\<close> has nothing to do.\<close>

definition own_pages :: "kstate \<Rightarrow> ulong \<Rightarrow> nat \<Rightarrow> bool" where
  "own_pages s buf c \<longleftrightarrow> (\<forall>k < (c + unat (buf AND 0xFFF) + 4095) div 4096.
     let a = (buf AND NOT 0xFFF) + 4096 * word_of_nat k; w = read64 (pmem s) (dir_slot a s);
         e = read64 (pmem s) (entry_slot (pte_common_ppn_to_addr w) a) in pte_v w \<longrightarrow> pte_v e \<longrightarrow> pte_w e)"

lemma eachk_same: "(\<And>x. x \<in> set xs \<Longrightarrow> f x s = Ok () s) \<Longrightarrow> eachk f xs s = Ok () s"
  by (induction xs) (simp_all add: retk_def)

lemma verify_area_law:
  assumes "own_pages s buf c"
  shows "verify_area buf (int c) s = Ok () s"
proof -
  let ?n = "(c + unat (buf AND 0xFFF) + 4095) div 4096"
  have "int c + uint (buf AND 0xFFF) + 4095 = int (c + unat (buf AND 0xFFF) + 4095)" by simp
  then have "nat ((int c + uint (buf AND 0xFFF) + 4095) div 4096) = ?n" using zdiv_int [of "c + unat (buf AND 0xFFF) + 4095" 4096] by simp
  moreover have "write_verify ((buf AND NOT 0xFFF) + 4096 * word_of_nat k) s = Ok () s" if "k < ?n" for k
    using assms that by (auto simp: own_pages_def write_verify_def getk_def get_pte_def retk_def whenk_def Let_def)
  ultimately show ?thesis unfolding verify_area_def Let_def by (intro eachk_same) simp
qed

lemma own_pages_cong: "pmem t = pmem s \<Longrightarrow> page_dir_table t = page_dir_table s \<Longrightarrow> own_pages t buf c = own_pages s buf c"
  by (simp add: own_pages_def dir_slot_def)

section \<open>The bytes of an inode\<close>

definition inode_bytes :: "kstate \<Rightarrow> d_inode \<Rightarrow> nat \<Rightarrow> nat \<Rightarrow> u8 list" where
  "inode_bytes s d p c = file_bytes s (set_d_inode d zero_inode) p c"

text \<open>The first \<open>N\<close> blocks of the file, and the tables that name them, are blocks of the disk.\<close>

definition blocks_ok :: "kstate \<Rightarrow> d_inode \<Rightarrow> nat \<Rightarrow> bool" where
  "blocks_ok s d N \<longleftrightarrow> N \<le> 7 + 512 + 512 * 512 \<and>
     (\<forall>b < N. path_ok s (set_d_inode d zero_inode) b \<and> file_block s (set_d_inode d zero_inode) b < rd_blocks s)"

lemma blocks_view:
  assumes b: "blocks_ok s d N" and t: "rd_blocks t = rd_blocks s" "\<forall>m < rd_blocks s. view t m = view s m" and z: "i_zone n = di_zone d"
  shows "k < N \<Longrightarrow> path_ok t n k \<and> file_block t n k = file_block s (set_d_inode d zero_inode) k \<and> file_block t n k < rd_blocks s"
    "p + c \<le> N * 1024 \<Longrightarrow> file_bytes t n p c = inode_bytes s d p c"
proof -
  let ?n = "set_d_inode d zero_inode"
  have zn: "i_zone n = i_zone ?n" using z by (simp add: set_d_inode_def)
  show one: "path_ok t n k \<and> file_block t n k = file_block s ?n k \<and> file_block t n k < rd_blocks s" if "k < N" for k
  proof -
    have po: "path_ok s ?n k" "file_block s ?n k < rd_blocks s" using b that by (simp_all add: blocks_ok_def)
    then have "\<forall>z \<in> tables s ?n k. z \<noteq> 0 \<longrightarrow> view t z = view s z" using t(2) by (simp add: path_ok_tables)
    from file_block_cong [OF this zn] po t(1) show ?thesis by (simp add: path_ok_tables)
  qed
  show "file_bytes t n p c = inode_bytes s d p c" if "p + c \<le> N * 1024"
    unfolding file_bytes_def inode_bytes_def
  proof (rule map_cong [OF refl])
    fix q assume "q \<in> set [p..<p + c]"
    then have "q div 1024 < N" using that by (simp add: less_mult_imp_div_less)
    from one [OF this] show "file_byte t n q = file_byte s ?n q" using t(2) by (auto simp: file_byte_def Let_def)
  qed
qed

section \<open>sys_read\<close>

lemma sys_read_law:
  assumes h: "holding f t j m" and n: "regular (f m)" and fd: "fd < NR_OPEN" "length (t_filp (cur_task t)) = NR_OPEN" "t_filp (cur_task t) ! fd = Some x"
    and x: "x < length (file_table t)" "f_inode (file_table t ! x) = Some j" "f_pos (file_table t ! x) = int p"
    and l: "l = min c (unat (di_size (f m)) - p)" "0 < l" "p + l \<le> N * 1024" and r: "readable t j N"
    and b: "own_pages t buf c" "\<forall>k < l. direct_addr t (buf + word_of_nat k)"
  shows "\<exists>u. sys_read fd buf (int c) t = Ok (int l) u \<and> load_bytes buf l u = file_bytes t (inode_table t ! j) p l \<and>
    f_pos (file_table u ! x) = int (p + l) \<and> (\<forall>m < rd_blocks t. view u m = view t m)"
proof -
  note d = holdingD [OF h]
  have m: "i_mode (inode_table t ! j) = di_mode (f m)" "i_size (inode_table t ! j) = di_size (f m)" unfolding d(6) [symmetric] by (simp_all add: d_inode_of_def)
  have k: "S_ISREG (di_mode (f m))" "\<not> S_ISCHR (di_mode (f m))" "\<not> S_ISBLK (di_mode (f m))"
    using n by (auto simp: regular_def S_ISREG_def S_ISCHR_def S_ISBLK_def)
  define sz where "sz = unat (di_size (f m))"
  have u: "uint (di_size (f m)) = int sz" by (simp add: sz_def)
  have N: "N \<le> 262663" using r by (simp add: readable_def)
  have c1: "c_int (uint (di_size (f m)) - int p) = int l" if "uint (di_size (f m)) < int c + int p"
  proof -
    have "l = sz - p" "p \<le> sz" using l(1,2) that by (auto simp: u simp flip: sz_def)
    then have "int sz - int p = int l" by (simp add: of_nat_diff)
    moreover have "c_int (int l) = int l" using l(3) N by (intro c_int_id) simp_all
    ultimately show ?thesis by (simp add: u)
  qed
  have c2: "c = l" if "\<not> uint (di_size (f m)) < int c + int p" using l(1) that by (simp add: u flip: sz_def)
  have "0 < c" using l by simp
  have "sys_read fd buf (int c) t = file_read j x buf (int l) t"
    using fd x l(2) \<open>0 < c\<close> d(1,7) k m c1 c2 verify_area_law [OF b(1)]
    by (simp add: sys_read_def fd_file_def get_filp_def getk_def nthk_def retk_def get_file_def derefk_def get_inode_def Let_def)
  with file_read_law [OF r refl x(1,3) l(3,2) b(2)] show ?thesis by auto
qed



end
