(* ===== verification/Proc_Props.thy ===== *)
theory Proc_Props
  imports Procs
begin

text \<open>
  Properties of processes: process ids, a failing \<open>fork\<close>, user and group ids, signal handlers.
\<close>

section \<open>Process ids\<close>

abbreviation "PID_MAX \<equiv> (2147483647 :: int)"

lemma next_pid_eq: "0 \<le> n \<Longrightarrow> n \<le> PID_MAX \<Longrightarrow> next_pid n = n mod PID_MAX + 1"
proof -
  assume n: "0 \<le> n" "n \<le> PID_MAX"
  show ?thesis
  proof (cases "n = PID_MAX")
    case True
    have "c_int 2147483648 = - 2147483648" by (simp add: c_int_def)
    then show ?thesis using True by (simp add: next_pid_def)
  next
    case False
    then have "c_int (n + 1) = n + 1" using n by (intro c_int_id) simp_all
    then show ?thesis using n False by (simp add: next_pid_def)
  qed
qed

text \<open>The candidates \<open>find_empty_process\<close> tries, in order.\<close>

definition pid_candidate :: "int \<Rightarrow> nat \<Rightarrow> int" where
  "pid_candidate n k = (n + int k) mod PID_MAX + 1"

lemma pid_candidate_range: "1 \<le> pid_candidate n k" "pid_candidate n k \<le> PID_MAX"
  using pos_mod_bound [of PID_MAX "n + int k"] by (simp_all add: pid_candidate_def)

lemma pid_candidate_0: "0 \<le> n \<Longrightarrow> n \<le> PID_MAX \<Longrightarrow> next_pid n = pid_candidate n 0"
  by (simp add: next_pid_eq pid_candidate_def)

lemma pid_candidate_Suc: "pid_candidate (pid_candidate n 0) k = pid_candidate n (Suc k)"
proof -
  have "(n mod PID_MAX + 1 + int k) mod PID_MAX = (n + 1 + int k) mod PID_MAX"
    by (metis (no_types) add.assoc mod_add_left_eq)
  then show ?thesis by (simp add: pid_candidate_def algebra_simps)
qed

lemma pid_candidate_inj: "inj_on (pid_candidate n) {..<PID_FUEL}"
proof (rule inj_onI)
  fix i j assume ij: "i \<in> {..<PID_FUEL}" "j \<in> {..<PID_FUEL}" "pid_candidate n i = pid_candidate n j"
  then have "(n + int i) mod PID_MAX = (n + int j) mod PID_MAX" by (simp add: pid_candidate_def)
  then have "PID_MAX dvd int i - int j" by (metis add_diff_cancel_left mod_eq_dvd_iff)
  then have "int i - int j = 0" using dvd_imp_le_int [of "int i - int j" PID_MAX] ij(1,2) by (cases "i = j") auto
  then show "i = j" by simp
qed

definition pids_used :: "kstate \<Rightarrow> int set" where
  "pids_used s = {t_pid (tasks s (task s ! i)) | i. i < NR_TASKS \<and> i < length (task s) \<and> task s ! i \<noteq> 0}"

lemma find_pid_iff: "find_pid s n \<noteq> None \<longleftrightarrow> n \<in> pids_used s"
  by (auto simp: find_pid_def find_None_iff pids_used_def)

lemma find_pid_last: "find_pid (s\<lparr>last_pid := x\<rparr>) n = find_pid s n"
  by (simp add: find_pid_def)

lemma card_pids_used: "card (pids_used s) < PID_FUEL" "finite (pids_used s)"
proof -
  have sub: "pids_used s \<subseteq> (\<lambda>i. t_pid (tasks s (task s ! i))) ` {..<NR_TASKS}" by (auto simp: pids_used_def)
  then show "finite (pids_used s)" using finite_subset by blast
  have "card (pids_used s) \<le> card {..<NR_TASKS}" by (rule surj_card_le [OF _ sub]) simp
  then show "card (pids_used s) < PID_FUEL" by simp
qed

text \<open>Some candidate is not in use: there are more candidates than tasks.\<close>

lemma pid_candidate_free: "\<exists>k < PID_FUEL. pid_candidate n k \<notin> pids_used s"
proof (rule ccontr)
  assume "\<not> ?thesis"
  then have "pid_candidate n ` {..<PID_FUEL} \<subseteq> pids_used s" by auto
  from card_mono [OF card_pids_used(2) this] have "PID_FUEL \<le> card (pids_used s)" by (simp add: card_image [OF pid_candidate_inj])
  then show False using card_pids_used(1) [of s] by simp
qed

lemma pid_round_eq: "pid_round () (s\<lparr>last_pid := n\<rparr>) = Ok (if next_pid n \<in> pids_used s then Inl () else Inr ()) (s\<lparr>last_pid := next_pid n\<rparr>)"
  using find_pid_iff [of s "next_pid n"] by (simp add: pid_round_def modk_def getk_def retk_def find_pid_last)

lemma pid_loop:
  assumes "pid_candidate n k \<notin> pids_used s" "k < m" "0 \<le> n" "n \<le> PID_MAX"
  shows "\<exists>j. loopk m pid_round () (s\<lparr>last_pid := n\<rparr>) = Ok () (s\<lparr>last_pid := pid_candidate n j\<rparr>) \<and> pid_candidate n j \<notin> pids_used s"
  using assms
proof (induction m arbitrary: n k)
  case (Suc m)
  have nx: "next_pid n = pid_candidate n 0" using Suc.prems by (simp add: pid_candidate_0)
  show ?case
  proof (cases "pid_candidate n 0 \<in> pids_used s")
    case False
    then show ?thesis using nx by (intro exI [of _ 0]) (simp add: pid_round_eq retk_def)
  next
    case True
    then have "k \<noteq> 0" using Suc.prems(1) by metis
    then obtain k' where k: "k = Suc k'" using not0_implies_Suc by blast
    have "\<exists>j. loopk m pid_round () (s\<lparr>last_pid := pid_candidate n 0\<rparr>) = Ok () (s\<lparr>last_pid := pid_candidate (pid_candidate n 0) j\<rparr>) \<and>
      pid_candidate (pid_candidate n 0) j \<notin> pids_used s"
      by (rule Suc.IH [of _ k']) (use Suc.prems k pid_candidate_range [of n 0] in \<open>simp_all add: pid_candidate_Suc\<close>)
    then show ?thesis using nx True by (auto simp: pid_candidate_Suc pid_round_eq)
  qed
qed simp

lemma first_empty:
  assumes "length tk = NR_TASKS"
  defines "r \<equiv> List.find (\<lambda>i. i < length tk \<and> tk ! i = (0 :: ulong)) [1..<NR_TASKS]"
  shows "if \<exists>i \<in> {1..<NR_TASKS}. tk ! i = 0 then \<exists>i. r = Some i \<and> 1 \<le> i \<and> i < NR_TASKS \<and> tk ! i = 0 \<and> (\<forall>k \<in> {1..<i}. tk ! k \<noteq> 0) else r = None"
proof (cases r)
  case None
  then show ?thesis using assms(1) unfolding r_def find_None_iff by auto
next
  case (Some i)
  then obtain j where j: "j < length [1..<NR_TASKS]" "tk ! ([1..<NR_TASKS] ! j) = 0" "i = [1..<NR_TASKS] ! j"
    "\<forall>l < j. \<not> ([1..<NR_TASKS] ! l < length tk \<and> tk ! ([1..<NR_TASKS] ! l) = 0)" unfolding r_def find_Some_iff by blast
  have i: "i = Suc j" "j < 63" using j(1,3) by simp_all
  have "tk ! k \<noteq> 0" if "k \<in> {1..<i}" for k using j(4) [rule_format, of "k - 1"] that i assms(1) by (cases k) auto
  then show ?thesis using Some i j(2,3) by auto
qed

text \<open>C21: \<open>find_empty_process\<close> terminates (after at most 65 increments, also when the counter wraps round) with a
  positive process id that no task has, changes nothing but \<open>last_pid\<close>, and returns the lowest empty slot
  from 1 on, or \<open>-EAGAIN\<close> only when there is none.\<close>

theorem find_empty_process_fresh:
  assumes "0 \<le> last_pid s" "last_pid s \<le> PID_MAX" "length (task s) = NR_TASKS"
  shows "\<exists>r n. find_empty_process s = Ok r (s\<lparr>last_pid := n\<rparr>) \<and> 1 \<le> n \<and> n \<le> PID_MAX \<and> n \<notin> pids_used s \<and>
    (if \<exists>i \<in> {1..<NR_TASKS}. task s ! i = 0 then 1 \<le> r \<and> r < int NR_TASKS \<and> task s ! nat r = 0 \<and> (\<forall>i \<in> {1..<nat r}. task s ! i \<noteq> 0)
     else r = - EAGAIN)"
proof -
  obtain k where "k < PID_FUEL" "pid_candidate (last_pid s) k \<notin> pids_used s" using pid_candidate_free by blast
  from pid_loop [OF this(2,1) assms(1,2)] obtain j where
    j: "loopk PID_FUEL pid_round () s = Ok () (s\<lparr>last_pid := pid_candidate (last_pid s) j\<rparr>)" "pid_candidate (last_pid s) j \<notin> pids_used s" by auto
  let ?r = "List.find (\<lambda>i. i < length (task s) \<and> task s ! i = 0) [1..<NR_TASKS]" and ?n = "pid_candidate (last_pid s) j"
  have r: "find_empty_process s = Ok (case ?r of Some i \<Rightarrow> int i | None \<Rightarrow> - EAGAIN) (s\<lparr>last_pid := ?n\<rparr>)"
    using j(1) by (simp add: find_empty_process_def getk_def)
  note n = pid_candidate_range [of "last_pid s" j] j(2)
  note f = first_empty [OF assms(3)]
  show ?thesis
  proof (cases "\<exists>i \<in> {1..<NR_TASKS}. task s ! i = 0")
    case True
    then obtain i where i: "?r = Some i" "1 \<le> i" "i < NR_TASKS" "task s ! i = 0" "\<forall>k \<in> {1..<i}. task s ! k \<noteq> 0" using f by auto
    show ?thesis unfolding if_P [OF True]
      by (rule exI [of _ "int i"], rule exI [of _ ?n]) (use r n i in simp)
  next
    case False
    then have "?r = None" using f by simp
    then show ?thesis unfolding if_not_P [OF False] using r n by (intro exI [of _ "- EAGAIN"] exI [of _ ?n]) simp
  qed
qed

theorem find_empty_process_fresh_witness:
  "\<exists>r n. find_empty_process (kernel_image\<lparr>last_pid := PID_MAX\<rparr>) = Ok r (kernel_image\<lparr>last_pid := n\<rparr>) \<and> 1 \<le> n \<and> r \<noteq> - EAGAIN"
proof -
  have "length (task (kernel_image\<lparr>last_pid := PID_MAX\<rparr>)) = NR_TASKS" "task kernel_image ! 1 = 0" by (simp_all add: kernel_image_def)
  moreover have "\<exists>i \<in> {1..<NR_TASKS}. task (kernel_image\<lparr>last_pid := PID_MAX\<rparr>) ! i = 0"
    by (rule bexI [of _ 1]) (simp_all add: kernel_image_def)
  ultimately show ?thesis using find_empty_process_fresh [of "kernel_image\<lparr>last_pid := PID_MAX\<rparr>"] by auto
qed

section \<open>Fork without a kernel stack\<close>

lemma free_pages_run:
  assumes "\<forall>k. lo \<le> k \<and> k < lo + n \<longrightarrow> mem_map s ! k \<noteq> 0 \<and> page_addr k < HIGH_MEMORY s" "lo + n \<le> PAGING_PAGES" "mm_ok s"
  shows "free_pages (page_addr lo) n s = Ok () (s\<lparr>mem_map := fold (\<lambda>k m. m[k := m ! k - 1]) [lo..<lo + n] (mem_map s)\<rparr>)"
  using assms
proof (induction n arbitrary: lo s)
  case (Suc n)
  have lo: "lo < PAGING_PAGES" "mem_map s ! lo \<noteq> 0" "page_addr lo < HIGH_MEMORY s" using Suc.prems by auto
  let ?t = "s\<lparr>mem_map := (mem_map s)[lo := mem_map s ! lo - 1]\<rparr>"
  have "\<not> HIGH_MEMORY s \<le> page_addr lo" "\<not> page_addr lo < LOW_MEM" using lo(1,3) page_addr_ge [of lo] by (simp_all only: not_le not_less)
  then have "free_page (page_addr lo) s = Ok () ?t" using lo Suc.prems(3) by (simp add: free_page_def Let_def mm_ok_def)
  moreover have "page_addr lo + 4096 = page_addr (Suc lo)"
    by (simp add: page_addr_def push_bit_eq_mult algebra_simps)
  moreover have "free_pages (page_addr (Suc lo)) n ?t = Ok () (?t\<lparr>mem_map := fold (\<lambda>k m. m[k := m ! k - 1]) [Suc lo..<Suc lo + n] (mem_map ?t)\<rparr>)"
    by (rule Suc.IH) (use Suc.prems in \<open>auto simp: mm_ok_def nth_list_update\<close>)
  moreover have "[lo..<lo + Suc n] = lo # [Suc lo..<Suc lo + n]" by (simp add: upt_conv_Cons)
  ultimately show ?case by simp
qed (simp add: retk_def)

lemma length_fold_decrement: "length (fold (\<lambda>k m. m[k := m ! k - 1]) xs m) = length m" for m :: "u8 list"
  by (induction xs arbitrary: m) simp_all

lemma nth_fold_decrement:
  "k < length m \<Longrightarrow> fold (\<lambda>k m. m[k := m ! k - 1]) [lo..<lo + n] m ! k = (if lo \<le> k \<and> k < lo + n then m ! k - 1 else m ! k)" for m :: "u8 list"
proof (induction n)
  case (Suc n)
  then show ?case by (cases "k = lo + n") (auto simp: length_fold_decrement)
qed simp

lemma decrement_mark_used:
  assumes "free_run mm lo n" "length mm = PAGING_PAGES"
  shows "fold (\<lambda>k m. m[k := m ! k - 1]) [lo..<lo + n] (mark_used lo n mm) = mm"
  by (rule nth_equalityI) (use assms in \<open>auto simp: length_fold_decrement nth_fold_decrement mark_used_nth free_run_def\<close>)

text \<open>When there is no room for the child's kernel stack, \<open>copy_process\<close> returns \<open>-EAGAIN\<close> and gives the pages of
  the task structure back, but leaves the task table pointing at them: the slot is still taken, by a task
  in pages that are free.\<close>

theorem copy_process_dangling:
  assumes "mm_ok s" "free_run (mem_map s) l 5" "\<And>l. \<not> free_run (mem_map s) l STACK_PAGES" "\<forall>k < PAGING_PAGES. mem_map s ! k = 0 \<longrightarrow> page_addr k < HIGH_MEMORY s"
    and "nr < length (task s)"
  shows "\<exists>lo t. copy_process fork_exit nr s = Ok (- EAGAIN) t \<and> task t ! nr = page_addr lo \<and> page_addr lo \<noteq> 0 \<and>
    mem_map t = mem_map s \<and> free_run (mem_map t) lo 5"
proof -
  obtain lo where lo: "free_run (mem_map s) lo 5" "get_free_pages 5 s = Ok (page_addr lo) (s\<lparr>mem_map := mark_used lo 5 (mem_map s),
         pmem := memset0 (page_addr lo) (4096 * word_of_nat 5) (pmem s)\<rparr>)"
    using assms(2) by (cases rule: get_free_pages_cases [of 5 s]) auto
  let ?p = "page_addr lo" and ?mm = "mark_used lo 5 (mem_map s)"
  define u where "u = s\<lparr>mem_map := ?mm, pmem := memset0 ?p (4096 * word_of_nat 5) (pmem s), task := (task s)[nr := ?p]\<rparr>"
  define v where "v = u\<lparr>tasks := (tasks u)(?p := child_task u)\<rparr>"
  define w where "w = v\<lparr>kernel_stack := (kernel_stack v)[nr := 0], kernel_stackbottom := (kernel_stackbottom v)[nr := 0]\<rparr>"
  have len: "length (mem_map s) = PAGING_PAGES" using assms(1) by (simp add: mm_ok_def)
  have nz: "?p \<noteq> 0" "lo + 5 \<le> PAGING_PAGES" using lo(1) by (simp_all add: free_run_def)
  have "\<not> free_run ?mm l' STACK_PAGES" for l'
    using assms(3) [of l'] len by (auto simp: free_run_def mark_used_nth split: if_splits)
  then have "get_free_pages STACK_PAGES v = Ok 0 v"
    by (cases rule: get_free_pages_cases [of STACK_PAGES v]) (auto simp: v_def u_def)
  moreover have "free_pages ?p 5 w = Ok () (w\<lparr>mem_map := mem_map s\<rparr>)"
  proof -
    have "mem_map w = ?mm" "HIGH_MEMORY w = HIGH_MEMORY s" "mm_ok w" using len by (simp_all add: w_def v_def u_def mm_ok_def)
    moreover have "\<forall>k. lo \<le> k \<and> k < lo + 5 \<longrightarrow> ?mm ! k \<noteq> 0 \<and> page_addr k < HIGH_MEMORY s"
      using lo(1) assms(4) len by (auto simp: mark_used_nth free_run_def)
    ultimately show ?thesis using free_pages_run [of lo 5 w] nz(2) decrement_mark_used [OF lo(1) len] by simp
  qed
  ultimately have "copy_process fork_exit nr s = Ok (- EAGAIN) (w\<lparr>mem_map := mem_map s\<rparr>)"
    using lo(2) nz(1) by (simp add: copy_process_def set_slot_def modk_def retk_def u_def v_def w_def)
  then show ?thesis using assms(5) nz(1) lo(1)
    by (intro exI [of _ lo] exI [of _ "w\<lparr>mem_map := mem_map s\<rparr>"]) (simp add: w_def v_def u_def)
qed

definition demo_low_memory :: kstate where
  "demo_low_memory = kernel_image\<lparr>mem_map := replicate 10 1 @ replicate 5 0 @ replicate 3825 1, HIGH_MEMORY := 0x81000000\<rparr>"

theorem copy_process_dangling_witness: "\<exists>lo t. copy_process 0 3 demo_low_memory = Ok (- EAGAIN) t \<and> task t ! 3 = page_addr lo \<and> mem_map t ! lo = 0"
proof -
  have z: "mem_map demo_low_memory ! k = 0 \<longleftrightarrow> 10 \<le> k \<and> k < 15" if "k < PAGING_PAGES" for k
    using that by (auto simp: demo_low_memory_def nth_append)
  have "free_run (mem_map demo_low_memory) 10 5" using z by (simp add: free_run_def)
  moreover have "\<not> free_run (mem_map demo_low_memory) l STACK_PAGES" for l
  proof
    assume "free_run (mem_map demo_low_memory) l STACK_PAGES"
    then have "\<forall>k. l \<le> k \<and> k < l + 8 \<longrightarrow> 10 \<le> k \<and> k < 15" using z by (auto simp: free_run_def)
    from this [rule_format, of l] this [rule_format, of "l + 7"] show False by simp
  qed
  moreover have "\<forall>k < PAGING_PAGES. mem_map demo_low_memory ! k = 0 \<longrightarrow> page_addr k < HIGH_MEMORY demo_low_memory"
    using z by (auto simp: demo_low_memory_def word_less_nat_alt unat_page_addr)
  moreover have "mm_ok demo_low_memory" "3 < length (task demo_low_memory)" by (simp_all add: demo_low_memory_def mm_ok_def kernel_image_def)
  ultimately obtain lo t where "copy_process 0 3 demo_low_memory = Ok (- EAGAIN) t" "task t ! 3 = page_addr lo" "free_run (mem_map t) lo 5"
    using copy_process_dangling [of demo_low_memory 10 3 0] by blast
  then show ?thesis by (intro exI [of _ lo] exI [of _ t]) (simp add: free_run_def)
qed

section \<open>User and group ids\<close>

text \<open>\<open>sys_setregid\<close> lets every process take any effective group: the test of the saved group id is an assignment
  (\<open>sgid = egid\<close>), true for every positive value, so the call succeeds without any privilege.\<close>

theorem sys_setregid_any_group:
  assumes "0 < egid" "egid < 65536"
  shows "\<exists>t. sys_setregid 0 egid s = Ok 0 t \<and> uint (t_egid (cur_task t)) = egid"
proof -
  have w: "uint (word_of_int egid :: u16) = egid" using assms by (simp add: uint_word_of_int)
  then have "(word_of_int egid :: u16) \<noteq> 0" using assms(1) by force
  then show ?thesis using assms w by (auto simp: sys_setregid_def set_egid_def kdefs Let_def cur_task_def)
qed

theorem sys_setregid_any_group_witness:
  "\<exists>t. sys_setregid 0 7 (kernel_image\<lparr>tasks := (\<lambda>_. zero_task\<lparr>t_uid := 5, t_euid := 5, t_gid := 5, t_egid := 5\<rparr>)\<rparr>) = Ok 0 t \<and>
     uint (t_egid (cur_task t)) = 7"
  using sys_setregid_any_group [of 7] by simp

section \<open>Signal handlers\<close>

text \<open>The copy from user memory always ends, and changes none of the tasks.\<close>

lemma page_transform_tasks: "\<exists>a' u. page_transform_addr a s = Ok (a', True) u \<and> tasks u = tasks s \<and> current u = current s"
  by (simp add: page_transform_addr_def getk_def modk_def retk_def Let_def)

lemma mem_copy_to_loop_tasks: "\<exists>v t. mem_copy_to_loop from n r s = Ok v t \<and> tasks t = tasks s \<and> current t = current s"
proof (induction n arbitrary: "from" r s)
  case (Suc n)
  obtain a u where u: "page_transform_addr from s = Ok (a, True) u" "tasks u = tasks s" "current u = current s" using page_transform_tasks by blast
  from Suc [of a "Some (pmem u a)" u] u show ?case by (simp add: getk_def)
qed (simp add: retk_def)

lemma mem_copy_to_kernel_tasks: "\<exists>v t. mem_copy_to_kernel from n s = Ok v t \<and> tasks t = tasks s \<and> current t = current s"
  using mem_copy_to_loop_tasks [of "from" n None "s\<lparr>traned := False\<rparr>"] by (simp add: mem_copy_to_kernel_def page_transform_start_def modk_def)

lemma low_byte_rest: "drop_bit 8 ((h AND NOT 0xFF) OR ucast (b :: u8)) = drop_bit 8 (h :: ulong)"
proof -
  have m: "(0xFF :: ulong) = mask 8" by (simp add: mask_eq_exp_minus_1)
  have b: "drop_bit 8 (ucast b :: ulong) = 0"
    by (rule bit_word_eqI) (auto simp: bit_drop_bit_eq bit_ucast_iff dest: bit_imp_le_length)
  have h: "drop_bit 8 (h AND NOT 0xFF) = drop_bit 8 h"
    unfolding m by (rule bit_word_eqI) (auto simp: bit_drop_bit_eq bit_and_iff bit_not_iff bit_mask_iff dest: bit_imp_le_length)
  show ?thesis by (simp only: drop_bit_or h b or.right_neutral)
qed

text \<open>\<open>sys_sigaction\<close> does not install the handler it is given: the copy from user memory moves one byte, so the
  call returns 0 with the upper 56 bits of the old handler address, the old flags and the old restorer.\<close>

theorem sys_sigaction_low_byte:
  assumes "1 \<le> signum" "signum \<le> 32" "signum \<noteq> SIGKILL" "length (t_sigaction (cur_task s)) = 32"
  defines "act \<equiv> \<lambda>s. t_sigaction (cur_task s) ! nat (signum - 1)"
  shows "\<exists>t. sys_sigaction signum action 0 s = Ok 0 t \<and> drop_bit 8 (sa_handler (act t)) = drop_bit 8 (sa_handler (act s)) \<and>
    sa_flags (act t) = sa_flags (act s) \<and> sa_restorer (act t) = sa_restorer (act s)"
proof -
  let ?k = "nat (signum - 1)"
  have k: "?k < 32" "\<not> signum < 1" "\<not> signum > 32" using assms(1,2) by simp_all
  obtain v u where u: "mem_copy_to_kernel action 24 s = Ok v u" "tasks u = tasks s" "current u = current s" using mem_copy_to_kernel_tasks by blast
  have cu: "cur_task u = cur_task s" using u by (simp add: cur_task_def)
  show ?thesis
    using u(1) cu k assms(3,4) low_byte_rest
    by (cases v) (auto simp: sys_sigaction_def get_sigaction_def get_new_def upd_sigaction_def kdefs act_def cur_task_def)
qed

theorem sys_sigaction_low_byte_witness:
  "\<exists>t. sys_sigaction 2 0x1000 0 kernel_image = Ok 0 t \<and> drop_bit 8 (sa_handler (t_sigaction (cur_task t) ! 1)) = 0"
  using sys_sigaction_low_byte [of 2 kernel_image "0x1000"] by (auto simp: kernel_image_def cur_task_def zero_task_def zero_sigaction_def)

end
