(* ===== verification/Exec.thy ===== *)
theory Exec
  imports Procs
begin

text \<open>
  Program execution: \<open>fs/exec.c\<close> with the header of \<open>include/a.out.h\<close>.

  The arguments of a new program are collected in up to 32 pages (\<open>page\<close>, a list of addresses) from the top down,
  then mapped at the end of the data segment. A local pointer variable whose address is passed to
  \<open>copy_strings\<close> is given by its value; the local array \<open>buf\<close> of the \<open>#!\<close> interpretation lies on the kernel stack,
  at an address that is the argument \<open>stk\<close>.
\<close>

abbreviation "MAX_ARG_PAGES \<equiv> (32 :: nat)"
abbreviation "reg_a1 \<equiv> (11 :: nat)"
abbreviation "reg_a2 \<equiv> (12 :: nat)"
abbreviation "ZMAGIC \<equiv> (0x10B :: u32)"

text \<open>Bounds: the length of an argument string and the number of arguments; all arguments together have 128 kB.\<close>

abbreviation "STR_FUEL \<equiv> (131072 :: nat)"
abbreviation "ARGS_FUEL \<equiv> (16384 :: nat)"

section \<open>The tables of arguments\<close>

definition skip_string :: "ulong \<Rightarrow> ulong K" where
  "skip_string p = loopk STR_FUEL (\<lambda>p. bindk (get_fs_byte p) (\<lambda>c. retk (if c \<noteq> 0 then Inl (p + 1) else Inr (p + 1)))) p"

fun put_table :: "nat \<Rightarrow> ulong \<Rightarrow> ulong \<Rightarrow> ulong K" where
  "put_table 0 a p = bindk (put_fs_64long 0 a) (\<lambda>_. retk p)"
| "put_table (Suc n) a p = bindk (put_fs_64long p a) (\<lambda>_. bindk (skip_string p) (\<lambda>p'. put_table n (a + 8) p'))"

definition create_tables :: "ulong \<Rightarrow> int \<Rightarrow> int \<Rightarrow> ulong K" where
  "create_tables p argc envc = (let envp = (p AND NOT 7) - 8 * word_of_int (envc + 1); argv = envp - 8 * word_of_int (argc + 1) in
     bindk (modk (\<lambda>s. s\<lparr>trap_regs := (trap_regs s)[reg_a0 := word_of_int argc, reg_a1 := argv, reg_a2 := envp]\<rparr>)) (\<lambda>_.
     bindk (put_table (nat argc) argv p) (\<lambda>p. bindk (put_table (nat envc) envp p) (\<lambda>_. retk argv))))"

definition count_args :: "ulong \<Rightarrow> int K" where
  "count_args argv = (if argv = 0 then retk 0 else
     loopk ARGS_FUEL (\<lambda>i. bindk (get_fs_64long (argv + 8 * word_of_int i)) (\<lambda>w. retk (if w \<noteq> 0 then Inl (i + 1) else Inr i))) 0)"

section \<open>Copying the strings\<close>

text \<open>Where the pointers to the strings come from: an array in user memory or a local variable.\<close>

datatype arg_src = UserArgs ulong | Local ulong

fun arg_ptr :: "arg_src \<Rightarrow> nat \<Rightarrow> ulong K" where
  "arg_ptr (UserArgs argv) i = get_fs_64long (argv + 8 * word_of_nat i)"
| "arg_ptr (Local w) i = retk w"

text \<open>The variables of \<open>copy_strings\<close> that last from string to string.\<close>

record copy_state =
  cs_p :: ulong
  cs_offset :: int
  cs_pag :: ulong
  cs_page :: "ulong list"

definition string_length :: "ulong \<Rightarrow> nat K" where
  "string_length tmp = loopk STR_FUEL (\<lambda>len. bindk (get_fs_byte (tmp + word_of_nat len)) (\<lambda>c. retk (if c \<noteq> 0 then Inl (len + 1) else Inr (len + 1)))) 0"

text \<open>The page of address \<open>p\<close>, allocated when it is not there; False is \<open>return 0\<close>.\<close>

definition arg_page :: "ulong \<Rightarrow> copy_state \<Rightarrow> (bool \<times> copy_state) K" where
  "arg_page p c = (let k = unat ((p - USER_START_ADDR) div 4096); c' = c\<lparr>cs_offset := uint (p mod 4096)\<rparr> in
     bindk (nthk (cs_page c) k) (\<lambda>a. if a \<noteq> 0 then retk (True, c'\<lparr>cs_pag := a\<rparr>) else
     bindk get_free_page (\<lambda>a. retk (a \<noteq> 0, c'\<lparr>cs_pag := a, cs_page := (cs_page c)[k := a]\<rparr>))))"

text \<open>\<open>while(len)\<close>: from the last byte of the string, its terminator, to the first.\<close>

fun copy_bytes :: "int \<Rightarrow> ulong \<Rightarrow> ulong \<Rightarrow> nat \<Rightarrow> copy_state \<Rightarrow> (bool \<times> copy_state) K" where
  "copy_bytes from_kmem old_fs tmp 0 c = retk (True, c)"
| "copy_bytes from_kmem old_fs tmp (Suc len) c = (let p = cs_p c - 1; c1 = c\<lparr>cs_p := p, cs_offset := cs_offset c - 1\<rparr> in
     bindk (if cs_offset c1 < 0 then bindk (whenk (from_kmem = 2) (set_fs old_fs)) (\<lambda>_. bindk (arg_page p c1) (\<lambda>(ok, c2).
         bindk (whenk (ok \<and> from_kmem = 2) (set_fs get_ds)) (\<lambda>_. retk (ok, c2)))) else retk (True, c1)) (\<lambda>(ok, c2).
     if \<not> ok then retk (False, c2) else
     bindk (get_fs_byte (tmp + word_of_nat len)) (\<lambda>v.
     bindk (modk (\<lambda>s. s\<lparr>pmem := (pmem s)(cs_pag c2 + word_of_int (cs_offset c2) := v)\<rparr>)) (\<lambda>_.
     copy_bytes from_kmem old_fs tmp len c2))))"

fun copy_args :: "int \<Rightarrow> ulong \<Rightarrow> arg_src \<Rightarrow> nat \<Rightarrow> copy_state \<Rightarrow> (bool \<times> copy_state) K" where
  "copy_args from_kmem old_fs src 0 c = retk (True, c)"
| "copy_args from_kmem old_fs src (Suc n) c = bindk (whenk (from_kmem = 1) (set_fs get_ds)) (\<lambda>_.
     bindk (arg_ptr src n) (\<lambda>tmp. if tmp = 0 then panick ''argc is wrong'' else
     bindk (whenk (from_kmem = 1) (set_fs old_fs)) (\<lambda>_.
     bindk (string_length tmp) (\<lambda>len. if sint (cs_p c) - int len < 0 then bindk (set_fs old_fs) (\<lambda>_. retk (False, c)) else
     bindk (copy_bytes from_kmem old_fs tmp len c) (\<lambda>(ok, c).
     if \<not> ok then retk (False, c) else copy_args from_kmem old_fs src n c)))))"

text \<open>The result is the new \<open>p\<close>, 0 for failure, and the array of pages.\<close>

definition copy_strings :: "int \<Rightarrow> arg_src \<Rightarrow> ulong list \<Rightarrow> ulong \<Rightarrow> int \<Rightarrow> (ulong \<times> ulong list) K" where
  "copy_strings argc src page p from_kmem = (if p = 0 then retk (0, page) else
     bindk get_fs (\<lambda>old_fs. bindk (whenk (from_kmem = 2) (set_fs get_ds)) (\<lambda>_.
     bindk (copy_args from_kmem old_fs src (nat argc) \<lparr>cs_p = p, cs_offset = 0, cs_pag = 0, cs_page = page\<rparr>) (\<lambda>(ok, c).
     if \<not> ok then retk (0, cs_page c) else
     bindk (whenk (from_kmem = 2) (set_fs old_fs)) (\<lambda>_. retk (cs_p c, cs_page c))))))"

definition change_ldt :: "ulong \<Rightarrow> ulong list \<Rightarrow> ulong K" where
  "change_ldt text_size page = bindk (upd_cur (\<lambda>t. t\<lparr>t_code_base := 0xC0000000, t_code_limit := (text_size + 4095) AND 0xFFFFF000,
       t_data_base := 0xC0000000, t_data_limit := 0x4000000\<rparr>)) (\<lambda>_.
     bindk (eachk (\<lambda>i. bindk (nthk page i) (\<lambda>a. if a = 0 then retk () else
       bindk (put_page a (0xC0000000 + 0x4000000 - 4096 * word_of_nat (MAX_ARG_PAGES - i))) (\<lambda>_. retk ()))) (rev [0..<MAX_ARG_PAGES])) (\<lambda>_.
     retk 0x4000000))"

section \<open>The file to execute\<close>

record exec =
  a_magic :: u32
  a_text :: u32
  a_data :: u32
  a_bss :: u32
  a_syms :: u32
  a_entry :: u32
  a_trsize :: u32
  a_drsize :: u32

definition exec_of :: "u8 list \<Rightarrow> exec" where
  "exec_of d = \<lparr>a_magic = get32 d 0, a_text = get32 d 4, a_data = get32 d 8, a_bss = get32 d 12, a_syms = get32 d 16,
     a_entry = get32 d 20, a_trsize = get32 d 24, a_drsize = get32 d 28\<rparr>"

definition N_TXTOFF :: "exec \<Rightarrow> ulong" where
  "N_TXTOFF ex = (if a_magic ex = ZMAGIC then 1024 else 32)"

text \<open>The sums of the sizes are 32-bit sums.\<close>

definition exec_ok :: "exec \<Rightarrow> u32 \<Rightarrow> bool" where
  "exec_ok ex sz \<longleftrightarrow> \<not> (a_magic ex \<noteq> ZMAGIC \<or> a_trsize ex \<noteq> 0 \<or> a_drsize ex \<noteq> 0 \<or> a_text ex + a_data ex + a_bss ex > 0x3000000 \<or>
     ucast sz < (ucast (a_text ex + a_data ex + a_syms ex) :: ulong) + N_TXTOFF ex)"

text \<open>The \<open>#!\<close> line: the text up to the newline, without leading blanks; the interpreter, the part of its name
  after the last slash, the rest as one argument. The result is the buffer with its new terminators and
  the offsets of these three.\<close>

definition is_blank :: "u8 \<Rightarrow> bool" where "is_blank c \<longleftrightarrow> c = 32 \<or> c = 9"

definition line_buf :: "u8 list \<Rightarrow> u8 list" where
  "line_buf d = (let t = takeWhile (\<lambda>c. c \<noteq> 0) (take 1022 (drop 2 d)) in t @ replicate (1023 - length t) 0)"

definition parse_interp :: "u8 list \<Rightarrow> (u8 list \<times> nat \<times> nat \<times> nat option) option" where
  "parse_interp d = (let buf = line_buf d; text = takeWhile (\<lambda>c. c \<noteq> 0) buf; nl = length (takeWhile (\<lambda>c. c \<noteq> 10) text) in
     if nl = length text then None else
     let buf = buf[nl := 0]; cp = length (takeWhile is_blank (take nl buf)) in
     if cp = nl then None else
     let word = takeWhile (\<lambda>c. \<not> is_blank c) (drop cp (take nl buf));
       e = cp + length word;
       slashes = filter (\<lambda>k. word ! k = 47) [0..<length word];
       i_name = (if slashes = [] then cp else cp + last slashes + 1) in
     if e < nl then Some (buf[e := 0], cp, i_name, Some (e + 1)) else Some (buf, cp, i_name, None))"

text \<open>May the current process execute the file? Also the user and group it gets.\<close>

definition exec_permission :: "kstate \<Rightarrow> m_inode \<Rightarrow> bool" where
  "exec_permission s n = (let c = cur_task s; i = (if t_euid c = i_uid n then drop_bit 6 (i_mode n)
       else if t_egid c = ucast (i_gid n) then drop_bit 3 (i_mode n) else i_mode n) in
     i AND 1 \<noteq> 0 \<or> i_mode n AND 0x49 \<noteq> 0 \<and> suser s)"

definition exec_ids :: "kstate \<Rightarrow> m_inode \<Rightarrow> u16 \<times> u16" where
  "exec_ids s n = (if i_mode n AND 0x800 \<noteq> 0 then i_uid n else t_euid (cur_task s),
     if i_mode n AND 0x400 \<noteq> 0 then ucast (i_gid n) else t_egid (cur_task s))"

definition exec_free :: "ulong list \<Rightarrow> int \<Rightarrow> int K" where
  "exec_free page retval = bindk (eachk free_page page) (\<lambda>_. retk retval)"

text \<open>The point of no return and what follows.\<close>

definition exec_commit :: "nat \<Rightarrow> exec \<Rightarrow> u16 \<times> u16 \<Rightarrow> ulong list \<Rightarrow> ulong \<Rightarrow> int \<Rightarrow> int \<Rightarrow> int K" where
  "exec_commit inode ex ids page p argc envc = bindk (getk cur_task) (\<lambda>c. bindk (iput (t_executable c)) (\<lambda>_.
     bindk (upd_cur (\<lambda>t. t\<lparr>t_executable := Some inode, t_sigaction := map (\<lambda>a. a\<lparr>sa_handler := 0\<rparr>) (t_sigaction t)\<rparr>)) (\<lambda>_.
     bindk (eachk (\<lambda>i. bindk (getk cur_task) (\<lambda>t. if bit (t_close_on_exec t) i then bindk (sys_close i) (\<lambda>_. retk ()) else retk ())) [0..<NR_OPEN]) (\<lambda>_.
     bindk (upd_cur (\<lambda>t. t\<lparr>t_close_on_exec := 0\<rparr>)) (\<lambda>_. bindk (getk cur_task) (\<lambda>c.
     bindk (free_page_tables (t_code_base c) (t_code_limit c)) (\<lambda>_. bindk (free_page_tables (t_data_base c) (t_data_limit c)) (\<lambda>_.
     bindk (change_ldt (ucast (a_text ex)) page) (\<lambda>lim.
     bindk (create_tables (p + lim - word_of_nat MAX_ARG_PAGES * 4096) argc envc) (\<lambda>p.
     let ec = 0xC0000000 + ucast (a_text ex); ed = ucast (a_data ex) + ec in
     bindk (upd_cur (\<lambda>t. t\<lparr>t_start_code := 0xC0000000, t_end_code := ec, t_end_data := ed, t_brk := ucast (a_bss ex) + ed,
        t_start_stack := p AND 0xFFFFF000, t_euid := fst ids, t_egid := snd ids\<rparr>)) (\<lambda>_.
     bindk (modk (\<lambda>s. s\<lparr>page_root_table := (page_root_table s)[2 := pte_common_disable_user (page_root_table s ! 2)],
        trap_regs := (trap_regs s)[reg_sp := p], trap_newepc := ucast (a_entry ex)\<rparr>)) (\<lambda>_.
     retk argc))))))))))))"

text \<open>The strings of a script: the environment and the arguments after the first, the name of the script, the
  argument of the interpreter line, the name of the interpreter.\<close>

definition script_strings :: "ulong \<Rightarrow> ulong \<Rightarrow> ulong \<Rightarrow> ulong \<Rightarrow> int \<Rightarrow> int \<Rightarrow> nat \<Rightarrow> nat option \<Rightarrow> ulong list \<Rightarrow> ulong \<Rightarrow> (ulong \<times> ulong list \<times> int) K" where
  "script_strings stk filename argv envp argc envc i_name i_arg page p =
     bindk (copy_strings envc (UserArgs envp) page p 0) (\<lambda>(p, page).
     bindk (copy_strings (argc - 1) (UserArgs (argv + 8)) page p 0) (\<lambda>(p, page).
     bindk (copy_strings 1 (Local filename) page p 1) (\<lambda>(p, page).
     bindk (case i_arg of None \<Rightarrow> retk (p, page) | Some a \<Rightarrow> copy_strings 1 (Local (stk + word_of_nat a)) page p 2) (\<lambda>(p, page).
     bindk (copy_strings 1 (Local (stk + word_of_nat i_name)) page p 2) (\<lambda>(p, page).
     retk (p, page, argc + 1 + (if i_arg = None then 0 else 1)))))))"

type_synonym exec_state = "nat \<times> bool \<times> int \<times> ulong \<times> ulong list"

text \<open>\<open>exec_error2\<close> and \<open>exec_error1\<close>.\<close>

definition exec_error1 :: "ulong list \<Rightarrow> int \<Rightarrow> (exec_state + int) K" where
  "exec_error1 page retval = bindk (exec_free page retval) (\<lambda>r. retk (Inr r))"

definition exec_error2 :: "nat \<Rightarrow> ulong list \<Rightarrow> int \<Rightarrow> (exec_state + int) K" where
  "exec_error2 inode page retval = bindk (iput (Some inode)) (\<lambda>_. exec_error1 page retval)"

text \<open>The \<open>#!\<close> interpretation, after the block and the inode of the script are released.\<close>

definition exec_script :: "ulong \<Rightarrow> ulong \<Rightarrow> ulong \<Rightarrow> ulong \<Rightarrow> int \<Rightarrow> u8 list \<Rightarrow> int \<Rightarrow> ulong \<Rightarrow> ulong list \<Rightarrow> (exec_state + int) K" where
  "exec_script stk filename argv envp envc d argc p page = (case parse_interp d of None \<Rightarrow> exec_error1 page (- ENOEXEC)
     | Some (buf, interp, i_name, i_arg) \<Rightarrow>
       bindk (modk (store_bytes stk buf)) (\<lambda>_.
       bindk (script_strings stk filename argv envp argc envc i_name i_arg page p) (\<lambda>(p, page, argc).
       if p = 0 then exec_error1 page (- ENOMEM) else
       bindk get_fs (\<lambda>old_fs. bindk (set_fs get_ds) (\<lambda>_. bindk (namei (stk + word_of_nat interp)) (\<lambda>r. bindk (set_fs old_fs) (\<lambda>_.
       case r of None \<Rightarrow> exec_error1 page (- ENOENT) | Some i \<Rightarrow> retk (Inl (i, True, argc, p, page)))))))))"

text \<open>An executable: the checks of its header, the arguments, the change of the process.\<close>

definition exec_binary :: "ulong \<Rightarrow> ulong \<Rightarrow> int \<Rightarrow> exec \<Rightarrow> u16 \<times> u16 \<Rightarrow> exec_state \<Rightarrow> (exec_state + int) K" where
  "exec_binary argv envp envc ex ids = (\<lambda>(inode, sh_bang, argc, p, page). bindk (get_inode inode) (\<lambda>n.
     if \<not> exec_ok ex (i_size n) then exec_error2 inode page (- ENOEXEC)
     else if N_TXTOFF ex \<noteq> 1024 then exec_error2 inode page (- ENOEXEC) else
     bindk (if sh_bang then retk (p, page) else bindk (copy_strings envc (UserArgs envp) page p 0) (\<lambda>(p, page).
        copy_strings argc (UserArgs argv) page p 0)) (\<lambda>(p, page).
     if \<not> sh_bang \<and> p = 0 then exec_error2 inode page (- ENOMEM) else
     bindk (exec_commit inode ex ids page p argc envc) (\<lambda>r. retk (Inr r)))))"

text \<open>From \<open>restart_interp\<close> on: the state is the inode, whether a \<open>#!\<close> line was interpreted, the arguments so far.\<close>

definition exec_round :: "ulong \<Rightarrow> ulong \<Rightarrow> ulong \<Rightarrow> ulong \<Rightarrow> int \<Rightarrow> exec_state \<Rightarrow> (exec_state + int) K" where
  "exec_round stk filename argv envp envc = (\<lambda>(inode, sh_bang, argc, p, page).
     bindk (get_inode inode) (\<lambda>n. if \<not> S_ISREG (i_mode n) then exec_error2 inode page (- EACCES) else
     bindk (getk id) (\<lambda>s. if \<not> exec_permission s n then exec_error2 inode page (- ENOEXEC) else
     bindk (bread (uint (i_dev n)) (uint (i_zone n ! 0))) (\<lambda>r. case r of None \<Rightarrow> exec_error2 inode page (- EACCES) | Some b \<Rightarrow>
     bindk (get_bh b) (\<lambda>h. let d = b_data h in
     bindk (brelse (Some b)) (\<lambda>_.
     if d ! 0 = 35 \<and> d ! 1 = 33 \<and> \<not> sh_bang
     then bindk (iput (Some inode)) (\<lambda>_. exec_script stk filename argv envp envc d argc p page)
     else exec_binary argv envp envc (exec_of d) (exec_ids s n) (inode, sh_bang, argc, p, page)))))))"

definition do_execve :: "ulong \<Rightarrow> ulong \<Rightarrow> ulong \<Rightarrow> ulong \<Rightarrow> int K" where
  "do_execve stk filename argv envp = bindk (namei filename) (\<lambda>r. case r of None \<Rightarrow> retk (- ENOENT) | Some inode \<Rightarrow>
     bindk (count_args argv) (\<lambda>argc. bindk (count_args envp) (\<lambda>envc.
     loopk 2 (exec_round stk filename argv envp envc)
       (inode, False, argc, 0xC0000000 + 4096 * word_of_nat MAX_ARG_PAGES - 8, replicate MAX_ARG_PAGES 0))))"

section \<open>Execution keeps the file system tables well-formed\<close>

lemma kv_set_fs [keeps_intros]: "keeps kinv (set_fs v)" "keeps kinv get_fs"
  unfolding set_fs_def get_fs_def by (intro keeps_intros kv_modk; simp)+

lemma kv_put_table: "keeps kinv (put_table n a p)"
  by (induction n arbitrary: a p) (auto simp: skip_string_def intro!: keeps_intros)

lemma kv_arg_tables [keeps_intros]: "keeps kinv (create_tables p argc envc)" "keeps kinv (count_args a)" "keeps kinv (string_length a)" "keeps kinv (arg_page p c)"
  unfolding create_tables_def count_args_def string_length_def arg_page_def Let_def by (intro keeps_intros kv_modk kv_put_table; simp)+

lemma kv_arg_ptr [keeps_intros]: "keeps kinv (arg_ptr src n)"
  by (cases src) (auto intro: keeps_intros)

lemma kv_copy_bytes [keeps_intros]: "keeps kinv (copy_bytes fk old tmp n c)"
  by (induction n arbitrary: c) (auto simp: Let_def intro!: keeps_intros kv_modk split: prod.splits)

lemma kv_copy_args [keeps_intros]: "keeps kinv (copy_args fk old src n c)"
  by (induction n arbitrary: c) (auto intro!: keeps_intros)

lemma kv_copy_strings [keeps_intros]: "keeps kinv (copy_strings argc src page p fk)" "keeps kinv (change_ldt sz page)"
  unfolding copy_strings_def change_ldt_def by (intro keeps_intros; auto intro!: keeps_intros split: prod.splits)+

lemma kv_exec_parts [keeps_intros]: "keeps kinv (exec_commit i ex ids page p argc envc)" "keeps kinv (script_strings stk f a e argc envc nm arg page p)"
    "keeps kinv (exec_error1 page r)" "keeps kinv (exec_error2 i page r)"
  unfolding exec_commit_def script_strings_def exec_error1_def exec_error2_def exec_free_def Let_def
  by (intro keeps_intros kv_modk; (simp | auto intro!: keeps_intros split: prod.splits option.splits))+

lemma kv_exec_branches [keeps_intros]: "keeps kinv (exec_script stk f a e envc d argc p page)" "keeps kinv (exec_binary a e envc ex ids st)"
  unfolding exec_script_def exec_binary_def store_bytes_def
  by (auto intro!: keeps_intros kv_modk split: prod.splits option.splits)

lemma kv_do_execve [keeps_intros]: "keeps kinv (do_execve stk f a e)"
  unfolding do_execve_def exec_round_def Let_def
  by (intro keeps_intros; (simp | auto simp: uint16_bounds intro!: keeps_intros split: prod.splits))

end
