(* ===== verification/Exec_Props.thy ===== *)
theory Exec_Props
  imports Exec
begin

text \<open>
  Properties of program execution: the interpreter line of a script, the size check of an executable.
\<close>

section \<open>The interpreter line\<close>

text \<open>The C string at an offset of a buffer.\<close>

definition c_string :: "u8 list \<Rightarrow> nat \<Rightarrow> u8 list" where
  "c_string buf k = takeWhile (\<lambda>c. c \<noteq> 0) (drop k buf)"

text \<open>A path without its directories.\<close>

definition base_name :: "u8 list \<Rightarrow> u8 list" where
  "base_name w = rev (takeWhile (\<lambda>c. c \<noteq> 47) (rev w))"

lemma takeWhile_stop: "(\<forall>x \<in> set xs. P x) \<Longrightarrow> \<not> P y \<Longrightarrow> takeWhile P (xs @ y # ys) = xs"
  by (simp add: takeWhile_append2)

lemma base_name_last:
  "base_name w = drop (let sl = filter (\<lambda>k. w ! k = 47) [0..<length w] in if sl = [] then 0 else last sl + 1) w"
proof (induction w rule: rev_induct)
  case (snoc c w)
  have f: "filter (\<lambda>k. (w @ [c]) ! k = 47) [0..<length w] = filter (\<lambda>k. w ! k = 47) [0..<length w]"
    by (rule filter_cong) (auto simp: nth_append)
  have l: "last (filter (\<lambda>k. w ! k = 47) [0..<length w]) < length w" if "filter (\<lambda>k. w ! k = 47) [0..<length w] \<noteq> []"
    using last_in_set [OF that] by simp
  show ?case
  proof (cases "c = 47")
    case True
    then show ?thesis by (simp add: base_name_def)
  next
    case False
    then have "base_name (w @ [c]) = base_name w @ [c]" by (simp add: base_name_def)
    then show ?thesis using snoc f l False by (auto simp: Let_def)
  qed
qed (simp add: base_name_def)

text \<open>The buffer holds the line and its newline, whatever follows.\<close>

lemma line_buf_line:
  assumes "\<forall>c \<in> set line. c \<noteq> 0 \<and> c \<noteq> 10" "length line < 1022"
  shows "\<exists>r. line_buf (a # b # line @ 10 # rest) = line @ 10 # r \<and> takeWhile (\<lambda>c. c \<noteq> 0) (line @ 10 # r) = line @ 10 # takeWhile (\<lambda>c. c \<noteq> 0) r"
proof -
  have "take 1022 (line @ 10 # rest) = line @ 10 # take (1021 - length line) rest"
  proof -
    have "1022 - length line = Suc (1021 - length line)" using assms(2) by simp
    then show ?thesis using assms(2) by simp
  qed
  moreover have tw: "takeWhile (\<lambda>c. c \<noteq> 0) (line @ 10 # r) = line @ 10 # takeWhile (\<lambda>c. c \<noteq> 0) r" for r
    using assms(1) by (simp add: takeWhile_append2)
  ultimately have "line_buf (a # b # line @ 10 # rest) = line @ 10 # (takeWhile (\<lambda>c. c \<noteq> 0) (take (1021 - length line) rest) @
      replicate (1023 - length (line @ 10 # takeWhile (\<lambda>c. c \<noteq> 0) (take (1021 - length line) rest))) 0)"
    by (simp add: line_buf_def Let_def)
  then show ?thesis using tw by blast
qed

definition name_offset :: "u8 list \<Rightarrow> nat" where
  "name_offset w = (let sl = filter (\<lambda>k. w ! k = 47) [0..<length w] in if sl = [] then 0 else last sl + 1)"

lemma name_offset_le: "name_offset w \<le> length w"
proof -
  have "last (filter (\<lambda>k. w ! k = 47) [0..<length w]) < length w" if "filter (\<lambda>k. w ! k = 47) [0..<length w] \<noteq> []"
    using last_in_set [OF that] by simp
  then show ?thesis by (auto simp: name_offset_def Let_def)
qed

lemma parse_interp_cases:
  assumes bl: "\<forall>c \<in> set bl. is_blank c" and w: "w \<noteq> []" "\<forall>c \<in> set w. \<not> is_blank c \<and> c \<noteq> 0 \<and> c \<noteq> 10"
    and ag: "\<forall>c \<in> set ag. c \<noteq> 0 \<and> c \<noteq> 10" "ag = [] \<or> is_blank (hd ag)" and len: "length (bl @ w @ ag) < 1022"
  shows "\<exists>r. parse_interp (35 # 33 # bl @ w @ ag @ 10 # rest) = Some
     (bl @ w @ (if ag = [] then [] else 0 # tl ag) @ 0 # r, length bl, length bl + name_offset w, if ag = [] then None else Some (length (bl @ w) + 1))"
proof -
  let ?line = "bl @ w @ ag"
  have nz: "\<forall>c \<in> set bl. c \<noteq> 0 \<and> c \<noteq> 10" using bl by (auto simp: is_blank_def)
  then have ln: "\<forall>c \<in> set ?line. c \<noteq> 0 \<and> c \<noteq> 10" using w(2) ag(1) by auto
  obtain r where r: "line_buf (35 # 33 # ?line @ 10 # rest) = ?line @ 10 # r"
    "takeWhile (\<lambda>c. c \<noteq> 0) (?line @ 10 # r) = ?line @ 10 # takeWhile (\<lambda>c. c \<noteq> 0) r" using line_buf_line [OF ln len] by blast
  have nl: "length (takeWhile (\<lambda>c. c \<noteq> 10) (?line @ 10 # takeWhile (\<lambda>c. c \<noteq> 0) r)) = length ?line"
    using takeWhile_stop [of ?line "\<lambda>c. c \<noteq> 10" 10] ln by simp
  have cp: "takeWhile is_blank ?line = bl" using bl w by (cases w) (auto simp: takeWhile_append2)
  have wd: "takeWhile (\<lambda>c. \<not> is_blank c) (w @ ag) = w" using w(2) ag(2) by (cases ag) (auto simp: takeWhile_append2 takeWhile_eq_all_conv [THEN iffD2])
  have up: "(?line @ 10 # r)[length ?line := 0] = ?line @ 0 # r" by (simp only: list_update_length)
  have e: "(?line @ 0 # r)[length bl + length w := 0] = bl @ w @ 0 # tl ag @ 0 # r" if "ag \<noteq> []"
    using that list_update_length [of "bl @ w" "hd ag" "tl ag @ 0 # r" 0] by (cases ag) simp_all
  show ?thesis
  proof (cases "ag = []")
    case True
    then show ?thesis using r nl cp up w(1) unfolding parse_interp_def name_offset_def Let_def by (simp add: wd [unfolded True append_Nil2])
  next
    case False
    then show ?thesis using r nl cp wd up e w(1) unfolding parse_interp_def name_offset_def Let_def by simp
  qed
qed

text \<open>C39: the \<open>#!\<close> line is taken apart as documented. For a line of blanks, a path and an argument after a blank,
  the buffer holds three C strings: the path of the interpreter, its name without the directories, and the
  whole rest of the line as one argument; without a rest there is no argument.\<close>

theorem parse_interp_line:
  assumes "\<forall>c \<in> set bl. is_blank c" "w \<noteq> []" "\<forall>c \<in> set w. \<not> is_blank c \<and> c \<noteq> 0 \<and> c \<noteq> 10"
    and "\<forall>c \<in> set arg. c \<noteq> 0 \<and> c \<noteq> 10" "is_blank b" "length (bl @ w @ b # arg) < 1022"
  shows "(\<exists>buf interp i_name i_arg. parse_interp (35 # 33 # bl @ w @ b # arg @ 10 # rest) = Some (buf, interp, i_name, Some i_arg) \<and>
      c_string buf interp = w \<and> c_string buf i_name = base_name w \<and> c_string buf i_arg = arg) \<and>
    (\<exists>buf interp i_name. parse_interp (35 # 33 # bl @ w @ 10 # rest) = Some (buf, interp, i_name, None) \<and>
      c_string buf interp = w \<and> c_string buf i_name = base_name w)"
proof -
  have bn: "base_name w = drop (name_offset w) w" using base_name_last [of w] by (simp add: name_offset_def)
  have b: "b \<noteq> 0" "b \<noteq> 10" using assms(5) by (auto simp: is_blank_def)
  have ws: "\<forall>c \<in> set w. c \<noteq> 0" "\<forall>c \<in> set (drop (name_offset w) w). c \<noteq> 0" "\<forall>c \<in> set arg. c \<noteq> 0"
    using assms(3,4) set_drop_subset [of "name_offset w" w] by auto
  obtain r1 where r1: "parse_interp (35 # 33 # bl @ w @ (b # arg) @ 10 # rest) = Some (bl @ w @ 0 # arg @ 0 # r1, length bl, length bl + name_offset w, Some (length (bl @ w) + 1))"
    using parse_interp_cases [OF assms(1-3), of "b # arg" rest] assms(4-6) b by auto
  obtain r2 where r2: "parse_interp (35 # 33 # bl @ w @ 10 # rest) = Some (bl @ w @ 0 # r2, length bl, length bl + name_offset w, None)"
    using parse_interp_cases [OF assms(1-3), of "[]" rest] assms(6) by auto
  have c: "c_string (bl @ w @ 0 # r) (length bl) = w" "c_string (bl @ w @ 0 # r) (length bl + name_offset w) = base_name w" for r
    using takeWhile_stop [OF ws(1), of 0 r] takeWhile_stop [OF ws(2), of 0 r] name_offset_le [of w] by (simp_all add: c_string_def bn)
  have "c_string (bl @ w @ 0 # arg @ 0 # r) (length (bl @ w) + 1) = arg" for r
    using takeWhile_stop [OF ws(3), of 0 r] by (simp add: c_string_def)
  then show ?thesis using r1 r2 c by fastforce
qed

theorem parse_interp_line_witness:
  "\<exists>buf interp i_name i_arg. parse_interp (35 # 33 # [32] @ [47, 98, 47, 115, 104] @ 32 # [45, 120] @ 10 # []) = Some (buf, interp, i_name, Some i_arg) \<and>
     c_string buf interp = [47, 98, 47, 115, 104] \<and> c_string buf i_name = [115, 104] \<and> c_string buf i_arg = [45, 120]"
proof -
  have "base_name [47, 98, 47, 115, 104] = [115, 104]" by (simp add: base_name_def)
  then show ?thesis
    using parse_interp_line [of "[32]" "[47, 98, 47, 115, 104]" "[45, 120]" 32 "[]"] by (simp add: is_blank_def)
qed

section \<open>The size check\<close>

text \<open>C40: the check that an executable fits adds the sizes of its segments in 32 bits: for every text size there is
  a data size with which the sum wraps to zero, so that a file of one block passes although its segments
  together would need 4 GB, far beyond the limit of 48 MB.\<close>

theorem exec_ok_wraps:
  assumes "t \<noteq> 0"
  defines "ex \<equiv> \<lparr>a_magic = ZMAGIC, a_text = t, a_data = - t, a_bss = 0, a_syms = 0, a_entry = 0xC0000000, a_trsize = 0, a_drsize = 0\<rparr>"
  shows "exec_ok ex 1024 \<and> uint (a_text ex) + uint (a_data ex) + uint (a_bss ex) = 2 ^ 32"
proof -
  have t: "0 < uint t" "uint t < 2 ^ 32" using assms(1) uint_bounded [of t] by (simp_all add: uint_0_iff less_le)
  have "uint (- t) = (- uint t) mod 2 ^ 32" using uint_word_ariths(4) [of t] by simp
  also have "\<dots> = 2 ^ 32 - uint t" using t by (simp add: zmod_zminus1_eq_if)
  finally show ?thesis by (simp add: ex_def exec_ok_def N_TXTOFF_def)
qed

theorem exec_ok_wraps_witness:
  "exec_ok \<lparr>a_magic = ZMAGIC, a_text = 0x80000000, a_data = - 0x80000000, a_bss = 0, a_syms = 0, a_entry = 0xC0000000, a_trsize = 0, a_drsize = 0\<rparr> 1024"
  using exec_ok_wraps [of "0x80000000"] by simp

end
