(* ===== verification/Races.thy ===== *)
theory Races
  imports Icache
begin

text \<open>
  What code that sleeps may rely on when it goes on. \<open>ends Q P r\<close> says of an outcome that wherever it returns, however
  often the task slept on the way and whatever states with \<open>Q\<close> it found when it was chosen again, \<open>P\<close> holds of the result
  and the state. The locks of the kernel and the search of \<open>getblk\<close> are correct in this sense, with the
  invariant of the kernel as \<open>Q\<close>.
\<close>

section \<open>Returning after sleeping\<close>

primrec ends :: "('s \<Rightarrow> bool) \<Rightarrow> ('a \<Rightarrow> 's \<Rightarrow> bool) \<Rightarrow> ('s, 'a) res \<Rightarrow> bool" where
  "ends Q P (Ok x s) = P x s"
| "ends Q P (Sleep s k) = (\<forall>u. Q u \<longrightarrow> ends Q P (k u))"
| "ends Q P (Die c s) = True"
| "ends Q P (Panic e) = True"
| "ends Q P Fault = True"
| "ends Q P NoFuel = True"

lemma ends_mono: "ends Q P r \<Longrightarrow> (\<And>x s. P x s \<Longrightarrow> R x s) \<Longrightarrow> ends Q R r"
  by (induction r) auto

lemma ends_bindk: "ends Q (\<lambda>x t. ends Q P (k x t)) (m s) \<Longrightarrow> ends Q P (bindk m k s)"
proof -
  have "ends Q (\<lambda>x t. ends Q P (k x t)) r \<Longrightarrow> ends Q P (bindr r k)" for r by (induction r) auto
  then show "ends Q (\<lambda>x t. ends Q P (k x t)) (m s) \<Longrightarrow> ends Q P (bindk m k s)" by (simp add: bindk_bindr)
qed

lemma ends_keeps: "keeps Q m \<Longrightarrow> Q s \<Longrightarrow> ends Q (\<lambda>_. Q) (m s)"
proof -
  have "post Q r \<Longrightarrow> ends Q (\<lambda>_. Q) r" for r :: "('a, 'b) res" by (induction r) auto
  then show "keeps Q m \<Longrightarrow> Q s \<Longrightarrow> ends Q (\<lambda>_. Q) (m s)" by (simp add: keeps_def)
qed

lemma ends_bind_keeps: "keeps Q m \<Longrightarrow> Q s \<Longrightarrow> (\<And>x t. Q t \<Longrightarrow> ends Q P (k x t)) \<Longrightarrow> ends Q P (bindk m k s)"
  by (blast intro: ends_bindk ends_mono [OF ends_keeps])

lemmas kv_ends_bind = ends_bind_keeps [where Q = kinv]

text \<open>A loop: every round establishes the invariant of the loop for the next one or the result for the end.\<close>

lemma ends_loopk:
  assumes "\<And>x s. I s \<Longrightarrow> ends Q (\<lambda>r t. case r of Inl y \<Rightarrow> I t | Inr z \<Rightarrow> P z t) (f x s)"
  shows "I s \<Longrightarrow> ends Q P (loopk n f x s)"
proof (induction n arbitrary: x s)
  case (Suc n)
  have "ends Q P ((case r of Inl y \<Rightarrow> loopk n f y | Inr z \<Rightarrow> retk z) t)" if "case r of Inl y \<Rightarrow> I t | Inr z \<Rightarrow> P z t" for r t
    using that Suc.IH by (cases r) (simp_all add: retk_def)
  then show ?case unfolding loopk.simps by (intro ends_bindk ends_mono [OF assms [OF Suc.prems]])
qed simp

section \<open>Locks\<close>

text \<open>A task that waited for a buffer finds it unlocked, and can take the lock before anybody else runs.\<close>

definition free_buf :: "nat \<Rightarrow> kstate \<Rightarrow> bool" where
  "free_buf b s \<longleftrightarrow> kinv s \<and> b < length (bufs s) \<and> b_lock (bufs s ! b) = 0"

lemma wait_on_buffer_ends: "kinv s \<Longrightarrow> ends kinv (\<lambda>_. free_buf b) (wait_on_buffer b s)"
  unfolding wait_on_buffer_def
proof (rule ends_loopk [where I = kinv])
  fix x :: unit and s assume s: "kinv s"
  have "ends kinv (\<lambda>r t. case r of Inl y \<Rightarrow> kinv t | Inr z \<Rightarrow> free_buf b t) (bindk (sleep_on (WBuffer b)) (\<lambda>_. retk (Inl ())) s)"
    by (intro kv_ends_bind [OF _ s]) (auto simp: retk_def intro: keeps_intros)
  then show "ends kinv (\<lambda>r t. case r of Inl y \<Rightarrow> kinv t | Inr z \<Rightarrow> free_buf b t)
      (bindk (get_bh b) (\<lambda>h. if b_lock h \<noteq> 0 then bindk (sleep_on (WBuffer b)) (\<lambda>_. retk (Inl ())) else retk (Inr ())) s)"
    using s by (cases "b < length (bufs s)") (auto simp: get_bh_def retk_def free_buf_def bindk_bindr)
qed simp_all

text \<open>The same for inodes: whoever gets past \<open>lock_inode\<close> found the inode unlocked and holds the lock.\<close>

lemma wait_on_inode_ends: "kinv s \<Longrightarrow> ends kinv (\<lambda>_ t. kinv t \<and> i_lock (inode_table t ! i) = 0) (wait_on_inode i s)"
  unfolding wait_on_inode_def
proof (rule ends_loopk [where I = kinv])
  fix x :: unit and s assume s: "kinv s"
  have "ends kinv (\<lambda>r t. case r of Inl y \<Rightarrow> kinv t | Inr z \<Rightarrow> kinv t \<and> i_lock (inode_table t ! i) = 0)
      (bindk (sleep_on (WInode i)) (\<lambda>_. retk (Inl ())) s)"
    by (intro kv_ends_bind [OF _ s]) (auto simp: retk_def intro: keeps_intros)
  then show "ends kinv (\<lambda>r t. case r of Inl y \<Rightarrow> kinv t | Inr z \<Rightarrow> kinv t \<and> i_lock (inode_table t ! i) = 0)
      (bindk (get_inode i) (\<lambda>n. if i_lock n \<noteq> 0 then bindk (sleep_on (WInode i)) (\<lambda>_. retk (Inl ())) else retk (Inr ())) s)"
    using s by (cases "i < length (inode_table s)") (auto simp: get_inode_def retk_def bindk_bindr)
qed simp_all

section \<open>Getting a buffer\<close>

text \<open>What a search for a block promises of the buffer it returns.\<close>

definition buf_of :: "int \<Rightarrow> int \<Rightarrow> nat \<Rightarrow> kstate \<Rightarrow> bool" where
  "buf_of dev block b s \<longleftrightarrow> free_buf b s \<and> bh_is dev block (bufs s ! b)"

lemma get_hash_table_ends:
  "kinv s \<Longrightarrow> ends kinv (\<lambda>r t. case r of None \<Rightarrow> kinv t | Some b \<Rightarrow> buf_of dev block b t) (get_hash_table dev block s)"
  unfolding get_hash_table_def
proof (rule ends_loopk [where I = kinv])
  let ?R = "\<lambda>r t. case r of Inl (y :: unit) \<Rightarrow> kinv t | Inr r \<Rightarrow> (case r of None \<Rightarrow> kinv t | Some b \<Rightarrow> buf_of dev block b t)"
  let ?g = "\<lambda>b. bindk (get_bh b) (\<lambda>h. if bh_is dev block h then retk (Inr (Some b)) else
         bindk (upd_bh b (\<lambda>h. h\<lparr>b_count := b_count h - 1\<rparr>)) (\<lambda>_. retk (Inl ())))"
  fix x :: unit and s assume s: "kinv s"
  have up: "keeps kinv (upd_bh b (\<lambda>h. h\<lparr>b_count := b_count h + d\<rparr>))" "keeps kinv (upd_bh b (\<lambda>h. h\<lparr>b_count := b_count h - d\<rparr>))" for b d
    by (intro keeps_intros; simp)+
  have drop: "ends kinv ?R (bindk (upd_bh b (\<lambda>h. h\<lparr>b_count := b_count h - 1\<rparr>)) (\<lambda>_. retk (Inl ())) t)" if "kinv t" for b t
    by (intro kv_ends_bind [OF up(2) that]) (simp add: retk_def)
  have g: "ends kinv ?R (?g b t)" if "free_buf b t" for b t
    using that drop [of t b] by (auto simp: free_buf_def buf_of_def get_bh_def retk_def)
  have wg: "ends kinv ?R (bindk (wait_on_buffer b) (\<lambda>_. ?g b) t)" if "kinv t" for b t
    by (rule ends_bindk, rule ends_mono [OF wait_on_buffer_ends [OF that]]) (rule g)
  have "ends kinv ?R ((case r of None \<Rightarrow> retk (Inr None) | Some b \<Rightarrow> bindk (upd_bh b (\<lambda>h. h\<lparr>b_count := b_count h + 1\<rparr>)) (\<lambda>_.
         bindk (wait_on_buffer b) (\<lambda>_. ?g b))) t)" if "kinv t" for r t
    using that by (cases r) (auto simp: retk_def intro!: kv_ends_bind [OF up(1)] wg)
  then show "ends kinv ?R (bindk (find_buffer dev block) (\<lambda>r. case r of None \<Rightarrow> retk (Inr None)
     | Some b \<Rightarrow> bindk (upd_bh b (\<lambda>h. h\<lparr>b_count := b_count h + 1\<rparr>)) (\<lambda>_. bindk (wait_on_buffer b) (\<lambda>_. ?g b))) s)"
    by (intro kv_ends_bind [OF _ s]) (unfold find_buffer_def find_step_def, intro keeps_intros)
qed

text \<open>Writing out a dirty buffer: afterwards it is unlocked, however long that took.\<close>

lemma flush_buffer_ends:
  assumes sy: "\<And>d. keeps kinv (sync d)"
  shows "free_buf b s \<Longrightarrow> ends kinv (\<lambda>_. free_buf b) (flush_buffer sync b s)"
  unfolding flush_buffer_def
proof (rule ends_loopk [where I = "free_buf b"])
  let ?R = "\<lambda>r t. case r of Inl (y :: unit) \<Rightarrow> free_buf b t | Inr (z :: bool) \<Rightarrow> free_buf b t"
  fix x :: unit and s assume s: "free_buf b s"
  have g: "ends kinv ?R (bindk (get_bh b) (\<lambda>h. if b_count h \<noteq> 0 then retk (Inr True) else retk (Inl ())) t)" if "free_buf b t" for t
    using that by (auto simp: free_buf_def get_bh_def retk_def bindk_bindr)
  have w: "ends kinv ?R (bindk (wait_on_buffer b) (\<lambda>_. bindk (get_bh b) (\<lambda>h. if b_count h \<noteq> 0 then retk (Inr True) else retk (Inl ()))) t)"
    if "kinv t" for t
    by (rule ends_bindk, rule ends_mono [OF wait_on_buffer_ends [OF that]]) (rule g)
  have "ends kinv ?R (bindk (sync d) (\<lambda>_. bindk (wait_on_buffer b) (\<lambda>_. bindk (get_bh b) (\<lambda>h. if b_count h \<noteq> 0 then retk (Inr True) else retk (Inl ())))) s)" for d
    using s by (intro kv_ends_bind [OF sy] w) (simp_all add: free_buf_def)
  then show "ends kinv ?R (bindk (get_bh b) (\<lambda>h. if b_dirt h = 0 then retk (Inr False) else bindk (sync (uint (b_dev h))) (\<lambda>_.
     bindk (wait_on_buffer b) (\<lambda>_. bindk (get_bh b) (\<lambda>h. if b_count h \<noteq> 0 then retk (Inr True) else retk (Inl ()))))) s)"
    using s by (auto simp: free_buf_def get_bh_def retk_def)
qed

text \<open>Taking the buffer over for the block.\<close>

lemma claim_ends:
  assumes "free_buf b s" "0 < dev" "dev < 2 ^ 16"
  shows "ends kinv (\<lambda>r t. case r of Inl y \<Rightarrow> kinv t | Inr b \<Rightarrow> buf_of dev block b t)
    (bindk (find_buffer dev block) (\<lambda>f. if f \<noteq> None then retk (Inl ()) else bindk (claim_buffer dev block b) (\<lambda>_. retk (Inr b))) s)"
proof -
  have k: "kinv s" "b < length (bufs s)" "b_lock (bufs s ! b) = 0" "cache_ok s" using assms(1) by (auto simp: free_buf_def kinv_def)
  obtain r where r: "find_buffer dev block s = Ok r s" "r = None \<longrightarrow> (\<forall>c < length (bufs s). \<not> bh_is dev block (bufs s ! c))"
    using find_buffer_complete [OF k(4) assms(2,3), of block] by (auto split: option.splits)
  show ?thesis
  proof (cases r)
    case None
    obtain hs fl where "cache_rel s hs fl" using k(4) by (auto simp: cache_ok_def)
    from claim_buffer_refines [OF this k(2), of dev block] r(2) None assms obtain t where t: "claim_buffer dev block b s = Ok () t"
      "map strip (bufs t) = (map strip (bufs s))[b := strip ((bufs s ! b)\<lparr>b_count := 1, b_dirt := 0, b_uptodate := 0,
        b_dev := word_of_int dev, b_blocknr := word_of_int block\<rparr>)]" by auto
    have "keeps kinv (bindk (find_buffer dev block) (\<lambda>f. if f \<noteq> None then retk (Inl ()) else bindk (claim_buffer dev block b) (\<lambda>_. retk (Inr b))))"
      using kv.Q_claim assms(2,3) by simp
    then have kt: "kinv t" using k(1) r(1) None t(1) by (auto simp: keeps_def retk_def)
    have l: "length (bufs t) = length (bufs s)" using arg_cong [OF t(2), of length] by simp
    then have "strip (bufs t ! b) = strip ((bufs s ! b)\<lparr>b_count := 1, b_dirt := 0, b_uptodate := 0, b_dev := word_of_int dev, b_blocknr := word_of_int block\<rparr>)"
      using arg_cong [OF t(2), of "\<lambda>xs. xs ! b"] k(2) by simp
    then have "b_dev (bufs t ! b) = word_of_int dev" "b_blocknr (bufs t ! b) = word_of_int block" "b_lock (bufs t ! b) = b_lock (bufs s ! b)"
      by (auto simp: strip_def buffer_head.equality dest: arg_cong [of _ _ b_dev] arg_cong [of _ _ b_blocknr] arg_cong [of _ _ b_lock])
    then have "buf_of dev block b t" using k(2,3) kt l assms(2,3) by (simp add: buf_of_def free_buf_def bh_is_def take_bit_int_eq_self unsigned_of_int)
    then show ?thesis using r(1) None t(1) by (simp add: retk_def)
  qed (use r(1) k(1) in \<open>simp add: retk_def\<close>)
qed

lemma getblk_round_ends:
  assumes sy: "\<And>d. keeps kinv (sync d)" and s: "kinv s" and d: "0 < dev" "dev < 2 ^ 16"
  shows "ends kinv (\<lambda>r t. case r of Inl y \<Rightarrow> kinv t | Inr b \<Rightarrow> buf_of dev block b t) (getblk_round sync dev block s)"
proof -
  let ?R = "\<lambda>r t. case r of Inl (y :: unit) \<Rightarrow> kinv t | Inr b \<Rightarrow> buf_of dev block b t"
  let ?c = "\<lambda>b. bindk (find_buffer dev block) (\<lambda>f. if f \<noteq> None then retk (Inl ()) else bindk (claim_buffer dev block b) (\<lambda>_. retk (Inr b)))"
  let ?f = "\<lambda>b. bindk (flush_buffer sync b) (\<lambda>again. if again then retk (Inl ()) else ?c b)"
  let ?g = "\<lambda>b. bindk (get_bh b) (\<lambda>h. if b_count h \<noteq> 0 then retk (Inl ()) else ?f b)"
  let ?p = "bindk pick_buffer (\<lambda>r. case r of None \<Rightarrow> bindk (sleep_on WBufferWait) (\<lambda>_. retk (Inl ()))
     | Some b \<Rightarrow> bindk (wait_on_buffer b) (\<lambda>_. ?g b))"
  have c: "ends kinv ?R ((if again then retk (Inl ()) else ?c b) t)" if "free_buf b t" for again b t
    using claim_ends [OF that d] that by (auto simp: retk_def free_buf_def)
  have f: "ends kinv ?R (?f b t)" if "free_buf b t" for b t
    by (rule ends_bindk, rule ends_mono [OF flush_buffer_ends [OF sy that]]) (rule c)
  have g: "ends kinv ?R (?g b t)" if "free_buf b t" for b t
    using that f [OF that] by (auto simp: free_buf_def get_bh_def retk_def)
  have w: "ends kinv ?R (bindk (wait_on_buffer b) (\<lambda>_. ?g b) t)" if "kinv t" for b t
    by (rule ends_bindk, rule ends_mono [OF wait_on_buffer_ends [OF that]]) (rule g)
  have sl: "ends kinv ?R (bindk (sleep_on WBufferWait) (\<lambda>_. retk (Inl ())) t)" if "kinv t" for t
    by (intro kv_ends_bind [OF _ that]) (auto simp: retk_def intro: keeps_intros)
  have pk: "keeps kinv pick_buffer" unfolding pick_buffer_def pick_buffer_step_def Let_def
    by (intro keeps_intros; auto intro!: keeps_intros split: prod.splits)
  have p: "ends kinv ?R (?p t)" if "kinv t" for t
    by (rule kv_ends_bind [OF pk that]) (auto split: option.splits intro: sl w)
  have "ends kinv ?R ((case r of Some b \<Rightarrow> retk (Inr b) | None \<Rightarrow> ?p) t)" if "case r of None \<Rightarrow> kinv t | Some b \<Rightarrow> buf_of dev block b t" for r t
  proof (cases r)
    case None
    then show ?thesis using p that by simp
  next
    case (Some b)
    then show ?thesis using that by (simp add: retk_def)
  qed
  then show ?thesis unfolding getblk_round_def by (intro ends_bindk ends_mono [OF get_hash_table_ends [OF s]])
qed

lemma getblk_ends:
  assumes "kinv s" "0 < dev" "dev < 2 ^ 16"
  shows "ends kinv (buf_of dev block) (getblk dev block s)"
  unfolding getblk_def getblk_gen_def
  by (rule ends_loopk [where I = kinv, OF getblk_round_ends]) (use assms kv_sync_dev in auto)

text \<open>In a well-formed cache no other buffer is of the block.\<close>

lemma buf_of_unique:
  assumes "buf_of dev block b s" "0 < dev" "c < length (bufs s)" "bh_is dev block (bufs s ! c)"
  shows "c = b"
proof -
  have "unique_blocks s" using assms(1) by (auto simp: buf_of_def free_buf_def kinv_def cache_ok_def cache_rel_def)
  moreover have "b < length (bufs s)" "bh_is dev block (bufs s ! b)" using assms(1) by (simp_all add: buf_of_def free_buf_def)
  moreover have "b_dev (bufs s ! c) \<noteq> 0" using assms(2,4) by (auto simp: bh_is_def)
  ultimately show ?thesis using assms(3,4) unfolding unique_blocks_def bh_is_def by (metis unsigned_word_eqI)
qed

end
