(* ===== verification/Mktime.thy ===== *)
theory Mktime
  imports Sched
begin

text \<open>
  The clock at startup: \<open>kernel/mktime.c\<close> and \<open>time_init\<close> of \<open>startup/machine_main.c\<close>.

  \<open>struct tm\<close> has \<open>int\<close> fields. The sums that C computes in \<open>int\<close> before they are widened to \<open>int64_t\<close> go
  through \<open>c_int\<close>: within the range of \<open>int\<close> it is the identity, beyond it is the wrapped value the RISC-V
  multiplication gives (C leaves it undefined). The reference is a calendar that counts days.
\<close>

record tm =
  tm_sec :: int
  tm_min :: int
  tm_hour :: int
  tm_mday :: int
  tm_mon :: int
  tm_year :: int

abbreviation "MINUTE \<equiv> (60 :: int)"
abbreviation "HOUR \<equiv> (3600 :: int)"
abbreviation "DAY \<equiv> (86400 :: int)"
abbreviation "YEAR \<equiv> (31536000 :: int)"

definition month :: "int list" where
  "month = [0, DAY * 31, DAY * (31 + 29), DAY * (31 + 29 + 31), DAY * (31 + 29 + 31 + 30), DAY * (31 + 29 + 31 + 30 + 31),
     DAY * (31 + 29 + 31 + 30 + 31 + 30), DAY * (31 + 29 + 31 + 30 + 31 + 30 + 31), DAY * (31 + 29 + 31 + 30 + 31 + 30 + 31 + 31),
     DAY * (31 + 29 + 31 + 30 + 31 + 30 + 31 + 31 + 30), DAY * (31 + 29 + 31 + 30 + 31 + 30 + 31 + 31 + 30 + 31),
     DAY * (31 + 29 + 31 + 30 + 31 + 30 + 31 + 31 + 30 + 31 + 30)]"

text \<open>\<open>>> 2\<close> on an \<open>int\<close> rounds down, \<open>& 3\<close> is the remainder of that division.\<close>

definition kernel_mktime :: "tm \<Rightarrow> int K" where
  "kernel_mktime tm = (let year = c_int (tm_year tm - 70) in
     if tm_mon tm < 0 then faultk else
     bindk (nthk month (nat (tm_mon tm))) (\<lambda>m.
     let res = c_int (YEAR * year + DAY * ((year + 1) div 4)) + m;
       res = (if tm_mon tm > 1 \<and> (year + 2) mod 4 \<noteq> 0 then res - DAY else res) in
     retk (res + c_int (DAY * (tm_mday tm + 1)) + c_int (HOUR * tm_hour tm) + c_int (MINUTE * tm_min tm) + tm_sec tm)))"

definition time_init :: "unit K" where
  "time_init = bindk (kernel_mktime \<lparr>tm_sec = 12, tm_min = 51, tm_hour = 22, tm_mday = 20, tm_mon = 11, tm_year = 2019\<rparr>) (\<lambda>t.
     modk (\<lambda>s. s\<lparr>startup_time := t\<rparr>))"

section \<open>The calendar\<close>

definition leap :: "nat \<Rightarrow> bool" where
  "leap y \<longleftrightarrow> (4 dvd y \<and> \<not> 100 dvd y) \<or> 400 dvd y"

definition month_days :: "nat \<Rightarrow> nat list" where
  "month_days y = [31, if leap y then 29 else 28, 31, 30, 31, 30, 31, 31, 30, 31, 30, 31]"

text \<open>The days before a date, counted from 1 January 1970; months from 0 and days from 1, as in \<open>struct tm\<close>.\<close>

definition days_before :: "nat \<Rightarrow> nat \<Rightarrow> nat \<Rightarrow> int" where
  "days_before y m d = (\<Sum>k \<leftarrow> [1970..<y]. int (sum_list (month_days k))) + int (sum_list (take m (month_days y))) + int d - 1"

definition epoch_seconds :: "nat \<Rightarrow> nat \<Rightarrow> nat \<Rightarrow> int \<Rightarrow> int \<Rightarrow> int \<Rightarrow> int" where
  "epoch_seconds y m d h mi sec = DAY * days_before y m d + HOUR * h + MINUTE * mi + sec"

text \<open>Between 1901 and 2099 every fourth year is a leap year.\<close>

lemma leap_iff:
  assumes "1901 \<le> y" "y < 2100"
  shows "leap y \<longleftrightarrow> y mod 4 = 0"
proof (cases "100 dvd y")
  case True
  then obtain k where "y = 100 * k" by (elim dvdE)
  with assms have "y = 2000" by presburger
  then show ?thesis by (simp add: leap_def)
next
  case False
  then show ?thesis using dvd_trans [of 100 400 y] by (auto simp: leap_def mod_eq_0_iff_dvd)
qed

lemma year_sum: "1901 \<le> y \<Longrightarrow> y < 2100 \<Longrightarrow> sum_list (month_days y) = (if y mod 4 = 0 then 366 else 365)"
  by (simp add: month_days_def leap_iff)

lemma year_days: "int n \<le> 129 \<Longrightarrow> (\<Sum>k \<leftarrow> [1970..<1970 + n]. int (sum_list (month_days k))) = 365 * int n + (int n + 1) div 4"
proof (induction n)
  case (Suc n)
  have "(int n + 2) div 4 = (int n + 1) div 4 + (if (1970 + n) mod 4 = 0 then 1 else 0)" by presburger
  moreover have "[1970..<1970 + Suc n] = [1970..<1970 + n] @ [1970 + n]" using upt_Suc_append [of 1970 "1970 + n"] by (simp only: add_Suc_right le_add1)
  ultimately show ?case using Suc year_sum [of "1970 + n"] by (simp only: map_append sum_list_append) (simp add: add.commute)
qed simp

lemma month_sum:
  assumes "1901 \<le> y" "y < 2100" "m < 12"
  shows "month ! m - (if m > 1 \<and> y mod 4 \<noteq> 0 then DAY else 0) = DAY * int (sum_list (take m (month_days y)))"
proof -
  have "m = 0 \<or> m = 1 \<or> m = 2 \<or> m = 3 \<or> m = 4 \<or> m = 5 \<or> m = 6 \<or> m = 7 \<or> m = 8 \<or> m = 9 \<or> m = 10 \<or> m = 11"
    using assms(3) by presburger
  then show ?thesis using leap_iff [OF assms(1,2)] by (elim disjE) (simp_all add: month_def month_days_def)
qed

text \<open>C36: \<open>kernel_mktime\<close> against a calendar that counts days. For every date from 1970 to 2038 (years since 1900 as
  \<open>struct tm\<close> has them) it returns the seconds since 1 January 1970, leap days in the right places, plus
  two days: the code adds the day of the month and one where a day of the month counts from one.\<close>

theorem kernel_mktime_calendar:
  assumes "1970 \<le> y" "y \<le> 2038" "m < 12" "1 \<le> d" "d \<le> 31" "0 \<le> h" "h < 24" "0 \<le> mi" "mi < 60"
  shows "kernel_mktime \<lparr>tm_sec = sec, tm_min = mi, tm_hour = h, tm_mday = int d, tm_mon = int m, tm_year = int y - 1900\<rparr> s =
    Ok (epoch_seconds y m d h mi sec + 2 * DAY) s"
proof -
  define n where "n = y - 1970"
  have y: "y = 1970 + n" "int n \<le> 68" using assms(1,2) by (simp_all add: n_def)
  have yr: "c_int (int y - 1900 - 70) = int n" using y by (simp add: c_int_id)
  have ds: "c_int (YEAR * int n + DAY * ((int n + 1) div 4)) = YEAR * int n + DAY * ((int n + 1) div 4)"
    "c_int (DAY * (int d + 1)) = DAY * (int d + 1)" "c_int (HOUR * h) = HOUR * h" "c_int (MINUTE * mi) = MINUTE * mi"
    using y(2) assms by (intro c_int_id; simp)+
  have lp: "(int n + 2) mod 4 \<noteq> 0 \<longleftrightarrow> y mod 4 \<noteq> 0" using y(1) by presburger
  have yd: "(\<Sum>k \<leftarrow> [1970..<y]. int (sum_list (month_days k))) = 365 * int n + (int n + 1) div 4" using year_days [of n] y by simp
  have ms: "month ! m - (if m > 1 \<and> y mod 4 \<noteq> 0 then DAY else 0) = DAY * int (sum_list (take m (month_days y)))"
    by (rule month_sum) (use assms in simp_all)
  have "length month = 12" by (simp add: month_def)
  then show ?thesis using assms(3) yr ds lp ms unfolding kernel_mktime_def epoch_seconds_def days_before_def yd
    by (simp add: Let_def nthk_def retk_def algebra_simps split: if_splits)
qed

theorem kernel_mktime_calendar_witness:
  "kernel_mktime \<lparr>tm_sec = 12, tm_min = 51, tm_hour = 22, tm_mday = 20, tm_mon = 11, tm_year = 119\<rparr> kernel_image =
    Ok (epoch_seconds 2019 11 20 22 51 12 + 2 * DAY) kernel_image"
  using kernel_mktime_calendar [of 2019 11 20 22 51 12 kernel_image] by simp

text \<open>\<open>time_init\<close> gives the year as 2019 where \<open>kernel_mktime\<close> expects years since 1900: the product of years
  and seconds leaves the range of \<open>int\<close>, and the clock starts at the wrapped value, which lies in the year 2014.\<close>

lemma time_init_wraps:
  "time_init s = Ok () (s\<lparr>startup_time := 1406952928\<rparr>) \<and> YEAR * (2019 - 70) > 2 ^ 31 - 1 \<and>
    epoch_seconds 2014 0 1 0 0 0 < 1406952928 \<and> 1406952928 < epoch_seconds 2015 0 1 0 0 0"
proof -
  have "c_int 1949 = 1949" "c_int 1814400 = 1814400" "c_int 79200 = 79200" "c_int 3060 = 3060" by (simp_all add: c_int_id)
  moreover have "c_int 61505740800 = 1376198656" by (simp add: c_int_def)
  ultimately have "time_init s = Ok () (s\<lparr>startup_time := 1406952928\<rparr>)"
    by (simp add: time_init_def kernel_mktime_def Let_def month_def nthk_def modk_def)
  moreover have "epoch_seconds 2014 0 1 0 0 0 = 1388534400" "epoch_seconds 2015 0 1 0 0 0 = 1420070400"
    using year_days [of 44] year_days [of 45] by (simp_all add: epoch_seconds_def days_before_def)
  ultimately show ?thesis by simp
qed

end
