(* ===== verification/Kernel.thy ===== *)
theory Kernel
  imports Exec Mktime
begin

text \<open>
  The kernel as a whole: start-up (\<open>startup/machine_main.c\<close>), the system call table (\<open>include/linux/sys.h\<close>) with its
  assembly entry (\<open>kernel/system_call.S\<close>), the trap handlers (\<open>trap/machine_exception.c\<close>, \<open>trap/machine_interrupt.c\<close>),
  and the states a run of the system goes through.

  What the C code takes from elsewhere is the record \<open>kenv\<close>: the address of the assembly label \<open>fork_process_exit\<close>, the
  bytes a structure on the stack holds before it is filled in, and the address of the local buffer of \<open>do_execve\<close>.
  An endless loop of the source (\<open>while(1);\<close>) is the outcome \<open>NoFuel\<close>.
\<close>

record kenv =
  e_fork_exit :: ulong
  e_pad :: "u8 list"
  e_stk :: ulong

definition hangk :: "'a K" where "hangk = (\<lambda>s. NoFuel)"

section \<open>startup/machine_main.c\<close>

text \<open>The eight entries of \<open>page_root_table\<close>: the kernel's gigabyte from \<open>0x80000000\<close>, the user's from \<open>0xC0000000\<close>.\<close>

definition root_table :: "ulong \<Rightarrow> ulong list" where
  "root_table dir = (let ptr = pte_common_enable_entry (pte_common_set_accessibility pte_accessibility_pointer 0) in
     [0, 0, pte_common_enable_user (pte_common_enable_entry (pte_common_set_accessibility pte_accessibility_all (pte_common_addr_to_ppn 0x80000000 0))),
      pte_common_enable_user (pte_common_addr_to_ppn dir ptr), ptr, ptr, ptr, ptr])"

text \<open>The data \<open>machine_main\<close> sets up before it enters user mode. \<open>dir\<close> is the address of \<open>init_task_page_dir_table\<close>,
  \<open>start\<close> and \<open>buffer_end\<close> are the linker symbols of the buffer area, \<open>junk\<close> is what the area held. \<open>chr_dev_init\<close> is
  empty and \<open>tty_init\<close> registers interrupt handlers.\<close>

definition machine_main :: "ulong \<Rightarrow> nat \<Rightarrow> nat \<Rightarrow> (nat \<Rightarrow> buffer_head) \<Rightarrow> unit K" where
  "machine_main dir start buffer_end junk =
     bindk (modk (\<lambda>s. s\<lparr>page_root_table := root_table (page_dir_table s)\<rparr>)) (\<lambda>_.
     bindk (modk (\<lambda>s. s\<lparr>ROOT_DEV := 0x0101\<rparr>)) (\<lambda>_.
     bindk (rd_init 0x5A000) (\<lambda>_.
     bindk (mem_init 0x80100000 0x80600000) (\<lambda>_.
     bindk blk_dev_init (\<lambda>_.
     bindk time_init (\<lambda>_.
     bindk (sched_init dir) (\<lambda>_.
     buffer_init start buffer_end junk)))))))"

definition sys_setup :: "int K" where
  "sys_setup = bindk rd_load (\<lambda>_. bindk mount_root (\<lambda>_. retk 0))"

section \<open>kernel/system_call.S\<close>

text \<open>When there is no free slot the branch goes to the \<open>ret\<close>, with the return address of the call of
  \<open>find_empty_process\<close> still in \<open>ra\<close>: it returns to the branch, for ever.\<close>

definition sys_fork :: "kenv \<Rightarrow> int K" where
  "sys_fork e = bindk find_empty_process (\<lambda>nr. if nr < 0 then hangk else copy_process (e_fork_exit e) (nat nr))"

definition sys_execve :: "kenv \<Rightarrow> ulong \<Rightarrow> ulong \<Rightarrow> ulong \<Rightarrow> int K" where
  "sys_execve e filename argv envp = do_execve (e_stk e) filename argv envp"

text \<open>\<open>sys_getegid: ret\<close> leaves its argument register as the result.\<close>

definition sys_getegid :: "ulong \<Rightarrow> int K" where "sys_getegid a = retk (sint a)"

text \<open>An \<open>unsigned int\<close> and an \<open>int\<close> argument are the low 32 bits of the register.\<close>

abbreviation "uarg a \<equiv> unat (ucast (a :: ulong) :: u32)"
abbreviation "carg a \<equiv> to_int32 (a :: ulong)"

definition sys_call_table :: "kenv \<Rightarrow> ulong \<Rightarrow> ulong \<Rightarrow> ulong \<Rightarrow> (nat \<times> int K) list" where
  "sys_call_table e a b c =
    [(0, sys_setup), (1, sys_fork e), (2, sys_waitpid (carg a) b (carg c)), (3, sys_creat a (ucast b)), (4, sys_execve e a b c),
     (5, sys_mknod a (ucast b) (carg c)), (6, sys_chmod a (ucast b)), (7, sys_chown a (carg b) (carg c)), (8, sys_break),
     (9, sys_mount (namei a) (namei b)), (10, sys_umount (namei a)), (11, sys_setuid (carg a)), (12, sys_stime a), (13, sys_ptrace),
     (14, sys_alarm (sint a)), (15, sys_pause), (16, sys_utime a b), (18, sys_stty), (19, sys_gtty), (20, sys_nice (sint a)), (21, sys_ftime),
     (22, sys_sync), (23, sys_dup (uarg a)), (24, sys_rename), (25, sys_fcntl (uarg a) (uarg b) c), (26, sys_rmdir a), (27, sys_pipe a),
     (28, sys_prof), (29, sys_setgid (carg a)), (30, sys_signal (carg a) b c), (31, sys_acct), (32, sys_phys), (33, sys_lock),
     (34, sys_ioctl (e_pad e) (uarg a) (carg b) c), (35, sys_mpx), (36, sys_setpgid (carg a) (carg b)), (37, sys_ulimit), (38, sys_umask (ucast a)),
     (39, sys_chroot a), (40, sys_ustat), (41, sys_dup2 (uarg a) (uarg b)), (42, sys_getppid), (43, sys_getpgrp), (44, sys_setsid),
     (45, sys_sigaction (carg a) b c), (46, sys_sgetmask), (47, sys_ssetmask (carg a)), (49, sys_chdir a), (50, sys_setreuid (carg a) (ucast b)),
     (51, sys_setregid (carg a) (carg b)), (52, sys_debug a), (57, sys_close (uarg a)), (62, sys_lseek (uarg a) (sint b) (carg c)),
     (63, sys_read (uarg a) b (carg c)), (64, sys_write (uarg a) b (carg c)), (80, sys_fstat (e_pad e) (uarg a) b), (93, sys_exit (carg a)),
     (129, sys_kill (carg a) (carg b)), (153, sys_times a), (160, sys_uname a), (172, sys_getpid), (174, sys_getuid), (175, sys_geteuid),
     (176, sys_getgid), (177, sys_getegid a), (214, sys_brk a), (1024, sys_open a (ucast b) (ucast c)), (1025, sys_link a b),
     (1026, sys_unlink a), (1030, sys_mkdir a (ucast b)), (1033, sys_access a (ucast b)), (1038, sys_stat (e_pad e) a b), (1062, sys_time a)]"

abbreviation "nr_system_calls \<equiv> (2048 :: int)"

text \<open>\<open>bitscan\<close> of \<open>common.c\<close>: the lowest bit that is set, or \<open>-1\<close>.\<close>

definition bitscan :: "ulong \<Rightarrow> int" where
  "bitscan v = (case List.find (bit v) [0..<64] of None \<Rightarrow> - 1 | Some i \<Rightarrow> int i)"

text \<open>The variable that would let signals be delivered is 0 in the image, and no code assigns it.\<close>

definition syscall_from_kernel :: ulong where "syscall_from_kernel = 0"

definition ret_from_sys_call :: "unit K" where
  "ret_from_sys_call = bindk (getk id) (\<lambda>s. let c = cur_task s; w = t_signal c AND NOT (t_blocked c); n = bitscan w in
     if current s = task s ! 0 \<or> syscall_from_kernel = 0 \<or> n = - 1 then retk ()
     else bindk (upd_cur (\<lambda>t. t\<lparr>t_signal := w AND NOT (push_bit (nat n) 1)\<rparr>)) (\<lambda>_. do_signal (n + 1)))"

text \<open>
  The number is compared as a signed value. A negative number reads before the table and an entry that is NULL
  is jumped to: both are faults. \<open>bad_sys_call\<close> returns \<open>-1\<close> without taking its 16 bytes off the stack, so the caller
  goes on with a wrong stack: a fault too.
\<close>

definition system_call :: "kenv \<Rightarrow> ulong \<Rightarrow> ulong \<Rightarrow> ulong \<Rightarrow> ulong \<Rightarrow> int K" where
  "system_call e nr a b c = (if nr_system_calls - 1 - sint nr < 0 \<or> sint nr < 0 then faultk else
     case map_of (sys_call_table e a b c) (unat nr) of None \<Rightarrow> faultk
     | Some m \<Rightarrow> bindk m (\<lambda>r. bindk ret_from_sys_call (\<lambda>_. retk r)))"

section \<open>trap/machine_exception.c, trap/machine_interrupt.c\<close>

abbreviation "reg_a7 \<equiv> (17 :: nat)"
abbreviation "CAUSE_instruction_access_fault \<equiv> (1 :: nat)"
abbreviation "CAUSE_load_access_fault \<equiv> (5 :: nat)"
abbreviation "CAUSE_store_or_amo_access_fault \<equiv> (7 :: nat)"
abbreviation "CAUSE_environment_call_from_u_mode \<equiv> (8 :: nat)"
abbreviation "CAUSE_environment_call_from_m_mode \<equiv> (11 :: nat)"

text \<open>\<open>trap_info\<close> points at the frame of the current trap and is saved on entry and put back on return. The handler
  returns the address to go on at and the registers of the frame.\<close>

definition trap_frame :: "ulong \<Rightarrow> ulong \<Rightarrow> ulong list \<Rightarrow> ulong list \<Rightarrow> unit K \<Rightarrow> (ulong \<times> ulong list) K" where
  "trap_frame epc newepc regs fregs body = bindk (getk id) (\<lambda>old.
     bindk (modk (\<lambda>s. s\<lparr>trap_regs := regs, trap_fregs := fregs, trap_epc := epc, trap_newepc := newepc\<rparr>)) (\<lambda>_.
     bindk body (\<lambda>_. bindk (getk (\<lambda>s. (trap_newepc s, trap_regs s))) (\<lambda>r.
     bindk (modk (\<lambda>s. s\<lparr>trap_regs := trap_regs old, trap_fregs := trap_fregs old, trap_epc := trap_epc old, trap_newepc := trap_newepc old\<rparr>)) (\<lambda>_.
     retk r)))))"

definition is_access_fault :: "nat \<Rightarrow> bool" where
  "is_access_fault cause \<longleftrightarrow> cause = CAUSE_load_access_fault \<or> cause = CAUSE_store_or_amo_access_fault \<or> cause = CAUSE_instruction_access_fault"

definition is_env_call :: "nat \<Rightarrow> bool" where
  "is_env_call cause \<longleftrightarrow> CAUSE_environment_call_from_u_mode \<le> cause \<and> cause \<le> CAUSE_environment_call_from_m_mode"

text \<open>The second \<open>switch\<close>; a call from supervisor mode (\<open>machine_syscall\<close>) only sets an interrupt enable bit.\<close>

definition exception_body :: "kenv \<Rightarrow> nat \<Rightarrow> ulong \<Rightarrow> ulong \<Rightarrow> unit K" where
  "exception_body e cause epc badaddr =
     (if cause = CAUSE_instruction_access_fault \<or> cause = CAUSE_load_access_fault then
        bindk (modk (\<lambda>s. s\<lparr>trap_newepc := epc\<rparr>)) (\<lambda>_. do_no_page badaddr)
      else if cause = CAUSE_store_or_amo_access_fault then
        bindk (modk (\<lambda>s. s\<lparr>trap_newepc := epc\<rparr>)) (\<lambda>_. machine_exception_store_or_amo_access_fault badaddr)
      else if cause = CAUSE_environment_call_from_u_mode then
        bindk (getk trap_regs) (\<lambda>rs. bindk (system_call e (rs ! reg_a7) (rs ! reg_a0) (rs ! reg_a1) (rs ! reg_a2)) (\<lambda>r.
          modk (\<lambda>s. s\<lparr>trap_regs := (trap_regs s)[reg_a0 := word_of_int r]\<rparr>)))
      else retk ())"

text \<open>\<open>from_machine\<close>: the trap came from machine mode (\<open>privilege_get_previous_level()\<close>); \<open>badaddr\<close> is the register
  \<open>mbadaddr\<close>. An exception the kernel cannot handle ends in an endless loop.\<close>

definition machine_exception_handler :: "kenv \<Rightarrow> nat \<Rightarrow> ulong \<Rightarrow> ulong list \<Rightarrow> ulong list \<Rightarrow> bool \<Rightarrow> ulong \<Rightarrow> (ulong \<times> ulong list) K" where
  "machine_exception_handler e cause epc regs fregs from_machine badaddr = trap_frame epc (epc + 4) regs fregs
     (if \<not> is_env_call cause \<and> (\<not> is_access_fault cause \<or> from_machine \<or> badaddr < USER_START_ADDR) then hangk
      else bindk (exception_body e cause epc badaddr) (\<lambda>_. if is_env_call cause \<or> is_access_fault cause then retk () else hangk))"

definition timer_interrupt :: "bool \<Rightarrow> unit K" where "timer_interrupt user = do_timer user"

abbreviation "CAUSE_machine_external \<equiv> (11 :: nat)"

text \<open>\<open>irq\<close> is the handler the interrupt controller code (\<open>handle_irq_m_ext\<close> of the board support package) calls for the
  device that interrupted: one of those registered with it.\<close>

definition machine_interrupt_handler :: "unit K \<Rightarrow> nat \<Rightarrow> ulong \<Rightarrow> ulong list \<Rightarrow> ulong list \<Rightarrow> (ulong \<times> ulong list) K" where
  "machine_interrupt_handler irq cause epc regs fregs =
     bindk (trap_frame epc epc regs fregs (if cause = CAUSE_machine_external then irq else retk ())) (\<lambda>r.
       if fst r < 0x80000000 then hangk else retk r)"

section \<open>Runs of the system\<close>

text \<open>The handlers \<open>sched_init\<close> and \<open>rs_init\<close> register.\<close>

inductive irq_handler :: "unit K \<Rightarrow> bool" where
  timer: "irq_handler (timer_interrupt user)"
| uart_send: "irq_handler serial_send_interrupt"
| uart_receive: "irq_handler (serial_rev_interrupt c)"

text \<open>What a trap does, with \<open>do_exit\<close> run where the current process is to die.\<close>

primrec run_exit :: "(kstate, 'a) res \<Rightarrow> (kstate, unit) res" where
  "run_exit (Ok x s) = Ok () s"
| "run_exit (Sleep s k) = Sleep s (\<lambda>u. run_exit (k u))"
| "run_exit (Die c s) = do_exit c s"
| "run_exit (Panic e) = Panic e"
| "run_exit Fault = Fault"
| "run_exit NoFuel = NoFuel"

text \<open>
  A configuration of the machine: the state of the kernel and, for every task that has switched away inside the
  kernel, how it goes on, which is what its kernel stack holds. A task that has none runs in user mode when it is chosen.
  A task structure that has just been entered into \<open>task[]\<close> belongs to a new process with a stack of its own.
\<close>

type_synonym suspended = "ulong \<rightharpoonup> unit K"

definition started :: "kstate \<Rightarrow> kstate \<Rightarrow> suspended \<Rightarrow> suspended" where
  "started s t K = (\<lambda>p. if p \<in> set (task t) \<and> p \<notin> set (task s) then None else K p)"

text \<open>The configuration after task \<open>p\<close> has run in the kernel from state \<open>s\<close>; a panic, a fault and an endless loop leave none.\<close>

definition leaves :: "ulong \<Rightarrow> kstate \<Rightarrow> suspended \<Rightarrow> (kstate, unit) res \<Rightarrow> (kstate \<times> suspended) option" where
  "leaves p s K r = (case r of Ok _ t \<Rightarrow> Some (t, started s t (K(p := None)))
     | Sleep t k \<Rightarrow> Some (t, started s t (K(p \<mapsto> k))) | _ \<Rightarrow> None)"

text \<open>One step: the program of the current task is interrupted by an exception or an interrupt, or stores a byte; or the
  current task has been chosen again and goes on in the kernel. Between two switches kernel code is not interrupted.\<close>

inductive kstep :: "kstate \<times> suspended \<Rightarrow> kstate \<times> suspended \<Rightarrow> bool" where
  exception: "K (current s) = None \<Longrightarrow> length regs = 32 \<Longrightarrow>
     leaves (current s) s K (run_exit (machine_exception_handler e cause epc regs fregs from_machine badaddr s)) = Some c \<Longrightarrow> kstep (s, K) c"
| interrupt: "K (current s) = None \<Longrightarrow> irq_handler irq \<Longrightarrow> length regs = 32 \<Longrightarrow>
     leaves (current s) s K (run_exit (machine_interrupt_handler irq cause epc regs fregs s)) = Some c \<Longrightarrow> kstep (s, K) c"
| user_store: "K (current s) = None \<Longrightarrow> kstep (s, K) (s\<lparr>pmem := (pmem s)(a := v)\<rparr>, K)"
| resume: "K (current s) = Some k \<Longrightarrow> leaves (current s) s K (k s) = Some c \<Longrightarrow> kstep (s, K) c"

inductive_cases kstepE: "kstep (s, K) c"

text \<open>From the kernel image with any ram disk, through \<open>machine_main\<close>.\<close>

inductive reachable :: "kstate \<times> suspended \<Rightarrow> bool" where
  boot: "2 \<le> buffer_count start buffer_end \<Longrightarrow> (\<And>i. length (b_data (junk i)) = BLOCK_SIZE) \<Longrightarrow>
     machine_main dir start buffer_end junk (kernel_image\<lparr>rd_mem := im\<rparr>) = Ok () s \<Longrightarrow> reachable (s, Map.empty)"
| step: "reachable c \<Longrightarrow> kstep c d \<Longrightarrow> reachable d"

section \<open>Every entry into the kernel keeps the invariant\<close>

lemma kv_hang [keeps_intros]: "keeps Q hangk"
  by (simp add: keeps_def hangk_def)

lemma kv_root_dev:
  assumes "keeps kinv (k 0x0101)"
  shows "keeps kinv (bindk (getk ROOT_DEV) k)"
  using assms by (auto simp: keeps_def bindk_def getk_def kinv_def boot_shape_def)

lemma kv_mount_root [keeps_intros]: "keeps kinv mount_root"
proof -
  have init: "keeps kinv (modk (\<lambda>s. s\<lparr>file_table := map (\<lambda>f. f\<lparr>f_count := 0\<rparr>) (file_table s),
        super_block := map (\<lambda>p. p\<lparr>s_dev := 0, s_lock := 0, s_wait := 0\<rparr>) (super_block s)\<rparr>))"
    using cache_ok_data_step [OF data_step_other]
    by (intro keeps_modk) (auto simp: kinv_def fs_tables_def boot_shape_def)
  show ?thesis unfolding mount_root_def by (intro keeps_bindk init kv_root_dev keeps_intros; simp)
qed

lemma kv_sys_setup [keeps_intros]: "keeps kinv sys_setup"
  unfolding sys_setup_def rd_load_def by (intro keeps_intros)

lemma kv_sched_calls [keeps_intros]: "keeps kinv (sys_alarm n)" "keeps kinv sys_pause" "keeps kinv (sys_nice n)" "keeps kinv sys_getpid"
    "keeps kinv sys_getppid" "keeps kinv sys_getuid" "keeps kinv sys_geteuid" "keeps kinv sys_getgid" "keeps kinv (sys_getegid a)"
  unfolding sys_alarm_def sys_pause_def sys_nice_def sys_getpid_def sys_getppid_def sys_getuid_def sys_geteuid_def sys_getgid_def sys_getegid_def
  by (intro keeps_intros)+

lemma kv_no_sys [keeps_intros]: "keeps kinv sys_ftime" "keeps kinv sys_break" "keeps kinv sys_ptrace" "keeps kinv sys_stty" "keeps kinv sys_gtty"
    "keeps kinv sys_rename" "keeps kinv sys_prof" "keeps kinv sys_acct" "keeps kinv sys_phys" "keeps kinv sys_lock" "keeps kinv sys_mpx" "keeps kinv sys_ulimit"
  unfolding sys_ftime_def sys_break_def sys_ptrace_def sys_stty_def sys_gtty_def sys_rename_def sys_prof_def sys_acct_def sys_phys_def sys_lock_def
    sys_mpx_def sys_ulimit_def by (intro keeps_intros)+

lemma kv_fork_exec [keeps_intros]: "keeps kinv (sys_fork e)" "keeps kinv (sys_execve e f a v)"
  unfolding sys_fork_def sys_execve_def by (intro keeps_intros)+

lemma kv_sys_call_table: "(n, m) \<in> set (sys_call_table e a b c) \<Longrightarrow> keeps kinv m"
  unfolding sys_call_table_def by (elim set_ConsD [elim_format] disjE) (auto intro: keeps_intros kv_sys_mount kv_sys_umount)

lemma kv_system_call [keeps_intros]: "keeps kinv (system_call e nr a b c)"
  unfolding system_call_def ret_from_sys_call_def Let_def by (intro keeps_intros) (rule kv_sys_call_table, erule map_of_SomeD)

text \<open>The frame of a trap has its 32 registers.\<close>

lemma kv_getk_id: "(\<And>s. kinv s \<Longrightarrow> keeps kinv (k s)) \<Longrightarrow> keeps kinv (bindk (getk id) k)"
  by (auto simp: keeps_def getk_def)

lemma kv_set_trap:
  assumes "length regs = 32"
  shows "keeps kinv (modk (\<lambda>s. s\<lparr>trap_regs := regs, trap_fregs := fregs, trap_epc := epc, trap_newepc := newepc\<rparr>))"
proof (rule keeps_modk)
  fix s assume k: "kinv s"
  show "kinv (s\<lparr>trap_regs := regs, trap_fregs := fregs, trap_epc := epc, trap_newepc := newepc\<rparr>)"
    by (rule kinv_other [OF _ _ _ _ _ _ k]) (use k assms in \<open>simp_all add: kinv_def boot_shape_def\<close>)
qed

lemma kv_trap_frame:
  assumes "length regs = 32" "keeps kinv body"
  shows "keeps kinv (trap_frame epc newepc regs fregs body)"
  unfolding trap_frame_def
  by (intro kv_getk_id keeps_bindk kv_set_trap assms keeps_intros) (simp add: kinv_def boot_shape_def)

lemma kv_exception_body [keeps_intros]: "keeps kinv (exception_body e cause epc badaddr)"
  unfolding exception_body_def machine_exception_store_or_amo_access_fault_def get_pte_def by (intro keeps_intros kv_modk; simp)

lemma kv_exception: "length regs = 32 \<Longrightarrow> keeps kinv (machine_exception_handler e cause epc regs fregs from_machine badaddr)"
  unfolding machine_exception_handler_def by (intro kv_trap_frame keeps_intros)

lemma kv_timer [keeps_intros]: "keeps kinv (get_tl i)" "keeps kinv (upd_tl i f)" "keeps kinv (fire n)"
  by (auto simp: keeps_def get_tl_def upd_tl_def fire_def kdefs intro: kinv_other [rotated 6])

lemma kv_timer_interrupt [keeps_intros]: "keeps kinv (timer_interrupt user)"
  unfolding timer_interrupt_def do_timer_def expire_timers_def by (intro keeps_intros kv_modk; simp)

lemma kv_interrupt: "irq_handler irq \<Longrightarrow> length regs = 32 \<Longrightarrow> keeps kinv (machine_interrupt_handler irq cause epc regs fregs)"
  unfolding machine_interrupt_handler_def by (cases rule: irq_handler.cases) (auto intro!: kv_trap_frame keeps_intros)

lemma post_run_exit: "post kinv r \<Longrightarrow> post kinv (run_exit r)"
  by (induction r) (use kv_do_exit(1) in \<open>auto simp: keeps_def\<close>)

text \<open>The invariant of a configuration: it holds now, and every task that sleeps in the kernel keeps it when it goes on.\<close>

definition conf_ok :: "kstate \<times> suspended \<Rightarrow> bool" where
  "conf_ok c \<longleftrightarrow> kinv (fst c) \<and> (\<forall>p k. snd c p = Some k \<longrightarrow> keeps kinv k)"

lemma leaves_ok:
  assumes "post kinv r" "leaves p s K r = Some c" "conf_ok (s, K)"
  shows "conf_ok c"
proof (cases r)
  case (Sleep t k)
  then have "keeps kinv k" using assms(1) by (simp add: keeps_def)
  then show ?thesis using assms Sleep by (auto simp: leaves_def conf_ok_def started_def split: if_splits)
qed (use assms in \<open>auto simp: leaves_def conf_ok_def started_def split: if_splits\<close>)

lemma kstep_ok: "kstep c d \<Longrightarrow> conf_ok c \<Longrightarrow> conf_ok d"
proof (induction rule: kstep.induct)
  case (exception K s regs e cause epc fregs from_machine badaddr c)
  then have "post kinv (machine_exception_handler e cause epc regs fregs from_machine badaddr s)"
    using kv_exception by (simp add: keeps_def conf_ok_def)
  from leaves_ok [OF post_run_exit [OF this]] exception show ?case by blast
next
  case (interrupt K s irq regs cause epc fregs c)
  then have "post kinv (machine_interrupt_handler irq cause epc regs fregs s)"
    using kv_interrupt by (simp add: keeps_def conf_ok_def)
  from leaves_ok [OF post_run_exit [OF this]] interrupt show ?case by blast
next
  case (user_store K s a v)
  then show ?case by (auto simp: conf_ok_def intro: kv.Q_pmem)
next
  case (resume K s k c)
  then have "post kinv (k s)" by (auto simp: keeps_def conf_ok_def)
  from leaves_ok [OF this] resume show ?case by blast
qed

section \<open>Start-up establishes the invariant\<close>

lemma machine_main_boots:
  assumes "2 \<le> buffer_count start buffer_end" "\<And>i. length (b_data (junk i)) = BLOCK_SIZE"
  shows "\<exists>t. machine_main dir start buffer_end junk (kernel_image\<lparr>rd_mem := im\<rparr>) = Ok () t \<and> kinv t \<and>
    (\<forall>p. t_alarm (tasks t p) = 0 \<and> t_signal (tasks t p) = 0)"
proof -
  define s0 where "s0 = kernel_image\<lparr>rd_mem := im, page_root_table := root_table 0, ROOT_DEV := 0x0101\<rparr>"
  obtain n s1 where s1: "rd_init 0x5A000 s0 = Ok n s1" "fs_tables s1" "sys_shape s1 = boot_shape" "tasks s1 = (\<lambda>_. zero_task)"
    by (simp add: rd_init_def modk_def retk_def s0_def fs_tables_def sys_shape_def boot_shape_def kernel_image_def zero_inode_def zero_super_def)
  obtain s2 where s2: "mem_init 0x80100000 0x80600000 s1 = Ok () s2" "fs_tables s2" "sys_shape s2 = boot_shape" "tasks s2 = (\<lambda>_. zero_task)"
    using s1(2-4) by (auto simp: mem_init_def MAP_NR_def fs_tables_def boot_shape_def)
  obtain s3 where s3: "blk_dev_init s2 = Ok () s3" "fs_tables s3" "sys_shape s3 = boot_shape" "tasks s3 = (\<lambda>_. zero_task)"
    using s2(2-4) by (auto simp: blk_dev_init_def modk_def fs_tables_def boot_shape_def)
  obtain s4 where s4: "time_init s3 = Ok () s4" "fs_tables s4" "sys_shape s4 = boot_shape" "tasks s4 = (\<lambda>_. zero_task)"
    using s3(2-4) time_init_wraps [of s3] by (auto simp: fs_tables_def boot_shape_def)
  obtain s5 where s5: "sched_init dir s4 = Ok () s5" "fs_tables s5" "sys_shape s5 = boot_shape" "\<forall>p. t_alarm (tasks s5 p) = 0 \<and> t_signal (tasks s5 p) = 0"
    using s4(2-4) by (auto simp: zero_task_def sched_init_def pte_common_init_def kdefs fs_tables_def boot_shape_def)
  obtain t bs where t: "buffer_init start buffer_end junk s5 = Ok () t" "cache_rel t (\<lambda>_. []) [0..<buffer_count start buffer_end]"
    "t = s5\<lparr>bufs := bs, hash_table := hash_table t, free_list := free_list t\<rparr>"
    using buffer_init_rel [of start buffer_end junk s5] assms by blast
  have "machine_main dir start buffer_end junk (kernel_image\<lparr>rd_mem := im\<rparr>) = Ok () t"
    using s1(1) s2(1) s3(1) s4(1) s5(1) t(1) by (simp add: machine_main_def modk_def s0_def kernel_image_def)
  moreover have "cache_ok t" using t(2) by (auto simp: cache_ok_def)
  moreover have "\<forall>p. t_alarm (tasks t p) = 0 \<and> t_signal (tasks t p) = 0" using s5(4) by (subst t(3), subst (2) t(3)) simp
  moreover have "fs_tables t" "sys_shape t = boot_shape" using s5(2,3) by (subst t(3), simp add: fs_tables_def)+
  ultimately show ?thesis by (auto simp: kinv_def)
qed

end
