(* ===== verification/Board.thy ===== *)
theory Board
  imports Prelude
begin

text \<open>
  The interrupt hardware of the board as the kernel drives it: the interrupt controller (\<open>drivers/plic.c\<close>), the
  timers (\<open>drivers/timer.c\<close>) and the serial ports (\<open>drivers/uart.c\<close>), with the control registers of the processor they
  touch and \<open>interrupt_recover\<close> of \<open>kernel/sched.c\<close>.

  The state is a pair: the part \<open>'k\<close> that the registered handlers work on, and the record \<open>board\<close> of device registers and
  driver tables. What a device delivers is input: \<open>pl_claims\<close> are the values that successive reads of the claim register
  return, \<open>ua_LSR\<close> those of the line status, \<open>tm_intr_stat\<close>, \<open>ua_IIR\<close> and \<open>ua_RBR\<close> what the status and data registers show. What is written
  for the device to see is recorded: completed interrupts, acknowledged timer channels, sent bytes.

  A function pointer is a value of \<open>fn\<close>, one constructor for each function whose address the code takes and \<open>Fn\<close> for any
  other; a context pointer is a value of \<open>ctx\<close>. The functions registered from outside the drivers are run by the argument \<open>call\<close>.
\<close>

datatype fn = Timer_cb nat | Timer_isr | Uart_cb | Timer_interrupt | Serial_send | Serial_rev | Fn ulong

datatype ctx = Null_ctx | Timer_inst nat | Timer_regs nat | Uart_inst nat | Ctx ulong

record plic_inst =
  pi_callback :: "fn option"
  pi_ctx :: ctx

record timer_inst =
  ti_callback :: "fn option"
  ti_ctx :: ctx
  ti_single_shot :: bool

record uart_inst =
  ui_receive :: plic_inst
  ui_send :: plic_inst
  ui_uart_num :: nat

record board =
  core_id :: nat
  mie :: ulong
  mstatus :: ulong
  mip :: ulong
  pl_enable :: "nat \<Rightarrow> nat \<Rightarrow> u32"
  pl_priority :: "nat \<Rightarrow> u32"
  pl_threshold :: "nat \<Rightarrow> u32"
  pl_claims :: "u32 list"
  pl_completed :: "u32 list"
  plic_instance :: "nat \<Rightarrow> nat \<Rightarrow> plic_inst"
  s_plic_priorities_init_flag :: u8
  int_num :: u32
  int_threshold :: u32
  trap_from_interrupt :: bool
  tm_control :: "nat \<Rightarrow> nat \<Rightarrow> u32"
  tm_load_count :: "nat \<Rightarrow> nat \<Rightarrow> u32"
  tm_load_count2 :: "nat \<Rightarrow> nat \<Rightarrow> u32"
  tm_current_value :: "nat \<Rightarrow> nat \<Rightarrow> u32"
  tm_intr_stat :: "nat \<Rightarrow> u32"
  tm_acks :: "(nat \<times> nat) list"
  timer_instance :: "nat \<Rightarrow> nat \<Rightarrow> timer_inst"
  time_irq :: "nat \<Rightarrow> nat \<Rightarrow> fn option"
  ua_IER :: "nat \<Rightarrow> u32"
  ua_IIR :: "nat \<Rightarrow> u32"
  ua_RBR :: "nat \<Rightarrow> u32 list"
  ua_LSR :: "nat \<Rightarrow> u32 list"
  ua_THR :: "nat \<Rightarrow> u8 list"
  g_uart_instance :: "nat \<Rightarrow> uart_inst"
  g_write_count :: int

type_synonym ('k, 'a) B = "('k \<times> board, 'a) kprog"

definition getb :: "(board \<Rightarrow> 'a) \<Rightarrow> ('k, 'a) B" where
  [kdefs]: "getb f = getk (\<lambda>s. f (snd s))"

definition modb :: "(board \<Rightarrow> board) \<Rightarrow> ('k, unit) B" where
  [kdefs]: "modb f = modk (\<lambda>s. (fst s, f (snd s)))"

definition upd2 :: "nat \<Rightarrow> nat \<Rightarrow> ('a \<Rightarrow> 'a) \<Rightarrow> (nat \<Rightarrow> nat \<Rightarrow> 'a) \<Rightarrow> nat \<Rightarrow> nat \<Rightarrow> 'a" where
  "upd2 i j f t = t(i := (t i)(j := f (t i j)))"

section \<open>drivers/plic.c\<close>

abbreviation "IRQN_MAX \<equiv> (66 :: nat)"
abbreviation "PLIC_NUM_SOURCES \<equiv> (65 :: int)"
abbreviation "PLIC_NUM_PRIORITIES \<equiv> (7 :: u32)"
abbreviation "MIP_MSIP \<equiv> (0x8 :: ulong)"
abbreviation "MIP_MTIP \<equiv> (0x80 :: ulong)"
abbreviation "MIP_MEIP \<equiv> (0x800 :: ulong)"
abbreviation "MSTATUS_MIE \<equiv> (0x8 :: ulong)"
abbreviation "MSTATUS_MPIE \<equiv> (0x80 :: ulong)"

definition no_inst :: plic_inst where "no_inst = \<lparr>pi_callback = None, pi_ctx = Null_ctx\<rparr>"

text \<open>A read of the claim register; when the device has nothing more to deliver it reads as 0.\<close>

definition plic_irq_claim :: "('k, u32) B" where
  "plic_irq_claim = bindk (getb pl_claims) (\<lambda>cs. case cs of [] \<Rightarrow> retk 0
     | c # cs \<Rightarrow> bindk (modb (\<lambda>b. b\<lparr>pl_claims := cs\<rparr>)) (\<lambda>_. retk c))"

definition plic_irq_complete :: "u32 \<Rightarrow> ('k, int) B" where
  "plic_irq_complete source = bindk (modb (\<lambda>b. b\<lparr>pl_completed := pl_completed b @ [source]\<rparr>)) (\<lambda>_. retk 0)"

text \<open>The last loop of \<open>plic_init\<close> reads the claim register until it gives 0, and at most 101 times.\<close>

definition plic_init :: "('k, unit) B" where
  "plic_init = bindk (getb core_id) (\<lambda>c.
     bindk (modb (\<lambda>b. b\<lparr>pl_enable := (pl_enable b)(c := (\<lambda>i. if i < 3 then 0 else pl_enable b c i))\<rparr>)) (\<lambda>_.
     bindk (modb (\<lambda>b. if s_plic_priorities_init_flag b = 0
        then b\<lparr>pl_priority := (\<lambda>i. if int i < PLIC_NUM_SOURCES then 0 else pl_priority b i), s_plic_priorities_init_flag := 1\<rparr> else b)) (\<lambda>_.
     bindk (modb (\<lambda>b. b\<lparr>pl_threshold := (pl_threshold b)(c := 0)\<rparr>)) (\<lambda>_.
     bindk (modb (\<lambda>b. b\<lparr>plic_instance := (plic_instance b)(c := (\<lambda>i. if i < IRQN_MAX then no_inst else plic_instance b c i))\<rparr>)) (\<lambda>_.
     bindk (loopk 101 (\<lambda>i :: nat. bindk plic_irq_claim (\<lambda>v. retk (if v > 0 \<and> i < 100 then Inl (i + 1) else Inr ()))) 0) (\<lambda>_.
     modb (\<lambda>b. b\<lparr>mie := mie b OR MIP_MEIP\<rparr>)))))))"

definition irq_out_of_range :: "int \<Rightarrow> bool" where
  "irq_out_of_range n \<longleftrightarrow> PLIC_NUM_SOURCES < n \<or> 0 > n"

definition irq_bit :: "int \<Rightarrow> u32" where
  "irq_bit n = push_bit (nat (n mod 32)) 1"

definition plic_irq_enable :: "int \<Rightarrow> ('k, int) B" where
  "plic_irq_enable n = (if irq_out_of_range n then retk (- 1) else bindk (getb core_id) (\<lambda>c.
     bindk (modb (\<lambda>b. b\<lparr>pl_enable := upd2 c (nat (n div 32)) (\<lambda>w. w OR irq_bit n) (pl_enable b)\<rparr>)) (\<lambda>_. retk 0)))"

definition plic_irq_disable :: "int \<Rightarrow> ('k, int) B" where
  "plic_irq_disable n = (if irq_out_of_range n then retk (- 1) else bindk (getb core_id) (\<lambda>c.
     bindk (modb (\<lambda>b. b\<lparr>pl_enable := upd2 c (nat (n div 32)) (\<lambda>w. w AND NOT (irq_bit n)) (pl_enable b)\<rparr>)) (\<lambda>_. retk 0)))"

definition plic_set_priority :: "int \<Rightarrow> u32 \<Rightarrow> ('k, int) B" where
  "plic_set_priority n priority = (if irq_out_of_range n then retk (- 1) else
     bindk (modb (\<lambda>b. b\<lparr>pl_priority := (pl_priority b)(nat n := priority)\<rparr>)) (\<lambda>_. retk 0))"

definition plic_get_priority :: "int \<Rightarrow> ('k, u32) B" where
  "plic_get_priority n = (if irq_out_of_range n then retk 0 else getb (\<lambda>b. pl_priority b (nat n)))"

text \<open>The number is an index into a table of \<open>IRQN_MAX\<close> rows.\<close>

definition plic_irq_register :: "int \<Rightarrow> fn option \<Rightarrow> ctx \<Rightarrow> ('k, unit) B" where
  "plic_irq_register irq callback x = (if irq < 0 \<or> irq \<ge> int IRQN_MAX then faultk else bindk (getb core_id) (\<lambda>c.
     modb (\<lambda>b. b\<lparr>plic_instance := upd2 c (nat irq) (\<lambda>_. \<lparr>pi_callback = callback, pi_ctx = x\<rparr>) (plic_instance b)\<rparr>)))"

definition plic_irq_unregister :: "int \<Rightarrow> ('k, unit) B" where
  "plic_irq_unregister irq = plic_irq_register irq None Null_ctx"

text \<open>\<open>run\<close> calls the function a pointer refers to.\<close>

definition call_ptr :: "(fn \<Rightarrow> ctx \<Rightarrow> ('k, int) B) \<Rightarrow> fn option \<Rightarrow> ctx \<Rightarrow> ('k, unit) B" where
  "call_ptr run f x = (case f of None \<Rightarrow> retk () | Some g \<Rightarrow> bindk (run g x) (\<lambda>_. retk ()))"

definition handle_irq_m_ext :: "(fn \<Rightarrow> ctx \<Rightarrow> ('k, int) B) \<Rightarrow> ulong \<Rightarrow> ('k, ulong) B" where
  "handle_irq_m_ext run epc = bindk (getb mip) (\<lambda>pending. if pending AND MIP_MEIP = 0 then retk epc else
     bindk (getb core_id) (\<lambda>c. bindk (getb mie) (\<lambda>ie_flag.
     bindk plic_irq_claim (\<lambda>n. bindk (getb (\<lambda>b. pl_threshold b c)) (\<lambda>th.
     bindk (modb (\<lambda>b. b\<lparr>int_num := n, int_threshold := th\<rparr>)) (\<lambda>_.
     bindk (modb (\<lambda>b. b\<lparr>pl_threshold := (pl_threshold b)(c := pl_priority b (unat n))\<rparr>)) (\<lambda>_.
     bindk (modb (\<lambda>b. b\<lparr>mie := mie b AND NOT (MIP_MTIP OR MIP_MSIP), mstatus := mstatus b OR MSTATUS_MIE\<rparr>)) (\<lambda>_.
     if unat n \<ge> IRQN_MAX then faultk else
     bindk (getb (\<lambda>b. plic_instance b c (unat n))) (\<lambda>p.
     bindk (call_ptr run (pi_callback p) (pi_ctx p)) (\<lambda>_.
     bindk (plic_irq_complete n) (\<lambda>_.
     bindk (modb (\<lambda>b. b\<lparr>mstatus := (mstatus b AND NOT MSTATUS_MIE) OR MSTATUS_MPIE, mie := ie_flag\<rparr>)) (\<lambda>_.
     bindk (modb (\<lambda>b. b\<lparr>pl_threshold := (pl_threshold b)(c := th)\<rparr>)) (\<lambda>_. retk epc)))))))))))))"

definition handle_irq_s_ext :: "(fn \<Rightarrow> ctx \<Rightarrow> ('k, int) B) \<Rightarrow> ulong \<Rightarrow> ('k, ulong) B" where
  "handle_irq_s_ext run epc = bindk (getb core_id) (\<lambda>c.
     bindk plic_irq_claim (\<lambda>n. bindk (getb (\<lambda>b. pl_threshold b c)) (\<lambda>th.
     bindk (modb (\<lambda>b. b\<lparr>pl_threshold := (pl_threshold b)(c := pl_priority b (unat n))\<rparr>)) (\<lambda>_.
     if unat n \<ge> IRQN_MAX then faultk else
     bindk (getb (\<lambda>b. plic_instance b c (unat n))) (\<lambda>p.
     bindk (call_ptr run (pi_callback p) (pi_ctx p)) (\<lambda>_.
     bindk (plic_irq_complete n) (\<lambda>_.
     bindk (modb (\<lambda>b. b\<lparr>pl_threshold := (pl_threshold b)(c := th)\<rparr>)) (\<lambda>_. retk epc))))))))"

section \<open>drivers/timer.c\<close>

abbreviation "TIMER_DEVICE_MAX \<equiv> (3 :: nat)"
abbreviation "TIMER_CHANNEL_MAX \<equiv> (4 :: nat)"
abbreviation "TIMER_CR_ENABLE \<equiv> (1 :: u32)"
abbreviation "TIMER_CR_MODE_MASK \<equiv> (2 :: u32)"
abbreviation "TIMER_CR_USER_MODE \<equiv> (2 :: u32)"
abbreviation "TIMER_CR_INTERRUPT_MASK \<equiv> (4 :: u32)"
abbreviation "TIMER_CR_PWM_ENABLE \<equiv> (8 :: u32)"
abbreviation "IRQN_NO_INTERRUPT \<equiv> (0 :: int)"
abbreviation "IRQN_UART1_INTERRUPT \<equiv> (11 :: int)"
abbreviation "IRQN_TIMER0A_INTERRUPT \<equiv> (14 :: int)"
abbreviation "IRQN_TIMER0B_INTERRUPT \<equiv> (15 :: int)"

definition no_timer :: timer_inst where "no_timer = \<lparr>ti_callback = None, ti_ctx = Null_ctx, ti_single_shot = False\<rparr>"

text \<open>Access to the registers and tables of a timer outside \<open>timer[3]\<close> or its four channels is a fault.\<close>

definition in_timer :: "nat \<Rightarrow> nat \<Rightarrow> ('k, 'a) B \<Rightarrow> ('k, 'a) B" where
  "in_timer d ch m = (if d < TIMER_DEVICE_MAX \<and> ch < TIMER_CHANNEL_MAX then m else faultk)"

definition upd_control :: "nat \<Rightarrow> nat \<Rightarrow> (u32 \<Rightarrow> u32) \<Rightarrow> ('k, unit) B" where
  "upd_control d ch f = in_timer d ch (modb (\<lambda>b. b\<lparr>tm_control := upd2 d ch f (tm_control b)\<rparr>))"

text \<open>\<open>timer_init\<close> also switches the clock of the device on.\<close>

definition timer_init :: "nat \<Rightarrow> ('k, unit) B" where
  "timer_init d = in_timer d 0 (modb (\<lambda>b. b\<lparr>timer_instance := (timer_instance b)(d := (\<lambda>i. if i < TIMER_CHANNEL_MAX then no_timer else timer_instance b d i))\<rparr>))"

definition timer_enable :: "nat \<Rightarrow> nat \<Rightarrow> ('k, unit) B" where
  "timer_enable d ch = upd_control d ch (\<lambda>w. w OR TIMER_CR_ENABLE)"

definition timer_disable :: "nat \<Rightarrow> nat \<Rightarrow> ('k, unit) B" where
  "timer_disable d ch = upd_control d ch (\<lambda>w. w AND NOT TIMER_CR_ENABLE)"

definition timer_enable_pwm :: "nat \<Rightarrow> nat \<Rightarrow> ('k, unit) B" where
  "timer_enable_pwm d ch = upd_control d ch (\<lambda>w. w OR TIMER_CR_PWM_ENABLE)"

definition timer_disable_pwm :: "nat \<Rightarrow> nat \<Rightarrow> ('k, unit) B" where
  "timer_disable_pwm d ch = upd_control d ch (\<lambda>w. w AND NOT TIMER_CR_PWM_ENABLE)"

definition timer_enable_interrupt :: "nat \<Rightarrow> nat \<Rightarrow> ('k, unit) B" where
  "timer_enable_interrupt d ch = upd_control d ch (\<lambda>w. w AND NOT TIMER_CR_INTERRUPT_MASK)"

definition timer_disable_interrupt :: "nat \<Rightarrow> nat \<Rightarrow> ('k, unit) B" where
  "timer_disable_interrupt d ch = upd_control d ch (\<lambda>w. w OR TIMER_CR_INTERRUPT_MASK)"

definition timer_set_mode :: "nat \<Rightarrow> nat \<Rightarrow> u32 \<Rightarrow> ('k, unit) B" where
  "timer_set_mode d ch mode = bindk (upd_control d ch (\<lambda>w. w AND NOT TIMER_CR_MODE_MASK)) (\<lambda>_. upd_control d ch (\<lambda>w. w OR mode))"

definition timer_set_reload :: "nat \<Rightarrow> nat \<Rightarrow> u32 \<Rightarrow> ('k, unit) B" where
  "timer_set_reload d ch count = in_timer d ch (modb (\<lambda>b. b\<lparr>tm_load_count := upd2 d ch (\<lambda>_. count) (tm_load_count b)\<rparr>))"

definition timer_set_reload2 :: "nat \<Rightarrow> nat \<Rightarrow> u32 \<Rightarrow> ('k, unit) B" where
  "timer_set_reload2 d ch count = in_timer d ch (modb (\<lambda>b. b\<lparr>tm_load_count2 := upd2 d ch (\<lambda>_. count) (tm_load_count2 b)\<rparr>))"

definition timer_get_count :: "nat \<Rightarrow> nat \<Rightarrow> ('k, u32) B" where
  "timer_get_count d ch = in_timer d ch (getb (\<lambda>b. tm_current_value b d ch))"

definition timer_get_reload :: "nat \<Rightarrow> nat \<Rightarrow> ('k, u32) B" where
  "timer_get_reload d ch = in_timer d ch (getb (\<lambda>b. tm_load_count b d ch))"

definition timer_get_reload2 :: "nat \<Rightarrow> nat \<Rightarrow> ('k, u32) B" where
  "timer_get_reload2 d ch = in_timer d ch (getb (\<lambda>b. tm_load_count2 b d ch))"

definition timer_get_interrupt_status :: "nat \<Rightarrow> ('k, u32) B" where
  "timer_get_interrupt_status d = in_timer d 0 (getb (\<lambda>b. tm_intr_stat b d))"

definition timer_set_enable :: "nat \<Rightarrow> nat \<Rightarrow> u32 \<Rightarrow> ('k, unit) B" where
  "timer_set_enable d ch enable = upd_control d ch (\<lambda>_. if enable \<noteq> 0 then TIMER_CR_USER_MODE OR TIMER_CR_ENABLE else TIMER_CR_INTERRUPT_MASK)"

text \<open>\<open>readl(&timer[d]->channel[ch].eoi)\<close>.\<close>

definition ack_channel :: "nat \<Rightarrow> nat \<Rightarrow> ('k, unit) B" where
  "ack_channel d ch = in_timer d ch (modb (\<lambda>b. b\<lparr>tm_acks := tm_acks b @ [(d, ch)]\<rparr>))"

text \<open>The older interface \<open>timer_set_irq\<close>: only the lowest pending channel is served, and the whole device is acknowledged.\<close>

definition timer_isr :: "(fn \<Rightarrow> ctx \<Rightarrow> ('k, int) B) \<Rightarrow> ctx \<Rightarrow> ('k, int) B" where
  "timer_isr call parm = (case List.find (\<lambda>d. parm = Timer_regs d) [0..<3] of None \<Rightarrow> faultk | Some d \<Rightarrow>
     bindk (timer_get_interrupt_status d) (\<lambda>st.
     bindk (case List.find (\<lambda>i. bit st i) [0..<4] of None \<Rightarrow> retk () | Some i \<Rightarrow>
        bindk (getb (\<lambda>b. time_irq b d i)) (\<lambda>f. call_ptr call f Null_ctx)) (\<lambda>_.
     bindk (modb (\<lambda>b. b\<lparr>tm_acks := tm_acks b @ map (Pair d) [0..<4]\<rparr>)) (\<lambda>_. retk 0))))"

definition timer_set_irq :: "nat \<Rightarrow> nat \<Rightarrow> fn option \<Rightarrow> u32 \<Rightarrow> ('k, unit) B" where
  "timer_set_irq d ch func priority = bindk (in_timer d ch (modb (\<lambda>b. b\<lparr>time_irq := upd2 d ch (\<lambda>_. func) (time_irq b)\<rparr>))) (\<lambda>_.
     let irq = (if ch < 2 then IRQN_TIMER0A_INTERRUPT else IRQN_TIMER0B_INTERRUPT) + 2 * int d in
     bindk (plic_set_priority irq priority) (\<lambda>_. bindk (plic_irq_register irq (Some Timer_isr) (Timer_regs d)) (\<lambda>_.
     bindk (plic_irq_enable irq) (\<lambda>_. retk ()))))"

definition get_timer_irqn_by_device_and_channel :: "nat \<Rightarrow> nat \<Rightarrow> int" where
  "get_timer_irqn_by_device_and_channel d ch = (if d < TIMER_DEVICE_MAX \<and> ch < TIMER_CHANNEL_MAX
     then (if ch < 2 then IRQN_TIMER0A_INTERRUPT else IRQN_TIMER0B_INTERRUPT) + 2 * int d else IRQN_NO_INTERRUPT)"

text \<open>One round of \<open>timer_interrupt_handler\<close>; the status has been read before the loop.\<close>

definition timer_round :: "(fn \<Rightarrow> ctx \<Rightarrow> ('k, int) B) \<Rightarrow> nat \<Rightarrow> u32 \<Rightarrow> nat \<Rightarrow> ('k, unit) B" where
  "timer_round call d st i = whenk (bit st i) (bindk (getb (\<lambda>b. timer_instance b d i)) (\<lambda>t.
     bindk (case ti_callback t of None \<Rightarrow> retk () | Some f \<Rightarrow> bindk (call f (ti_ctx t)) (\<lambda>_.
        bindk (getb (\<lambda>b. ti_single_shot (timer_instance b d i))) (\<lambda>single. whenk single (timer_set_enable d i 0)))) (\<lambda>_.
     ack_channel d i)))"

definition timer_interrupt_handler :: "(fn \<Rightarrow> ctx \<Rightarrow> ('k, int) B) \<Rightarrow> nat \<Rightarrow> ('k, int) B" where
  "timer_interrupt_handler call d = bindk (timer_get_interrupt_status d) (\<lambda>st.
     bindk (eachk (timer_round call d st) [0..<TIMER_CHANNEL_MAX]) (\<lambda>_. retk 0))"

definition timer_irq_register :: "nat \<Rightarrow> nat \<Rightarrow> bool \<Rightarrow> u32 \<Rightarrow> fn option \<Rightarrow> ctx \<Rightarrow> ('k, int) B" where
  "timer_irq_register d ch is_single_shot priority callback x = (if d < TIMER_DEVICE_MAX \<and> ch < TIMER_CHANNEL_MAX then
     let irq = get_timer_irqn_by_device_and_channel d ch in
     bindk (modb (\<lambda>b. b\<lparr>timer_instance := upd2 d ch (\<lambda>_. \<lparr>ti_callback = callback, ti_ctx = x, ti_single_shot = is_single_shot\<rparr>) (timer_instance b)\<rparr>)) (\<lambda>_.
     bindk (plic_set_priority irq priority) (\<lambda>_. bindk (plic_irq_register irq (Some (Timer_cb d)) (Timer_inst d)) (\<lambda>_.
     bindk (plic_irq_enable irq) (\<lambda>_. retk 0)))) else retk (- 1))"

definition timer_irq_unregister :: "nat \<Rightarrow> nat \<Rightarrow> ('k, int) B" where
  "timer_irq_unregister d ch = (if d < TIMER_DEVICE_MAX \<and> ch < TIMER_CHANNEL_MAX then
     bindk (modb (\<lambda>b. b\<lparr>timer_instance := upd2 d ch (\<lambda>_. no_timer) (timer_instance b)\<rparr>)) (\<lambda>_.
     bindk (getb (\<lambda>b. \<lambda>i. ti_callback (timer_instance b d i) \<noteq> None)) (\<lambda>used.
     bindk (whenk (\<not> (used 0 \<or> used 1) \<or> \<not> (used 2 \<or> used 3)) (plic_irq_unregister (get_timer_irqn_by_device_and_channel d ch))) (\<lambda>_.
     retk 0))) else retk (- 1))"

section \<open>drivers/uart.c\<close>

abbreviation "UART_DEVICE_3 \<equiv> (2 :: nat)"
abbreviation "UART_SEND \<equiv> (1 :: nat)"
abbreviation "UART_RECEIVE \<equiv> (2 :: nat)"

definition in_uart :: "nat \<Rightarrow> ('k, 'a) B \<Rightarrow> ('k, 'a) B" where
  "in_uart ch m = (if ch < 3 then m else faultk)"

definition uart_irq_callback :: "(fn \<Rightarrow> ctx \<Rightarrow> ('k, int) B) \<Rightarrow> ctx \<Rightarrow> ('k, int) B" where
  "uart_irq_callback call param = (case param of Uart_inst i \<Rightarrow>
     in_uart i (bindk (getb (\<lambda>b. g_uart_instance b i)) (\<lambda>u. in_uart (ui_uart_num u)
     (bindk (getb (\<lambda>b. (ua_IIR b (ui_uart_num u) AND 0xF, g_write_count b))) (\<lambda>(status, count).
     bindk (if status = 2 \<and> count \<noteq> 0 then call_ptr call (pi_callback (ui_send u)) (pi_ctx (ui_send u))
            else if status = 4 \<or> status = 12 then call_ptr call (pi_callback (ui_receive u)) (pi_ctx (ui_receive u)) else retk ()) (\<lambda>_. retk 0)))))
   | _ \<Rightarrow> faultk)"

text \<open>A read of the line status, and of the receive buffer.\<close>

definition read_LSR :: "nat \<Rightarrow> ('k, u32 option) B" where
  "read_LSR ch = bindk (getb (\<lambda>b. ua_LSR b ch)) (\<lambda>ls. case ls of [] \<Rightarrow> retk None
     | v # vs \<Rightarrow> bindk (modb (\<lambda>b. b\<lparr>ua_LSR := (ua_LSR b)(ch := vs)\<rparr>)) (\<lambda>_. retk (Some v)))"

text \<open>\<open>while(LSR & (1 << 5)) continue;\<close> ends when the device clears the bit; it does not end before the input does.\<close>

definition wait_LSR :: "nat \<Rightarrow> ('k, unit) B" where
  "wait_LSR ch = bindk (getb (\<lambda>b. ua_LSR b ch)) (\<lambda>ls. loopk (length ls) (\<lambda>_.
     bindk (read_LSR ch) (\<lambda>v. retk (case v of Some w \<Rightarrow> if bit w 5 then Inl () else Inr () | None \<Rightarrow> Inl ()))) ())"

definition uart_channel_putc :: "u8 \<Rightarrow> nat \<Rightarrow> ('k, int) B" where
  "uart_channel_putc c ch = in_uart ch (bindk (wait_LSR ch) (\<lambda>_.
     bindk (modb (\<lambda>b. b\<lparr>ua_THR := (ua_THR b)(ch := ua_THR b ch @ [c])\<rparr>)) (\<lambda>_. retk (uint c))))"

fun uart_send_loop :: "nat \<Rightarrow> u8 list \<Rightarrow> ('k, unit) B" where
  "uart_send_loop ch [] = retk ()"
| "uart_send_loop ch (c # cs) = bindk (uart_channel_putc c ch) (\<lambda>_.
     bindk (modb (\<lambda>b. b\<lparr>g_write_count := g_write_count b + 1\<rparr>)) (\<lambda>_. uart_send_loop ch cs))"

definition uart_send_data :: "nat \<Rightarrow> u8 list \<Rightarrow> ('k, int) B" where
  "uart_send_data ch buffer = bindk (modb (\<lambda>b. b\<lparr>g_write_count := 0\<rparr>)) (\<lambda>_. bindk (uart_send_loop ch buffer) (\<lambda>_. getb g_write_count))"

definition uart_irq_register :: "nat \<Rightarrow> nat \<Rightarrow> fn option \<Rightarrow> ctx \<Rightarrow> u32 \<Rightarrow> ('k, unit) B" where
  "uart_irq_register ch mode callback x priority = in_uart ch (
     bindk (modb (\<lambda>b. let u = g_uart_instance b ch; p = \<lparr>pi_callback = callback, pi_ctx = x\<rparr> in
       if mode = UART_SEND then b\<lparr>ua_IER := (ua_IER b)(ch := ua_IER b ch OR 2), g_uart_instance := (g_uart_instance b)(ch := u\<lparr>ui_send := p\<rparr>)\<rparr>
       else if mode = UART_RECEIVE then b\<lparr>ua_IER := (ua_IER b)(ch := ua_IER b ch OR 1), g_uart_instance := (g_uart_instance b)(ch := u\<lparr>ui_receive := p\<rparr>)\<rparr>
       else b)) (\<lambda>_.
     bindk (modb (\<lambda>b. b\<lparr>g_uart_instance := (g_uart_instance b)(ch := (g_uart_instance b ch)\<lparr>ui_uart_num := ch\<rparr>)\<rparr>)) (\<lambda>_.
     let irq = IRQN_UART1_INTERRUPT + int ch in
     bindk (plic_set_priority irq priority) (\<lambda>_. bindk (plic_irq_register irq (Some Uart_cb) (Uart_inst ch)) (\<lambda>_.
     bindk (plic_irq_enable irq) (\<lambda>_. retk ()))))))"

definition uart_irq_unregister :: "nat \<Rightarrow> nat \<Rightarrow> ('k, unit) B" where
  "uart_irq_unregister ch mode = in_uart ch (
     bindk (modb (\<lambda>b. let u = g_uart_instance b ch in
       if mode = UART_SEND then b\<lparr>ua_IER := (ua_IER b)(ch := ua_IER b ch AND NOT 2), g_uart_instance := (g_uart_instance b)(ch := u\<lparr>ui_send := no_inst\<rparr>)\<rparr>
       else if mode = UART_RECEIVE then b\<lparr>ua_IER := (ua_IER b)(ch := ua_IER b ch AND NOT 1), g_uart_instance := (g_uart_instance b)(ch := u\<lparr>ui_receive := no_inst\<rparr>)\<rparr>
       else b)) (\<lambda>_.
     bindk (getb (\<lambda>b. ua_IER b ch)) (\<lambda>ier. whenk (ier = 0) (plic_irq_unregister (IRQN_UART1_INTERRUPT + int ch)))))"


definition read_RBR :: "nat \<Rightarrow> ('k, u32) B" where
  "read_RBR ch = bindk (getb (\<lambda>b. ua_RBR b ch)) (\<lambda>rs. case rs of [] \<Rightarrow> retk 0
     | v # vs \<Rightarrow> bindk (modb (\<lambda>b. b\<lparr>ua_RBR := (ua_RBR b)(ch := vs)\<rparr>)) (\<lambda>_. retk v))"

text \<open>The bytes \<open>uart_receive_data\<close> stores, at most \<open>buf_len\<close>; when the input of the model ends, no byte is ready.\<close>

fun uart_receive_data :: "nat \<Rightarrow> nat \<Rightarrow> ('k, u8 list) B" where
  "uart_receive_data ch 0 = retk []"
| "uart_receive_data ch (Suc n) = in_uart ch (bindk (read_LSR ch) (\<lambda>v. case v of Some w \<Rightarrow>
     if bit w 0 then bindk (read_RBR ch) (\<lambda>r. bindk (uart_receive_data ch n) (\<lambda>rs. retk (ucast r # rs))) else retk []
   | None \<Rightarrow> retk []))"

section \<open>drivers/sysctl.c and kernel/sched.c: interrupt enable bits\<close>

definition sysctl_enable_irq :: "('k, unit) B" where
  "sysctl_enable_irq = modb (\<lambda>b. b\<lparr>mie := mie b OR MIP_MEIP, mstatus := mstatus b OR MSTATUS_MIE\<rparr>)"

definition sysctl_disable_irq :: "('k, unit) B" where
  "sysctl_disable_irq = modb (\<lambda>b. b\<lparr>mie := mie b AND NOT MIP_MEIP, mstatus := mstatus b AND NOT MSTATUS_MIE\<rparr>)"

text \<open>What a task does first when it is chosen again: if the switch away from its predecessor took place in an interrupt, the
  interrupt is finished on behalf of the predecessor. The channel's \<open>eoi\<close> is read twice.\<close>

definition interrupt_recover :: "board \<Rightarrow> board" where
  "interrupt_recover b = (let b' = (if trap_from_interrupt b then
       b\<lparr>tm_acks := tm_acks b @ [(0, 0), (0, 0)], pl_completed := pl_completed b @ [int_num b],
         pl_threshold := (pl_threshold b)(core_id b := int_threshold b)\<rparr> else b) in
     b'\<lparr>mie := mie b' OR MIP_MEIP, mstatus := (mstatus b' AND NOT MSTATUS_MIE) OR MSTATUS_MPIE\<rparr>)"

end
