(* ===== verification/Board_Props.thy ===== *)
theory Board_Props
  imports Board
begin

text \<open>
  Properties of the drivers alone: the serial port sends the bytes it is given, the enable bits of the interrupt controller,
  and the table of timer callbacks.
\<close>

section \<open>Sending\<close>

text \<open>The polls of the line status that let a byte through.\<close>

definition ready :: "u32 list \<Rightarrow> nat" where
  "ready ls = length (filter (\<lambda>v. \<not> bit v 5) ls)"

fun after_ready :: "u32 list \<Rightarrow> u32 list" where
  "after_ready [] = []"
| "after_ready (v # vs) = (if bit v 5 then after_ready vs else vs)"

lemma ready_after: "0 < ready ls \<Longrightarrow> Suc (ready (after_ready ls)) = ready ls"
  by (induction ls) (auto simp: ready_def)

lemma wait_loop:
  assumes "ua_LSR b ch = ls"
  shows "loopk (length ls) (\<lambda>_. bindk (read_LSR ch) (\<lambda>v. retk (case v of Some w \<Rightarrow> if bit w 5 then Inl () else Inr () | None \<Rightarrow> Inl ()))) () (s, b) =
    (if 0 < ready ls then Ok () (s, b\<lparr>ua_LSR := (ua_LSR b)(ch := after_ready ls)\<rparr>) else NoFuel)"
  using assms
proof (induction ls arbitrary: b)
  case Nil
  then show ?case by (simp add: ready_def)
next
  case (Cons v vs)
  have r: "read_LSR ch (s, b) = Ok (Some v) (s, b\<lparr>ua_LSR := (ua_LSR b)(ch := vs)\<rparr>)"
    using Cons.prems by (simp add: read_LSR_def getb_def getk_def modb_def modk_def retk_def)
  show ?case
  proof (cases "bit v 5")
    case True
    then show ?thesis using r Cons.IH [of "b\<lparr>ua_LSR := (ua_LSR b)(ch := vs)\<rparr>"] by (cases "filter (\<lambda>v. \<not> bit v 5) vs = []") (simp_all add: retk_def ready_def)
  next
    case False
    then show ?thesis using r by (simp add: retk_def ready_def)
  qed
qed

lemma putc_run:
  assumes "ch < 3"
  shows "uart_channel_putc c ch (s, b) = (if 0 < ready (ua_LSR b ch)
     then Ok (uint c) (s, b\<lparr>ua_LSR := (ua_LSR b)(ch := after_ready (ua_LSR b ch)), ua_THR := (ua_THR b)(ch := ua_THR b ch @ [c])\<rparr>) else NoFuel)"
  using assms wait_loop [of b ch "ua_LSR b ch" s]
  by (simp add: uart_channel_putc_def in_uart_def wait_LSR_def getb_def getk_def modb_def modk_def retk_def bindk_bindr)

lemma send_loop_run:
  assumes ch: "ch < 3"
  shows "if length cs \<le> ready (ua_LSR b ch)
    then \<exists>ls. uart_send_loop ch cs (s, b) = Ok () (s, b\<lparr>ua_LSR := (ua_LSR b)(ch := ls), ua_THR := (ua_THR b)(ch := ua_THR b ch @ cs), g_write_count := g_write_count b + int (length cs)\<rparr>)
    else uart_send_loop ch cs (s, b) = NoFuel"
proof (induction cs arbitrary: b)
  case Nil
  show ?case by (simp add: retk_def) (rule exI [of _ "ua_LSR b ch"], simp)
next
  case (Cons c cs)
  show ?case
  proof (cases "0 < ready (ua_LSR b ch)")
    case True
    define d where "d = b\<lparr>ua_LSR := (ua_LSR b)(ch := after_ready (ua_LSR b ch)), ua_THR := (ua_THR b)(ch := ua_THR b ch @ [c]), g_write_count := g_write_count b + 1\<rparr>"
    have step: "uart_send_loop ch (c # cs) (s, b) = uart_send_loop ch cs (s, d)"
      using True by (simp add: putc_run [OF ch] modb_def modk_def d_def)
    have le: "Suc (length cs) \<le> ready (ua_LSR b ch) \<longleftrightarrow> length cs \<le> ready (ua_LSR d ch)" using ready_after [OF True] by (simp add: d_def, linarith)
    show ?thesis
    proof (cases "length cs \<le> ready (ua_LSR d ch)")
      case t: True
      then obtain ls where "uart_send_loop ch cs (s, d) = Ok () (s, d\<lparr>ua_LSR := (ua_LSR d)(ch := ls), ua_THR := (ua_THR d)(ch := ua_THR d ch @ cs), g_write_count := g_write_count d + int (length cs)\<rparr>)"
        using Cons.IH [of d] by auto
      then show ?thesis using step le t by (simp add: d_def) (intro exI [of _ ls], simp add: algebra_simps)
    next
      case False
      then show ?thesis using step le Cons.IH [of d] by simp
    qed
  next
    case False
    then show ?thesis by (simp add: putc_run [OF ch] bindk_bindr)
  qed
qed

text \<open>Console output. \<open>uart_send_data\<close> hands every byte of the buffer to the device, in order and once, on the channel it is given and no
  other, and returns their number, provided the device becomes ready as often as there are bytes, however long it is busy in
  between; if it does not, the call never returns.\<close>

theorem uart_send_data_correct:
  assumes "ch < 3"
  shows "if length cs \<le> ready (ua_LSR b ch)
    then \<exists>b'. uart_send_data ch cs (s, b) = Ok (int (length cs)) (s, b') \<and> ua_THR b' = (ua_THR b)(ch := ua_THR b ch @ cs)
    else uart_send_data ch cs (s, b) = NoFuel"
proof -
  define d where "d = b\<lparr>g_write_count := 0\<rparr>"
  have run: "uart_send_data ch cs (s, b) = bindk (uart_send_loop ch cs) (\<lambda>_. getb g_write_count) (s, d)"
    by (simp add: uart_send_data_def modb_def modk_def d_def)
  show ?thesis
  proof (cases "length cs \<le> ready (ua_LSR b ch)")
    case True
    then obtain ls where "uart_send_loop ch cs (s, d) = Ok () (s, d\<lparr>ua_LSR := (ua_LSR d)(ch := ls), ua_THR := (ua_THR d)(ch := ua_THR d ch @ cs), g_write_count := g_write_count d + int (length cs)\<rparr>)"
      using send_loop_run [OF assms, of cs d s] by (auto simp: d_def)
    then show ?thesis using True unfolding run by (simp add: getb_def getk_def d_def)
  next
    case False
    then have "uart_send_loop ch cs (s, d) = NoFuel" using send_loop_run [OF assms, of cs d s] by (simp add: d_def)
    then show ?thesis using False unfolding run by (simp add: bindk_bindr)
  qed
qed

definition demo_board :: board where
  "demo_board = \<lparr>core_id = 0, mie = 0, mstatus = 0, mip = MIP_MEIP, pl_enable = (\<lambda>_ _. 0), pl_priority = (\<lambda>_. 0), pl_threshold = (\<lambda>_. 0),
     pl_claims = [], pl_completed = [], plic_instance = (\<lambda>_ _. no_inst), s_plic_priorities_init_flag = 0, int_num = 0, int_threshold = 0,
     trap_from_interrupt = False, tm_control = (\<lambda>_ _. 0), tm_load_count = (\<lambda>_ _. 0), tm_load_count2 = (\<lambda>_ _. 0), tm_current_value = (\<lambda>_ _. 0),
     tm_intr_stat = (\<lambda>_. 1), tm_acks = [], timer_instance = (\<lambda>_ _. no_timer), time_irq = (\<lambda>_ _. None), ua_IER = (\<lambda>_. 0), ua_IIR = (\<lambda>_. 4),
     ua_RBR = (\<lambda>_. []), ua_LSR = (\<lambda>_. [0x20, 0, 0x20, 0x20, 0, 0]), ua_THR = (\<lambda>_. []),
     g_uart_instance = (\<lambda>_. \<lparr>ui_receive = no_inst, ui_send = no_inst, ui_uart_num = 0\<rparr>), g_write_count = 0\<rparr>"

theorem uart_send_data_correct_witness:
  "\<exists>b'. uart_send_data 2 [75, 50, 49] ((), demo_board) = Ok 3 ((), b') \<and> ua_THR b' 2 = [75, 50, 49] \<and> ua_THR b' 1 = []"
proof -
  have r: "ready (ua_LSR demo_board 2) = 3" by (simp add: ready_def demo_board_def bit_simps bit_numeral_rec)
  show ?thesis using uart_send_data_correct [of 2 "[75, 50, 49]" demo_board "()"] unfolding r by (auto simp: demo_board_def)
qed

text \<open>Removing one timer callback can silence another. Channels 0 and 1 of a timer share an interrupt line. When callbacks are
  registered for both and for none of channels 2 and 3, \<open>timer_irq_unregister\<close> of channel 0 takes the line away from the interrupt controller
  although the callback of channel 1 stays registered: from then on an interrupt of channel 1 calls nothing.\<close>

theorem timer_irq_unregister_silences:
  assumes d: "d < TIMER_DEVICE_MAX" and f: "ti_callback (timer_instance b d 1) = Some f"
    and none: "ti_callback (timer_instance b d 2) = None" "ti_callback (timer_instance b d 3) = None"
    and pend: "mip b AND MIP_MEIP \<noteq> 0" and claim: "pl_claims b = [word_of_int (get_timer_irqn_by_device_and_channel d 1)]"
  shows "\<exists>c c'. timer_irq_unregister d 0 (s, b) = Ok 0 (s, c) \<and> ti_callback (timer_instance c d 1) = Some f \<and>
    handle_irq_m_ext run epc (s, c) = Ok epc (s, c')"
proof -
  have irq: "get_timer_irqn_by_device_and_channel d 0 = 14 + 2 * int d" "get_timer_irqn_by_device_and_channel d 1 = 14 + 2 * int d"
    using d by (simp_all add: get_timer_irqn_by_device_and_channel_def)
  define c where "c = b\<lparr>timer_instance := upd2 d 0 (\<lambda>_. no_timer) (timer_instance b),
     plic_instance := upd2 (core_id b) (14 + 2 * d) (\<lambda>_. \<lparr>pi_callback = None, pi_ctx = Null_ctx\<rparr>) (plic_instance b)\<rparr>"
  have nat: "nat (14 + 2 * int d) = 14 + 2 * d" by simp
  have "timer_irq_unregister d 0 (s, b) = Ok 0 (s, c)"
    using d none irq by (simp add: timer_irq_unregister_def modb_def modk_def getb_def getk_def whenk_def plic_irq_unregister_def plic_irq_register_def
       nat upd2_def retk_def c_def)
  moreover have "ti_callback (timer_instance c d 1) = Some f" using f by (simp add: c_def upd2_def)
  moreover have "\<exists>c'. handle_irq_m_ext run epc (s, c) = Ok epc (s, c')"
  proof -
    have "d = 0 \<or> d = 1 \<or> d = 2" using d by linarith
    then obtain w where "pl_claims b = [w]" "unat w = 14 + 2 * d" using claim unfolding irq by auto
    then show ?thesis using pend d
      by (simp add: handle_irq_m_ext_def c_def getb_def getk_def modb_def modk_def plic_irq_claim_def retk_def call_ptr_def upd2_def plic_irq_complete_def)
  qed
  ultimately show ?thesis by blast
qed

theorem timer_irq_unregister_silences_witness:
  "\<exists>b c c'. ti_callback (timer_instance b 0 1) = Some Timer_interrupt \<and> timer_irq_unregister 0 0 ((), b) = Ok 0 ((), c) \<and>
     ti_callback (timer_instance c 0 1) = Some Timer_interrupt \<and> handle_irq_m_ext (\<lambda>_ _. faultk) 0 ((), c) = Ok 0 ((), c')"
proof -
  define b where "b = demo_board\<lparr>timer_instance := upd2 0 1 (\<lambda>_. no_timer\<lparr>ti_callback := Some Timer_interrupt\<rparr>) (timer_instance demo_board), pl_claims := [14]\<rparr>"
  have f: "ti_callback (timer_instance b 0 1) = Some Timer_interrupt" "ti_callback (timer_instance b 0 2) = None" "ti_callback (timer_instance b 0 3) = None"
    "mip b AND MIP_MEIP \<noteq> 0" "pl_claims b = [word_of_int (get_timer_irqn_by_device_and_channel 0 1)]"
    by (simp_all add: b_def upd2_def demo_board_def no_timer_def get_timer_irqn_by_device_and_channel_def)
  have "(0 :: nat) < TIMER_DEVICE_MAX" by simp
  from timer_irq_unregister_silences [OF this f, of "()" "\<lambda>_ _. faultk" 0] f(1) show ?thesis by blast
qed

text \<open>Enabling and disabling a line changes its bit and no other.\<close>

lemma word_and_bit: "0 \<le> n \<Longrightarrow> k < 32 \<Longrightarrow> 32 * w + k = nat n \<longleftrightarrow> w = nat (n div 32) \<and> k = nat n mod 32"
proof -
  assume "0 \<le> n" "k < 32"
  moreover have "32 * w + k = m \<longleftrightarrow> w = m div 32 \<and> k = m mod 32" if "k < 32" for m using that by (auto simp: mult_div_mod_eq)
  ultimately show ?thesis by (simp add: nat_div_distrib)
qed

lemma irq_bit_eq: "0 \<le> n \<Longrightarrow> bit (irq_bit n) k \<longleftrightarrow> k = nat n mod 32"
  by (auto simp: irq_bit_def bit_simps nat_mod_distrib)

lemma plic_irq_enable_bit:
  assumes "0 \<le> n" "n \<le> PLIC_NUM_SOURCES" "core_id b = c"
  shows "\<exists>d. plic_irq_enable n (s, b) = Ok 0 (s, d) \<and> (\<forall>k w. k < 32 \<longrightarrow> bit (pl_enable d c w) k = (32 * w + k = nat n \<or> bit (pl_enable b c w) k))"
  using assms
  by (auto simp: plic_irq_enable_def irq_out_of_range_def getb_def getk_def modb_def modk_def retk_def upd2_def word_and_bit irq_bit_eq bit_or_iff)

lemma plic_irq_disable_bit:
  assumes "0 \<le> n" "n \<le> PLIC_NUM_SOURCES" "core_id b = c"
  shows "\<exists>d. plic_irq_disable n (s, b) = Ok 0 (s, d) \<and> (\<forall>k w. k < 32 \<longrightarrow> bit (pl_enable d c w) k = (32 * w + k \<noteq> nat n \<and> bit (pl_enable b c w) k))"
  using assms
  by (auto simp: plic_irq_disable_def irq_out_of_range_def getb_def getk_def modb_def modk_def retk_def upd2_def word_and_bit irq_bit_eq bit_and_iff bit_not_iff)

end
