(* ===== verification/Irq.thy ===== *)
theory Irq
  imports Board_Props Kernel
begin

text \<open>
  Interrupts from the device to the kernel: the handlers \<open>sched_init\<close> and \<open>rs_init\<close> register, their dispatch through the
  interrupt controller, the timer and the serial driver, and \<open>machine_interrupt_handler\<close> with the device registers. The
  relation \<open>sim\<close> compares code on the pair of kernel and board with code on the kernel alone, across switches to other tasks.
\<close>

section \<open>Kernel code on the pair\<close>

text \<open>A task that has switched away goes on behind \<open>switch_to_tss\<close>, with \<open>interrupt_recover\<close>.\<close>

primrec lift_res :: "(kstate, 'a) res \<Rightarrow> board \<Rightarrow> (kstate \<times> board, 'a) res" where
  "lift_res (Ok x s) b = Ok x (s, b)"
| "lift_res (Panic e) b = Panic e"
| "lift_res (Sleep s k) b = Sleep (s, b) (\<lambda>u. lift_res (k (fst u)) (interrupt_recover (snd u)))"
| "lift_res (Die c s) b = Die c (s, b)"
| "lift_res Fault b = Fault"
| "lift_res NoFuel b = NoFuel"

definition liftk :: "'a K \<Rightarrow> (kstate, 'a) B" where
  "liftk m = (\<lambda>s. lift_res (m (fst s)) (snd s))"

text \<open>The handlers of the kernel: \<open>user\<close> says what the timer interrupted, \<open>rbr\<close> is the byte in the receive register.\<close>

definition kernel_fn :: "bool \<Rightarrow> u8 \<Rightarrow> fn \<Rightarrow> unit K" where
  "kernel_fn user rbr f = (case f of Timer_interrupt \<Rightarrow> timer_interrupt user | Serial_send \<Rightarrow> serial_send_interrupt
     | Serial_rev \<Rightarrow> serial_rev_interrupt rbr | _ \<Rightarrow> faultk)"

definition call_kernel :: "bool \<Rightarrow> u8 \<Rightarrow> fn \<Rightarrow> ctx \<Rightarrow> (kstate, int) B" where
  "call_kernel user rbr f x = bindk (liftk (kernel_fn user rbr f)) (\<lambda>_. retk 0)"

text \<open>What the interrupt controller code calls.\<close>

definition call_driver :: "bool \<Rightarrow> u8 \<Rightarrow> fn \<Rightarrow> ctx \<Rightarrow> (kstate, int) B" where
  "call_driver user rbr f x = (case f of Timer_cb d \<Rightarrow> timer_interrupt_handler (call_kernel user rbr) d
     | Timer_isr \<Rightarrow> timer_isr (call_kernel user rbr) x | Uart_cb \<Rightarrow> uart_irq_callback (call_kernel user rbr) x
     | g \<Rightarrow> call_kernel user rbr g x)"

section \<open>Registration\<close>

text \<open>The registrations of \<open>rs_init\<close> and of the end of \<open>sched_init\<close>.\<close>

definition rs_init :: "('k, unit) B" where
  "rs_init = bindk (uart_irq_register UART_DEVICE_3 UART_SEND (Some Serial_send) Null_ctx PLIC_NUM_PRIORITIES) (\<lambda>_.
     uart_irq_register UART_DEVICE_3 UART_RECEIVE (Some Serial_rev) Null_ctx PLIC_NUM_PRIORITIES)"

definition sched_init_timer :: "('k, unit) B" where
  "sched_init_timer = bindk (timer_init 0) (\<lambda>_.
     bindk (timer_irq_register 0 0 False PLIC_NUM_PRIORITIES (Some Timer_interrupt) Null_ctx) (\<lambda>_. timer_set_enable 0 0 1))"

section \<open>The interrupt handler\<close>

definition machine_interrupt :: "bool \<Rightarrow> u8 \<Rightarrow> nat \<Rightarrow> ulong \<Rightarrow> ulong list \<Rightarrow> ulong list \<Rightarrow> (kstate, ulong \<times> ulong list) B" where
  "machine_interrupt user rbr cause epc regs fregs = bindk (getk id) (\<lambda>old.
     bindk (modb (\<lambda>b. b\<lparr>trap_from_interrupt := True\<rparr>)) (\<lambda>_.
     bindk (liftk (modk (\<lambda>s. s\<lparr>trap_regs := regs, trap_fregs := fregs, trap_epc := epc, trap_newepc := epc\<rparr>))) (\<lambda>_.
     bindk (if cause = CAUSE_machine_external then bindk (handle_irq_m_ext (call_driver user rbr) epc) (\<lambda>_. retk ()) else retk ()) (\<lambda>_.
     bindk sysctl_disable_irq (\<lambda>_.
     bindk (liftk (getk (\<lambda>s. (trap_newepc s, trap_regs s)))) (\<lambda>r.
     bindk (liftk (modk (\<lambda>s. s\<lparr>trap_regs := trap_regs (fst old), trap_fregs := trap_fregs (fst old), trap_epc := trap_epc (fst old), trap_newepc := trap_newepc (fst old)\<rparr>))) (\<lambda>_.
     bindk (modb (\<lambda>b. b\<lparr>int_num := int_num (snd old), int_threshold := int_threshold (snd old), trap_from_interrupt := trap_from_interrupt (snd old)\<rparr>)) (\<lambda>_.
     liftk (if fst r < 0x80000000 then hangk else retk r)))))))))"

section \<open>Simulation\<close>

primrec sim :: "(board \<Rightarrow> bool) \<Rightarrow> (kstate \<times> board, 'a) res \<Rightarrow> (kstate, 'a) res \<Rightarrow> bool" where
  "sim Q (Ok x s) r = (r = Ok x (fst s) \<and> Q (snd s))"
| "sim Q (Panic e) r = (r = Panic e)"
| "sim Q (Sleep s k) r = (\<exists>k'. r = Sleep (fst s) k' \<and> Q (snd s) \<and> (\<forall>u b. Q b \<longrightarrow> sim Q (k (u, b)) (k' u)))"
| "sim Q (Die c s) r = (r = Die c (fst s) \<and> Q (snd s))"
| "sim Q Fault r = (r = Fault)"
| "sim Q NoFuel r = (r = NoFuel)"

definition simk :: "(board \<Rightarrow> bool) \<Rightarrow> (kstate, 'a) B \<Rightarrow> 'a K \<Rightarrow> bool" where
  "simk Q m k \<longleftrightarrow> (\<forall>s b. Q b \<longrightarrow> sim Q (m (s, b)) (k s))"

lemma simk_retk: "simk Q (retk x) (retk x)"
  by (simp add: simk_def retk_def)

lemma sim_bindr:
  assumes "\<And>x s b. Q b \<Longrightarrow> sim Q (m x (s, b)) (k x s)"
  shows "sim Q r r' \<Longrightarrow> sim Q (bindr r m) (bindr r' k)"
proof (induction r arbitrary: r')
  case (Ok x s)
  then show ?case using assms by (cases s) auto
next
  case (Sleep s f)
  then show ?case by fastforce
qed auto

lemma simk_bindk: "simk Q m k \<Longrightarrow> (\<And>x. simk Q (f x) (g x)) \<Longrightarrow> simk Q (bindk m f) (bindk k g)"
  unfolding simk_def bindk_bindr by (auto intro!: sim_bindr)

lemma simk_modb: "(\<And>b. Q b \<Longrightarrow> Q (f b)) \<Longrightarrow> simk Q m k \<Longrightarrow> simk Q (bindk (modb f) (\<lambda>_. m)) k"
  by (simp add: simk_def bindk_bindr modb_def modk_def)

lemma sim_lift_res: "(\<And>b. Q b \<Longrightarrow> Q (interrupt_recover b)) \<Longrightarrow> Q b \<Longrightarrow> sim Q (lift_res r b) r"
  by (induction r arbitrary: b) auto

lemma simk_liftk: "(\<And>b. Q b \<Longrightarrow> Q (interrupt_recover b)) \<Longrightarrow> simk Q (liftk m) m"
  by (simp add: simk_def liftk_def sim_lift_res)


lemma bindk_retk_right [simp]: "bindk m retk = (m :: ('s, 'a) kprog)"
proof (rule ext)
  fix s
  have "bindr r retk = r" for r :: "('s, 'a) res" by (induction r) (simp_all add: retk_def)
  then show "bindk m retk s = m s" by (simp add: bindk_bindr)
qed

lemma bindk_unit_right: "bindk m (\<lambda>_. retk ()) = (m :: ('s, unit) kprog)"
proof -
  have "(\<lambda>_. retk ()) = (retk :: unit \<Rightarrow> ('s, unit) kprog)" by (simp add: fun_eq_iff)
  then show ?thesis by simp
qed

lemma simk_getb: "(\<And>b. Q b \<Longrightarrow> simk Q (f (g b)) k) \<Longrightarrow> simk Q (bindk (getb g) f) k"
  by (simp add: simk_def bindk_bindr getb_def getk_def)

section \<open>The registered handlers\<close>

text \<open>The tables after start-up: line 13 is the third serial port, line 14 timer 0, whose channel 0 is the clock.\<close>

definition irqs_ok :: "board \<Rightarrow> bool" where
  "irqs_ok b \<longleftrightarrow> core_id b = 0 \<and>
     (\<forall>i < IRQN_MAX. pi_callback (plic_instance b 0 i) = (if i = 13 then Some Uart_cb else if i = 14 then Some (Timer_cb 0) else None)) \<and>
     pi_ctx (plic_instance b 0 13) = Uart_inst UART_DEVICE_3 \<and>
     (\<forall>i < TIMER_CHANNEL_MAX. ti_callback (timer_instance b 0 i) = (if i = 0 then Some Timer_interrupt else None)) \<and>
     \<not> ti_single_shot (timer_instance b 0 0) \<and>
     g_uart_instance b UART_DEVICE_3 = \<lparr>ui_receive = \<lparr>pi_callback = Some Serial_rev, pi_ctx = Null_ctx\<rparr>,
       ui_send = \<lparr>pi_callback = Some Serial_send, pi_ctx = Null_ctx\<rparr>, ui_uart_num = UART_DEVICE_3\<rparr>"

lemma irqs_ok_upd [simp]:
  "irqs_ok (b\<lparr>mie := v\<rparr>) = irqs_ok b" "irqs_ok (b\<lparr>mstatus := v\<rparr>) = irqs_ok b" "irqs_ok (b\<lparr>pl_threshold := x\<rparr>) = irqs_ok b"
  "irqs_ok (b\<lparr>pl_claims := y\<rparr>) = irqs_ok b" "irqs_ok (b\<lparr>pl_completed := y\<rparr>) = irqs_ok b" "irqs_ok (b\<lparr>int_num := z\<rparr>) = irqs_ok b"
  "irqs_ok (b\<lparr>int_threshold := z\<rparr>) = irqs_ok b" "irqs_ok (b\<lparr>trap_from_interrupt := t\<rparr>) = irqs_ok b" "irqs_ok (b\<lparr>tm_acks := a\<rparr>) = irqs_ok b"
  by (simp_all add: irqs_ok_def)

lemma irqs_ok_recover: "irqs_ok b \<Longrightarrow> irqs_ok (interrupt_recover b)"
  by (simp add: interrupt_recover_def Let_def)

text \<open>The kernel handler that an interrupt leads to.\<close>

definition claim_of :: "board \<Rightarrow> u32" where
  "claim_of b = (case pl_claims b of [] \<Rightarrow> 0 | c # _ \<Rightarrow> c)"

definition dispatch :: "bool \<Rightarrow> u8 \<Rightarrow> board \<Rightarrow> unit K" where
  "dispatch user rbr b = (let st = ua_IIR b UART_DEVICE_3 AND 0xF in
     if mip b AND MIP_MEIP = 0 then retk ()
     else if claim_of b = 14 \<and> bit (tm_intr_stat b 0) 0 then timer_interrupt user
     else if claim_of b = 13 \<and> st = 2 \<and> g_write_count b \<noteq> 0 then serial_send_interrupt
     else if claim_of b = 13 \<and> (st = 4 \<or> st = 12) then serial_rev_interrupt rbr else retk ())"

lemma simk_call_kernel: "simk irqs_ok (bindk (call_kernel user rbr f x) (\<lambda>_. retk ())) (kernel_fn user rbr f)"
proof -
  have "bindk (call_kernel user rbr f x) (\<lambda>_. retk ()) = bindk (liftk (kernel_fn user rbr f)) (\<lambda>_. retk ())"
    by (simp add: call_kernel_def bindk_assoc)
  then show ?thesis using simk_liftk [where Q = irqs_ok, OF irqs_ok_recover] by (simp add: bindk_unit_right)
qed

lemma simk_ack: "i < TIMER_CHANNEL_MAX \<Longrightarrow> simk irqs_ok (ack_channel 0 i) (retk ())"
  by (simp add: simk_def ack_channel_def in_timer_def modb_def modk_def retk_def)

lemma simk_timer_round:
  assumes "i < TIMER_CHANNEL_MAX"
  shows "simk irqs_ok (timer_round (call_kernel user rbr) 0 st i) (if i = 0 \<and> bit st 0 then timer_interrupt user else retk ())"
proof (cases "bit st i")
  case True
  have fire: "simk irqs_ok (bindk (call_kernel user rbr Timer_interrupt x) (\<lambda>_. bindk (getb (\<lambda>b. ti_single_shot (timer_instance b 0 0)))
      (\<lambda>single. whenk single (timer_set_enable 0 0 0)))) (timer_interrupt user)" for x
  proof -
    have "simk irqs_ok (bindk (bindk (call_kernel user rbr Timer_interrupt x) (\<lambda>_. retk ())) (\<lambda>_. bindk (getb (\<lambda>b. ti_single_shot (timer_instance b 0 0)))
      (\<lambda>single. whenk single (timer_set_enable 0 0 0)))) (bindk (timer_interrupt user) (\<lambda>_. retk ()))"
      using simk_call_kernel [of user rbr Timer_interrupt x]
      by (intro simk_bindk simk_getb) (auto simp: kernel_fn_def irqs_ok_def whenk_def simk_retk)
    then show ?thesis by (simp add: bindk_assoc)
  qed
  have cb: "ti_callback (timer_instance b 0 i) = (if i = 0 then Some Timer_interrupt else None)" if "irqs_ok b" for b
    using that assms by (simp add: irqs_ok_def)
  have "simk irqs_ok (timer_round (call_kernel user rbr) 0 st i) (bindk (if i = 0 then timer_interrupt user else retk ()) (\<lambda>_. retk ()))"
    unfolding timer_round_def whenk_def if_P [OF True]
  proof (rule simk_getb, rule simk_bindk)
    fix b assume "irqs_ok b"
    note c = cb [OF this]
    show "simk irqs_ok (case ti_callback (timer_instance b 0 i) of None \<Rightarrow> retk () | Some f \<Rightarrow> bindk (call_kernel user rbr f (ti_ctx (timer_instance b 0 i))) (\<lambda>_.
        bindk (getb (\<lambda>b. ti_single_shot (timer_instance b 0 i))) (\<lambda>single. if single then timer_set_enable 0 i 0 else retk ())))
        (if i = 0 then timer_interrupt user else retk ())"
    proof (cases "i = 0")
      case True
      show ?thesis using fire c unfolding True by (simp add: whenk_def)
    qed (simp add: c simk_retk)
    show "simk irqs_ok (ack_channel 0 i) (retk ())" by (rule simk_ack [OF assms])
  qed
  then show ?thesis using True by (cases "i = 0") (simp_all add: bindk_unit_right)
qed (auto simp: timer_round_def whenk_def simk_retk)


lemma sim_timer:
  assumes "irqs_ok b"
  shows "sim irqs_ok (bindk (timer_interrupt_handler (call_kernel user rbr) 0) (\<lambda>_. retk ()) (s, b))
     ((if bit (tm_intr_stat b 0) 0 then timer_interrupt user else retk ()) s)"
proof -
  let ?st = "tm_intr_stat b 0"
  have upt: "[0..<4 :: nat] = [0, 1, 2, 3]" by code_simp
  have run: "bindk (timer_interrupt_handler (call_kernel user rbr) 0) (\<lambda>_. retk ()) (s, b) =
      eachk (timer_round (call_kernel user rbr) 0 ?st) [0, 1, 2, 3] (s, b)"
    by (simp add: timer_interrupt_handler_def timer_get_interrupt_status_def in_timer_def getb_def getk_def bindk_assoc bindk_unit_right upt)
  have "simk irqs_ok (eachk (timer_round (call_kernel user rbr) 0 ?st) [0, 1, 2, 3])
      (eachk (\<lambda>i. if i = (0 :: nat) \<and> bit ?st 0 then timer_interrupt user else retk ()) [0, 1, 2, 3])"
    unfolding eachk.simps by (intro simk_bindk simk_timer_round simk_retk) simp_all
  then show ?thesis using assms unfolding run by (simp add: simk_def bindk_unit_right)
qed

lemma sim_uart:
  assumes "irqs_ok b"
  shows "sim irqs_ok (bindk (uart_irq_callback (call_kernel user rbr) (Uart_inst UART_DEVICE_3)) (\<lambda>_. retk ()) (s, b))
     ((if ua_IIR b 2 AND 0xF = 2 \<and> g_write_count b \<noteq> 0 then serial_send_interrupt
       else if ua_IIR b 2 AND 0xF = 4 \<or> ua_IIR b 2 AND 0xF = 12 then serial_rev_interrupt rbr else retk ()) s)"
proof -
  note sk = simk_call_kernel [unfolded simk_def, rule_format, OF assms]
  have r: "sim irqs_ok (retk () (s, b)) (retk () s)" using assms by (simp add: retk_def)
  have u: "g_uart_instance b UART_DEVICE_3 = \<lparr>ui_receive = \<lparr>pi_callback = Some Serial_rev, pi_ctx = Null_ctx\<rparr>,
       ui_send = \<lparr>pi_callback = Some Serial_send, pi_ctx = Null_ctx\<rparr>, ui_uart_num = UART_DEVICE_3\<rparr>" using assms by (simp add: irqs_ok_def)
  show ?thesis
    using r sk [of user rbr Serial_send Null_ctx s] sk [of user rbr Serial_rev Null_ctx s]
    by (simp add: uart_irq_callback_def in_uart_def getb_def getk_def u call_ptr_def bindk_assoc kernel_fn_def)
qed


section \<open>Dispatch\<close>

text \<open>The board while the handler of line \<open>n\<close> runs.\<close>

definition in_service :: "board \<Rightarrow> board" where
  "in_service b = (let n = claim_of b in b\<lparr>pl_claims := List.tl (pl_claims b), int_num := n, int_threshold := pl_threshold b (core_id b),
     pl_threshold := (pl_threshold b)(core_id b := pl_priority b (unat n)), mie := mie b AND NOT (MIP_MTIP OR MIP_MSIP), mstatus := mstatus b OR MSTATUS_MIE\<rparr>)"

definition irq_finish :: "u32 \<Rightarrow> nat \<Rightarrow> ulong \<Rightarrow> u32 \<Rightarrow> ulong \<Rightarrow> ('k, ulong) B" where
  "irq_finish n c ie_flag th epc = bindk (plic_irq_complete n) (\<lambda>_.
     bindk (modb (\<lambda>b. b\<lparr>mstatus := (mstatus b AND NOT MSTATUS_MIE) OR MSTATUS_MPIE, mie := ie_flag\<rparr>)) (\<lambda>_.
     bindk (modb (\<lambda>b. b\<lparr>pl_threshold := (pl_threshold b)(c := th)\<rparr>)) (\<lambda>_. retk epc)))"

lemma plic_irq_claim_run: "plic_irq_claim (s, b) = Ok (claim_of b) (s, b\<lparr>pl_claims := List.tl (pl_claims b)\<rparr>)"
  by (cases "pl_claims b") (simp_all add: plic_irq_claim_def getb_def getk_def modb_def modk_def retk_def claim_of_def)

lemma handle_irq_run:
  assumes "mip b AND MIP_MEIP \<noteq> 0" "unat (claim_of b) < IRQN_MAX"
  shows "handle_irq_m_ext run epc (s, b) = bindk (call_ptr run (pi_callback (plic_instance b (core_id b) (unat (claim_of b)))) (pi_ctx (plic_instance b (core_id b) (unat (claim_of b)))))
     (\<lambda>_. irq_finish (claim_of b) (core_id b) (mie b) (pl_threshold b (core_id b)) epc) (s, in_service b)"
proof -
  have g: "getb f (s, x) = Ok (f x) (s, x)" and m: "modb h (s, x) = Ok () (s, h x)" for f :: "board \<Rightarrow> 'c" and h and x
    by (simp_all add: getb_def getk_def modb_def modk_def)
  have "in_service b = b\<lparr>pl_claims := List.tl (pl_claims b), int_num := claim_of b, int_threshold := pl_threshold b (core_id b),
      pl_threshold := (pl_threshold b)(core_id b := pl_priority b (unat (claim_of b))), mie := mie b AND NOT (MIP_MTIP OR MIP_MSIP), mstatus := mstatus b OR MSTATUS_MIE\<rparr>"
    by (simp add: in_service_def Let_def)
  then show ?thesis
    using assms unfolding handle_irq_m_ext_def irq_finish_def
    by (simp add: getb_def getk_def modb_def modk_def plic_irq_claim_run not_le [symmetric])
qed

lemma simk_finish: "simk irqs_ok (bindk (irq_finish n c ie th epc) (\<lambda>_. retk ())) (retk ())"
  by (simp add: irq_finish_def plic_irq_complete_def simk_def modb_def modk_def retk_def bindk_bindr)

lemma in_service_simps [simp]: "irqs_ok (in_service b) = irqs_ok b" "tm_intr_stat (in_service b) = tm_intr_stat b" "ua_IIR (in_service b) = ua_IIR b"
  "g_write_count (in_service b) = g_write_count b"
  by (simp_all add: in_service_def Let_def)

lemma sim_handle:
  assumes ok: "irqs_ok b" and n: "unat (claim_of b) < IRQN_MAX"
  shows "sim irqs_ok (bindk (handle_irq_m_ext (call_driver user rbr) epc) (\<lambda>_. retk ()) (s, b)) (dispatch user rbr b s)"
proof (cases "mip b AND MIP_MEIP = 0")
  case True
  then show ?thesis using ok by (simp add: handle_irq_m_ext_def getb_def getk_def dispatch_def retk_def)
next
  case False
  define p where "p = plic_instance b 0 (unat (claim_of b))"
  have c0: "core_id b = 0" using ok by (simp add: irqs_ok_def)
  have cb: "pi_callback p = (if unat (claim_of b) = 13 then Some Uart_cb else if unat (claim_of b) = 14 then Some (Timer_cb 0) else None)"
    using ok n unfolding p_def by (simp add: irqs_ok_def)
  have eq: "unat (claim_of b) = 13 \<longleftrightarrow> claim_of b = 13" "unat (claim_of b) = 14 \<longleftrightarrow> claim_of b = 14"
    by (simp_all add: word_unat_eq_iff)
  have call: "sim irqs_ok (call_ptr (call_driver user rbr) (pi_callback p) (pi_ctx p) (s, in_service b)) (dispatch user rbr b s)"
  proof -
    consider (uart) "claim_of b = 13" | (timer) "claim_of b = 14" | (other) "claim_of b \<noteq> 13" "claim_of b \<noteq> 14" by blast
    then show ?thesis
    proof cases
      case uart
      moreover have "pi_ctx p = Uart_inst UART_DEVICE_3" using ok uart by (simp add: irqs_ok_def p_def)
      moreover have "dispatch user rbr b = (if ua_IIR b 2 AND 0xF = 2 \<and> g_write_count b \<noteq> 0 then serial_send_interrupt
         else if ua_IIR b 2 AND 0xF = 4 \<or> ua_IIR b 2 AND 0xF = 12 then serial_rev_interrupt rbr else retk ())"
        using uart False by (simp add: dispatch_def Let_def)
      moreover have "pi_callback p = Some Uart_cb" using cb uart by simp
      ultimately show ?thesis using ok sim_uart [of "in_service b" user rbr s]
        by (simp only: call_ptr_def call_driver_def in_service_simps option.case fn.case simp_thms)
    next
      case timer
      then have "dispatch user rbr b = (if bit (tm_intr_stat b 0) 0 then timer_interrupt user else retk ())"
        using False by (simp add: dispatch_def Let_def)
      moreover have "pi_callback p = Some (Timer_cb 0)" using cb timer by simp
      ultimately show ?thesis using ok sim_timer [of "in_service b" user rbr s]
        by (simp only: call_ptr_def call_driver_def in_service_simps option.case fn.case simp_thms)
    next
      case other
      then have "dispatch user rbr b = retk ()" by (simp add: dispatch_def Let_def)
      then show ?thesis using cb other ok by (simp add: eq call_ptr_def retk_def)
    qed
  qed
  have run: "bindk (handle_irq_m_ext (call_driver user rbr) epc) (\<lambda>_. retk ()) (s, b) = bindr (call_ptr (call_driver user rbr) (pi_callback p) (pi_ctx p) (s, in_service b))
      (\<lambda>_. bindk (irq_finish (claim_of b) 0 (mie b) (pl_threshold b 0) epc) (\<lambda>_. retk ()))"
  proof -
    have "bindk (handle_irq_m_ext (call_driver user rbr) epc) (\<lambda>_. retk ()) (s, b) =
        bindk (bindk (call_ptr (call_driver user rbr) (pi_callback p) (pi_ctx p)) (\<lambda>_. irq_finish (claim_of b) 0 (mie b) (pl_threshold b 0) epc)) (\<lambda>_. retk ()) (s, in_service b)"
      using handle_irq_run [OF False n, of "call_driver user rbr" epc s] by (simp add: bindk_bindr c0 p_def)
    then show ?thesis by (simp add: bindk_assoc) (simp add: bindk_bindr)
  qed
  have "sim irqs_ok (bindr (call_ptr (call_driver user rbr) (pi_callback p) (pi_ctx p) (s, in_service b))
      (\<lambda>_. bindk (irq_finish (claim_of b) 0 (mie b) (pl_threshold b 0) epc) (\<lambda>_. retk ()))) (bindr (dispatch user rbr b s) (\<lambda>_. retk ()))"
    by (rule sim_bindr [OF _ call]) (use simk_finish in \<open>simp add: simk_def\<close>)
  moreover have "bindr (dispatch user rbr b s) (\<lambda>_. retk ()) = dispatch user rbr b s"
    using bindk_unit_right [of "dispatch user rbr b"] by (metis bindk_bindr)
  ultimately show ?thesis unfolding run by simp
qed


lemma dispatch_handler: "irq_handler (dispatch user rbr b) \<or> dispatch user rbr b = retk ()"
  by (simp add: dispatch_def Let_def irq_handler.intros)

text \<open>What \<open>machine_interrupt\<close> does behind the dispatch: \<open>s\<close> and \<open>b\<close> are the states on entry.\<close>

definition interrupt_exit :: "kstate \<Rightarrow> board \<Rightarrow> (kstate, ulong \<times> ulong list) B" where
  "interrupt_exit s b = bindk sysctl_disable_irq (\<lambda>_.
     bindk (liftk (getk (\<lambda>s. (trap_newepc s, trap_regs s)))) (\<lambda>r.
     bindk (liftk (modk (\<lambda>t. t\<lparr>trap_regs := trap_regs s, trap_fregs := trap_fregs s, trap_epc := trap_epc s, trap_newepc := trap_newepc s\<rparr>))) (\<lambda>_.
     bindk (modb (\<lambda>x. x\<lparr>int_num := int_num b, int_threshold := int_threshold b, trap_from_interrupt := trap_from_interrupt b\<rparr>)) (\<lambda>_.
     liftk (if fst r < 0x80000000 then hangk else retk r)))))"

lemma machine_interrupt_run:
  "machine_interrupt user rbr cause epc regs fregs (s, b) =
     bindr ((if cause = CAUSE_machine_external then bindk (handle_irq_m_ext (call_driver user rbr) epc) (\<lambda>_. retk ()) else retk ())
       (s\<lparr>trap_regs := regs, trap_fregs := fregs, trap_epc := epc, trap_newepc := epc\<rparr>, b\<lparr>trap_from_interrupt := True\<rparr>)) (\<lambda>_. interrupt_exit s b)"
  by (simp add: machine_interrupt_def interrupt_exit_def bindk_bindr getk_def modb_def modk_def liftk_def)

text \<open>C15: an interrupt goes through the interrupt controller, the timer or serial driver and the tables that start-up
  filled to the right handler of the kernel: the handler with all its device accesses behaves like the kernel's own part
  \<open>machine_interrupt_handler\<close> with the one handler that \<open>dispatch\<close> selects (the clock, the serial transmit or receive
  interrupt) or with none, also when the handler switches to another task and goes on later on a changed board, and the
  tables stay as they are.\<close>

theorem machine_interrupt_refines:
  assumes ok: "irqs_ok b" and n: "unat (claim_of b) < IRQN_MAX"
  shows "sim irqs_ok (machine_interrupt user rbr cause epc regs fregs (s, b)) (machine_interrupt_handler (dispatch user rbr b) cause epc regs fregs s) \<and>
    (irq_handler (dispatch user rbr b) \<or> dispatch user rbr b = retk ())"
proof -
  define b1 where "b1 = b\<lparr>trap_from_interrupt := True\<rparr>"
  define s1 where "s1 = s\<lparr>trap_regs := regs, trap_fregs := fregs, trap_epc := epc, trap_newepc := epc\<rparr>"
  define fin where "fin r = bindk (modk (\<lambda>t. t\<lparr>trap_regs := trap_regs s, trap_fregs := trap_fregs s, trap_epc := trap_epc s, trap_newepc := trap_newepc s\<rparr>))
     (\<lambda>_. if fst r < 0x80000000 then hangk else retk r)" for r :: "ulong \<times> ulong list"
  have cl: "claim_of b1 = claim_of b" by (simp add: b1_def claim_of_def)
  then have b1: "irqs_ok b1" "claim_of b1 = claim_of b" "dispatch user rbr b1 = dispatch user rbr b"
    using ok unfolding dispatch_def cl Let_def by (simp_all add: b1_def cong: if_cong)
  let ?body = "if cause = CAUSE_machine_external then bindk (handle_irq_m_ext (call_driver user rbr) epc) (\<lambda>_. retk ()) else retk ()"
  let ?kbody = "if cause = CAUSE_machine_external then dispatch user rbr b else retk ()"
  let ?tail = "\<lambda>_. interrupt_exit s b"
  let ?ktail = "\<lambda>_. bindk (getk (\<lambda>s. (trap_newepc s, trap_regs s))) fin"
  have run: "machine_interrupt user rbr cause epc regs fregs (s, b) = bindr (?body (s1, b1)) ?tail"
    unfolding b1_def s1_def by (rule machine_interrupt_run)
  have krun: "machine_interrupt_handler (dispatch user rbr b) cause epc regs fregs s = bindr (?kbody s1) ?ktail"
  proof -
    have "bindk (trap_frame epc epc regs fregs body) (\<lambda>r. if fst r < 0x80000000 then hangk else retk r) s = bindr (body s1) ?ktail" for body
      by (simp add: trap_frame_def bindk_assoc) (simp add: bindk_bindr getk_def modk_def s1_def fin_def)
    then show ?thesis unfolding machine_interrupt_handler_def .
  qed
  have "sim irqs_ok (?body (s1, b1)) (?kbody s1)"
    using sim_handle [of b1 user rbr epc s1] b1 n by (simp add: retk_def)
  moreover have "simk irqs_ok (?tail x) (?ktail x)" for x
    unfolding fin_def interrupt_exit_def sysctl_disable_irq_def by (intro simk_modb simk_bindk simk_liftk irqs_ok_recover) simp_all
  ultimately have "sim irqs_ok (bindr (?body (s1, b1)) ?tail) (bindr (?kbody s1) ?ktail)"
    by (intro sim_bindr) (simp_all add: simk_def)
  then show ?thesis unfolding run krun using dispatch_handler by blast
qed


section \<open>Start-up\<close>

lemma claim_loop: "i + n = 100 \<Longrightarrow> \<exists>cs. loopk (Suc n) (\<lambda>i :: nat. bindk plic_irq_claim (\<lambda>v. retk (if v > 0 \<and> i < 100 then Inl (i + 1) else Inr ()))) i (s, b) = Ok () (s, b\<lparr>pl_claims := cs\<rparr>)"
proof (induction n arbitrary: i b)
  case 0
  then show ?case by (auto simp: plic_irq_claim_run retk_def)
next
  case (Suc n)
  define c where "c = b\<lparr>pl_claims := List.tl (pl_claims b)\<rparr>"
  have step: "(bindk plic_irq_claim (\<lambda>v. retk (if v > 0 \<and> i < 100 then Inl (i + 1) else Inr ()))) (s, b) =
      Ok (if claim_of b > 0 \<and> i < 100 then Inl (i + 1) else Inr ()) (s, c)" by (simp add: plic_irq_claim_run retk_def c_def)
  show ?case
  proof (cases "claim_of b > 0")
    case True
    from Suc.prems have i: "i < 100" "i + 1 + n = 100" by linarith+
    obtain cs where "loopk (Suc n) (\<lambda>i :: nat. bindk plic_irq_claim (\<lambda>v. retk (if v > 0 \<and> i < 100 then Inl (i + 1) else Inr ()))) (i + 1) (s, c) = Ok () (s, c\<lparr>pl_claims := cs\<rparr>)"
      using Suc.IH [OF i(2)] by blast
    then show ?thesis using step True i(1) by (subst loopk.simps) (auto simp: c_def)
  next
    case False
    then show ?thesis using step by (subst loopk.simps) (auto simp: c_def retk_def)
  qed
qed

lemma plic_init_run: "\<exists>cs. plic_init (s, b) = Ok () (s, b\<lparr>
    pl_enable := (pl_enable b)(core_id b := (\<lambda>i. if i < 3 then 0 else pl_enable b (core_id b) i)),
    pl_priority := (if s_plic_priorities_init_flag b = 0 then (\<lambda>i. if int i < PLIC_NUM_SOURCES then 0 else pl_priority b i) else pl_priority b),
    s_plic_priorities_init_flag := (if s_plic_priorities_init_flag b = 0 then 1 else s_plic_priorities_init_flag b),
    pl_threshold := (pl_threshold b)(core_id b := 0),
    plic_instance := (plic_instance b)(core_id b := (\<lambda>i. if i < IRQN_MAX then no_inst else plic_instance b (core_id b) i)),
    pl_claims := cs, mie := mie b OR MIP_MEIP\<rparr>)"
proof -
  define c where "c = b\<lparr>
    pl_enable := (pl_enable b)(core_id b := (\<lambda>i. if i < 3 then 0 else pl_enable b (core_id b) i)),
    pl_priority := (if s_plic_priorities_init_flag b = 0 then (\<lambda>i. if int i < PLIC_NUM_SOURCES then 0 else pl_priority b i) else pl_priority b),
    s_plic_priorities_init_flag := (if s_plic_priorities_init_flag b = 0 then 1 else s_plic_priorities_init_flag b),
    pl_threshold := (pl_threshold b)(core_id b := 0),
    plic_instance := (plic_instance b)(core_id b := (\<lambda>i. if i < IRQN_MAX then no_inst else plic_instance b (core_id b) i))\<rparr>"
  define F where "F = (\<lambda>i :: nat. bindk plic_irq_claim (\<lambda>v. retk (if v > 0 \<and> i < 100 then Inl (i + 1) else Inr ())) :: ('a, nat + unit) B)"
  have run: "plic_init (s, b) = bindk (loopk 101 F 0) (\<lambda>_. modb (\<lambda>b. b\<lparr>mie := mie b OR MIP_MEIP\<rparr>)) (s, c)"
    unfolding plic_init_def c_def F_def by (cases "s_plic_priorities_init_flag b = 0") (simp_all add: getb_def getk_def modb_def modk_def cong: if_cong)
  obtain cs where l: "loopk (Suc 100) F 0 (s, c) = Ok () (s, c\<lparr>pl_claims := cs\<rparr>)"
    using claim_loop [of 0 100 s c] unfolding F_def by auto
  have "loopk 101 F 0 (s, c) = loopk (Suc 100) F 0 (s, c)" by (rule arg_cong [where f = "\<lambda>n. loopk n F 0 (s, c)"]) simp
  with l have "loopk 101 F 0 (s, c) = Ok () (s, c\<lparr>pl_claims := cs\<rparr>)" by (rule trans [rotated])
  then have "plic_init (s, b) = Ok () (s, c\<lparr>pl_claims := cs, mie := mie b OR MIP_MEIP\<rparr>)"
    unfolding run by (simp only: bindk_Ok) (simp add: modb_def modk_def c_def)
  then show ?thesis unfolding c_def by auto
qed

lemma booted:
  assumes "core_id b = 0" "plic_instance b 0 = (\<lambda>i. if i < IRQN_MAX then no_inst else p i)"
  shows "\<exists>c. bindk rs_init (\<lambda>_. sched_init_timer) (s, b) = Ok () (s, c) \<and> irqs_ok c \<and> pl_priority c 13 = PLIC_NUM_PRIORITIES \<and> pl_priority c 14 = PLIC_NUM_PRIORITIES \<and>
    bit (pl_enable c 0 0) 13 \<and> bit (pl_enable c 0 0) 14 \<and> tm_control c 0 0 = TIMER_CR_USER_MODE OR TIMER_CR_ENABLE \<and>
    pl_threshold c = pl_threshold b \<and> mie c = mie b"
  using assms
  by (simp add: rs_init_def sched_init_timer_def uart_irq_register_def in_uart_def modb_def modk_def plic_set_priority_def irq_out_of_range_def
      plic_irq_register_def plic_irq_enable_def getb_def getk_def retk_def timer_init_def in_timer_def timer_irq_register_def
      get_timer_irqn_by_device_and_channel_def timer_set_enable_def upd_control_def upd2_def irqs_ok_def irq_bit_def no_inst_def no_timer_def bit_simps)


text \<open>Start-up leaves every interrupt line of the kernel live: from whatever a board holds, \<open>plic_init\<close>, \<open>rs_init\<close> and the end of
  \<open>sched_init\<close> return, with the serial port and the clock registered as \<open>irqs_ok\<close> says and nothing else, both lines enabled at the
  highest priority, the threshold 0, the timer running and machine external interrupts enabled in \<open>mie\<close>.\<close>

theorem startup_registers:
  assumes "core_id b = 0"
  shows "\<exists>c. bindk plic_init (\<lambda>_. bindk rs_init (\<lambda>_. sched_init_timer)) (s, b) = Ok () (s, c) \<and> irqs_ok c \<and>
    pl_priority c 13 = PLIC_NUM_PRIORITIES \<and> pl_priority c 14 = PLIC_NUM_PRIORITIES \<and> bit (pl_enable c 0 0) 13 \<and> bit (pl_enable c 0 0) 14 \<and>
    tm_control c 0 0 = TIMER_CR_USER_MODE OR TIMER_CR_ENABLE \<and> pl_threshold c 0 = 0 \<and> mie c = mie b OR MIP_MEIP"
proof -
  obtain d where d: "plic_init (s, b) = Ok () (s, d)" "core_id d = 0" "plic_instance d 0 = (\<lambda>i. if i < IRQN_MAX then no_inst else plic_instance b 0 i)"
    "pl_threshold d 0 = 0" "mie d = mie b OR MIP_MEIP"
    using plic_init_run [of s b] assms by fastforce
  from booted [OF d(2,3), of s] d show ?thesis by (simp only: bindk_Ok) auto
qed

theorem startup_registers_witness: "\<exists>c. bindk plic_init (\<lambda>_. bindk rs_init (\<lambda>_. sched_init_timer)) (kernel_image, demo_board) = Ok () (kernel_image, c) \<and>
    irqs_ok c \<and> bit (pl_enable c 0 0) 14 \<and> mie c = MIP_MEIP"
proof -
  have "core_id demo_board = 0" "mie demo_board = 0" by (simp_all add: demo_board_def)
  with startup_registers [of demo_board kernel_image] show ?thesis by auto
qed

text \<open>A board after start-up, on which the line \<open>n\<close> is pending.\<close>

definition demo_irqs :: "u32 \<Rightarrow> board" where
  "demo_irqs n = (case bindk rs_init (\<lambda>_. sched_init_timer) (kernel_image, demo_board) of Ok _ t \<Rightarrow> (snd t)\<lparr>pl_claims := [n]\<rparr> | _ \<Rightarrow> demo_board)"

lemma demo_irqs_ok: "irqs_ok (demo_irqs n)" "claim_of (demo_irqs n) = n" "mip (demo_irqs n) = MIP_MEIP" "tm_intr_stat (demo_irqs n) 0 = 1" "ua_IIR (demo_irqs n) 2 = 4"
  "pl_completed (demo_irqs n) = []" "pl_threshold (demo_irqs n) = (\<lambda>_. 0)" "core_id (demo_irqs n) = 0" "int_num (demo_irqs n) = 0"
  "\<not> trap_from_interrupt (demo_irqs n)" "pl_priority (demo_irqs n) 14 = 7"
proof -
  have "\<exists>c. bindk rs_init (\<lambda>_. sched_init_timer) (kernel_image, demo_board) = Ok () (kernel_image, c) \<and> irqs_ok c"
    using booted [of demo_board "\<lambda>_. no_inst" kernel_image] by (auto simp: demo_board_def)
  then show "irqs_ok (demo_irqs n)" "claim_of (demo_irqs n) = n" by (auto simp: demo_irqs_def claim_of_def)
  show "mip (demo_irqs n) = MIP_MEIP" "tm_intr_stat (demo_irqs n) 0 = 1" "ua_IIR (demo_irqs n) 2 = 4" "pl_completed (demo_irqs n) = []" "pl_threshold (demo_irqs n) = (\<lambda>_. 0)"
    "core_id (demo_irqs n) = 0" "int_num (demo_irqs n) = 0" "\<not> trap_from_interrupt (demo_irqs n)" "pl_priority (demo_irqs n) 14 = 7"
    by (simp_all add: demo_irqs_def demo_board_def rs_init_def sched_init_timer_def uart_irq_register_def in_uart_def modb_def modk_def plic_set_priority_def irq_out_of_range_def
      plic_irq_register_def plic_irq_enable_def getb_def getk_def retk_def timer_init_def in_timer_def timer_irq_register_def
      get_timer_irqn_by_device_and_channel_def timer_set_enable_def upd_control_def Let_def)
qed

theorem machine_interrupt_refines_witness:
  "sim irqs_ok (machine_interrupt True 65 CAUSE_machine_external 0xC0000000 [] [] (kernel_image, demo_irqs 13))
     (machine_interrupt_handler (serial_rev_interrupt 65) CAUSE_machine_external 0xC0000000 [] [] kernel_image) \<and>
   sim irqs_ok (machine_interrupt True 65 CAUSE_machine_external 0xC0000000 [] [] (kernel_image, demo_irqs 14))
     (machine_interrupt_handler (timer_interrupt True) CAUSE_machine_external 0xC0000000 [] [] kernel_image)"
proof -
  have "dispatch True 65 (demo_irqs 13) = serial_rev_interrupt 65" "dispatch True 65 (demo_irqs 14) = timer_interrupt True"
    by (simp_all add: dispatch_def demo_irqs_ok bit_simps)
  then show ?thesis
    using machine_interrupt_refines [of "demo_irqs 13" True 65 CAUSE_machine_external "0xC0000000" "[]" "[]" kernel_image]
      machine_interrupt_refines [of "demo_irqs 14" True 65 CAUSE_machine_external "0xC0000000" "[]" "[]" kernel_image] by (simp add: demo_irqs_ok)
qed

section \<open>Completion\<close>

text \<open>What holds of the board when code returns, and when it first switches to another task.\<close>

definition out :: "(board \<Rightarrow> bool) \<Rightarrow> (board \<Rightarrow> bool) \<Rightarrow> (kstate \<times> board, 'a) res \<Rightarrow> bool" where
  "out S P r = (case r of Ok x s \<Rightarrow> P (snd s) | Sleep s k \<Rightarrow> S (snd s) | _ \<Rightarrow> True)"

lemma out_bindr: "out S P r \<Longrightarrow> (\<And>x s b. P b \<Longrightarrow> out S R (k x (s, b))) \<Longrightarrow> out S R (bindr r k)"
  by (cases r) (auto simp: out_def)

lemma out_bindk: "out S P (m s) \<Longrightarrow> (\<And>x s b. P b \<Longrightarrow> out S R (k x (s, b))) \<Longrightarrow> out S R (bindk m k s)"
  unfolding bindk_bindr by (rule out_bindr)

definition outk :: "(board \<Rightarrow> bool) \<Rightarrow> (kstate, 'a) B \<Rightarrow> bool" where
  "outk P m \<longleftrightarrow> (\<forall>s b. P b \<longrightarrow> out P P (m (s, b)))"

named_theorems out_intros "rules for code that keeps a property of the board up to its first switch"

lemma outk_bindk [out_intros]: "outk P m \<Longrightarrow> (\<And>x. outk P (k x)) \<Longrightarrow> outk P (bindk m k)"
  unfolding outk_def by (auto intro!: out_bindk [where P = P])

lemma outk_basic [out_intros]: "outk P (retk x)" "outk P faultk" "outk P (getb f)" "outk P (liftk m)"
proof -
  show "outk P (liftk m)" unfolding outk_def
  proof (intro allI impI)
    fix s b assume "P b"
    then show "out P P (liftk m (s, b))" by (cases "m s") (simp_all add: out_def liftk_def)
  qed
qed (simp_all add: outk_def out_def retk_def faultk_def getb_def getk_def)

lemma outk_modb: "(\<And>b. P b \<Longrightarrow> P (f b)) \<Longrightarrow> outk P (modb f)"
  by (simp add: outk_def out_def modb_def modk_def)

lemma outk_case [out_intros]: "(c \<Longrightarrow> outk P m) \<Longrightarrow> (\<not> c \<Longrightarrow> outk P n) \<Longrightarrow> outk P (if c then m else n)"
  "(c \<Longrightarrow> outk P u) \<Longrightarrow> outk P (whenk c u)" "outk P m \<Longrightarrow> outk P (in_timer d ch m)" "outk P m \<Longrightarrow> outk P (in_uart ch m)"
  by (simp_all add: whenk_def in_timer_def in_uart_def outk_basic)

lemma outk_option [out_intros]: "(q = None \<Longrightarrow> outk P m) \<Longrightarrow> (\<And>x. q = Some x \<Longrightarrow> outk P (n x)) \<Longrightarrow> outk P (case q of None \<Rightarrow> m | Some x \<Rightarrow> n x)"
  by (simp split: option.splits)

lemma outk_eachk [out_intros]: "(\<And>x. outk P (f x)) \<Longrightarrow> outk P (eachk f xs)"
  by (induction xs) (auto intro!: out_intros)

text \<open>The interrupt being served and the registers that \<open>interrupt_recover\<close> needs are as in \<open>b\<close>.\<close>

definition serving :: "board \<Rightarrow> board \<Rightarrow> bool" where
  "serving b x \<longleftrightarrow> core_id x = core_id b \<and> pl_completed x = pl_completed b \<and> pl_threshold x = pl_threshold b \<and> int_num x = int_num b \<and>
     int_threshold x = int_threshold b \<and> trap_from_interrupt x = trap_from_interrupt b"

lemma outk_drivers: "outk (serving b) (call_driver user rbr f x)"
proof -
  note defs = upd_control_def timer_set_enable_def ack_channel_def
  have t: "outk (serving b) (upd_control d ch g)" "outk (serving b) (ack_channel d ch)" "outk (serving b) (timer_set_enable d ch v)" for d ch g v
    unfolding defs by (intro out_intros outk_modb; simp add: serving_def)+
  have c: "outk (serving b) (call_kernel user rbr g y)" for g y unfolding call_kernel_def by (intro out_intros)
  have p: "outk (serving b) (call_ptr (call_kernel user rbr) q y)" for q y unfolding call_ptr_def by (intro out_intros c)
  have h: "outk (serving b) (timer_interrupt_handler (call_kernel user rbr) d)" for d
    unfolding timer_interrupt_handler_def timer_round_def timer_get_interrupt_status_def by (intro out_intros c t)
  have i: "outk (serving b) (timer_isr (call_kernel user rbr) y)" for y
    unfolding timer_isr_def timer_get_interrupt_status_def by (intro out_intros p outk_modb; simp add: serving_def)
  have u: "outk (serving b) (uart_irq_callback (call_kernel user rbr) y)" for y
    unfolding uart_irq_callback_def by (cases y) (auto intro!: out_intros p)
  show ?thesis unfolding call_driver_def using c h i u by (cases f) simp_all
qed



end
