(* ===== verification/Privilege.thy ===== *)
theory Privilege
  imports Prelude
begin

text \<open>
  The privilege level of the processor: \<open>riscvfunc/privilege.c\<close>, \<open>riscvfunc/core.c\<close>, and of the assembly part the entry and
  the return of a trap (\<open>trap/machine_trap.S\<close>) and \<open>fork_process_exit\<close> (\<open>kernel/sched_call.S\<close>).

  A program cannot ask the processor for its level. The kernel therefore keeps it in \<open>core_info\<close> and takes the level of the
  interrupted code from \<open>mstatus.mpp\<close>, which every trap overwrites and every \<open>mret\<close> sets to user mode. On this answer
  rests that the kernel is not preempted: \<open>do_timer\<close> calls the scheduler only if it interrupted user code, and
  \<open>machine_exception_handler\<close> stops the system at an access fault of the kernel itself.

  The record \<open>cpu\<close> holds what the processor has of this: its level, the fields \<open>mpp\<close> and \<open>spp\<close> of \<open>mstatus\<close>, the registers
  \<open>mepc\<close>, \<open>sepc\<close> and \<open>sscratch\<close>, and the program counter; \<open>hw_trap\<close>, \<open>mret\<close> and \<open>sret\<close> are the steps of the RISC-V
  processor. \<open>sscratch\<close> points to an entry of \<open>core_info\<close> and is its number here. A trap leaves its \<open>mstatus\<close>
  on the kernel stack; of the stack of a task the model has the list of these values, the innermost first. The messages
  are left out.
\<close>

section \<open>The processor and the entry of \<open>core_info\<close>\<close>

datatype privilege_level = privilege_level_user | privilege_level_supervisor | privilege_level_machine

record core_info_t =
  ci_need_mie_set :: ulong
  ci_core_id :: nat
  ci_privilege_level :: privilege_level

record cpu =
  cpu_hart :: nat
  cpu_mode :: privilege_level
  cpu_mpp :: privilege_level
  cpu_spp :: privilege_level
  cpu_mepc :: ulong
  cpu_sepc :: ulong
  cpu_pc :: ulong
  cpu_sscratch :: nat
  cpu_mscounteren :: ulong
  cpu_mucounteren :: ulong
  core_infos :: "nat \<Rightarrow> core_info_t"

abbreviation CORE_NUM :: nat where "CORE_NUM \<equiv> 2"

definition core_get_info :: "cpu \<Rightarrow> core_info_t" where
  "core_get_info c = core_infos c (cpu_sscratch c)"

definition set_info :: "(core_info_t \<Rightarrow> core_info_t) \<Rightarrow> cpu \<Rightarrow> cpu" where
  "set_info f c = c\<lparr>core_infos := (core_infos c)(cpu_sscratch c := f (core_get_info c))\<rparr>"

definition core_coreid :: "cpu \<Rightarrow> nat" where
  "core_coreid c = ci_core_id (core_get_info c)"

definition privilege_get_cur_level :: "cpu \<Rightarrow> privilege_level" where
  "privilege_get_cur_level c = ci_privilege_level (core_get_info c)"

definition privilege_init :: "privilege_level \<Rightarrow> cpu \<Rightarrow> cpu" where
  "privilege_init l = set_info (\<lambda>i. i\<lparr>ci_privilege_level := l\<rparr>)"

definition core_init :: "cpu \<Rightarrow> cpu" where
  "core_init c = (if cpu_hart c \<ge> CORE_NUM then c else
     let c = c\<lparr>cpu_sscratch := cpu_hart c\<rparr>;
         c = c\<lparr>cpu_mscounteren := cpu_mscounteren c OR 7\<rparr>;
         c = c\<lparr>cpu_mucounteren := cpu_mucounteren c OR 7\<rparr>;
         c = c\<lparr>core_infos := (core_infos c)(cpu_hart c := (core_infos c (cpu_hart c))\<lparr>ci_core_id := cpu_hart c\<rparr>)\<rparr>
     in privilege_init privilege_level_machine c)"

definition privilege_trap_entry :: "privilege_level \<Rightarrow> cpu \<Rightarrow> cpu" where
  "privilege_trap_entry l = set_info (\<lambda>i. i\<lparr>ci_privilege_level := l\<rparr>)"

definition privilege_get_previous_level :: "cpu \<Rightarrow> privilege_level" where
  "privilege_get_previous_level c = (case ci_privilege_level (core_get_info c) of
     privilege_level_machine \<Rightarrow> cpu_mpp c
   | privilege_level_supervisor \<Rightarrow> cpu_spp c
   | _ \<Rightarrow> privilege_level_user)"

definition privilege_trap_exit :: "ulong \<Rightarrow> cpu \<Rightarrow> ulong \<times> cpu" where
  "privilege_trap_exit epc c = (epc, set_info (\<lambda>i. i\<lparr>ci_privilege_level := privilege_get_previous_level c\<rparr>) c)"

text \<open>The processor: a trap to machine mode and the two instructions that leave a trap.\<close>

definition hw_trap :: "ulong \<Rightarrow> cpu \<Rightarrow> cpu" where
  "hw_trap tvec c = c\<lparr>cpu_mepc := cpu_pc c, cpu_mpp := cpu_mode c, cpu_mode := privilege_level_machine, cpu_pc := tvec\<rparr>"

definition mret :: "cpu \<Rightarrow> cpu" where
  "mret c = c\<lparr>cpu_mode := cpu_mpp c, cpu_mpp := privilege_level_user, cpu_pc := cpu_mepc c\<rparr>"

definition sret :: "cpu \<Rightarrow> cpu" where
  "sret c = c\<lparr>cpu_mode := cpu_spp c, cpu_spp := privilege_level_user, cpu_pc := cpu_sepc c\<rparr>"

definition privilege_to_supervisor :: "ulong \<Rightarrow> cpu \<Rightarrow> cpu" where
  "privilege_to_supervisor targetfunc c = (if ci_privilege_level (core_get_info c) \<noteq> privilege_level_machine then c else
     let c = set_info (\<lambda>i. i\<lparr>ci_privilege_level := privilege_level_supervisor\<rparr>) c
     in mret (c\<lparr>cpu_mpp := privilege_level_supervisor, cpu_mepc := targetfunc\<rparr>))"

definition privilege_to_user :: "ulong \<Rightarrow> cpu \<Rightarrow> cpu" where
  "privilege_to_user targetfunc c = (case ci_privilege_level (core_get_info c) of
     privilege_level_machine \<Rightarrow>
       let c = set_info (\<lambda>i. i\<lparr>ci_privilege_level := privilege_level_user\<rparr>) c
       in mret (c\<lparr>cpu_mpp := privilege_level_user, cpu_mepc := targetfunc\<rparr>)
   | privilege_level_supervisor \<Rightarrow>
       let c = set_info (\<lambda>i. i\<lparr>ci_privilege_level := privilege_level_user\<rparr>) c
       in sret (c\<lparr>cpu_spp := privilege_level_user, cpu_sepc := targetfunc\<rparr>)
   | _ \<Rightarrow> c)"

section \<open>Traps\<close>

text \<open>From the trap to the call of the handler: the value of \<open>mpp\<close> that goes to the stack, and the processor. From
  the handler, which returned \<open>epc\<close>, to \<open>mret\<close>: the level is noted before \<open>mstatus\<close> is restored from the stack.\<close>

definition machine_trap_entry :: "cpu \<Rightarrow> privilege_level \<times> cpu" where
  "machine_trap_entry c = (cpu_mpp c, privilege_trap_entry privilege_level_machine c)"

definition machine_handler_call_ok :: "privilege_level \<Rightarrow> ulong \<Rightarrow> cpu \<Rightarrow> cpu" where
  "machine_handler_call_ok saved epc c =
     (let c = snd (privilege_trap_exit epc (c\<lparr>cpu_mepc := epc\<rparr>)) in mret (c\<lparr>cpu_mpp := saved\<rparr>))"

text \<open>A new process starts here: nothing is restored but the program counter.\<close>

definition fork_process_exit :: "ulong \<Rightarrow> cpu \<Rightarrow> cpu" where
  "fork_process_exit epc c = mret (snd (privilege_trap_exit epc (c\<lparr>cpu_mepc := epc\<rparr>)))"

text \<open>The levels after each operation.\<close>

lemma level_set_info [simp]: "core_get_info (set_info f c) = f (core_get_info c)" "cpu_mode (set_info f c) = cpu_mode c"
  "cpu_mpp (set_info f c) = cpu_mpp c" "cpu_spp (set_info f c) = cpu_spp c" "cpu_pc (set_info f c) = cpu_pc c" "cpu_mepc (set_info f c) = cpu_mepc c"
  by (simp_all add: set_info_def core_get_info_def)

lemma level_upd [simp]: "core_get_info (c\<lparr>cpu_mode := m\<rparr>) = core_get_info c" "core_get_info (c\<lparr>cpu_mpp := m\<rparr>) = core_get_info c"
  "core_get_info (c\<lparr>cpu_spp := m\<rparr>) = core_get_info c" "core_get_info (c\<lparr>cpu_mepc := a\<rparr>) = core_get_info c"
  "core_get_info (c\<lparr>cpu_sepc := a\<rparr>) = core_get_info c" "core_get_info (c\<lparr>cpu_pc := a\<rparr>) = core_get_info c"
  by (simp_all add: core_get_info_def)

lemmas privilege_defs = privilege_get_cur_level_def privilege_get_previous_level_def privilege_trap_entry_def privilege_trap_exit_def
  hw_trap_def mret_def sret_def machine_trap_entry_def machine_handler_call_ok_def fork_process_exit_def

text \<open>The next level of the processor is noted before it is entered: both functions that lower the level leave it where
  \<open>core_info\<close> says, at the address given, if the noted level allows the change, and do nothing otherwise.\<close>

theorem privilege_to_levels:
  assumes "privilege_get_cur_level c = cpu_mode c"
  shows "privilege_get_cur_level (privilege_to_user a c) = cpu_mode (privilege_to_user a c)"
    and "privilege_get_cur_level (privilege_to_supervisor a c) = cpu_mode (privilege_to_supervisor a c)"
    and "cpu_mode c \<noteq> privilege_level_user \<Longrightarrow> cpu_mode (privilege_to_user a c) = privilege_level_user \<and> cpu_pc (privilege_to_user a c) = a"
    and "cpu_mode c = privilege_level_machine \<Longrightarrow>
      cpu_mode (privilege_to_supervisor a c) = privilege_level_supervisor \<and> cpu_pc (privilege_to_supervisor a c) = a"
    and "cpu_mode c = privilege_level_user \<Longrightarrow> privilege_to_user a c = c \<and> privilege_to_supervisor a c = c"
  using assms by (auto simp: privilege_to_user_def privilege_to_supervisor_def privilege_defs Let_def split: privilege_level.splits)

section \<open>Runs\<close>

text \<open>A trap is an exception or an interrupt; the value with it is the saved \<open>mpp\<close>. A task that is not running has its frames
  on its stack, or is a new process whose stack leads to \<open>fork_process_exit\<close>.\<close>

datatype trap_kind = Exception | Interrupt

type_synonym frames = "(trap_kind \<times> privilege_level) list"

datatype waiting = Suspended frames | Forked

record system =
  sy_cpu :: cpu
  sy_frames :: frames
  sy_tasks :: "nat \<rightharpoonup> waiting"
  sy_current :: nat

definition take_trap :: "trap_kind \<Rightarrow> ulong \<Rightarrow> system \<Rightarrow> system" where
  "take_trap k tvec y = (let (saved, c) = machine_trap_entry (hw_trap tvec (sy_cpu y)) in y\<lparr>sy_cpu := c, sy_frames := (k, saved) # sy_frames y\<rparr>)"

text \<open>\<open>switch_to_tss\<close> changes the stack and nothing of the processor that is modelled here.\<close>

definition switch_stack :: "nat \<Rightarrow> ulong \<Rightarrow> system \<Rightarrow> system" where
  "switch_stack p epc y = (let old = (sy_tasks y)(sy_current y \<mapsto> Suspended (sy_frames y), p := None) in
     case sy_tasks y p of
       None \<Rightarrow> y
     | Some (Suspended fs) \<Rightarrow> y\<lparr>sy_frames := fs, sy_tasks := old, sy_current := p\<rparr>
     | Some Forked \<Rightarrow> y\<lparr>sy_cpu := fork_process_exit epc (sy_cpu y), sy_frames := [], sy_tasks := old, sy_current := p\<rparr>)"

text \<open>The steps. All lines of the board have the highest priority and \<open>handle_irq_m_ext\<close> raises the threshold to it, so a handler
  of an interrupt is not interrupted; everything else is, start-up included. An exception in machine mode stops
  the system. A system call or a page fault may sleep; an interrupt changes the task only in \<open>do_timer\<close>, under its
  condition.\<close>

inductive sstep :: "system \<Rightarrow> system \<Rightarrow> bool" where
  interrupt: "sy_frames y = [] \<or> fst (hd (sy_frames y)) = Exception \<Longrightarrow> sstep y (take_trap Interrupt tvec y)"
| exception: "cpu_mode (sy_cpu y) \<noteq> privilege_level_machine \<Longrightarrow> sstep y (take_trap Exception tvec y)"
| trap_return: "sy_frames y = (k, saved) # fs \<Longrightarrow> sstep y (y\<lparr>sy_cpu := machine_handler_call_ok saved epc (sy_cpu y), sy_frames := fs\<rparr>)"
| enter_user: "sy_frames y = [] \<Longrightarrow> cpu_mode (sy_cpu y) = privilege_level_machine \<Longrightarrow> sstep y (y\<lparr>sy_cpu := privilege_to_user a (sy_cpu y)\<rparr>)"
| fork: "sy_frames y = (Exception, saved) # fs \<Longrightarrow> p \<noteq> sy_current y \<Longrightarrow> sy_tasks y p = None \<Longrightarrow> sstep y (y\<lparr>sy_tasks := (sy_tasks y)(p \<mapsto> Forked)\<rparr>)"
| sleep: "sy_frames y = (Exception, saved) # fs \<Longrightarrow> sstep y (switch_stack p epc y)"
| tick: "sy_frames y = (Interrupt, saved) # fs \<Longrightarrow> privilege_get_previous_level (sy_cpu y) = privilege_level_user \<Longrightarrow> sstep y (switch_stack p epc y)"

inductive_cases sstepE: "sstep y z"

inductive sreach :: "system \<Rightarrow> bool" where
  boot: "cpu_mode c = privilege_level_machine \<Longrightarrow> cpu_hart c < CORE_NUM \<Longrightarrow>
    sreach \<lparr>sy_cpu = core_init c, sy_frames = [], sy_tasks = (\<lambda>_. None), sy_current = 0\<rparr>"
| step: "sreach y \<Longrightarrow> sstep y z \<Longrightarrow> sreach z"

text \<open>At most two traps are nested: an interrupt in the handler of an exception that came from user mode, or a single
  trap, from user mode or, during start-up, an interrupt from machine mode.\<close>

definition nesting_ok :: "system \<Rightarrow> bool" where
  "nesting_ok y \<longleftrightarrow> (let c = sy_cpu y; fs = sy_frames y in
     fs = [] \<and> (cpu_mode c = privilege_level_user \<or> cpu_mode c = privilege_level_machine) \<or>
     cpu_mode c = privilege_level_machine \<and>
       ((\<exists>k. fs = [(k, privilege_level_user)]) \<and> cpu_mpp c = privilege_level_user \<or>
        (fs = [(Interrupt, privilege_level_machine)] \<or> fs = [(Interrupt, privilege_level_machine), (Exception, privilege_level_user)]) \<and>
          cpu_mpp c = privilege_level_machine))"

definition suspended_ok :: "system \<Rightarrow> bool" where
  "suspended_ok y \<longleftrightarrow> (\<forall>p fs. sy_tasks y p = Some (Suspended fs) \<longrightarrow> (\<exists>k. fs = [(k, privilege_level_user)]))"

definition level_inv :: "system \<Rightarrow> bool" where
  "level_inv y \<longleftrightarrow> privilege_get_cur_level (sy_cpu y) = cpu_mode (sy_cpu y) \<and> nesting_ok y \<and> suspended_ok y"

lemma level_inv_switch:
  assumes "level_inv y" "sy_frames y = [(k, privilege_level_user)]"
  shows "level_inv (switch_stack p epc y)"
  using assms by (auto simp: level_inv_def nesting_ok_def suspended_ok_def switch_stack_def privilege_defs Let_def split: option.split waiting.split)

lemma level_inv_step: "level_inv y \<Longrightarrow> sstep y z \<Longrightarrow> level_inv z"
proof (erule sstepE, goal_cases)
  case (6 saved fs p epc)
  then have "sy_frames y = [(Exception, privilege_level_user)]" by (auto simp: level_inv_def nesting_ok_def Let_def)
  with 6 show ?case by (auto intro: level_inv_switch)
next
  case (7 saved fs p epc)
  then have "sy_frames y = [(Interrupt, privilege_level_user)]" by (auto simp: level_inv_def nesting_ok_def Let_def privilege_defs)
  with 7 show ?case by (auto intro: level_inv_switch)
qed (auto simp: level_inv_def nesting_ok_def suspended_ok_def take_trap_def privilege_defs privilege_to_user_def Let_def split: if_splits)

lemma level_inv_boot: "cpu_hart c < CORE_NUM \<Longrightarrow> cpu_mode c = privilege_level_machine \<Longrightarrow>
    level_inv \<lparr>sy_cpu = core_init c, sy_frames = [], sy_tasks = (\<lambda>_. None), sy_current = 0\<rparr>"
  by (simp add: level_inv_def nesting_ok_def suspended_ok_def core_init_def privilege_init_def privilege_get_cur_level_def Let_def)

lemma level_inv_reach: "sreach y \<Longrightarrow> level_inv y"
  by (induction rule: sreach.induct) (simp_all add: level_inv_boot level_inv_step)


text \<open>A run: after start-up task 0 enters user mode and makes a system call that creates process 1; an interrupt comes and
  returns; the system call sleeps, process 1 starts in user mode and is interrupted by the clock.\<close>

definition demo_cpu :: cpu where
  "demo_cpu = \<lparr>cpu_hart = 0, cpu_mode = privilege_level_machine, cpu_mpp = privilege_level_supervisor, cpu_spp = privilege_level_user, cpu_mepc = 0,
     cpu_sepc = 0, cpu_pc = 0x80000000, cpu_sscratch = 1, cpu_mscounteren = 0, cpu_mucounteren = 0,
     core_infos = (\<lambda>_. \<lparr>ci_need_mie_set = 0, ci_core_id = 7, ci_privilege_level = privilege_level_user\<rparr>)\<rparr>"

definition demo_start :: system where
  "demo_start = \<lparr>sy_cpu = core_init demo_cpu, sy_frames = [], sy_tasks = (\<lambda>_. None), sy_current = 0\<rparr>"

definition demo_call :: system where
  "demo_call = (let y = take_trap Exception 0x80001000 (demo_start\<lparr>sy_cpu := privilege_to_user 0xC0000000 (sy_cpu demo_start)\<rparr>) in
     y\<lparr>sy_tasks := (sy_tasks y)(1 \<mapsto> Forked)\<rparr>)"

definition demo_tick :: system where
  "demo_tick = (let y = take_trap Interrupt 0x80001000 demo_call;
     y = y\<lparr>sy_cpu := machine_handler_call_ok privilege_level_machine 0x80002000 (sy_cpu y), sy_frames := tl (sy_frames y)\<rparr> in
     take_trap Interrupt 0x80001000 (switch_stack 1 0xC0000004 y))"

lemmas demo_system_defs = demo_tick_def demo_call_def demo_start_def take_trap_def switch_stack_def privilege_defs privilege_to_user_def
  core_init_def privilege_init_def Let_def

lemma demo_call_reach: "sreach demo_call" "sy_frames demo_call = [(Exception, privilege_level_user)]"
proof -
  have b: "sreach demo_start" unfolding demo_start_def by (rule sreach.boot) (simp_all add: demo_cpu_def)
  let ?u = "demo_start\<lparr>sy_cpu := privilege_to_user 0xC0000000 (sy_cpu demo_start)\<rparr>" and ?y = "take_trap Exception 0x80001000"
  have "sreach ?u" by (rule sreach.step [OF b sstep.enter_user]) (simp_all add: demo_system_defs demo_cpu_def set_info_def core_get_info_def)
  then have "sreach (?y ?u)" by (rule sreach.step) (rule sstep.exception, simp add: demo_system_defs demo_cpu_def set_info_def core_get_info_def)
  then show "sreach demo_call" unfolding demo_call_def Let_def
    by (rule sreach.step) (rule sstep.fork [of _ privilege_level_user "[]"],
      simp_all add: demo_system_defs demo_cpu_def set_info_def core_get_info_def)
  show "sy_frames demo_call = [(Exception, privilege_level_user)]" by (simp add: demo_system_defs demo_cpu_def set_info_def core_get_info_def)
qed

lemma demo_tick_reach: "sreach demo_tick"
proof -
  let ?i = "take_trap Interrupt 0x80001000 demo_call"
  let ?r = "?i\<lparr>sy_cpu := machine_handler_call_ok privilege_level_machine 0x80002000 (sy_cpu ?i), sy_frames := tl (sy_frames ?i)\<rparr>"
  have "cpu_mode (sy_cpu demo_call) = privilege_level_machine" using level_inv_reach [OF demo_call_reach(1)] demo_call_reach(2)
    by (auto simp: level_inv_def nesting_ok_def Let_def)
  then have f: "sy_frames ?i = [(Interrupt, privilege_level_machine), (Exception, privilege_level_user)]"
    by (simp add: take_trap_def privilege_defs demo_call_reach(2) Let_def)
  have "sreach ?i" by (rule sreach.step [OF demo_call_reach(1) sstep.interrupt]) (simp add: demo_call_reach(2))
  then have "sreach ?r" unfolding f list.sel by (rule sreach.step) (rule sstep.trap_return, rule f)
  then have "sreach (switch_stack 1 0xC0000004 ?r)" by (rule sreach.step) (rule sstep.sleep [of _ privilege_level_user "[]"], simp add: f)
  then show ?thesis unfolding demo_tick_def Let_def
    by (rule sreach.step) (rule sstep.interrupt, simp add: switch_stack_def demo_call_def take_trap_def Let_def split: prod.split)
qed


text \<open>What the equal priorities of the interrupt lines are needed for: if the handler of an interrupt that came in the middle of
  a system call were itself interrupted, it would afterwards see user mode as the level it interrupted, and a clock handler
  would call the scheduler in the middle of that system call.\<close>

theorem third_trap_loses_level:
  assumes "sreach y" "sy_frames y = [(Interrupt, privilege_level_machine), (Exception, privilege_level_user)]"
  shows "privilege_get_previous_level (machine_handler_call_ok privilege_level_machine epc (sy_cpu (take_trap Interrupt tvec y))) = privilege_level_user"
  using level_inv_reach [OF assms(1)] assms(2) by (auto simp: level_inv_def nesting_ok_def take_trap_def privilege_defs Let_def)

end
