(* ===== verification/Spec2Isabelle.thy ===== *)
theory Spec2Isabelle
  imports Inode_Props Paging_Props Fork_Space Read_Path Proc_Props Exec_Props Races Kernel Irq Privilege
begin

text \<open>
  \<^bold>\<open>A port of Linux 0.11 to the K210 (RISC-V): model and proofs.\<close>

  The program, under \<open>src/src_test/\<close>, is a small Unix kernel in C for one processor: a physical page allocator with
  three-level page tables (\<open>mm\<close>, \<open>riscvfunc\<close>), a priority scheduler with sleep queues and timers, processes and
  signals (\<open>kernel\<close>), a block layer with an elevator queue and a ram disk, terminals with ring buffers (\<open>kernel/blk_drv\<close>,
  \<open>kernel/chr_drv\<close>), a buffer cache, the Minix file system and program loading (\<open>fs\<close>), and the start-up and trap
  code that ties them together (\<open>startup\<close>, \<open>trap\<close>, \<open>kernel/system_call.S\<close>).

  \<^bold>\<open>How the parts interact.\<close> A trap from a user program enters \<open>machine_exception_handler\<close>, which goes to the page fault
  code or through \<open>system_call\<close> and \<open>sys_call_table\<close> to a system call. The file calls go through the file table to
  regular files, devices, pipes and terminals; regular files map their blocks through the inode to the disk and move
  them through the buffer cache, which calls the block layer. Whoever has to wait for a lock, a buffer, a terminal or
  a child calls \<open>sleep_on\<close> and so \<open>schedule\<close>. Every access to user memory translates the address in the page table of the
  current task.

  \<^bold>\<open>State and effects.\<close> The globals of the C files are the fields of one record \<open>kstate\<close> (theory \<open>KState\<close>); pointers into
  tables are indices, memory is a function from 64-bit addresses to bytes, integers have their C widths. An operation
  is a function from the state to an outcome (theory \<open>Prelude\<close>): \<open>Ok\<close> with a result and a state, \<open>Panic\<close>, \<open>Sleep s k\<close> when the
  task has switched to another one (\<open>k\<close> is how it goes on when it is chosen again), \<open>Die\<close> when the current process is to run \<open>do_exit\<close>, \<open>Fault\<close> for a NULL pointer or
  an index out of range, \<open>NoFuel\<close> when a bound of the model is exhausted or the source loops for ever.

  \<^bold>\<open>Theories\<close>, each named after the source it models:
  \<^item> \<open>Prelude\<close>, \<open>Links\<close>, \<open>Ring\<close>, \<open>Layout\<close>: combinators and the invariant calculus \<open>keeps\<close>; linked lists threaded through
    an array; ring buffers and the locale \<open>fifo\<close>; the on-disk structures as bytes.
  \<^item> \<open>KState\<close>: the structures of \<open>include/linux\<close>.
  \<^item> \<open>Page_Alloc\<close>, \<open>Pte\<close>, \<open>Paging\<close>, \<open>Paging_Props\<close>, \<open>Uaccess\<close>: \<open>mm/memory.c\<close>, \<open>riscvfunc/page_table_entry.c\<close>,
    \<open>kernel/segment.c\<close>. The allocator returns the highest unused page, or the run of pages asked for whenever one exists;
    a page mapped by \<open>put_page\<close> is where the translation leads; the private copy after a write to a shared page
    holds only its first eight bytes.
  \<^item> \<open>Fork_Space\<close>: the address space that \<open>fork\<close> makes. The copied tables lead every address to the page of the parent,
    read-only on both sides and counted; \<open>copy_mem\<close> asks for the first 2 MB only.
  \<^item> \<open>Sched\<close>: \<open>kernel/sched.c\<close>. \<open>schedule\<close> ends in at most two rounds and chooses a runnable task with the largest counter;
    \<open>sleep_on\<close> loses all but the last task that waits on a queue.
  \<^item> \<open>Block\<close>: \<open>kernel/blk_drv\<close>. A transfer on the ram disk moves exactly one block; the queue is in elevator order.
  \<^item> \<open>Buffer\<close>, \<open>Buffer_Cache\<close>, \<open>Buffer_Ops\<close>: \<open>fs/buffer.c\<close>. The pointer structures refine abstract lists; every read
    through the cache delivers the logical content of the block, whatever is evicted on the way.
  \<^item> \<open>Icache\<close>, \<open>Inode\<close>, \<open>Super\<close>, \<open>Inode_IO\<close>, \<open>Inode_Props\<close>: \<open>fs/inode.c\<close>, \<open>fs/bitmap.c\<close>, \<open>fs/truncate.c\<close>, \<open>fs/super.c\<close>.
    Inodes survive the way to the disk and back; the block map equals the abstract layout of direct and
    indirect blocks; allocated blocks are fresh.
  \<^item> \<open>Namei\<close>, \<open>Dir_Props\<close>: \<open>fs/namei.c\<close>. A directory block is a finite map, \<open>find_entry\<close> its lookup, \<open>add_entry\<close> its update.
  \<^item> \<open>Itable\<close>, \<open>Path_Props\<close>, \<open>Open_Props\<close>, \<open>Read_Path\<close>: the inode table and the disk represent a map from inode numbers to inodes, \<open>iget\<close> reads
    it through the table; \<open>namei\<close> is the walk through its directories, \<open>sys_open\<close> gives a descriptor for the inode found,
    and \<open>sys_read\<close> on it delivers the bytes of the file the path leads to.
  \<^item> \<open>Tty\<close>, \<open>Tty_Props\<close>: \<open>kernel/chr_drv\<close>. The queues are bounded queues; a typed line is what a read delivers.
  \<^item> \<open>Files\<close>, \<open>Files_Props\<close>, \<open>File_IO\<close>: \<open>fs/file_dev.c\<close>, \<open>block_dev.c\<close>, \<open>pipe.c\<close>, \<open>char_dev.c\<close>, \<open>read_write.c\<close>, \<open>open.c\<close>,
    \<open>fcntl.c\<close>, \<open>stat.c\<close>, \<open>ioctl.c\<close>. Reads and writes of files move exactly the bytes of the file; pipes are byte streams.
  \<^item> \<open>Procs\<close>, \<open>Proc_Props\<close>: \<open>kernel/sys.c\<close>, \<open>fork.c\<close>, \<open>exit.c\<close>, \<open>signal.c\<close>. \<open>Exec\<close>, \<open>Exec_Props\<close>: \<open>fs/exec.c\<close>.
    \<open>Mktime\<close>: \<open>kernel/mktime.c\<close>, compared with the calendar.
  \<^item> \<open>Kernel\<close>: \<open>startup/machine_main.c\<close>, \<open>include/linux/sys.h\<close>, \<open>kernel/system_call.S\<close>, \<open>trap/machine_exception.c\<close>,
    \<open>trap/machine_interrupt.c\<close>, and the step relation of the whole system: its configurations are the state and the
    suspended kernel paths of the sleeping tasks, its steps the traps of the running program, its stores, and the
    resumption of a task that has been chosen again. This theory: what holds in every state of every run.
  \<^item> \<open>Board\<close>, \<open>Board_Props\<close>, \<open>Irq\<close>: \<open>drivers/plic.c\<close>, \<open>timer.c\<close>, \<open>uart.c\<close>, the state a pair of kernel and device registers. With
    the handlers registered at start-up, \<open>machine_interrupt\<close> (the handler with the drivers) refines
    \<open>machine_interrupt_handler\<close> with the handler it dispatches to as argument, which \<open>Kernel\<close> uses; a claimed interrupt is
    completed on every path, also when the handler has switched to another task.
  \<^item> \<open>Privilege\<close>: \<open>riscvfunc/privilege.c\<close>, \<open>core.c\<close>, the entry and return of traps in \<open>trap/machine_trap.S\<close>. The level the kernel notes
    is that of the processor, in every nesting of traps and across task switches; a task is suspended only in a single trap from user
    mode. This gives the arguments \<open>user\<close> of \<open>do_timer\<close> and \<open>from_machine\<close> of \<open>machine_exception_handler\<close> their meaning.
  \<^item> \<open>Races\<close>: what code that sleeps may rely on when it goes on; \<open>getblk\<close> returns the one buffer of the block, whatever
    the other tasks have done meanwhile.

  \<^bold>\<open>Interfaces.\<close> \<open>page_pool\<close> (what users of the allocator rely on, interpreted as \<open>pp\<close>), \<open>sched_inv\<close> and its extension
  \<open>buffer_inv\<close> (what an invariant needs so that scheduler and cache operations keep it; interpreted for the
  cache invariant as \<open>cache\<close> and for the invariant of the kernel as \<open>kv\<close>), \<open>disk\<close> (what the cache relies on of a driver, the ram
  disk as \<open>rd\<close>), \<open>block_store\<close> (what the file system relies on of the cache, \<open>bs\<close>), \<open>fifo\<close> (terminal queues, \<open>tq\<close>).

  \<^bold>\<open>Bounds.\<close> Loops that are not structural have fuel, and the theorems about their results prove that it is enough:
  65 candidates for a process id (64 tasks can refuse 64), 70 rounds of the scheduler (two are enough when a
  priority is positive), 4096 characters of a path or of a terminal queue of 1024, 131072 bytes
  of arguments (the limit of \<open>copy_strings\<close>), 40 levels of the recursion of \<open>getblk\<close> through \<open>sync_dev\<close> and \<open>write_inode\<close>.
  A loop that waits goes round once for every time the task is woken. There is no bound on that in the code; the model
  follows \<open>WAIT_FUEL\<close>, 2^32, rounds, and a path that waited longer has the outcome \<open>NoFuel\<close>.

  \<^bold>\<open>Interleaving.\<close> A task runs in the kernel without interruption from one switch to the next. The code unmasks interrupts
  during system calls; in the model an interrupt that arrives then is taken when the task leaves the kernel or switches
  (\<open>Privilege\<close> has interrupts inside system calls, and shows that they do not switch to another task).

  \<^bold>\<open>Not modelled\<close>, and why: console output (\<open>printk\<close>, \<open>syslog\<close>: nothing reads it); the assembly that saves and restores
  registers and the other control registers of the processor; the traps to supervisor mode (nothing enters that mode); the set-up of
  clocks, pins and baud rates and the drivers the kernel does not call (\<open>drivers\<close>, \<open>bsp\<close>, a vendored SDK); the page directory checksums (only called from code that is commented out); the user programs
  (\<open>init\<close>, \<open>user\<close>), superseded files (\<open>fs/bak\<close>) and the compiler (\<open>tools\<close>).
\<close>

section \<open>Properties of the whole kernel\<close>

text \<open>A small machine: two buffers, any registers.\<close>

definition demo_boot :: kstate where
  "demo_boot = (case machine_main 0x80400000 0 2176 (\<lambda>_. zero_buffer) (kernel_image\<lparr>rd_mem := (\<lambda>_. 7)\<rparr>) of Ok _ t \<Rightarrow> t | _ \<Rightarrow> kernel_image)"

lemma demo_boot_ok: "reachable (demo_boot, Map.empty)" "t_alarm (tasks demo_boot p) = 0" "t_signal (tasks demo_boot p) = 0"
proof -
  have zb: "length (b_data zero_buffer) = BLOCK_SIZE" by (simp add: zero_buffer_def)
  obtain t where t: "machine_main 0x80400000 0 2176 (\<lambda>_. zero_buffer) (kernel_image\<lparr>rd_mem := (\<lambda>_. 7)\<rparr>) = Ok () t"
    "\<forall>p. t_alarm (tasks t p) = 0 \<and> t_signal (tasks t p) = 0"
    using machine_main_boots [of 0 2176 "\<lambda>_. zero_buffer" "0x80400000" "\<lambda>_. 7"] zb demo_count by auto
  from reachable.boot [OF _ _ t(1)] zb demo_count show "reachable (demo_boot, Map.empty)" by (simp add: demo_boot_def t(1))
  show "t_alarm (tasks demo_boot p) = 0" "t_signal (tasks demo_boot p) = 0" using t(2) by (simp_all add: demo_boot_def t(1))
qed

lemma reachable_ok: "reachable c \<Longrightarrow> conf_ok c"
proof (induction rule: reachable.induct)
  case (boot start buffer_end junk dir im s)
  obtain t where "machine_main dir start buffer_end junk (kernel_image\<lparr>rd_mem := im\<rparr>) = Ok () t" "kinv t"
    using machine_main_boots [of start buffer_end junk dir im, OF boot(1,2)] by blast
  with boot(3) show ?case by (simp add: conf_ok_def)
qed (rule kstep_ok)

lemma reachable_kinv: "reachable (s, K) \<Longrightarrow> kinv s"
  by (drule reachable_ok) (simp add: conf_ok_def)



text \<open>A pass over the tasks keeps what the update of one task keeps.\<close>

lemma map_tasks_keeps:
  assumes "\<And>t. P t \<Longrightarrow> P (F t) \<and> g (F t) = g t" "\<forall>p. P (tasks s p)"
  shows "g (tasks (map_tasks F s) p) = g (tasks s p)"
proof -
  have "(\<forall>p. P (tasks (fold (map_slot F) is s) p)) \<and> g (tasks (fold (map_slot F) is s) p) = g (tasks s p)" for "is"
    using assms(2) by (induction "is" arbitrary: s) (auto simp: map_slot_def Let_def assms(1) dest!: meta_spec)
  then show ?thesis by (simp add: map_tasks_def)
qed

text \<open>C2: the search for a buffer has no race. However often \<open>getblk\<close> sleeps on the way (for an unused buffer, for a
  lock, while it writes out dirty blocks) and whatever the other tasks do to the cache meanwhile, when it returns it
  returns an unlocked buffer that belongs to the block asked for, and no other buffer does.\<close>

theorem getblk_race_free:
  assumes "kinv s" "0 < dev" "dev < 2 ^ 16"
  shows "ends kinv (\<lambda>b t. b < length (bufs t) \<and> bh_is dev block (bufs t ! b) \<and> b_lock (bufs t ! b) = 0 \<and>
    (\<forall>c. c < length (bufs t) \<and> bh_is dev block (bufs t ! c) \<longrightarrow> c = b)) (getblk dev block s)"
  by (rule ends_mono [OF getblk_ends [OF assms]]) (use buf_of_unique [OF _ assms(2)] in \<open>auto simp: buf_of_def free_buf_def\<close>)

theorem getblk_race_free_witness: "ends kinv (\<lambda>b t. bh_is 0x101 3 (bufs t ! b) \<and> b_lock (bufs t ! b) = 0) (getblk 0x101 3 demo_boot)"
  by (rule ends_mono [OF getblk_race_free [OF reachable_kinv [OF demo_boot_ok(1)]]]) simp_all



end
